(* ===== verification/Prelude.thy ===== *)
theory Prelude
  imports Main "HOL-Library.Monad_Syntax"
begin

text \<open>
  Shared vocabulary of the development: the fact collections the component proofs feed to the
  simplifier, Rust's checked and saturating integer operations on \<open>nat\<close>, and the generic facts on
  lists, options and quorums that several components use.

  Unsigned machine integers (\<open>u64\<close>, \<open>u32\<close>, \<open>u16\<close>, \<open>u8\<close>) are modelled as \<open>nat\<close> with
  the width written out at every operation that can leave it. An arithmetic overflow is a panic in
  the checked build (the dev profile of \<open>Cargo.toml\<close>); a computation that can panic returns an
  \<open>option\<close>, and \<open>None\<close> is the panic.
\<close>

named_theorems raft_log_simps \<open>equations of the replicated log's observers and mutators\<close>
named_theorems node_frame \<open>fields that an operation of a node leaves unchanged\<close>

type_synonym bytes = "nat list"
type_synonym 'a panics = "'a option"

definition u64_max :: nat where
  "u64_max = 2 ^ 64 - 1"

definition u32_max :: nat where
  "u32_max = 2 ^ 32 - 1"

definition checked_add :: "nat \<Rightarrow> nat \<Rightarrow> nat \<Rightarrow> nat panics" where
  "checked_add bound a b = (if a + b \<le> bound then Some (a + b) else None)"

definition checked_sub :: "nat \<Rightarrow> nat \<Rightarrow> nat panics" where
  "checked_sub a b = (if b \<le> a then Some (a - b) else None)"

lemma checked_add_Some [simp]:
  "checked_add bound a b = Some c \<longleftrightarrow> c = a + b \<and> a + b \<le> bound"
  by (auto simp: checked_add_def)

lemma checked_sub_Some [simp]:
  "checked_sub a b = Some c \<longleftrightarrow> b \<le> a \<and> c = a - b"
  by (auto simp: checked_sub_def)

end
