(* ===== verification/Decimal.thy ===== *)
theory Decimal
  imports Prelude "HOL-Library.List_Lexorder"
begin

text \<open>
  Decimal rendering and parsing of unsigned integers as the crate uses them: \<open>to_string\<close> for resource
  versions, \<open>{:020}\<close> for sortable keys, \<open>parse::<u64>()\<close> for what comes back from clients.
\<close>

definition ascii :: "string \<Rightarrow> bytes" where
  "ascii = map of_char"

text \<open>Rust's \<open>Display\<close> of an unsigned integer, and its zero padding to a width.\<close>

fun dec_digits :: "nat \<Rightarrow> bytes" where
  "dec_digits n = (if n < 10 then [48 + n] else dec_digits (n div 10) @ [48 + n mod 10])"

declare dec_digits.simps [simp del]

definition zero_pad :: "nat \<Rightarrow> nat \<Rightarrow> bytes" where
  "zero_pad width n = replicate (width - length (dec_digits n)) 48 @ dec_digits n"

fun fixed_digits :: "nat \<Rightarrow> nat \<Rightarrow> bytes" where
  "fixed_digits 0 n = []"
| "fixed_digits (Suc w) n = fixed_digits w (n div 10) @ [48 + n mod 10]"

lemma fixed_digits_0: "fixed_digits w 0 = replicate w 48"
  by (induction w) (auto simp flip: replicate_append_same)

lemma length_fixed_digits [simp]: "length (fixed_digits w n) = w"
  by (induction w arbitrary: n) auto

lemma zero_pad_fixed: "n < 10 ^ w \<Longrightarrow> 0 < w \<Longrightarrow> length (dec_digits n) \<le> w \<and> zero_pad w n = fixed_digits w n"
proof (induction w arbitrary: n)
  case (Suc w)
  show ?case
  proof (cases "n < 10")
    case True
    then show ?thesis
      by (simp add: zero_pad_def dec_digits.simps [of n] fixed_digits_0)
  next
    case False
    with Suc.prems have w: "0 < w" by (cases w) auto
    have "n div 10 < 10 ^ w" using Suc.prems by (simp add: less_mult_imp_div_less mult.commute)
    from Suc.IH [OF this w] False show ?thesis
      by (auto simp: zero_pad_def dec_digits.simps [of n])
  qed
qed simp

lemma snoc_less:
  "length xs = length ys \<Longrightarrow> xs @ [x] < ys @ [y] \<longleftrightarrow> xs < ys \<or> xs = ys \<and> x < (y :: nat)"
  by (induction xs ys rule: list_induct2) auto

lemma less_by_digits: "a < b \<longleftrightarrow> a div 10 < b div 10 \<or> a div 10 = b div 10 \<and> a mod 10 < b mod (10 :: nat)"
proof -
  have "a = 10 * (a div 10) + a mod 10" "b = 10 * (b div 10) + b mod 10"
    "a mod 10 < 10" "b mod 10 < 10" by simp_all
  then show ?thesis by linarith
qed

lemma fixed_digits_less:
  "a < 10 ^ w \<Longrightarrow> b < 10 ^ w \<Longrightarrow> fixed_digits w a < fixed_digits w b \<longleftrightarrow> a < b"
proof (induction w arbitrary: a b)
  case (Suc w)
  have d: "a div 10 < 10 ^ w" "b div 10 < 10 ^ w"
    using Suc.prems by (simp_all add: less_mult_imp_div_less mult.commute)
  have less: "fixed_digits w x < fixed_digits w y \<longleftrightarrow> x < y" if "x < 10 ^ w" "y < 10 ^ w" for x y
    using Suc.IH that by blast
  have "fixed_digits w (a div 10) = fixed_digits w (b div 10) \<longleftrightarrow> a div 10 = b div 10"
    using less [OF d] less [OF d(2) d(1)] by (metis less_irrefl linorder_neqE_nat)
  with less [OF d] show ?case
    unfolding less_by_digits [of a b] by (simp add: snoc_less)
qed simp

lemma prefix_less: "(p @ xs < p @ ys) = (xs < (ys :: nat list))"
  by (induction p) auto

lemma u64_digits: "i \<le> u64_max \<Longrightarrow> i < 10 ^ 20"
  by (simp add: u64_max_def)

subsection \<open>Rendering and parsing\<close>

definition show_nat :: "nat \<Rightarrow> string" where
  "show_nat n = map char_of (dec_digits n)"

definition digit_value :: "char \<Rightarrow> nat option" where
  "digit_value c = (if 48 \<le> (of_char c :: nat) \<and> (of_char c :: nat) \<le> 57 then Some (of_char c - 48) else None)"

text \<open>\<open>from_str_radix(s, 10)\<close> on an unsigned type: an optional plus sign, digits only, no overflow.\<close>

fun parse_digits :: "nat \<Rightarrow> nat \<Rightarrow> string \<Rightarrow> nat option" where
  "parse_digits bound acc [] = Some acc"
| "parse_digits bound acc (c # cs) =
     (case digit_value c of
        None \<Rightarrow> None
      | Some d \<Rightarrow> (if acc * 10 + d \<le> bound then parse_digits bound (acc * 10 + d) cs else None))"

definition parse_uint :: "nat \<Rightarrow> string \<Rightarrow> nat option" where
  "parse_uint bound s =
     (case s of
        [] \<Rightarrow> None
      | c # cs \<Rightarrow> (if c = CHR ''+'' then (if cs = [] then None else parse_digits bound 0 cs)
                   else parse_digits bound 0 s))"

definition parse_u64 :: "string \<Rightarrow> nat option" where
  "parse_u64 = parse_uint u64_max"

lemma parse_digits_append:
  "parse_digits bound acc (xs @ ys) =
     (case parse_digits bound acc xs of None \<Rightarrow> None | Some a \<Rightarrow> parse_digits bound a ys)"
  by (induction bound acc xs rule: parse_digits.induct) (auto split: option.splits)

lemma digit_value_char: "d < 10 \<Longrightarrow> digit_value (char_of (48 + d :: nat)) = Some d"
  by (simp add: digit_value_def)

lemma parse_show_digits: "n \<le> bound \<Longrightarrow> parse_digits bound 0 (show_nat n) = Some n"
proof (induction n rule: less_induct)
  case (less n)
  show ?case
  proof (cases "n < 10")
    case True
    then show ?thesis
      using less.prems by (simp add: show_nat_def dec_digits.simps [of n] digit_value_char)
  next
    case False
    then have "parse_digits bound 0 (show_nat (n div 10)) = Some (n div 10)"
      using less.prems by (intro less.IH) auto
    moreover have "show_nat n = show_nat (n div 10) @ [char_of (48 + n mod 10)]"
      using False by (simp add: show_nat_def dec_digits.simps [of n])
    moreover have "digit_value (char_of (48 + n mod 10)) = Some (n mod 10)"
      by (rule digit_value_char) simp
    ultimately show ?thesis
      using less.prems by (simp add: parse_digits_append)
  qed
qed

lemma dec_digits_range: "x \<in> set (dec_digits n) \<Longrightarrow> 48 \<le> x \<and> x \<le> 57"
proof (induction n rule: less_induct)
  case (less n)
  show ?case
  proof (cases "n < 10")
    case True
    then show ?thesis using less.prems by (simp add: dec_digits.simps [of n])
  next
    case False
    have "n mod 10 < 10" by simp
    then show ?thesis
      using False less.prems less.IH [of "n div 10"] by (auto simp: dec_digits.simps [of n])
  qed
qed

lemma dec_digits_Nil: "dec_digits n \<noteq> []"
  by (cases "n < 10") (simp_all add: dec_digits.simps [of n])

lemma plus_not_digit: "digit_value (CHR ''+'') = None"
  by (simp add: digit_value_def)

lemma show_nat_hd: "\<exists>c cs. show_nat n = c # cs \<and> c \<noteq> CHR ''+''"
proof -
  obtain c cs where c: "show_nat n = c # cs"
    using dec_digits_Nil [of n] by (cases "dec_digits n") (auto simp: show_nat_def)
  have "c \<noteq> CHR ''+''"
    using parse_show_digits [of n n] plus_not_digit c by auto
  with c show ?thesis by blast
qed

lemma parse_show: "n \<le> bound \<Longrightarrow> parse_uint bound (show_nat n) = Some n"
  using show_nat_hd [of n] parse_show_digits [of n bound] by (auto simp: parse_uint_def)

lemma show_nat_inj: "show_nat a = show_nat b \<longleftrightarrow> a = b"
proof
  assume eq: "show_nat a = show_nat b"
  have "parse_uint (max a b) (show_nat a) = Some a" "parse_uint (max a b) (show_nat b) = Some b"
    by (rule parse_show, simp)+
  with eq show "a = b" by (metis option.inject)
qed simp

lemma show_nat_Nil [simp]: "show_nat n \<noteq> []"
  using show_nat_hd [of n] by auto

subsection \<open>Little-endian words\<close>

fun to_le :: "nat \<Rightarrow> nat \<Rightarrow> bytes" where
  "to_le 0 n = []"
| "to_le (Suc w) n = n mod 256 # to_le w (n div 256)"

fun from_le :: "bytes \<Rightarrow> nat" where
  "from_le [] = 0"
| "from_le (b # bs) = b + 256 * from_le bs"

lemma length_to_le [simp]: "length (to_le w n) = w"
  by (induction w arbitrary: n) auto

lemma from_to_le: "n < 256 ^ w \<Longrightarrow> from_le (to_le w n) = n"
proof (induction w arbitrary: n)
  case (Suc w)
  then have "n div 256 < 256 ^ w" by (simp add: less_mult_imp_div_less mult.commute)
  from Suc.IH [OF this] show ?case by simp
qed simp

end
