(* ===== verification/Sled.thy ===== *)
theory Sled
  imports Decimal "HOL-Library.Finite_Map"
begin

text \<open>
  The interface of the embedded key-value store \<^verbatim>\<open>sled\<close>, which is not part of the repository: a record of the
  operations the crate calls, on an abstract tree state, and the documented behaviour of a healthy
  tree as the predicate \<open>sled_laws\<close>. The definitions that use the store take the record as an argument.
\<close>

datatype io_error = SledError | JsonError

type_synonym 's io_unit = "'s \<times> (io_error + unit)"

record 's sled =
  sl_get :: "'s \<Rightarrow> bytes \<Rightarrow> io_error + bytes option"
  sl_insert :: "'s \<Rightarrow> bytes \<Rightarrow> bytes \<Rightarrow> 's io_unit"
  sl_remove :: "'s \<Rightarrow> bytes \<Rightarrow> 's io_unit"
  sl_flush :: "'s \<Rightarrow> 's io_unit"
  sl_scan_prefix :: "'s \<Rightarrow> bytes \<Rightarrow> (io_error + bytes \<times> bytes) list"

definition has_prefix :: "bytes \<Rightarrow> bytes \<Rightarrow> bool" where
  "has_prefix p k \<longleftrightarrow> take (length p) k = p"

text \<open>\<open>view\<close> is the tree's content. Scans run in byte order over the keys with the prefix.\<close>

definition sled_laws :: "'s sled \<Rightarrow> ('s \<Rightarrow> bytes \<rightharpoonup> bytes) \<Rightarrow> bool" where
  "sled_laws sl view \<longleftrightarrow>
     (\<forall>s k. sl_get sl s k = Inr (view s k)) \<and>
     (\<forall>s k v. \<exists>s'. sl_insert sl s k v = (s', Inr ()) \<and> view s' = (view s)(k \<mapsto> v)) \<and>
     (\<forall>s k. \<exists>s'. sl_remove sl s k = (s', Inr ()) \<and> view s' = (view s)(k := None)) \<and>
     (\<forall>s. \<exists>s'. sl_flush sl s = (s', Inr ()) \<and> view s' = view s) \<and>
     (\<forall>s p. \<exists>kvs. sl_scan_prefix sl s p = map Inr kvs \<and> sorted_wrt (<) (map fst kvs) \<and>
        set kvs = {(k, v). view s k = Some v \<and> has_prefix p k})"

lemmas sled_lawD =
  iffD1 [OF sled_laws_def, THEN conjunct1]
  iffD1 [OF sled_laws_def, THEN conjunct2, THEN conjunct1]
  iffD1 [OF sled_laws_def, THEN conjunct2, THEN conjunct2, THEN conjunct1]
  iffD1 [OF sled_laws_def, THEN conjunct2, THEN conjunct2, THEN conjunct2, THEN conjunct1]
  iffD1 [OF sled_laws_def, THEN conjunct2, THEN conjunct2, THEN conjunct2, THEN conjunct2]

text \<open>An ordered finite map is such a tree.\<close>

definition map_tree :: "(bytes, bytes) fmap sled" where
  "map_tree =
     \<lparr>sl_get = (\<lambda>s k. Inr (fmlookup s k)),
      sl_insert = (\<lambda>s k v. (fmupd k v s, Inr ())),
      sl_remove = (\<lambda>s k. (fmdrop k s, Inr ())),
      sl_flush = (\<lambda>s. (s, Inr ())),
      sl_scan_prefix = (\<lambda>s p. map (\<lambda>k. Inr (k, the (fmlookup s k)))
                            (filter (has_prefix p) (sorted_list_of_fset (fmdom s))))\<rparr>"

lemma map_tree_laws: "sled_laws map_tree fmlookup"
proof -
  have "\<exists>kvs. sl_scan_prefix map_tree s p = map Inr kvs \<and> sorted_wrt (<) (map fst kvs) \<and>
        set kvs = {(k, v). fmlookup s k = Some v \<and> has_prefix p k}" for s p
  proof (intro exI conjI)
    let ?kvs = "map (\<lambda>k. (k, the (fmlookup s k))) (filter (has_prefix p) (sorted_list_of_fset (fmdom s)))"
    show "sl_scan_prefix map_tree s p = map Inr ?kvs" by (simp add: map_tree_def)
    have "sorted_wrt (<) (sorted_list_of_fset (fmdom s))"
      by (simp add: sorted_list_of_fset.rep_eq)
    then show "sorted_wrt (<) (map fst ?kvs)" by (simp add: comp_def sorted_wrt_filter)
    show "set ?kvs = {(k, v). fmlookup s k = Some v \<and> has_prefix p k}"
      by (auto simp: fmlookup_dom_iff image_iff)
  qed
  then show ?thesis
    by (auto simp: sled_laws_def map_tree_def fun_eq_iff)
qed

end
