(* ===== verification/Resources.thy ===== *)
theory Resources
  imports Sled
begin

text \<open>
  The API resources: the shared envelope of \<^verbatim>\<open>src/meta.rs\<close> and the five kinds of \<^verbatim>\<open>src/pod.rs\<close>,
  \<^verbatim>\<open>src/node.rs\<close>, \<^verbatim>\<open>src/replicaset.rs\<close>, \<^verbatim>\<open>src/service.rs\<close> and \<^verbatim>\<open>src/endpoints.rs\<close>. A \<open>BTreeMap\<close> of labels is
  the list of its pairs in key order. The trait \<open>ResourceMeta\<close> is a record of functions with one instance
  per kind, and its contract (the accessors point at the embedded metadata, the status hooks leave it alone) is
  the locale \<open>resource_kind\<close>. Identifiers and timestamps that the source takes from a random
  generator or a clock are arguments.
\<close>

type_synonym string_map = "(string \<times> string) list"

record owner_reference =
  or_api_version :: string
  or_kind :: string
  or_name :: string
  or_uid :: string
  or_controller :: bool

record object_meta =
  om_name :: string
  om_uid :: "string option"
  om_resource_version :: "string option"
  om_generation :: "nat option"
  om_creation_timestamp :: "string option"
  om_labels :: string_map
  om_owner_references :: "owner_reference list"

definition object_meta_default :: object_meta where
  "object_meta_default =
     \<lparr>om_name = [], om_uid = None, om_resource_version = None, om_generation = None,
      om_creation_timestamp = None, om_labels = [], om_owner_references = []\<rparr>"

subsection \<open>Pods\<close>

datatype pod_phase = Pending | Running | Succeeded | Failed | Unknown

datatype container_status_state =
    Waiting
  | RunningSince string
  | Terminated int

record container_status =
  cs_name :: string
  cs_ready :: bool
  cs_restart_count :: nat
  cs_state :: container_status_state

record pod_status =
  ps_phase :: pod_phase
  ps_container_statuses :: "container_status list"
  ps_observed_generation :: "nat option"
  ps_pod_ip :: "string option"

record container =
  ct_name :: string
  ct_image :: string
  ct_command :: "string list"

record pod_spec =
  pc_containers :: "container list"
  pc_node_name :: "string option"

record pod =
  pod_api_version :: string
  pod_kind :: string
  pod_metadata :: object_meta
  pod_spec :: pod_spec
  pod_status :: "pod_status option"

subsection \<open>Nodes\<close>

record node_spec =
  nd_unschedulable :: bool
  nd_pod_cidr :: "string option"

record node_status =
  nst_ready :: bool
  nst_last_heartbeat_time :: "string option"

record node =
  node_api_version :: string
  node_kind :: string
  node_metadata :: object_meta
  node_spec :: node_spec
  node_status :: "node_status option"

text \<open>
  Instants are integers (nanoseconds); \<open>num_seconds\<close> truncates towards zero, and \<open>parse_rfc3339\<close>
  is the parser of the date library.
\<close>

definition num_seconds :: "int \<Rightarrow> int" where
  "num_seconds d = (if 0 \<le> d then d div 1000000000 else - ((- d) div 1000000000))"

definition is_ready :: "(string \<Rightarrow> int option) \<Rightarrow> node \<Rightarrow> int \<Rightarrow> int \<Rightarrow> bool" where
  "is_ready parse_rfc3339 n now max_age_secs =
     (case node_status n of
        None \<Rightarrow> False
      | Some st \<Rightarrow>
          (if \<not> nst_ready st then False
           else (case nst_last_heartbeat_time st of
                   Some ts \<Rightarrow> (case parse_rfc3339 ts of
                                Some hb \<Rightarrow> num_seconds (now - hb) < max_age_secs
                              | None \<Rightarrow> False)
                 | None \<Rightarrow> False)))"

subsection \<open>ReplicaSets\<close>

record pod_template_spec =
  pt_labels :: string_map
  pt_spec :: pod_spec

record replicaset_spec =
  rss_replicas :: nat
  rss_match_labels :: string_map
  rss_template :: pod_template_spec

record replicaset_status =
  rst_replicas :: nat
  rst_ready_replicas :: nat
  rst_observed_generation :: nat

record replicaset =
  rs_api_version :: string
  rs_kind :: string
  rs_metadata :: object_meta
  rs_spec :: replicaset_spec
  rs_status :: "replicaset_status option"

subsection \<open>Services and Endpoints\<close>

record service_spec =
  sv_selector :: string_map
  sv_port :: nat
  sv_target_port :: nat
  sv_cluster_ip :: "string option"

record service =
  svc_api_version :: string
  svc_kind :: string
  svc_metadata :: object_meta
  svc_spec :: service_spec

record endpoint_address =
  ea_ip :: string
  ea_port :: nat

record endpoints =
  ep_api_version :: string
  ep_kind :: string
  ep_metadata :: object_meta
  ep_addresses :: "endpoint_address list"

subsection \<open>The ResourceMeta trait\<close>

record 'a kind =
  kd_prefix :: string
  kd_meta :: "'a \<Rightarrow> object_meta"
  kd_map_meta :: "(object_meta \<Rightarrow> object_meta) \<Rightarrow> 'a \<Rightarrow> 'a"
  kd_clear_status :: "'a \<Rightarrow> 'a"
  kd_inherit_status :: "'a \<Rightarrow> 'a \<Rightarrow> 'a"

definition Pod_kind :: "pod kind" where
  "Pod_kind = \<lparr>kd_prefix = ''pods/'', kd_meta = pod_metadata, kd_map_meta = pod_metadata_update,
     kd_clear_status = (\<lambda>p. p\<lparr>pod_status := None\<rparr>),
     kd_inherit_status = (\<lambda>p current. p\<lparr>pod_status := pod_status current\<rparr>)\<rparr>"

definition Node_kind :: "node kind" where
  "Node_kind = \<lparr>kd_prefix = ''nodes/'', kd_meta = node_metadata, kd_map_meta = node_metadata_update,
     kd_clear_status = (\<lambda>n. n\<lparr>node_status := None\<rparr>),
     kd_inherit_status = (\<lambda>n current. n\<lparr>node_status := node_status current\<rparr>)\<rparr>"

definition ReplicaSet_kind :: "replicaset kind" where
  "ReplicaSet_kind = \<lparr>kd_prefix = ''replicasets/'', kd_meta = rs_metadata, kd_map_meta = rs_metadata_update,
     kd_clear_status = (\<lambda>r. r\<lparr>rs_status := None\<rparr>),
     kd_inherit_status = (\<lambda>r current. r\<lparr>rs_status := rs_status current\<rparr>)\<rparr>"

definition Service_kind :: "service kind" where
  "Service_kind = \<lparr>kd_prefix = ''services/'', kd_meta = svc_metadata, kd_map_meta = svc_metadata_update,
     kd_clear_status = (\<lambda>s. s), kd_inherit_status = (\<lambda>s current. s)\<rparr>"

definition Endpoints_kind :: "endpoints kind" where
  "Endpoints_kind = \<lparr>kd_prefix = ''endpoints/'', kd_meta = ep_metadata, kd_map_meta = ep_metadata_update,
     kd_clear_status = (\<lambda>e. e), kd_inherit_status = (\<lambda>e current. e)\<rparr>"

definition stamp_for_create :: "'a kind \<Rightarrow> string \<Rightarrow> string \<Rightarrow> 'a \<Rightarrow> 'a" where
  "stamp_for_create k uuid now x =
     kd_clear_status k
       (kd_map_meta k (\<lambda>m. m\<lparr>om_uid := Some uuid, om_generation := Some 1,
                             om_creation_timestamp := Some now, om_resource_version := None\<rparr>) x)"

abbreviation kd_name :: "'a kind \<Rightarrow> 'a \<Rightarrow> string" where
  "kd_name k x \<equiv> om_name (kd_meta k x)"

definition kind_prefixes :: "string list" where
  "kind_prefixes = [''pods/'', ''nodes/'', ''replicasets/'', ''services/'', ''endpoints/'']"

locale resource_kind =
  fixes k :: "'a kind"
  assumes meta_map [simp]: "kd_meta k (kd_map_meta k f x) = f (kd_meta k x)"
    and meta_clear [simp]: "kd_meta k (kd_clear_status k x) = kd_meta k x"
    and meta_inherit [simp]: "kd_meta k (kd_inherit_status k x y) = kd_meta k x"
    and prefix_known: "kd_prefix k \<in> set kind_prefixes"

interpretation pod_res: resource_kind Pod_kind
  by unfold_locales (simp_all add: Pod_kind_def kind_prefixes_def)

interpretation node_res: resource_kind Node_kind
  by unfold_locales (simp_all add: Node_kind_def kind_prefixes_def)

interpretation rs_res: resource_kind ReplicaSet_kind
  by unfold_locales (simp_all add: ReplicaSet_kind_def kind_prefixes_def)

interpretation svc_res: resource_kind Service_kind
  by unfold_locales (simp_all add: Service_kind_def kind_prefixes_def)

interpretation ep_res: resource_kind Endpoints_kind
  by unfold_locales (simp_all add: Endpoints_kind_def kind_prefixes_def)

text \<open>No key of one kind is a key of another: the prefixes end in their only slash.\<close>

lemma kind_prefix_free:
  assumes "p \<in> set kind_prefixes" and "q \<in> set kind_prefixes" and "p @ n = q @ n'"
  shows "p = q \<and> n = n'"
  using assms by (auto simp: kind_prefixes_def)

lemma kind_prefix_counter: "p \<in> set kind_prefixes \<Longrightarrow> p @ n \<noteq> ''rv_counter''"
  by (auto simp: kind_prefixes_def)

end
