(* ===== verification/Api_Storage.thy ===== *)
theory Api_Storage
  imports Resources
begin

text \<open>
  The resource store of \<^verbatim>\<open>src/apiserver/storage.rs\<close>: every object as JSON under its kind's prefix in one
  \<^verbatim>\<open>sled\<close> tree, one global resource-version counter, and a broadcast of every write. A transaction runs a
  body against the tree and keeps its effect only when the body succeeds. The functions return the new disk, the
  events they broadcast and the result. The specification is a counter and a map from names to objects; the refinement
  covers every branch, errors included, and says that nothing outside the kind is touched.
\<close>

datatype store_error =
    Store_NotFound string
  | Store_AlreadyExists string
  | Store_Conflict (sc_current: string) (sc_provided: string)
  | Store_Sled
  | Store_Json

datatype watch_event_type = Added | Modified | Deleted

record 'a watch_event =
  we_type :: watch_event_type
  we_object :: 'a

record ('a, 'j) json =
  js_to_vec :: "'a \<Rightarrow> io_error + bytes"
  js_from_slice :: "bytes \<Rightarrow> io_error + 'a"
  js_to_value :: "'a \<Rightarrow> string + 'j"
  js_from_value :: "'j \<Rightarrow> string + 'a"

definition json_laws :: "('a, 'j) json \<Rightarrow> bool" where
  "json_laws js \<longleftrightarrow> (\<forall>x. \<exists>b. js_to_vec js x = Inr b \<and> js_from_slice js b = Inr x)"

record 's disk =
  dk_db :: 's
  dk_rv_tree :: 's

type_synonym ('s, 'a) store_result = "'s disk \<times> 'a watch_event list \<times> (store_error + 'a)"

subsection \<open>Transactions\<close>

type_synonym ('s, 'x) txn = "'s \<Rightarrow> 's \<times> (store_error + 'x)"

definition tx_ok :: "'x \<Rightarrow> ('s, 'x) txn" where
  "tx_ok x s = (s, Inr x)"

definition tx_abort :: "store_error \<Rightarrow> ('s, 'x) txn" where
  "tx_abort e s = (s, Inl e)"

definition tx_bind :: "('s, 'x) txn \<Rightarrow> ('x \<Rightarrow> ('s, 'y) txn) \<Rightarrow> ('s, 'y) txn" where
  "tx_bind f g s = (case f s of (s', Inl e) \<Rightarrow> (s', Inl e) | (s', Inr x) \<Rightarrow> g x s')"

definition tx_get :: "'s sled \<Rightarrow> bytes \<Rightarrow> ('s, bytes option) txn" where
  "tx_get sl key s = (case sl_get sl s key of Inl _ \<Rightarrow> (s, Inl Store_Sled) | Inr v \<Rightarrow> (s, Inr v))"

definition tx_insert :: "'s sled \<Rightarrow> bytes \<Rightarrow> bytes \<Rightarrow> ('s, unit) txn" where
  "tx_insert sl key v s = (case sl_insert sl s key v of (s', Inl _) \<Rightarrow> (s', Inl Store_Sled) | (s', Inr u) \<Rightarrow> (s', Inr u))"

definition tx_remove :: "'s sled \<Rightarrow> bytes \<Rightarrow> ('s, unit) txn" where
  "tx_remove sl key s = (case sl_remove sl s key of (s', Inl _) \<Rightarrow> (s', Inl Store_Sled) | (s', Inr u) \<Rightarrow> (s', Inr u))"

definition transaction :: "('s, 'x) txn \<Rightarrow> ('s, 'x) txn" where
  "transaction body s = (case body s of (s', Inr x) \<Rightarrow> (s', Inr x) | (_, Inl e) \<Rightarrow> (s, Inl e))"

subsection \<open>Helpers of the store\<close>

definition RV_COUNTER_KEY :: bytes where
  "RV_COUNTER_KEY = ascii ''rv_counter''"

definition decode_u64 :: "bytes \<Rightarrow> nat" where
  "decode_u64 v = (if length v = 8 then from_le v else 0)"

definition saturating_succ :: "nat \<Rightarrow> nat" where
  "saturating_succ n = min (n + 1) u64_max"

definition store_key :: "'a kind \<Rightarrow> string \<Rightarrow> bytes" where
  "store_key k name = ascii (kd_prefix k @ name)"

definition to_json :: "('a, 'j) json \<Rightarrow> 'a \<Rightarrow> ('s, bytes) txn" where
  "to_json js x = (case js_to_vec js x of Inl _ \<Rightarrow> tx_abort Store_Json | Inr b \<Rightarrow> tx_ok b)"

definition load_required :: "'s sled \<Rightarrow> ('a, 'j) json \<Rightarrow> bytes \<Rightarrow> string \<Rightarrow> ('s, 'a) txn" where
  "load_required sl js key name =
     tx_bind (tx_get sl key) (\<lambda>v.
       case v of
         None \<Rightarrow> tx_abort (Store_NotFound name)
       | Some b \<Rightarrow> (case js_from_slice js b of Inl _ \<Rightarrow> tx_abort Store_Json | Inr x \<Rightarrow> tx_ok x))"

definition current_rv_of :: "'a kind \<Rightarrow> 'a \<Rightarrow> string" where
  "current_rv_of k x = (case om_resource_version (kd_meta k x) of Some v \<Rightarrow> v | None \<Rightarrow> [])"

definition check_rv :: "'a kind \<Rightarrow> 'a \<Rightarrow> string option \<Rightarrow> store_error + unit" where
  "check_rv k current provided =
     (let current_rv = current_rv_of k current
      in (case provided of
            Some p \<Rightarrow> (if p = current_rv then Inr () else Inl (Store_Conflict current_rv p))
          | None \<Rightarrow> Inl (Store_Conflict current_rv ''(missing)'')))"

definition tx_check_rv :: "'a kind \<Rightarrow> 'a \<Rightarrow> string option \<Rightarrow> ('s, unit) txn" where
  "tx_check_rv k current provided =
     (case check_rv k current provided of Inl e \<Rightarrow> tx_abort e | Inr u \<Rightarrow> tx_ok u)"

definition bump_rv :: "'s sled \<Rightarrow> ('s, nat) txn" where
  "bump_rv sl =
     tx_bind (tx_get sl RV_COUNTER_KEY) (\<lambda>v.
       let next = saturating_succ (case v of Some b \<Rightarrow> decode_u64 b | None \<Rightarrow> 0)
       in tx_bind (tx_insert sl RV_COUNTER_KEY (to_le 8 next)) (\<lambda>_. tx_ok next))"

definition set_rv :: "'a kind \<Rightarrow> nat \<Rightarrow> 'a \<Rightarrow> 'a" where
  "set_rv k rv x = kd_map_meta k (\<lambda>m. m\<lparr>om_resource_version := Some (show_nat rv)\<rparr>) x"

definition index_rv :: "'s sled \<Rightarrow> 'a kind \<Rightarrow> 'a \<Rightarrow> ('s, unit) txn" where
  "index_rv sl k x =
     (case om_resource_version (kd_meta k x) of
        None \<Rightarrow> tx_ok ()
      | Some rv_str \<Rightarrow>
          (case parse_u64 rv_str of
             None \<Rightarrow> tx_ok ()
           | Some rv \<Rightarrow> tx_insert sl (zero_pad 20 rv) (ascii (kd_name k x))))"

text \<open>What follows a committed transaction: index the version, then broadcast.\<close>

definition publish :: "'s sled \<Rightarrow> 'a kind \<Rightarrow> watch_event_type \<Rightarrow> 's disk \<Rightarrow> 'a \<Rightarrow> ('s, 'a) store_result" where
  "publish sl k ty dk x =
     (case index_rv sl k x (dk_rv_tree dk) of
        (t, Inl e) \<Rightarrow> (dk\<lparr>dk_rv_tree := t\<rparr>, [], Inl e)
      | (t, Inr u) \<Rightarrow> (dk\<lparr>dk_rv_tree := t\<rparr>, [\<lparr>we_type = ty, we_object = x\<rparr>], Inr x))"

subsection \<open>The operations\<close>

definition store_current_rv :: "'s sled \<Rightarrow> 's disk \<Rightarrow> store_error + nat" where
  "store_current_rv sl dk =
     (case sl_get sl (dk_db dk) RV_COUNTER_KEY of
        Inl _ \<Rightarrow> Inl Store_Sled
      | Inr v \<Rightarrow> Inr (case v of Some b \<Rightarrow> decode_u64 b | None \<Rightarrow> 0))"

definition store_get :: "'s sled \<Rightarrow> ('a, 'j) json \<Rightarrow> 'a kind \<Rightarrow> 's disk \<Rightarrow> string \<Rightarrow> store_error + 'a option" where
  "store_get sl js k dk name =
     (case sl_get sl (dk_db dk) (store_key k name) of
        Inl _ \<Rightarrow> Inl Store_Sled
      | Inr None \<Rightarrow> Inr None
      | Inr (Some b) \<Rightarrow> (case js_from_slice js b of Inl _ \<Rightarrow> Inl Store_Json | Inr x \<Rightarrow> Inr (Some x)))"

fun collect_items :: "('a, 'j) json \<Rightarrow> (io_error + bytes \<times> bytes) list \<Rightarrow> store_error + 'a list" where
  "collect_items js [] = Inr []"
| "collect_items js (Inl _ # items) = Inl Store_Sled"
| "collect_items js (Inr kv # items) =
     (case js_from_slice js (snd kv) of
        Inl _ \<Rightarrow> Inl Store_Json
      | Inr x \<Rightarrow> (case collect_items js items of Inl e \<Rightarrow> Inl e | Inr xs \<Rightarrow> Inr (x # xs)))"

text \<open>
  \<open>list\<close> scans first and reads the counter afterwards, not in one transaction: the two disks are the
  contents at the two moments.
\<close>

definition store_list ::
  "'s sled \<Rightarrow> ('a, 'j) json \<Rightarrow> 'a kind \<Rightarrow> 's disk \<Rightarrow> 's disk \<Rightarrow> store_error + 'a list \<times> nat" where
  "store_list sl js k dk_scan dk_rv =
     (case collect_items js (sl_scan_prefix sl (dk_db dk_scan) (ascii (kd_prefix k))) of
        Inl e \<Rightarrow> Inl e
      | Inr items \<Rightarrow> (case store_current_rv sl dk_rv of Inl e \<Rightarrow> Inl e | Inr rv \<Rightarrow> Inr (items, rv)))"

definition create_prestamped ::
  "'s sled \<Rightarrow> ('a, 'j) json \<Rightarrow> 'a kind \<Rightarrow> 's disk \<Rightarrow> 'a \<Rightarrow> ('s, 'a) store_result" where
  "create_prestamped sl js k dk obj =
     (let name = kd_name k obj; key = store_key k name
      in (case transaction
                 (tx_bind (tx_get sl key) (\<lambda>cur.
                    if cur \<noteq> None then tx_abort (Store_AlreadyExists name)
                    else tx_bind (bump_rv sl) (\<lambda>rv.
                      let x = set_rv k rv obj
                      in tx_bind (to_json js x) (\<lambda>b.
                           tx_bind (tx_insert sl key b) (\<lambda>_. tx_ok x)))))
                 (dk_db dk) of
            (db, Inl e) \<Rightarrow> (dk\<lparr>dk_db := db\<rparr>, [], Inl e)
          | (db, Inr x) \<Rightarrow> publish sl k Added (dk\<lparr>dk_db := db\<rparr>) x))"

definition store_create ::
  "'s sled \<Rightarrow> ('a, 'j) json \<Rightarrow> 'a kind \<Rightarrow> string \<Rightarrow> string \<Rightarrow> 's disk \<Rightarrow> 'a \<Rightarrow> ('s, 'a) store_result" where
  "store_create sl js k uuid now dk obj = create_prestamped sl js k dk (stamp_for_create k uuid now obj)"

definition carry_over :: "'a kind \<Rightarrow> 'a \<Rightarrow> nat \<Rightarrow> 'a \<Rightarrow> 'a" where
  "carry_over k current rv new =
     kd_inherit_status k
       (kd_map_meta k (\<lambda>m. m\<lparr>om_uid := om_uid (kd_meta k current),
          om_creation_timestamp := om_creation_timestamp (kd_meta k current),
          om_generation := Some ((case om_generation (kd_meta k current) of Some g \<Rightarrow> g | None \<Rightarrow> 0) + 1),
          om_resource_version := Some (show_nat rv)\<rparr>) new)
       current"

definition replace_spec ::
  "'s sled \<Rightarrow> ('a, 'j) json \<Rightarrow> 'a kind \<Rightarrow> 's disk \<Rightarrow> string \<Rightarrow> 'a \<Rightarrow> ('s, 'a) store_result" where
  "replace_spec sl js k dk name new_obj =
     (let key = store_key k name; provided_rv = om_resource_version (kd_meta k new_obj)
      in (case transaction
                 (tx_bind (load_required sl js key name) (\<lambda>current.
                    tx_bind (tx_check_rv k current provided_rv) (\<lambda>_.
                      tx_bind (bump_rv sl) (\<lambda>rv.
                        let x = carry_over k current rv new_obj
                        in tx_bind (to_json js x) (\<lambda>b.
                             tx_bind (tx_insert sl key b) (\<lambda>_. tx_ok x))))))
                 (dk_db dk) of
            (db, Inl e) \<Rightarrow> (dk\<lparr>dk_db := db\<rparr>, [], Inl e)
          | (db, Inr x) \<Rightarrow> publish sl k Modified (dk\<lparr>dk_db := db\<rparr>) x))"

definition replace_status ::
  "'s sled \<Rightarrow> ('a, 'j) json \<Rightarrow> 'a kind \<Rightarrow> 's disk \<Rightarrow> string \<Rightarrow> string \<Rightarrow> ('a \<Rightarrow> 'a) \<Rightarrow> ('s, 'a) store_result" where
  "replace_status sl js k dk name expected_rv mutate =
     (let key = store_key k name
      in (case transaction
                 (tx_bind (load_required sl js key name) (\<lambda>current.
                    tx_bind (tx_check_rv k current (Some expected_rv)) (\<lambda>_.
                      tx_bind (bump_rv sl) (\<lambda>rv.
                        let x = set_rv k rv (mutate current)
                        in tx_bind (to_json js x) (\<lambda>b.
                             tx_bind (tx_insert sl key b) (\<lambda>_. tx_ok x))))))
                 (dk_db dk) of
            (db, Inl e) \<Rightarrow> (dk\<lparr>dk_db := db\<rparr>, [], Inl e)
          | (db, Inr x) \<Rightarrow> publish sl k Modified (dk\<lparr>dk_db := db\<rparr>) x))"

definition store_delete ::
  "'s sled \<Rightarrow> ('a, 'j) json \<Rightarrow> 'a kind \<Rightarrow> 's disk \<Rightarrow> string \<Rightarrow> string \<Rightarrow> ('s, 'a) store_result" where
  "store_delete sl js k dk name expected_rv =
     (let key = store_key k name
      in (case transaction
                 (tx_bind (load_required sl js key name) (\<lambda>current.
                    tx_bind (tx_check_rv k current (Some expected_rv)) (\<lambda>_.
                      tx_bind (bump_rv sl) (\<lambda>rv.
                        tx_bind (tx_remove sl key) (\<lambda>_. tx_ok (set_rv k rv current))))))
                 (dk_db dk) of
            (db, Inl e) \<Rightarrow> (dk\<lparr>dk_db := db\<rparr>, [], Inl e)
          | (db, Inr x) \<Rightarrow> (dk\<lparr>dk_db := db\<rparr>, [\<lparr>we_type = Deleted, we_object = x\<rparr>], Inr x)))"

text \<open>The named counter behind one-off allocations: fetch, then add one.\<close>

definition next_index :: "'s sled \<Rightarrow> 's disk \<Rightarrow> bytes \<Rightarrow> 's disk \<times> (store_error + nat)" where
  "next_index sl dk counter_key =
     (case transaction
             (tx_bind (tx_get sl counter_key) (\<lambda>old.
                let current = (case old of Some b \<Rightarrow> decode_u64 b | None \<Rightarrow> 0)
                in tx_bind (tx_insert sl counter_key (to_le 8 (saturating_succ current))) (\<lambda>_. tx_ok current)))
             (dk_db dk) of
        (db, r) \<Rightarrow> (dk\<lparr>dk_db := db\<rparr>, r))"

subsection \<open>The specification\<close>

record 'a spec =
  sp_rv :: nat
  sp_objs :: "string \<rightharpoonup> 'a"

type_synonym 'a spec_result = "'a spec \<times> 'a watch_event list \<times> (store_error + 'a)"

datatype 'a store_op =
    Create_op 'a
  | ReplaceSpec_op string 'a
  | ReplaceStatus_op string string "'a \<Rightarrow> 'a"
  | Delete_op string string

definition spec_put :: "watch_event_type \<Rightarrow> 'a spec \<Rightarrow> string \<Rightarrow> 'a \<Rightarrow> 'a spec_result" where
  "spec_put ty sp name x =
     (\<lparr>sp_rv = saturating_succ (sp_rv sp), sp_objs = (sp_objs sp)(name \<mapsto> x)\<rparr>,
      [\<lparr>we_type = ty, we_object = x\<rparr>], Inr x)"

text \<open>Optimistic concurrency: the object must exist and the caller must name its current version.\<close>

definition spec_checked :: "'a kind \<Rightarrow> 'a spec \<Rightarrow> string \<Rightarrow> string option \<Rightarrow> ('a \<Rightarrow> 'a spec_result) \<Rightarrow> 'a spec_result" where
  "spec_checked k sp name provided f =
     (case sp_objs sp name of
        None \<Rightarrow> (sp, [], Inl (Store_NotFound name))
      | Some current \<Rightarrow>
          (case check_rv k current provided of
             Inl e \<Rightarrow> (sp, [], Inl e)
           | Inr u \<Rightarrow> f current))"

fun spec_exec :: "'a kind \<Rightarrow> 'a store_op \<Rightarrow> 'a spec \<Rightarrow> 'a spec_result" where
  "spec_exec k (Create_op obj) sp =
     (if sp_objs sp (kd_name k obj) \<noteq> None then (sp, [], Inl (Store_AlreadyExists (kd_name k obj)))
      else spec_put Added sp (kd_name k obj) (set_rv k (saturating_succ (sp_rv sp)) obj))"
| "spec_exec k (ReplaceSpec_op name obj) sp =
     spec_checked k sp name (om_resource_version (kd_meta k obj)) (\<lambda>current.
       spec_put Modified sp name (carry_over k current (saturating_succ (sp_rv sp)) obj))"
| "spec_exec k (ReplaceStatus_op name rv mutate) sp =
     spec_checked k sp name (Some rv) (\<lambda>current.
       spec_put Modified sp name (set_rv k (saturating_succ (sp_rv sp)) (mutate current)))"
| "spec_exec k (Delete_op name rv) sp =
     spec_checked k sp name (Some rv) (\<lambda>current.
       let x = set_rv k (saturating_succ (sp_rv sp)) current
       in (\<lparr>sp_rv = saturating_succ (sp_rv sp), sp_objs = (sp_objs sp)(name := None)\<rparr>,
           [\<lparr>we_type = Deleted, we_object = x\<rparr>], Inr x))"

fun store_exec :: "'s sled \<Rightarrow> ('a, 'j) json \<Rightarrow> 'a kind \<Rightarrow> 'a store_op \<Rightarrow> 's disk \<Rightarrow> ('s, 'a) store_result" where
  "store_exec sl js k (Create_op obj) dk = create_prestamped sl js k dk obj"
| "store_exec sl js k (ReplaceSpec_op name obj) dk = replace_spec sl js k dk name obj"
| "store_exec sl js k (ReplaceStatus_op name rv mutate) dk = replace_status sl js k dk name rv mutate"
| "store_exec sl js k (Delete_op name rv) dk = store_delete sl js k dk name rv"

subsection \<open>Refinement\<close>

definition rv_holds :: "(bytes \<rightharpoonup> bytes) \<Rightarrow> nat \<Rightarrow> bool" where
  "rv_holds v rv \<longleftrightarrow> rv \<le> u64_max \<and> (case v RV_COUNTER_KEY of None \<Rightarrow> 0 | Some b \<Rightarrow> decode_u64 b) = rv"

fun cell_holds :: "('a, 'j) json \<Rightarrow> bytes option \<Rightarrow> 'a option \<Rightarrow> bool" where
  "cell_holds js cell None = (cell = None)"
| "cell_holds js cell (Some x) = (\<exists>b. cell = Some b \<and> js_from_slice js b = Inr x)"

definition kind_holds :: "('a, 'j) json \<Rightarrow> 'a kind \<Rightarrow> (bytes \<rightharpoonup> bytes) \<Rightarrow> (string \<rightharpoonup> 'a) \<Rightarrow> bool" where
  "kind_holds js k v objs \<longleftrightarrow>
     (\<forall>name. cell_holds js (v (store_key k name)) (objs name)) \<and>
     (\<forall>key. has_prefix (ascii (kd_prefix k)) key \<longrightarrow> v key \<noteq> None \<longrightarrow> (\<exists>name. key = store_key k name))"

lemma kind_holdsD: "kind_holds js k v objs \<Longrightarrow> cell_holds js (v (store_key k name)) (objs name)"
  by (simp add: kind_holds_def)

definition holds :: "('a, 'j) json \<Rightarrow> 'a kind \<Rightarrow> (bytes \<rightharpoonup> bytes) \<Rightarrow> 'a spec \<Rightarrow> bool" where
  "holds js k v sp \<longleftrightarrow> rv_holds v (sp_rv sp) \<and> kind_holds js k v (sp_objs sp)"

definition same_outside :: "'a kind \<Rightarrow> (bytes \<rightharpoonup> bytes) \<Rightarrow> (bytes \<rightharpoonup> bytes) \<Rightarrow> bool" where
  "same_outside k v v' \<longleftrightarrow>
     (\<forall>key. key \<noteq> RV_COUNTER_KEY \<longrightarrow> (\<forall>name. key \<noteq> store_key k name) \<longrightarrow> v' key = v key)"

lemma ascii_inj [simp]: "ascii a = ascii b \<longleftrightarrow> a = b"
  by (auto simp: ascii_def inj_map_eq_map inj_on_def)

lemma store_key_inj [simp]: "store_key k a = store_key k b \<longleftrightarrow> a = b"
  by (simp add: store_key_def)

lemma store_key_prefix [simp]: "has_prefix (ascii (kd_prefix k)) (store_key k name)"
  by (simp add: has_prefix_def store_key_def ascii_def)

context resource_kind
begin

lemma counter_prefix [simp]: "\<not> has_prefix (ascii (kd_prefix k)) RV_COUNTER_KEY"
  using prefix_known by (auto simp: kind_prefixes_def has_prefix_def RV_COUNTER_KEY_def ascii_def)

lemma store_key_counter [simp]: "store_key k name \<noteq> RV_COUNTER_KEY" "RV_COUNTER_KEY \<noteq> store_key k name"
  using kind_prefix_counter [OF prefix_known, of name] by (auto simp: store_key_def RV_COUNTER_KEY_def)

end

lemma saturating_succ_le: "saturating_succ n \<le> u64_max"
  by (simp add: saturating_succ_def)

lemma decode_to_le: "n \<le> u64_max \<Longrightarrow> decode_u64 (to_le 8 n) = n"
  by (simp add: decode_u64_def from_to_le u64_max_def)

lemma tx_get_law: "sled_laws sl view \<Longrightarrow> tx_get sl key s = (s, Inr (view s key))"
  using sled_lawD(1) [of sl view] by (simp add: tx_get_def)

lemma tx_insert_law:
  assumes "sled_laws sl view"
  obtains s' where "tx_insert sl key b s = (s', Inr ())" and "view s' = (view s)(key \<mapsto> b)"
proof -
  obtain s' where "sl_insert sl s key b = (s', Inr ())" "view s' = (view s)(key \<mapsto> b)"
    using sled_lawD(2) [OF assms] by blast
  then show ?thesis using that by (simp add: tx_insert_def)
qed

lemma tx_remove_law:
  assumes "sled_laws sl view"
  obtains s' where "tx_remove sl key s = (s', Inr ())" and "view s' = (view s)(key := None)"
proof -
  obtain s' where "sl_remove sl s key = (s', Inr ())" "view s' = (view s)(key := None)"
    using sled_lawD(3) [OF assms] by blast
  then show ?thesis using that by (simp add: tx_remove_def)
qed

lemma bump_rv_law:
  assumes "sled_laws sl view" and "rv_holds (view s) rv"
  obtains s' where "bump_rv sl s = (s', Inr (saturating_succ rv))"
    and "view s' = (view s)(RV_COUNTER_KEY \<mapsto> to_le 8 (saturating_succ rv))"
proof -
  have rv: "(case view s RV_COUNTER_KEY of Some b \<Rightarrow> decode_u64 b | None \<Rightarrow> 0) = rv"
    using assms(2) by (simp add: rv_holds_def)
  obtain s' where "tx_insert sl RV_COUNTER_KEY (to_le 8 (saturating_succ rv)) s = (s', Inr ())"
      "view s' = (view s)(RV_COUNTER_KEY \<mapsto> to_le 8 (saturating_succ rv))"
    using tx_insert_law [OF assms(1)] by blast
  then show ?thesis
    using that rv by (simp add: bump_rv_def tx_bind_def tx_get_law [OF assms(1)] tx_ok_def Let_def)
qed

definition tx_put :: "'s sled \<Rightarrow> ('a, 'j) json \<Rightarrow> bytes \<Rightarrow> (nat \<Rightarrow> 'a) \<Rightarrow> ('s, 'a) txn" where
  "tx_put sl js key f =
     tx_bind (bump_rv sl) (\<lambda>rv. let x = f rv
       in tx_bind (to_json js x) (\<lambda>b. tx_bind (tx_insert sl key b) (\<lambda>_. tx_ok x)))"

lemma tx_put_law:
  assumes "sled_laws sl view" and "json_laws js" and "rv_holds (view s) rv"
  obtains s' b where "tx_put sl js key f s = (s', Inr (f (saturating_succ rv)))"
    and "view s' = (view s)(RV_COUNTER_KEY \<mapsto> to_le 8 (saturating_succ rv), key \<mapsto> b)"
    and "js_from_slice js b = Inr (f (saturating_succ rv))"
proof -
  obtain s1 where s1: "bump_rv sl s = (s1, Inr (saturating_succ rv))"
      "view s1 = (view s)(RV_COUNTER_KEY \<mapsto> to_le 8 (saturating_succ rv))"
    using bump_rv_law [OF assms(1,3)] by blast
  obtain b where b: "js_to_vec js (f (saturating_succ rv)) = Inr b" "js_from_slice js b = Inr (f (saturating_succ rv))"
    using assms(2) by (auto simp: json_laws_def)
  obtain s2 where "tx_insert sl key b s1 = (s2, Inr ())" "view s2 = (view s1)(key \<mapsto> b)"
    using tx_insert_law [OF assms(1)] by blast
  then show ?thesis
    using that [of s2 b] s1 b by (simp add: tx_put_def tx_bind_def to_json_def tx_ok_def Let_def)
qed

lemma load_law:
  assumes "sled_laws sl view" and "kind_holds js k (view s) objs"
  shows "load_required sl js (store_key k name) name s =
         (case objs name of None \<Rightarrow> (s, Inl (Store_NotFound name)) | Some x \<Rightarrow> (s, Inr x))"
proof (cases "objs name")
  case None
  then have "view s (store_key k name) = None" using kind_holdsD [OF assms(2), of name] by simp
  with None show ?thesis
    by (simp add: load_required_def tx_bind_def tx_get_law [OF assms(1)] tx_abort_def)
next
  case (Some x)
  then obtain b where "view s (store_key k name) = Some b" "js_from_slice js b = Inr x"
    using kind_holdsD [OF assms(2), of name] by auto
  with Some show ?thesis
    by (simp add: load_required_def tx_bind_def tx_get_law [OF assms(1)] tx_ok_def)
qed

lemma publish_law:
  assumes "sled_laws sl view"
  obtains t where "publish sl k ty dk x = (dk\<lparr>dk_rv_tree := t\<rparr>, [\<lparr>we_type = ty, we_object = x\<rparr>], Inr x)"
proof -
  have "\<exists>t. index_rv sl k x (dk_rv_tree dk) = (t, Inr ())"
    using tx_insert_law [OF assms] by (auto simp: index_rv_def tx_ok_def split: option.splits) metis
  then show ?thesis using that by (auto simp: publish_def)
qed

context resource_kind
begin

lemma holds_put:
  assumes "holds js k v sp" and "js_from_slice js b = Inr x"
  shows "holds js k (v(RV_COUNTER_KEY \<mapsto> to_le 8 (saturating_succ (sp_rv sp)), store_key k name \<mapsto> b))
           \<lparr>sp_rv = saturating_succ (sp_rv sp), sp_objs = (sp_objs sp)(name \<mapsto> x)\<rparr>"
  using assms saturating_succ_le decode_to_le [OF saturating_succ_le]
  by (auto simp: holds_def rv_holds_def kind_holds_def split: if_splits)

lemma holds_remove:
  assumes "holds js k v sp"
  shows "holds js k ((v(RV_COUNTER_KEY \<mapsto> to_le 8 (saturating_succ (sp_rv sp))))(store_key k name := None))
           \<lparr>sp_rv = saturating_succ (sp_rv sp), sp_objs = (sp_objs sp)(name := None)\<rparr>"
  using assms saturating_succ_le decode_to_le [OF saturating_succ_le]
  by (auto simp: holds_def rv_holds_def kind_holds_def split: if_splits)

lemma outside_put: "same_outside k v (v(RV_COUNTER_KEY \<mapsto> a, store_key k name \<mapsto> b))"
  by (auto simp: same_outside_def)

lemma outside_remove: "same_outside k v ((v(RV_COUNTER_KEY \<mapsto> a))(store_key k name := None))"
  by (auto simp: same_outside_def)

text \<open>A transaction that checks, then writes one object.\<close>

lemma put_refines:
  assumes laws: "sled_laws sl view" "json_laws js" and h: "holds js k (view (dk_db dk)) sp"
    and eq: "body (dk_db dk) = tx_put sl js (store_key k name) f (dk_db dk)"
  shows "\<exists>dk'. (case transaction body (dk_db dk) of
            (db, Inl e) \<Rightarrow> (dk\<lparr>dk_db := db\<rparr>, [], Inl e)
          | (db, Inr x) \<Rightarrow> publish sl k ty (dk\<lparr>dk_db := db\<rparr>) x) =
          (dk', snd (spec_put ty sp name (f (saturating_succ (sp_rv sp))))) \<and>
        holds js k (view (dk_db dk')) (fst (spec_put ty sp name (f (saturating_succ (sp_rv sp))))) \<and>
        same_outside k (view (dk_db dk)) (view (dk_db dk'))"
proof -
  have rv: "rv_holds (view (dk_db dk)) (sp_rv sp)" using h by (simp add: holds_def)
  obtain s b where s: "tx_put sl js (store_key k name) f (dk_db dk) = (s, Inr (f (saturating_succ (sp_rv sp))))"
      "view s = (view (dk_db dk))(RV_COUNTER_KEY \<mapsto> to_le 8 (saturating_succ (sp_rv sp)), store_key k name \<mapsto> b)"
      "js_from_slice js b = Inr (f (saturating_succ (sp_rv sp)))"
    using tx_put_law [OF laws rv] by metis
  obtain t where "publish sl k ty (dk\<lparr>dk_db := s\<rparr>) (f (saturating_succ (sp_rv sp))) =
      (dk\<lparr>dk_db := s, dk_rv_tree := t\<rparr>, [\<lparr>we_type = ty, we_object = f (saturating_succ (sp_rv sp))\<rparr>],
       Inr (f (saturating_succ (sp_rv sp))))"
    using publish_law [OF laws(1), of k ty "dk\<lparr>dk_db := s\<rparr>"] by metis
  then show ?thesis
    using s eq holds_put [OF h s(3)] outside_put
    by (intro exI [of _ "dk\<lparr>dk_db := s, dk_rv_tree := t\<rparr>"]) (simp add: transaction_def spec_put_def)
qed

lemma abort_refines:
  assumes "body (dk_db dk) = (s, Inl e)" and "holds js k (view (dk_db dk)) sp"
  shows "\<exists>dk'. (case transaction body (dk_db dk) of
            (db, Inl e) \<Rightarrow> (dk\<lparr>dk_db := db\<rparr>, [], Inl e)
          | (db, Inr x) \<Rightarrow> F db x) = (dk', [], Inl e) \<and>
        holds js k (view (dk_db dk')) sp \<and> same_outside k (view (dk_db dk)) (view (dk_db dk'))"
  using assms by (intro exI [of _ dk]) (simp add: transaction_def same_outside_def)

lemma store_exec_refines:
  assumes laws: "sled_laws sl view" "json_laws js" and h: "holds js k (view (dk_db dk)) sp"
  shows "\<exists>dk'. store_exec sl js k p dk = (dk', snd (spec_exec k p sp)) \<and>
           holds js k (view (dk_db dk')) (fst (spec_exec k p sp)) \<and>
           same_outside k (view (dk_db dk)) (view (dk_db dk'))"
proof -
  have kh: "kind_holds js k (view (dk_db dk)) (sp_objs sp)" and rv: "rv_holds (view (dk_db dk)) (sp_rv sp)"
    using h by (simp_all add: holds_def)
  have load: "load_required sl js (store_key k name) name (dk_db dk) =
      (case sp_objs sp name of None \<Rightarrow> (dk_db dk, Inl (Store_NotFound name)) | Some x \<Rightarrow> (dk_db dk, Inr x))" for name
    by (rule load_law [OF laws(1) kh])
  have checked: "tx_bind (load_required sl js (store_key k name) name) (\<lambda>current.
                    tx_bind (tx_check_rv k current provided) (\<lambda>_. g current)) (dk_db dk) =
      (case sp_objs sp name of
         None \<Rightarrow> (dk_db dk, Inl (Store_NotFound name))
       | Some x \<Rightarrow> (case check_rv k x provided of Inl e \<Rightarrow> (dk_db dk, Inl e) | Inr u \<Rightarrow> g x (dk_db dk)))"
    for name provided and g :: "'a \<Rightarrow> ('b, 'a) txn"
    using load [of name]
    by (auto simp: tx_bind_def tx_check_rv_def tx_abort_def tx_ok_def split: option.splits sum.splits)
  show ?thesis
  proof (cases p)
    case (Create_op obj)
    let ?n = "kd_name k obj"
    have get: "tx_get sl (store_key k ?n) (dk_db dk) = (dk_db dk, Inr (view (dk_db dk) (store_key k ?n)))"
      by (rule tx_get_law [OF laws(1)])
    show ?thesis
    proof (cases "sp_objs sp ?n")
      case None
      then have "view (dk_db dk) (store_key k ?n) = None" using kind_holdsD [OF kh, of ?n] by simp
      then show ?thesis
        using None unfolding Create_op store_exec.simps create_prestamped_def Let_def
        by (simp, intro put_refines [OF laws h]) (simp add: tx_bind_def [of "tx_get sl (store_key k ?n)"] get tx_put_def Let_def)
    next
      case (Some x)
      then have "view (dk_db dk) (store_key k ?n) \<noteq> None" using kind_holdsD [OF kh, of ?n] by auto
      then show ?thesis
        using Some unfolding Create_op store_exec.simps create_prestamped_def Let_def
        by (simp, intro abort_refines h) (simp add: tx_bind_def [of "tx_get sl (store_key k ?n)"] get tx_abort_def)
    qed
  next
    case (ReplaceSpec_op name obj)
    show ?thesis
    proof (cases "\<exists>x u. sp_objs sp name = Some x \<and> check_rv k x (om_resource_version (kd_meta k obj)) = Inr u")
      case True
      then obtain x u where "sp_objs sp name = Some x" "check_rv k x (om_resource_version (kd_meta k obj)) = Inr u"
        by blast
      then show ?thesis unfolding ReplaceSpec_op store_exec.simps replace_spec_def Let_def spec_exec.simps spec_checked_def
        by (simp, intro put_refines [OF laws h]) (subst checked, simp add: tx_put_def Let_def)
    next
      case False
      then show ?thesis unfolding ReplaceSpec_op store_exec.simps replace_spec_def Let_def spec_exec.simps spec_checked_def
        by (cases "sp_objs sp name"; cases "check_rv k (the (sp_objs sp name)) (om_resource_version (kd_meta k obj))")
          (auto intro!: abort_refines h simp: checked)
    qed
  next
    case (ReplaceStatus_op name expected mutate)
    show ?thesis
    proof (cases "\<exists>x u. sp_objs sp name = Some x \<and> check_rv k x (Some expected) = Inr u")
      case True
      then obtain x u where "sp_objs sp name = Some x" "check_rv k x (Some expected) = Inr u" by blast
      then show ?thesis unfolding ReplaceStatus_op store_exec.simps replace_status_def Let_def spec_exec.simps spec_checked_def
        by (simp, intro put_refines [OF laws h]) (subst checked, simp add: tx_put_def Let_def)
    next
      case False
      then show ?thesis unfolding ReplaceStatus_op store_exec.simps replace_status_def Let_def spec_exec.simps spec_checked_def
        by (cases "sp_objs sp name"; cases "check_rv k (the (sp_objs sp name)) (Some expected)")
          (auto intro!: abort_refines h simp: checked)
    qed
  next
    case (Delete_op name expected)
    show ?thesis
    proof (cases "\<exists>x u. sp_objs sp name = Some x \<and> check_rv k x (Some expected) = Inr u")
      case False
      then show ?thesis unfolding Delete_op store_exec.simps store_delete_def Let_def spec_exec.simps spec_checked_def
        by (cases "sp_objs sp name"; cases "check_rv k (the (sp_objs sp name)) (Some expected)")
          (auto intro!: abort_refines h simp: checked)
    next
      case True
      then obtain x u where x: "sp_objs sp name = Some x" "check_rv k x (Some expected) = Inr u" by blast
      obtain s1 where s1: "bump_rv sl (dk_db dk) = (s1, Inr (saturating_succ (sp_rv sp)))"
          "view s1 = (view (dk_db dk))(RV_COUNTER_KEY \<mapsto> to_le 8 (saturating_succ (sp_rv sp)))"
        using bump_rv_law [OF laws(1) rv] by blast
      obtain s2 where s2: "tx_remove sl (store_key k name) s1 = (s2, Inr ())"
          "view s2 = (view s1)(store_key k name := None)"
        using tx_remove_law [OF laws(1)] by blast
      show ?thesis
        using x s1 s2 holds_remove [OF h] outside_remove
        unfolding Delete_op store_exec.simps store_delete_def Let_def transaction_def checked
        by (intro exI [of _ "dk\<lparr>dk_db := s2\<rparr>"])
          (simp add: tx_bind_def [of "bump_rv sl"] tx_bind_def [of "tx_remove sl (store_key k name)"] tx_ok_def spec_checked_def Let_def)
    qed
  qed
qed

end

subsection \<open>Listing\<close>

lemma collect_items_map:
  "(\<And>x. x \<in> set xs \<Longrightarrow> js_from_slice js (snd (f x)) = Inr (g x)) \<Longrightarrow>
   collect_items js (map Inr (map f xs)) = Inr (map g xs)"
  by (induction xs) auto

lemma store_list_items:
  assumes laws: "sled_laws sl view" and h: "holds js k (view (dk_db dk)) sp"
  shows "\<exists>names. sorted_wrt (<) (map (store_key k) names) \<and> set names = dom (sp_objs sp) \<and>
           store_list sl js k dk dk = Inr (map (the \<circ> sp_objs sp) names, sp_rv sp)"
proof -
  let ?v = "view (dk_db dk)" and ?p = "ascii (kd_prefix k)"
  have kh: "kind_holds js k ?v (sp_objs sp)" using h by (simp add: holds_def)
  obtain kvs where kvs: "sl_scan_prefix sl (dk_db dk) ?p = map Inr kvs" "sorted_wrt (<) (map fst kvs)"
      "set kvs = {(key, b). ?v key = Some b \<and> has_prefix ?p key}"
    using sled_lawD(5) [OF laws] by blast
  have "\<exists>name. fst kv = store_key k name" if "kv \<in> set kvs" for kv
    using that kh unfolding kvs(3) kind_holds_def by auto
  then obtain nm where nm: "fst kv = store_key k (nm kv)" if "kv \<in> set kvs" for kv by metis
  let ?names = "map nm kvs"
  have keys: "map (store_key k) ?names = map fst kvs" using nm by simp
  have obj: "\<exists>x. sp_objs sp (nm kv) = Some x \<and> js_from_slice js (snd kv) = Inr x" if "kv \<in> set kvs" for kv
  proof -
    have "?v (store_key k (nm kv)) = Some (snd kv)" using that nm [OF that] unfolding kvs(3) by auto
    then show ?thesis using kind_holdsD [OF kh, of "nm kv"] by (cases "sp_objs sp (nm kv)") auto
  qed
  have "n \<in> nm ` set kvs" if n: "sp_objs sp n = Some x" for n x
  proof -
    obtain b where "?v (store_key k n) = Some b" using kind_holdsD [OF kh, of n] n by auto
    then have m: "(store_key k n, b) \<in> set kvs" unfolding kvs(3) by simp
    then have "nm (store_key k n, b) = n" using nm [OF m] by simp
    with m show ?thesis by (metis image_eqI)
  qed
  then have "set ?names = dom (sp_objs sp)" using obj by (fastforce simp: dom_def)
  moreover have "collect_items js (map Inr (map id kvs)) = Inr (map (\<lambda>kv. the (sp_objs sp (nm kv))) kvs)"
    using obj by (intro collect_items_map) fastforce
  moreover have "store_current_rv sl dk = Inr (sp_rv sp)"
    using sled_lawD(1) [OF laws] h by (simp add: store_current_rv_def holds_def rv_holds_def)
  moreover have "sorted_wrt (<) (map (store_key k) ?names)" unfolding keys by (rule kvs(2))
  ultimately show ?thesis
    using kvs(1) by (intro exI [of _ ?names]) (simp add: store_list_def comp_def)
qed

lemma store_get_item:
  "sled_laws sl view \<Longrightarrow> holds js k (view (dk_db dk)) sp \<Longrightarrow> store_get sl js k dk name = Inr (sp_objs sp name)"
  using sled_lawD(1) [of sl view] kind_holdsD [of js k "view (dk_db dk)" "sp_objs sp" name]
  by (cases "sp_objs sp name") (auto simp: store_get_def holds_def)

subsection \<open>Runs\<close>

fun store_run :: "'s sled \<Rightarrow> ('a, 'j) json \<Rightarrow> 'a kind \<Rightarrow> 'a store_op list \<Rightarrow> 's disk \<Rightarrow>
    's disk \<times> 'a watch_event list \<times> (store_error + 'a) list" where
  "store_run sl js k [] dk = (dk, [], [])"
| "store_run sl js k (p # ps) dk =
     (let (dk1, evs1, r) = store_exec sl js k p dk; (dk2, evs2, rs) = store_run sl js k ps dk1
      in (dk2, evs1 @ evs2, r # rs))"

fun spec_run :: "'a kind \<Rightarrow> 'a store_op list \<Rightarrow> 'a spec \<Rightarrow> 'a spec \<times> 'a watch_event list \<times> (store_error + 'a) list" where
  "spec_run k [] sp = (sp, [], [])"
| "spec_run k (p # ps) sp =
     (let (sp1, evs1, r) = spec_exec k p sp; (sp2, evs2, rs) = spec_run k ps sp1
      in (sp2, evs1 @ evs2, r # rs))"

lemma same_outside_trans: "same_outside k u v \<Longrightarrow> same_outside k v w \<Longrightarrow> same_outside k u w"
  by (simp add: same_outside_def)

context resource_kind
begin

lemma store_run_refines:
  assumes "sled_laws sl view" "json_laws js" and "holds js k (view (dk_db dk)) sp"
  shows "\<exists>dk'. store_run sl js k ps dk = (dk', snd (spec_run k ps sp)) \<and>
           holds js k (view (dk_db dk')) (fst (spec_run k ps sp)) \<and>
           same_outside k (view (dk_db dk)) (view (dk_db dk'))"
  using assms(3)
proof (induction ps arbitrary: dk sp)
  case Nil
  then show ?case by (intro exI [of _ dk]) (simp add: same_outside_def)
next
  case (Cons p ps)
  obtain dk1 where d1: "store_exec sl js k p dk = (dk1, snd (spec_exec k p sp))"
      "holds js k (view (dk_db dk1)) (fst (spec_exec k p sp))" "same_outside k (view (dk_db dk)) (view (dk_db dk1))"
    using store_exec_refines [OF assms(1,2) Cons.prems] by blast
  obtain dk2 where "store_run sl js k ps dk1 = (dk2, snd (spec_run k ps (fst (spec_exec k p sp))))"
      "holds js k (view (dk_db dk2)) (fst (spec_run k ps (fst (spec_exec k p sp))))"
      "same_outside k (view (dk_db dk1)) (view (dk_db dk2))"
    using Cons.IH [OF d1(2)] by blast
  with d1 show ?case
    by (intro exI [of _ dk2]) (auto simp: case_prod_beta Let_def intro: same_outside_trans)
qed

end

end
