(* ===== verification/Wire.thy ===== *)
theory Wire
  imports Api_Storage
begin

text \<open>
  A concrete encoding of the API objects. The JSON library is a parameter of the model, with its round-trip law as
  a named hypothesis; the codecs here, built from combinators that decode a prefix and hand on the rest, satisfy
  that law for all five kinds, so the theorems that assume it are not vacuous. They are used by
  witnesses only.
\<close>

record 'a wire =
  w_enc :: "'a \<Rightarrow> nat list"
  w_dec :: "nat list \<Rightarrow> ('a \<times> nat list) option"

definition wire_ok :: "'a wire \<Rightarrow> bool" where
  "wire_ok w \<longleftrightarrow> (\<forall>x r. w_dec w (w_enc w x @ r) = Some (x, r))"

named_theorems wire_intros \<open>codecs that decode what they encode\<close>

lemma wire_okD: "wire_ok w \<Longrightarrow> w_dec w (w_enc w x @ r) = Some (x, r)"
  by (simp add: wire_ok_def)

definition wr_nat :: "nat wire" where
  "wr_nat = \<lparr>w_enc = (\<lambda>n. [n]), w_dec = (\<lambda>b. case b of [] \<Rightarrow> None | n # r \<Rightarrow> Some (n, r))\<rparr>"

definition wr_map :: "('a \<Rightarrow> 'b) \<Rightarrow> ('b \<Rightarrow> 'a) \<Rightarrow> 'a wire \<Rightarrow> 'b wire" where
  "wr_map f g w = \<lparr>w_enc = (\<lambda>y. w_enc w (g y)), w_dec = (\<lambda>b. map_option (\<lambda>(x, r). (f x, r)) (w_dec w b))\<rparr>"

definition wr_prod :: "'a wire \<Rightarrow> 'b wire \<Rightarrow> ('a \<times> 'b) wire" where
  "wr_prod v w =
     \<lparr>w_enc = (\<lambda>(x, y). w_enc v x @ w_enc w y),
      w_dec = (\<lambda>b. case w_dec v b of None \<Rightarrow> None
                 | Some (x, r) \<Rightarrow> map_option (\<lambda>(y, r'). ((x, y), r')) (w_dec w r))\<rparr>"

definition wr_option :: "'a wire \<Rightarrow> 'a option wire" where
  "wr_option w =
     \<lparr>w_enc = (\<lambda>x. case x of None \<Rightarrow> [0] | Some y \<Rightarrow> 1 # w_enc w y),
      w_dec = (\<lambda>b. case b of [] \<Rightarrow> None
                 | t # r \<Rightarrow> if t = 0 then Some (None, r) else map_option (\<lambda>(y, r'). (Some y, r')) (w_dec w r))\<rparr>"

fun dec_many :: "'a wire \<Rightarrow> nat \<Rightarrow> nat list \<Rightarrow> ('a list \<times> nat list) option" where
  "dec_many w 0 b = Some ([], b)"
| "dec_many w (Suc n) b =
     (case w_dec w b of None \<Rightarrow> None
      | Some (x, r) \<Rightarrow> map_option (\<lambda>(xs, r'). (x # xs, r')) (dec_many w n r))"

definition wr_list :: "'a wire \<Rightarrow> 'a list wire" where
  "wr_list w =
     \<lparr>w_enc = (\<lambda>xs. length xs # concat (map (w_enc w) xs)),
      w_dec = (\<lambda>b. case b of [] \<Rightarrow> None | n # r \<Rightarrow> dec_many w n r)\<rparr>"

lemma wr_nat_ok [wire_intros]: "wire_ok wr_nat"
  by (simp add: wire_ok_def wr_nat_def)

lemma wr_map_ok [wire_intros]: "(\<And>y. f (g y) = y) \<Longrightarrow> wire_ok w \<Longrightarrow> wire_ok (wr_map f g w)"
  by (simp add: wire_ok_def wr_map_def)

lemma wr_prod_ok [wire_intros]: "wire_ok v \<Longrightarrow> wire_ok w \<Longrightarrow> wire_ok (wr_prod v w)"
  by (simp add: wire_ok_def wr_prod_def)

lemma wr_option_ok [wire_intros]: "wire_ok w \<Longrightarrow> wire_ok (wr_option w)"
  by (simp add: wire_ok_def wr_option_def split: option.splits)

lemma dec_many_ok: "wire_ok w \<Longrightarrow> dec_many w (length xs) (concat (map (w_enc w) xs) @ r) = Some (xs, r)"
  by (induction xs) (simp_all add: wire_okD)

lemma wr_list_ok [wire_intros]: "wire_ok w \<Longrightarrow> wire_ok (wr_list w)"
  unfolding wire_ok_def [of "wr_list w"] by (simp add: wr_list_def dec_many_ok)

definition wr_bool :: "bool wire" where
  "wr_bool = wr_map (\<lambda>n. n = 1) of_bool wr_nat"

definition wr_string :: "string wire" where
  "wr_string = wr_list (wr_map char_of of_char wr_nat)"

definition wr_int :: "int wire" where
  "wr_int = wr_map (\<lambda>(s, n). if s then - int n else int n) (\<lambda>i. (i < 0, nat \<bar>i\<bar>)) (wr_prod wr_bool wr_nat)"

lemma wr_bool_ok [wire_intros]: "wire_ok wr_bool"
  unfolding wr_bool_def by (intro wire_intros) (simp add: of_bool_def)

lemma wr_string_ok [wire_intros]: "wire_ok wr_string"
  unfolding wr_string_def by (intro wire_intros) simp

lemma wr_int_ok [wire_intros]: "wire_ok wr_int"
  unfolding wr_int_def by (intro wire_intros) simp

definition wr_owner :: "owner_reference wire" where
  "wr_owner = wr_map
     (\<lambda>(a, k, n, u, b). \<lparr>or_api_version = a, or_kind = k, or_name = n, or_uid = u, or_controller = b\<rparr>)
     (\<lambda>r. (or_api_version r, or_kind r, or_name r, or_uid r, or_controller r))
     (wr_prod wr_string (wr_prod wr_string (wr_prod wr_string (wr_prod wr_string wr_bool))))"

lemma wr_owner_ok [wire_intros]: "wire_ok wr_owner"
  unfolding wr_owner_def by (intro wire_intros) simp

definition wr_meta :: "object_meta wire" where
  "wr_meta = wr_map
     (\<lambda>(n, u, v, g, c, l, os). \<lparr>om_name = n, om_uid = u, om_resource_version = v, om_generation = g,
        om_creation_timestamp = c, om_labels = l, om_owner_references = os\<rparr>)
     (\<lambda>m. (om_name m, om_uid m, om_resource_version m, om_generation m, om_creation_timestamp m, om_labels m,
        om_owner_references m))
     (wr_prod wr_string (wr_prod (wr_option wr_string) (wr_prod (wr_option wr_string) (wr_prod (wr_option wr_nat)
        (wr_prod (wr_option wr_string) (wr_prod (wr_list (wr_prod wr_string wr_string)) (wr_list wr_owner)))))))"

lemma wr_meta_ok [wire_intros]: "wire_ok wr_meta"
  unfolding wr_meta_def by (intro wire_intros) simp

definition wr_container :: "container wire" where
  "wr_container = wr_map (\<lambda>(n, i, c). \<lparr>ct_name = n, ct_image = i, ct_command = c\<rparr>)
     (\<lambda>c. (ct_name c, ct_image c, ct_command c)) (wr_prod wr_string (wr_prod wr_string (wr_list wr_string)))"

lemma wr_container_ok [wire_intros]: "wire_ok wr_container"
  unfolding wr_container_def by (intro wire_intros) simp

definition wr_pod_spec :: "pod_spec wire" where
  "wr_pod_spec = wr_map
     (\<lambda>(cs, n). \<lparr>pc_containers = cs, pc_node_name = n\<rparr>) (\<lambda>s. (pc_containers s, pc_node_name s))
     (wr_prod (wr_list wr_container) (wr_option wr_string))"

lemma wr_pod_spec_ok [wire_intros]: "wire_ok wr_pod_spec"
  unfolding wr_pod_spec_def by (intro wire_intros) simp

fun phase_code :: "pod_phase \<Rightarrow> nat" where
  "phase_code Pending = 0"
| "phase_code Running = 1"
| "phase_code Succeeded = 2"
| "phase_code Failed = 3"
| "phase_code Unknown = 4"

definition code_phase :: "nat \<Rightarrow> pod_phase" where
  "code_phase n = (if n = 0 then Pending else if n = 1 then Running else if n = 2 then Succeeded
     else if n = 3 then Failed else Unknown)"

fun state_code :: "container_status_state \<Rightarrow> string option \<times> int option" where
  "state_code Waiting = (None, None)"
| "state_code (RunningSince s) = (Some s, None)"
| "state_code (Terminated c) = (None, Some c)"

fun code_state :: "string option \<times> int option \<Rightarrow> container_status_state" where
  "code_state (Some s, _) = RunningSince s"
| "code_state (None, Some c) = Terminated c"
| "code_state (None, None) = Waiting"

lemma code_phase_code [simp]: "code_phase (phase_code p) = p"
  by (cases p) (simp_all add: code_phase_def)

lemma code_state_code [simp]: "code_state (state_code s) = s"
  by (cases s) simp_all

definition wr_container_status :: "container_status wire" where
  "wr_container_status = wr_map
     (\<lambda>(n, r, c, s). \<lparr>cs_name = n, cs_ready = r, cs_restart_count = c, cs_state = code_state s\<rparr>)
     (\<lambda>c. (cs_name c, cs_ready c, cs_restart_count c, state_code (cs_state c)))
     (wr_prod wr_string (wr_prod wr_bool (wr_prod wr_nat (wr_prod (wr_option wr_string) (wr_option wr_int)))))"

lemma wr_container_status_ok [wire_intros]: "wire_ok wr_container_status"
  unfolding wr_container_status_def by (intro wire_intros) simp

definition wr_pod_status :: "pod_status wire" where
  "wr_pod_status = wr_map
     (\<lambda>(p, cs, g, ip). \<lparr>ps_phase = code_phase p,
        ps_container_statuses = cs, ps_observed_generation = g, ps_pod_ip = ip\<rparr>)
     (\<lambda>st. (phase_code (ps_phase st),
        ps_container_statuses st, ps_observed_generation st, ps_pod_ip st))
     (wr_prod wr_nat (wr_prod (wr_list wr_container_status)
        (wr_prod (wr_option wr_nat) (wr_option wr_string))))"

lemma wr_pod_status_ok [wire_intros]: "wire_ok wr_pod_status"
  unfolding wr_pod_status_def by (intro wire_intros) simp

definition wr_pod :: "pod wire" where
  "wr_pod = wr_map
     (\<lambda>(a, k, m, s, st). \<lparr>pod_api_version = a, pod_kind = k, pod_metadata = m, pod_spec = s, pod_status = st\<rparr>)
     (\<lambda>p. (pod_api_version p, pod_kind p, pod_metadata p, pod_spec p, pod_status p))
     (wr_prod wr_string (wr_prod wr_string (wr_prod wr_meta (wr_prod wr_pod_spec (wr_option wr_pod_status)))))"

lemma wr_pod_ok [wire_intros]: "wire_ok wr_pod"
  unfolding wr_pod_def by (intro wire_intros) simp

definition wr_node_status :: "node_status wire" where
  "wr_node_status = wr_map (\<lambda>(r, t). \<lparr>nst_ready = r, nst_last_heartbeat_time = t\<rparr>)
     (\<lambda>s. (nst_ready s, nst_last_heartbeat_time s)) (wr_prod wr_bool (wr_option wr_string))"

lemma wr_node_status_ok [wire_intros]: "wire_ok wr_node_status"
  unfolding wr_node_status_def by (intro wire_intros) simp

definition wr_node :: "node wire" where
  "wr_node = wr_map
     (\<lambda>(a, k, m, (u, c), st). \<lparr>node_api_version = a, node_kind = k, node_metadata = m,
        node_spec = \<lparr>nd_unschedulable = u, nd_pod_cidr = c\<rparr>, node_status = st\<rparr>)
     (\<lambda>n. (node_api_version n, node_kind n, node_metadata n,
        (nd_unschedulable (node_spec n), nd_pod_cidr (node_spec n)), node_status n))
     (wr_prod wr_string (wr_prod wr_string (wr_prod wr_meta (wr_prod (wr_prod wr_bool (wr_option wr_string)) (wr_option wr_node_status)))))"

lemma wr_node_ok [wire_intros]: "wire_ok wr_node"
  unfolding wr_node_def by (intro wire_intros) simp

definition wr_rs_status :: "replicaset_status wire" where
  "wr_rs_status = wr_map (\<lambda>(r, d, g). \<lparr>rst_replicas = r, rst_ready_replicas = d, rst_observed_generation = g\<rparr>)
     (\<lambda>s. (rst_replicas s, rst_ready_replicas s, rst_observed_generation s)) (wr_prod wr_nat (wr_prod wr_nat wr_nat))"

lemma wr_rs_status_ok [wire_intros]: "wire_ok wr_rs_status"
  unfolding wr_rs_status_def by (intro wire_intros) simp

definition wr_rs :: "replicaset wire" where
  "wr_rs = wr_map
     (\<lambda>(a, k, m, (n, ml, l, s), st). \<lparr>rs_api_version = a, rs_kind = k, rs_metadata = m,
        rs_spec = \<lparr>rss_replicas = n, rss_match_labels = ml, rss_template = \<lparr>pt_labels = l, pt_spec = s\<rparr>\<rparr>, rs_status = st\<rparr>)
     (\<lambda>r. (rs_api_version r, rs_kind r, rs_metadata r,
        (rss_replicas (rs_spec r), rss_match_labels (rs_spec r), pt_labels (rss_template (rs_spec r)), pt_spec (rss_template (rs_spec r))),
        rs_status r))
     (wr_prod wr_string (wr_prod wr_string (wr_prod wr_meta (wr_prod
        (wr_prod wr_nat (wr_prod (wr_list (wr_prod wr_string wr_string)) (wr_prod (wr_list (wr_prod wr_string wr_string)) wr_pod_spec)))
        (wr_option wr_rs_status)))))"

lemma wr_rs_ok [wire_intros]: "wire_ok wr_rs"
  unfolding wr_rs_def by (intro wire_intros) simp

definition wr_svc :: "service wire" where
  "wr_svc = wr_map
     (\<lambda>(a, k, m, l, p, t, c). \<lparr>svc_api_version = a, svc_kind = k, svc_metadata = m,
        svc_spec = \<lparr>sv_selector = l, sv_port = p, sv_target_port = t, sv_cluster_ip = c\<rparr>\<rparr>)
     (\<lambda>s. (svc_api_version s, svc_kind s, svc_metadata s, sv_selector (svc_spec s), sv_port (svc_spec s),
        sv_target_port (svc_spec s), sv_cluster_ip (svc_spec s)))
     (wr_prod wr_string (wr_prod wr_string (wr_prod wr_meta (wr_prod (wr_list (wr_prod wr_string wr_string))
        (wr_prod wr_nat (wr_prod wr_nat (wr_option wr_string)))))))"

lemma wr_svc_ok [wire_intros]: "wire_ok wr_svc"
  unfolding wr_svc_def by (intro wire_intros) simp

definition wr_address :: "endpoint_address wire" where
  "wr_address = wr_map (\<lambda>(i, p). \<lparr>ea_ip = i, ea_port = p\<rparr>) (\<lambda>a. (ea_ip a, ea_port a)) (wr_prod wr_string wr_nat)"

lemma wr_address_ok [wire_intros]: "wire_ok wr_address"
  unfolding wr_address_def by (intro wire_intros) simp

definition wr_ep :: "endpoints wire" where
  "wr_ep = wr_map
     (\<lambda>(a, k, m, as). \<lparr>ep_api_version = a, ep_kind = k, ep_metadata = m, ep_addresses = as\<rparr>)
     (\<lambda>e. (ep_api_version e, ep_kind e, ep_metadata e, ep_addresses e))
     (wr_prod wr_string (wr_prod wr_string (wr_prod wr_meta (wr_list wr_address))))"

lemma wr_ep_ok [wire_intros]: "wire_ok wr_ep"
  unfolding wr_ep_def by (intro wire_intros) simp

subsection \<open>The JSON interface on a codec\<close>

definition wire_json :: "'a wire \<Rightarrow> ('a, nat list) json" where
  "wire_json w =
     \<lparr>js_to_vec = (\<lambda>x. Inr (w_enc w x)),
      js_from_slice = (\<lambda>b. case w_dec w b of Some (x, []) \<Rightarrow> Inr x | _ \<Rightarrow> Inl JsonError),
      js_to_value = (\<lambda>x. Inr (w_enc w x)),
      js_from_value = (\<lambda>b. case w_dec w b of Some (x, []) \<Rightarrow> Inr x | _ \<Rightarrow> Inl ''malformed'')\<rparr>"

lemma wire_dec: "wire_ok w \<Longrightarrow> w_dec w (w_enc w x) = Some (x, [])"
  using wire_okD [of w x "[]"] by simp

lemma wire_json_laws: "wire_ok w \<Longrightarrow> json_laws (wire_json w)"
  by (simp add: json_laws_def wire_json_def wire_dec)

end
