(* ===== verification/Raft_Log.thy ===== *)
theory Raft_Log
  imports Prelude
begin

text \<open>
  The replicated log of \<^verbatim>\<open>src/raft/log.rs\<close> and the messages of \<^verbatim>\<open>src/raft/message.rs\<close>.
  Indices are one-based, as in the source: index 0 stands for the empty log and \<open>term_at\<close> answers
  \<open>Some 0\<close> for it. The struct \<open>RaftLog\<close> has the one field \<open>entries\<close>, so it is the list itself.
  The casts between \<open>u64\<close> and \<open>usize\<close> are identities on the 64-bit targets the crate builds for, and
  a \<open>Vec\<close> is never longer than \<open>isize::MAX\<close>, so \<open>last_index() + 1\<close> cannot overflow.
\<close>

type_synonym raft_term = nat
type_synonym log_index = nat
type_synonym node_id = nat

record log_entry =
  le_term :: raft_term
  le_index :: log_index
  le_command :: bytes

type_synonym raft_log = "log_entry list"

definition log_new :: raft_log where
  "log_new = []"

definition from_entries :: "log_entry list \<Rightarrow> raft_log" where
  "from_entries es = es"

definition last_index :: "raft_log \<Rightarrow> log_index" where
  "last_index l = length l"

definition last_term :: "raft_log \<Rightarrow> raft_term" where
  "last_term l = (if l = [] then 0 else le_term (last l))"

definition term_at :: "raft_log \<Rightarrow> log_index \<Rightarrow> raft_term option" where
  "term_at l i =
     (if i = 0 then Some 0
      else if i - 1 < length l then Some (le_term (l ! (i - 1))) else None)"

definition log_get :: "raft_log \<Rightarrow> log_index \<Rightarrow> log_entry option" where
  "log_get l i =
     (if i = 0 then None
      else if i - 1 < length l then Some (l ! (i - 1)) else None)"

definition entries_from :: "raft_log \<Rightarrow> log_index \<Rightarrow> log_entry list" where
  "entries_from l from = (if from = 0 \<or> from > last_index l then [] else drop (from - 1) l)"

definition log_append :: "raft_log \<Rightarrow> raft_term \<Rightarrow> bytes \<Rightarrow> raft_log \<times> log_index" where
  "log_append l t cmd =
     (let index = last_index l + 1
      in (l @ [\<lparr>le_term = t, le_index = index, le_command = cmd\<rparr>], index))"

definition truncate_from :: "raft_log \<Rightarrow> log_index \<Rightarrow> raft_log" where
  "truncate_from l from = (if from = 0 then [] else take (from - 1) l)"

definition append_entries :: "raft_log \<Rightarrow> log_entry list \<Rightarrow> raft_log" where
  "append_entries l es = l @ es"

subsection \<open>Messages\<close>

record request_vote_req =
  rv_term :: raft_term
  rv_candidate_id :: node_id
  rv_last_log_index :: log_index
  rv_last_log_term :: raft_term

record request_vote_resp =
  rvr_term :: raft_term
  rvr_vote_granted :: bool

record append_entries_req =
  ae_term :: raft_term
  ae_leader_id :: node_id
  ae_prev_log_index :: log_index
  ae_prev_log_term :: raft_term
  ae_entries :: "log_entry list"
  ae_leader_commit :: log_index

record append_entries_resp =
  aer_term :: raft_term
  aer_success :: bool
  aer_match_index :: log_index

datatype message =
    RequestVote request_vote_req
  | RequestVoteResp request_vote_resp
  | AppendEntries append_entries_req
  | AppendEntriesResp append_entries_resp

subsection \<open>Well-formed logs\<close>

text \<open>
  A log is well formed when every entry stores the index of its own position and no term
  decreases along it: what \<open>log_append\<close> establishes and replication keeps.
\<close>

definition indexed :: "raft_log \<Rightarrow> bool" where
  "indexed l \<longleftrightarrow> (\<forall>k < length l. le_index (l ! k) = Suc k)"

lemma last_index_simps [raft_log_simps]:
  "last_index [] = 0" "last_index (l @ es) = last_index l + length es"
  by (simp_all add: last_index_def)

lemma term_at_0 [simp]: "term_at l 0 = Some 0"
  by (simp add: term_at_def)

lemma term_at_Suc [simp]:
  "term_at l (Suc k) = (if k < length l then Some (le_term (l ! k)) else None)"
  by (simp add: term_at_def)

lemma term_at_Some_le: "term_at l i = Some t \<Longrightarrow> i \<le> length l"
  by (cases i) (auto split: if_splits)

lemma indexed_Nil [simp]: "indexed []"
  by (simp add: indexed_def)

lemma indexed_take [intro]: "indexed l \<Longrightarrow> indexed (take k l)"
  by (simp add: indexed_def)

lemma indexed_append [intro]: "indexed l \<Longrightarrow> indexed (fst (log_append l t cmd))"
  by (auto simp: indexed_def log_append_def last_index_def nth_append less_Suc_eq Let_def)

text \<open>
  Appending assigns the next one-based contiguous index, the new entry is found there, its
  term is the log's last term, and every earlier entry is untouched.
\<close>

lemma log_append_get:
  "snd (log_append l t cmd) = last_index l + 1
   \<and> last_index (fst (log_append l t cmd)) = last_index l + 1
   \<and> last_term (fst (log_append l t cmd)) = t
   \<and> log_get (fst (log_append l t cmd)) i =
       (if i = last_index l + 1
        then Some \<lparr>le_term = t, le_index = last_index l + 1, le_command = cmd\<rparr>
        else log_get l i)"
  by (auto simp: log_append_def log_get_def last_index_def last_term_def nth_append Let_def)

end
