(* ===== verification/Raft_Core.thy ===== *)
theory Raft_Core
  imports Raft_Log
begin

text \<open>
  The Raft state machine of \<^verbatim>\<open>src/raft/core.rs\<close>: a pure function from an event to a list of
  effects. A node is a record with the fields of \<open>RaftNode\<close>; \<open>HashSet\<close> is a set and
  \<open>HashMap\<close> a partial function (the core never iterates over them). Every handler takes the node and
  returns the changed node with its effects, in the order the source pushes them; \<open>None\<close> is an
  arithmetic panic of the checked build.
\<close>

definition HEARTBEAT_TICKS :: nat where
  "HEARTBEAT_TICKS = 3"

datatype role =
    Follower
  | Candidate (cand_votes: "node_id set")
  | Leader (lead_next_index: "node_id \<rightharpoonup> log_index") (lead_match_index: "node_id \<rightharpoonup> log_index")

datatype event =
    Tick
  | Message node_id message
  | Propose bytes

datatype effect =
    Send node_id message
  | Persist
  | PersistTruncate log_index
  | PersistEntries "log_entry list"
  | Apply log_entry
  | ProposeRejected "node_id option"

record raft_node =
  rn_id :: node_id
  rn_peers :: "node_id list"
  rn_role :: role
  rn_current_term :: raft_term
  rn_voted_for :: "node_id option"
  rn_log :: raft_log
  rn_commit_index :: log_index
  rn_last_applied :: log_index
  rn_ticks_since_reset :: nat
  rn_election_timeout_ticks :: nat
  rn_leader_hint :: "node_id option"

type_synonym outcome = "(raft_node \<times> effect list) panics"

definition raft_node_new :: "node_id \<Rightarrow> node_id list \<Rightarrow> nat \<Rightarrow> raft_node" where
  "raft_node_new nid peers election_timeout_ticks =
     \<lparr>rn_id = nid, rn_peers = peers, rn_role = Follower, rn_current_term = 0, rn_voted_for = None,
      rn_log = log_new, rn_commit_index = 0, rn_last_applied = 0, rn_ticks_since_reset = 0,
      rn_election_timeout_ticks = election_timeout_ticks, rn_leader_hint = None\<rparr>"

definition set_election_timeout :: "raft_node \<Rightarrow> nat \<Rightarrow> raft_node" where
  "set_election_timeout n ticks = n\<lparr>rn_election_timeout_ticks := ticks\<rparr>"

text \<open>\<open>usize::div_ceil(2)\<close> is \<open>(p + 1) div 2\<close>.\<close>

definition majority :: "raft_node \<Rightarrow> nat" where
  "majority n = (length (rn_peers n) + 1) div 2 + 1"

fun is_leader :: "role \<Rightarrow> bool" where
  "is_leader (Leader _ _) = True"
| "is_leader _ = False"

fun is_candidate :: "role \<Rightarrow> bool" where
  "is_candidate (Candidate _) = True"
| "is_candidate _ = False"

definition append_for :: "raft_node \<Rightarrow> node_id \<Rightarrow> effect panics" where
  "append_for n peer = do {
     let next = (case rn_role n of
                   Leader next_index _ \<Rightarrow>
                     (case next_index peer of Some v \<Rightarrow> v | None \<Rightarrow> last_index (rn_log n) + 1)
                 | _ \<Rightarrow> last_index (rn_log n) + 1);
     prev_index \<leftarrow> checked_sub next 1;
     Some (Send peer (AppendEntries
       \<lparr>ae_term = rn_current_term n, ae_leader_id = rn_id n, ae_prev_log_index = prev_index,
        ae_prev_log_term = (case term_at (rn_log n) prev_index of Some t \<Rightarrow> t | None \<Rightarrow> 0),
        ae_entries = entries_from (rn_log n) next, ae_leader_commit = rn_commit_index n\<rparr>))
   }"

definition broadcast_append :: "raft_node \<Rightarrow> effect list panics" where
  "broadcast_append n = those (map (append_for n) (rn_peers n))"

definition try_win :: "raft_node \<Rightarrow> outcome" where
  "try_win n = (case rn_role n of
     Candidate votes \<Rightarrow>
       (if card votes < majority n then Some (n, [])
        else
          let next = last_index (rn_log n) + 1;
              n' = n\<lparr>rn_role := Leader (\<lambda>p. if p \<in> set (rn_peers n) then Some next else None)
                                       (\<lambda>p. if p \<in> set (rn_peers n) then Some 0 else None),
                     rn_leader_hint := Some (rn_id n), rn_ticks_since_reset := 0\<rparr>
          in map_option (Pair n') (broadcast_append n'))
   | _ \<Rightarrow> Some (n, []))"

definition start_election :: "raft_node \<Rightarrow> outcome" where
  "start_election n = do {
     t \<leftarrow> checked_add u64_max (rn_current_term n) 1;
     let n' = n\<lparr>rn_current_term := t, rn_voted_for := Some (rn_id n),
                rn_role := Candidate {rn_id n}, rn_ticks_since_reset := 0,
                rn_leader_hint := None\<rparr>;
     let req = \<lparr>rv_term = t, rv_candidate_id = rn_id n,
                rv_last_log_index = last_index (rn_log n),
                rv_last_log_term = last_term (rn_log n)\<rparr>;
     (n'', won) \<leftarrow> try_win n';
     Some (n'', [Persist] @ map (\<lambda>peer. Send peer (RequestVote req)) (rn_peers n) @ won)
   }"

definition on_tick :: "raft_node \<Rightarrow> outcome" where
  "on_tick n0 = do {
     ticks \<leftarrow> checked_add u32_max (rn_ticks_since_reset n0) 1;
     let n = n0\<lparr>rn_ticks_since_reset := ticks\<rparr>;
     (if is_leader (rn_role n)
      then (if ticks \<ge> HEARTBEAT_TICKS
            then (let n' = n\<lparr>rn_ticks_since_reset := 0\<rparr>
                  in map_option (Pair n') (broadcast_append n'))
            else Some (n, []))
      else (if ticks \<ge> rn_election_timeout_ticks n then start_election n else Some (n, [])))
   }"

definition maybe_step_down :: "raft_node \<Rightarrow> raft_term \<Rightarrow> raft_node \<times> effect list" where
  "maybe_step_down n msg_term =
     (if msg_term \<le> rn_current_term n then (n, [])
      else (n\<lparr>rn_current_term := msg_term, rn_voted_for := None, rn_role := Follower,
              rn_ticks_since_reset := 0\<rparr>, [Persist]))"

text \<open>The up-to-date check is Rust's lexicographic order on the pair (last term, last index).\<close>

definition up_to_date :: "raft_term \<times> log_index \<Rightarrow> raft_term \<times> log_index \<Rightarrow> bool" where
  "up_to_date a b \<longleftrightarrow> fst b < fst a \<or> fst b = fst a \<and> snd b \<le> snd a"

definition on_request_vote :: "raft_node \<Rightarrow> node_id \<Rightarrow> request_vote_req \<Rightarrow> outcome" where
  "on_request_vote n0 from req =
     (let (n, effects) = maybe_step_down n0 (rv_term req);
          log_ok = up_to_date (rv_last_log_term req, rv_last_log_index req)
                              (last_term (rn_log n), last_index (rn_log n));
          can_vote = (rn_voted_for n = None \<or> rn_voted_for n = Some (rv_candidate_id req));
          grant = (rv_term req = rn_current_term n \<and> log_ok \<and> can_vote);
          n' = (if grant then n\<lparr>rn_voted_for := Some (rv_candidate_id req),
                               rn_ticks_since_reset := 0\<rparr> else n)
      in Some (n', effects @ (if grant then [Persist] else []) @
               [Send from (RequestVoteResp \<lparr>rvr_term = rn_current_term n', rvr_vote_granted = grant\<rparr>)]))"

definition on_request_vote_resp :: "raft_node \<Rightarrow> node_id \<Rightarrow> request_vote_resp \<Rightarrow> outcome" where
  "on_request_vote_resp n0 from resp =
     (let (n, effects) = maybe_step_down n0 (rvr_term resp)
      in (case rn_role n of
            Candidate votes \<Rightarrow>
              (if rvr_term resp = rn_current_term n \<and> rvr_vote_granted resp
               then do {
                 (n', won) \<leftarrow> try_win (n\<lparr>rn_role := Candidate (insert from votes)\<rparr>);
                 Some (n', effects @ won)
               }
               else Some (n, effects))
          | _ \<Rightarrow> Some (n, effects)))"

text \<open>The \<open>while\<close> loop of \<open>advance_applied\<close>: \<open>last_applied\<close> climbs to \<open>commit_index\<close>.\<close>

function advance_loop :: "raft_log \<Rightarrow> log_index \<Rightarrow> log_index \<Rightarrow> log_index \<times> effect list" where
  "advance_loop l last_applied commit =
     (if last_applied < commit
      then let (la, effects) = advance_loop l (last_applied + 1) commit
           in (la, (case log_get l (last_applied + 1) of Some e \<Rightarrow> [Apply e] | None \<Rightarrow> []) @ effects)
      else (last_applied, []))"
  by pat_completeness auto
termination
  by (relation "measure (\<lambda>(l, la, c). c - la)") auto

declare advance_loop.simps [simp del]

definition advance_applied :: "raft_node \<Rightarrow> raft_node \<times> effect list" where
  "advance_applied n =
     (let (la, effects) = advance_loop (rn_log n) (rn_last_applied n) (rn_commit_index n)
      in (n\<lparr>rn_last_applied := la\<rparr>, effects))"

text \<open>
  The \<open>for\<close> loop of \<open>on_append_entries\<close>: it skips the entries the log holds, truncates at a
  conflict and collects the entries to append; the log is only extended after the loop.
\<close>

fun merge_entries :: "raft_log \<Rightarrow> log_entry list \<Rightarrow> raft_log \<times> effect list \<times> log_entry list" where
  "merge_entries l [] = (l, [], [])"
| "merge_entries l (e # es) =
     (case term_at l (le_index e) of
        Some t \<Rightarrow>
          (if t = le_term e then merge_entries l es
           else let (l', effects, to_append) = merge_entries (truncate_from l (le_index e)) es
                in (l', PersistTruncate (le_index e) # effects, e # to_append))
      | None \<Rightarrow>
          (let (l', effects, to_append) = merge_entries l es
           in (l', effects, e # to_append)))"

definition ae_reply :: "node_id \<Rightarrow> raft_term \<Rightarrow> bool \<Rightarrow> log_index \<Rightarrow> effect" where
  "ae_reply to t ok m =
     Send to (AppendEntriesResp \<lparr>aer_term = t, aer_success = ok, aer_match_index = m\<rparr>)"

definition on_append_entries :: "raft_node \<Rightarrow> node_id \<Rightarrow> append_entries_req \<Rightarrow> outcome" where
  "on_append_entries n0 from req =
     (let (n, effects) = maybe_step_down n0 (ae_term req)
      in if ae_term req < rn_current_term n
         then Some (n, effects @ [ae_reply from (rn_current_term n) False 0])
         else
           let n1 = n\<lparr>rn_role := (if is_candidate (rn_role n) then Follower else rn_role n),
                      rn_ticks_since_reset := 0, rn_leader_hint := Some (ae_leader_id req)\<rparr>
           in if term_at (rn_log n1) (ae_prev_log_index req) \<noteq> Some (ae_prev_log_term req)
              then Some (n1, effects @ [ae_reply from (rn_current_term n1) False 0])
              else do {
                new_match \<leftarrow> checked_add u64_max (ae_prev_log_index req) (length (ae_entries req));
                let (l, truncates, to_append) = merge_entries (rn_log n1) (ae_entries req);
                let appends = (if to_append \<noteq> [] then [PersistEntries to_append] else []);
                let n2 = n1\<lparr>rn_log := append_entries l to_append\<rparr>;
                let (n3, applies) =
                  (if ae_leader_commit req > rn_commit_index n2
                   then advance_applied
                          (n2\<lparr>rn_commit_index := min (ae_leader_commit req) (last_index (rn_log n2))\<rparr>)
                   else (n2, []));
                Some (n3, effects @ truncates @ appends @ applies @
                          [ae_reply from (rn_current_term n3) True new_match])
              })"

text \<open>
  The reverse scan of \<open>try_commit\<close>: from the last index down to the commit index, the first index
  of the current term that a majority holds.
\<close>

definition holders :: "raft_node \<Rightarrow> (node_id \<rightharpoonup> log_index) \<Rightarrow> log_index \<Rightarrow> nat" where
  "holders n match_index i =
     1 + length (filter (\<lambda>p. (case match_index p of Some m \<Rightarrow> m | None \<Rightarrow> 0) \<ge> i) (rn_peers n))"

fun scan_commit :: "raft_node \<Rightarrow> (node_id \<rightharpoonup> log_index) \<Rightarrow> log_index \<Rightarrow> log_index" where
  "scan_commit n match_index 0 = rn_commit_index n"
| "scan_commit n match_index (Suc i) =
     (if Suc i < rn_commit_index n + 1 then rn_commit_index n
      else if term_at (rn_log n) (Suc i) \<noteq> Some (rn_current_term n)
           then scan_commit n match_index i
      else if holders n match_index (Suc i) \<ge> majority n then Suc i
      else scan_commit n match_index i)"

definition try_commit :: "raft_node \<Rightarrow> raft_node \<times> effect list" where
  "try_commit n = (case rn_role n of
     Leader _ match_index \<Rightarrow>
       (let new_commit = scan_commit n match_index (last_index (rn_log n))
        in if new_commit > rn_commit_index n
           then advance_applied (n\<lparr>rn_commit_index := new_commit\<rparr>)
           else (n, []))
   | _ \<Rightarrow> (n, []))"

definition on_propose :: "raft_node \<Rightarrow> bytes \<Rightarrow> outcome" where
  "on_propose n cmd =
     (if \<not> is_leader (rn_role n) then Some (n, [ProposeRejected (rn_leader_hint n)])
      else do {
        let (l, index) = log_append (rn_log n) (rn_current_term n) cmd;
        let n1 = n\<lparr>rn_log := l\<rparr>;
        entry \<leftarrow> log_get l index;
        sends \<leftarrow> broadcast_append n1;
        let (n2, applies) = try_commit n1;
        Some (n2, [PersistEntries [entry]] @ sends @ applies)
      })"

definition on_append_entries_resp :: "raft_node \<Rightarrow> node_id \<Rightarrow> append_entries_resp \<Rightarrow> outcome" where
  "on_append_entries_resp n0 from resp =
     (let (n, effects) = maybe_step_down n0 (aer_term resp)
      in if aer_term resp < rn_current_term n then Some (n, effects)
         else (case rn_role n of
           Leader next_index match_index \<Rightarrow>
             (if aer_success resp
              then do {
                let m = max (case match_index from of Some v \<Rightarrow> v | None \<Rightarrow> 0) (aer_match_index resp);
                next \<leftarrow> checked_add u64_max m 1;
                let n1 = n\<lparr>rn_role := Leader (next_index(from \<mapsto> next)) (match_index(from \<mapsto> m))\<rparr>;
                let (n2, applies) = try_commit n1;
                Some (n2, effects @ applies)
              }
              else do {
                let ni = (case next_index from of Some v \<Rightarrow> v | None \<Rightarrow> 2);
                let n1 = n\<lparr>rn_role := Leader (next_index(from \<mapsto> max (ni - 1) 1)) match_index\<rparr>;
                probe \<leftarrow> append_for n1 from;
                Some (n1, effects @ [probe])
              })
         | _ \<Rightarrow> Some (n, effects)))"

fun step :: "raft_node \<Rightarrow> event \<Rightarrow> outcome" where
  "step n Tick = on_tick n"
| "step n (Message from (RequestVote req)) = on_request_vote n from req"
| "step n (Message from (RequestVoteResp resp)) = on_request_vote_resp n from resp"
| "step n (Message from (AppendEntries req)) = on_append_entries n from req"
| "step n (Message from (AppendEntriesResp resp)) = on_append_entries_resp n from resp"
| "step n (Propose cmd) = on_propose n cmd"

end
