(* ===== verification/Raft_Protocol.thy ===== *)
theory Raft_Protocol
  imports Raft_Core
begin

text \<open>
  The abstract protocol that \<^verbatim>\<open>src/raft/core.rs\<close> implements, as a step relation over all nodes of
  a cluster at once: one rule per durable action of a node (adopt a term, stand as a candidate,
  grant a vote, win, append a proposal, truncate a conflict, extend a log, acknowledge, commit, lose
  the volatile state). Messages do not occur: what a message in flight says is a fact about the
  history that the state records (votes cast, logs of elected leaders, acknowledgements), and such
  facts are never retracted. Safety (election safety, log matching, leader completeness, agreement
  on committed prefixes) is proved here once, for every quorum system, and reaches the code through
  the simulation of theory \<^verbatim>\<open>Raft_Cluster\<close>.
\<close>

subsection \<open>Quorums\<close>

locale quorum_system =
  fixes qrm :: "node_id set \<Rightarrow> bool"
  assumes quorums_meet: "qrm Q \<Longrightarrow> qrm Q' \<Longrightarrow> Q \<inter> Q' \<noteq> {}"

definition majority_of :: "node_id set \<Rightarrow> node_id set \<Rightarrow> bool" where
  "majority_of N Q \<longleftrightarrow> finite N \<and> Q \<subseteq> N \<and> card N < 2 * card Q"

lemma majorities_meet:
  assumes "majority_of N Q" and "majority_of N Q'"
  shows "Q \<inter> Q' \<noteq> {}"
proof
  assume disj: "Q \<inter> Q' = {}"
  have fin: "finite Q" "finite Q'" and sub: "Q \<union> Q' \<subseteq> N" and finN: "finite N"
    using assms by (auto simp: majority_of_def intro: finite_subset)
  have "card (Q \<union> Q') = card Q + card Q'"
    using fin disj by (rule card_Un_disjoint)
  moreover have "card (Q \<union> Q') \<le> card N"
    using finN sub by (rule card_mono)
  ultimately show False
    using assms by (auto simp: majority_of_def)
qed

interpretation maj: quorum_system "majority_of N" for N
  by unfold_locales (rule majorities_meet)

subsection \<open>State and steps\<close>

datatype proto_role = PFollower | PCandidate | PLeader

text \<open>A ballot: the candidate, its last (term, index) as requested, and the voter's log then.\<close>

type_synonym ballot = "node_id \<times> (raft_term \<times> log_index) \<times> raft_log"

record proto =
  p_cur :: "node_id \<Rightarrow> raft_term"
  p_vote :: "node_id \<Rightarrow> node_id option"
  p_role :: "node_id \<Rightarrow> proto_role"
  p_log :: "node_id \<Rightarrow> raft_log"
  p_commit :: "node_id \<Rightarrow> log_index"
  h_votes :: "node_id \<Rightarrow> raft_term \<Rightarrow> ballot option"
  h_reqs :: "(node_id \<times> raft_term \<times> (raft_term \<times> log_index)) set"
  h_leader :: "raft_term \<Rightarrow> node_id option"
  h_quorum :: "raft_term \<Rightarrow> node_id set"
  h_base :: "raft_term \<Rightarrow> raft_log"
  h_tlog :: "raft_term \<Rightarrow> raft_log"
  h_acks :: "(node_id \<times> raft_term \<times> log_index) set"

definition last_of :: "raft_log \<Rightarrow> raft_term \<times> log_index" where
  "last_of l = (last_term l, last_index l)"

definition acked :: "proto \<Rightarrow> node_id \<Rightarrow> raft_term \<Rightarrow> log_index \<Rightarrow> bool" where
  "acked s f t m \<longleftrightarrow> (\<exists>m' \<ge> m. (f, t, m') \<in> h_acks s)"

text \<open>Index \<open>m\<close> of term \<open>t\<close>'s leader log is an entry of that term and a quorum acknowledged it.\<close>

definition chosen :: "(node_id set \<Rightarrow> bool) \<Rightarrow> proto \<Rightarrow> raft_term \<Rightarrow> log_index \<Rightarrow> bool" where
  "chosen qrm s t m \<longleftrightarrow>
     h_leader s t \<noteq> None \<and> 0 < m \<and> term_at (h_tlog s t) m = Some t \<and>
     (\<exists>Q. qrm Q \<and> (\<forall>f \<in> Q. acked s f t m))"

text \<open>The first \<open>k\<close> entries of term \<open>t\<close>'s leader log are settled by a choice of a term up to \<open>t\<close>.\<close>

definition settled :: "(node_id set \<Rightarrow> bool) \<Rightarrow> proto \<Rightarrow> raft_term \<Rightarrow> raft_log \<Rightarrow> log_index \<Rightarrow> bool" where
  "settled qrm s t l k \<longleftrightarrow> k \<le> length l \<and>
     (k = 0 \<or> (\<exists>u \<le> t. \<exists>m \<ge> k. chosen qrm s u m \<and> take k l = take k (h_tlog s u)))"

inductive pstep :: "(node_id set \<Rightarrow> bool) \<Rightarrow> proto \<Rightarrow> proto \<Rightarrow> bool" for qrm where
  adopt: "p_cur s i < t \<Longrightarrow>
    pstep qrm s (s\<lparr>p_cur := (p_cur s)(i := t), p_vote := (p_vote s)(i := None),
                   p_role := (p_role s)(i := PFollower)\<rparr>)"
| demote: "k \<le> p_commit s i \<Longrightarrow>
    pstep qrm s (s\<lparr>p_role := (p_role s)(i := PFollower), p_commit := (p_commit s)(i := k)\<rparr>)"
| candidacy: "x = last_of (p_log s i) \<Longrightarrow> t = p_cur s i + 1 \<Longrightarrow>
    pstep qrm s (s\<lparr>p_cur := (p_cur s)(i := t), p_vote := (p_vote s)(i := Some i),
                   p_role := (p_role s)(i := PCandidate),
                   h_votes := (h_votes s)(i := (h_votes s i)(t := Some (i, x, p_log s i))),
                   h_reqs := insert (i, t, x) (h_reqs s)\<rparr>)"
| grant: "p_cur s f = t \<Longrightarrow> p_vote s f = None \<Longrightarrow> (c, t, x) \<in> h_reqs s \<Longrightarrow>
    up_to_date x (last_of (p_log s f)) \<Longrightarrow>
    pstep qrm s (s\<lparr>p_vote := (p_vote s)(f := Some c),
                   h_votes := (h_votes s)(f := (h_votes s f)(t := Some (c, x, p_log s f)))\<rparr>)"
| win: "p_role s c = PCandidate \<Longrightarrow> p_cur s c = t \<Longrightarrow> qrm Q \<Longrightarrow>
    (\<forall>f \<in> Q. \<exists>x l. h_votes s f t = Some (c, x, l)) \<Longrightarrow>
    pstep qrm s (s\<lparr>p_role := (p_role s)(c := PLeader), h_leader := (h_leader s)(t := Some c),
                   h_quorum := (h_quorum s)(t := Q), h_base := (h_base s)(t := p_log s c),
                   h_tlog := (h_tlog s)(t := p_log s c)\<rparr>)"
| propose: "p_role s c = PLeader \<Longrightarrow> p_cur s c = t \<Longrightarrow>
    l = p_log s c @ [\<lparr>le_term = t, le_index = length (p_log s c) + 1, le_command = cmd\<rparr>] \<Longrightarrow>
    pstep qrm s (s\<lparr>p_log := (p_log s)(c := l), h_tlog := (h_tlog s)(t := l)\<rparr>)"
| truncate: "p_role s f = PFollower \<Longrightarrow> p_cur s f = t \<Longrightarrow> h_leader s t \<noteq> None \<Longrightarrow>
    take k (p_log s f) = take k (h_tlog s t) \<Longrightarrow>
    k < length (p_log s f) \<Longrightarrow> k < length (h_tlog s t) \<Longrightarrow>
    le_term (p_log s f ! k) \<noteq> le_term (h_tlog s t ! k) \<Longrightarrow>
    pstep qrm s (s\<lparr>p_log := (p_log s)(f := take k (p_log s f))\<rparr>)"
| extend: "p_role s f = PFollower \<Longrightarrow> p_cur s f = t \<Longrightarrow> h_leader s t \<noteq> None \<Longrightarrow>
    p_log s f = take k (h_tlog s t) \<Longrightarrow> k \<le> k' \<Longrightarrow>
    pstep qrm s (s\<lparr>p_log := (p_log s)(f := take k' (h_tlog s t))\<rparr>)"
| ack: "p_cur s f = t \<Longrightarrow> h_leader s t \<noteq> None \<Longrightarrow> m \<le> length (h_tlog s t) \<Longrightarrow>
    take m (p_log s f) = take m (h_tlog s t) \<Longrightarrow>
    pstep qrm s (s\<lparr>h_acks := insert (f, t, m) (h_acks s)\<rparr>)"
| commit: "p_cur s i = t \<Longrightarrow> settled qrm s t (p_log s i) k \<Longrightarrow>
    pstep qrm s (s\<lparr>p_commit := (p_commit s)(i := k)\<rparr>)"

definition proto_init :: proto where
  "proto_init =
     \<lparr>p_cur = (\<lambda>_. 0), p_vote = (\<lambda>_. None), p_role = (\<lambda>_. PFollower), p_log = (\<lambda>_. []),
      p_commit = (\<lambda>_. 0), h_votes = (\<lambda>_ _. None), h_reqs = {}, h_leader = (\<lambda>_. None),
      h_quorum = (\<lambda>_. {}), h_base = (\<lambda>_. []), h_tlog = (\<lambda>_. []), h_acks = {}\<rparr>"

subsection \<open>The invariant\<close>

definition matches_leaders :: "proto \<Rightarrow> raft_log \<Rightarrow> bool" where
  "matches_leaders s l \<longleftrightarrow> indexed l \<and>
     (\<forall>k < length l. h_leader s (le_term (l ! k)) \<noteq> None \<and>
                     take (Suc k) l = take (Suc k) (h_tlog s (le_term (l ! k))))"

text \<open>Every leader elected in a term strictly between (or up to) agrees with term \<open>t\<close> on \<open>m\<close> entries.\<close>

definition kept_until :: "proto \<Rightarrow> raft_term \<Rightarrow> log_index \<Rightarrow> raft_term \<Rightarrow> bool" where
  "kept_until s t m u \<longleftrightarrow>
     (\<forall>v. t < v \<and> v \<le> u \<and> h_leader s v \<noteq> None \<longrightarrow> take m (h_tlog s v) = take m (h_tlog s t))"

definition inv_votes :: "proto \<Rightarrow> bool" where
  "inv_votes s \<longleftrightarrow>
     (\<forall>f t c x l. h_votes s f t = Some (c, x, l) \<longrightarrow>
        t \<le> p_cur s f \<and> (t = p_cur s f \<longrightarrow> p_vote s f = Some c) \<and>
        (c, t, x) \<in> h_reqs s \<and> up_to_date x (last_of l) \<and> matches_leaders s l) \<and>
     (\<forall>f c. p_vote s f = Some c \<longrightarrow> (\<exists>x l. h_votes s f (p_cur s f) = Some (c, x, l))) \<and>
     (\<forall>c t x. (c, t, x) \<in> h_reqs s \<longrightarrow>
        t \<le> p_cur s c \<and> (t = p_cur s c \<and> p_role s c = PCandidate \<longrightarrow> x = last_of (p_log s c)))"

definition inv_leader :: "(node_id set \<Rightarrow> bool) \<Rightarrow> proto \<Rightarrow> bool" where
  "inv_leader qrm s \<longleftrightarrow>
     (\<forall>t c. h_leader s t = Some c \<longrightarrow>
        0 < t \<and> t \<le> p_cur s c \<and> qrm (h_quorum s t) \<and>
        (\<forall>f \<in> h_quorum s t. \<exists>l. h_votes s f t = Some (c, last_of (h_base s t), l)) \<and>
        (\<exists>es. h_tlog s t = h_base s t @ es \<and> (\<forall>e \<in> set es. le_term e = t)) \<and>
        (\<forall>e \<in> set (h_base s t). le_term e < t) \<and> matches_leaders s (h_tlog s t)) \<and>
     (\<forall>c. p_role s c = PLeader \<longrightarrow>
        h_leader s (p_cur s c) = Some c \<and> p_log s c = h_tlog s (p_cur s c)) \<and>
     (\<forall>c. p_role s c = PCandidate \<longrightarrow> 0 < p_cur s c \<and> h_leader s (p_cur s c) \<noteq> Some c)"

definition inv_logs :: "proto \<Rightarrow> bool" where
  "inv_logs s \<longleftrightarrow>
     (\<forall>i. matches_leaders s (p_log s i) \<and> (\<forall>e \<in> set (p_log s i). le_term e \<le> p_cur s i) \<and>
          (p_role s i = PCandidate \<longrightarrow> (\<forall>e \<in> set (p_log s i). le_term e < p_cur s i)))"

definition inv_acks :: "proto \<Rightarrow> bool" where
  "inv_acks s \<longleftrightarrow>
     (\<forall>f t m. acked s f t m \<longrightarrow>
        t \<le> p_cur s f \<and> h_leader s t \<noteq> None \<and> m \<le> length (h_tlog s t)) \<and>
     (\<forall>f t m. acked s f t m \<and> kept_until s t m (p_cur s f) \<longrightarrow>
        take m (p_log s f) = take m (h_tlog s t)) \<and>
     (\<forall>f t m u c x l. acked s f t m \<and> t < u \<and> h_votes s f u = Some (c, x, l) \<and>
        (h_leader s u = None \<or> f \<in> h_quorum s u) \<and> kept_until s t m (u - 1) \<longrightarrow>
        take m l = take m (h_tlog s t))"

definition inv_commit :: "(node_id set \<Rightarrow> bool) \<Rightarrow> proto \<Rightarrow> bool" where
  "inv_commit qrm s \<longleftrightarrow> (\<forall>i. settled qrm s (p_cur s i) (p_log s i) (p_commit s i))"

definition proto_inv :: "(node_id set \<Rightarrow> bool) \<Rightarrow> proto \<Rightarrow> bool" where
  "proto_inv qrm s \<longleftrightarrow>
     inv_votes s \<and> inv_leader qrm s \<and> inv_logs s \<and> inv_acks s \<and> inv_commit qrm s"

subsection \<open>History only grows\<close>

text \<open>
  A step never retracts a vote, an acknowledgement, an election, or an entry of an elected
  leader's log; what it adds to the log of term \<open>t\<close> carries term \<open>t\<close>.
\<close>

definition extends :: "proto \<Rightarrow> proto \<Rightarrow> bool" where
  "extends s s' \<longleftrightarrow>
     (\<forall>t c. h_leader s t = Some c \<longrightarrow>
        h_leader s' t = Some c \<and> h_base s' t = h_base s t \<and> h_quorum s' t = h_quorum s t \<and>
        (\<exists>es. h_tlog s' t = h_tlog s t @ es \<and> (\<forall>e \<in> set es. le_term e = t))) \<and>
     (\<forall>f t b. h_votes s f t = Some b \<longrightarrow> h_votes s' f t = Some b) \<and>
     h_reqs s \<subseteq> h_reqs s' \<and> h_acks s \<subseteq> h_acks s' \<and> (\<forall>f. p_cur s f \<le> p_cur s' f)"

lemma extends_refl: "extends s s"
  by (simp add: extends_def)

lemma extends_leader: "extends s s' \<Longrightarrow> h_leader s t \<noteq> None \<Longrightarrow> h_leader s' t = h_leader s t"
  by (auto simp: extends_def)

lemma extends_votes: "extends s s' \<Longrightarrow> h_votes s f t = Some b \<Longrightarrow> h_votes s' f t = Some b"
  unfolding extends_def by blast

lemma extends_tlog:
  assumes "extends s s'" and "h_leader s t \<noteq> None"
  obtains es where "h_tlog s' t = h_tlog s t @ es" and "\<forall>e \<in> set es. le_term e = t"
  using assms unfolding extends_def by blast

lemma extends_trans:
  assumes "extends s s'" and "extends s' s''"
  shows "extends s s''"
proof -
  have "\<exists>es. h_tlog s'' t = h_tlog s t @ es \<and> (\<forall>e \<in> set es. le_term e = t)"
    if lead: "h_leader s t = Some c" for t c
  proof -
    have "h_leader s' t = Some c" using assms(1) lead by (simp add: extends_def)
    then obtain es' where es': "h_tlog s'' t = h_tlog s' t @ es'" "\<forall>e \<in> set es'. le_term e = t"
      using extends_tlog [OF assms(2)] by (metis option.distinct(1))
    obtain es where "h_tlog s' t = h_tlog s t @ es" "\<forall>e \<in> set es. le_term e = t"
      using extends_tlog [OF assms(1)] lead by (metis option.distinct(1))
    with es' show ?thesis by (intro exI [of _ "es @ es'"]) auto
  qed
  moreover have "p_cur s f \<le> p_cur s'' f" for f
    using assms unfolding extends_def by (meson le_trans)
  ultimately show ?thesis
    using assms unfolding extends_def by simp (meson subset_trans)
qed

lemma extends_tlog_take:
  assumes "extends s s'" and "h_leader s t \<noteq> None" and "m \<le> length (h_tlog s t)"
  shows "take m (h_tlog s' t) = take m (h_tlog s t)"
  using extends_tlog [OF assms(1,2)] assms(3) by (metis append_eq_conv_conj take_append take_take min.absorb1)

lemma extends_tlog_length:
  assumes "extends s s'" and "h_leader s t \<noteq> None"
  shows "length (h_tlog s t) \<le> length (h_tlog s' t)"
  using extends_tlog [OF assms] by (metis length_append le_add1)

lemma matches_leaders_mono:
  assumes "extends s s'" and "matches_leaders s l"
  shows "matches_leaders s' l"
proof -
  have "h_leader s' (le_term (l ! k)) \<noteq> None \<and>
        take (Suc k) l = take (Suc k) (h_tlog s' (le_term (l ! k)))" if k: "k < length l" for k
  proof -
    let ?t = "le_term (l ! k)"
    have lead: "h_leader s ?t \<noteq> None" and eq: "take (Suc k) l = take (Suc k) (h_tlog s ?t)"
      using assms(2) k by (auto simp: matches_leaders_def)
    from eq k have "Suc k \<le> length (h_tlog s ?t)"
      by (metis Suc_leI length_take min.absorb2 min.cobounded1)
    with assms(1) lead eq show ?thesis
      by (simp add: extends_leader extends_tlog_take)
  qed
  with assms(2) show ?thesis by (auto simp: matches_leaders_def)
qed

lemma matches_leaders_take: "matches_leaders s l \<Longrightarrow> matches_leaders s (take k l)"
  by (auto simp: matches_leaders_def min_def)

lemma matches_leaders_Nil [simp]: "matches_leaders s []"
  by (simp add: matches_leaders_def)

lemma acked_mono: "extends s s' \<Longrightarrow> acked s f t m \<Longrightarrow> acked s' f t m"
  by (auto simp: extends_def acked_def)

lemma acked_le: "acked s f t m \<Longrightarrow> m' \<le> m \<Longrightarrow> acked s f t m'"
  by (auto simp: acked_def intro: le_trans)

lemma chosen_mono:
  assumes "extends s s'" and "chosen qrm s t m"
  shows "chosen qrm s' t m"
proof -
  from assms(2) obtain Q where q: "qrm Q" "\<forall>f \<in> Q. acked s f t m"
    and l: "h_leader s t \<noteq> None" and m: "0 < m" and ta: "term_at (h_tlog s t) m = Some t"
    by (auto simp: chosen_def)
  obtain es where es: "h_tlog s' t = h_tlog s t @ es"
    using assms(1) l by (rule extends_tlog)
  have "term_at (h_tlog s' t) m = Some t"
    using ta m by (cases m) (auto simp: es nth_append split: if_splits)
  with q l m show ?thesis
    using acked_mono [OF assms(1)] extends_leader [OF assms(1) l] by (auto simp: chosen_def)
qed

lemma chosen_length: "chosen qrm s t m \<Longrightarrow> m \<le> length (h_tlog s t)"
  by (auto simp: chosen_def dest: term_at_Some_le)

lemma settled_mono:
  assumes "extends s s'" and "settled qrm s t l k" and "t \<le> t'"
  shows "settled qrm s' t' l k"
proof (cases "k = 0")
  case True
  then show ?thesis by (simp add: settled_def)
next
  case False
  with assms(2) obtain u m where u: "u \<le> t" "k \<le> m" "chosen qrm s u m"
    "take k l = take k (h_tlog s u)" and k: "k \<le> length l"
    by (auto simp: settled_def)
  have "h_leader s u \<noteq> None" using u(3) by (simp add: chosen_def)
  moreover have "k \<le> length (h_tlog s u)"
    using u(2) chosen_length [OF u(3)] by simp
  ultimately have "take k l = take k (h_tlog s' u)"
    using u(4) assms(1) by (simp add: extends_tlog_take)
  moreover have "chosen qrm s' u m"
    using assms(1) u(3) by (rule chosen_mono)
  ultimately show ?thesis
    using u k assms(3) by (auto simp: settled_def intro: le_trans)
qed

lemma settled_take:
  assumes "settled qrm s t l k" and "take k l' = take k l" and "k \<le> length l'"
  shows "settled qrm s t l' k"
  using assms by (auto simp: settled_def)

lemma settled_le:
  assumes "settled qrm s t l k" and "k' \<le> k"
  shows "settled qrm s t l k'"
proof (cases "k' = 0")
  case True
  then show ?thesis by (simp add: settled_def)
next
  case False
  with assms obtain u m where u: "u \<le> t" "k \<le> m" "chosen qrm s u m"
    "take k l = take k (h_tlog s u)" "k \<le> length l"
    by (auto simp: settled_def)
  have "take k' l = take k' (h_tlog s u)"
    using u(4) assms(2) by (metis min.absorb1 take_take)
  with u assms(2) show ?thesis
    by (auto simp: settled_def intro: le_trans)
qed

subsection \<open>Terms along a leader's log\<close>

lemma inv_leader_tlog:
  assumes "inv_leader qrm s" and "h_leader s t \<noteq> None"
  obtains es where "h_tlog s t = h_base s t @ es" and "\<forall>e \<in> set es. le_term e = t"
    and "\<forall>e \<in> set (h_base s t). le_term e < t" and "matches_leaders s (h_tlog s t)"
  using assms unfolding inv_leader_def by blast

lemma tlog_terms_le:
  assumes "inv_leader qrm s" and "h_leader s t \<noteq> None" and "e \<in> set (h_tlog s t)"
  shows "le_term e \<le> t"
  using inv_leader_tlog [OF assms(1,2)] assms(3) by (metis Un_iff less_imp_le order_refl set_append)

text \<open>
  Whether two elected leaders of terms \<open>t < v\<close> agree on the first \<open>m\<close> entries of \<open>t\<close> is decided once and
  for all: the entries a leader adds carry its own, larger term.
\<close>

lemma agree_stable:
  assumes ext: "extends s s'" and inv: "inv_leader qrm s"
    and t: "h_leader s t \<noteq> None" and v: "h_leader s v \<noteq> None" and "t < v"
    and m: "m \<le> length (h_tlog s t)"
    and agree: "take m (h_tlog s' v) = take m (h_tlog s' t)"
  shows "take m (h_tlog s v) = take m (h_tlog s t)"
proof -
  have t': "take m (h_tlog s' t) = take m (h_tlog s t)"
    using ext t m by (rule extends_tlog_take)
  obtain es where es: "h_tlog s' v = h_tlog s v @ es" "\<forall>e \<in> set es. le_term e = v"
    using ext v by (rule extends_tlog)
  show ?thesis
  proof (cases "m \<le> length (h_tlog s v)")
    case True
    with agree t' es show ?thesis by simp
  next
    case False
    let ?k = "length (h_tlog s v)"
    have "length (take m (h_tlog s' v)) = m" using agree t' m by simp
    with False es(1) have "es \<noteq> []" by auto
    then have "le_term (h_tlog s' v ! ?k) = v"
      using es by (cases es) auto
    moreover have "h_tlog s' v ! ?k = h_tlog s t ! ?k"
      using agree t' False by (metis not_le nth_take)
    moreover have "h_tlog s t ! ?k \<in> set (h_tlog s t)"
      using False m by simp
    ultimately have "v \<le> t" using tlog_terms_le [OF inv t] by metis
    with \<open>t < v\<close> show ?thesis by simp
  qed
qed

lemma kept_until_mono:
  assumes "extends s s'" and "inv_leader qrm s" and "h_leader s t \<noteq> None"
    and "m \<le> length (h_tlog s t)" and "kept_until s' t m u"
  shows "kept_until s t m u"
  using assms agree_stable [OF assms(1,2,3)] extends_leader [OF assms(1)]
  by (auto simp: kept_until_def)

text \<open>In a log that matches the leaders, terms never decrease.\<close>

lemma matches_terms_sorted:
  assumes "inv_leader qrm s" and "matches_leaders s l" and "j \<le> k" and "k < length l"
  shows "le_term (l ! j) \<le> le_term (l ! k)"
proof -
  let ?t = "le_term (l ! k)"
  have eq: "take (Suc k) l = take (Suc k) (h_tlog s ?t)" and lead: "h_leader s ?t \<noteq> None"
    using assms by (auto simp: matches_leaders_def)
  have len: "k < length (h_tlog s ?t)"
    using arg_cong [OF eq, of length] assms(4) by simp
  have "l ! j = h_tlog s ?t ! j"
    using arg_cong [OF eq, of "\<lambda>xs. xs ! j"] assms(3) by simp
  moreover have "h_tlog s ?t ! j \<in> set (h_tlog s ?t)"
    using len assms(3) by simp
  ultimately show ?thesis
    using tlog_terms_le [OF assms(1) lead] by simp
qed

subsection \<open>Election safety\<close>

lemma inv_votesD:
  assumes "inv_votes s" and "h_votes s f t = Some (c, x, l)"
  shows "t \<le> p_cur s f" and "t = p_cur s f \<Longrightarrow> p_vote s f = Some c" and "(c, t, x) \<in> h_reqs s"
    and "up_to_date x (last_of l)" and "matches_leaders s l"
  using assms unfolding inv_votes_def by blast+

lemma inv_votesI:
  assumes "\<And>f t c x l. h_votes s f t = Some (c, x, l) \<Longrightarrow>
        t \<le> p_cur s f \<and> (t = p_cur s f \<longrightarrow> p_vote s f = Some c) \<and> (c, t, x) \<in> h_reqs s \<and>
        up_to_date x (last_of l) \<and> matches_leaders s l"
    and "\<And>f c. p_vote s f = Some c \<Longrightarrow> \<exists>x l. h_votes s f (p_cur s f) = Some (c, x, l)"
    and "\<And>c t x. (c, t, x) \<in> h_reqs s \<Longrightarrow>
        t \<le> p_cur s c \<and> (t = p_cur s c \<and> p_role s c = PCandidate \<longrightarrow> x = last_of (p_log s c))"
  shows "inv_votes s"
  using assms unfolding inv_votes_def by blast

lemma inv_votes_cast:
  assumes "inv_votes s" and "p_vote s f = Some c"
  obtains x l where "h_votes s f (p_cur s f) = Some (c, x, l)"
  using assms unfolding inv_votes_def by blast

lemma inv_votes_req:
  assumes "inv_votes s" and "(c, t, x) \<in> h_reqs s"
  shows "t \<le> p_cur s c" and "t = p_cur s c \<Longrightarrow> p_role s c = PCandidate \<Longrightarrow> x = last_of (p_log s c)"
  using assms unfolding inv_votes_def by blast+

lemma inv_leaderD:
  assumes "inv_leader qrm s" and "h_leader s t = Some c"
  shows "0 < t" and "t \<le> p_cur s c" and "qrm (h_quorum s t)"
    and "f \<in> h_quorum s t \<Longrightarrow> \<exists>l. h_votes s f t = Some (c, last_of (h_base s t), l)"
  using assms unfolding inv_leader_def by blast+

lemma inv_leaderI:
  assumes "\<And>t c. h_leader s t = Some c \<Longrightarrow> 0 < t \<and> t \<le> p_cur s c \<and> qrm (h_quorum s t)"
    and "\<And>t c f. h_leader s t = Some c \<Longrightarrow> f \<in> h_quorum s t \<Longrightarrow>
           \<exists>l. h_votes s f t = Some (c, last_of (h_base s t), l)"
    and "\<And>t c. h_leader s t = Some c \<Longrightarrow>
           (\<exists>es. h_tlog s t = h_base s t @ es \<and> (\<forall>e \<in> set es. le_term e = t)) \<and>
           (\<forall>e \<in> set (h_base s t). le_term e < t)"
    and "\<And>t c. h_leader s t = Some c \<Longrightarrow> matches_leaders s (h_tlog s t)"
    and "\<And>c. p_role s c = PLeader \<Longrightarrow>
           h_leader s (p_cur s c) = Some c \<and> p_log s c = h_tlog s (p_cur s c)"
    and "\<And>c. p_role s c = PCandidate \<Longrightarrow> 0 < p_cur s c \<and> h_leader s (p_cur s c) \<noteq> Some c"
  shows "inv_leader qrm s"
  using assms unfolding inv_leader_def by blast

lemma inv_leader_role:
  assumes "inv_leader qrm s" and "p_role s c = PLeader"
  shows "h_leader s (p_cur s c) = Some c" and "p_log s c = h_tlog s (p_cur s c)"
  using assms unfolding inv_leader_def by blast+

lemma inv_leader_candidate:
  assumes "inv_leader qrm s" and "p_role s c = PCandidate"
  shows "0 < p_cur s c" and "h_leader s (p_cur s c) \<noteq> Some c"
  using assms unfolding inv_leader_def by blast+

lemma inv_logsD:
  assumes "inv_logs s"
  shows "matches_leaders s (p_log s i)"
    and "e \<in> set (p_log s i) \<Longrightarrow> le_term e \<le> p_cur s i"
    and "p_role s i = PCandidate \<Longrightarrow> e \<in> set (p_log s i) \<Longrightarrow> le_term e < p_cur s i"
  using assms unfolding inv_logs_def by blast+

lemma inv_acksD:
  assumes "inv_acks s"
  shows "acked s f t m \<Longrightarrow> t \<le> p_cur s f" and "acked s f t m \<Longrightarrow> h_leader s t \<noteq> None"
    and "acked s f t m \<Longrightarrow> m \<le> length (h_tlog s t)"
    and "acked s f t m \<Longrightarrow> kept_until s t m (p_cur s f) \<Longrightarrow> take m (p_log s f) = take m (h_tlog s t)"
    and "acked s f t m \<Longrightarrow> t < u \<Longrightarrow> h_votes s f u = Some (c, x, l) \<Longrightarrow>
         h_leader s u = None \<or> f \<in> h_quorum s u \<Longrightarrow> kept_until s t m (u - 1) \<Longrightarrow>
         take m l = take m (h_tlog s t)"
  using assms unfolding inv_acks_def by blast+

lemma proto_invD:
  assumes "proto_inv qrm s"
  shows "inv_votes s" and "inv_leader qrm s" and "inv_logs s" and "inv_acks s" and "inv_commit qrm s"
  using assms by (simp_all add: proto_inv_def)

lemma up_to_date_refl: "up_to_date x x"
  by (simp add: up_to_date_def)

context quorum_system
begin

text \<open>A candidate only ever wins a term that has no leader.\<close>

lemma win_is_first:
  assumes "proto_inv qrm s" and "p_role s c = PCandidate" and "qrm Q"
    and "\<forall>f \<in> Q. \<exists>x l. h_votes s f (p_cur s c) = Some (c, x, l)"
  shows "h_leader s (p_cur s c) = None"
proof (rule ccontr)
  assume "h_leader s (p_cur s c) \<noteq> None"
  then obtain d where d: "h_leader s (p_cur s c) = Some d" by blast
  note inv = proto_invD [OF assms(1)]
  have "qrm (h_quorum s (p_cur s c))" using inv(2) d by (rule inv_leaderD)
  then obtain f where f: "f \<in> Q" "f \<in> h_quorum s (p_cur s c)"
    using quorums_meet [OF assms(3)] by blast
  have "d = c" using assms(4) f inv_leaderD(4) [OF inv(2) d f(2)] by force
  with d inv_leader_candidate [OF inv(2) assms(2)] show False by simp
qed

lemma step_extends:
  assumes "proto_inv qrm s" and "pstep qrm s s'"
  shows "extends s s'"
  using assms(2)
proof cases
  case (candidacy x i t)
  have "h_votes s i t = None"
    using inv_votesD(1) [OF proto_invD(1) [OF assms(1)]] candidacy(3)
    by (metis not_Some_eq prod_cases3 Suc_eq_plus1 not_less_eq_eq order_refl)
  with candidacy show ?thesis by (auto simp: extends_def)
next
  case (grant f t c x)
  have "h_votes s f t = None"
    using inv_votesD(2) [OF proto_invD(1) [OF assms(1)]] grant(2,3)
    by (metis not_Some_eq prod_cases3)
  with grant show ?thesis by (auto simp: extends_def)
next
  case (win c t Q)
  have "h_leader s t = None"
    using win_is_first [OF assms(1) win(2,4)] win(3,5) by simp
  with win show ?thesis by (auto simp: extends_def)
next
  case (propose c t l cmd)
  have "p_log s c = h_tlog s t"
    using inv_leader_role [OF proto_invD(2) [OF assms(1)]] propose by blast
  with propose show ?thesis by (auto simp: extends_def)
qed (auto simp: extends_def)

subsection \<open>Every step keeps the invariant\<close>

lemma step_inv_votes:
  assumes inv: "proto_inv qrm s" and st: "pstep qrm s s'"
  shows "inv_votes s'"
proof -
  note iv = proto_invD(1) [OF inv] and il = proto_invD(2) [OF inv] and lg = proto_invD(3) [OF inv]
  have mono: "matches_leaders s' l" if "matches_leaders s l" for l
    using step_extends [OF inv st] that by (rule matches_leaders_mono)
  have lm: "matches_leaders s' (p_log s i)" for i
    using inv_logsD(1) [OF lg] by (rule mono)
  have old: "t \<le> p_cur s f \<and> (t = p_cur s f \<longrightarrow> p_vote s f = Some c) \<and> (c, t, x) \<in> h_reqs s \<and>
             up_to_date x (last_of l) \<and> matches_leaders s' l"
    if "h_votes s f t = Some (c, x, l)" for f t c x l
    using inv_votesD [OF iv that] mono by blast
  have req: "t \<le> p_cur s c \<and> (t = p_cur s c \<and> p_role s c = PCandidate \<longrightarrow> x = last_of (p_log s c))"
    if "(c, t, x) \<in> h_reqs s" for c t x
    using inv_votes_req [OF iv that] by blast
  have cast: "\<exists>x l. h_votes s f (p_cur s f) = Some (c, x, l)" if "p_vote s f = Some c" for f c
    using inv_votes_cast [OF iv that] by blast
  show ?thesis
  proof (rule inv_votesI)
    fix f u c x l
    assume "h_votes s' f u = Some (c, x, l)"
    with st show "u \<le> p_cur s' f \<and> (u = p_cur s' f \<longrightarrow> p_vote s' f = Some c) \<and> (c, u, x) \<in> h_reqs s' \<and>
                 up_to_date x (last_of l) \<and> matches_leaders s' l"
      by cases (use old [of f u c x l] lm [of f] in \<open>auto simp: up_to_date_refl split: if_splits\<close>)
  next
    fix f c
    assume "p_vote s' f = Some c"
    with st show "\<exists>x l. h_votes s' f (p_cur s' f) = Some (c, x, l)"
      by cases (use cast [of f c] in \<open>auto split: if_splits\<close>)
  next
    fix c u x
    assume "(c, u, x) \<in> h_reqs s'"
    with st show "u \<le> p_cur s' c \<and>
                 (u = p_cur s' c \<and> p_role s' c = PCandidate \<longrightarrow> x = last_of (p_log s' c))"
      by cases (use req [of c u x] in \<open>auto split: if_splits\<close>)
  qed
qed

lemma matches_leaders_snoc:
  assumes "matches_leaders s l" and "h_leader s (le_term e) \<noteq> None" and "h_tlog s (le_term e) = l @ [e]"
    and "le_index e = length l + 1"
  shows "matches_leaders s (l @ [e])"
  using assms by (auto simp: matches_leaders_def indexed_def nth_append less_Suc_eq)

lemma step_inv_leader:
  assumes inv: "proto_inv qrm s" and st: "pstep qrm s s'"
  shows "inv_leader qrm s'"
proof -
  note iv = proto_invD(1) [OF inv] and il = proto_invD(2) [OF inv] and lg = proto_invD(3) [OF inv]
  have ext: "extends s s'" using inv st by (rule step_extends)
  have lm: "matches_leaders s' (p_log s i)" for i
    using ext inv_logsD(1) [OF lg] by (rule matches_leaders_mono)
  have votes: "x = last_of (p_log s c)"
    if "h_votes s f (p_cur s c) = Some (c, x, l)" and "p_role s c = PCandidate" for f c x l
    using inv_votesD(3) [OF iv that(1)] inv_votes_req(2) [OF iv] that(2) by blast
  show ?thesis
  proof (rule inv_leaderI)
    fix t c
    assume "h_leader s' t = Some c"
    with st show "0 < t \<and> t \<le> p_cur s' c \<and> qrm (h_quorum s' t)"
      by cases (use inv_leaderD(1-3) [OF il, of t c] inv_leader_candidate(1) [OF il, of c]
                in \<open>auto split: if_splits\<close>)
  next
    fix t c f
    assume lead: "h_leader s' t = Some c" and f: "f \<in> h_quorum s' t"
    show "\<exists>l. h_votes s' f t = Some (c, last_of (h_base s' t), l)"
    proof (cases "h_leader s t")
      case (Some d)
      with ext lead have "h_quorum s' t = h_quorum s t" "h_base s' t = h_base s t" "d = c"
        by (auto simp: extends_def)
      with inv_leaderD(4) [OF il Some, of f] f extends_votes [OF ext] show ?thesis
        by metis
    next
      case None
      from st show ?thesis
      proof cases
        case (win d u Q)
        with lead f None votes [of f d] show ?thesis by (fastforce split: if_splits)
      qed (use lead None in auto)
    qed
  next
    fix t c
    assume lead: "h_leader s' t = Some c"
    show "(\<exists>es. h_tlog s' t = h_base s' t @ es \<and> (\<forall>e \<in> set es. le_term e = t)) \<and>
           (\<forall>e \<in> set (h_base s' t). le_term e < t)"
    proof (cases "h_leader s t")
      case (Some d)
      then have t: "h_leader s t \<noteq> None" by simp
      obtain es where "h_tlog s' t = h_tlog s t @ es" "\<forall>e \<in> set es. le_term e = t"
        using ext t by (rule extends_tlog)
      moreover obtain es' where "h_tlog s t = h_base s t @ es'" "\<forall>e \<in> set es'. le_term e = t"
        "\<forall>e \<in> set (h_base s t). le_term e < t"
        using il t by (rule inv_leader_tlog)
      moreover have "h_base s' t = h_base s t" using ext Some by (simp add: extends_def)
      ultimately show ?thesis by auto
    next
      case None
      from st show ?thesis
      proof cases
        case (win d u Q)
        then have "t = u" using lead None by (auto split: if_splits)
        with win inv_logsD(3) [OF lg win(2)] show ?thesis by simp
      qed (use lead None in auto)
    qed
  next
    fix t c
    assume lead: "h_leader s' t = Some c"
    have old: "matches_leaders s' (h_tlog s t)" if "h_leader s t = Some c"
      using matches_leaders_mono [OF ext] inv_leader_tlog [OF il, of t] that by (metis option.distinct(1))
    from st lead show "matches_leaders s' (h_tlog s' t)"
    proof cases
      case (win d u Q)
      with lead old lm [of d] show ?thesis by (auto split: if_splits)
    next
      case (propose d u l cmd)
      show ?thesis
      proof (cases "t = u")
        case True
        have "h_leader s' u \<noteq> None"
          using lead True by simp
        then show ?thesis
          using True propose lm [of d] by (auto intro!: matches_leaders_snoc)
      next
        case False
        with propose lead old show ?thesis by simp
      qed
    qed (use lead old in auto)
  next
    fix c
    assume role: "p_role s' c = PLeader"
    from st show "h_leader s' (p_cur s' c) = Some c \<and> p_log s' c = h_tlog s' (p_cur s' c)"
    proof cases
      case (win d u Q)
      with role win_is_first [OF inv win(2,4)] inv_leader_role [OF il, of c] show ?thesis
        by (cases "c = d") (auto split: if_splits)
    next
      case (propose d u l cmd)
      with role inv_leader_role [OF il, of c] inv_leader_role [OF il, of d] show ?thesis
        by (cases "c = d") (auto split: if_splits)
    qed (use role inv_leader_role [OF il, of c] in \<open>auto split: if_splits\<close>)
  next
    fix c
    assume role: "p_role s' c = PCandidate"
    from st show "0 < p_cur s' c \<and> h_leader s' (p_cur s' c) \<noteq> Some c"
    proof cases
      case (candidacy x i t)
      with role inv_leader_candidate [OF il, of c] inv_leaderD(2) [OF il, of t i] show ?thesis
        by (cases "c = i") auto
    qed (use role inv_leader_candidate [OF il, of c] in \<open>auto split: if_splits\<close>)
  qed
qed

lemma step_inv_logs:
  assumes inv: "proto_inv qrm s" and st: "pstep qrm s s'"
  shows "inv_logs s'"
proof -
  note il = proto_invD(2) [OF inv] and lg = proto_invD(3) [OF inv]
  note ext = step_extends [OF inv st]
  have lm: "matches_leaders s' (p_log s i)" for i
    using ext inv_logsD(1) [OF lg] by (rule matches_leaders_mono)
  have tl: "matches_leaders s' (h_tlog s t)" if "h_leader s t \<noteq> None" for t
    using matches_leaders_mono [OF ext] inv_leader_tlog [OF il that] by metis
  have "matches_leaders s' (p_log s' i)" for i
    using st
  proof cases
    case (propose c t l cmd)
    have "h_leader s' t \<noteq> None"
      using inv_leader_role(1) [OF il propose(2)] propose by simp
    then have "matches_leaders s' (h_tlog s' t)"
      using inv_leader_tlog [OF step_inv_leader [OF inv st]] by metis
    with propose lm [of i] show ?thesis by (cases "i = c") simp_all
  qed (use lm [of i] tl in \<open>auto split: if_splits intro: matches_leaders_take\<close>)
  moreover have "le_term e \<le> p_cur s' i" if e: "e \<in> set (p_log s' i)" for e i
    using st
  proof cases
    case (extend f t k k')
    with e inv_logsD(2) [OF lg, of e i] tlog_terms_le [OF il, of t e] show ?thesis
      by (auto split: if_splits dest: in_set_takeD)
  next
    case (truncate f t k)
    have "e \<in> set (p_log s i)"
      using e truncate(1) by (cases "i = f") (auto dest: in_set_takeD)
    with inv_logsD(2) [OF lg, of e i] truncate(1) show ?thesis by simp
  qed (use e inv_logsD(2) [OF lg, of e i] in \<open>auto split: if_splits\<close>)
  moreover have "le_term e < p_cur s' i"
    if e: "e \<in> set (p_log s' i)" and role: "p_role s' i = PCandidate" for e i
    using st
    by cases (use e role inv_logsD(2) [OF lg, of e i] inv_logsD(3) [OF lg, of i e]
              in \<open>auto split: if_splits\<close>)
  ultimately show ?thesis
    by (simp add: inv_logs_def)
qed

subsection \<open>Leader completeness\<close>

lemma matches_last:
  assumes "matches_leaders s l" and "l \<noteq> []"
  shows "h_leader s (last_term l) \<noteq> None" and "l = take (length l) (h_tlog s (last_term l))"
proof -
  have k: "length l - 1 < length l" "Suc (length l - 1) = length l" using assms(2) by auto
  have lt: "last_term l = le_term (l ! (length l - 1))"
    using assms(2) by (simp add: last_term_def last_conv_nth)
  have "h_leader s (last_term l) \<noteq> None \<and>
        take (Suc (length l - 1)) l = take (Suc (length l - 1)) (h_tlog s (last_term l))"
    using assms(1) k(1) unfolding lt matches_leaders_def by blast
  then show "h_leader s (last_term l) \<noteq> None" "l = take (length l) (h_tlog s (last_term l))"
    unfolding k(2) by simp_all
qed

lemma agree_beyond:
  assumes "take m l = take m l'" and "le_term (l ! k) \<noteq> le_term (l' ! k)"
  shows "m \<le> k"
  using assms by (metis not_le nth_take)

lemma take_agree_le: "take m l = take m l' \<Longrightarrow> k \<le> m \<Longrightarrow> take k l = take k l'"
  by (metis min.absorb1 take_take)

lemma take_agree_length: "take m l = take m l' \<Longrightarrow> m \<le> length l' \<Longrightarrow> m \<le> length l"
  by (metis length_take min.absorb2 min.cobounded1)

text \<open>A log at least as up to date as one that holds the entries of term \<open>t\<close> up to \<open>m\<close> holds them too.\<close>

lemma up_to_date_holds:
  assumes il: "inv_leader qrm s" and b: "matches_leaders s b" and l: "matches_leaders s l"
    and utd: "up_to_date (last_of b) (last_of l)"
    and t: "h_leader s t \<noteq> None" and m: "0 < m" "term_at (h_tlog s t) m = Some t"
    and held: "take m l = take m (h_tlog s t)"
    and later: "\<And>v. t < v \<Longrightarrow> v = last_term b \<Longrightarrow> h_leader s v \<noteq> None \<Longrightarrow>
                  take m (h_tlog s v) = take m (h_tlog s t)"
  shows "take m b = take m (h_tlog s t)" and "m \<le> length b"
proof -
  have mt: "m \<le> length (h_tlog s t)" using m(2) by (rule term_at_Some_le)
  have ml: "m \<le> length l" using arg_cong [OF held, of length] mt by simp
  have "l ! (m - 1) = h_tlog s t ! (m - 1)"
    using arg_cong [OF held, of "\<lambda>xs. xs ! (m - 1)"] m(1) by simp
  then have "le_term (l ! (m - 1)) = t"
    using m mt by (cases m) auto
  moreover have "le_term (l ! (m - 1)) \<le> le_term (l ! (length l - 1))"
    using m(1) ml by (intro matches_terms_sorted [OF il l]) auto
  moreover have lne: "l \<noteq> []" using m(1) ml by auto
  ultimately have tl: "t \<le> last_term l"
    by (simp add: last_term_def last_conv_nth)
  have tb: "last_term l \<le> last_term b"
    using utd by (auto simp: up_to_date_def last_of_def)
  have "0 < t" using inv_leaderD(1) [OF il] t by blast
  with tl tb have bne: "b \<noteq> []" by (auto simp: last_term_def)
  note bm = matches_last [OF b bne] and lm = matches_last [OF l lne]
  have "take m b = take m (h_tlog s t) \<and> m \<le> length b"
  proof (cases "last_term b = last_term l")
    case True
    then have len: "length l \<le> length b"
      using utd by (auto simp: up_to_date_def last_of_def last_index_def)
    then have "l = take (length l) b"
      using bm(2) lm(2) True by (metis min.absorb1 take_take)
    then have "take m b = take m l" using ml by (metis min.absorb1 take_take)
    with held len ml show ?thesis by simp
  next
    case False
    with tl tb have lt: "t < last_term b" by simp
    then have agree: "take m (h_tlog s (last_term b)) = take m (h_tlog s t)"
      using later bm(1) by blast
    have "m \<le> length b"
    proof (rule ccontr)
      assume short: "\<not> m \<le> length b"
      let ?k = "length b - 1"
      have k: "?k < length b" "?k < m" using short bne by auto
      have "b ! ?k = h_tlog s (last_term b) ! ?k"
        using arg_cong [OF bm(2), of "\<lambda>xs. xs ! ?k"] k(1) by simp
      also have "\<dots> = h_tlog s t ! ?k"
        using arg_cong [OF agree, of "\<lambda>xs. xs ! ?k"] k(2) by simp
      finally have "last_term b = le_term (h_tlog s t ! ?k)"
        using bne by (simp add: last_term_def last_conv_nth)
      moreover have "h_tlog s t ! ?k \<in> set (h_tlog s t)"
        using k(2) mt by simp
      ultimately have "last_term b \<le> t"
        using tlog_terms_le [OF il t] by simp
      with lt show False by simp
    qed
    moreover have "take m b = take m (take (length b) (h_tlog s (last_term b)))"
      using bm(2) by simp
    ultimately show ?thesis using agree by (simp add: min_def)
  qed
  then show "take m b = take m (h_tlog s t)" and "m \<le> length b" by simp_all
qed

lemma completeness:
  assumes iv: "inv_votes s" and il: "inv_leader qrm s" and ia: "inv_acks s"
    and ch: "chosen qrm s t m" and "h_leader s u \<noteq> None" and "t < u"
  shows "take m (h_tlog s u) = take m (h_tlog s t)"
  using assms(5,6)
proof (induction u rule: less_induct)
  case (less u)
  obtain c where c: "h_leader s u = Some c" using less.prems by blast
  obtain Q where Q: "qrm Q" "\<And>f. f \<in> Q \<Longrightarrow> acked s f t m"
    and t: "h_leader s t \<noteq> None" "0 < m" "term_at (h_tlog s t) m = Some t"
    using ch by (auto simp: chosen_def)
  obtain f where f: "f \<in> Q" "f \<in> h_quorum s u"
    using quorums_meet [OF Q(1) inv_leaderD(3) [OF il c]] by blast
  obtain l where v: "h_votes s f u = Some (c, last_of (h_base s u), l)"
    using inv_leaderD(4) [OF il c f(2)] by blast
  have kept: "kept_until s t m (u - 1)"
    using less.IH less.prems(2) by (auto simp: kept_until_def)
  have held: "take m l = take m (h_tlog s t)"
    using inv_acksD(5) [OF ia Q(2) [OF f(1)] less.prems(2) v] f(2) kept by blast
  obtain es where base: "h_tlog s u = h_base s u @ es" "\<forall>e \<in> set (h_base s u). le_term e < u"
    "matches_leaders s (h_tlog s u)"
    using il less.prems(1) by (rule inv_leader_tlog)
  have bm: "matches_leaders s (h_base s u)"
    using matches_leaders_take [OF base(3), of "length (h_base s u)"] base(1) by simp
  have last: "last_term (h_base s u) < u"
    using base(2) less.prems(2) by (auto simp: last_term_def)
  have later: "take m (h_tlog s v) = take m (h_tlog s t)"
    if "t < v" "v = last_term (h_base s u)" "h_leader s v \<noteq> None" for v
    using less.IH [of v] that last by simp
  note up = up_to_date_holds [OF il bm inv_votesD(5) [OF iv v] inv_votesD(4) [OF iv v] t held later]
  show ?case using up base(1) by simp
qed

subsection \<open>Acknowledgements and commits\<close>

text \<open>
  Entries that a node agrees on with the leader it listens to survive its own log changes: a
  truncation starts at a conflict, hence beyond them.
\<close>

lemma step_keeps_agreement:
  assumes inv: "proto_inv qrm s" and st: "pstep qrm s s'"
    and held: "m \<le> length (p_log s f)"
    and agree: "h_leader s (p_cur s f) \<noteq> None \<Longrightarrow>
                take m (p_log s f) = take m (h_tlog s (p_cur s f))"
  shows "take m (p_log s' f) = take m (p_log s f)"
  using st
proof cases
  case (truncate g t k)
  show ?thesis
  proof (cases "f = g")
    case True
    then have "m \<le> k" using agree truncate agree_beyond by metis
    with True truncate(1) show ?thesis by (simp add: min_def)
  qed (simp add: truncate(1))
next
  case (extend g t k k')
  show ?thesis
  proof (cases "f = g")
    case True
    then have "take m (h_tlog s t) = take m (p_log s f)" and "m \<le> k'"
      using agree extend held by auto
    with True extend show ?thesis by (simp add: min_def)
  qed (simp add: extend(1))
qed (use held in auto)

lemma ack_agrees_now:
  assumes il: "inv_leader qrm s" and ia: "inv_acks s"
    and a: "acked s f t m" and kept: "kept_until s t m (p_cur s f)"
  shows "m \<le> length (p_log s f)"
    and "h_leader s (p_cur s f) \<noteq> None \<Longrightarrow> take m (p_log s f) = take m (h_tlog s (p_cur s f))"
proof -
  have eq: "take m (p_log s f) = take m (h_tlog s t)" and "m \<le> length (h_tlog s t)"
    using inv_acksD [OF ia] a kept by blast+
  then show "m \<le> length (p_log s f)" by (rule take_agree_length)
  assume "h_leader s (p_cur s f) \<noteq> None"
  moreover have "t \<le> p_cur s f" using ia a by (rule inv_acksD)
  ultimately show "take m (p_log s f) = take m (h_tlog s (p_cur s f))"
    using eq kept by (cases "t = p_cur s f") (auto simp: kept_until_def)
qed

lemma kept_until_le: "kept_until s t m u \<Longrightarrow> u' \<le> u \<Longrightarrow> kept_until s t m u'"
  by (auto simp: kept_until_def)

lemma kept_until_skip:
  assumes "kept_until s t m (u - 1)" and "h_leader s u = None" and "w \<le> u"
  shows "kept_until s t m w"
  unfolding kept_until_def
proof (intro allI impI)
  fix v
  assume v: "t < v \<and> v \<le> w \<and> h_leader s v \<noteq> None"
  then have "v \<noteq> u" using assms(2) by auto
  with v assms(3) have "v \<le> u - 1" by linarith
  with v assms(1) show "take m (h_tlog s v) = take m (h_tlog s t)"
    by (simp add: kept_until_def)
qed

lemma step_new_ack:
  assumes "pstep qrm s s'" and "acked s' f t m" and "\<not> acked s f t m"
  shows "t = p_cur s f \<and> h_leader s t \<noteq> None \<and> m \<le> length (h_tlog s t) \<and>
         take m (p_log s f) = take m (h_tlog s t) \<and> p_cur s' = p_cur s \<and> p_log s' = p_log s \<and>
         h_tlog s' = h_tlog s \<and> h_leader s' = h_leader s \<and> h_votes s' = h_votes s"
  using assms(1)
proof cases
  case (ack g u n)
  then have "g = f" "u = t" "m \<le> n" using assms(2,3) by (auto simp: acked_def)
  with ack show ?thesis by (auto intro: take_agree_le)
qed (use assms(2,3) in \<open>auto simp: acked_def\<close>)

lemma step_new_vote:
  assumes "pstep qrm s s'" and "h_votes s' f u = Some (c, x, l)" and "h_votes s f u \<noteq> Some (c, x, l)"
  shows "l = p_log s f \<and> u = p_cur s' f \<and> u \<le> p_cur s f + 1 \<and> h_leader s' = h_leader s \<and>
         h_quorum s' = h_quorum s"
  using assms by cases (auto split: if_splits)

lemma step_inv_acks:
  assumes inv: "proto_inv qrm s" and st: "pstep qrm s s'"
  shows "inv_acks s'"
proof -
  note iv = proto_invD(1) [OF inv] and il = proto_invD(2) [OF inv] and ia = proto_invD(4) [OF inv]
  note ext = step_extends [OF inv st]
  have cur: "p_cur s f \<le> p_cur s' f" for f using ext by (simp add: extends_def)
  have tlog: "take m (h_tlog s' t) = take m (h_tlog s t)" if "acked s f t m" for f t m
    using extends_tlog_take [OF ext] inv_acksD(2,3) [OF ia that] by blast
  have kept: "kept_until s t m u" if "acked s f t m" "kept_until s' t m u" for f t m u
    using kept_until_mono [OF ext il] inv_acksD(2,3) [OF ia that(1)] that(2) by blast
  have "t \<le> p_cur s' f \<and> h_leader s' t \<noteq> None \<and> m \<le> length (h_tlog s' t)"
    if "acked s' f t m" for f t m
  proof (cases "acked s f t m")
    case True
    note a = inv_acksD(1-3) [OF ia True]
    show ?thesis
      using a cur [of f] extends_leader [OF ext a(2)] extends_tlog_length [OF ext a(2)] by simp
  next
    case False
    with step_new_ack [OF st that] show ?thesis by auto
  qed
  moreover have "take m (p_log s' f) = take m (h_tlog s' t)"
    if a': "acked s' f t m" and k: "kept_until s' t m (p_cur s' f)" for f t m
  proof (cases "acked s f t m")
    case True
    have ks: "kept_until s t m (p_cur s f)"
      using kept [OF True k] cur by (rule kept_until_le)
    have "take m (p_log s' f) = take m (p_log s f)"
      using step_keeps_agreement [OF inv st] ack_agrees_now [OF il ia True ks] by blast
    with inv_acksD(4) [OF ia True ks] tlog [OF True] show ?thesis by simp
  next
    case False
    with step_new_ack [OF st a'] show ?thesis by simp
  qed
  moreover have "take m l = take m (h_tlog s' t)"
    if a': "acked s' f t m" and tu: "t < u" and v': "h_votes s' f u = Some (c, x, l)"
      and q': "h_leader s' u = None \<or> f \<in> h_quorum s' u" and k: "kept_until s' t m (u - 1)"
    for f t m u c x l
  proof (cases "acked s f t m")
    case False
    note new = step_new_ack [OF st a' False]
    then have "u \<le> p_cur s f" using inv_votesD(1) [OF iv, of f u c x l] v' by simp
    with new tu show ?thesis by simp
  next
    case True
    have ks: "kept_until s t m (u - 1)" using True k by (rule kept)
    have q: "h_leader s u = None \<or> f \<in> h_quorum s u"
      using q' ext unfolding extends_def by (metis not_None_eq)
    show ?thesis
    proof (cases "h_votes s f u = Some (c, x, l)")
      case old: True
      then show ?thesis
        using inv_acksD(5) [OF ia True tu old q ks] tlog [OF True] by simp
    next
      case False
      note new = step_new_vote [OF st v' False]
      have "h_leader s u = None"
      proof (rule ccontr)
        assume "h_leader s u \<noteq> None"
        then obtain d where d: "h_leader s u = Some d" by blast
        with q have "f \<in> h_quorum s u" by simp
        then obtain l' where "h_votes s f u = Some (d, last_of (h_base s u), l')"
          using inv_leaderD(4) [OF il d] by blast
        with extends_votes [OF ext this] v' False show False by simp
      qed
      then have "kept_until s t m (p_cur s f)"
        using kept_until_skip [OF ks] new cur [of f] by simp
      then show ?thesis
        using inv_acksD(4) [OF ia True] new tlog [OF True] by simp
    qed
  qed
  ultimately show ?thesis
    unfolding inv_acks_def by blast
qed

lemma step_inv_commit:
  assumes inv: "proto_inv qrm s" and st: "pstep qrm s s'"
  shows "inv_commit qrm s'"
proof -
  note iv = proto_invD(1) [OF inv] and il = proto_invD(2) [OF inv] and ia = proto_invD(4) [OF inv]
  note ext = step_extends [OF inv st]
  have "settled qrm s' (p_cur s' i) (p_log s' i) (p_commit s' i)" for i
  proof -
    let ?k = "p_commit s i"
    have old: "settled qrm s (p_cur s i) (p_log s i) ?k"
      using proto_invD(5) [OF inv] by (simp add: inv_commit_def)
    have cur: "p_cur s i \<le> p_cur s' i" using ext by (simp add: extends_def)
    have k: "?k \<le> length (p_log s i)" using old by (simp add: settled_def)
    have agree: "take ?k (p_log s i) = take ?k (h_tlog s (p_cur s i))"
      if lead: "h_leader s (p_cur s i) \<noteq> None"
    proof (cases "?k = 0")
      case False
      with old obtain u m where u: "u \<le> p_cur s i" "?k \<le> m" "chosen qrm s u m"
        "take ?k (p_log s i) = take ?k (h_tlog s u)"
        by (auto simp: settled_def)
      have "take m (h_tlog s (p_cur s i)) = take m (h_tlog s u)"
        using completeness [OF iv il ia u(3) lead] u(1) by (cases "u = p_cur s i") auto
      with u(2,4) take_agree_le show ?thesis by metis
    qed simp
    have same: "take ?k (p_log s' i) = take ?k (p_log s i)"
      using step_keeps_agreement [OF inv st k agree] .
    then have "?k \<le> length (p_log s' i)"
      using k by (rule take_agree_length)
    with settled_mono [OF ext old cur] same
    have kept: "settled qrm s' (p_cur s' i) (p_log s' i) ?k"
      by (blast intro: settled_take)
    from st show ?thesis
    proof cases
      case (demote k' j)
      with kept settled_le [OF kept] show ?thesis by (cases "i = j") simp_all
    next
      case (commit j t k')
      with kept settled_mono [OF ext, of qrm "p_cur s j" "p_log s j" k' "p_cur s' j"] show ?thesis
        by (cases "i = j") simp_all
    qed (use kept in simp_all)
  qed
  then show ?thesis by (simp add: inv_commit_def)
qed

theorem step_proto_inv: "proto_inv qrm s \<Longrightarrow> pstep qrm s s' \<Longrightarrow> proto_inv qrm s'"
  using step_inv_votes step_inv_leader step_inv_logs step_inv_acks step_inv_commit
  unfolding proto_inv_def by blast

theorem steps_proto_inv: "(pstep qrm)\<^sup>*\<^sup>* s s' \<Longrightarrow> proto_inv qrm s \<Longrightarrow> proto_inv qrm s'"
  by (induction rule: rtranclp_induct) (auto intro: step_proto_inv)

lemma steps_extends:
  assumes "(pstep qrm)\<^sup>*\<^sup>* s s'" and "proto_inv qrm s"
  shows "extends s s'"
  using assms
proof (induction rule: rtranclp_induct)
  case (step s' s'')
  then show ?case
    using step_extends steps_proto_inv extends_trans by blast
qed (rule extends_refl)

theorem init_proto_inv: "proto_inv qrm proto_init"
  by (simp add: proto_inv_def inv_votes_def inv_leader_def inv_logs_def inv_acks_def inv_commit_def
      proto_init_def acked_def settled_def matches_leaders_def)

subsection \<open>Safety of the abstract protocol\<close>

lemma one_leader:
  assumes "proto_inv qrm s" and "p_role s c = PLeader" and "p_role s d = PLeader"
    and "p_cur s c = p_cur s d"
  shows "c = d"
  using inv_leader_role(1) [OF proto_invD(2) [OF assms(1)]] assms(2-4) by (metis option.inject)

lemma log_matching:
  assumes "proto_inv qrm s" and "k < length (p_log s i)" and "k < length (p_log s j)"
    and "le_term (p_log s i ! k) = le_term (p_log s j ! k)"
  shows "take (Suc k) (p_log s i) = take (Suc k) (p_log s j)"
  using inv_logsD(1) [OF proto_invD(3) [OF assms(1)]] assms(2-4)
  unfolding matches_leaders_def by metis

lemma settled_agree:
  assumes inv: "proto_inv qrm s" and "settled qrm s t l k" and "settled qrm s t' l' k'" and "k \<le> k'"
  shows "take k l = take k l'"
proof (cases "k = 0")
  case False
  note iv = proto_invD(1) [OF inv] and il = proto_invD(2) [OF inv] and ia = proto_invD(4) [OF inv]
  obtain u m where u: "k \<le> m" "chosen qrm s u m" "take k l = take k (h_tlog s u)"
    using assms(2) False by (auto simp: settled_def)
  obtain u' m' where u': "k' \<le> m'" "chosen qrm s u' m'" "take k' l' = take k' (h_tlog s u')"
    using assms(3,4) False by (auto simp: settled_def)
  have lead: "h_leader s u \<noteq> None" "h_leader s u' \<noteq> None"
    using u u' by (auto simp: chosen_def)
  have "take k (h_tlog s u) = take k (h_tlog s u')"
  proof (cases u u' rule: linorder_cases)
    case less
    with completeness [OF iv il ia u(2) lead(2)] u(1) take_agree_le show ?thesis by metis
  next
    case greater
    with completeness [OF iv il ia u'(2) lead(1)] u'(1) assms(4) take_agree_le show ?thesis
      by (metis le_trans)
  qed simp
  with u(3) u'(3) assms(4) take_agree_le show ?thesis by metis
qed simp

lemma committed_agree:
  assumes "proto_inv qrm s" and "p_commit s i \<le> p_commit s j"
  shows "take (p_commit s i) (p_log s i) = take (p_commit s i) (p_log s j)"
  using settled_agree [OF assms(1) _ _ assms(2)] proto_invD(5) [OF assms(1)]
  unfolding inv_commit_def by blast

end

end
