(* ===== verification/Raft_Steps.thy ===== *)
theory Raft_Steps
  imports Raft_Core
begin

text \<open>
  What the loops and helpers of \<^verbatim>\<open>src/raft/core.rs\<close> compute: the conflict-resolution loop of
  \<open>on_append_entries\<close> against the leader's log, the apply loop, the reverse commit scan, and the order
  in which a step's effects are emitted.
\<close>

subsection \<open>The conflict-resolution loop\<close>

lemma merge_beyond:
  assumes "\<And>e. e \<in> set es \<Longrightarrow> length l < le_index e"
  shows "merge_entries l es = (l, [], es)"
  using assms
proof (induction es)
  case (Cons e es)
  have "length l < le_index e" using Cons.prems by simp
  then have "term_at l (le_index e) = None" by (simp add: term_at_def)
  moreover have "merge_entries l es = (l, [], es)" using Cons by simp
  ultimately show ?case by simp
qed simp

text \<open>
  \<open>L\<close> is the leader's log and \<open>es\<close> the segment of it after index \<open>p\<close>; the follower's log \<open>l\<close> agrees with
  \<open>L\<close> up to \<open>p\<close>, and equal terms at one index mean equal prefixes. Then the loop either finds the
  whole segment in place, or it stops at the first index \<open>j\<close> where \<open>l\<close> ends or conflicts.
\<close>

definition segment :: "raft_log \<Rightarrow> log_index \<Rightarrow> log_entry list \<Rightarrow> bool" where
  "segment L p es \<longleftrightarrow> p + length es \<le> length L \<and> es = take (length es) (drop p L)"

lemma segment_Nil [simp]: "segment L p [] \<longleftrightarrow> p \<le> length L"
  by (simp add: segment_def)

lemma segment_Cons:
  "segment L p (e # es) \<longleftrightarrow> p < length L \<and> e = L ! p \<and> segment L (Suc p) es"
proof (cases "p < length L")
  case True
  have "take (Suc (length es)) (drop p L) = L ! p # take (length es) (drop (Suc p) L)"
    using True by (simp add: Cons_nth_drop_Suc [symmetric])
  with True show ?thesis by (auto simp: segment_def)
qed (simp add: segment_def)

lemma segment_append: "segment L p es \<Longrightarrow> take p L @ es = take (p + length es) L"
  by (auto simp: segment_def take_add)

lemma segment_nth: "segment L p es \<Longrightarrow> i < length es \<Longrightarrow> es ! i = L ! (p + i)"
  unfolding segment_def by (metis add_leD1 nth_drop nth_take)

lemma segment_index:
  "segment L p es \<Longrightarrow> indexed L \<Longrightarrow> e \<in> set es \<Longrightarrow> p < le_index e \<and> le_index e \<le> p + length es"
proof -
  assume seg: "segment L p es" and idx: "indexed L" and "e \<in> set es"
  then obtain i where i: "i < length es" "e = es ! i" by (auto simp: in_set_conv_nth)
  then have "e = L ! (p + i)" "p + i < length L"
    using segment_nth [OF seg] seg by (auto simp: segment_def)
  then have "le_index e = Suc (p + i)" using idx by (simp add: indexed_def)
  with i show ?thesis by simp
qed

lemma merge_conflict:
  assumes "segment L p es" and "indexed L" and "es \<noteq> []"
    and "p < length l" and "le_term (l ! p) \<noteq> le_term (L ! p)"
  shows "merge_entries l es = (take p l, [PersistTruncate (Suc p)], es)"
proof -
  obtain e es' where es: "es = e # es'" using assms(3) by (cases es) auto
  then have e: "e = L ! p" "p < length L" and seg: "segment L (Suc p) es'"
    using assms(1) by (auto simp: segment_Cons)
  have idx: "le_index e = Suc p" using e assms(2) by (simp add: indexed_def)
  have "merge_entries (take p l) es' = (take p l, [], es')"
    using segment_index [OF seg assms(2)] assms(4) by (intro merge_beyond) (auto dest: Suc_lessD)
  with es e idx assms(4,5) show ?thesis
    by (simp add: truncate_from_def)
qed

definition merge_stops :: "raft_log \<Rightarrow> raft_log \<Rightarrow> log_index \<Rightarrow> log_entry list \<Rightarrow> log_index \<Rightarrow> bool" where
  "merge_stops L l p es j \<longleftrightarrow>
     p \<le> j \<and> j \<le> p + length es \<and> j \<le> length l \<and> take j l = take j L \<and>
     (if j = p + length es then merge_entries l es = (l, [], [])
      else if j = length l then merge_entries l es = (l, [], drop (j - p) es)
      else le_term (l ! j) \<noteq> le_term (L ! j) \<and>
           merge_entries l es = (take j l, [PersistTruncate (Suc j)], drop (j - p) es))"

lemma merge_stops_Cons:
  assumes "merge_stops L l (Suc p) es j" and "merge_entries l (e # es) = merge_entries l es"
  shows "merge_stops L l p (e # es) j"
proof -
  have "Suc p \<le> j" using assms(1) by (simp add: merge_stops_def)
  then have "drop (j - p) (e # es) = drop (j - Suc p) es"
    by (metis Suc_diff_le diff_Suc_Suc drop_Suc_Cons)
  with assms show ?thesis
    by (simp add: merge_stops_def split: if_splits)
qed

lemma merge_entries_stops:
  assumes "segment L p es" and "indexed L" and "p \<le> length l" and "take p l = take p L"
    and matching: "\<And>k. k < length l \<Longrightarrow> k < length L \<Longrightarrow> le_term (l ! k) = le_term (L ! k) \<Longrightarrow>
                     take (Suc k) l = take (Suc k) L"
  shows "\<exists>j. merge_stops L l p es j"
  using assms(1,3,4)
proof (induction es arbitrary: p)
  case Nil
  then have "merge_stops L l p [] p" by (simp add: merge_stops_def)
  then show ?case by blast
next
  case (Cons e es)
  have e: "e = L ! p" "p < length L" and seg: "segment L (Suc p) es"
    using Cons.prems(1) by (auto simp: segment_Cons)
  have ie: "le_index e = Suc p" using e assms(2) by (simp add: indexed_def)
  consider "p = length l" | "p < length l" "le_term (l ! p) \<noteq> le_term (L ! p)"
    | "p < length l" "le_term (l ! p) = le_term (L ! p)"
    using Cons.prems(2) by linarith
  then show ?case
  proof cases
    case 1
    then have "merge_entries l (e # es) = (l, [], e # es)"
      using segment_index [OF Cons.prems(1) assms(2)] by (intro merge_beyond) auto
    with 1 Cons.prems have "merge_stops L l p (e # es) p" by (simp add: merge_stops_def)
    then show ?thesis by blast
  next
    case 2
    then have "merge_stops L l p (e # es) p"
      using merge_conflict [OF Cons.prems(1) assms(2) _ 2] Cons.prems(3)
      by (simp add: merge_stops_def)
    then show ?thesis by blast
  next
    case 3
    have "take (Suc p) l = take (Suc p) L" using matching [OF 3(1) e(2) 3(2)] .
    then obtain j where "merge_stops L l (Suc p) es j"
      using Cons.IH [OF seg] 3(1) by auto
    moreover have "merge_entries l (e # es) = merge_entries l es" using 3 e ie by simp
    ultimately show ?thesis using merge_stops_Cons by blast
  qed
qed

lemma merge_entries_cases:
  assumes "segment L p es" and "indexed L" and "p \<le> length l" and "take p l = take p L"
    and "\<And>k. k < length l \<Longrightarrow> k < length L \<Longrightarrow> le_term (l ! k) = le_term (L ! k) \<Longrightarrow>
             take (Suc k) l = take (Suc k) L"
  obtains (same) "merge_entries l es = (l, [], [])" and "p + length es \<le> length l"
      and "take (p + length es) l = take (p + length es) L"
  | (short) "p \<le> length l" and "length l < p + length es" and "l = take (length l) L"
      and "merge_entries l es = (l, [], drop (length l - p) es)"
  | (conflict) j where "p \<le> j" and "j < p + length es" and "j < length l"
      and "take j l = take j L" and "le_term (l ! j) \<noteq> le_term (L ! j)"
      and "merge_entries l es = (take j l, [PersistTruncate (Suc j)], drop (j - p) es)"
proof -
  obtain j where "merge_stops L l p es j" using merge_entries_stops [OF assms] by blast
  then show ?thesis
    using same short conflict unfolding merge_stops_def
    by (metis le_neq_implies_less order_refl take_all)
qed

subsection \<open>The apply loop\<close>

lemma advance_loop_applies:
  assumes "la \<le> c" and "c \<le> length l"
  shows "advance_loop l la c = (c, map Apply (take (c - la) (drop la l)))"
  using assms
proof (induction l la c rule: advance_loop.induct)
  case (1 l la c)
  show ?case
  proof (cases "la < c")
    case True
    then have "advance_loop l (la + 1) c = (c, map Apply (take (c - (la + 1)) (drop (la + 1) l)))"
      using 1 by simp
    moreover have "take (c - la) (drop la l) = l ! la # take (c - (la + 1)) (drop (la + 1) l)"
      using True 1 by (simp add: Cons_nth_drop_Suc [symmetric] Suc_diff_Suc [symmetric])
    ultimately show ?thesis
      using True 1 by (simp add: advance_loop.simps [of l la c] log_get_def)
  next
    case False
    with 1 have "la = c" by simp
    then show ?thesis by (simp add: advance_loop.simps [of l c c])
  qed
qed

lemma advance_loop_fst: "la \<le> c \<Longrightarrow> fst (advance_loop l la c) = c"
proof (induction l la c rule: advance_loop.induct)
  case (1 l la c)
  show ?case
  proof (cases "la < c")
    case True
    with 1 show ?thesis by (simp add: advance_loop.simps [of l la c] case_prod_beta)
  next
    case False
    with 1 have "la = c" by simp
    then show ?thesis by (simp add: advance_loop.simps [of l c c])
  qed
qed

subsection \<open>The commit scan\<close>

lemma scan_commit_cases:
  "scan_commit n mi k = rn_commit_index n \<or>
   rn_commit_index n < scan_commit n mi k \<and> scan_commit n mi k \<le> k \<and>
   term_at (rn_log n) (scan_commit n mi k) = Some (rn_current_term n) \<and>
   majority n \<le> holders n mi (scan_commit n mi k)"
  by (induction n mi k rule: scan_commit.induct) auto

lemma scan_commit_max:
  assumes "rn_commit_index n < j" and "j \<le> k"
    and "term_at (rn_log n) j = Some (rn_current_term n)" and "majority n \<le> holders n mi j"
  shows "j \<le> scan_commit n mi k"
  using assms(2)
proof (induction k)
  case (Suc k)
  show ?case
  proof (cases "j = Suc k")
    case True
    with assms show ?thesis by simp
  next
    case False
    with Suc have "j \<le> scan_commit n mi k" "j \<le> k" by auto
    with assms(1) show ?thesis by simp
  qed
qed (use assms(1) in simp)

lemma try_commit_index:
  assumes "try_commit n = (n', effs)" and "rn_role n = Leader ni mi"
  shows "rn_commit_index n' = scan_commit n mi (last_index (rn_log n))"
  using assms scan_commit_cases [of n mi "last_index (rn_log n)"]
  by (auto simp: try_commit_def Let_def advance_applied_def case_prod_beta split: if_splits)

text \<open>
  C8 (the commit rule): a leader's commit index only moves to an index that a majority of the cluster holds and whose
  entry is of the leader's own term (an entry of an older term is never committed by counting
  replicas), and it moves to the greatest such index.
\<close>

theorem commit_rule:
  assumes "try_commit n = (n', effs)" and "rn_role n = Leader ni mi"
  shows "(rn_commit_index n' = rn_commit_index n \<or>
          rn_commit_index n < rn_commit_index n' \<and>
          term_at (rn_log n) (rn_commit_index n') = Some (rn_current_term n) \<and>
          majority n \<le> holders n mi (rn_commit_index n')) \<and>
         (\<forall>k. rn_commit_index n' < k \<and> term_at (rn_log n) k = Some (rn_current_term n) \<longrightarrow>
              holders n mi k < majority n)"
proof -
  note eq = try_commit_index [OF assms]
  have "holders n mi k < majority n"
    if "rn_commit_index n' < k" "term_at (rn_log n) k = Some (rn_current_term n)" for k
  proof (rule ccontr)
    assume "\<not> holders n mi k < majority n"
    moreover have "k \<le> last_index (rn_log n)" using term_at_Some_le [OF that(2)] by (simp add: last_index_def)
    moreover have "rn_commit_index n < k"
      using that(1) scan_commit_cases [of n mi "last_index (rn_log n)"] eq by linarith
    ultimately have "k \<le> rn_commit_index n'" using scan_commit_max that(2) unfolding eq by simp
    with that(1) show False by simp
  qed
  with scan_commit_cases [of n mi "last_index (rn_log n)"] show ?thesis unfolding eq by blast
qed

definition old_term_leader :: raft_node where
  "old_term_leader = (raft_node_new 1 [2, 3] 10)
     \<lparr>rn_role := Leader [2 \<mapsto> 2, 3 \<mapsto> 2] [2 \<mapsto> 1, 3 \<mapsto> 1], rn_current_term := 3,
      rn_log := [\<lparr>le_term = 2, le_index = 1, le_command = [7]\<rparr>]\<rparr>"

theorem commit_rule_witness:
  "try_commit old_term_leader = (old_term_leader, []) \<and>
   holders old_term_leader [2 \<mapsto> 1, 3 \<mapsto> 1] 1 = 3 \<and> rn_commit_index old_term_leader = 0"
proof -
  have h: "try_commit old_term_leader = (old_term_leader, [])"
    "rn_role old_term_leader = Leader [2 \<mapsto> 2, 3 \<mapsto> 2] [2 \<mapsto> 1, 3 \<mapsto> 1]"
    by (simp_all add: try_commit_def old_term_leader_def last_index_def raft_node_new_def)
  from commit_rule [OF h] h show ?thesis
    by (simp add: holders_def old_term_leader_def raft_node_new_def)
qed

end
