(* ===== verification/Raft_Storage.thy ===== *)
theory Raft_Storage
  imports Raft_Steps Sled
begin

text \<open>
  The durable state of a node (\<^verbatim>\<open>src/raft/storage.rs\<close>). The abstract specification \<open>durable\<close> is
  what must survive a crash: the term, the vote and the log entries in index order. \<open>RaftStorage\<close> keeps
  them in a \<^verbatim>\<open>sled\<close> tree under byte keys; the tree and the JSON codec are parameters (records of
  functions), what the code relies on of them is stated as \<open>sled_laws\<close> and \<open>codec_laws\<close>, and
  the refinement says that after any sequence of storage operations the two load functions return the
  specification's state. The specification takes every operation as one step; \<open>torn_truncation\<close> at the end of the theory has
  what is recovered when the process dies inside \<open>truncate_from\<close>.
\<close>

subsection \<open>The specification\<close>

record hard_state =
  hs_current_term :: raft_term
  hs_voted_for :: "node_id option"

definition hard_state_default :: hard_state where
  "hard_state_default = \<lparr>hs_current_term = 0, hs_voted_for = None\<rparr>"

record durable =
  d_hard :: hard_state
  d_log :: "log_entry list"

definition durable_new :: durable where
  "durable_new = \<lparr>d_hard = hard_state_default, d_log = []\<rparr>"

text \<open>Storing an entry replaces the one at its index or takes its place in index order.\<close>

fun store_entry :: "log_entry \<Rightarrow> log_entry list \<Rightarrow> log_entry list" where
  "store_entry e [] = [e]"
| "store_entry e (x # xs) =
     (if le_index e < le_index x then e # x # xs
      else if le_index e = le_index x then e # xs
      else x # store_entry e xs)"

datatype disk_op =
    SaveHard hard_state
  | AppendLog "log_entry list"
  | TruncateLog log_index

fun durable_op :: "disk_op \<Rightarrow> durable \<Rightarrow> durable" where
  "durable_op (SaveHard hs) d = d\<lparr>d_hard := hs\<rparr>"
| "durable_op (AppendLog es) d = d\<lparr>d_log := fold store_entry es (d_log d)\<rparr>"
| "durable_op (TruncateLog from) d = d\<lparr>d_log := filter (\<lambda>e. le_index e < max from 1) (d_log d)\<rparr>"

definition by_index :: "log_entry list \<Rightarrow> bool" where
  "by_index l \<longleftrightarrow> sorted_wrt (\<lambda>a b. le_index a < le_index b) l"

lemma store_entry_set:
  "by_index l \<Longrightarrow> set (store_entry e l) = insert e {x \<in> set l. le_index x \<noteq> le_index e}"
  by (induction l) (auto simp: by_index_def)

lemma store_entry_by_index: "by_index l \<Longrightarrow> by_index (store_entry e l)"
proof (induction l)
  case (Cons x xs)
  then have IH: "by_index (store_entry e xs)" and xs: "by_index xs"
    by (auto simp: by_index_def)
  show ?case
    using Cons.prems IH store_entry_set [OF xs, of e] by (auto simp: by_index_def)
qed (simp add: by_index_def)

lemma store_entries_by_index: "by_index l \<Longrightarrow> by_index (fold store_entry es l)"
  by (induction es arbitrary: l) (auto simp: store_entry_by_index)

lemma durable_op_by_index: "by_index (d_log d) \<Longrightarrow> by_index (d_log (durable_op p d))"
  using store_entries_by_index [of "d_log d"]
  by (cases p) (auto simp: by_index_def sorted_wrt_filter)

text \<open>On a gap-free log the specification is the in-memory log: appending appends, truncating truncates.\<close>

lemma store_entry_last:
  "(\<And>x. x \<in> set l \<Longrightarrow> le_index x < le_index e) \<Longrightarrow> store_entry e l = l @ [e]"
proof (induction l)
  case (Cons x xs)
  have "le_index x < le_index e" using Cons.prems by simp
  moreover have "store_entry e xs = xs @ [e]" using Cons by simp
  ultimately show ?case by simp
qed simp

lemma indexed_mem: "indexed l \<Longrightarrow> x \<in> set l \<Longrightarrow> le_index x \<le> length l"
  by (auto simp: indexed_def in_set_conv_nth)

lemma indexed_snoc: "indexed (l @ [e]) \<longleftrightarrow> indexed l \<and> le_index e = Suc (length l)"
  by (auto simp: indexed_def nth_append less_Suc_eq)

lemma indexed_prefix: "indexed (l @ es) \<Longrightarrow> indexed l"
  using indexed_take [of "l @ es" "length l"] by simp

lemma store_entries_append: "indexed (l @ es) \<Longrightarrow> fold store_entry es l = l @ es"
proof (induction es arbitrary: l)
  case (Cons e es)
  then have "indexed ((l @ [e]) @ es)" by simp
  then have snoc: "indexed (l @ [e])" by (rule indexed_prefix)
  then have "store_entry e l = l @ [e]"
    by (intro store_entry_last) (auto simp: indexed_snoc dest: indexed_mem)
  with Cons.IH [of "l @ [e]"] Cons.prems show ?case by simp
qed simp

lemma filter_index_take: "indexed l \<Longrightarrow> filter (\<lambda>e. le_index e < Suc k) l = take k l"
proof (induction l rule: rev_induct)
  case (snoc e l)
  then have "indexed l" "le_index e = Suc (length l)" by (auto simp: indexed_snoc)
  with snoc.IH show ?case by simp
qed simp

lemma truncate_filter: "indexed l \<Longrightarrow> filter (\<lambda>e. le_index e < max from 1) l = truncate_from l from"
  using filter_index_take [of l "from - 1"]
  by (cases "from") (auto simp: truncate_from_def filter_index_take [of l 0, simplified])

subsection \<open>The sled tree and the codec\<close>

record codec =
  enc_hard :: "hard_state \<Rightarrow> io_error + bytes"
  dec_hard :: "bytes \<Rightarrow> io_error + hard_state"
  enc_entry :: "log_entry \<Rightarrow> io_error + bytes"
  dec_entry :: "bytes \<Rightarrow> io_error + log_entry"

definition codec_laws :: "codec \<Rightarrow> bool" where
  "codec_laws c \<longleftrightarrow>
     (\<forall>hs. \<exists>b. enc_hard c hs = Inr b \<and> dec_hard c b = Inr hs) \<and>
     (\<forall>e. \<exists>b. enc_entry c e = Inr b \<and> dec_entry c b = Inr e)"

subsection \<open>Keys\<close>

definition HARD_STATE_KEY :: bytes where
  "HARD_STATE_KEY = ascii ''hard_state''"

definition LOG_KEY_PREFIX :: bytes where
  "LOG_KEY_PREFIX = ascii ''log/''"

definition log_key :: "log_index \<Rightarrow> bytes" where
  "log_key index = LOG_KEY_PREFIX @ zero_pad 20 index"

lemma log_key_less:
  assumes "a < 10 ^ 20" and "b < 10 ^ 20"
  shows "log_key a < log_key b \<longleftrightarrow> a < b"
proof -
  have "zero_pad 20 a = fixed_digits 20 a"
    by (rule conjunct2 [OF zero_pad_fixed [OF assms(1) zero_less_numeral]])
  moreover have "zero_pad 20 b = fixed_digits 20 b"
    by (rule conjunct2 [OF zero_pad_fixed [OF assms(2) zero_less_numeral]])
  ultimately show ?thesis
    using fixed_digits_less [OF assms] unfolding log_key_def prefix_less by (simp only:)
qed

subsection \<open>RaftStorage\<close>

definition load_hard_state :: "'s sled \<Rightarrow> codec \<Rightarrow> 's \<Rightarrow> io_error + hard_state" where
  "load_hard_state sl c s =
     (case sl_get sl s HARD_STATE_KEY of
        Inl e \<Rightarrow> Inl e
      | Inr (Some b) \<Rightarrow> dec_hard c b
      | Inr None \<Rightarrow> Inr hard_state_default)"

definition save_hard_state :: "'s sled \<Rightarrow> codec \<Rightarrow> 's \<Rightarrow> hard_state \<Rightarrow> 's io_unit" where
  "save_hard_state sl c s hs =
     (case enc_hard c hs of
        Inl e \<Rightarrow> (s, Inl e)
      | Inr b \<Rightarrow>
          (case sl_insert sl s HARD_STATE_KEY b of
             (s1, Inl e) \<Rightarrow> (s1, Inl e)
           | (s1, Inr u) \<Rightarrow> sl_flush sl s1))"

fun insert_entries :: "'s sled \<Rightarrow> codec \<Rightarrow> 's \<Rightarrow> log_entry list \<Rightarrow> 's io_unit" where
  "insert_entries sl c s [] = (s, Inr ())"
| "insert_entries sl c s (e # es) =
     (case enc_entry c e of
        Inl x \<Rightarrow> (s, Inl x)
      | Inr b \<Rightarrow>
          (case sl_insert sl s (log_key (le_index e)) b of
             (s1, Inl x) \<Rightarrow> (s1, Inl x)
           | (s1, Inr u) \<Rightarrow> insert_entries sl c s1 es))"

definition storage_append :: "'s sled \<Rightarrow> codec \<Rightarrow> 's \<Rightarrow> log_entry list \<Rightarrow> 's io_unit" where
  "storage_append sl c s es =
     (case insert_entries sl c s es of
        (s1, Inl x) \<Rightarrow> (s1, Inl x)
      | (s1, Inr u) \<Rightarrow> sl_flush sl s1)"

text \<open>\<open>filter_map(|k| k.ok())\<close>: an item the scan could not read is skipped.\<close>

fun ok_keys :: "(io_error + bytes \<times> bytes) list \<Rightarrow> bytes list" where
  "ok_keys [] = []"
| "ok_keys (Inl x # items) = ok_keys items"
| "ok_keys (Inr kv # items) = fst kv # ok_keys items"

fun remove_keys :: "'s sled \<Rightarrow> 's \<Rightarrow> bytes list \<Rightarrow> 's io_unit" where
  "remove_keys sl s [] = (s, Inr ())"
| "remove_keys sl s (k # ks) =
     (case sl_remove sl s k of
        (s1, Inl x) \<Rightarrow> (s1, Inl x)
      | (s1, Inr u) \<Rightarrow> remove_keys sl s1 ks)"

definition storage_truncate :: "'s sled \<Rightarrow> 's \<Rightarrow> log_index \<Rightarrow> 's io_unit" where
  "storage_truncate sl s from =
     (let doomed = filter (\<lambda>k. log_key (max from 1) \<le> k) (ok_keys (sl_scan_prefix sl s LOG_KEY_PREFIX))
      in (case remove_keys sl s doomed of
            (s1, Inl x) \<Rightarrow> (s1, Inl x)
          | (s1, Inr u) \<Rightarrow> sl_flush sl s1))"

fun collect_entries :: "codec \<Rightarrow> (io_error + bytes \<times> bytes) list \<Rightarrow> io_error + log_entry list" where
  "collect_entries c [] = Inr []"
| "collect_entries c (Inl x # items) = Inl x"
| "collect_entries c (Inr kv # items) =
     (case dec_entry c (snd kv) of
        Inl x \<Rightarrow> Inl x
      | Inr e \<Rightarrow> (case collect_entries c items of Inl x \<Rightarrow> Inl x | Inr es \<Rightarrow> Inr (e # es)))"

definition load_log :: "'s sled \<Rightarrow> codec \<Rightarrow> 's \<Rightarrow> io_error + log_entry list" where
  "load_log sl c s = collect_entries c (sl_scan_prefix sl s LOG_KEY_PREFIX)"

fun storage_op :: "'s sled \<Rightarrow> codec \<Rightarrow> 's \<Rightarrow> disk_op \<Rightarrow> 's io_unit" where
  "storage_op sl c s (SaveHard hs) = save_hard_state sl c s hs"
| "storage_op sl c s (AppendLog es) = storage_append sl c s es"
| "storage_op sl c s (TruncateLog from) = storage_truncate sl s from"

text \<open>The operations a caller issues one after the other, each of them reporting success.\<close>

fun storage_run :: "'s sled \<Rightarrow> codec \<Rightarrow> 's \<Rightarrow> disk_op list \<Rightarrow> 's io_unit" where
  "storage_run sl c s [] = (s, Inr ())"
| "storage_run sl c s (p # ps) =
     (case storage_op sl c s p of
        (s1, Inl x) \<Rightarrow> (s1, Inl x)
      | (s1, Inr u) \<Rightarrow> storage_run sl c s1 ps)"

subsection \<open>Refinement\<close>

definition log_cells :: "codec \<Rightarrow> log_entry list \<Rightarrow> (bytes \<times> bytes) set" where
  "log_cells c l = {(log_key (le_index e), b) | e b. e \<in> set l \<and> enc_entry c e = Inr b}"

definition in_range :: "log_entry list \<Rightarrow> bool" where
  "in_range l \<longleftrightarrow> (\<forall>e \<in> set l. le_index e \<le> u64_max)"

definition hard_stored :: "codec \<Rightarrow> bytes option \<Rightarrow> hard_state \<Rightarrow> bool" where
  "hard_stored c cell hs \<longleftrightarrow>
     (case cell of None \<Rightarrow> hs = hard_state_default | Some b \<Rightarrow> dec_hard c b = Inr hs)"

definition stores :: "codec \<Rightarrow> (bytes \<rightharpoonup> bytes) \<Rightarrow> durable \<Rightarrow> bool" where
  "stores c v d \<longleftrightarrow>
     hard_stored c (v HARD_STATE_KEY) (d_hard d) \<and>
     by_index (d_log d) \<and> in_range (d_log d) \<and>
     {(k, b). v k = Some b \<and> has_prefix LOG_KEY_PREFIX k} = log_cells c (d_log d)"

lemma log_key_mono: "a \<le> u64_max \<Longrightarrow> b \<le> u64_max \<Longrightarrow> log_key a < log_key b \<longleftrightarrow> a < b"
  by (rule log_key_less) (rule u64_digits, assumption)+

lemma log_key_inj: "a \<le> u64_max \<Longrightarrow> b \<le> u64_max \<Longrightarrow> log_key a = log_key b \<longleftrightarrow> a = b"
  using log_key_mono [of a b] log_key_mono [of b a] by (metis less_irrefl linorder_neqE_nat)

lemma log_key_le: "a \<le> u64_max \<Longrightarrow> b \<le> u64_max \<Longrightarrow> log_key a \<le> log_key b \<longleftrightarrow> a \<le> b"
  using log_key_mono [of a b] log_key_inj [of a b] by (auto simp: order_le_less)

lemma log_key_prefix [simp]: "has_prefix LOG_KEY_PREFIX (log_key i)"
  by (simp add: has_prefix_def log_key_def)

lemma hard_key_prefix [simp]: "\<not> has_prefix LOG_KEY_PREFIX HARD_STATE_KEY"
  by (simp add: has_prefix_def LOG_KEY_PREFIX_def HARD_STATE_KEY_def ascii_def)

lemma hard_key_neq [simp]: "log_key i \<noteq> HARD_STATE_KEY" "HARD_STATE_KEY \<noteq> log_key i"
  using log_key_prefix [of i] hard_key_prefix by metis+

lemma stores_save:
  "stores c v d \<Longrightarrow> dec_hard c b = Inr hs \<Longrightarrow>
   stores c (v(HARD_STATE_KEY \<mapsto> b)) (durable_op (SaveHard hs) d)"
proof -
  assume st: "stores c v d" and b: "dec_hard c b = Inr hs"
  have "(v(HARD_STATE_KEY \<mapsto> b)) k = Some x \<and> has_prefix LOG_KEY_PREFIX k \<longleftrightarrow>
        v k = Some x \<and> has_prefix LOG_KEY_PREFIX k" for k x
    by auto
  then show ?thesis using st b by (simp add: stores_def hard_stored_def)
qed

lemma log_cells_store:
  assumes "by_index l" and "in_range l" and "le_index e \<le> u64_max" and "enc_entry c e = Inr b"
  shows "log_cells c (store_entry e l) =
         insert (log_key (le_index e), b) {(k, b'). (k, b') \<in> log_cells c l \<and> k \<noteq> log_key (le_index e)}"
  using assms log_key_inj unfolding log_cells_def store_entry_set [OF assms(1)]
  by (fastforce simp: in_range_def)

lemma stores_insert:
  assumes st: "stores c v d" and e: "le_index e \<le> u64_max" "enc_entry c e = Inr b"
  shows "stores c (v(log_key (le_index e) \<mapsto> b)) (d\<lparr>d_log := store_entry e (d_log d)\<rparr>)"
proof -
  have l: "by_index (d_log d)" "in_range (d_log d)"
    and cells: "{(k, b). v k = Some b \<and> has_prefix LOG_KEY_PREFIX k} = log_cells c (d_log d)"
    using st by (simp_all add: stores_def)
  have "in_range (store_entry e (d_log d))"
    using l e store_entry_set [OF l(1), of e] by (auto simp: in_range_def)
  moreover have "{(k, b'). (v(log_key (le_index e) \<mapsto> b)) k = Some b' \<and> has_prefix LOG_KEY_PREFIX k} =
        insert (log_key (le_index e), b) {(k, b'). (k, b') \<in> log_cells c (d_log d) \<and> k \<noteq> log_key (le_index e)}"
    unfolding cells [symmetric] by (auto split: if_splits)
  ultimately show ?thesis
    using st l store_entry_by_index [OF l(1)] log_cells_store [OF l e] by (simp add: stores_def)
qed

lemma log_cells_filter:
  assumes "in_range l" and "m \<le> u64_max"
  shows "log_cells c (filter (\<lambda>e. le_index e < m) l) =
         {(k, b). (k, b) \<in> log_cells c l \<and> \<not> log_key m \<le> k}"
proof -
  have "le_index e < m \<longleftrightarrow> \<not> log_key m \<le> log_key (le_index e)" if "e \<in> set l" for e
    using assms that by (auto simp: in_range_def log_key_le)
  then show ?thesis by (auto simp: log_cells_def)
qed

lemma stores_truncate:
  assumes st: "stores c v d" and m: "max from 1 \<le> u64_max"
    and v': "\<And>k. v' k = (if k \<in> ks then None else v k)"
    and ks: "ks = {k. log_key (max from 1) \<le> k \<and> has_prefix LOG_KEY_PREFIX k \<and> v k \<noteq> None}"
  shows "stores c v' (durable_op (TruncateLog from) d)"
proof -
  have r: "in_range (d_log d)" and b: "by_index (d_log d)" using st by (simp_all add: stores_def)
  have "HARD_STATE_KEY \<notin> ks" by (simp add: ks)
  then have hard: "v' HARD_STATE_KEY = v HARD_STATE_KEY" by (simp add: v')
  have "{(k, b). v' k = Some b \<and> has_prefix LOG_KEY_PREFIX k} =
        {(k, b). (k, b) \<in> log_cells c (d_log d) \<and> \<not> log_key (max from 1) \<le> k}"
  proof -
    have "(v' k = Some b \<and> has_prefix LOG_KEY_PREFIX k) =
          ((k, b) \<in> {(k, b). v k = Some b \<and> has_prefix LOG_KEY_PREFIX k} \<and> \<not> log_key (max from 1) \<le> k)" for k b
      unfolding v' ks by auto
    then show ?thesis using st unfolding stores_def by simp
  qed
  then have "{(k, b). v' k = Some b \<and> has_prefix LOG_KEY_PREFIX k} =
        log_cells c (d_log (durable_op (TruncateLog from) d))"
    using log_cells_filter [OF r m] by simp
  moreover have "in_range (d_log (durable_op (TruncateLog from) d))"
    using r by (simp add: in_range_def)
  ultimately show ?thesis
    using st durable_op_by_index [OF b, of "TruncateLog from"] hard by (simp add: stores_def)
qed

lemma insert_entries_stores:
  assumes "sled_laws sl view" and "codec_laws c" and "stores c (view s) d" and "in_range es"
  shows "\<exists>s'. insert_entries sl c s es = (s', Inr ()) \<and>
              stores c (view s') (d\<lparr>d_log := fold store_entry es (d_log d)\<rparr>)"
  using assms(3,4)
proof (induction es arbitrary: s d)
  case (Cons e es)
  obtain b where b: "enc_entry c e = Inr b" using assms(2) by (auto simp: codec_laws_def)
  obtain s1 where s1: "sl_insert sl s (log_key (le_index e)) b = (s1, Inr ())"
      "view s1 = (view s)(log_key (le_index e) \<mapsto> b)"
    using sled_lawD(2) [OF assms(1)] by blast
  have "stores c (view s1) (d\<lparr>d_log := store_entry e (d_log d)\<rparr>)"
    using stores_insert [OF Cons.prems(1) _ b] Cons.prems(2) s1(2) by (simp add: in_range_def)
  from Cons.IH [OF this] Cons.prems(2) b s1(1) show ?case by (simp add: in_range_def)
qed simp

lemma remove_keys_view:
  assumes "sled_laws sl view"
  shows "\<exists>s'. remove_keys sl s ks = (s', Inr ()) \<and>
              (\<forall>k. view s' k = (if k \<in> set ks then None else view s k))"
proof (induction ks arbitrary: s)
  case (Cons a ks)
  obtain s1 where s1: "sl_remove sl s a = (s1, Inr ())" "view s1 = (view s)(a := None)"
    using sled_lawD(3) [OF assms] by blast
  with Cons.IH [of s1] show ?case by auto
qed simp

lemma ok_keys_Inr [simp]: "ok_keys (map Inr kvs) = map fst kvs"
  by (induction kvs) auto

lemma storage_truncate_stores:
  assumes laws: "sled_laws sl view" and st: "stores c (view s) d" and m: "max from 1 \<le> u64_max"
  shows "\<exists>s'. storage_truncate sl s from = (s', Inr ()) \<and>
              stores c (view s') (durable_op (TruncateLog from) d)"
proof -
  obtain kvs where kvs: "sl_scan_prefix sl s LOG_KEY_PREFIX = map Inr kvs"
      "set kvs = {(k, v). view s k = Some v \<and> has_prefix LOG_KEY_PREFIX k}"
    using sled_lawD(5) [OF laws] by blast
  define doomed where "doomed = filter (\<lambda>k. log_key (max from 1) \<le> k) (map fst kvs)"
  have keys: "set doomed = {k. log_key (max from 1) \<le> k \<and> has_prefix LOG_KEY_PREFIX k \<and> view s k \<noteq> None}"
    unfolding doomed_def set_filter set_map kvs(2) by force
  obtain s1 where s1: "remove_keys sl s doomed = (s1, Inr ())"
      "\<forall>k. view s1 k = (if k \<in> set doomed then None else view s k)"
    using remove_keys_view [OF laws] by blast
  obtain s2 where "sl_flush sl s1 = (s2, Inr ())" "view s2 = view s1"
    using sled_lawD(4) [OF laws] by blast
  moreover have "stores c (view s1) (durable_op (TruncateLog from) d)"
    using s1(2) by (intro stores_truncate [OF st m _ keys]) simp
  ultimately show ?thesis
    using s1(1) by (simp add: storage_truncate_def kvs(1) doomed_def)
qed

fun op_in_range :: "disk_op \<Rightarrow> bool" where
  "op_in_range (SaveHard _) = True"
| "op_in_range (AppendLog es) = in_range es"
| "op_in_range (TruncateLog from) = (from \<le> u64_max)"

lemma storage_op_stores:
  assumes laws: "sled_laws sl view" "codec_laws c" and st: "stores c (view s) d" and r: "op_in_range p"
  shows "\<exists>s'. storage_op sl c s p = (s', Inr ()) \<and> stores c (view s') (durable_op p d)"
proof (cases p)
  case (SaveHard hs)
  obtain b where b: "enc_hard c hs = Inr b" "dec_hard c b = Inr hs"
    using laws(2) by (auto simp: codec_laws_def)
  obtain s1 where s1: "sl_insert sl s HARD_STATE_KEY b = (s1, Inr ())"
      "view s1 = (view s)(HARD_STATE_KEY \<mapsto> b)"
    using sled_lawD(2) [OF laws(1)] by blast
  obtain s2 where "sl_flush sl s1 = (s2, Inr ())" "view s2 = view s1"
    using sled_lawD(4) [OF laws(1)] by blast
  with stores_save [OF st b(2)] s1 b(1) SaveHard show ?thesis
    by (simp add: save_hard_state_def)
next
  case (AppendLog es)
  with r have "in_range es" by simp
  from insert_entries_stores [OF laws st this] obtain s1 where
    s1: "insert_entries sl c s es = (s1, Inr ())"
      "stores c (view s1) (d\<lparr>d_log := fold store_entry es (d_log d)\<rparr>)" by blast
  obtain s2 where "sl_flush sl s1 = (s2, Inr ())" "view s2 = view s1"
    using sled_lawD(4) [OF laws(1)] by blast
  with s1 AppendLog show ?thesis by (simp add: storage_append_def)
next
  case (TruncateLog k)
  then have "max k 1 \<le> u64_max" using r by (simp add: u64_max_def)
  from storage_truncate_stores [OF laws(1) st this] TruncateLog show ?thesis by simp
qed

lemma storage_run_stores:
  assumes laws: "sled_laws sl view" "codec_laws c" and "stores c (view s) d" and "list_all op_in_range ps"
  shows "\<exists>s'. storage_run sl c s ps = (s', Inr ()) \<and> stores c (view s') (fold durable_op ps d)"
  using assms(3,4)
proof (induction ps arbitrary: s d)
  case (Cons p ps)
  then have "op_in_range p" by simp
  from storage_op_stores [OF laws Cons.prems(1) this]
  obtain s1 where "storage_op sl c s p = (s1, Inr ())" "stores c (view s1) (durable_op p d)" by blast
  with Cons.IH [of s1 "durable_op p d"] Cons.prems(2) show ?case by simp
qed simp

subsection \<open>Loading\<close>

lemma sorted_cells_unique:
  assumes "sorted_wrt (<) (map fst xs)" and "sorted_wrt (<) (map fst ys)" and "set xs = set ys"
    and det: "\<And>k a b. (k, a) \<in> set xs \<Longrightarrow> (k, b) \<in> set xs \<Longrightarrow> a = b"
  shows "xs = (ys :: (bytes \<times> bytes) list)"
proof -
  have keys: "map fst xs = map fst ys"
    using assms(1,2,3) by (intro strict_sorted_equal) (metis list.set_map)+
  have len: "length xs = length ys" using keys map_eq_imp_length_eq by blast
  show ?thesis
  proof (rule nth_equalityI [OF len])
    fix i assume i: "i < length xs"
    have "fst (xs ! i) = fst (ys ! i)" using keys i len by (metis nth_map)
    moreover have "snd (xs ! i) = snd (ys ! i)"
      using det [of "fst (xs ! i)" "snd (xs ! i)" "snd (ys ! i)"] calculation i len assms(3)
      by (metis nth_mem prod.collapse)
    ultimately show "xs ! i = ys ! i" by (rule prod_eqI)
  qed
qed

lemma collect_entries_decodes:
  assumes "\<And>e. e \<in> set l \<Longrightarrow> dec_entry c (g e) = Inr e"
  shows "collect_entries c (map Inr (map (\<lambda>e. (f e, g e)) l)) = Inr l"
  using assms by (induction l) auto

lemma scan_log_stores:
  assumes laws: "sled_laws sl view" "codec_laws c" and st: "stores c (view s) d"
  shows "\<exists>g. (\<forall>e. dec_entry c (g e) = Inr e) \<and>
    sl_scan_prefix sl s LOG_KEY_PREFIX = map Inr (map (\<lambda>e. (log_key (le_index e), g e)) (d_log d))"
proof -
  obtain kvs where kvs: "sl_scan_prefix sl s LOG_KEY_PREFIX = map Inr kvs" "sorted_wrt (<) (map fst kvs)"
      "set kvs = {(k, v). view s k = Some v \<and> has_prefix LOG_KEY_PREFIX k}"
    using sled_lawD(5) [OF laws(1)] by blast
  have "\<forall>e. \<exists>b. enc_entry c e = Inr b \<and> dec_entry c b = Inr e" using laws(2) by (simp add: codec_laws_def)
  then obtain g where g: "enc_entry c e = Inr (g e)" "dec_entry c (g e) = Inr e" for e by metis
  have l: "by_index (d_log d)" "in_range (d_log d)" and cells: "set kvs = log_cells c (d_log d)"
    using st kvs(3) by (simp_all add: stores_def)
  have "sorted_wrt (\<lambda>a b. log_key (le_index a) < log_key (le_index b)) (d_log d)"
    using l(1) unfolding by_index_def
    by (rule sorted_wrt_mono_rel [rotated]) (use l(2) in \<open>auto simp: in_range_def log_key_mono\<close>)
  then have "sorted_wrt (<) (map fst (map (\<lambda>e. (log_key (le_index e), g e)) (d_log d)))"
    by (simp add: sorted_wrt_map comp_def)
  moreover have "set kvs = set (map (\<lambda>e. (log_key (le_index e), g e)) (d_log d))"
    unfolding cells log_cells_def using g(1) by auto
  moreover have "a = b" if "(k, a) \<in> set kvs" "(k, b) \<in> set kvs" for k a b
    using that unfolding kvs(3) by simp
  ultimately have "kvs = map (\<lambda>e. (log_key (le_index e), g e)) (d_log d)"
    using sorted_cells_unique [OF kvs(2)] by blast
  then show ?thesis using kvs(1) g(2) by blast
qed

lemma load_log_stores:
  assumes laws: "sled_laws sl view" "codec_laws c" and st: "stores c (view s) d"
  shows "load_log sl c s = Inr (d_log d)"
proof -
  obtain g where g: "\<forall>e. dec_entry c (g e) = Inr e"
      "sl_scan_prefix sl s LOG_KEY_PREFIX = map Inr (map (\<lambda>e. (log_key (le_index e), g e)) (d_log d))"
    using scan_log_stores [OF assms] by blast
  show ?thesis unfolding load_log_def g(2) using g(1) by (intro collect_entries_decodes) blast
qed

lemma load_hard_stores:
  "sled_laws sl view \<Longrightarrow> stores c (view s) d \<Longrightarrow> load_hard_state sl c s = Inr (d_hard d)"
  using sled_lawD(1) [of sl view]
  by (auto simp: load_hard_state_def stores_def hard_stored_def split: option.splits)

lemma stores_empty: "view s = Map.empty \<Longrightarrow> stores c (view s) durable_new"
  by (simp add: stores_def hard_stored_def durable_new_def by_index_def in_range_def log_cells_def)

text \<open>
  Zero padding makes the byte order of log keys the numeric order of the indices, for every
  \<open>u64\<close> index.
\<close>

lemma log_key_order:
  assumes "a \<le> u64_max" and "b \<le> u64_max"
  shows "(log_key a < log_key b \<longleftrightarrow> a < b) \<and> (log_key a = log_key b \<longleftrightarrow> a = b) \<and>
         length (log_key a) = 24"
proof -
  have "zero_pad 20 a = fixed_digits 20 a"
    by (rule conjunct2 [OF zero_pad_fixed [OF u64_digits [OF assms(1)] zero_less_numeral]])
  then have "length (log_key a) = 24"
    by (simp add: log_key_def LOG_KEY_PREFIX_def ascii_def)
  with log_key_mono [OF assms] log_key_inj [OF assms] show ?thesis by simp
qed

text \<open>
  C9: on a tree that obeys the laws of \<^verbatim>\<open>sled\<close>, and a codec that round-trips, every sequence of
  storage operations on an empty tree succeeds, and what the two load functions then return is
  exactly the state of the durable specification.
\<close>

theorem storage_refines_durable:
  assumes "sled_laws sl view" and "codec_laws c" and "view s = Map.empty" and "list_all op_in_range ps"
  shows "\<exists>s'. storage_run sl c s ps = (s', Inr ()) \<and>
              load_hard_state sl c s' = Inr (d_hard (fold durable_op ps durable_new)) \<and>
              load_log sl c s' = Inr (d_log (fold durable_op ps durable_new))"
proof -
  obtain s' where "storage_run sl c s ps = (s', Inr ())"
      "stores c (view s') (fold durable_op ps durable_new)"
    using storage_run_stores [OF assms(1,2) stores_empty [where view = view, OF assms(3)] assms(4)] by blast
  with load_log_stores [OF assms(1,2)] load_hard_stores [OF assms(1)] show ?thesis by blast
qed

subsection \<open>A truncation that is cut short\<close>

text \<open>
  \<open>truncate_from\<close> removes the doomed keys one by one, from the smallest on, and flushes once at the end. The specification
  takes the whole operation as one step. When the process dies inside the loop and the removals made so far have reached the
  disk, the log that is loaded after the restart has a hole: the first entry behind it stands at the position of the first
  entry that was removed, and the positions of the log no longer are its indices.
\<close>

lemma indexed_indices: "indexed l \<Longrightarrow> map le_index l = [1..<Suc (length l)]"
  by (intro nth_equalityI) (simp_all add: indexed_def del: upt_Suc)

lemma doomed_keys:
  assumes "sled_laws sl view" and "codec_laws c" and "stores c (view s) d" and l: "indexed (d_log d)" "length (d_log d) \<le> u64_max"
    and "1 \<le> m" and "m \<le> length (d_log d)"
  shows "filter (\<lambda>k. log_key m \<le> k) (ok_keys (sl_scan_prefix sl s LOG_KEY_PREFIX)) = map log_key [m..<Suc (length (d_log d))]"
proof -
  obtain g where g: "sl_scan_prefix sl s LOG_KEY_PREFIX = map Inr (map (\<lambda>e. (log_key (le_index e), g e)) (d_log d))"
    using scan_log_stores [OF assms(1-3)] by blast
  have keys: "ok_keys (sl_scan_prefix sl s LOG_KEY_PREFIX) = map log_key [1..<Suc (length (d_log d))]"
    unfolding g ok_keys_Inr indexed_indices [OF l(1), symmetric] by simp
  have n: "m \<le> Suc (length (d_log d))" "m \<le> u64_max" using l(2) assms(7) by simp_all
  have "[1..<Suc (length (d_log d))] = [1..<m] @ [m..<Suc (length (d_log d))]"
    using assms(6) n(1) by (metis le_add_diff_inverse upt_add_eq_append)
  moreover have "filter (\<lambda>i. log_key m \<le> log_key i) [1..<m] = []" using n by (auto simp: filter_empty_conv log_key_le)
  moreover have "filter (\<lambda>i. log_key m \<le> log_key i) [m..<Suc (length (d_log d))] = [m..<Suc (length (d_log d))]"
    using n l(2) by (auto simp: filter_id_conv log_key_le)
  ultimately show ?thesis unfolding keys filter_map comp_def by (simp del: upt_Suc)
qed

lemma log_cells_keys:
  "(\<And>e. e \<in> set l \<Longrightarrow> P e \<longleftrightarrow> log_key (le_index e) \<notin> ks) \<Longrightarrow>
   log_cells c (filter P l) = {(k, b). (k, b) \<in> log_cells c l \<and> k \<notin> ks}"
  by (fastforce simp: log_cells_def)

lemma torn_truncation:
  assumes laws: "sled_laws sl view" "codec_laws c" and st: "stores c (view s) d" and l: "indexed (d_log d)" "length (d_log d) \<le> u64_max"
    and m: "m = max from 1" and j: "0 < j" "m + j \<le> length (d_log d)"
    and rm: "remove_keys sl s (take j (filter (\<lambda>k. log_key m \<le> k) (ok_keys (sl_scan_prefix sl s LOG_KEY_PREFIX)))) = (s1, Inr ())"
  shows "\<exists>l'. load_log sl c s1 = Inr l' \<and> l' = take (m - 1) (d_log d) @ drop (m - 1 + j) (d_log d) \<and>
    le_index (l' ! (m - 1)) = m + j \<and> \<not> indexed l'"
proof -
  let ?l = "d_log d"
  define l' where "l' = filter (\<lambda>e. le_index e < m \<or> m + j \<le> le_index e) ?l"
  have n: "1 \<le> m" "m \<le> length ?l" using m j by simp_all
  have range: "le_index e \<le> u64_max" if "e \<in> set ?l" for e using indexed_mem [OF l(1) that] l(2) by simp
  have keys: "take j (filter (\<lambda>k. log_key m \<le> k) (ok_keys (sl_scan_prefix sl s LOG_KEY_PREFIX))) = map log_key [m..<m + j]"
    unfolding doomed_keys [OF laws st l n] using j by (simp add: take_map del: upt_Suc)
  have v: "view s1 k = (if k \<in> log_key ` {m..<m + j} then None else view s k)" for k
    using remove_keys_view [OF laws(1), of s "map log_key [m..<m + j]"] rm unfolding keys by auto
  have gone: "log_key (le_index e) \<in> log_key ` {m..<m + j} \<longleftrightarrow> m \<le> le_index e \<and> le_index e < m + j" if "e \<in> set ?l" for e
    using log_key_inj [OF range [OF that]] j l(2) by (auto simp: image_iff)
  have cell: "view s k = Some b \<and> has_prefix LOG_KEY_PREFIX k \<longleftrightarrow> (k, b) \<in> log_cells c ?l" for k b
    using st unfolding stores_def by (elim conjE) (simp only: set_eq_iff split_paired_All mem_Collect_eq case_prod_conv)
  have "{(k, b). view s1 k = Some b \<and> has_prefix LOG_KEY_PREFIX k} =
      {(k, b). (k, b) \<in> log_cells c ?l \<and> k \<notin> log_key ` {m..<m + j}}"
    by (auto simp: v cell [symmetric] split: if_split_asm)
  also have "\<dots> = log_cells c l'" unfolding l'_def using gone by (intro log_cells_keys [symmetric]) auto
  finally have "stores c (view s1) (d\<lparr>d_log := l'\<rparr>)"
    using st by (auto simp: stores_def v by_index_def in_range_def l'_def sorted_wrt_filter)
  from load_log_stores [OF laws this] have "load_log sl c s1 = Inr l'" by simp
  moreover have split: "l' = take (m - 1) ?l @ drop (m - 1 + j) ?l"
  proof -
    have parts: "?l = take (m - 1) ?l @ take j (drop (m - 1) ?l) @ drop (m - 1 + j) ?l"
      by (metis append_take_drop_id drop_drop add.commute)
    have at: "le_index (?l ! i) = Suc i" if "i < length ?l" for i using l(1) that by (simp add: indexed_def)
    have "filter P (take (m - 1) ?l) = take (m - 1) ?l" if "\<And>e. le_index e < m \<Longrightarrow> P e" for P
      using that at n by (auto simp: filter_id_conv in_set_conv_nth)
    moreover have "filter P (take j (drop (m - 1) ?l)) = []" if "\<And>e. m \<le> le_index e \<Longrightarrow> le_index e < m + j \<Longrightarrow> \<not> P e" for P
      using that at n j by (auto simp: filter_empty_conv in_set_conv_nth)
    moreover have "filter P (drop (m - 1 + j) ?l) = drop (m - 1 + j) ?l" if "\<And>e. m + j \<le> le_index e \<Longrightarrow> P e" for P
      using that at n j by (auto simp: filter_id_conv in_set_conv_nth)
    ultimately show ?thesis unfolding l'_def by (subst parts) simp
  qed
  moreover have "le_index (l' ! (m - 1)) = m + j" "m - 1 < length l'"
    using l(1) n j by (simp_all add: split nth_append indexed_def)
  moreover from this have "\<not> indexed l'" using j(1) n by (auto simp: indexed_def)
  ultimately show ?thesis by blast
qed

definition plain_codec :: codec where
  "plain_codec =
     \<lparr>enc_hard = (\<lambda>hs. Inr (hs_current_term hs # (case hs_voted_for hs of None \<Rightarrow> [] | Some v \<Rightarrow> [v]))),
      dec_hard = (\<lambda>b. case b of t # vs \<Rightarrow>
                     Inr \<lparr>hs_current_term = t, hs_voted_for = (case vs of [] \<Rightarrow> None | v # _ \<Rightarrow> Some v)\<rparr>
                   | [] \<Rightarrow> Inl JsonError),
      enc_entry = (\<lambda>e. Inr (le_term e # le_index e # le_command e)),
      dec_entry = (\<lambda>b. case b of t # i # cmd \<Rightarrow> Inr \<lparr>le_term = t, le_index = i, le_command = cmd\<rparr>
                    | _ \<Rightarrow> Inl JsonError)\<rparr>"

lemma plain_codec_laws: "codec_laws plain_codec"
  by (auto simp: codec_laws_def plain_codec_def split: option.split)

theorem storage_refines_durable_witness:
  "\<exists>s'. storage_run map_tree plain_codec fmempty
          [SaveHard \<lparr>hs_current_term = 4, hs_voted_for = Some 2\<rparr>,
           AppendLog [\<lparr>le_term = 3, le_index = 1, le_command = [7]\<rparr>, \<lparr>le_term = 3, le_index = 2, le_command = [8]\<rparr>],
           TruncateLog 2] = (s', Inr ()) \<and>
        load_hard_state map_tree plain_codec s' = Inr \<lparr>hs_current_term = 4, hs_voted_for = Some 2\<rparr> \<and>
        load_log map_tree plain_codec s' = Inr [\<lparr>le_term = 3, le_index = 1, le_command = [7]\<rparr>]"
  using storage_refines_durable [OF map_tree_laws plain_codec_laws, where s = fmempty and
      ps = "[SaveHard \<lparr>hs_current_term = 4, hs_voted_for = Some 2\<rparr>,
             AppendLog [\<lparr>le_term = 3, le_index = 1, le_command = [7]\<rparr>, \<lparr>le_term = 3, le_index = 2, le_command = [8]\<rparr>],
             TruncateLog 2]"]
  by (simp add: fmempty.rep_eq in_range_def u64_max_def durable_new_def)

end
