(* ===== verification/Raft_Node.thy ===== *)
theory Raft_Node
  imports Raft_Storage "HOL-Library.Word"
begin

unbundle bit_operations_syntax

text \<open>
  The shell of \<^verbatim>\<open>src/raft/node.rs\<close>: it feeds one event at a time to the core and executes the effects in
  order against the storage, the transport and the apply channel. What leaves the process is
  recorded as traces (messages handed to the transport, entries sent to the apply channel); the
  storage is \<open>RaftStorage\<close> of theory \<^verbatim>\<open>Raft_Storage\<close>. A failed storage call is only logged by the
  source, so the run goes on with whatever the tree holds.
\<close>

subsection \<open>Randomised election timeouts\<close>

definition ELECTION_TICK_MIN :: nat where
  "ELECTION_TICK_MIN = 10"

definition ELECTION_TICK_JITTER :: "64 word" where
  "ELECTION_TICK_JITTER = 10"

definition xorshift_next :: "64 word \<Rightarrow> 64 word" where
  "xorshift_next seed =
     (let x0 = max seed 1;
          x1 = x0 XOR push_bit 13 x0;
          x2 = x1 XOR drop_bit 7 x1;
          x3 = x2 XOR push_bit 17 x2
      in x3)"

definition draw_timeout :: "64 word \<Rightarrow> nat" where
  "draw_timeout x = ELECTION_TICK_MIN + unat (x mod ELECTION_TICK_JITTER)"

definition shell_seed :: "64 word \<Rightarrow> node_id \<Rightarrow> 64 word" where
  "shell_seed seed nid = seed + of_nat nid * 0x9E3779B97F4A7C15"

lemma xor_eq_zero: "(a :: 64 word) XOR b = 0 \<longleftrightarrow> a = b"
  by (auto simp: bit_eq_iff bit_xor_iff)

lemma xor_push_nonzero:
  assumes "0 < k" and "x \<noteq> (0 :: 64 word)"
  shows "x XOR push_bit k x \<noteq> 0"
proof
  assume "x XOR push_bit k x = 0"
  then have eq: "x = push_bit k x" by (simp add: xor_eq_zero)
  have "\<not> bit x n" for n
  proof (induction n rule: less_induct)
    case (less n)
    have "bit x n \<Longrightarrow> k \<le> n \<and> bit x (n - k)"
      using eq by (metis bit_push_bit_iff)
    with less.IH [of "n - k"] assms(1) show ?case by (metis diff_less le_zero_eq not_gr_zero)
  qed
  then have "x = 0" by (simp add: bit_eq_iff)
  with assms(2) show False by simp
qed

lemma xor_drop_nonzero:
  assumes "0 < k" and "x \<noteq> (0 :: 64 word)"
  shows "x XOR drop_bit k x \<noteq> 0"
proof
  assume "x XOR drop_bit k x = 0"
  then have "x = drop_bit k x" by (simp add: xor_eq_zero)
  then have up: "bit x n = bit x (k + n)" for n
    by (metis bit_drop_bit_eq comp_apply)
  have "bit x n = bit x (m * k + n)" for n m
    by (induction m) (use up in \<open>simp_all add: add.assoc\<close>)
  then have "bit x n = bit x (64 * k + n)" for n by blast
  moreover have "\<not> bit x (64 * k + n)" for n
    using bit_imp_le_length [of x "64 * k + n"] assms(1) by auto
  ultimately have "x = 0" by (simp add: bit_eq_iff)
  with assms(2) show False by simp
qed

lemma xorshift_nonzero: "xorshift_next seed \<noteq> 0"
proof -
  have "max seed 1 \<noteq> 0"
    by (metis max.cobounded2 word_le_0_iff zero_neq_one)
  then show ?thesis
    unfolding xorshift_next_def Let_def
    by (intro xor_push_nonzero xor_drop_nonzero) simp_all
qed

lemma draw_timeout_range: "10 \<le> draw_timeout x \<and> draw_timeout x < 20"
proof -
  have "x mod 10 < (10 :: 64 word)" by (rule word_mod_less_divisor) simp
  then have "unat (x mod 10) < 10" by (simp add: word_less_nat_alt)
  then show ?thesis by (simp add: draw_timeout_def ELECTION_TICK_MIN_def ELECTION_TICK_JITTER_def)
qed

subsection \<open>The shell\<close>

record 's shell =
  sh_node :: raft_node
  sh_storage :: 's
  sh_rng :: "64 word"
  sh_leader_watch :: "node_id option"
  sh_outbox :: "(node_id \<times> message) list"
  sh_apply_open :: bool
  sh_applied :: "log_entry list"

definition shell_new ::
  "'s sled \<Rightarrow> codec \<Rightarrow> node_id \<Rightarrow> node_id list \<Rightarrow> 's \<Rightarrow> node_id option \<Rightarrow> bool \<Rightarrow> 64 word \<Rightarrow> io_error + 's shell" where
  "shell_new sl c nid peers storage leader_watch apply_open seed =
     (let rng = xorshift_next (shell_seed seed nid);
          node = raft_node_new nid peers (draw_timeout rng)
      in (case load_hard_state sl c storage of
            Inl x \<Rightarrow> Inl x
          | Inr hs \<Rightarrow>
              (case load_log sl c storage of
                 Inl x \<Rightarrow> Inl x
               | Inr l \<Rightarrow>
                   Inr \<lparr>sh_node = node\<lparr>rn_current_term := hs_current_term hs,
                                       rn_voted_for := hs_voted_for hs, rn_log := from_entries l\<rparr>,
                        sh_storage = storage, sh_rng = rng, sh_leader_watch = leader_watch,
                        sh_outbox = [], sh_apply_open = apply_open, sh_applied = []\<rparr>)))"

definition node_hard :: "raft_node \<Rightarrow> hard_state" where
  "node_hard n = \<lparr>hs_current_term = rn_current_term n, hs_voted_for = rn_voted_for n\<rparr>"

fun execute_effect :: "'s sled \<Rightarrow> codec \<Rightarrow> effect \<Rightarrow> 's shell \<Rightarrow> 's shell" where
  "execute_effect sl c Persist sh =
     sh\<lparr>sh_storage := fst (save_hard_state sl c (sh_storage sh) (node_hard (sh_node sh)))\<rparr>"
| "execute_effect sl c (PersistEntries es) sh =
     sh\<lparr>sh_storage := fst (storage_append sl c (sh_storage sh) es)\<rparr>"
| "execute_effect sl c (PersistTruncate from) sh =
     sh\<lparr>sh_storage := fst (storage_truncate sl (sh_storage sh) from)\<rparr>"
| "execute_effect sl c (Send to msg) sh = sh\<lparr>sh_outbox := sh_outbox sh @ [(to, msg)]\<rparr>"
| "execute_effect sl c (Apply e) sh =
     (if sh_apply_open sh then sh\<lparr>sh_applied := sh_applied sh @ [e]\<rparr> else sh)"
| "execute_effect sl c (ProposeRejected hint) sh = sh"

definition execute :: "'s sled \<Rightarrow> codec \<Rightarrow> effect list \<Rightarrow> 's shell \<Rightarrow> 's shell" where
  "execute sl c effs sh = fold (execute_effect sl c) effs sh"

text \<open>One turn of the \<open>run\<close> loop, for the event \<open>select!\<close> picked; \<open>None\<close> is a panic of the core.\<close>

definition shell_turn :: "'s sled \<Rightarrow> codec \<Rightarrow> event \<Rightarrow> 's shell \<Rightarrow> 's shell panics" where
  "shell_turn sl c ev sh = do {
     let was_candidate = is_candidate (rn_role (sh_node sh));
     (n, effs) \<leftarrow> step (sh_node sh) ev;
     let sh1 = (if \<not> was_candidate \<and> is_candidate (rn_role n)
                then (let rng = xorshift_next (sh_rng sh)
                      in sh\<lparr>sh_rng := rng, sh_node := set_election_timeout n (draw_timeout rng)\<rparr>)
                else sh\<lparr>sh_node := n\<rparr>);
     let sh2 = execute sl c effs sh1;
     Some (sh2\<lparr>sh_leader_watch := rn_leader_hint (sh_node sh2)\<rparr>)
   }"

subsection \<open>The shell against the durable specification\<close>

fun effect_op :: "raft_node \<Rightarrow> effect \<Rightarrow> disk_op list" where
  "effect_op n Persist = [SaveHard (node_hard n)]"
| "effect_op n (PersistEntries es) = [AppendLog es]"
| "effect_op n (PersistTruncate from) = [TruncateLog from]"
| "effect_op n _ = []"

fun effect_send :: "effect \<Rightarrow> (node_id \<times> message) list" where
  "effect_send (Send to msg) = [(to, msg)]"
| "effect_send _ = []"

fun effect_apply :: "effect \<Rightarrow> log_entry list" where
  "effect_apply (Apply e) = [e]"
| "effect_apply _ = []"

definition disk_ops :: "raft_node \<Rightarrow> effect list \<Rightarrow> disk_op list" where
  "disk_ops n effs = concat (map (effect_op n) effs)"

definition sends :: "effect list \<Rightarrow> (node_id \<times> message) list" where
  "sends effs = concat (map effect_send effs)"

definition applies :: "effect list \<Rightarrow> log_entry list" where
  "applies effs = concat (map effect_apply effs)"

definition recover :: "node_id \<Rightarrow> node_id list \<Rightarrow> nat \<Rightarrow> durable \<Rightarrow> raft_node" where
  "recover nid peers timeout d =
     (raft_node_new nid peers timeout)
       \<lparr>rn_current_term := hs_current_term (d_hard d), rn_voted_for := hs_voted_for (d_hard d),
        rn_log := d_log d\<rparr>"

lemma execute_frame [simp]:
  "sh_node (execute_effect sl c e sh) = sh_node sh"
  "sh_apply_open (execute_effect sl c e sh) = sh_apply_open sh"
  by (cases e; simp)+

lemma execute_effect_stores:
  assumes "sled_laws sl view" "codec_laws c" and st: "stores c (view (sh_storage sh)) d"
    and "list_all op_in_range (effect_op (sh_node sh) e)"
  shows "stores c (view (sh_storage (execute_effect sl c e sh))) (fold durable_op (effect_op (sh_node sh) e) d)"
proof (cases "effect_op (sh_node sh) e")
  case Nil
  then show ?thesis using st by (cases e) auto
next
  case (Cons p ps)
  then have "ps = []" and p: "op_in_range p" using assms(4) by (cases e; auto)+
  obtain s' where s': "storage_op sl c (sh_storage sh) p = (s', Inr ())" "stores c (view s') (durable_op p d)"
    using storage_op_stores [OF assms(1-3) p] by blast
  have "sh_storage (execute_effect sl c e sh) = s'"
    using Cons s'(1) by (cases e) auto
  with s'(2) Cons \<open>ps = []\<close> show ?thesis by simp
qed

lemma execute_run:
  assumes "sled_laws sl view" "codec_laws c" and "stores c (view (sh_storage sh)) d"
    and "list_all op_in_range (disk_ops (sh_node sh) effs)"
  shows "stores c (view (sh_storage (execute sl c effs sh))) (fold durable_op (disk_ops (sh_node sh) effs) d)"
  using assms(3,4)
proof (induction effs arbitrary: sh d)
  case (Cons e effs)
  have "stores c (view (sh_storage (execute_effect sl c e sh))) (fold durable_op (effect_op (sh_node sh) e) d)"
    using Cons.prems by (intro execute_effect_stores [OF assms(1,2)]) (simp_all add: disk_ops_def)
  from Cons.IH [OF this] Cons.prems show ?case
    by (simp add: disk_ops_def execute_def)
qed (simp add: disk_ops_def execute_def)

lemma execute_traces:
  "sh_node (execute sl c effs sh) = sh_node sh \<and>
   sh_outbox (execute sl c effs sh) = sh_outbox sh @ sends effs \<and>
   sh_applied (execute sl c effs sh) = sh_applied sh @ (if sh_apply_open sh then applies effs else [])"
proof (induction effs arbitrary: sh)
  case (Cons e effs)
  from Cons [of "execute_effect sl c e sh"] show ?case
    by (cases e) (auto simp: execute_def sends_def applies_def)
qed (simp add: execute_def sends_def applies_def)

lemma shell_new_recovers:
  assumes "sled_laws sl view" "codec_laws c" and "stores c (view s) d"
  shows "\<exists>sh. shell_new sl c nid peers s lw op seed = Inr sh \<and>
              sh_node sh = recover nid peers (draw_timeout (xorshift_next (shell_seed seed nid))) d \<and>
              sh_storage sh = s"
  using load_log_stores [OF assms] load_hard_stores [OF assms(1,3)]
  by (simp add: shell_new_def recover_def from_entries_def Let_def)

text \<open>
  Recovery through the shell: on a tree that obeys the laws of \<^verbatim>\<open>sled\<close>, a shell that executes any effect list
  and is then started anew from its storage comes back as a follower with exactly the term, vote and log
  that the effects wrote over what was there; everything volatile is reset.
\<close>

theorem execute_then_recover:
  assumes "sled_laws sl view" and "codec_laws c" and "stores c (view (sh_storage sh)) d"
    and "list_all op_in_range (disk_ops (sh_node sh) effs)"
  shows "\<exists>sh'. shell_new sl c nid peers (sh_storage (execute sl c effs sh)) None True seed = Inr sh' \<and>
           sh_node sh' = recover nid peers (draw_timeout (xorshift_next (shell_seed seed nid)))
             (fold durable_op (disk_ops (sh_node sh) effs) d) \<and>
           sh_outbox (execute sl c effs sh) = sh_outbox sh @ sends effs"
  using shell_new_recovers [OF assms(1,2) execute_run [OF assms], of nid peers None True seed]
    execute_traces [of sl c effs sh] by blast

theorem execute_then_recover_witness:
  "\<exists>sh'. shell_new map_tree plain_codec 2 [1, 3]
          (sh_storage (execute map_tree plain_codec [Persist, PersistEntries [\<lparr>le_term = 1, le_index = 1, le_command = [7]\<rparr>]]
             \<lparr>sh_node = (raft_node_new 2 [1, 3] 10)\<lparr>rn_current_term := 4, rn_voted_for := Some 3\<rparr>,
              sh_storage = fmempty, sh_rng = 1, sh_leader_watch = None, sh_outbox = [], sh_apply_open = True, sh_applied = []\<rparr>))
          None True 5 = Inr sh' \<and>
        rn_current_term (sh_node sh') = 4 \<and> rn_voted_for (sh_node sh') = Some 3 \<and>
        rn_log (sh_node sh') = [\<lparr>le_term = 1, le_index = 1, le_command = [7]\<rparr>]"
proof -
  let ?sh = "\<lparr>sh_node = (raft_node_new 2 [1, 3] 10)\<lparr>rn_current_term := 4, rn_voted_for := Some 3\<rparr>,
              sh_storage = fmempty, sh_rng = 1, sh_leader_watch = None, sh_outbox = [], sh_apply_open = True, sh_applied = []\<rparr>"
  have "stores plain_codec (fmlookup (sh_storage ?sh)) durable_new"
    by (rule stores_empty) (simp add: fmempty.rep_eq)
  from execute_then_recover [OF map_tree_laws plain_codec_laws this,
      of "[Persist, PersistEntries [\<lparr>le_term = 1, le_index = 1, le_command = [7]\<rparr>]]" 2 "[1, 3]" 5]
  show ?thesis
    by (auto simp: disk_ops_def in_range_def u64_max_def recover_def durable_new_def node_hard_def raft_node_new_def)
qed

text \<open>
  The generator never reaches its absorbing state 0, whatever the seed, and every drawn timeout is
  in the half-open range from 10 to 20 ticks.
\<close>

lemma election_jitter:
  "xorshift_next seed \<noteq> 0 \<and> 10 \<le> draw_timeout (xorshift_next seed) \<and> draw_timeout (xorshift_next seed) < 20"
  using xorshift_nonzero draw_timeout_range by blast

end
