(* ===== verification/Raft_Effects.thy ===== *)
theory Raft_Effects
  imports Raft_Node
begin

text \<open>
  What one step of the core owes its shell (\<^verbatim>\<open>src/raft/core.rs\<close> and \<^verbatim>\<open>src/raft/node.rs\<close>): storage effects come
  before every message and every applied entry, executing them leaves the disk equal to the node's
  persistent fields, and terms never go back.
\<close>

subsection \<open>Persist before send\<close>

fun is_persist :: "effect \<Rightarrow> bool" where
  "is_persist Persist = True"
| "is_persist (PersistTruncate _) = True"
| "is_persist (PersistEntries _) = True"
| "is_persist _ = False"

fun persists_first :: "effect list \<Rightarrow> bool" where
  "persists_first [] = True"
| "persists_first (e # es) = (if is_persist e then persists_first es else list_all (\<lambda>x. \<not> is_persist x) es)"

lemma none_persists_first: "list_all (\<lambda>x. \<not> is_persist x) es \<Longrightarrow> persists_first es"
  by (cases es) auto

lemma persists_first_append:
  "list_all is_persist ps \<Longrightarrow> list_all (\<lambda>x. \<not> is_persist x) es \<Longrightarrow> persists_first (ps @ es)"
  by (induction ps) (auto simp: none_persists_first)

lemma persists_first_split:
  "persists_first effs \<Longrightarrow>
   \<exists>ps es. effs = ps @ es \<and> list_all is_persist ps \<and> list_all (\<lambda>x. \<not> is_persist x) es"
proof (induction effs)
  case (Cons e effs)
  show ?case
  proof (cases "is_persist e")
    case True
    then obtain ps es where "effs = ps @ es" "list_all is_persist ps" "list_all (\<lambda>x. \<not> is_persist x) es"
      using Cons by auto
    with True show ?thesis by (intro exI [of _ "e # ps"] exI [of _ es]) simp
  next
    case False
    with Cons.prems show ?thesis by (intro exI [of _ "[]"] exI [of _ "e # effs"]) simp
  qed
qed simp

lemma those_all: "those (map f xs) = Some ys \<Longrightarrow> (\<And>x y. f x = Some y \<Longrightarrow> P y) \<Longrightarrow> list_all P ys"
  by (induction xs arbitrary: ys) (auto split: option.splits)

lemma append_for_is_send: "append_for n p = Some e \<Longrightarrow> \<exists>m. e = Send p m"
  by (auto simp: append_for_def Let_def split: bind_splits)

lemma broadcast_no_persist: "broadcast_append n = Some effs \<Longrightarrow> list_all (\<lambda>x. \<not> is_persist x) effs"
  unfolding broadcast_append_def by (erule those_all) (auto dest: append_for_is_send)

lemma advance_loop_no_persist: "list_all (\<lambda>x. \<not> is_persist x) (snd (advance_loop l la c))"
proof (induction l la c rule: advance_loop.induct)
  case (1 l la c)
  then show ?case
    by (subst advance_loop.simps) (auto simp: case_prod_beta split: option.split)
qed

lemma advance_no_persist: "advance_applied n = (n', effs) \<Longrightarrow> list_all (\<lambda>x. \<not> is_persist x) effs"
  using advance_loop_no_persist by (auto simp: advance_applied_def case_prod_beta)

lemma try_commit_no_persist: "try_commit n = (n', effs) \<Longrightarrow> list_all (\<lambda>x. \<not> is_persist x) effs"
  by (auto simp: try_commit_def Let_def advance_no_persist split: role.splits if_splits)

lemma try_win_no_persist: "try_win n = Some (n', effs) \<Longrightarrow> list_all (\<lambda>x. \<not> is_persist x) effs"
  by (auto simp: try_win_def Let_def broadcast_no_persist split: role.splits if_splits)

lemma step_down_persists: "maybe_step_down n t = (n1, e1) \<Longrightarrow> list_all is_persist e1"
  by (auto simp: maybe_step_down_def split: if_splits)

lemma merge_persists: "merge_entries l es = (l', tr, ta) \<Longrightarrow> list_all is_persist tr"
  by (induction l es arbitrary: l' tr ta rule: merge_entries.induct)
    (auto split: option.splits if_splits prod.splits)

lemma start_election_first: "start_election n = Some (n', effs) \<Longrightarrow> persists_first effs"
proof -
  assume st: "start_election n = Some (n', effs)"
  obtain r won where "effs = [Persist] @ (map (\<lambda>peer. Send peer (RequestVote r)) (rn_peers n) @ won)"
      "list_all (\<lambda>x. \<not> is_persist x) won"
    using st unfolding start_election_def Let_def by (auto dest: try_win_no_persist split: bind_splits)
  then show ?thesis by (simp only:) (rule persists_first_append, auto simp: list_all_iff)
qed

lemma on_tick_first: "on_tick n = Some (n', effs) \<Longrightarrow> persists_first effs"
  by (auto simp: on_tick_def Let_def start_election_first none_persists_first broadcast_no_persist
      split: bind_splits if_splits)

lemma on_request_vote_first: "on_request_vote n from req = Some (n', effs) \<Longrightarrow> persists_first effs"
proof -
  assume st: "on_request_vote n from req = Some (n', effs)"
  obtain n1 e1 where sd: "maybe_step_down n (rv_term req) = (n1, e1)" by force
  obtain g r where "effs = (e1 @ (if g then [Persist] else [])) @ [Send from (RequestVoteResp r)]"
    using st by (auto simp: on_request_vote_def sd Let_def)
  then show ?thesis using step_down_persists [OF sd] by (simp only:) (rule persists_first_append, auto)
qed

lemma on_request_vote_resp_first: "on_request_vote_resp n from resp = Some (n', effs) \<Longrightarrow> persists_first effs"
proof -
  assume st: "on_request_vote_resp n from resp = Some (n', effs)"
  obtain n1 e1 where sd: "maybe_step_down n (rvr_term resp) = (n1, e1)" by force
  obtain won where "effs = e1 @ won" "list_all (\<lambda>x. \<not> is_persist x) won"
    using st unfolding on_request_vote_resp_def sd Let_def prod.case
    by (auto dest: try_win_no_persist split: role.splits if_splits bind_splits)
  then show ?thesis using step_down_persists [OF sd] by (simp add: persists_first_append)
qed

lemma on_append_entries_resp_first:
  "on_append_entries_resp n from resp = Some (n', effs) \<Longrightarrow> persists_first effs"
proof -
  assume st: "on_append_entries_resp n from resp = Some (n', effs)"
  obtain n1 e1 where sd: "maybe_step_down n (aer_term resp) = (n1, e1)" by force
  obtain es where "effs = e1 @ es" "list_all (\<lambda>x. \<not> is_persist x) es"
    using st unfolding on_append_entries_resp_def sd Let_def prod.case
    by (auto dest: try_commit_no_persist append_for_is_send split: role.splits if_splits bind_splits prod.splits)
  then show ?thesis using step_down_persists [OF sd] by (simp add: persists_first_append)
qed

lemma on_propose_first: "on_propose n cmd = Some (n', effs) \<Longrightarrow> persists_first effs"
proof (cases "is_leader (rn_role n)")
  case True
  assume st: "on_propose n cmd = Some (n', effs)"
  obtain e bc ap where "effs = [PersistEntries [e]] @ (bc @ ap)" "list_all (\<lambda>x. \<not> is_persist x) (bc @ ap)"
    using st True unfolding on_propose_def Let_def
    by (auto dest: broadcast_no_persist try_commit_no_persist split: bind_splits prod.splits)
  then show ?thesis by (simp add: none_persists_first)
qed (auto simp: on_propose_def)

text \<open>The shape of what \<open>on_append_entries\<close> does once the previous entry matches.\<close>

lemma on_append_entries_cases:
  assumes st: "on_append_entries n from req = Some (n', effs)"
    and sd: "maybe_step_down n (ae_term req) = (n1, e1)"
  obtains (stale) "ae_term req < rn_current_term n1" "n' = n1"
      "effs = e1 @ [ae_reply from (rn_current_term n1) False 0]"
  | (mismatch) n2 where "\<not> ae_term req < rn_current_term n1"
      "n2 = n1\<lparr>rn_role := (if is_candidate (rn_role n1) then Follower else rn_role n1),
               rn_ticks_since_reset := 0, rn_leader_hint := Some (ae_leader_id req)\<rparr>"
      "term_at (rn_log n1) (ae_prev_log_index req) \<noteq> Some (ae_prev_log_term req)"
      "n' = n2" "effs = e1 @ [ae_reply from (rn_current_term n1) False 0]"
  | (accept) n2 l tr ta ap where "\<not> ae_term req < rn_current_term n1"
      "n2 = n1\<lparr>rn_role := (if is_candidate (rn_role n1) then Follower else rn_role n1),
               rn_ticks_since_reset := 0, rn_leader_hint := Some (ae_leader_id req)\<rparr>"
      "term_at (rn_log n1) (ae_prev_log_index req) = Some (ae_prev_log_term req)"
      "merge_entries (rn_log n1) (ae_entries req) = (l, tr, ta)"
      "(if ae_leader_commit req > rn_commit_index n2
        then advance_applied (n2\<lparr>rn_log := l @ ta,
               rn_commit_index := min (ae_leader_commit req) (last_index (l @ ta))\<rparr>)
        else (n2\<lparr>rn_log := l @ ta\<rparr>, [])) = (n', ap)"
      "effs = (e1 @ tr @ (if ta \<noteq> [] then [PersistEntries ta] else [])) @
              (ap @ [ae_reply from (rn_current_term n') True (ae_prev_log_index req + length (ae_entries req))])"
proof -
  define n2 where "n2 = n1\<lparr>rn_role := (if is_candidate (rn_role n1) then Follower else rn_role n1),
               rn_ticks_since_reset := 0, rn_leader_hint := Some (ae_leader_id req)\<rparr>"
  have n2: "rn_log n2 = rn_log n1" "rn_current_term n2 = rn_current_term n1" by (simp_all add: n2_def)
  obtain l tr ta where mg: "merge_entries (rn_log n1) (ae_entries req) = (l, tr, ta)" by (metis prod_cases3)
  obtain n3 ap where ap: "(if ae_leader_commit req > rn_commit_index n2
        then advance_applied (n2\<lparr>rn_log := l @ ta,
               rn_commit_index := min (ae_leader_commit req) (last_index (l @ ta))\<rparr>)
        else (n2\<lparr>rn_log := l @ ta\<rparr>, [])) = (n3, ap)" by force
  note body = on_append_entries_def sd Let_def prod.case n2_def [symmetric] n2
  consider "ae_term req < rn_current_term n1"
    | "\<not> ae_term req < rn_current_term n1" "term_at (rn_log n1) (ae_prev_log_index req) \<noteq> Some (ae_prev_log_term req)"
    | "\<not> ae_term req < rn_current_term n1" "term_at (rn_log n1) (ae_prev_log_index req) = Some (ae_prev_log_term req)"
    by blast
  then show ?thesis
  proof cases
    case 1
    then have "n' = n1" "effs = e1 @ [ae_reply from (rn_current_term n1) False 0]"
      using st unfolding body by auto
    with 1 show ?thesis by (rule stale)
  next
    case 2
    then have "n' = n2" "effs = e1 @ [ae_reply from (rn_current_term n1) False 0]"
      using st unfolding body by auto
    with mismatch [OF 2(1) n2_def 2(2)] show ?thesis by blast
  next
    case 3
    then have "n' = n3" "effs = (e1 @ tr @ (if ta \<noteq> [] then [PersistEntries ta] else [])) @
              (ap @ [ae_reply from (rn_current_term n3) True (ae_prev_log_index req + length (ae_entries req))])"
      using st ap unfolding body mg
      by (auto simp: checked_add_def append_entries_def split: if_split_asm prod.split_asm)
    with accept [OF 3(1) n2_def 3(2) mg] ap show ?thesis by blast
  qed
qed

lemma reply_no_persist [simp]: "\<not> is_persist (ae_reply from t ok m)"
  by (simp add: ae_reply_def)

lemma on_append_entries_first: "on_append_entries n from req = Some (n', effs) \<Longrightarrow> persists_first effs"
proof -
  assume st: "on_append_entries n from req = Some (n', effs)"
  obtain n1 e1 where sd: "maybe_step_down n (ae_term req) = (n1, e1)" by force
  note e1 = step_down_persists [OF sd]
  from st sd show ?thesis
  proof (cases rule: on_append_entries_cases)
    case (accept n2 l tr ta ap)
    have "list_all (\<lambda>x. \<not> is_persist x) ap"
      using accept(5) by (auto dest: advance_no_persist split: if_splits)
    then show ?thesis
      unfolding accept(6) using e1 merge_persists [OF accept(4)] by (intro persists_first_append) simp_all
  qed (use e1 in \<open>simp_all add: persists_first_append\<close>)
qed

lemma step_persists_first: "step n ev = Some (n', effs) \<Longrightarrow> persists_first effs"
  by (cases "(n, ev)" rule: step.cases)
    (auto dest: on_tick_first on_request_vote_first on_request_vote_resp_first on_append_entries_first
      on_append_entries_resp_first on_propose_first)

subsection \<open>The disk follows the node\<close>

definition synced :: "raft_node \<Rightarrow> durable" where
  "synced n = \<lparr>d_hard = node_hard n, d_log = rn_log n\<rparr>"

lemma synced_eq: "synced n = synced n' \<longleftrightarrow> node_hard n = node_hard n' \<and> rn_log n = rn_log n'"
  by (simp add: synced_def)

lemma disk_ops_simps [simp]:
  "disk_ops n [] = []" "disk_ops n (e # es) = effect_op n e @ disk_ops n es"
  "disk_ops n (es @ es') = disk_ops n es @ disk_ops n es'"
  by (simp_all add: disk_ops_def)

lemma no_persist_ops: "list_all (\<lambda>x. \<not> is_persist x) es \<Longrightarrow> disk_ops n es = []"
proof (induction es)
  case (Cons e es)
  then show ?case by (cases e) auto
qed simp

lemma persists_send_nothing: "list_all is_persist ps \<Longrightarrow> sends ps = [] \<and> applies ps = []"
proof (induction ps)
  case (Cons e ps)
  then show ?case by (cases e) (auto simp: sends_def applies_def)
qed (simp add: sends_def applies_def)

lemma disk_ops_hard: "node_hard n = node_hard n' \<Longrightarrow> disk_ops n effs = disk_ops n' effs"
proof (induction effs)
  case (Cons e effs)
  then show ?case by (cases e) auto
qed simp

lemma step_down_disk:
  "maybe_step_down n t = (n1, e1) \<Longrightarrow> fold durable_op (disk_ops n1 e1) (synced n) = synced n1"
  by (auto simp: maybe_step_down_def synced_def node_hard_def split: if_splits)

lemma merge_disk:
  "merge_entries l es = (l', tr, ta) \<Longrightarrow> indexed l \<Longrightarrow>
   fold durable_op (disk_ops n tr) \<lparr>d_hard = h, d_log = l\<rparr> = \<lparr>d_hard = h, d_log = l'\<rparr>"
proof (induction l es arbitrary: l' tr ta rule: merge_entries.induct)
  case (2 l e es)
  show ?case
  proof (cases "term_at l (le_index e)")
    case None
    then show ?thesis using 2 by (auto split: prod.splits)
  next
    case (Some t)
    show ?thesis
    proof (cases "t = le_term e")
      case True
      then show ?thesis using 2 Some by simp
    next
      case False
      obtain l1 tr1 ta1 where m: "merge_entries (truncate_from l (le_index e)) es = (l1, tr1, ta1)"
        by (metis prod_cases3)
      have "indexed (truncate_from l (le_index e))" using "2.prems"(2) by (auto simp: truncate_from_def)
      then have "fold durable_op (disk_ops n tr1) \<lparr>d_hard = h, d_log = truncate_from l (le_index e)\<rparr> = \<lparr>d_hard = h, d_log = l1\<rparr>"
        using "2.IH"(3) [OF Some False m] by blast
      then show ?thesis
        using "2.prems" Some False m truncate_filter [OF "2.prems"(2)] by auto
    qed
  qed
qed simp

lemma append_disk:
  "indexed (l @ ta) \<Longrightarrow>
   fold durable_op (disk_ops n (if ta \<noteq> [] then [PersistEntries ta] else [])) \<lparr>d_hard = h, d_log = l\<rparr> =
   \<lparr>d_hard = h, d_log = l @ ta\<rparr>"
  by (simp add: store_entries_append)

lemma advance_frame: "advance_applied n = (n', effs) \<Longrightarrow> node_hard n' = node_hard n \<and> rn_log n' = rn_log n"
  by (auto simp: advance_applied_def node_hard_def case_prod_beta)

lemma try_commit_frame: "try_commit n = (n', effs) \<Longrightarrow> node_hard n' = node_hard n \<and> rn_log n' = rn_log n"
  by (auto simp: try_commit_def Let_def node_hard_def dest: advance_frame split: role.splits if_splits)

lemma try_win_frame: "try_win n = Some (n', effs) \<Longrightarrow> node_hard n' = node_hard n \<and> rn_log n' = rn_log n"
  by (auto simp: try_win_def Let_def node_hard_def split: role.splits if_splits)

lemma try_commit_quiet:
  "try_commit n = (n', effs) \<Longrightarrow>
   list_all (\<lambda>x. \<not> is_persist x) effs \<and> node_hard n' = node_hard n \<and> rn_log n' = rn_log n"
  using try_commit_no_persist try_commit_frame by blast

lemma try_win_quiet:
  "try_win n = Some (n', effs) \<Longrightarrow>
   list_all (\<lambda>x. \<not> is_persist x) effs \<and> node_hard n' = node_hard n \<and> rn_log n' = rn_log n"
  using try_win_no_persist try_win_frame by blast

lemma broadcast_ops: "broadcast_append n = Some effs \<Longrightarrow> disk_ops m effs = []"
  by (rule no_persist_ops [OF broadcast_no_persist])

lemma on_tick_disk:
  assumes "on_tick n = Some (n', effs)"
  shows "fold durable_op (disk_ops n' effs) (synced n) = synced n'"
proof -
  define n1 where "n1 = n\<lparr>rn_ticks_since_reset := rn_ticks_since_reset n + 1\<rparr>"
  have n1: "synced n1 = synced n" by (simp add: n1_def synced_def node_hard_def)
  have "start_election n1 = Some (n', effs) \<or> node_hard n' = node_hard n \<and> rn_log n' = rn_log n \<and> disk_ops n' effs = []"
    using assms unfolding on_tick_def Let_def n1_def
    by (auto simp: node_hard_def broadcast_ops split: bind_splits if_splits)
  then show ?thesis
  proof
    assume se: "start_election n1 = Some (n', effs)"
    define n2 where "n2 = n1\<lparr>rn_current_term := rn_current_term n1 + 1, rn_voted_for := Some (rn_id n1),
        rn_role := Candidate {rn_id n1}, rn_ticks_since_reset := 0, rn_leader_hint := None\<rparr>"
    obtain won r where tw: "try_win n2 = Some (n', won)"
        "effs = [Persist] @ map (\<lambda>peer. Send peer (RequestVote r)) (rn_peers n1) @ won"
      using se unfolding start_election_def Let_def n2_def by (auto split: bind_splits)
    have "disk_ops n' (map (\<lambda>peer. Send peer (RequestVote r)) ps) = []" for ps
      by (rule no_persist_ops) (simp add: list_all_iff)
    then have "disk_ops n' effs = [SaveHard (node_hard n')]"
      using tw(2) no_persist_ops [OF try_win_no_persist [OF tw(1)]] by simp
    then show ?thesis using try_win_frame [OF tw(1)] n1 by (simp add: synced_def n2_def)
  qed (simp add: synced_def)
qed

lemma on_request_vote_disk:
  assumes "on_request_vote n from req = Some (n', effs)"
  shows "fold durable_op (disk_ops n' effs) (synced n) = synced n'"
proof -
  obtain n1 e1 where sd: "maybe_step_down n (rv_term req) = (n1, e1)" by force
  have e1: "e1 = [] \<and> n1 = n \<or> e1 = [Persist] \<and> rn_log n1 = rn_log n"
    using sd by (auto simp: maybe_step_down_def split: if_splits)
  obtain g r where "effs = e1 @ (if g then [Persist] else []) @ [Send from (RequestVoteResp r)]"
      "if g then rn_log n' = rn_log n1 else n' = n1"
    using assms by (auto simp: on_request_vote_def sd Let_def split: if_splits)
  then show ?thesis using e1 by (auto simp: synced_def node_hard_def split: if_splits)
qed

lemma on_request_vote_resp_disk:
  assumes "on_request_vote_resp n from resp = Some (n', effs)"
  shows "fold durable_op (disk_ops n' effs) (synced n) = synced n'"
proof -
  obtain n1 e1 where sd: "maybe_step_down n (rvr_term resp) = (n1, e1)" by force
  have nh: "node_hard (x\<lparr>rn_role := r\<rparr>) = node_hard x" for x r by (simp add: node_hard_def)
  obtain won where "effs = e1 @ won" "list_all (\<lambda>x. \<not> is_persist x) won" "synced n' = synced n1"
    using assms unfolding on_request_vote_resp_def sd Let_def prod.case
    by (auto simp: synced_eq nh dest: try_win_quiet split: role.splits if_splits bind_splits)
  then show ?thesis
    using step_down_disk [OF sd] disk_ops_hard [of n' n1] by (simp add: no_persist_ops synced_eq)
qed

lemma on_append_entries_resp_disk:
  assumes "on_append_entries_resp n from resp = Some (n', effs)"
  shows "fold durable_op (disk_ops n' effs) (synced n) = synced n'"
proof -
  obtain n1 e1 where sd: "maybe_step_down n (aer_term resp) = (n1, e1)" by force
  have nh: "node_hard (x\<lparr>rn_role := r\<rparr>) = node_hard x" for x r by (simp add: node_hard_def)
  obtain es where "effs = e1 @ es" "list_all (\<lambda>x. \<not> is_persist x) es" "synced n' = synced n1"
    using assms unfolding on_append_entries_resp_def sd Let_def prod.case
    by (auto simp: synced_eq nh dest: try_commit_quiet append_for_is_send
        split: role.splits if_splits bind_splits prod.splits)
  then show ?thesis
    using step_down_disk [OF sd] disk_ops_hard [of n' n1] by (simp add: no_persist_ops synced_eq)
qed

lemma on_append_entries_disk:
  assumes st: "on_append_entries n from req = Some (n', effs)"
    and idx: "indexed (rn_log n)" "indexed (rn_log n')"
  shows "fold durable_op (disk_ops n' effs) (synced n) = synced n'"
proof -
  obtain n1 e1 where sd: "maybe_step_down n (ae_term req) = (n1, e1)" by force
  have log1: "rn_log n1 = rn_log n" using sd by (auto simp: maybe_step_down_def split: if_splits)
  have reply: "disk_ops m [ae_reply f t ok k] = []" for m f t ok k by (simp add: ae_reply_def)
  from st sd show ?thesis
  proof (cases rule: on_append_entries_cases)
    case stale
    then show ?thesis using step_down_disk [OF sd] reply by simp
  next
    case (mismatch n2)
    then have "node_hard n' = node_hard n1" "rn_log n' = rn_log n1" by (simp_all add: node_hard_def)
    then show ?thesis
      using step_down_disk [OF sd] reply disk_ops_hard [of n' n1 e1] mismatch(5) by (simp add: synced_def)
  next
    case (accept n2 l tr ta ap)
    have hard: "node_hard n2 = node_hard n1"
      and upd: "node_hard (n2\<lparr>rn_log := x, rn_commit_index := k\<rparr>) = node_hard n2"
        "node_hard (n2\<lparr>rn_log := x\<rparr>) = node_hard n2" for x k
      using accept(2) by (simp_all add: node_hard_def)
    have n': "node_hard n' = node_hard n1" "rn_log n' = l @ ta"
      using accept(5) hard upd by (auto dest: advance_frame split: if_splits)
    have "list_all (\<lambda>x. \<not> is_persist x) ap"
      using accept(5) by (auto dest: advance_no_persist split: if_splits)
    then have "fold durable_op (disk_ops n' effs) (synced n) =
        fold durable_op (disk_ops n' (if ta \<noteq> [] then [PersistEntries ta] else []))
          (fold durable_op (disk_ops n' tr) (synced n1))"
      unfolding accept(6) disk_ops_simps(3) fold_append comp_apply
      using step_down_disk [OF sd] disk_ops_hard [OF n'(1), of e1] reply by (simp add: no_persist_ops)
    also have "\<dots> = synced n'"
      unfolding synced_def using merge_disk [OF accept(4), of n'] append_disk [of l ta n'] idx log1 n' by simp
    finally show ?thesis .
  qed
qed

lemma on_propose_disk:
  assumes st: "on_propose n cmd = Some (n', effs)" and idx: "indexed (rn_log n)"
  shows "fold durable_op (disk_ops n' effs) (synced n) = synced n'"
proof (cases "is_leader (rn_role n)")
  case False
  then show ?thesis using st by (auto simp: on_propose_def)
next
  case True
  obtain l k where la: "log_append (rn_log n) (rn_current_term n) cmd = (l, k)" by force
  obtain e bc ap where st': "log_get l k = Some e" "broadcast_append (n\<lparr>rn_log := l\<rparr>) = Some bc"
      "try_commit (n\<lparr>rn_log := l\<rparr>) = (n', ap)" "effs = [PersistEntries [e]] @ bc @ ap"
    using st True unfolding on_propose_def la Let_def by (auto split: bind_splits prod.splits)
  have l: "l = rn_log n @ [e]"
    using la st'(1) by (auto simp: log_append_def log_get_def last_index_def Let_def)
  have "indexed l" using indexed_append [OF idx] la by (metis fst_conv)
  then have "fold store_entry [e] (rn_log n) = l" using store_entries_append [of "rn_log n" "[e]"] l by simp
  moreover have "node_hard n' = node_hard n" "rn_log n' = l"
    using try_commit_frame [OF st'(3)] by (simp_all add: node_hard_def)
  moreover have "disk_ops n' effs = [AppendLog [e]]"
    using st' no_persist_ops [OF try_commit_no_persist] broadcast_ops by simp
  ultimately show ?thesis by (simp add: synced_def)
qed

lemma step_disk:
  assumes "step n ev = Some (n', effs)" and "indexed (rn_log n)" and "indexed (rn_log n')"
  shows "fold durable_op (disk_ops n' effs) (synced n) = synced n'"
  using assms
  by (cases "(n, ev)" rule: step.cases)
    (auto intro: on_tick_disk on_request_vote_disk on_request_vote_resp_disk on_append_entries_disk
      on_append_entries_resp_disk on_propose_disk)

subsection \<open>No panic while the counters are in range\<close>

fun role_in_range :: "role \<Rightarrow> bool" where
  "role_in_range (Leader ni mi) = ((\<forall>p k. ni p = Some k \<longrightarrow> 1 \<le> k) \<and> (\<forall>p m. mi p = Some m \<longrightarrow> m < u64_max))"
| "role_in_range _ = True"

fun event_in_range :: "event \<Rightarrow> bool" where
  "event_in_range (Message _ (AppendEntries r)) = (ae_prev_log_index r + length (ae_entries r) \<le> u64_max)"
| "event_in_range (Message _ (AppendEntriesResp r)) = (aer_match_index r < u64_max)"
| "event_in_range _ = True"

lemma those_Some: "(\<And>x. x \<in> set xs \<Longrightarrow> f x \<noteq> None) \<Longrightarrow> those (map f xs) \<noteq> None"
  by (induction xs) (auto split: option.splits)

lemma append_for_total: "role_in_range (rn_role n) \<Longrightarrow> append_for n p \<noteq> None"
  by (auto simp: append_for_def Let_def checked_sub_def split: role.splits option.splits)

lemma broadcast_total: "role_in_range (rn_role n) \<Longrightarrow> \<exists>effs. broadcast_append n = Some effs"
  unfolding broadcast_append_def using those_Some [of "rn_peers n" "append_for n"] append_for_total by blast

definition total_step :: "outcome \<Rightarrow> bool" where
  "total_step r \<longleftrightarrow> (\<exists>n effs. r = Some (n, effs) \<and> role_in_range (rn_role n))"

lemma total_stepI [intro]: "r = Some (n, effs) \<Longrightarrow> role_in_range (rn_role n) \<Longrightarrow> total_step r"
  by (auto simp: total_step_def)

lemma try_win_total:
  assumes "role_in_range (rn_role n)"
  shows "total_step (try_win n)"
proof (cases "\<exists>V. rn_role n = Candidate V \<and> majority n \<le> card V")
  case False
  then have "try_win n = Some (n, [])" by (auto simp: try_win_def split: role.split)
  with assms show ?thesis by blast
next
  case True
  then obtain V where V: "rn_role n = Candidate V" "\<not> card V < majority n" by auto
  define n1 where "n1 = n\<lparr>rn_role := Leader (\<lambda>p. if p \<in> set (rn_peers n) then Some (last_index (rn_log n) + 1) else None)
                                       (\<lambda>p. if p \<in> set (rn_peers n) then Some 0 else None),
                     rn_leader_hint := Some (rn_id n), rn_ticks_since_reset := 0\<rparr>"
  have r: "role_in_range (rn_role n1)" by (simp add: n1_def u64_max_def)
  have "try_win n = map_option (Pair n1) (broadcast_append n1)"
    unfolding try_win_def n1_def Let_def V(1) role.case using V(2) by (simp only: if_False)
  with broadcast_total [OF r] r show ?thesis by (auto simp: total_step_def)
qed

lemma start_election_total:
  assumes "rn_current_term n < u64_max"
  shows "total_step (start_election n)"
proof -
  define n1 where "n1 = n\<lparr>rn_current_term := rn_current_term n + 1, rn_voted_for := Some (rn_id n),
                rn_role := Candidate {rn_id n}, rn_ticks_since_reset := 0, rn_leader_hint := None\<rparr>"
  have "total_step (try_win n1)" by (rule try_win_total) (simp add: n1_def)
  then obtain n2 won where "try_win n1 = Some (n2, won)" "role_in_range (rn_role n2)"
    by (auto simp: total_step_def)
  with assms show ?thesis
    by (auto simp: start_election_def checked_add_def n1_def total_step_def)
qed

lemma step_down_range:
  "maybe_step_down n t = (n1, e1) \<Longrightarrow> role_in_range (rn_role n) \<Longrightarrow> role_in_range (rn_role n1)"
  by (auto simp: maybe_step_down_def split: if_splits)

lemma try_commit_role: "try_commit n = (n', effs) \<Longrightarrow> rn_role n' = rn_role n"
  by (auto simp: try_commit_def Let_def advance_applied_def case_prod_beta split: role.splits if_splits)

lemma on_tick_total:
  assumes r: "role_in_range (rn_role n)" and "rn_ticks_since_reset n < u32_max" and "rn_current_term n < u64_max"
  shows "total_step (on_tick n)"
proof -
  define n1 where "n1 = n\<lparr>rn_ticks_since_reset := rn_ticks_since_reset n + 1\<rparr>"
  have eq: "on_tick n =
     (if is_leader (rn_role n1)
      then (if rn_ticks_since_reset n1 \<ge> HEARTBEAT_TICKS
            then map_option (Pair (n1\<lparr>rn_ticks_since_reset := 0\<rparr>))
                   (broadcast_append (n1\<lparr>rn_ticks_since_reset := 0\<rparr>))
            else Some (n1, []))
      else (if rn_ticks_since_reset n1 \<ge> rn_election_timeout_ticks n1
            then start_election n1 else Some (n1, [])))"
    using assms(2) by (simp add: on_tick_def Let_def checked_add_def n1_def)
  obtain effs where "broadcast_append (n1\<lparr>rn_ticks_since_reset := 0\<rparr>) = Some effs"
    using broadcast_total [of "n1\<lparr>rn_ticks_since_reset := 0\<rparr>"] r by (auto simp: n1_def)
  moreover have "total_step (start_election n1)"
    using start_election_total [of n1] assms(3) by (simp add: n1_def)
  ultimately show ?thesis
    unfolding eq using r by (auto simp: total_step_def n1_def)
qed

lemma on_request_vote_resp_total:
  assumes "role_in_range (rn_role n)"
  shows "total_step (on_request_vote_resp n from resp)"
proof -
  obtain n1 e1 where sd: "maybe_step_down n (rvr_term resp) = (n1, e1)" by force
  have r1: "role_in_range (rn_role n1)" by (rule step_down_range [OF sd assms])
  show ?thesis
  proof (cases "is_candidate (rn_role n1) \<and> rvr_term resp = rn_current_term n1 \<and> rvr_vote_granted resp")
    case False
    then have "on_request_vote_resp n from resp = Some (n1, e1)"
      by (auto simp: on_request_vote_resp_def sd split: role.split)
    with r1 show ?thesis by blast
  next
    case True
    then obtain V where role: "rn_role n1 = Candidate V" by (cases "rn_role n1") auto
    have "total_step (try_win (n1\<lparr>rn_role := Candidate (insert from V)\<rparr>))" by (rule try_win_total) simp
    then obtain n2 won where "try_win (n1\<lparr>rn_role := Candidate (insert from V)\<rparr>) = Some (n2, won)"
        "role_in_range (rn_role n2)" by (auto simp: total_step_def)
    then have "on_request_vote_resp n from resp = Some (n2, e1 @ won)" "role_in_range (rn_role n2)"
      using True unfolding on_request_vote_resp_def sd Let_def prod.case role role.case by simp_all
    then show ?thesis by blast
  qed
qed

lemma on_append_entries_total:
  assumes "role_in_range (rn_role n)" and "ae_prev_log_index req + length (ae_entries req) \<le> u64_max"
  shows "total_step (on_append_entries n from req)"
proof -
  obtain n1 e1 where sd: "maybe_step_down n (ae_term req) = (n1, e1)" by force
  have r1: "role_in_range (rn_role n1)" by (rule step_down_range [OF sd assms(1)])
  then show ?thesis
    using assms(2) unfolding on_append_entries_def sd Let_def prod.case
    by (auto simp: total_step_def checked_add_def advance_applied_def split: prod.split)
qed

lemma on_append_entries_resp_total:
  assumes "role_in_range (rn_role n)" and "aer_match_index resp < u64_max"
  shows "total_step (on_append_entries_resp n from resp)"
proof -
  obtain n1 e1 where sd: "maybe_step_down n (aer_term resp) = (n1, e1)" by force
  have r1: "role_in_range (rn_role n1)" by (rule step_down_range [OF sd assms(1)])
  show ?thesis
  proof (cases "is_leader (rn_role n1) \<and> \<not> aer_term resp < rn_current_term n1")
    case False
    then have "on_append_entries_resp n from resp = Some (n1, e1)"
      by (auto simp: on_append_entries_resp_def sd split: role.split)
    with r1 show ?thesis by blast
  next
    case True
    then obtain ni mi where role: "rn_role n1 = Leader ni mi" by (cases "rn_role n1") auto
    define m where "m = max (case mi from of Some v \<Rightarrow> v | None \<Rightarrow> 0) (aer_match_index resp)"
    define k where "k = max ((case ni from of Some v \<Rightarrow> v | None \<Rightarrow> 2) - 1) 1"
    define n2 where "n2 = n1\<lparr>rn_role := Leader (ni(from \<mapsto> m + 1)) (mi(from \<mapsto> m))\<rparr>"
    define n3 where "n3 = n1\<lparr>rn_role := Leader (ni(from \<mapsto> k)) mi\<rparr>"
    have m: "m < u64_max" using r1 role assms(2) by (auto simp: m_def split: option.split)
    have "1 \<le> k" by (simp add: k_def)
    then have r3: "role_in_range (rn_role n3)" using r1 role by (simp add: n3_def)
    obtain probe where probe: "append_for n3 from = Some probe" using append_for_total [OF r3] by blast
    obtain n4 ap where tc: "try_commit n2 = (n4, ap)" by force
    then have r4: "role_in_range (rn_role n4)"
      using try_commit_role [OF tc] r1 role m by (simp add: n2_def)
    have "on_append_entries_resp n from resp =
        (if aer_success resp then Some (n4, e1 @ ap) else Some (n3, e1 @ [probe]))"
      using True probe tc m
      unfolding on_append_entries_resp_def sd Let_def prod.case role role.case
        m_def [symmetric] k_def [symmetric] n3_def [symmetric] n2_def
      by (simp add: checked_add_def)
    with r3 r4 show ?thesis by (auto simp: total_step_def)
  qed
qed

lemma on_propose_total:
  assumes "role_in_range (rn_role n)"
  shows "total_step (on_propose n cmd)"
proof (cases "is_leader (rn_role n)")
  case False
  then show ?thesis using assms by (auto simp: on_propose_def)
next
  case True
  define l where "l = rn_log n @ [\<lparr>le_term = rn_current_term n, le_index = length (rn_log n) + 1, le_command = cmd\<rparr>]"
  have la: "log_append (rn_log n) (rn_current_term n) cmd = (l, length (rn_log n) + 1)"
    by (simp add: log_append_def l_def last_index_def)
  have "log_get l (length (rn_log n) + 1) \<noteq> None" by (simp add: log_get_def l_def)
  then obtain e where e: "log_get l (length (rn_log n) + 1) = Some e" by blast
  obtain bc where bc: "broadcast_append (n\<lparr>rn_log := l\<rparr>) = Some bc"
    using broadcast_total [of "n\<lparr>rn_log := l\<rparr>"] assms by auto
  obtain n2 ap where tc: "try_commit (n\<lparr>rn_log := l\<rparr>) = (n2, ap)" by force
  have "role_in_range (rn_role n2)" using try_commit_role [OF tc] assms by simp
  moreover have "on_propose n cmd = Some (n2, [PersistEntries [e]] @ bc @ ap)"
    using True e bc tc unfolding on_propose_def la Let_def prod.case by simp
  ultimately show ?thesis by blast
qed

lemma on_request_vote_total:
  assumes "role_in_range (rn_role n)"
  shows "total_step (on_request_vote n from req)"
proof -
  obtain n1 e1 where sd: "maybe_step_down n (rv_term req) = (n1, e1)" by force
  have "role_in_range (rn_role n1)" by (rule step_down_range [OF sd assms])
  then show ?thesis by (auto simp: on_request_vote_def sd Let_def total_step_def)
qed

subsection \<open>Properties\<close>

definition sample_follower :: raft_node where
  "sample_follower = raft_node_new 2 [1, 3] 10"

definition sample_append :: event where
  "sample_append = Message 1 (AppendEntries \<lparr>ae_term = 1, ae_leader_id = 1, ae_prev_log_index = 0,
     ae_prev_log_term = 0, ae_entries = [\<lparr>le_term = 1, le_index = 1, le_command = [7]\<rparr>], ae_leader_commit = 1\<rparr>)"

definition sample_after :: raft_node where
  "sample_after = sample_follower\<lparr>rn_current_term := 1, rn_leader_hint := Some 1,
     rn_log := [\<lparr>le_term = 1, le_index = 1, le_command = [7]\<rparr>], rn_commit_index := 1, rn_last_applied := 1\<rparr>"

definition sample_effects :: "effect list" where
  "sample_effects =
     [Persist, PersistEntries [\<lparr>le_term = 1, le_index = 1, le_command = [7]\<rparr>],
      Apply \<lparr>le_term = 1, le_index = 1, le_command = [7]\<rparr>, ae_reply 1 1 True 1]"

lemma sample_step: "step sample_follower sample_append = Some (sample_after, sample_effects)"
  by (simp add: sample_follower_def sample_append_def sample_after_def sample_effects_def raft_node_new_def log_new_def
      on_append_entries_def maybe_step_down_def checked_add_def u64_max_def append_entries_def
      advance_applied_def advance_loop.simps log_get_def last_index_def)

text \<open>
  C6 (persist before send): in the effects of any step, for any node state and any event, no message, no applied
  entry and no rejection precedes a storage write; and when the logs before and after are gap-free, executing
  the writes on a disk that held the old term, vote and log leaves exactly the new ones there.
\<close>

theorem persist_before_send:
  assumes "step n ev = Some (n', effs)" and "indexed (rn_log n)" and "indexed (rn_log n')"
  shows "persists_first effs \<and>
         fold durable_op (disk_ops n' effs) \<lparr>d_hard = node_hard n, d_log = rn_log n\<rparr> =
           \<lparr>d_hard = node_hard n', d_log = rn_log n'\<rparr>"
  using step_persists_first [OF assms(1)] step_disk [OF assms] by (simp add: synced_def)

theorem persist_before_send_witness:
  "step sample_follower sample_append = Some (sample_after, sample_effects) \<and> persists_first sample_effects \<and>
   fold durable_op (disk_ops sample_after sample_effects) \<lparr>d_hard = node_hard sample_follower, d_log = rn_log sample_follower\<rparr> =
     \<lparr>d_hard = node_hard sample_after, d_log = rn_log sample_after\<rparr>"
proof -
  have "indexed (rn_log sample_follower)" "indexed (rn_log sample_after)"
    by (simp_all add: sample_follower_def sample_after_def raft_node_new_def log_new_def indexed_def)
  from persist_before_send [OF sample_step this] show ?thesis using sample_step by blast
qed

text \<open>
  C7 (no panic): whatever message arrives, a step returns as long as the tick counter, the term and the indices the
  message names are below the maximum of their integer type, and the leader's bookkeeping
  (\<open>next_index \<ge> 1\<close>, \<open>match_index\<close> in range) that rules out the underflow of \<open>prev_index\<close> is kept.
\<close>

theorem step_never_panics:
  assumes "role_in_range (rn_role n)" and "event_in_range ev"
    and "rn_ticks_since_reset n < u32_max" and "rn_current_term n < u64_max"
  shows "\<exists>n' effs. step n ev = Some (n', effs) \<and> role_in_range (rn_role n')"
proof -
  have "total_step (step n ev)"
    using assms
    by (cases "(n, ev)" rule: step.cases)
      (auto intro: on_tick_total on_request_vote_total on_request_vote_resp_total on_append_entries_total
        on_append_entries_resp_total on_propose_total)
  then show ?thesis by (simp add: total_step_def)
qed

theorem step_never_panics_witness:
  "role_in_range (rn_role sample_follower) \<and> event_in_range sample_append \<and>
   (\<exists>n' effs. step sample_follower sample_append = Some (n', effs) \<and> role_in_range (rn_role n'))"
proof -
  have h: "role_in_range (rn_role sample_follower)" "event_in_range sample_append"
    "rn_ticks_since_reset sample_follower < u32_max" "rn_current_term sample_follower < u64_max"
    by (simp_all add: sample_follower_def sample_append_def raft_node_new_def u64_max_def u32_max_def)
  from step_never_panics [OF h] h show ?thesis by blast
qed

end
