(* ===== verification/Raft_Cluster.thy ===== *)
theory Raft_Cluster
  imports Raft_Protocol Raft_Effects
begin

text \<open>
  A cluster of shells: every node runs the core of \<^verbatim>\<open>src/raft/core.rs\<close> under the effect loop of
  \<^verbatim>\<open>src/raft/node.rs\<close>, on its own durable state, over a network that loses, delays, reorders and
  duplicates messages (a set that only grows; delivery does not remove). A turn of a node is atomic: the
  effects of one event only touch the node's own disk and apply channel and add to the network, so
  no other node can observe a point inside them except through a crash, and a crash may cut the effect
  list at any position. An effect itself is taken as one step: a process that dies while one storage operation is under way,
  after some of its keys are written or removed, is not modelled (\<open>torn_truncation\<close> in theory
  \<^verbatim>\<open>Raft_Storage\<close> shows what that does to the log). The simulation relation \<open>sim\<close> maps a cluster to the protocol of theory
  \<^verbatim>\<open>Raft_Protocol\<close>, and carries its safety theorems to the code.
\<close>

record cluster =
  cl_node :: "node_id \<Rightarrow> raft_node"
  cl_disk :: "node_id \<Rightarrow> durable"
  cl_net :: "(node_id \<times> node_id \<times> message) set"
  cl_applied :: "node_id \<Rightarrow> log_entry list"

text \<open>A node's list of peers has the other members in any order: it comes from a hash map, whose order differs from run to run.\<close>

definition peer_order :: "node_id list \<Rightarrow> node_id \<Rightarrow> node_id list \<Rightarrow> bool" where
  "peer_order N i ps \<longleftrightarrow> distinct ps \<and> set ps = set N - {i}"

definition cluster_init :: "(node_id \<Rightarrow> node_id list) \<Rightarrow> (node_id \<Rightarrow> nat) \<Rightarrow> cluster" where
  "cluster_init peers timeout =
     \<lparr>cl_node = (\<lambda>i. raft_node_new i (peers i) (timeout i)), cl_disk = (\<lambda>_. durable_new),
      cl_net = {}, cl_applied = (\<lambda>_. [])\<rparr>"

fun deliverable :: "cluster \<Rightarrow> node_id \<Rightarrow> event \<Rightarrow> bool" where
  "deliverable s i (Message from m) = ((from, i, m) \<in> cl_net s)"
| "deliverable s i _ = True"

definition run_effects :: "node_id \<Rightarrow> raft_node \<Rightarrow> effect list \<Rightarrow> cluster \<Rightarrow> cluster" where
  "run_effects i n effs s =
     s\<lparr>cl_disk := (cl_disk s)(i := fold durable_op (disk_ops n effs) (cl_disk s i)),
       cl_net := cl_net s \<union> (\<lambda>(to, m). (i, to, m)) ` set (sends effs),
       cl_applied := (cl_applied s)(i := cl_applied s i @ applies effs)\<rparr>"

definition reboot :: "node_id \<Rightarrow> node_id list \<Rightarrow> nat \<Rightarrow> cluster \<Rightarrow> cluster" where
  "reboot i peers timeout s =
     s\<lparr>cl_node := (cl_node s)(i := recover i peers timeout (cl_disk s i)),
       cl_applied := (cl_applied s)(i := [])\<rparr>"

text \<open>
  \<open>turn\<close>: one iteration of the run loop, with the election timeout the shell may have re-drawn;
  \<open>crash\<close>: the process dies after \<open>k\<close> whole effects of the turn and restarts from its disk;
  \<open>restart\<close>: the process dies (or panics) between turns.
\<close>

inductive cstep :: "node_id list \<Rightarrow> cluster \<Rightarrow> cluster \<Rightarrow> bool" for N where
  turn: "i \<in> set N \<Longrightarrow> deliverable s i ev \<Longrightarrow> step (cl_node s i) ev = Some (n, effs) \<Longrightarrow>
    n' = n \<or> n' = set_election_timeout n ticks \<Longrightarrow>
    cstep N s (run_effects i n effs (s\<lparr>cl_node := (cl_node s)(i := n')\<rparr>))"
| crash: "i \<in> set N \<Longrightarrow> deliverable s i ev \<Longrightarrow> step (cl_node s i) ev = Some (n, effs) \<Longrightarrow>
    peer_order N i peers \<Longrightarrow> cstep N s (reboot i peers ticks (run_effects i n (take k effs) s))"
| restart: "i \<in> set N \<Longrightarrow> peer_order N i peers \<Longrightarrow> cstep N s (reboot i peers ticks s)"

subsection \<open>The simulation relation\<close>

abbreviation quorum_of :: "node_id list \<Rightarrow> node_id set \<Rightarrow> bool" where
  "quorum_of N \<equiv> majority_of (set N)"

fun role_ok :: "node_id list \<Rightarrow> proto \<Rightarrow> node_id \<Rightarrow> role \<Rightarrow> bool" where
  "role_ok N a i Follower = (p_role a i = PFollower)"
| "role_ok N a i (Candidate votes) =
     (p_role a i = PCandidate \<and> votes \<subseteq> set N \<and>
      (\<forall>v \<in> votes. \<exists>x l. h_votes a v (p_cur a i) = Some (i, x, l)))"
| "role_ok N a i (Leader ni mi) =
     (p_role a i = PLeader \<and>
      (\<forall>p k. ni p = Some k \<longrightarrow> 1 \<le> k \<and> k \<le> length (p_log a i) + 1) \<and>
      (\<forall>p m. mi p = Some m \<longrightarrow> m = 0 \<or> acked a p (p_cur a i) m))"

definition node_ok :: "node_id list \<Rightarrow> proto \<Rightarrow> node_id \<Rightarrow> raft_node \<Rightarrow> bool" where
  "node_ok N a i n \<longleftrightarrow>
     rn_id n = i \<and> peer_order N i (rn_peers n) \<and>
     rn_current_term n = p_cur a i \<and> rn_voted_for n = p_vote a i \<and> rn_log n = p_log a i \<and>
     rn_commit_index n = p_commit a i \<and> rn_last_applied n = p_commit a i \<and> role_ok N a i (rn_role n)"

definition ae_ok :: "node_id list \<Rightarrow> proto \<Rightarrow> node_id \<Rightarrow> append_entries_req \<Rightarrow> bool" where
  "ae_ok N a from r \<longleftrightarrow>
     h_leader a (ae_term r) = Some from \<and>
     segment (h_tlog a (ae_term r)) (ae_prev_log_index r) (ae_entries r) \<and>
     term_at (h_tlog a (ae_term r)) (ae_prev_log_index r) = Some (ae_prev_log_term r) \<and>
     settled (quorum_of N) a (ae_term r) (h_tlog a (ae_term r)) (ae_leader_commit r) \<and>
     ae_leader_commit r \<le> ae_prev_log_index r + length (ae_entries r)"

fun msg_body_ok :: "node_id list \<Rightarrow> proto \<Rightarrow> node_id \<Rightarrow> node_id \<Rightarrow> message \<Rightarrow> bool" where
  "msg_body_ok N a from to (RequestVote r) =
     (rv_candidate_id r = from \<and>
      (from, rv_term r, (rv_last_log_term r, rv_last_log_index r)) \<in> h_reqs a)"
| "msg_body_ok N a from to (RequestVoteResp r) =
     (rvr_vote_granted r \<longrightarrow> (\<exists>x l. h_votes a from (rvr_term r) = Some (to, x, l)))"
| "msg_body_ok N a from to (AppendEntries r) = ae_ok N a from r"
| "msg_body_ok N a from to (AppendEntriesResp r) =
     (aer_success r \<longrightarrow> acked a from (aer_term r) (aer_match_index r))"

definition msg_ok :: "node_id list \<Rightarrow> proto \<Rightarrow> node_id \<Rightarrow> node_id \<Rightarrow> message \<Rightarrow> bool" where
  "msg_ok N a from to m \<longleftrightarrow> from \<in> set N \<and> from \<noteq> to \<and> msg_body_ok N a from to m"

definition sim :: "node_id list \<Rightarrow> proto \<Rightarrow> cluster \<Rightarrow> bool" where
  "sim N a s \<longleftrightarrow>
     proto_inv (quorum_of N) a \<and>
     (\<forall>i \<in> set N. node_ok N a i (cl_node s i) \<and>
        cl_disk s i = \<lparr>d_hard = node_hard (cl_node s i), d_log = rn_log (cl_node s i)\<rparr> \<and>
        cl_applied s i = take (p_commit a i) (p_log a i)) \<and>
     (\<forall>(from, to, m) \<in> cl_net s. msg_ok N a from to m)"

subsection \<open>Moves of one node\<close>

definition moves :: "node_id list \<Rightarrow> node_id \<Rightarrow> proto \<Rightarrow> proto \<Rightarrow> bool" where
  "moves N i a b \<longleftrightarrow> (pstep (quorum_of N))\<^sup>*\<^sup>* a b \<and>
     (\<forall>j. j \<noteq> i \<longrightarrow> p_cur b j = p_cur a j \<and> p_vote b j = p_vote a j \<and> p_role b j = p_role a j \<and>
                     p_log b j = p_log a j \<and> p_commit b j = p_commit a j)"

lemma moves_refl [simp]: "moves N i a a"
  by (simp add: moves_def)

lemma moves_trans: "moves N i a b \<Longrightarrow> moves N i b c \<Longrightarrow> moves N i a c"
  unfolding moves_def by (auto intro: rtranclp_trans)

lemma moves_step:
  "pstep (quorum_of N) a b \<Longrightarrow>
   (\<And>j. j \<noteq> i \<Longrightarrow> p_cur b j = p_cur a j \<and> p_vote b j = p_vote a j \<and> p_role b j = p_role a j \<and>
                   p_log b j = p_log a j \<and> p_commit b j = p_commit a j) \<Longrightarrow> moves N i a b"
  by (simp add: moves_def)

lemma moves_inv: "moves N i a b \<Longrightarrow> proto_inv (quorum_of N) a \<Longrightarrow> proto_inv (quorum_of N) b"
  unfolding moves_def by (blast intro: maj.steps_proto_inv)

lemma moves_extends: "moves N i a b \<Longrightarrow> proto_inv (quorum_of N) a \<Longrightarrow> extends a b"
  unfolding moves_def by (blast intro: maj.steps_extends)

lemma segment_mono:
  assumes "segment L p es" and "take (length L) L' = L"
  shows "segment L' p es"
proof -
  have "length L \<le> length L'" using assms(2) by (metis length_take min.cobounded1)
  moreover have "take (length es) (drop p L') = take (length es) (drop p L)"
    using assms by (metis segment_def drop_take min.absorb1 take_take add_le_imp_le_diff add.commute)
  ultimately show ?thesis using assms(1) by (simp add: segment_def)
qed

lemma ae_ok_mono:
  assumes ext: "extends a b" and ok: "ae_ok N a from r"
  shows "ae_ok N b from r"
proof -
  let ?T = "ae_term r"
  have lead: "h_leader a ?T \<noteq> None" using ok by (simp add: ae_ok_def)
  have pre: "take (length (h_tlog a ?T)) (h_tlog b ?T) = h_tlog a ?T"
    using extends_tlog_take [OF ext lead order_refl] by simp
  have seg: "segment (h_tlog b ?T) (ae_prev_log_index r) (ae_entries r)"
    using segment_mono [OF _ pre] ok by (simp add: ae_ok_def)
  obtain es where es: "h_tlog b ?T = h_tlog a ?T @ es" using extends_tlog [OF ext lead] by blast
  have prev: "term_at (h_tlog b ?T) (ae_prev_log_index r) = Some (ae_prev_log_term r)"
    using ok by (cases "ae_prev_log_index r") (auto simp: ae_ok_def es nth_append split: if_splits)
  have set: "settled (quorum_of N) b ?T (h_tlog a ?T) (ae_leader_commit r)"
    using settled_mono [OF ext _ order_refl] ok by (simp add: ae_ok_def)
  then have "ae_leader_commit r \<le> length (h_tlog a ?T)" by (simp add: settled_def)
  then have "settled (quorum_of N) b ?T (h_tlog b ?T) (ae_leader_commit r)"
    using settled_take [OF set] es by simp
  with seg prev ok extends_leader [OF ext lead] show ?thesis by (simp add: ae_ok_def)
qed

lemma msg_ok_mono:
  assumes "extends a b" and "msg_ok N a from to m"
  shows "msg_ok N b from to m"
proof (cases m)
  case (RequestVote r)
  then show ?thesis using assms by (auto simp: msg_ok_def extends_def)
next
  case (RequestVoteResp r)
  then show ?thesis using assms extends_votes [OF assms(1)] by (fastforce simp: msg_ok_def)
next
  case (AppendEntries r)
  then show ?thesis using assms ae_ok_mono [OF assms(1)] by (simp add: msg_ok_def)
next
  case (AppendEntriesResp r)
  then show ?thesis using assms acked_mono [OF assms(1)] by (auto simp: msg_ok_def)
qed

lemma role_ok_other:
  assumes "extends a b" and "p_cur b j = p_cur a j" and "p_role b j = p_role a j" and "p_log b j = p_log a j"
    and "role_ok N a j r"
  shows "role_ok N b j r"
  using assms acked_mono [OF assms(1)] extends_votes [OF assms(1)]
  by (cases r) (auto, blast+)

lemma node_ok_other:
  "moves N i a b \<Longrightarrow> proto_inv (quorum_of N) a \<Longrightarrow> j \<noteq> i \<Longrightarrow> node_ok N a j n \<Longrightarrow> node_ok N b j n"
  using role_ok_other [OF moves_extends, where r = "rn_role n"]
  by (auto simp: node_ok_def moves_def)

subsection \<open>What a turn owes\<close>

text \<open>
  The obligations of one turn of node \<open>i\<close>: some moves of the protocol end in a state the new node
  matches, every message sent is true there, and the apply effects are the newly committed entries.
\<close>

definition turn_ok :: "node_id list \<Rightarrow> proto \<Rightarrow> node_id \<Rightarrow> raft_node \<Rightarrow> effect list \<Rightarrow> proto \<Rightarrow> bool" where
  "turn_ok N a i n effs b \<longleftrightarrow>
     moves N i a b \<and> node_ok N b i n \<and> (\<forall>(to, m) \<in> set (sends effs). msg_ok N b i to m) \<and>
     p_commit a i \<le> p_commit b i \<and>
     applies effs = take (p_commit b i - p_commit a i) (drop (p_commit a i) (p_log b i))"

lemma sends_simps [simp]:
  "sends [] = []" "sends (e # effs) = effect_send e @ sends effs" "sends (effs @ effs') = sends effs @ sends effs'"
  by (simp_all add: sends_def)

lemma applies_simps [simp]:
  "applies [] = []" "applies (e # effs) = effect_apply e @ applies effs"
  "applies (effs @ effs') = applies effs @ applies effs'"
  by (simp_all add: applies_def)

lemma applies_map [simp]: "applies (map Apply es) = es" "sends (map Apply es) = []"
  by (induction es) auto

lemma length_peers:
  assumes "distinct N" and "i \<in> set N" and "peer_order N i ps"
  shows "length ps + 1 = length N"
proof -
  have "length ps = card (set N - {i})" using assms(3) by (metis distinct_card peer_order_def)
  moreover have "length N = card (set N)" using assms(1) by (simp add: distinct_card)
  moreover have "0 < card (set N)" using assms(2) by (auto simp: card_gt_0_iff)
  ultimately show ?thesis using assms(2) by (simp add: card_Diff_singleton)
qed

lemma majority_quorum:
  assumes "distinct N" and "i \<in> set N" and "peer_order N i (rn_peers n)" and "Q \<subseteq> set N" and "majority n \<le> card Q"
  shows "quorum_of N Q"
  using assms length_peers [OF assms(1-3)]
  by (simp add: majority_of_def majority_def distinct_card)

lemma leader_facts:
  assumes "proto_inv qrm a" and "p_role a i = PLeader"
  shows "h_leader a (p_cur a i) = Some i" and "h_tlog a (p_cur a i) = p_log a i"
  using inv_leader_role [OF proto_invD(2) [OF assms(1)] assms(2)] by auto

lemma settled_commit: "proto_inv qrm a \<Longrightarrow> settled qrm a (p_cur a i) (p_log a i) (p_commit a i)"
  using proto_invD(5) by (simp add: inv_commit_def)

lemma commit_le_length: "proto_inv qrm a \<Longrightarrow> p_commit a i \<le> length (p_log a i)"
  using settled_commit by (auto simp: settled_def)

lemma append_for_sends:
  assumes inv: "proto_inv (quorum_of N) b" and ok: "node_ok N b i n" and lead: "is_leader (rn_role n)"
    and i: "i \<in> set N" "p \<noteq> i"
  shows "\<exists>r. append_for n p = Some (Send p (AppendEntries r)) \<and> msg_ok N b i p (AppendEntries r)"
proof -
  obtain ni mi where role: "rn_role n = Leader ni mi" using lead by (cases "rn_role n") auto
  then have pl: "p_role b i = PLeader"
    and ni: "\<And>k. ni p = Some k \<Longrightarrow> 1 \<le> k \<and> k \<le> length (p_log b i) + 1"
    using ok by (auto simp: node_ok_def)
  have log: "rn_log n = p_log b i" "rn_current_term n = p_cur b i" "rn_id n = i"
    "rn_commit_index n = p_commit b i" using ok by (simp_all add: node_ok_def)
  define next_i where "next_i = (case ni p of Some v \<Rightarrow> v | None \<Rightarrow> length (p_log b i) + 1)"
  have nx: "1 \<le> next_i" "next_i \<le> length (p_log b i) + 1"
    using ni by (auto simp: next_i_def split: option.split)
  then obtain k where k: "next_i = Suc k" "k \<le> length (p_log b i)" by (cases next_i) auto
  have es: "entries_from (p_log b i) next_i = drop k (p_log b i)"
    using k by (auto simp: entries_from_def last_index_def)
  define r where "r = \<lparr>ae_term = p_cur b i, ae_leader_id = i, ae_prev_log_index = k,
        ae_prev_log_term = (case term_at (p_log b i) k of Some t \<Rightarrow> t | None \<Rightarrow> 0),
        ae_entries = drop k (p_log b i), ae_leader_commit = p_commit b i\<rparr>"
  have "(case ni p of Some v \<Rightarrow> v | None \<Rightarrow> last_index (rn_log n) + 1) = Suc k"
    using k(1) unfolding next_i_def last_index_def log(1) .
  then have "append_for n p = Some (Send p (AppendEntries r))"
    unfolding append_for_def role Let_def role.case using log es k(1) by (simp add: r_def checked_sub_def)
  moreover have "ae_ok N b i r"
  proof -
    have "term_at (p_log b i) k \<noteq> None" using k(2) by (cases k) auto
    with leader_facts [OF inv pl] k settled_commit [OF inv] commit_le_length [OF inv, of i] show ?thesis
      by (auto simp: ae_ok_def r_def segment_def)
  qed
  ultimately show ?thesis using i by (auto simp: msg_ok_def)
qed

lemma those_map_Some: "(\<And>x. x \<in> set xs \<Longrightarrow> f x = Some (g x)) \<Longrightarrow> those (map f xs) = Some (map g xs)"
  by (induction xs) auto

lemma broadcast_sends:
  assumes inv: "proto_inv (quorum_of N) b" and ok: "node_ok N b i n" and lead: "is_leader (rn_role n)"
    and i: "i \<in> set N"
  shows "\<exists>effs. broadcast_append n = Some effs \<and> applies effs = [] \<and>
           (\<forall>(to, m) \<in> set (sends effs). msg_ok N b i to m)"
proof -
  have "\<exists>r. append_for n p = Some (Send p (AppendEntries r)) \<and> msg_ok N b i p (AppendEntries r)"
    if "p \<in> set (rn_peers n)" for p
    using append_for_sends [OF inv ok lead i] that ok by (auto simp: node_ok_def peer_order_def)
  then obtain r where r: "append_for n p = Some (Send p (AppendEntries (r p)))"
      "msg_ok N b i p (AppendEntries (r p))" if "p \<in> set (rn_peers n)" for p
    by metis
  have "broadcast_append n = Some (map (\<lambda>p. Send p (AppendEntries (r p))) (rn_peers n))"
    unfolding broadcast_append_def using r(1) by (intro those_map_Some)
  moreover have "sends (map (\<lambda>p. Send p (AppendEntries (r p))) ps) = map (\<lambda>p. (p, AppendEntries (r p))) ps"
    "applies (map (\<lambda>p. Send p (AppendEntries (r p))) ps) = []" for ps
    by (induction ps) auto
  ultimately show ?thesis using r(2) by auto
qed

subsection \<open>Elections\<close>

lemma node_ok_frame [simp]:
  "node_ok N a i (n\<lparr>rn_ticks_since_reset := k\<rparr>) = node_ok N a i n"
  "node_ok N a i (n\<lparr>rn_leader_hint := h\<rparr>) = node_ok N a i n"
  "node_ok N a i (n\<lparr>rn_election_timeout_ticks := k\<rparr>) = node_ok N a i n"
  by (simp_all add: node_ok_def)

lemma turn_ok_idle:
  assumes "moves N i a b" and "node_ok N b i n" and "p_commit b i = p_commit a i"
    and "\<forall>(to, m) \<in> set (sends effs). msg_ok N b i to m" and "applies effs = []"
  shows "turn_ok N a i n effs b"
  using assms by (simp add: turn_ok_def)

lemma turn_ok_after:
  assumes "moves N i a a1" and "p_commit a1 i = p_commit a i" and "sends e1 = []" and "applies e1 = []"
    and "turn_ok N a1 i n effs b"
  shows "turn_ok N a i n (e1 @ effs) b"
  using assms moves_trans [OF assms(1)] by (simp add: turn_ok_def)

lemma sends_msgs_mono:
  "extends a b \<Longrightarrow> \<forall>(to, m) \<in> S. msg_ok N a i to m \<Longrightarrow> \<forall>(to, m) \<in> S. msg_ok N b i to m"
  using msg_ok_mono by fastforce

lemma step_down_sim:
  assumes ok: "node_ok N a i n" and sd: "maybe_step_down n t = (n1, e1)"
  obtains b where "moves N i a b" and "node_ok N b i n1" and "p_commit b i = p_commit a i"
    and "p_log b i = p_log a i" and "sends e1 = []" and "applies e1 = []"
    and "rn_current_term n1 = max t (rn_current_term n)"
proof (cases "t \<le> rn_current_term n")
  case True
  with sd ok that [of a] show ?thesis by (simp add: maybe_step_down_def)
next
  case False
  let ?b = "a\<lparr>p_cur := (p_cur a)(i := t), p_vote := (p_vote a)(i := None), p_role := (p_role a)(i := PFollower)\<rparr>"
  have "pstep (quorum_of N) a ?b" using False ok by (intro adopt) (simp add: node_ok_def)
  then have "moves N i a ?b" by (rule moves_step) simp
  moreover have "n1 = n\<lparr>rn_current_term := t, rn_voted_for := None, rn_role := Follower, rn_ticks_since_reset := 0\<rparr>"
    "e1 = [Persist]" using sd False by (auto simp: maybe_step_down_def)
  ultimately show ?thesis using that [of ?b] ok False by (simp add: node_ok_def)
qed

lemma try_win_sim:
  assumes N: "distinct N" "i \<in> set N" and inv: "proto_inv (quorum_of N) a" and ok: "node_ok N a i n"
    and tw: "try_win n = Some (n', effs)"
  shows "\<exists>b. turn_ok N a i n' effs b"
proof (cases "is_candidate (rn_role n) \<and> majority n \<le> card (cand_votes (rn_role n))")
  case False
  then have "n' = n" "effs = []" using tw by (auto simp: try_win_def split: role.splits)
  with ok show ?thesis by (intro exI [of _ a] turn_ok_idle) simp_all
next
  case True
  then obtain V where role: "rn_role n = Candidate V" and maj: "majority n \<le> card V"
    by (cases "rn_role n") auto
  have cand: "p_role a i = PCandidate" and V: "V \<subseteq> set N"
    "\<forall>v \<in> V. \<exists>x l. h_votes a v (p_cur a i) = Some (i, x, l)"
    using ok role by (auto simp: node_ok_def)
  have q: "quorum_of N V" using majority_quorum [OF N _ V(1) maj] ok by (simp add: node_ok_def)
  let ?b = "a\<lparr>p_role := (p_role a)(i := PLeader), h_leader := (h_leader a)(p_cur a i := Some i),
              h_quorum := (h_quorum a)(p_cur a i := V), h_base := (h_base a)(p_cur a i := p_log a i),
              h_tlog := (h_tlog a)(p_cur a i := p_log a i)\<rparr>"
  have st: "pstep (quorum_of N) a ?b" by (rule win) (use cand q V(2) in simp_all)
  have mv: "moves N i a ?b" by (rule moves_step [OF st]) simp
  define n1 where "n1 = n\<lparr>rn_role := Leader (\<lambda>p. if p \<in> set (rn_peers n) then Some (last_index (rn_log n) + 1) else None)
                                       (\<lambda>p. if p \<in> set (rn_peers n) then Some 0 else None),
                     rn_leader_hint := Some (rn_id n), rn_ticks_since_reset := 0\<rparr>"
  have ok1: "node_ok N ?b i n1"
    using ok by (auto simp: node_ok_def n1_def last_index_def)
  obtain bc where bc: "broadcast_append n1 = Some bc" "applies bc = []"
      "\<forall>(to, m) \<in> set (sends bc). msg_ok N ?b i to m"
    using broadcast_sends [OF moves_inv [OF mv inv] ok1 _ N(2)] by (auto simp: n1_def)
  have "try_win n = map_option (Pair n1) (broadcast_append n1)"
  proof -
    have "\<not> card V < majority n" using maj by simp
    then show ?thesis
      unfolding try_win_def n1_def Let_def role role.case by (simp only: if_False)
  qed
  then have "n' = n1" "effs = bc" using tw bc(1) by simp_all
  with ok1 mv bc show ?thesis by (intro exI [of _ ?b] turn_ok_idle) simp_all
qed

lemma start_election_sim:
  assumes N: "distinct N" "i \<in> set N" and inv: "proto_inv (quorum_of N) a" and ok: "node_ok N a i n"
    and se: "start_election n = Some (n', effs)"
  shows "\<exists>b. turn_ok N a i n' effs b"
proof -
  let ?t = "p_cur a i + 1" and ?x = "last_of (p_log a i)"
  let ?b = "a\<lparr>p_cur := (p_cur a)(i := ?t), p_vote := (p_vote a)(i := Some i),
              p_role := (p_role a)(i := PCandidate),
              h_votes := (h_votes a)(i := (h_votes a i)(?t := Some (i, ?x, p_log a i))),
              h_reqs := insert (i, ?t, ?x) (h_reqs a)\<rparr>"
  have mv: "moves N i a ?b" by (rule moves_step [OF candidacy [OF refl refl]]) simp
  define n1 where "n1 = n\<lparr>rn_current_term := ?t, rn_voted_for := Some i, rn_role := Candidate {i},
                          rn_ticks_since_reset := 0, rn_leader_hint := None\<rparr>"
  have ok1: "node_ok N ?b i n1" using ok N by (simp add: node_ok_def n1_def)
  define req where "req = \<lparr>rv_term = ?t, rv_candidate_id = i,
                rv_last_log_index = last_index (p_log a i), rv_last_log_term = last_term (p_log a i)\<rparr>"
  obtain won where tw: "try_win n1 = Some (n', won)"
    and effs: "effs = [Persist] @ map (\<lambda>peer. Send peer (RequestVote req)) (rn_peers n) @ won"
    using se ok by (auto simp: start_election_def node_ok_def n1_def req_def Let_def split: bind_splits)
  obtain b where b: "turn_ok N ?b i n' won b"
    using try_win_sim [OF N moves_inv [OF mv inv] ok1 tw] by blast
  have snd: "sends (map (\<lambda>peer. Send peer (RequestVote req)) ps) = map (\<lambda>p. (p, RequestVote req)) ps"
    "applies (map (\<lambda>peer. Send peer (RequestVote req)) ps) = []" for ps
    by (induction ps) auto
  have "msg_ok N ?b i to (RequestVote req)" if "to \<in> set (rn_peers n)" for to
    using that N ok by (auto simp: msg_ok_def req_def last_of_def node_ok_def peer_order_def)
  moreover have mvb: "moves N i ?b b" using b unfolding turn_ok_def by blast
  moreover have "extends ?b b" by (rule moves_extends [OF mvb moves_inv [OF mv inv]])
  ultimately have "msg_ok N b i to (RequestVote req)" if "to \<in> set (rn_peers n)" for to
    using msg_ok_mono that by blast
  then have "turn_ok N a i n' effs b"
    using b moves_trans [OF mv] snd unfolding effs turn_ok_def by auto
  then show ?thesis by blast
qed

lemma on_tick_sim:
  assumes N: "distinct N" "i \<in> set N" and inv: "proto_inv (quorum_of N) a" and ok: "node_ok N a i n"
    and st: "on_tick n = Some (n', effs)"
  shows "\<exists>b. turn_ok N a i n' effs b"
proof -
  define n1 where "n1 = n\<lparr>rn_ticks_since_reset := rn_ticks_since_reset n + 1\<rparr>"
  have ok1: "node_ok N a i n1" using ok by (simp add: n1_def)
  have ok2: "node_ok N a i (n1\<lparr>rn_ticks_since_reset := 0\<rparr>)" using ok1 by simp
  consider "n' = n1" "effs = []" | "is_leader (rn_role n1)" "n' = n1\<lparr>rn_ticks_since_reset := 0\<rparr>"
      "broadcast_append (n1\<lparr>rn_ticks_since_reset := 0\<rparr>) = Some effs"
    | "start_election n1 = Some (n', effs)"
  proof -
    have "rn_ticks_since_reset n + 1 \<le> u32_max"
      by (rule ccontr) (use st in \<open>simp add: on_tick_def checked_add_def\<close>)
    then have eq: "on_tick n =
           (if is_leader (rn_role n1)
            then (if rn_ticks_since_reset n1 \<ge> HEARTBEAT_TICKS
                  then map_option (Pair (n1\<lparr>rn_ticks_since_reset := 0\<rparr>))
                         (broadcast_append (n1\<lparr>rn_ticks_since_reset := 0\<rparr>))
                  else Some (n1, []))
            else (if rn_ticks_since_reset n1 \<ge> rn_election_timeout_ticks n1
                  then start_election n1 else Some (n1, [])))"
      by (simp add: on_tick_def Let_def checked_add_def n1_def)
    consider (beat) "is_leader (rn_role n1)" "rn_ticks_since_reset n1 \<ge> HEARTBEAT_TICKS"
      | (expire) "\<not> is_leader (rn_role n1)" "rn_ticks_since_reset n1 \<ge> rn_election_timeout_ticks n1"
      | (quiet) "on_tick n = Some (n1, [])"
      unfolding eq by argo
    then show ?thesis
    proof cases
      case beat
      then have "map_option (Pair (n1\<lparr>rn_ticks_since_reset := 0\<rparr>))
                   (broadcast_append (n1\<lparr>rn_ticks_since_reset := 0\<rparr>)) = Some (n', effs)"
        using st unfolding eq by (simp only: if_True)
      then show ?thesis using that(2) beat(1) by auto
    next
      case expire
      then show ?thesis using that(3) st unfolding eq by (simp only: if_True if_False)
    next
      case quiet
      then show ?thesis using that(1) st by simp
    qed
  qed
  then show ?thesis
  proof cases
    case 1
    with ok1 show ?thesis by (intro exI [of _ a] turn_ok_idle) simp_all
  next
    case 2
    then show ?thesis
      using broadcast_sends [OF inv ok2 _ N(2)] ok2 by (intro exI [of _ a] turn_ok_idle) auto
  next
    case 3
    then show ?thesis by (rule start_election_sim [OF N inv ok1])
  qed
qed

lemma grant_sim:
  assumes inv: "proto_inv (quorum_of N) a" and ok: "node_ok N a i n"
    and req: "(c, rn_current_term n, x) \<in> h_reqs a" and "up_to_date x (last_of (rn_log n))"
    and vote: "rn_voted_for n = None \<or> rn_voted_for n = Some c"
  obtains b where "moves N i a b" and "node_ok N b i (n\<lparr>rn_voted_for := Some c\<rparr>)"
    and "p_commit b i = p_commit a i" and "\<exists>y l. h_votes b i (rn_current_term n) = Some (c, y, l)"
proof (cases "rn_voted_for n")
  case None
  let ?b = "a\<lparr>p_vote := (p_vote a)(i := Some c),
              h_votes := (h_votes a)(i := (h_votes a i)(p_cur a i := Some (c, x, p_log a i)))\<rparr>"
  have st: "pstep (quorum_of N) a ?b"
    by (rule grant) (use assms None in \<open>simp_all add: node_ok_def\<close>)
  have mv: "moves N i a ?b" by (rule moves_step [OF st]) simp
  have "role_ok N ?b i (rn_role n)"
    using role_ok_other [OF moves_extends [OF mv inv]] ok by (simp add: node_ok_def)
  then show ?thesis using that [of ?b] mv ok by (simp add: node_ok_def)
next
  case (Some d)
  then have "rn_voted_for n = Some c" using vote by simp
  moreover from this have "p_vote a i = Some c" using ok by (simp add: node_ok_def)
  then obtain y l where "h_votes a i (p_cur a i) = Some (c, y, l)"
    by (rule inv_votes_cast [OF proto_invD(1) [OF inv]])
  ultimately show ?thesis using that [of a] ok by (simp add: node_ok_def)
qed

lemma on_request_vote_sim:
  assumes N: "i \<in> set N" and inv: "proto_inv (quorum_of N) a" and ok: "node_ok N a i n"
    and msg: "msg_ok N a from i (RequestVote req)"
    and st: "on_request_vote n from req = Some (n', effs)"
  shows "\<exists>b. turn_ok N a i n' effs b"
proof -
  obtain n1 e1 where sd: "maybe_step_down n (rv_term req) = (n1, e1)" by force
  obtain a1 where a1: "moves N i a a1" "node_ok N a1 i n1" "p_commit a1 i = p_commit a i"
      "sends e1 = []" "applies e1 = []"
    using step_down_sim [OF ok sd] by blast
  note inv1 = moves_inv [OF a1(1) inv]
  let ?x = "(rv_last_log_term req, rv_last_log_index req)"
  define granted where "granted \<longleftrightarrow> rv_term req = rn_current_term n1 \<and>
      up_to_date ?x (last_term (rn_log n1), last_index (rn_log n1)) \<and>
      (rn_voted_for n1 = None \<or> rn_voted_for n1 = Some (rv_candidate_id req))"
  have msg1: "msg_ok N a1 from i (RequestVote req)"
    by (rule msg_ok_mono [OF moves_extends [OF a1(1) inv] msg])
  have from_ne: "from \<noteq> i" and cand: "rv_candidate_id req = from"
    and req: "(from, rv_term req, ?x) \<in> h_reqs a1"
    using msg1 by (auto simp: msg_ok_def)
  show ?thesis
  proof (cases granted)
    case False
    then have "n' = n1" "effs = e1 @ [Send from (RequestVoteResp \<lparr>rvr_term = rn_current_term n1, rvr_vote_granted = False\<rparr>)]"
      using st by (auto simp: on_request_vote_def sd granted_def Let_def)
    then show ?thesis
      using a1 N from_ne by (intro exI [of _ a1] turn_ok_idle) (auto simp: msg_ok_def)
  next
    case True
    have n': "n' = n1\<lparr>rn_voted_for := Some from, rn_ticks_since_reset := 0\<rparr>"
      and effs: "effs = e1 @ [Persist, Send from (RequestVoteResp \<lparr>rvr_term = rn_current_term n1, rvr_vote_granted = True\<rparr>)]"
      using st True cand by (auto simp: on_request_vote_def sd granted_def Let_def)
    have g: "(from, rn_current_term n1, ?x) \<in> h_reqs a1" "up_to_date ?x (last_of (rn_log n1))"
      "rn_voted_for n1 = None \<or> rn_voted_for n1 = Some from"
      using True req cand by (auto simp: granted_def last_of_def)
    obtain b where b: "moves N i a1 b" "node_ok N b i (n1\<lparr>rn_voted_for := Some from\<rparr>)"
        "p_commit b i = p_commit a1 i" "\<exists>y l. h_votes b i (rn_current_term n1) = Some (from, y, l)"
      using grant_sim [OF inv1 a1(2) g] by blast
    show ?thesis
      unfolding n' effs using a1 b N from_ne moves_trans [OF a1(1) b(1)]
      by (intro exI [of _ b] turn_ok_idle) (auto simp: msg_ok_def)
  qed
qed

lemma on_request_vote_resp_sim:
  assumes N: "distinct N" "i \<in> set N" and inv: "proto_inv (quorum_of N) a" and ok: "node_ok N a i n"
    and msg: "msg_ok N a from i (RequestVoteResp resp)"
    and st: "on_request_vote_resp n from resp = Some (n', effs)"
  shows "\<exists>b. turn_ok N a i n' effs b"
proof -
  obtain n1 e1 where sd: "maybe_step_down n (rvr_term resp) = (n1, e1)" by force
  obtain a1 where a1: "moves N i a a1" "node_ok N a1 i n1" "p_commit a1 i = p_commit a i"
      "sends e1 = []" "applies e1 = []"
    using step_down_sim [OF ok sd] by blast
  note inv1 = moves_inv [OF a1(1) inv]
  have idle: "turn_ok N a i n1 e1 a1" using a1 by (intro turn_ok_idle) simp_all
  show ?thesis
  proof (cases "is_candidate (rn_role n1) \<and> rvr_term resp = rn_current_term n1 \<and> rvr_vote_granted resp")
    case False
    then have "n' = n1" "effs = e1"
      using st by (auto simp: on_request_vote_resp_def sd split: role.splits if_splits)
    with idle show ?thesis by blast
  next
    case True
    then obtain V where role: "rn_role n1 = Candidate V" by (cases "rn_role n1") auto
    define n2 where "n2 = n1\<lparr>rn_role := Candidate (insert from V)\<rparr>"
    obtain won where tw: "try_win n2 = Some (n', won)" "effs = e1 @ won"
      using st True unfolding on_request_vote_resp_def sd n2_def Let_def prod.case role role.case
      by (auto split: bind_splits)
    have "msg_ok N a1 from i (RequestVoteResp resp)"
      by (rule msg_ok_mono [OF moves_extends [OF a1(1) inv] msg])
    then have "from \<in> set N" "\<exists>x l. h_votes a1 from (p_cur a1 i) = Some (i, x, l)"
      using True a1(2) by (auto simp: msg_ok_def node_ok_def)
    then have "node_ok N a1 i n2" using a1(2) role by (simp add: node_ok_def n2_def)
    from try_win_sim [OF N inv1 this tw(1)] obtain b where "turn_ok N a1 i n' won b" by blast
    then show ?thesis using turn_ok_after [OF a1(1,3-5)] tw(2) by blast
  qed
qed

subsection \<open>Commitment and proposals\<close>

lemma commit_sim:
  assumes inv: "proto_inv (quorum_of N) a" and ok: "node_ok N a i n"
    and set: "settled (quorum_of N) a (p_cur a i) (p_log a i) c" and "p_commit a i \<le> c"
    and adv: "advance_applied (n\<lparr>rn_commit_index := c\<rparr>) = (n', effs)"
  shows "turn_ok N a i n' effs (a\<lparr>p_commit := (p_commit a)(i := c)\<rparr>) \<and> sends effs = []"
proof -
  let ?b = "a\<lparr>p_commit := (p_commit a)(i := c)\<rparr>"
  have mv: "moves N i a ?b" by (rule moves_step [OF commit [OF refl set]]) simp
  have "c \<le> length (p_log a i)" using set by (simp add: settled_def)
  then have "advance_loop (p_log a i) (p_commit a i) c =
      (c, map Apply (take (c - p_commit a i) (drop (p_commit a i) (p_log a i))))"
    using assms(4) by (intro advance_loop_applies)
  then have n': "n' = n\<lparr>rn_commit_index := c, rn_last_applied := c\<rparr>"
    and effs: "effs = map Apply (take (c - p_commit a i) (drop (p_commit a i) (p_log a i)))"
    using adv ok by (simp_all add: advance_applied_def node_ok_def)
  have "role_ok N ?b i (rn_role n)"
    using role_ok_other [OF moves_extends [OF mv inv]] ok by (simp add: node_ok_def)
  then have "node_ok N ?b i n'" using ok by (simp add: node_ok_def n')
  with mv assms(4) show ?thesis unfolding effs by (simp add: turn_ok_def)
qed

lemma holders_quorum:
  assumes N: "distinct N" "i \<in> set N" and "peer_order N i (rn_peers n)" and "majority n \<le> holders n mi k"
  shows "quorum_of N (insert i {p \<in> set (rn_peers n). k \<le> (case mi p of Some m \<Rightarrow> m | None \<Rightarrow> 0)})"
    (is "quorum_of N (insert i ?H)")
proof -
  have "distinct (rn_peers n)" using assms(3) by (simp add: peer_order_def)
  then have "length (filter (\<lambda>p. (case mi p of Some m \<Rightarrow> m | None \<Rightarrow> 0) \<ge> k) (rn_peers n)) = card ?H"
    using distinct_card [OF distinct_filter] unfolding set_filter by metis
  moreover have "i \<notin> ?H" "finite ?H" using assms(3) by (auto simp: peer_order_def)
  ultimately have "majority n \<le> card (insert i ?H)"
    using assms(3,4) by (simp add: holders_def)
  then show ?thesis
    using N assms(3) by (intro majority_quorum [OF N assms(3)]) (auto simp: peer_order_def)
qed

lemma try_commit_sim:
  assumes N: "distinct N" "i \<in> set N" and inv: "proto_inv (quorum_of N) a" and ok: "node_ok N a i n"
    and tc: "try_commit n = (n', effs)"
  shows "\<exists>b. turn_ok N a i n' effs b \<and> sends effs = []"
proof -
  define k where "k = scan_commit n (lead_match_index (rn_role n)) (last_index (rn_log n))"
  show ?thesis
  proof (cases "is_leader (rn_role n) \<and> rn_commit_index n < k")
    case False
    then have "n' = n" "effs = []"
      using tc by (auto simp: try_commit_def k_def Let_def split: role.splits)
    with ok show ?thesis by (intro exI [of _ a]) (simp add: turn_ok_idle)
  next
    case True
    then obtain ni mi where role: "rn_role n = Leader ni mi" by (cases "rn_role n") auto
    have k: "p_commit a i < k" "k \<le> length (p_log a i)" "term_at (p_log a i) k = Some (p_cur a i)"
      "majority n \<le> holders n mi k"
      using scan_commit_cases [of n mi "last_index (rn_log n)"] True role ok
      by (auto simp: k_def node_ok_def last_index_def)
    have pl: "p_role a i = PLeader" and mi: "\<And>p m. mi p = Some m \<Longrightarrow> m = 0 \<or> acked a p (p_cur a i) m"
      using ok role by (auto simp: node_ok_def)
    note lead = leader_facts [OF inv pl]
    let ?a1 = "a\<lparr>h_acks := insert (i, p_cur a i, k) (h_acks a)\<rparr>"
    have mv: "moves N i a ?a1"
      by (rule moves_step, rule ack [where f = i]) (use lead k in simp_all)
    note inv1 = moves_inv [OF mv inv] and ext = moves_extends [OF mv inv]
    let ?Q = "insert i {p \<in> set (rn_peers n). k \<le> (case mi p of Some m \<Rightarrow> m | None \<Rightarrow> 0)}"
    have "quorum_of N ?Q" using holders_quorum [OF N _ k(4)] ok by (simp add: node_ok_def)
    moreover have "acked ?a1 p (p_cur a i) k" if pQ: "p \<in> ?Q" for p
    proof (cases "p = i")
      case True
      then show ?thesis by (auto simp: acked_def)
    next
      case False
      then obtain m where "mi p = Some m" "k \<le> m" using pQ k(1) by (auto split: option.splits)
      with mi [of p m] k(1) have "acked a p (p_cur a i) k" using acked_le by auto
      then show ?thesis by (rule acked_mono [OF ext])
    qed
    ultimately have "chosen (quorum_of N) ?a1 (p_cur a i) k"
      using lead k by (auto simp: chosen_def)
    then have "settled (quorum_of N) ?a1 (p_cur ?a1 i) (p_log ?a1 i) k"
      unfolding settled_def using lead k(2)
      by (intro conjI disjI2 exI [of _ "p_cur a i"] exI [of _ k]) simp_all
    moreover have "node_ok N ?a1 i n"
      using role_ok_other [OF ext, of i N "rn_role n"] ok by (simp add: node_ok_def)
    moreover have "advance_applied (n\<lparr>rn_commit_index := k\<rparr>) = (n', effs)"
      using tc True role by (simp add: try_commit_def k_def Let_def)
    ultimately have "turn_ok N ?a1 i n' effs (?a1\<lparr>p_commit := (p_commit ?a1)(i := k)\<rparr>) \<and> sends effs = []"
      using k(1) by (intro commit_sim [OF inv1]) simp_all
    then show ?thesis
      using turn_ok_after [OF mv _ _ _, of "[]"] by auto
  qed
qed

lemma on_propose_sim:
  assumes N: "distinct N" "i \<in> set N" and inv: "proto_inv (quorum_of N) a" and ok: "node_ok N a i n"
    and st: "on_propose n cmd = Some (n', effs)"
  shows "\<exists>b. turn_ok N a i n' effs b"
proof (cases "is_leader (rn_role n)")
  case False
  then have "n' = n" "effs = [ProposeRejected (rn_leader_hint n)]" using st by (auto simp: on_propose_def)
  with ok show ?thesis by (intro exI [of _ a] turn_ok_idle) simp_all
next
  case True
  then obtain ni mi where role: "rn_role n = Leader ni mi" by (cases "rn_role n") auto
  have pl: "p_role a i = PLeader" using ok role by (simp add: node_ok_def)
  define e where "e = \<lparr>le_term = p_cur a i, le_index = length (p_log a i) + 1, le_command = cmd\<rparr>"
  define n1 where "n1 = n\<lparr>rn_log := p_log a i @ [e]\<rparr>"
  let ?a1 = "a\<lparr>p_log := (p_log a)(i := p_log a i @ [e]), h_tlog := (h_tlog a)(p_cur a i := p_log a i @ [e])\<rparr>"
  have mv: "moves N i a ?a1"
    by (rule moves_step, rule propose [where c = i]) (use pl in \<open>simp_all add: e_def\<close>)
  note inv1 = moves_inv [OF mv inv] and ext = moves_extends [OF mv inv]
  have ok1: "node_ok N ?a1 i n1"
    using ok role acked_mono [OF ext] by (fastforce simp: node_ok_def n1_def)
  obtain bc where bc: "broadcast_append n1 = Some bc" "applies bc = []"
      "\<forall>(to, m) \<in> set (sends bc). msg_ok N ?a1 i to m"
    using broadcast_sends [OF inv1 ok1 _ N(2)] True by (auto simp: n1_def)
  obtain n2 ap where tc: "try_commit n1 = (n2, ap)" by force
  obtain b where b: "turn_ok N ?a1 i n2 ap b" "sends ap = []"
    using try_commit_sim [OF N inv1 ok1 tc] by blast
  have "log_append (rn_log n) (rn_current_term n) cmd = (p_log a i @ [e], length (p_log a i) + 1)"
    "log_get (p_log a i @ [e]) (length (p_log a i) + 1) = Some e"
    using ok by (simp_all add: node_ok_def log_append_def e_def last_index_def log_get_def)
  then have "on_propose n cmd = Some (n2, [PersistEntries [e]] @ bc @ ap)"
    using True tc bc(1) by (simp add: on_propose_def n1_def)
  then have "n' = n2" and effs: "effs = [PersistEntries [e]] @ bc @ ap" using st by simp_all
  have "extends ?a1 b" using b(1) moves_extends [OF _ inv1] unfolding turn_ok_def by blast
  then have "\<forall>(to, m) \<in> set (sends effs). msg_ok N b i to m"
    using sends_msgs_mono [OF _ bc(3)] b(2) unfolding effs by simp
  with b(1) moves_trans [OF mv] bc(2) \<open>n' = n2\<close> have "turn_ok N a i n' effs b"
    unfolding effs by (simp add: turn_ok_def)
  then show ?thesis by blast
qed

lemma on_append_entries_resp_sim:
  assumes N: "distinct N" "i \<in> set N" and inv: "proto_inv (quorum_of N) a" and ok: "node_ok N a i n"
    and msg: "msg_ok N a from i (AppendEntriesResp resp)"
    and st: "on_append_entries_resp n from resp = Some (n', effs)"
  shows "\<exists>b. turn_ok N a i n' effs b"
proof -
  obtain n1 e1 where sd: "maybe_step_down n (aer_term resp) = (n1, e1)" by force
  obtain a1 where a1: "moves N i a a1" "node_ok N a1 i n1" "p_commit a1 i = p_commit a i"
      "sends e1 = []" "applies e1 = []" "rn_current_term n1 = max (aer_term resp) (rn_current_term n)"
    using step_down_sim [OF ok sd] by blast
  note inv1 = moves_inv [OF a1(1) inv]
  have idle: "turn_ok N a i n1 e1 a1" using a1 by (intro turn_ok_idle) simp_all
  show ?thesis
  proof (cases "is_leader (rn_role n1) \<and> \<not> aer_term resp < rn_current_term n1")
    case False
    then have "n' = n1" "effs = e1"
      using st by (auto simp: on_append_entries_resp_def sd split: role.splits if_splits)
    with idle show ?thesis by blast
  next
    case True
    then obtain ni mi where role: "rn_role n1 = Leader ni mi" by (cases "rn_role n1") auto
    have cur: "\<not> aer_term resp < rn_current_term n1" "aer_term resp = p_cur a1 i"
      using True a1(2,6) by (auto simp: node_ok_def)
    have pl: "p_role a1 i = PLeader" using a1(2) role by (simp add: node_ok_def)
    have log: "length (p_log a1 i) = length (h_tlog a1 (p_cur a1 i))"
      using leader_facts [OF inv1 pl] by simp
    have "msg_ok N a1 from i (AppendEntriesResp resp)"
      by (rule msg_ok_mono [OF moves_extends [OF a1(1) inv] msg])
    then have from_ne: "from \<noteq> i"
      and ackd: "aer_success resp \<Longrightarrow> acked a1 from (p_cur a1 i) (aer_match_index resp)"
      using cur by (auto simp: msg_ok_def)
    show ?thesis
    proof (cases "aer_success resp")
      case True
      define m where "m = max (case mi from of Some v \<Rightarrow> v | None \<Rightarrow> 0) (aer_match_index resp)"
      define n2 where "n2 = n1\<lparr>rn_role := Leader (ni(from \<mapsto> m + 1)) (mi(from \<mapsto> m))\<rparr>"
      have "m = aer_match_index resp \<or> mi from = Some m"
        by (auto simp: m_def max_def split: option.splits)
      then have acm: "m = 0 \<or> acked a1 from (p_cur a1 i) m"
        using ackd [OF True] a1(2) role by (auto simp: node_ok_def)
      then have "m \<le> length (p_log a1 i)"
        using inv_acksD(3) [OF proto_invD(4) [OF inv1]] log by auto
      then have ok2: "node_ok N a1 i n2" using a1(2) role acm by (auto simp: node_ok_def n2_def)
      obtain n3 ap where tc: "try_commit n2 = (n3, ap)" by force
      then have "n' = n3" "effs = e1 @ ap"
        using st cur(1) True unfolding on_append_entries_resp_def sd Let_def prod.case role role.case
        by (auto simp: n2_def m_def split: bind_splits)
      moreover obtain b where "turn_ok N a1 i n3 ap b"
        using try_commit_sim [OF N inv1 ok2 tc] by blast
      ultimately show ?thesis using turn_ok_after [OF a1(1,3-5)] by blast
    next
      case False
      define k where "k = max ((case ni from of Some v \<Rightarrow> v | None \<Rightarrow> 2) - 1) 1"
      define n2 where "n2 = n1\<lparr>rn_role := Leader (ni(from \<mapsto> k)) mi\<rparr>"
      have k: "1 \<le> k" "k \<le> length (p_log a1 i) + 1"
        using a1(2) role by (auto simp: k_def node_ok_def split: option.splits) fastforce
      have ok2: "node_ok N a1 i n2" using a1(2) role k by (auto simp: node_ok_def n2_def)
      obtain r where r: "append_for n2 from = Some (Send from (AppendEntries r))"
          "msg_ok N a1 i from (AppendEntries r)"
        using append_for_sends [OF inv1 ok2 _ N(2) from_ne] by (auto simp: n2_def)
      have "n' = n2" "effs = e1 @ [Send from (AppendEntries r)]"
        using st cur(1) False r(1) unfolding on_append_entries_resp_def sd Let_def prod.case role role.case
        by (auto simp: n2_def k_def split: bind_splits)
      with a1 ok2 r(2) show ?thesis by (intro exI [of _ a1] turn_ok_idle) simp_all
    qed
  qed
qed

subsection \<open>Replication\<close>

lemma matches_agree:
  "matches_leaders s l \<Longrightarrow> matches_leaders s l' \<Longrightarrow> k < length l \<Longrightarrow> k < length l' \<Longrightarrow>
   le_term (l ! k) = le_term (l' ! k) \<Longrightarrow> take (Suc k) l = take (Suc k) l'"
  unfolding matches_leaders_def by metis

lemma prev_agrees:
  assumes "matches_leaders s l" and "matches_leaders s l'"
    and "term_at l p = Some t" and "term_at l' p = Some t"
  shows "p \<le> length l \<and> take p l = take p l'"
  using assms matches_agree [OF assms(1,2)] by (cases p) (auto split: if_splits)

text \<open>Only the log of node \<open>i\<close> (and the acknowledgements) changed.\<close>

definition log_moves :: "node_id list \<Rightarrow> node_id \<Rightarrow> proto \<Rightarrow> proto \<Rightarrow> bool" where
  "log_moves N i a b \<longleftrightarrow> moves N i a b \<and> p_cur b i = p_cur a i \<and> p_vote b i = p_vote a i \<and>
     p_role b i = p_role a i \<and> p_commit b i = p_commit a i \<and> h_leader b = h_leader a \<and> h_tlog b = h_tlog a"

lemma log_moves_refl [simp]: "log_moves N i a a"
  by (simp add: log_moves_def)

lemma log_moves_trans: "log_moves N i a b \<Longrightarrow> log_moves N i b c \<Longrightarrow> log_moves N i a c"
  unfolding log_moves_def by (auto intro: moves_trans)

lemma extend_sim:
  assumes "p_role a i = PFollower" and "h_leader a (p_cur a i) \<noteq> None"
    and "p_log a i = take k (h_tlog a (p_cur a i))" and "k \<le> k'"
  shows "log_moves N i a (a\<lparr>p_log := (p_log a)(i := take k' (h_tlog a (p_cur a i)))\<rparr>)"
proof -
  have "pstep (quorum_of N) a (a\<lparr>p_log := (p_log a)(i := take k' (h_tlog a (p_cur a i)))\<rparr>)"
    using assms by (intro extend) simp_all
  then show ?thesis by (simp add: log_moves_def moves_step)
qed

lemma ack_sim:
  assumes "h_leader a (p_cur a i) \<noteq> None" and "m \<le> length (h_tlog a (p_cur a i))"
    and "take m (p_log a i) = take m (h_tlog a (p_cur a i))"
  shows "log_moves N i a (a\<lparr>h_acks := insert (i, p_cur a i, m) (h_acks a)\<rparr>)"
proof -
  have "pstep (quorum_of N) a (a\<lparr>h_acks := insert (i, p_cur a i, m) (h_acks a)\<rparr>)"
    using assms by (intro ack) simp_all
  then show ?thesis by (simp add: log_moves_def moves_step)
qed

lemma truncate_sim:
  assumes "p_role a i = PFollower" and "h_leader a (p_cur a i) \<noteq> None"
    and "take j (p_log a i) = take j (h_tlog a (p_cur a i))" and "j < length (p_log a i)"
    and "j < length (h_tlog a (p_cur a i))" and "le_term (p_log a i ! j) \<noteq> le_term (h_tlog a (p_cur a i) ! j)"
  shows "log_moves N i a (a\<lparr>p_log := (p_log a)(i := take j (p_log a i))\<rparr>)"
proof -
  have "pstep (quorum_of N) a (a\<lparr>p_log := (p_log a)(i := take j (p_log a i))\<rparr>)"
    using assms by (intro truncate) simp_all
  then show ?thesis by (simp add: log_moves_def moves_step)
qed

lemma segment_rest:
  assumes "segment L p es" and "p \<le> j" and "j \<le> p + length es"
  shows "take j L @ drop (j - p) es = take (p + length es) L"
proof -
  have es: "es = take (length es) (drop p L)" using assms(1) by (simp add: segment_def)
  have "drop (j - p) es = take (length es - (j - p)) (drop j L)"
    using assms(2) by (subst es) (simp add: drop_take)
  moreover have "p + length es = j + (length es - (j - p))" using assms by simp
  ultimately show ?thesis by (simp only: take_add)
qed

text \<open>
  The merge loop in protocol terms: an optional truncation at the first conflict, then an
  extension along the leader's log; a node that keeps its log is already in line with it.
\<close>

lemma merge_sim:
  assumes inv: "proto_inv (quorum_of N) a" and fol: "p_role a i = PFollower"
    and lead: "h_leader a (p_cur a i) \<noteq> None" and seg: "segment (h_tlog a (p_cur a i)) p es"
    and prev: "term_at (p_log a i) p = Some t" "term_at (h_tlog a (p_cur a i)) p = Some t"
    and mg: "merge_entries (p_log a i) es = (l, tr, ta)"
  shows "\<exists>b1 b2. log_moves N i a b1 \<and> log_moves N i b1 b2 \<and> p_log b1 i = l \<and> p_log b2 i = l @ ta \<and>
           take (p + length es) (l @ ta) = take (p + length es) (h_tlog a (p_cur a i)) \<and>
           p + length es \<le> length (l @ ta) \<and> length tr \<le> 1"
proof -
  let ?L = "h_tlog a (p_cur a i)" and ?l = "p_log a i"
  have ml: "matches_leaders a ?l" using inv_logsD(1) [OF proto_invD(3) [OF inv]] .
  have mL: "matches_leaders a ?L" using inv_leader_tlog [OF proto_invD(2) [OF inv] lead] by blast
  have idx: "indexed ?L" using mL by (simp add: matches_leaders_def)
  have pa: "p \<le> length ?l" "take p ?l = take p ?L" using prev_agrees [OF ml mL prev] by auto
  have len: "p + length es \<le> length ?L" using seg by (simp add: segment_def)
  show ?thesis
  proof (rule merge_entries_cases [OF seg idx pa matches_agree [OF ml mL]])
    assume c: "merge_entries ?l es = (?l, [], [])" "p + length es \<le> length ?l"
      "take (p + length es) ?l = take (p + length es) ?L"
    with mg show ?thesis by (intro exI [of _ a]) simp
  next
    assume c: "p \<le> length ?l" "length ?l < p + length es" "?l = take (length ?l) ?L"
      "merge_entries ?l es = (?l, [], drop (length ?l - p) es)"
    then have new: "l @ ta = take (p + length es) ?L" "l = ?l"
      using mg segment_rest [OF seg c(1)] by simp_all
    let ?b = "a\<lparr>p_log := (p_log a)(i := take (p + length es) ?L)\<rparr>"
    have mv: "log_moves N i a ?b"
      using c by (intro extend_sim [OF fol lead, of "length ?l"]) simp_all
    show ?thesis by (rule exI [of _ a], rule exI [of _ ?b]) (use mv new len mg c(4) in simp)
  next
    fix j
    assume c: "p \<le> j" "j < p + length es" "j < length ?l" "take j ?l = take j ?L"
      "le_term (?l ! j) \<noteq> le_term (?L ! j)"
      "merge_entries ?l es = (take j ?l, [PersistTruncate (Suc j)], drop (j - p) es)"
    then have new: "l = take j ?l" "l @ ta = take (p + length es) ?L"
      using mg segment_rest [OF seg c(1)] by simp_all
    let ?b = "a\<lparr>p_log := (p_log a)(i := take j ?l)\<rparr>"
    let ?c = "a\<lparr>p_log := (p_log a)(i := take (p + length es) ?L)\<rparr>"
    have mb: "log_moves N i a ?b" using c len by (intro truncate_sim [OF fol lead]) simp_all
    have mc: "log_moves N i ?b ?c"
      using extend_sim [of ?b i j "p + length es" N] c fol lead by simp
    have tr: "length tr \<le> 1" using mg c(6) by auto
    show ?thesis by (rule exI [of _ ?b], rule exI [of _ ?c]) (use mb mc new len tr in simp)
  qed
qed

text \<open>
  Handling an \<open>AppendEntries\<close> of the current term: the protocol passes through the states the disk passes
  through, \<open>b0\<close> after the term is adopted, \<open>b1\<close> after the truncation, \<open>b2\<close> after the extension.
\<close>

lemma demote_sim:
  assumes inv: "proto_inv (quorum_of N) a" and ok: "node_ok N a i n" and fol: "\<not> is_leader (rn_role n)"
  obtains b where "moves N i a b" and "node_ok N b i (n\<lparr>rn_role := Follower\<rparr>)"
    and "p_commit b i = p_commit a i" and "h_leader b = h_leader a" and "h_tlog b = h_tlog a"
proof -
  let ?b = "a\<lparr>p_role := (p_role a)(i := PFollower), p_commit := (p_commit a)(i := p_commit a i)\<rparr>"
  have "pstep (quorum_of N) a ?b" by (rule demote) simp
  then have "moves N i a ?b" by (rule moves_step) simp
  then show ?thesis using that [of ?b] ok by (simp add: node_ok_def)
qed

definition log_stages :: "node_id list \<Rightarrow> node_id \<Rightarrow> raft_node \<Rightarrow> proto \<Rightarrow> raft_log list \<Rightarrow> bool" where
  "log_stages N i n a ls \<longleftrightarrow>
     (\<forall>l \<in> set ls. \<exists>b. moves N i a b \<and> p_cur b i = rn_current_term n \<and> p_vote b i = rn_voted_for n \<and> p_log b i = l)"

lemma ae_accept_sim:
  assumes N: "i \<in> set N" and inv: "proto_inv (quorum_of N) a" and ok: "node_ok N a i n"
    and role: "rn_role n = Follower" and ae: "ae_ok N a from req" and from_ne: "from \<noteq> i"
    and cur: "ae_term req = rn_current_term n"
    and prev: "term_at (rn_log n) (ae_prev_log_index req) = Some (ae_prev_log_term req)"
    and mg: "merge_entries (rn_log n) (ae_entries req) = (l, tr, ta)"
    and adv: "(if ae_leader_commit req > rn_commit_index n
               then advance_applied (n\<lparr>rn_log := l @ ta,
                      rn_commit_index := min (ae_leader_commit req) (last_index (l @ ta))\<rparr>)
               else (n\<lparr>rn_log := l @ ta\<rparr>, [])) = (n', ap)"
  shows "log_stages N i n' a [l, l @ ta] \<and> length tr \<le> 1 \<and>
         (\<exists>b. turn_ok N a i n' (ap @ [ae_reply from (rn_current_term n') True
                (ae_prev_log_index req + length (ae_entries req))]) b)"
proof -
  define T m where "T = p_cur a i" and "m = ae_prev_log_index req + length (ae_entries req)"
  have T: "ae_term req = T" "rn_current_term n = T" using cur ok by (simp_all add: T_def node_ok_def)
  have lead: "h_leader a T = Some from" and seg: "segment (h_tlog a T) (ae_prev_log_index req) (ae_entries req)"
    and pt: "term_at (h_tlog a T) (ae_prev_log_index req) = Some (ae_prev_log_term req)"
    and lc: "settled (quorum_of N) a T (h_tlog a T) (ae_leader_commit req)" "ae_leader_commit req \<le> m"
    using ae T by (simp_all add: ae_ok_def m_def)
  have fol: "p_role a i = PFollower" and logn: "rn_log n = p_log a i" "rn_voted_for n = p_vote a i"
    using ok role by (simp_all add: node_ok_def)
  obtain b1 b2 where b: "log_moves N i a b1" "log_moves N i b1 b2" "p_log b1 i = l" "p_log b2 i = l @ ta"
      "take m (l @ ta) = take m (h_tlog a T)" "m \<le> length (l @ ta)" "length tr \<le> 1"
    using merge_sim [OF inv fol, folded T_def, of "ae_prev_log_index req"] lead seg prev pt mg logn
    unfolding m_def by (metis option.distinct(1))
  have b2: "log_moves N i a b2" using b(1,2) by (rule log_moves_trans)
  have mle: "m \<le> length (h_tlog a T)" using seg by (simp add: segment_def m_def)
  let ?b3 = "b2\<lparr>h_acks := insert (i, p_cur b2 i, m) (h_acks b2)\<rparr>"
  have "log_moves N i b2 ?b3"
    using b2 b lead mle by (intro ack_sim) (simp_all add: log_moves_def T_def)
  with b2 have b3: "log_moves N i a ?b3" by (rule log_moves_trans)
  then have mv3: "moves N i a ?b3" and cur3: "p_cur ?b3 i = T"
    unfolding log_moves_def T_def by blast+
  note inv3 = moves_inv [OF mv3 inv] and ext3 = moves_extends [OF mv3 inv]
  have ok3: "node_ok N ?b3 i (n\<lparr>rn_log := l @ ta\<rparr>)"
    using ok role b3 b(4) by (simp add: node_ok_def log_moves_def)
  have n': "rn_current_term n' = T" "rn_voted_for n' = rn_voted_for n"
    using adv T by (auto simp: advance_applied_def case_prod_beta split: if_splits)
  have "log_stages N i n' a [l, l @ ta]"
    using b(1,3,4) b2 n' T_def logn(2) by (auto simp: log_stages_def log_moves_def)
  moreover have "\<exists>c. turn_ok N a i n' ap c \<and> sends ap = [] \<and> acked c i T m"
  proof (cases "ae_leader_commit req > rn_commit_index n")
    case False
    then have "n' = n\<lparr>rn_log := l @ ta\<rparr>" "ap = []" using adv by auto
    moreover have "acked ?b3 i T m" using b2 by (auto simp: acked_def log_moves_def T_def)
    ultimately show ?thesis
      using mv3 ok3 b3 by (intro exI [of _ ?b3]) (simp add: turn_ok_idle log_moves_def)
  next
    case True
    have c: "min (ae_leader_commit req) (last_index (l @ ta)) = ae_leader_commit req"
      using lc(2) b(6) by (simp add: last_index_def)
    have "take (ae_leader_commit req) (l @ ta) = take (ae_leader_commit req) (h_tlog a T)"
      using b(5) lc(2) by (rule maj.take_agree_le)
    then have "settled (quorum_of N) ?b3 T (l @ ta) (ae_leader_commit req)"
      using settled_take [OF settled_mono [OF ext3 lc(1) order_refl]] lc(2) b(6) by simp
    then have set3: "settled (quorum_of N) ?b3 (p_cur ?b3 i) (p_log ?b3 i) (ae_leader_commit req)"
      using cur3 b(4) by simp
    have adv3: "advance_applied ((n\<lparr>rn_log := l @ ta\<rparr>)\<lparr>rn_commit_index := ae_leader_commit req\<rparr>) = (n', ap)"
      using adv True c by simp
    have cm: "p_commit ?b3 i = p_commit a i" using b3 by (simp add: log_moves_def)
    then have "p_commit ?b3 i \<le> ae_leader_commit req" using True ok by (simp add: node_ok_def)
    from commit_sim [OF inv3 ok3 set3 this adv3]
    have t: "turn_ok N ?b3 i n' ap (?b3\<lparr>p_commit := (p_commit ?b3)(i := ae_leader_commit req)\<rparr>)"
      and "sends ap = []" by blast+
    moreover have "turn_ok N a i n' ([] @ ap) (?b3\<lparr>p_commit := (p_commit ?b3)(i := ae_leader_commit req)\<rparr>)"
      by (rule turn_ok_after [OF mv3 cm _ _ t]) simp_all
    moreover have "acked (?b3\<lparr>p_commit := (p_commit ?b3)(i := ae_leader_commit req)\<rparr>) i T m"
      using b2 by (auto simp: acked_def log_moves_def T_def)
    ultimately show ?thesis by (metis append_Nil)
  qed
  then obtain c where c: "turn_ok N a i n' ap c" "sends ap = []" "acked c i T m" by blast
  moreover from c have "turn_ok N a i n' (ap @ [ae_reply from (rn_current_term n') True m]) c"
    using N from_ne n'(1) by (simp add: turn_ok_def ae_reply_def msg_ok_def)
  ultimately show ?thesis using b(7) unfolding m_def by blast
qed

definition stage_ok :: "node_id list \<Rightarrow> node_id \<Rightarrow> proto \<Rightarrow> durable \<Rightarrow> bool" where
  "stage_ok N i a d \<longleftrightarrow> (\<exists>b. moves N i a b \<and>
     d = \<lparr>d_hard = \<lparr>hs_current_term = p_cur b i, hs_voted_for = p_vote b i\<rparr>, d_log = p_log b i\<rparr>)"

lemma stage_node: "moves N i a b \<Longrightarrow> node_ok N b i n \<Longrightarrow> stage_ok N i a (synced n)"
  by (auto simp: stage_ok_def synced_def node_hard_def node_ok_def)

lemma take_short_pieces:
  assumes "length xs \<le> 1" and "length ys \<le> 1" and "length zs \<le> 1"
  shows "take j (xs @ ys @ zs) \<in> {[], xs, xs @ ys, xs @ ys @ zs}"
proof -
  have short: "take k us = [] \<or> take k us = us" if "length us \<le> 1" for k and us :: "'a list"
    using that by (cases us; cases k) auto
  show ?thesis
    using short [OF assms(1), of j] short [OF assms(2), of "j - length xs"]
      short [OF assms(3), of "j - length xs - length ys"]
    by (auto simp: take_append)
qed

lemma disk_ops_take: "\<exists>j. disk_ops n (take k effs) = take j (disk_ops n effs)"
proof -
  have "disk_ops n effs = disk_ops n (take k effs) @ disk_ops n (drop k effs)"
    by (metis append_take_drop_id disk_ops_simps(3))
  then show ?thesis by (metis append_eq_conv_conj)
qed

lemma stages_prefix:
  assumes "disk_ops n effs = xs @ ys @ zs" and "length xs \<le> 1" and "length ys \<le> 1" and "length zs \<le> 1"
    and "stage_ok N i a d" and "stage_ok N i a (fold durable_op xs d)"
    and "stage_ok N i a (fold durable_op (xs @ ys) d)" and "stage_ok N i a (fold durable_op (xs @ ys @ zs) d)"
  shows "stage_ok N i a (fold durable_op (disk_ops n (take k effs)) d)"
proof -
  obtain j where "disk_ops n (take k effs) = take j (xs @ ys @ zs)"
    using disk_ops_take assms(1) by metis
  with take_short_pieces [OF assms(2-4), of j]
  consider "disk_ops n (take k effs) = []" | "disk_ops n (take k effs) = xs"
    | "disk_ops n (take k effs) = xs @ ys" | "disk_ops n (take k effs) = xs @ ys @ zs" by auto
  then show ?thesis using assms(5-8) by cases simp_all
qed

lemma stage_of_log:
  "log_stages N i n b ls \<Longrightarrow> l \<in> set ls \<Longrightarrow> moves N i a b \<Longrightarrow> stage_ok N i a \<lparr>d_hard = node_hard n, d_log = l\<rparr>"
  unfolding log_stages_def stage_ok_def node_hard_def by (metis moves_trans)

lemma log_indexed: "proto_inv qrm a \<Longrightarrow> indexed (p_log a i)"
  using inv_logsD(1) [OF proto_invD(3)] by (auto simp: matches_leaders_def)

lemma log_stages_indexed:
  "proto_inv (quorum_of N) b \<Longrightarrow> log_stages N i n b ls \<Longrightarrow> l \<in> set ls \<Longrightarrow> indexed l"
  unfolding log_stages_def by (metis log_indexed moves_inv)

lemma on_append_entries_sim:
  assumes N: "i \<in> set N" and inv: "proto_inv (quorum_of N) a" and ok: "node_ok N a i n"
    and msg: "msg_ok N a from i (AppendEntries req)"
    and st: "on_append_entries n from req = Some (n', effs)"
  shows "(\<exists>b. turn_ok N a i n' effs b) \<and>
         (\<forall>k. stage_ok N i a (fold durable_op (disk_ops n' (take k effs)) (synced n)))"
proof -
  obtain n1 e1 where sd: "maybe_step_down n (ae_term req) = (n1, e1)" by force
  obtain a1 where a1: "moves N i a a1" "node_ok N a1 i n1" "p_commit a1 i = p_commit a i"
      "p_log a1 i = p_log a i" "sends e1 = []" "applies e1 = []"
      "rn_current_term n1 = max (ae_term req) (rn_current_term n)"
    using step_down_sim [OF ok sd] by blast
  note inv1 = moves_inv [OF a1(1) inv]
  have msg1: "msg_ok N a1 from i (AppendEntries req)"
    by (rule msg_ok_mono [OF moves_extends [OF a1(1) inv] msg])
  then have from_ne: "from \<noteq> i" and ae: "ae_ok N a1 from req" by (auto simp: msg_ok_def)
  have e1: "length (disk_ops m e1) \<le> 1" for m
    using sd by (auto simp: maybe_step_down_def split: if_splits)
  have s0: "stage_ok N i a (synced n)" by (rule stage_node [OF moves_refl ok])
  have s1: "stage_ok N i a (synced n1)" by (rule stage_node [OF a1(1,2)])
  have neg: "turn_ok N a i m (e1 @ [ae_reply from t False 0]) b \<and>
      (\<forall>k. stage_ok N i a (fold durable_op (disk_ops m (take k (e1 @ [ae_reply from t False 0]))) (synced n)))"
    if "node_ok N b i m" "moves N i a b" "p_commit b i = p_commit a i" "node_hard m = node_hard n1" for m t b
  proof
    show "turn_ok N a i m (e1 @ [ae_reply from t False 0]) b"
      using that a1(5,6) N from_ne by (intro turn_ok_idle) (simp_all add: ae_reply_def msg_ok_def)
    have "disk_ops m (e1 @ [ae_reply from t False 0]) = disk_ops n1 e1"
      using disk_ops_hard [OF that(4)] by (simp add: ae_reply_def)
    then have ops: "disk_ops m (e1 @ [ae_reply from t False 0]) = disk_ops n1 e1 @ [] @ []" by simp
    show "\<forall>k. stage_ok N i a (fold durable_op (disk_ops m (take k (e1 @ [ae_reply from t False 0]))) (synced n))"
      using e1 s0 s1 step_down_disk [OF sd] by (intro allI stages_prefix [OF ops]) simp_all
  qed
  have not_lead: "\<not> is_leader (rn_role n1)" if "\<not> ae_term req < rn_current_term n1"
  proof
    assume "is_leader (rn_role n1)"
    then have "p_role a1 i = PLeader" using a1(2) by (cases "rn_role n1") (auto simp: node_ok_def)
    moreover have "p_cur a1 i = ae_term req" using that a1(2,7) by (simp add: node_ok_def)
    ultimately show False using leader_facts(1) [OF inv1, of i] ae from_ne by (simp add: ae_ok_def)
  qed
  from st sd show ?thesis
  proof (cases rule: on_append_entries_cases)
    case stale
    then show ?thesis using neg [OF a1(2,1,3) refl] by blast
  next
    case (mismatch n2)
    then have fol: "n2 = n1\<lparr>rn_role := Follower, rn_ticks_since_reset := 0, rn_leader_hint := Some (ae_leader_id req)\<rparr>"
      using not_lead by (cases "rn_role n1") auto
    obtain b where b: "moves N i a1 b" "node_ok N b i (n1\<lparr>rn_role := Follower\<rparr>)" "p_commit b i = p_commit a1 i"
      using demote_sim [OF inv1 a1(2) not_lead [OF mismatch(1)]] by blast
    have "node_ok N b i n2" "node_hard n2 = node_hard n1" using b(2) by (simp_all add: fol node_hard_def)
    then show ?thesis
      using neg moves_trans [OF a1(1) b(1)] b(3) a1(3) mismatch(4,5) by metis
  next
    case (accept n2 l tr ta ap)
    then have fol: "n2 = n1\<lparr>rn_role := Follower, rn_ticks_since_reset := 0, rn_leader_hint := Some (ae_leader_id req)\<rparr>"
      using not_lead by (cases "rn_role n1") auto
    obtain b where b: "moves N i a1 b" "node_ok N b i (n1\<lparr>rn_role := Follower\<rparr>)" "p_commit b i = p_commit a1 i"
        "h_leader b = h_leader a1" "h_tlog b = h_tlog a1"
      using demote_sim [OF inv1 a1(2) not_lead [OF accept(1)]] by blast
    have mvb: "moves N i a b" by (rule moves_trans [OF a1(1) b(1)])
    have n2: "node_ok N b i n2" "rn_role n2 = Follower" "node_hard n2 = node_hard n1" "rn_log n2 = rn_log n1"
      using b(2) by (simp_all add: fol node_hard_def)
    have cur: "ae_term req = rn_current_term n2" using accept(1) a1(7) by (simp add: fol)
    have "ae_ok N b from req" by (rule ae_ok_mono [OF moves_extends [OF b(1) inv1] ae])
    from ae_accept_sim [OF N moves_inv [OF mvb inv] n2(1,2) this from_ne cur _ _ accept(5)] accept(3,4) n2(4)
    obtain c where c: "log_stages N i n' b [l, l @ ta]" "length tr \<le> 1"
        "turn_ok N b i n' (ap @ [ae_reply from (rn_current_term n') True
            (ae_prev_log_index req + length (ae_entries req))]) c"
      by auto
    let ?app = "if ta \<noteq> [] then [PersistEntries ta] else []"
    have quiet: "sends (e1 @ tr @ ?app) = []" "applies (e1 @ tr @ ?app) = []"
      using persists_send_nothing [of "e1 @ tr @ ?app"] step_down_persists [OF sd] merge_persists [OF accept(4)]
      by auto
    have "turn_ok N a i n' effs c"
      unfolding accept(6) using b(3) a1(3) by (intro turn_ok_after [OF mvb _ quiet c(3)]) simp
    moreover have "stage_ok N i a (fold durable_op (disk_ops n' (take k effs)) (synced n))" for k
    proof -
      have hard: "node_hard n' = node_hard n1"
        using accept(5) n2(3) by (auto simp: node_hard_def dest: advance_frame split: if_splits)
      have "list_all (\<lambda>x. \<not> is_persist x) ap"
        using accept(5) by (auto dest: advance_no_persist split: if_splits)
      then have ops: "disk_ops n' effs = disk_ops n' e1 @ disk_ops n' tr @ disk_ops n' ?app"
        unfolding accept(6) by (simp add: no_persist_ops ae_reply_def)
      have log: "indexed (rn_log n1)" "indexed (l @ ta)"
        using log_indexed [OF inv1, of i] a1(2) log_stages_indexed [OF moves_inv [OF mvb inv] c(1)]
        by (simp_all add: node_ok_def)
      have d1: "fold durable_op (disk_ops n' e1) (synced n) = \<lparr>d_hard = node_hard n', d_log = rn_log n1\<rparr>"
        using step_down_disk [OF sd] disk_ops_hard [OF hard, of e1] hard by (simp add: synced_def)
      have d2: "fold durable_op (disk_ops n' tr) \<lparr>d_hard = node_hard n', d_log = rn_log n1\<rparr> =
          \<lparr>d_hard = node_hard n', d_log = l\<rparr>" by (rule merge_disk [OF accept(4) log(1)])
      have d3: "fold durable_op (disk_ops n' ?app) \<lparr>d_hard = node_hard n', d_log = l\<rparr> =
          \<lparr>d_hard = node_hard n', d_log = l @ ta\<rparr>" by (rule append_disk [OF log(2)])
      have "length (disk_ops n' tr) \<le> 1"
        using c(2) merge_persists [OF accept(4)] by (cases tr rule: remdups_adj.cases) (auto elim: is_persist.elims)
      moreover have "stage_ok N i a \<lparr>d_hard = node_hard n', d_log = rn_log n1\<rparr>"
        using s1 hard by (simp add: synced_def)
      moreover have "stage_ok N i a \<lparr>d_hard = node_hard n', d_log = l\<rparr>"
        "stage_ok N i a \<lparr>d_hard = node_hard n', d_log = l @ ta\<rparr>"
        using stage_of_log [OF c(1) _ mvb] by simp_all
      ultimately show ?thesis
        using s0 e1 d1 d2 d3 by (intro stages_prefix [OF ops]) (simp_all add: fold_append)
    qed
    ultimately show ?thesis by blast
  qed
qed

subsection \<open>A turn, and a turn cut by a crash\<close>

lemma step_turn:
  assumes N: "distinct N" "i \<in> set N" and inv: "proto_inv (quorum_of N) a" and ok: "node_ok N a i n"
    and msg: "\<And>from m. ev = Message from m \<Longrightarrow> msg_ok N a from i m"
    and st: "step n ev = Some (n', effs)"
  shows "\<exists>b. turn_ok N a i n' effs b"
proof (cases ev)
  case Tick
  then show ?thesis using on_tick_sim [OF N inv ok] st by simp
next
  case (Propose cmd)
  then show ?thesis using on_propose_sim [OF N inv ok] st by simp
next
  case (Message sender m)
  then have mk: "msg_ok N a sender i m" using msg by blast
  show ?thesis
  proof (cases m)
    case (RequestVote r)
    then show ?thesis using on_request_vote_sim [OF N(2) inv ok] mk st Message by simp
  next
    case (RequestVoteResp r)
    then show ?thesis using on_request_vote_resp_sim [OF N inv ok] mk st Message by simp
  next
    case (AppendEntries r)
    then show ?thesis using on_append_entries_sim [OF N(2) inv ok] mk st Message by simp
  next
    case (AppendEntriesResp r)
    then show ?thesis using on_append_entries_resp_sim [OF N inv ok] mk st Message by simp
  qed
qed

text \<open>Every other handler writes the disk at once, or writes the same hard state twice.\<close>

fun is_append_entries :: "event \<Rightarrow> bool" where
  "is_append_entries (Message _ (AppendEntries _)) = True"
| "is_append_entries _ = False"

lemma step_down_ops: "maybe_step_down n t = (n1, e1) \<Longrightarrow> e1 = [] \<or> e1 = [Persist]"
  by (auto simp: maybe_step_down_def split: if_splits)

lemma start_election_ops: "start_election n = Some (n', effs) \<Longrightarrow> disk_ops m effs = [SaveHard (node_hard m)]"
proof -
  assume st: "start_election n = Some (n', effs)"
  obtain r won where effs: "effs = [Persist] @ (map (\<lambda>peer. Send peer (RequestVote r)) (rn_peers n) @ won)"
      "list_all (\<lambda>x. \<not> is_persist x) won"
    using st unfolding start_election_def Let_def by (auto dest: try_win_no_persist split: bind_splits)
  have "disk_ops m (map (\<lambda>peer. Send peer (RequestVote r)) ps) = []" for ps
    by (rule no_persist_ops) (simp add: list_all_iff)
  then show ?thesis using effs by (simp add: no_persist_ops)
qed

lemma step_ops:
  assumes st: "step n ev = Some (n', effs)" and "\<not> is_append_entries ev"
  shows "length (disk_ops n' effs) \<le> 1 \<or> disk_ops n' effs = [SaveHard (node_hard n'), SaveHard (node_hard n')]"
proof (cases "(n, ev)" rule: step.cases)
  case (1 n)
  then have "start_election (n\<lparr>rn_ticks_since_reset := rn_ticks_since_reset n + 1\<rparr>) = Some (n', effs) \<or> disk_ops n' effs = []"
    using st unfolding on_tick_def Let_def
    by (auto simp: on_tick_def Let_def broadcast_ops split: bind_splits if_splits)
  then show ?thesis using start_election_ops by force
next
  case (2 n sender req)
  obtain n1 e1 where sd: "maybe_step_down n (rv_term req) = (n1, e1)" by force
  obtain g r where "effs = e1 @ (if g then [Persist] else []) @ [Send sender (RequestVoteResp r)]"
    using st 2 by (auto simp: on_request_vote_def sd Let_def)
  then show ?thesis using step_down_ops [OF sd] by auto
next
  case (3 n sender resp)
  obtain n1 e1 where sd: "maybe_step_down n (rvr_term resp) = (n1, e1)" by force
  obtain won where "effs = e1 @ won" "list_all (\<lambda>x. \<not> is_persist x) won"
    using st 3 unfolding on_request_vote_resp_def sd Let_def prod.case
    by (auto simp: on_request_vote_resp_def sd dest: try_win_no_persist split: role.splits if_splits bind_splits)
  then show ?thesis using step_down_ops [OF sd] by (auto simp: no_persist_ops)
next
  case (5 n sender resp)
  obtain n1 e1 where sd: "maybe_step_down n (aer_term resp) = (n1, e1)" by force
  obtain es where "effs = e1 @ es" "list_all (\<lambda>x. \<not> is_persist x) es"
    using st 5 by (auto simp: on_append_entries_resp_def sd Let_def dest: try_commit_no_persist append_for_is_send
        split: role.splits if_splits bind_splits prod.splits)
  then show ?thesis using step_down_ops [OF sd] by (auto simp: no_persist_ops)
next
  case (6 n cmd)
  show ?thesis
  proof (cases "is_leader (rn_role n)")
    case True
    obtain e bc ap where "effs = [PersistEntries [e]] @ (bc @ ap)" "list_all (\<lambda>x. \<not> is_persist x) (bc @ ap)"
      using st 6 True
      by (auto simp: on_propose_def Let_def dest: broadcast_no_persist try_commit_no_persist split: bind_splits prod.splits)
    then show ?thesis by (simp add: no_persist_ops)
  qed (use st 6 in \<open>auto simp: on_propose_def\<close>)
qed (use assms in auto)

lemma turn_synced:
  assumes inv: "proto_inv (quorum_of N) a" and ok: "node_ok N a i n"
    and st: "step n ev = Some (n', effs)" and t: "turn_ok N a i n' effs b"
  shows "fold durable_op (disk_ops n' effs) (synced n) = synced n'"
proof -
  have mv: "moves N i a b" and okb: "node_ok N b i n'" using t by (auto simp: turn_ok_def)
  have "indexed (rn_log n)" "indexed (rn_log n')"
    using log_indexed [OF inv, of i] log_indexed [OF moves_inv [OF mv inv], of i] ok okb
    by (simp_all add: node_ok_def)
  then show ?thesis using step_disk [OF st] by blast
qed

lemma step_stages:
  assumes N: "distinct N" "i \<in> set N" and inv: "proto_inv (quorum_of N) a" and ok: "node_ok N a i n"
    and msg: "\<And>from m. ev = Message from m \<Longrightarrow> msg_ok N a from i m"
    and st: "step n ev = Some (n', effs)" and t: "turn_ok N a i n' effs b"
  shows "stage_ok N i a (fold durable_op (disk_ops n' (take k effs)) (synced n))"
proof (cases "is_append_entries ev")
  case True
  then obtain sender r where ev: "ev = Message sender (AppendEntries r)"
    by (cases ev rule: is_append_entries.cases) auto
  have "msg_ok N a sender i (AppendEntries r)" using msg ev by blast
  then show ?thesis using on_append_entries_sim [OF N(2) inv ok] st ev by simp
next
  case False
  have s0: "stage_ok N i a (synced n)" by (rule stage_node [OF moves_refl ok])
  have s1: "stage_ok N i a (synced n')" using t stage_node unfolding turn_ok_def by blast
  note sync = turn_synced [OF inv ok st t]
  from step_ops [OF st False] show ?thesis
  proof
    assume len: "length (disk_ops n' effs) \<le> 1"
    have ops: "disk_ops n' effs = disk_ops n' effs @ [] @ []" by simp
    show ?thesis by (rule stages_prefix [OF ops]) (use len s0 s1 sync in simp_all)
  next
    assume two: "disk_ops n' effs = [SaveHard (node_hard n'), SaveHard (node_hard n')]"
    then have ops: "disk_ops n' effs = [SaveHard (node_hard n')] @ [SaveHard (node_hard n')] @ []" by simp
    have "synced n'\<lparr>d_hard := node_hard n'\<rparr> = synced n'" by (simp add: synced_def)
    then show ?thesis using two s0 s1 sync by (intro stages_prefix [OF ops]) simp_all
  qed
qed

lemma crash_sim:
  assumes N: "distinct N" "i \<in> set N" and inv: "proto_inv (quorum_of N) a" and ok: "node_ok N a i n"
    and msg: "\<And>from m. ev = Message from m \<Longrightarrow> msg_ok N a from i m"
    and st: "step n ev = Some (n', effs)"
  shows "\<exists>b. moves N i a b \<and> (\<forall>(to, m) \<in> set (sends (take k effs)). msg_ok N b i to m) \<and>
     fold durable_op (disk_ops n' (take k effs)) (synced n) =
     \<lparr>d_hard = \<lparr>hs_current_term = p_cur b i, hs_voted_for = p_vote b i\<rparr>, d_log = p_log b i\<rparr>"
proof -
  obtain b where t: "turn_ok N a i n' effs b" using step_turn [OF N inv ok msg st] by blast
  obtain ps es where effs: "effs = ps @ es" and ps: "list_all is_persist ps"
    and es: "list_all (\<lambda>x. \<not> is_persist x) es"
    using persists_first_split [OF step_persists_first [OF st]] by blast
  show ?thesis
  proof (cases "k \<le> length ps")
    case True
    have "list_all is_persist (take k ps)" using ps by (auto simp: list_all_iff dest: in_set_takeD)
    then have "sends (take k effs) = []"
      using persists_send_nothing True by (simp add: effs)
    then show ?thesis
      using step_stages [OF N inv ok msg st t, of k] by (auto simp: stage_ok_def)
  next
    case False
    then have tk: "take k effs = ps @ take (k - length ps) es" by (simp add: effs)
    have "disk_ops n' (take k effs) = disk_ops n' effs"
    proof -
      have "list_all (\<lambda>x. \<not> is_persist x) (take (k - length ps) es)"
        using es by (auto simp: list_all_iff dest: in_set_takeD)
      then show ?thesis unfolding tk using es by (simp add: effs no_persist_ops)
    qed
    then have "fold durable_op (disk_ops n' (take k effs)) (synced n) = synced n'"
      using turn_synced [OF inv ok st t] by simp
    moreover have "set (sends (take k effs)) \<subseteq> set (sends effs)"
      by (metis append_take_drop_id sends_simps(3) set_append sup_ge1)
    ultimately show ?thesis
      using t unfolding turn_ok_def synced_def node_hard_def node_ok_def by (intro exI [of _ b]) auto
  qed
qed

subsection \<open>The simulation\<close>

text \<open>What a node has applied stays a prefix of its log through every turn.\<close>

lemma applied_grows:
  assumes inv: "proto_inv (quorum_of N) a" and t: "turn_ok N a i n effs b"
  shows "take (p_commit a i) (p_log a i) @ applies effs = take (p_commit b i) (p_log b i)"
proof -
  have mv: "moves N i a b" and le: "p_commit a i \<le> p_commit b i"
    and ap: "applies effs = take (p_commit b i - p_commit a i) (drop (p_commit a i) (p_log b i))"
    using t by (auto simp: turn_ok_def)
  note invb = moves_inv [OF mv inv]
  have "settled (quorum_of N) b (p_cur b i) (p_log a i) (p_commit a i)"
    by (rule settled_mono [OF moves_extends [OF mv inv] settled_commit [OF inv]])
      (use moves_extends [OF mv inv] in \<open>simp add: extends_def\<close>)
  then have "take (p_commit a i) (p_log a i) = take (p_commit a i) (p_log b i)"
    by (rule maj.settled_agree [OF invb _ settled_commit [OF invb] le])
  then show ?thesis using ap le by (metis le_add_diff_inverse take_add)
qed

lemma simD:
  assumes "sim N a s"
  shows "proto_inv (quorum_of N) a" and "i \<in> set N \<Longrightarrow> node_ok N a i (cl_node s i)"
    and "i \<in> set N \<Longrightarrow> cl_disk s i = synced (cl_node s i)"
    and "i \<in> set N \<Longrightarrow> cl_applied s i = take (p_commit a i) (p_log a i)"
    and "(from, to, m) \<in> cl_net s \<Longrightarrow> msg_ok N a from to m"
  using assms by (auto simp: sim_def synced_def)

lemma sim_update:
  assumes sm: "sim N a s" and mv: "moves N i a b"
    and ok: "node_ok N b i n" and disk: "d = synced n"
    and ap: "ap = take (p_commit b i) (p_log b i)"
    and net: "\<forall>(to, m) \<in> S. msg_ok N b i to m"
  shows "sim N b (s\<lparr>cl_node := (cl_node s)(i := n), cl_disk := (cl_disk s)(i := d),
                   cl_net := cl_net s \<union> (\<lambda>(to, m). (i, to, m)) ` S,
                   cl_applied := (cl_applied s)(i := ap)\<rparr>)"
proof -
  note inv = simD(1) [OF sm]
  have others: "p_log b j = p_log a j" "p_commit b j = p_commit a j" if "j \<noteq> i" for j
    using mv that by (auto simp: moves_def)
  have nodes: "node_ok N b j (cl_node s j)" if "j \<in> set N" "j \<noteq> i" for j
    using node_ok_other [OF mv inv that(2)] simD(2) [OF sm that(1)] by blast
  have msgs: "msg_ok N b from to m" if "(from, to, m) \<in> cl_net s" for "from" to m
    by (rule msg_ok_mono [OF moves_extends [OF mv inv] simD(5) [OF sm that]])
  show ?thesis
    unfolding sim_def
    using moves_inv [OF mv inv] ok disk ap net nodes msgs others simD(3,4) [OF sm]
    by (auto simp: synced_def)
qed

lemma reboot_sim:
  assumes sm: "sim N a s" and i: "i \<in> set N" and mv: "moves N i a b"
    and disk: "d = \<lparr>d_hard = \<lparr>hs_current_term = p_cur b i, hs_voted_for = p_vote b i\<rparr>, d_log = p_log b i\<rparr>"
    and net: "\<forall>(to, m) \<in> S. msg_ok N b i to m" and peers: "peer_order N i peers"
  shows "\<exists>c. moves N i b c \<and>
    sim N c (s\<lparr>cl_node := (cl_node s)(i := recover i peers ticks d), cl_disk := (cl_disk s)(i := d),
               cl_net := cl_net s \<union> (\<lambda>(to, m). (i, to, m)) ` S, cl_applied := (cl_applied s)(i := [])\<rparr>)"
proof -
  let ?c = "b\<lparr>p_role := (p_role b)(i := PFollower), p_commit := (p_commit b)(i := 0)\<rparr>"
  have "pstep (quorum_of N) b ?c" by (rule demote) simp
  then have mvc: "moves N i b ?c" by (rule moves_step) simp
  note invb = moves_inv [OF mv simD(1) [OF sm]]
  have okc: "node_ok N ?c i (recover i peers ticks d)" and dc: "d = synced (recover i peers ticks d)"
    using peers by (simp_all add: disk node_ok_def recover_def raft_node_new_def synced_def node_hard_def)
  have netc: "\<forall>(to, m) \<in> S. msg_ok N ?c i to m"
    by (rule sends_msgs_mono [OF moves_extends [OF mvc invb] net])
  have ap: "[] = take (p_commit ?c i) (p_log ?c i)" by simp
  show ?thesis
    by (intro exI conjI, rule mvc, rule sim_update [OF sm moves_trans [OF mv mvc] okc dc ap netc])
qed

lemma moves_steps: "moves N i a b \<Longrightarrow> (pstep (quorum_of N))\<^sup>*\<^sup>* a b"
  by (simp add: moves_def)

lemma deliverable_ok: "sim N a s \<Longrightarrow> deliverable s i ev \<Longrightarrow> ev = Message from m \<Longrightarrow> msg_ok N a from i m"
  using simD(5) by auto

lemma sim_step:
  assumes "cstep N s s'" and N: "distinct N" and sm: "sim N a s"
  shows "\<exists>b. (pstep (quorum_of N))\<^sup>*\<^sup>* a b \<and> sim N b s'"
  using assms(1)
proof cases
  case (turn i ev n effs n' ticks)
  note ok = simD(2) [OF sm turn(2)] and inv = simD(1) [OF sm]
  obtain b where t: "turn_ok N a i n effs b"
    using step_turn [OF N turn(2) inv ok deliverable_ok [OF sm turn(3)] turn(4)] by blast
  have mv: "moves N i a b" and okb: "node_ok N b i n'" and "synced n' = synced n"
    using t turn(5) by (auto simp: turn_ok_def set_election_timeout_def synced_def node_hard_def)
  moreover have "fold durable_op (disk_ops n effs) (cl_disk s i) = synced n"
    using turn_synced [OF inv ok turn(4) t] simD(3) [OF sm turn(2)] by simp
  moreover have "cl_applied s i @ applies effs = take (p_commit b i) (p_log b i)"
    using applied_grows [OF inv t] simD(4) [OF sm turn(2)] by simp
  moreover have "\<forall>(to, m) \<in> set (sends effs). msg_ok N b i to m" using t by (simp add: turn_ok_def)
  ultimately have "sim N b s'"
    unfolding turn(1) run_effects_def using sim_update [OF sm mv okb] by simp
  then show ?thesis using moves_steps [OF mv] by blast
next
  case (crash i ev n effs peers ticks k)
  note ok = simD(2) [OF sm crash(2)] and inv = simD(1) [OF sm]
  obtain b where mv: "moves N i a b" and msgs: "\<forall>(to, m) \<in> set (sends (take k effs)). msg_ok N b i to m"
    and d: "fold durable_op (disk_ops n (take k effs)) (synced (cl_node s i)) =
     \<lparr>d_hard = \<lparr>hs_current_term = p_cur b i, hs_voted_for = p_vote b i\<rparr>, d_log = p_log b i\<rparr>"
    using crash_sim [OF N crash(2) inv ok deliverable_ok [OF sm crash(3)] crash(4)] by blast
  obtain c where c: "moves N i b c"
    "sim N c (s\<lparr>cl_node := (cl_node s)(i := recover i peers ticks
                  (fold durable_op (disk_ops n (take k effs)) (cl_disk s i))),
               cl_disk := (cl_disk s)(i := fold durable_op (disk_ops n (take k effs)) (cl_disk s i)),
               cl_net := cl_net s \<union> (\<lambda>(to, m). (i, to, m)) ` set (sends (take k effs)),
               cl_applied := (cl_applied s)(i := [])\<rparr>)"
    using reboot_sim [OF sm crash(2) mv d msgs crash(5)] simD(3) [OF sm crash(2)] by auto
  moreover have "s' = s\<lparr>cl_node := (cl_node s)(i := recover i peers ticks
                  (fold durable_op (disk_ops n (take k effs)) (cl_disk s i))),
               cl_disk := (cl_disk s)(i := fold durable_op (disk_ops n (take k effs)) (cl_disk s i)),
               cl_net := cl_net s \<union> (\<lambda>(to, m). (i, to, m)) ` set (sends (take k effs)),
               cl_applied := (cl_applied s)(i := [])\<rparr>"
    unfolding crash(1) by (cases s) (simp add: reboot_def run_effects_def)
  ultimately have "sim N c s'" by simp
  then show ?thesis using moves_steps [OF moves_trans [OF mv c(1)]] by blast
next
  case (restart i peers ticks)
  have d: "cl_disk s i = \<lparr>d_hard = \<lparr>hs_current_term = p_cur a i, hs_voted_for = p_vote a i\<rparr>, d_log = p_log a i\<rparr>"
    using simD(2,3) [OF sm restart(2)] by (simp add: synced_def node_hard_def node_ok_def)
  obtain c where c: "moves N i a c"
    "sim N c (s\<lparr>cl_node := (cl_node s)(i := recover i peers ticks (cl_disk s i)),
               cl_disk := (cl_disk s)(i := cl_disk s i),
               cl_net := cl_net s \<union> (\<lambda>(to, m). (i, to, m)) ` {},
               cl_applied := (cl_applied s)(i := [])\<rparr>)"
    using reboot_sim [OF sm restart(2) moves_refl d _ restart(3), of "{}"] by auto
  then have "sim N c s'" unfolding restart(1) reboot_def by simp
  then show ?thesis using moves_steps [OF c(1)] by blast
qed

lemma sim_steps:
  assumes "(cstep N)\<^sup>*\<^sup>* s s'" and N: "distinct N" and sm: "sim N a s"
  shows "\<exists>b. (pstep (quorum_of N))\<^sup>*\<^sup>* a b \<and> sim N b s'"
  using assms(1)
proof (induction rule: rtranclp_induct)
  case base
  then show ?case using sm by blast
next
  case (step s' s'')
  then obtain b where b: "(pstep (quorum_of N))\<^sup>*\<^sup>* a b" "sim N b s'" by blast
  then obtain c where "(pstep (quorum_of N))\<^sup>*\<^sup>* b c" "sim N c s''" using sim_step [OF step.hyps(2) N] by blast
  with b show ?case by (meson rtranclp_trans)
qed

lemma sim_init: "\<forall>i \<in> set N. peer_order N i (peers i) \<Longrightarrow> sim N proto_init (cluster_init peers timeout)"
  using maj.init_proto_inv
  by (auto simp: sim_def cluster_init_def node_ok_def raft_node_new_def proto_init_def log_new_def
      durable_new_def node_hard_def hard_state_default_def)

end
