(* ===== verification/Raft_Safety.thy ===== *)
theory Raft_Safety
  imports Raft_Cluster "HOL-Library.Sublist"
begin

text \<open>
  The safety theorems of the replicated log, for every execution of a cluster of shells (\<open>cstep\<close>):
  election safety, log matching, leader completeness and agreement of the applied streams, across
  crashes between effects, restarts and every order of deliveries; and that the core never panics while its
  counters are in range.
\<close>

definition reachable :: "node_id list \<Rightarrow> (node_id \<Rightarrow> nat) \<Rightarrow> cluster \<Rightarrow> bool" where
  "reachable N timeout s \<longleftrightarrow>
     (\<exists>peers. (\<forall>i \<in> set N. peer_order N i (peers i)) \<and> (cstep N)\<^sup>*\<^sup>* (cluster_init peers timeout) s)"

lemma reachable_sim: "distinct N \<Longrightarrow> reachable N timeout s \<Longrightarrow> \<exists>a. sim N a s"
  unfolding reachable_def using sim_steps [OF _ _ sim_init] by blast

lemma leader_role:
  "sim N a s \<Longrightarrow> i \<in> set N \<Longrightarrow> is_leader (rn_role (cl_node s i)) \<Longrightarrow> p_role a i = PLeader"
  using simD(2) [of N a s i] by (cases "rn_role (cl_node s i)") (auto simp: node_ok_def)

lemma sim_later:
  assumes "distinct N" and "sim N a s" and "(cstep N)\<^sup>*\<^sup>* s s'"
  obtains b where "extends a b" and "sim N b s'" and "proto_inv (quorum_of N) b"
  using sim_steps [OF assms(3,1,2)] maj.steps_extends simD(1) assms(2) by blast

subsection \<open>Driving a cluster\<close>

text \<open>A schedule without crashes, as a function: the concrete executions below are computed by it.\<close>

fun drive :: "node_id list \<Rightarrow> (node_id \<times> event) list \<Rightarrow> cluster \<Rightarrow> cluster option" where
  "drive N [] s = Some s"
| "drive N ((i, ev) # evs) s =
     (if i \<in> set N \<and> deliverable s i ev
      then (case step (cl_node s i) ev of
              None \<Rightarrow> None
            | Some (n, effs) \<Rightarrow> drive N evs (run_effects i n effs (s\<lparr>cl_node := (cl_node s)(i := n)\<rparr>)))
      else None)"

lemma drive_run: "drive N evs s = Some s' \<Longrightarrow> (cstep N)\<^sup>*\<^sup>* s s'"
proof (induction N evs s rule: drive.induct)
  case (2 N i ev evs s)
  then obtain n effs where st: "i \<in> set N" "deliverable s i ev" "step (cl_node s i) ev = Some (n, effs)"
      "drive N evs (run_effects i n effs (s\<lparr>cl_node := (cl_node s)(i := n)\<rparr>)) = Some s'"
    by (auto split: if_splits option.splits)
  have "cstep N s (run_effects i n effs (s\<lparr>cl_node := (cl_node s)(i := n)\<rparr>))"
    by (rule turn [OF st(1-3)]) simp
  moreover have "(cstep N)\<^sup>*\<^sup>* (run_effects i n effs (s\<lparr>cl_node := (cl_node s)(i := n)\<rparr>)) s'"
    using 2 st by blast
  ultimately show ?case by (rule converse_rtranclp_into_rtranclp)
qed simp

definition demo_election :: "(node_id \<times> event) list" where
  "demo_election =
     [(1, Tick),
      (2, Message 1 (RequestVote \<lparr>rv_term = 1, rv_candidate_id = 1, rv_last_log_index = 0, rv_last_log_term = 0\<rparr>)),
      (1, Message 2 (RequestVoteResp \<lparr>rvr_term = 1, rvr_vote_granted = True\<rparr>))]"

definition demo_entry :: log_entry where
  "demo_entry = \<lparr>le_term = 1, le_index = 1, le_command = [7]\<rparr>"

definition demo_commit :: "(node_id \<times> event) list" where
  "demo_commit =
     [(1, Propose [7]),
      (2, Message 1 (AppendEntries \<lparr>ae_term = 1, ae_leader_id = 1, ae_prev_log_index = 0, ae_prev_log_term = 0,
            ae_entries = [demo_entry], ae_leader_commit = 0\<rparr>)),
      (1, Message 2 (AppendEntriesResp \<lparr>aer_term = 1, aer_success = True, aer_match_index = 1\<rparr>))]"

definition others :: "node_id list \<Rightarrow> node_id \<Rightarrow> node_id list" where
  "others N i = filter (\<lambda>j. j \<noteq> i) N"

lemma others_order: "distinct N \<Longrightarrow> peer_order N i (others N i)"
  by (auto simp: peer_order_def others_def)

lemma drive_reachable:
  assumes "drive N evs (cluster_init (others N) timeout) = Some s" and "distinct N"
  shows "reachable N timeout s"
  using drive_run [OF assms(1)] others_order [OF assms(2)] unfolding reachable_def by blast

lemma reachable_steps: "reachable N timeout s \<Longrightarrow> (cstep N)\<^sup>*\<^sup>* s s' \<Longrightarrow> reachable N timeout s'"
  unfolding reachable_def by (meson rtranclp_trans)

lemmas core_defs = cluster_init_def others_def raft_node_new_def log_new_def durable_new_def
  on_tick_def start_election_def try_win_def broadcast_append_def append_for_def maybe_step_down_def
  on_request_vote_def on_request_vote_resp_def on_append_entries_def on_append_entries_resp_def on_propose_def
  try_commit_def advance_applied_def ae_reply_def majority_def up_to_date_def holders_def
  last_index_def last_term_def entries_from_def log_append_def log_get_def append_entries_def truncate_from_def
  HEARTBEAT_TICKS_def u64_max_def u32_max_def checked_add_def checked_sub_def
  run_effects_def disk_ops_def sends_def applies_def

lemma demo_run:
  obtains s s' where "reachable [1, 2, 3] (\<lambda>_. 1) s" and "(cstep [1, 2, 3])\<^sup>*\<^sup>* s s'"
    and "is_leader (rn_role (cl_node s 1))" and "rn_current_term (cl_node s 1) = 1"
    and "is_leader (rn_role (cl_node s' 1))" and "rn_current_term (cl_node s' 1) = 1"
    and "cl_applied s' 1 = [demo_entry]" and "rn_log (cl_node s' 1) = [demo_entry]"
    and "rn_log (cl_node s' 2) = [demo_entry]" and "rn_commit_index (cl_node s' 1) = 1" and "cl_applied s' 2 = []"
proof -
  let ?i = "cluster_init (others [1, 2, 3]) (\<lambda>_. 1)"
  have "\<exists>s. drive [1, 2, 3] demo_election ?i = Some s \<and> is_leader (rn_role (cl_node s 1)) \<and>
            rn_current_term (cl_node s 1) = 1 \<and>
            (\<exists>s'. drive [1, 2, 3] demo_commit s = Some s' \<and> is_leader (rn_role (cl_node s' 1)) \<and>
              rn_current_term (cl_node s' 1) = 1 \<and> cl_applied s' 1 = [demo_entry] \<and>
              rn_log (cl_node s' 1) = [demo_entry] \<and> rn_log (cl_node s' 2) = [demo_entry] \<and>
              rn_commit_index (cl_node s' 1) = 1 \<and> cl_applied s' 2 = [])"
    by (simp add: demo_election_def demo_commit_def demo_entry_def core_defs advance_loop.simps)
  then obtain s s' where "drive [1, 2, 3] demo_election ?i = Some s" "drive [1, 2, 3] demo_commit s = Some s'"
    and f: "is_leader (rn_role (cl_node s 1))" "rn_current_term (cl_node s 1) = 1"
      "is_leader (rn_role (cl_node s' 1))" "rn_current_term (cl_node s' 1) = 1"
      "cl_applied s' 1 = [demo_entry]" "rn_log (cl_node s' 1) = [demo_entry]"
      "rn_log (cl_node s' 2) = [demo_entry]" "rn_commit_index (cl_node s' 1) = 1" "cl_applied s' 2 = []"
    by blast
  then have "reachable [1, 2, 3] (\<lambda>_. 1) s" "(cstep [1, 2, 3])\<^sup>*\<^sup>* s s'"
    using drive_run by (auto intro: drive_reachable)
  then show ?thesis using f by (rule that)
qed

subsection \<open>Safety\<close>

text \<open>
  C1 (election safety): in every execution, with message loss, duplication, reordering and crashes between
  any two effects, two nodes that ever lead the same term are the same node, even at different times.
\<close>

theorem election_safety:
  assumes "distinct N" and "reachable N timeout s" and "(cstep N)\<^sup>*\<^sup>* s s'"
    and "i \<in> set N" and "is_leader (rn_role (cl_node s i))"
    and "j \<in> set N" and "is_leader (rn_role (cl_node s' j))"
    and "rn_current_term (cl_node s i) = rn_current_term (cl_node s' j)"
  shows "i = j"
proof -
  obtain a where a: "sim N a s" using reachable_sim assms(1,2) by blast
  obtain b where b: "extends a b" "sim N b s'" "proto_inv (quorum_of N) b"
    using sim_later [OF assms(1) a assms(3)] by blast
  have "h_leader a (p_cur a i) = Some i"
    by (rule leader_facts [OF simD(1) [OF a] leader_role [OF a assms(4,5)]])
  then have "h_leader b (p_cur a i) = Some i" using b(1) by (simp add: extends_def)
  moreover have "h_leader b (p_cur b j) = Some j"
    by (rule leader_facts [OF b(3) leader_role [OF b(2) assms(6,7)]])
  moreover have "p_cur a i = p_cur b j"
    using assms(8) simD(2) [OF a assms(4)] simD(2) [OF b(2) assms(6)] by (simp add: node_ok_def)
  ultimately show ?thesis by simp
qed

theorem election_safety_witness:
  "\<exists>s s'. reachable [1, 2, 3] (\<lambda>_. 1) s \<and> (cstep [1, 2, 3])\<^sup>*\<^sup>* s s' \<and>
      is_leader (rn_role (cl_node s 1)) \<and> is_leader (rn_role (cl_node s' 1)) \<and>
      rn_current_term (cl_node s 1) = rn_current_term (cl_node s' 1) \<and> (1 :: nat) = 1"
proof -
  obtain s s' where d: "reachable [1, 2, 3] (\<lambda>_. 1) s" "(cstep [1, 2, 3])\<^sup>*\<^sup>* s s'"
      "is_leader (rn_role (cl_node s 1))" "rn_current_term (cl_node s 1) = 1"
      "is_leader (rn_role (cl_node s' 1))" "rn_current_term (cl_node s' 1) = 1"
    by (rule demo_run)
  have "(1 :: nat) = 1"
    by (rule election_safety [OF _ d(1,2) _ d(3) _ d(5)]) (use d in simp_all)
  with d show ?thesis by (intro exI [of _ s] exI [of _ s']) simp
qed

lemma applied_prefixes:
  assumes "distinct N" and "reachable N timeout s" and "(cstep N)\<^sup>*\<^sup>* s s'"
    and "i \<in> set N" and "j \<in> set N"
  shows "prefix (cl_applied s i) (cl_applied s' j) \<or> prefix (cl_applied s' j) (cl_applied s i)"
proof -
  obtain a where a: "sim N a s" using reachable_sim assms(1,2) by blast
  obtain b where b: "extends a b" "sim N b s'" "proto_inv (quorum_of N) b"
    using sim_later [OF assms(1) a assms(3)] by blast
  let ?l = "p_log a i" and ?k = "p_commit a i" and ?l' = "p_log b j" and ?k' = "p_commit b j"
  have s1: "settled (quorum_of N) b (p_cur a i) ?l ?k"
    by (rule settled_mono [OF b(1) settled_commit [OF simD(1) [OF a]] order_refl])
  have s2: "settled (quorum_of N) b (p_cur b j) ?l' ?k'" by (rule settled_commit [OF b(3)])
  have ap: "cl_applied s i = take ?k ?l" "cl_applied s' j = take ?k' ?l'"
    using simD(4) [OF a assms(4)] simD(4) [OF b(2) assms(5)] by simp_all
  show ?thesis
  proof (cases "?k \<le> ?k'")
    case True
    then have "take ?k ?l = take ?k ?l'" by (rule maj.settled_agree [OF b(3) s1 s2])
    then have "cl_applied s i = take ?k (take ?k' ?l')" using ap True by (simp add: min_def)
    then have "prefix (cl_applied s i) (cl_applied s' j)" unfolding ap(2) by (metis take_is_prefix)
    then show ?thesis ..
  next
    case False
    then have le: "?k' \<le> ?k" by simp
    then have "take ?k' ?l' = take ?k' ?l" by (rule maj.settled_agree [OF b(3) s2 s1])
    then have "cl_applied s' j = take ?k' (take ?k ?l)" using ap le by (simp add: min_def)
    then have "prefix (cl_applied s' j) (cl_applied s i)" unfolding ap(1) by (metis take_is_prefix)
    then show ?thesis ..
  qed
qed

text \<open>
  C2 (state machine safety): the streams of entries that any two nodes handed to their apply channels since
  their last restart, at any two moments of an execution, agree: one is a prefix of the other.
\<close>

theorem state_machine_safety:
  assumes "distinct N" and "reachable N timeout s" and "(cstep N)\<^sup>*\<^sup>* s s'"
    and "i \<in> set N" and "j \<in> set N"
  shows "prefix (cl_applied s i) (cl_applied s' j) \<or> prefix (cl_applied s' j) (cl_applied s i)"
  by (rule applied_prefixes [OF assms])

theorem state_machine_safety_witness:
  "\<exists>s'. reachable [1, 2, 3] (\<lambda>_. 1) s' \<and> cl_applied s' 1 = [demo_entry] \<and>
      (prefix (cl_applied s' 1) (cl_applied s' 2) \<or> prefix (cl_applied s' 2) (cl_applied s' 1))"
proof -
  obtain s s' where d: "reachable [1, 2, 3] (\<lambda>_. 1) s" "(cstep [1, 2, 3])\<^sup>*\<^sup>* s s'" "cl_applied s' 1 = [demo_entry]"
    by (rule demo_run)
  then have r: "reachable [1, 2, 3] (\<lambda>_. 1) s'" by (auto simp: reachable_def)
  have "prefix (cl_applied s' 1) (cl_applied s' 2) \<or> prefix (cl_applied s' 2) (cl_applied s' 1)"
    by (rule state_machine_safety [OF _ r rtranclp.rtrancl_refl]) simp_all
  with r d(3) show ?thesis by blast
qed

text \<open>
  C3 (leader completeness): everything a node has committed is in the log of every node that leads, then or
  later, a term at least as high as the committing node's.
\<close>

theorem leader_completeness:
  assumes "distinct N" and "reachable N timeout s" and "(cstep N)\<^sup>*\<^sup>* s s'"
    and "i \<in> set N" and "j \<in> set N" and "is_leader (rn_role (cl_node s' j))"
    and "rn_current_term (cl_node s i) \<le> rn_current_term (cl_node s' j)"
  shows "take (rn_commit_index (cl_node s i)) (rn_log (cl_node s' j)) =
         take (rn_commit_index (cl_node s i)) (rn_log (cl_node s i)) \<and>
         rn_commit_index (cl_node s i) \<le> length (rn_log (cl_node s' j))"
proof -
  obtain a where a: "sim N a s" using reachable_sim assms(1,2) by blast
  obtain b where b: "extends a b" "sim N b s'" "proto_inv (quorum_of N) b"
    using sim_later [OF assms(1) a assms(3)] by blast
  let ?k = "p_commit a i" and ?v = "p_cur b j"
  have oki: "node_ok N a i (cl_node s i)" and okj: "node_ok N b j (cl_node s' j)"
    using simD(2) a b(2) assms(4,5) by blast+
  have lead: "h_leader b ?v = Some j" "h_tlog b ?v = p_log b j"
    by (rule leader_facts [OF b(3) leader_role [OF b(2) assms(5,6)]])+
  have st: "settled (quorum_of N) b (p_cur a i) (p_log a i) ?k"
    by (rule settled_mono [OF b(1) settled_commit [OF simD(1) [OF a]] order_refl])
  have "take ?k (p_log b j) = take ?k (p_log a i)"
  proof (cases "?k = 0")
    case False
    then obtain u m where u: "u \<le> p_cur a i" "?k \<le> m" "chosen (quorum_of N) b u m"
        "take ?k (p_log a i) = take ?k (h_tlog b u)"
      using st by (auto simp: settled_def)
    have "u \<le> ?v" using u(1) assms(7) oki okj by (simp add: node_ok_def)
    then have "take m (h_tlog b ?v) = take m (h_tlog b u)"
      using maj.completeness [OF proto_invD(1,2,4) [OF b(3)] u(3)] lead(1) by (cases "u = ?v") auto
    then show ?thesis using maj.take_agree_le [OF _ u(2)] u(4) lead(2) by metis
  qed simp
  moreover have "?k \<le> length (p_log a i)" using st by (simp add: settled_def)
  ultimately show ?thesis
    using oki okj maj.take_agree_length by (auto simp: node_ok_def)
qed

theorem leader_completeness_witness:
  "\<exists>s'. reachable [1, 2, 3] (\<lambda>_. 1) s' \<and> is_leader (rn_role (cl_node s' 1)) \<and>
      rn_commit_index (cl_node s' 1) = 1 \<and>
      take 1 (rn_log (cl_node s' 1)) = [demo_entry] \<and> 1 \<le> length (rn_log (cl_node s' 1))"
proof -
  obtain s s' where d: "reachable [1, 2, 3] (\<lambda>_. 1) s" "(cstep [1, 2, 3])\<^sup>*\<^sup>* s s'"
      "is_leader (rn_role (cl_node s' 1))" "rn_log (cl_node s' 1) = [demo_entry]" "rn_commit_index (cl_node s' 1) = 1"
    by (rule demo_run)
  then have r: "reachable [1, 2, 3] (\<lambda>_. 1) s'" by (auto simp: reachable_def)
  have "take (rn_commit_index (cl_node s' 1)) (rn_log (cl_node s' 1)) =
         take (rn_commit_index (cl_node s' 1)) (rn_log (cl_node s' 1)) \<and>
         rn_commit_index (cl_node s' 1) \<le> length (rn_log (cl_node s' 1))"
    by (rule leader_completeness [OF _ r rtranclp.rtrancl_refl _ _ d(3)]) simp_all
  with r d show ?thesis by auto
qed

text \<open>
  C4 (log matching): if the logs of two nodes have an entry of the same term at the same index, they are
  equal up to and including that index.
\<close>

theorem log_matching_cluster:
  assumes "distinct N" and "reachable N timeout s" and "i \<in> set N" and "j \<in> set N"
    and "0 < k" and "term_at (rn_log (cl_node s i)) k = Some t" and "term_at (rn_log (cl_node s j)) k = Some t"
  shows "take k (rn_log (cl_node s i)) = take k (rn_log (cl_node s j))"
proof -
  obtain a where a: "sim N a s" using reachable_sim assms(1,2) by blast
  have log: "rn_log (cl_node s i) = p_log a i" "rn_log (cl_node s j) = p_log a j"
    using simD(2) [OF a] assms(3,4) by (auto simp: node_ok_def)
  obtain m where "k = Suc m" using assms(5) by (cases k) auto
  with assms(6,7) log show ?thesis
    using maj.log_matching [OF simD(1) [OF a], of m i j] by (auto split: if_splits)
qed

theorem log_matching_cluster_witness:
  "\<exists>s'. reachable [1, 2, 3] (\<lambda>_. 1) s' \<and> term_at (rn_log (cl_node s' 1)) 1 = Some 1 \<and>
      term_at (rn_log (cl_node s' 2)) 1 = Some 1 \<and>
      take 1 (rn_log (cl_node s' 1)) = take 1 (rn_log (cl_node s' 2))"
proof -
  obtain s s' where d: "reachable [1, 2, 3] (\<lambda>_. 1) s" "(cstep [1, 2, 3])\<^sup>*\<^sup>* s s'"
      "rn_log (cl_node s' 1) = [demo_entry]" "rn_log (cl_node s' 2) = [demo_entry]"
    by (rule demo_run)
  then have r: "reachable [1, 2, 3] (\<lambda>_. 1) s'" by (auto simp: reachable_def)
  have t: "term_at (rn_log (cl_node s' 1)) 1 = Some 1" "term_at (rn_log (cl_node s' 2)) 1 = Some 1"
    using d by (simp_all add: demo_entry_def)
  have "take 1 (rn_log (cl_node s' 1)) = take 1 (rn_log (cl_node s' 2))"
    by (rule log_matching_cluster [OF _ r _ _ _ t]) simp_all
  with r t show ?thesis by blast
qed

text \<open>
  C5 (durability and in-order delivery): between turns the disk of every node holds exactly its term, vote and
  log, so a restart recovers them; and the entries handed to the apply channel since the last restart
  are the first \<open>last_applied\<close> entries of the log, in index order, without gap or repetition. Crashes fall between effects:
  a storage operation is done or not done as a whole.
\<close>

theorem disk_and_apply_stream:
  assumes "distinct N" and "reachable N timeout s" and "i \<in> set N"
  shows "cl_disk s i = \<lparr>d_hard = node_hard (cl_node s i), d_log = rn_log (cl_node s i)\<rparr> \<and>
         cl_applied s i = take (rn_last_applied (cl_node s i)) (rn_log (cl_node s i)) \<and>
         map le_index (cl_applied s i) = [1..<Suc (rn_last_applied (cl_node s i))]"
proof -
  obtain a where a: "sim N a s" using reachable_sim assms(1,2) by blast
  have ok: "node_ok N a i (cl_node s i)" by (rule simD(2) [OF a assms(3)])
  have ap: "cl_applied s i = take (p_commit a i) (p_log a i)" by (rule simD(4) [OF a assms(3)])
  have idx: "indexed (p_log a i)" by (rule log_indexed [OF simD(1) [OF a]])
  have len: "p_commit a i \<le> length (p_log a i)" by (rule commit_le_length [OF simD(1) [OF a]])
  have "map le_index (take (p_commit a i) (p_log a i)) = [1..<Suc (p_commit a i)]"
    using idx len by (intro nth_equalityI) (auto simp: indexed_def simp del: upt_Suc)
  then show ?thesis
    using ok ap simD(3) [OF a assms(3)] by (simp add: node_ok_def synced_def del: upt_Suc)
qed

theorem disk_and_apply_stream_witness:
  "\<exists>s'. reachable [1, 2, 3] (\<lambda>_. 1) s' \<and> cl_applied s' 1 = [demo_entry] \<and>
      d_log (cl_disk s' 1) = [demo_entry] \<and> map le_index (cl_applied s' 1) = [1]"
proof -
  obtain s s' where d: "reachable [1, 2, 3] (\<lambda>_. 1) s" "(cstep [1, 2, 3])\<^sup>*\<^sup>* s s'"
      "cl_applied s' 1 = [demo_entry]" "rn_log (cl_node s' 1) = [demo_entry]"
    by (rule demo_run)
  then have r: "reachable [1, 2, 3] (\<lambda>_. 1) s'" by (auto simp: reachable_def)
  have "d_log (cl_disk s' 1) = rn_log (cl_node s' 1)"
    using disk_and_apply_stream [OF _ r, of 1] by simp
  with r d show ?thesis by (intro exI [of _ s']) (simp add: demo_entry_def)
qed

end
