(* ===== verification/Api_Applier.thy ===== *)
theory Api_Applier
  imports Wire Raft_Safety
begin

text \<open>
  The replicated state machine: the command language of \<^verbatim>\<open>src/apiserver/command.rs\<close>, the applier of
  \<^verbatim>\<open>src/apiserver/applier.rs\<close> and the apply loop of \<^verbatim>\<open>src/apiserver/raft_glue.rs\<close>. The five typed
  stores share one disk and one version counter; their joint specification is \<open>api_spec\<close>. The applier
  refines it, and together with the safety of Raft this gives that replicas which applied as many
  entries serve the same objects. The JSON codecs of the stored types are one record of parameters.
\<close>

subsection \<open>Commands\<close>

datatype 'j op =
    Op_Create 'j
  | Op_ReplaceSpec string 'j
  | Op_ReplaceStatus string string 'j
  | Op_Delete string string

record 'j store_command =
  sc_id :: string
  sc_kind :: string
  sc_op :: "'j op"

datatype 'j apply_outcome =
    Outcome_Ok 'j
  | Outcome_NotFound string
  | Outcome_AlreadyExists string
  | Outcome_Conflict string string
  | Outcome_Internal string

record 'j codecs =
  cx_pod :: "(pod, 'j) json"
  cx_rs :: "(replicaset, 'j) json"
  cx_node :: "(node, 'j) json"
  cx_svc :: "(service, 'j) json"
  cx_ep :: "(endpoints, 'j) json"
  cx_pod_status :: "(pod_status, 'j) json"
  cx_rs_status :: "(replicaset_status, 'j) json"
  cx_node_status :: "(node_status, 'j) json"
  cx_cmd :: "('j store_command, 'j) json"
  cx_error_text :: "io_error \<Rightarrow> string"

datatype api_event =
    Pod_event "pod watch_event"
  | Rs_event "replicaset watch_event"
  | Node_event "node watch_event"
  | Svc_event "service watch_event"
  | Ep_event "endpoints watch_event"

subsection \<open>The applier\<close>

fun outcome :: "(io_error \<Rightarrow> string) \<Rightarrow> ('a, 'j) json \<Rightarrow> store_error + 'a \<Rightarrow> 'j apply_outcome" where
  "outcome msg js (Inr obj) =
     (case js_to_value js obj of
        Inr v \<Rightarrow> Outcome_Ok v
      | Inl e \<Rightarrow> Outcome_Internal (''serialize result: '' @ e))"
| "outcome msg js (Inl (Store_NotFound n)) = Outcome_NotFound n"
| "outcome msg js (Inl (Store_AlreadyExists n)) = Outcome_AlreadyExists n"
| "outcome msg js (Inl (Store_Conflict current provided)) = Outcome_Conflict current provided"
| "outcome msg js (Inl Store_Sled) = Outcome_Internal (msg SledError)"
| "outcome msg js (Inl Store_Json) = Outcome_Internal (msg JsonError)"

definition outcome_of :: "(io_error \<Rightarrow> string) \<Rightarrow> ('a, 'j) json \<Rightarrow> ('s, 'a) store_result \<Rightarrow>
    's disk \<times> 'a watch_event list \<times> 'j apply_outcome" where
  "outcome_of msg js r = (case r of (dk, evs, res) \<Rightarrow> (dk, evs, outcome msg js res))"

fun apply_op :: "'s sled \<Rightarrow> (io_error \<Rightarrow> string) \<Rightarrow> ('a, 'j) json \<Rightarrow> 'a kind \<Rightarrow> ('j \<Rightarrow> 'a \<Rightarrow> 'a) \<Rightarrow>
    'j op \<Rightarrow> 's disk \<Rightarrow> 's disk \<times> 'a watch_event list \<times> 'j apply_outcome" where
  "apply_op sl msg js k set_status (Op_Create obj) dk =
     (case js_from_value js obj of
        Inr x \<Rightarrow> outcome_of msg js (create_prestamped sl js k dk x)
      | Inl e \<Rightarrow> (dk, [], Outcome_Internal (''bad create payload: '' @ e)))"
| "apply_op sl msg js k set_status (Op_ReplaceSpec name obj) dk =
     (case js_from_value js obj of
        Inr x \<Rightarrow> outcome_of msg js (replace_spec sl js k dk name x)
      | Inl e \<Rightarrow> (dk, [], Outcome_Internal (''bad replace payload: '' @ e)))"
| "apply_op sl msg js k set_status (Op_ReplaceStatus name rv status) dk =
     outcome_of msg js (replace_status sl js k dk name rv (set_status status))"
| "apply_op sl msg js k set_status (Op_Delete name rv) dk =
     outcome_of msg js (store_delete sl js k dk name rv)"

definition set_pod_status :: "'j codecs \<Rightarrow> 'j \<Rightarrow> pod \<Rightarrow> pod" where
  "set_pod_status cx status p =
     (case js_from_value (cx_pod_status cx) status of Inr s \<Rightarrow> p\<lparr>pod_status := Some s\<rparr> | Inl _ \<Rightarrow> p)"

definition set_rs_status :: "'j codecs \<Rightarrow> 'j \<Rightarrow> replicaset \<Rightarrow> replicaset" where
  "set_rs_status cx status r =
     (case js_from_value (cx_rs_status cx) status of Inr s \<Rightarrow> r\<lparr>rs_status := Some s\<rparr> | Inl _ \<Rightarrow> r)"

definition set_node_status :: "'j codecs \<Rightarrow> 'j \<Rightarrow> node \<Rightarrow> node" where
  "set_node_status cx status n =
     (case js_from_value (cx_node_status cx) status of Inr s \<Rightarrow> n\<lparr>node_status := Some s\<rparr> | Inl _ \<Rightarrow> n)"

definition tag :: "('a watch_event \<Rightarrow> api_event) \<Rightarrow> 's \<times> 'a watch_event list \<times> 'r \<Rightarrow> 's \<times> api_event list \<times> 'r" where
  "tag ev r = (case r of (dk, evs, res) \<Rightarrow> (dk, map ev evs, res))"

definition applier_apply :: "'s sled \<Rightarrow> 'j codecs \<Rightarrow> 'j store_command \<Rightarrow> 's disk \<Rightarrow> 's disk \<times> api_event list \<times> 'j apply_outcome" where
  "applier_apply sl cx cmd dk =
     (let kd = sc_kind cmd; msg = cx_error_text cx in
      if kd = kd_prefix Pod_kind then tag Pod_event (apply_op sl msg (cx_pod cx) Pod_kind (set_pod_status cx) (sc_op cmd) dk)
      else if kd = kd_prefix ReplicaSet_kind then tag Rs_event (apply_op sl msg (cx_rs cx) ReplicaSet_kind (set_rs_status cx) (sc_op cmd) dk)
      else if kd = kd_prefix Node_kind then tag Node_event (apply_op sl msg (cx_node cx) Node_kind (set_node_status cx) (sc_op cmd) dk)
      else if kd = kd_prefix Service_kind then tag Svc_event (apply_op sl msg (cx_svc cx) Service_kind (\<lambda>_ s. s) (sc_op cmd) dk)
      else if kd = kd_prefix Endpoints_kind then tag Ep_event (apply_op sl msg (cx_ep cx) Endpoints_kind (\<lambda>_ e. e) (sc_op cmd) dk)
      else (dk, [], Outcome_Internal (''unknown command kind: '' @ kd)))"

subsection \<open>The apply loop\<close>

text \<open>
  A replica's disk, the ids its handlers wait on, what it broadcast and the waiters it answered. One
  iteration of the loop consumes one committed entry; a command that does not decode is skipped.
\<close>

record ('s, 'j) replica =
  rp_disk :: "'s disk"
  rp_pending :: "string set"
  rp_events :: "api_event list"
  rp_resolved :: "(string \<times> 'j apply_outcome) list"

definition apply_entry :: "'s sled \<Rightarrow> 'j codecs \<Rightarrow> log_entry \<Rightarrow> ('s, 'j) replica \<Rightarrow> ('s, 'j) replica" where
  "apply_entry sl cx entry rp =
     (case js_from_slice (cx_cmd cx) (le_command entry) of
        Inl _ \<Rightarrow> rp
      | Inr cmd \<Rightarrow>
          (let (dk, evs, out) = applier_apply sl cx cmd (rp_disk rp); i = sc_id cmd in
           if i \<in> rp_pending rp
           then rp\<lparr>rp_disk := dk, rp_events := rp_events rp @ evs, rp_pending := rp_pending rp - {i},
                   rp_resolved := rp_resolved rp @ [(i, out)]\<rparr>
           else rp\<lparr>rp_disk := dk, rp_events := rp_events rp @ evs\<rparr>))"

definition apply_loop :: "'s sled \<Rightarrow> 'j codecs \<Rightarrow> log_entry list \<Rightarrow> ('s, 'j) replica \<Rightarrow> ('s, 'j) replica" where
  "apply_loop sl cx entries rp = fold (apply_entry sl cx) entries rp"

subsection \<open>The joint specification\<close>

record api_spec =
  ap_rv :: nat
  ap_pods :: "string \<rightharpoonup> pod"
  ap_rss :: "string \<rightharpoonup> replicaset"
  ap_nodes :: "string \<rightharpoonup> node"
  ap_svcs :: "string \<rightharpoonup> service"
  ap_eps :: "string \<rightharpoonup> endpoints"

text \<open>One kind's part of the joint specification, and how its operations act on the whole.\<close>

record 'a part =
  pa_get :: "api_spec \<Rightarrow> string \<rightharpoonup> 'a"
  pa_put :: "(string \<rightharpoonup> 'a) \<Rightarrow> api_spec \<Rightarrow> api_spec"

definition part_spec :: "'a part \<Rightarrow> api_spec \<Rightarrow> 'a spec" where
  "part_spec pa a = \<lparr>sp_rv = ap_rv a, sp_objs = pa_get pa a\<rparr>"

definition with_part :: "'a part \<Rightarrow> 'a spec \<Rightarrow> api_spec \<Rightarrow> api_spec" where
  "with_part pa sp a = (pa_put pa (sp_objs sp) a)\<lparr>ap_rv := sp_rv sp\<rparr>"

definition pods_part :: "pod part" where
  "pods_part = \<lparr>pa_get = ap_pods, pa_put = (\<lambda>m a. a\<lparr>ap_pods := m\<rparr>)\<rparr>"

definition rss_part :: "replicaset part" where
  "rss_part = \<lparr>pa_get = ap_rss, pa_put = (\<lambda>m a. a\<lparr>ap_rss := m\<rparr>)\<rparr>"

definition nodes_part :: "node part" where
  "nodes_part = \<lparr>pa_get = ap_nodes, pa_put = (\<lambda>m a. a\<lparr>ap_nodes := m\<rparr>)\<rparr>"

definition svcs_part :: "service part" where
  "svcs_part = \<lparr>pa_get = ap_svcs, pa_put = (\<lambda>m a. a\<lparr>ap_svcs := m\<rparr>)\<rparr>"

definition eps_part :: "endpoints part" where
  "eps_part = \<lparr>pa_get = ap_eps, pa_put = (\<lambda>m a. a\<lparr>ap_eps := m\<rparr>)\<rparr>"

lemmas part_defs = pods_part_def rss_part_def nodes_part_def svcs_part_def eps_part_def

fun decode_op :: "('a, 'j) json \<Rightarrow> ('j \<Rightarrow> 'a \<Rightarrow> 'a) \<Rightarrow> 'j op \<Rightarrow> string + 'a store_op" where
  "decode_op js set_status (Op_Create obj) =
     (case js_from_value js obj of Inr x \<Rightarrow> Inr (Create_op x) | Inl e \<Rightarrow> Inl (''bad create payload: '' @ e))"
| "decode_op js set_status (Op_ReplaceSpec name obj) =
     (case js_from_value js obj of Inr x \<Rightarrow> Inr (ReplaceSpec_op name x) | Inl e \<Rightarrow> Inl (''bad replace payload: '' @ e))"
| "decode_op js set_status (Op_ReplaceStatus name rv status) = Inr (ReplaceStatus_op name rv (set_status status))"
| "decode_op js set_status (Op_Delete name rv) = Inr (Delete_op name rv)"

definition spec_part :: "'a part \<Rightarrow> (io_error \<Rightarrow> string) \<Rightarrow> ('a, 'j) json \<Rightarrow> 'a kind \<Rightarrow> ('j \<Rightarrow> 'a \<Rightarrow> 'a) \<Rightarrow>
    'j op \<Rightarrow> api_spec \<Rightarrow> api_spec \<times> 'a watch_event list \<times> 'j apply_outcome" where
  "spec_part pa msg js k set_status oper a =
     (case decode_op js set_status oper of
        Inl e \<Rightarrow> (a, [], Outcome_Internal e)
      | Inr p \<Rightarrow> (case spec_exec k p (part_spec pa a) of
                    (sp, evs, r) \<Rightarrow> (with_part pa sp a, evs, outcome msg js r)))"

definition spec_apply :: "'j codecs \<Rightarrow> 'j store_command \<Rightarrow> api_spec \<Rightarrow> api_spec \<times> api_event list \<times> 'j apply_outcome" where
  "spec_apply cx cmd a =
     (let kd = sc_kind cmd; msg = cx_error_text cx in
      if kd = kd_prefix Pod_kind then tag Pod_event (spec_part pods_part msg (cx_pod cx) Pod_kind (set_pod_status cx) (sc_op cmd) a)
      else if kd = kd_prefix ReplicaSet_kind then tag Rs_event (spec_part rss_part msg (cx_rs cx) ReplicaSet_kind (set_rs_status cx) (sc_op cmd) a)
      else if kd = kd_prefix Node_kind then tag Node_event (spec_part nodes_part msg (cx_node cx) Node_kind (set_node_status cx) (sc_op cmd) a)
      else if kd = kd_prefix Service_kind then tag Svc_event (spec_part svcs_part msg (cx_svc cx) Service_kind (\<lambda>_ s. s) (sc_op cmd) a)
      else if kd = kd_prefix Endpoints_kind then tag Ep_event (spec_part eps_part msg (cx_ep cx) Endpoints_kind (\<lambda>_ e. e) (sc_op cmd) a)
      else (a, [], Outcome_Internal (''unknown command kind: '' @ kd)))"

definition spec_entry :: "'j codecs \<Rightarrow> log_entry \<Rightarrow> api_spec \<Rightarrow> api_spec" where
  "spec_entry cx entry a =
     (case js_from_slice (cx_cmd cx) (le_command entry) of Inl _ \<Rightarrow> a | Inr cmd \<Rightarrow> fst (spec_apply cx cmd a))"

definition all_hold :: "'j codecs \<Rightarrow> (bytes \<rightharpoonup> bytes) \<Rightarrow> api_spec \<Rightarrow> bool" where
  "all_hold cx v a \<longleftrightarrow>
     rv_holds v (ap_rv a) \<and> kind_holds (cx_pod cx) Pod_kind v (ap_pods a) \<and>
     kind_holds (cx_rs cx) ReplicaSet_kind v (ap_rss a) \<and> kind_holds (cx_node cx) Node_kind v (ap_nodes a) \<and>
     kind_holds (cx_svc cx) Service_kind v (ap_svcs a) \<and> kind_holds (cx_ep cx) Endpoints_kind v (ap_eps a)"

definition codecs_ok :: "'j codecs \<Rightarrow> bool" where
  "codecs_ok cx \<longleftrightarrow> json_laws (cx_pod cx) \<and> json_laws (cx_rs cx) \<and> json_laws (cx_node cx) \<and>
     json_laws (cx_svc cx) \<and> json_laws (cx_ep cx)"

subsection \<open>Refinement\<close>

lemma has_prefix_ascii: "has_prefix (ascii p) (ascii q) \<Longrightarrow> \<exists>r. q = p @ r"
proof -
  assume "has_prefix (ascii p) (ascii q)"
  then have "ascii (take (length p) q) = ascii p" by (simp add: has_prefix_def ascii_def take_map)
  then have "take (length p) q = p" by simp
  then show ?thesis by (metis append_take_drop_id)
qed

text \<open>A write to one kind leaves the other kinds' parts of the tree alone.\<close>

lemma kind_holds_outside:
  assumes "resource_kind k" and "resource_kind k'" and "kd_prefix k \<noteq> kd_prefix k'"
    and "same_outside k v v'" and "kind_holds js k' v objs"
  shows "kind_holds js k' v' objs"
proof -
  note known = resource_kind.prefix_known [OF assms(1)] resource_kind.prefix_known [OF assms(2)]
  have "v' key = v key" if "has_prefix (ascii (kd_prefix k')) key" for key
  proof -
    have "key \<noteq> store_key k name" for name
      using that assms(3) kind_prefix_free [OF known] by (auto simp: store_key_def dest!: has_prefix_ascii)
    moreover have "key \<noteq> RV_COUNTER_KEY" using that resource_kind.counter_prefix [OF assms(2)] by auto
    ultimately show ?thesis using assms(4) by (simp add: same_outside_def)
  qed
  then show ?thesis using assms(5) by (simp add: kind_holds_def)
qed

lemma apply_op_decode:
  "apply_op sl msg js k set_status oper dk =
     (case decode_op js set_status oper of
        Inl e \<Rightarrow> (dk, [], Outcome_Internal e)
      | Inr p \<Rightarrow> outcome_of msg js (store_exec sl js k p dk))"
  by (cases oper) (auto split: sum.splits)

lemma part_refines:
  assumes "resource_kind k" and "sled_laws sl view" and "json_laws js"
    and "\<And>m b. pa_get pa (pa_put pa m b) = m" and "\<And>b n. pa_get pa (b\<lparr>ap_rv := n\<rparr>) = pa_get pa b"
    and "rv_holds (view (dk_db dk)) (ap_rv a)" and "kind_holds js k (view (dk_db dk)) (pa_get pa a)"
  shows "\<exists>dk'. apply_op sl msg js k set_status oper dk = (dk', snd (spec_part pa msg js k set_status oper a)) \<and>
           rv_holds (view (dk_db dk')) (ap_rv (fst (spec_part pa msg js k set_status oper a))) \<and>
           kind_holds js k (view (dk_db dk')) (pa_get pa (fst (spec_part pa msg js k set_status oper a))) \<and>
           same_outside k (view (dk_db dk)) (view (dk_db dk'))"
proof (cases "decode_op js set_status oper")
  case (Inl e)
  then show ?thesis using assms(6,7) by (intro exI [of _ dk]) (simp add: apply_op_decode spec_part_def same_outside_def)
next
  case (Inr p)
  have "holds js k (view (dk_db dk)) (part_spec pa a)" using assms(6,7) by (simp add: holds_def part_spec_def)
  from resource_kind.store_exec_refines [OF assms(1-3) this, of p] obtain dk'
    where "store_exec sl js k p dk = (dk', snd (spec_exec k p (part_spec pa a)))"
      "holds js k (view (dk_db dk')) (fst (spec_exec k p (part_spec pa a)))"
      "same_outside k (view (dk_db dk)) (view (dk_db dk'))" by blast
  with Inr assms(4,5) show ?thesis
    by (intro exI [of _ dk']) (simp add: apply_op_decode spec_part_def outcome_of_def with_part_def holds_def case_prod_beta)
qed

lemma spec_part_frame:
  "fst (spec_part pa msg js k set_status oper a) = a \<or>
   (\<exists>m n. fst (spec_part pa msg js k set_status oper a) = (pa_put pa m a)\<lparr>ap_rv := n\<rparr>)"
  by (auto simp: spec_part_def with_part_def split: sum.splits prod.splits)

lemmas kinds_res = pod_res.resource_kind_axioms rs_res.resource_kind_axioms node_res.resource_kind_axioms
  svc_res.resource_kind_axioms ep_res.resource_kind_axioms

lemma kind_prefix_simps:
  "kd_prefix Pod_kind = ''pods/''" "kd_prefix ReplicaSet_kind = ''replicasets/''" "kd_prefix Node_kind = ''nodes/''"
  "kd_prefix Service_kind = ''services/''" "kd_prefix Endpoints_kind = ''endpoints/''"
  by (simp_all add: Pod_kind_def ReplicaSet_kind_def Node_kind_def Service_kind_def Endpoints_kind_def)

lemma tag_fst: "fst (tag ev r) = fst r" "tag ev (dk, snd r) = (dk, snd (tag ev r))"
  by (simp_all add: tag_def case_prod_beta)

lemma part_step:
  assumes "resource_kind k" and "sled_laws sl view" and "json_laws js"
    and get: "\<And>m b. pa_get pa (pa_put pa m b) = m" "\<And>b n. pa_get pa (b\<lparr>ap_rv := n\<rparr>) = pa_get pa b"
    and kh: "kind_holds js k (view (dk_db dk)) (pa_get pa a)" and h: "all_hold cx (view (dk_db dk)) a"
    and frame: "\<And>v m n. same_outside k (view (dk_db dk)) v \<Longrightarrow> rv_holds v n \<Longrightarrow> kind_holds js k v m \<Longrightarrow>
                  all_hold cx v ((pa_put pa m a)\<lparr>ap_rv := n\<rparr>)"
  shows "\<exists>dk'. tag ev (apply_op sl msg js k set_status oper dk) = (dk', snd (tag ev (spec_part pa msg js k set_status oper a))) \<and>
           all_hold cx (view (dk_db dk')) (fst (tag ev (spec_part pa msg js k set_status oper a)))"
proof -
  let ?r = "spec_part pa msg js k set_status oper a"
  have "rv_holds (view (dk_db dk)) (ap_rv a)" using h by (simp add: all_hold_def)
  from part_refines [OF assms(1-3) get this kh, of msg set_status oper] obtain dk'
    where d: "apply_op sl msg js k set_status oper dk = (dk', snd ?r)" "rv_holds (view (dk_db dk')) (ap_rv (fst ?r))"
      "kind_holds js k (view (dk_db dk')) (pa_get pa (fst ?r))" "same_outside k (view (dk_db dk)) (view (dk_db dk'))"
    by blast
  have "all_hold cx (view (dk_db dk')) (fst ?r)"
  proof (cases "decode_op js set_status oper")
    case (Inl e)
    then show ?thesis using h d(1) by (auto simp: spec_part_def apply_op_decode)
  next
    case (Inr p)
    then have "fst ?r = (pa_put pa (pa_get pa (fst ?r)) a)\<lparr>ap_rv := ap_rv (fst ?r)\<rparr>"
      by (simp add: spec_part_def with_part_def get split: prod.splits)
    then show ?thesis using frame [OF d(4,2,3)] by simp
  qed
  with d(1) show ?thesis by (intro exI [of _ dk']) (simp add: tag_fst)
qed

lemma applier_refines:
  assumes "sled_laws sl view" and "codecs_ok cx" and h: "all_hold cx (view (dk_db dk)) a"
  shows "\<exists>dk'. applier_apply sl cx cmd dk = (dk', snd (spec_apply cx cmd a)) \<and>
           all_hold cx (view (dk_db dk')) (fst (spec_apply cx cmd a))"
proof -
  note js = assms(2) [unfolded codecs_ok_def] and hs = h [unfolded all_hold_def]
  note step = part_step [OF _ assms(1) _ _ _ _ h]
  note defs = all_hold_def part_defs kind_prefix_simps
  have pods: "\<exists>dk'. tag Pod_event (apply_op sl msg (cx_pod cx) Pod_kind ss oper dk) =
        (dk', snd (tag Pod_event (spec_part pods_part msg (cx_pod cx) Pod_kind ss oper a))) \<and>
      all_hold cx (view (dk_db dk')) (fst (tag Pod_event (spec_part pods_part msg (cx_pod cx) Pod_kind ss oper a)))" for msg ss oper
    by (rule step [OF kinds_res(1)]) (use hs js in \<open>auto simp: defs intro: kind_holds_outside [OF kinds_res(1), where v = "view (dk_db dk)"] kinds_res\<close>)
  have rss: "\<exists>dk'. tag Rs_event (apply_op sl msg (cx_rs cx) ReplicaSet_kind ss oper dk) =
        (dk', snd (tag Rs_event (spec_part rss_part msg (cx_rs cx) ReplicaSet_kind ss oper a))) \<and>
      all_hold cx (view (dk_db dk')) (fst (tag Rs_event (spec_part rss_part msg (cx_rs cx) ReplicaSet_kind ss oper a)))" for msg ss oper
    by (rule step [OF kinds_res(2)]) (use hs js in \<open>auto simp: defs intro: kind_holds_outside [OF kinds_res(2), where v = "view (dk_db dk)"] kinds_res\<close>)
  have nodes: "\<exists>dk'. tag Node_event (apply_op sl msg (cx_node cx) Node_kind ss oper dk) =
        (dk', snd (tag Node_event (spec_part nodes_part msg (cx_node cx) Node_kind ss oper a))) \<and>
      all_hold cx (view (dk_db dk')) (fst (tag Node_event (spec_part nodes_part msg (cx_node cx) Node_kind ss oper a)))" for msg ss oper
    by (rule step [OF kinds_res(3)]) (use hs js in \<open>auto simp: defs intro: kind_holds_outside [OF kinds_res(3), where v = "view (dk_db dk)"] kinds_res\<close>)
  have svcs: "\<exists>dk'. tag Svc_event (apply_op sl msg (cx_svc cx) Service_kind ss oper dk) =
        (dk', snd (tag Svc_event (spec_part svcs_part msg (cx_svc cx) Service_kind ss oper a))) \<and>
      all_hold cx (view (dk_db dk')) (fst (tag Svc_event (spec_part svcs_part msg (cx_svc cx) Service_kind ss oper a)))" for msg ss oper
    by (rule step [OF kinds_res(4)]) (use hs js in \<open>auto simp: defs intro: kind_holds_outside [OF kinds_res(4), where v = "view (dk_db dk)"] kinds_res\<close>)
  have eps: "\<exists>dk'. tag Ep_event (apply_op sl msg (cx_ep cx) Endpoints_kind ss oper dk) =
        (dk', snd (tag Ep_event (spec_part eps_part msg (cx_ep cx) Endpoints_kind ss oper a))) \<and>
      all_hold cx (view (dk_db dk')) (fst (tag Ep_event (spec_part eps_part msg (cx_ep cx) Endpoints_kind ss oper a)))" for msg ss oper
    by (rule step [OF kinds_res(5)]) (use hs js in \<open>auto simp: defs intro: kind_holds_outside [OF kinds_res(5), where v = "view (dk_db dk)"] kinds_res\<close>)
  consider "sc_kind cmd = ''pods/''" | "sc_kind cmd = ''replicasets/''" | "sc_kind cmd = ''nodes/''"
    | "sc_kind cmd = ''services/''" | "sc_kind cmd = ''endpoints/''" | "sc_kind cmd \<notin> set kind_prefixes"
    by (auto simp: kind_prefixes_def)
  then show ?thesis
    by cases (use pods [of "cx_error_text cx" "set_pod_status cx" "sc_op cmd"] rss [of "cx_error_text cx" "set_rs_status cx" "sc_op cmd"]
        nodes [of "cx_error_text cx" "set_node_status cx" "sc_op cmd"] svcs [of "cx_error_text cx" "\<lambda>_ s. s" "sc_op cmd"]
        eps [of "cx_error_text cx" "\<lambda>_ e. e" "sc_op cmd"] h
        in \<open>simp_all add: applier_apply_def spec_apply_def kind_prefix_simps kind_prefixes_def Let_def\<close>)
qed

subsection \<open>Replicas\<close>

text \<open>Which entries a replica has applied decides what its disk holds, whoever waits on them.\<close>

lemma apply_entry_refines:
  assumes "sled_laws sl view" and "codecs_ok cx" and "all_hold cx (view (dk_db (rp_disk rp))) a"
  shows "all_hold cx (view (dk_db (rp_disk (apply_entry sl cx e rp)))) (spec_entry cx e a)"
proof (cases "js_from_slice (cx_cmd cx) (le_command e)")
  case (Inr cmd)
  obtain dk' where "applier_apply sl cx cmd (rp_disk rp) = (dk', snd (spec_apply cx cmd a))"
      "all_hold cx (view (dk_db dk')) (fst (spec_apply cx cmd a))"
    using applier_refines [OF assms] by blast
  with Inr show ?thesis by (simp add: apply_entry_def spec_entry_def case_prod_beta Let_def)
qed (use assms in \<open>simp add: apply_entry_def spec_entry_def\<close>)

lemma apply_loop_refines:
  assumes "sled_laws sl view" and "codecs_ok cx"
  shows "all_hold cx (view (dk_db (rp_disk rp))) a \<Longrightarrow>
         all_hold cx (view (dk_db (rp_disk (apply_loop sl cx es rp)))) (fold (spec_entry cx) es a)"
  by (induction es arbitrary: rp a) (simp_all add: apply_loop_def apply_entry_refines [OF assms])

text \<open>Everything a client can read from a replica.\<close>

definition api_reads :: "'s sled \<Rightarrow> 'j codecs \<Rightarrow> 's disk \<Rightarrow>
    (store_error + pod list \<times> nat) \<times> (store_error + replicaset list \<times> nat) \<times> (store_error + node list \<times> nat) \<times>
    (store_error + service list \<times> nat) \<times> (store_error + endpoints list \<times> nat)" where
  "api_reads sl cx dk =
     (store_list sl (cx_pod cx) Pod_kind dk dk, store_list sl (cx_rs cx) ReplicaSet_kind dk dk,
      store_list sl (cx_node cx) Node_kind dk dk, store_list sl (cx_svc cx) Service_kind dk dk,
      store_list sl (cx_ep cx) Endpoints_kind dk dk)"

lemma store_list_unique:
  assumes "sled_laws sl view" and "rv_holds (view (dk_db d1)) n" and "rv_holds (view (dk_db d2)) n"
    and "kind_holds js k (view (dk_db d1)) objs" and "kind_holds js k (view (dk_db d2)) objs"
  shows "store_list sl js k d1 d1 = store_list sl js k d2 d2"
proof -
  define sp where "sp = \<lparr>sp_rv = n, sp_objs = objs\<rparr>"
  have h: "holds js k (view (dk_db d1)) sp" "holds js k (view (dk_db d2)) sp"
    using assms(2-5) by (simp_all add: sp_def holds_def)
  obtain n1 where n1: "sorted_wrt (<) (map (store_key k) n1)" "set n1 = dom (sp_objs sp)"
      "store_list sl js k d1 d1 = Inr (map (the \<circ> sp_objs sp) n1, sp_rv sp)"
    using store_list_items [OF assms(1) h(1)] by blast
  obtain n2 where n2: "sorted_wrt (<) (map (store_key k) n2)" "set n2 = dom (sp_objs sp)"
      "store_list sl js k d2 d2 = Inr (map (the \<circ> sp_objs sp) n2, sp_rv sp)"
    using store_list_items [OF assms(1) h(2)] by blast
  have "map (store_key k) n1 = map (store_key k) n2"
    using n1(1,2) n2(1,2) by (intro strict_sorted_equal) (auto simp: strict_sorted_iff)
  then have "n1 = n2" by (simp add: inj_map_eq_map inj_def)
  then show ?thesis using n1(3) n2(3) by simp
qed

lemma api_reads_unique:
  "sled_laws sl view \<Longrightarrow> all_hold cx (view (dk_db d1)) a \<Longrightarrow> all_hold cx (view (dk_db d2)) a \<Longrightarrow>
   api_reads sl cx d1 = api_reads sl cx d2"
  unfolding api_reads_def all_hold_def
  by (intro arg_cong2 [where f = Pair]) (auto intro: store_list_unique [where view = view])

end
