(* ===== verification/Api_Versions.thy ===== *)
theory Api_Versions
  imports Wire
begin

text \<open>
  What the resource store promises its clients, proved on the specification and carried to
  \<^verbatim>\<open>src/apiserver/storage.rs\<close> by the refinement of theory \<^verbatim>\<open>Api_Storage\<close>: one global, gap-free sequence of
  resource versions; optimistic concurrency without lost updates; what a spec replacement keeps.
\<close>

definition ev_rv :: "'a kind \<Rightarrow> 'a watch_event \<Rightarrow> string" where
  "ev_rv k e = current_rv_of k (we_object e)"

text \<open>Every stored object carries a version the counter has already passed.\<close>

definition versioned :: "'a kind \<Rightarrow> 'a spec \<Rightarrow> bool" where
  "versioned k sp \<longleftrightarrow>
     (\<forall>name x. sp_objs sp name = Some x \<longrightarrow> (\<exists>r. 0 < r \<and> r \<le> sp_rv sp \<and> current_rv_of k x = show_nat r))"

lemma saturating_below: "n < u64_max \<Longrightarrow> saturating_succ n = Suc n"
  by (simp add: saturating_succ_def)

context resource_kind
begin

lemma set_rv_version [simp]: "current_rv_of k (set_rv k rv x) = show_nat rv"
  by (simp add: current_rv_of_def set_rv_def)

lemma carry_over_version [simp]: "current_rv_of k (carry_over k current rv x) = show_nat rv"
  by (simp add: current_rv_of_def carry_over_def)

text \<open>An operation either fails and changes nothing, or takes the next version and broadcasts once.\<close>

lemma spec_exec_cases:
  obtains (fail) e where "spec_exec k p sp = (sp, [], Inl e)"
  | (ok) x ty sp' where "spec_exec k p sp = (sp', [\<lparr>we_type = ty, we_object = x\<rparr>], Inr x)"
      "sp_rv sp' = saturating_succ (sp_rv sp)" "current_rv_of k x = show_nat (saturating_succ (sp_rv sp))"
      "\<forall>n y. sp_objs sp' n = Some y \<longrightarrow> y = x \<or> sp_objs sp n = Some y"
proof (cases p)
  case (Create_op obj)
  then show ?thesis using that by (cases "sp_objs sp (kd_name k obj)") (auto simp: spec_put_def)
next
  case (ReplaceSpec_op name obj)
  then show ?thesis using that
    by (cases "sp_objs sp name"; cases "check_rv k (the (sp_objs sp name)) (om_resource_version (kd_meta k obj))")
      (auto simp: spec_put_def spec_checked_def)
next
  case (ReplaceStatus_op name rv mutate)
  then show ?thesis using that
    by (cases "sp_objs sp name"; cases "check_rv k (the (sp_objs sp name)) (Some rv)")
      (auto simp: spec_put_def spec_checked_def)
next
  case (Delete_op name rv)
  then show ?thesis using that
    by (cases "sp_objs sp name"; cases "check_rv k (the (sp_objs sp name)) (Some rv)")
      (auto simp: spec_checked_def Let_def split: if_splits)
qed

lemma spec_exec_versioned:
  assumes "versioned k sp" and "sp_rv sp < u64_max"
  shows "versioned k (fst (spec_exec k p sp))"
  using assms(1)
proof (cases rule: spec_exec_cases [of p sp])
  case (ok x ty sp')
  have "\<exists>r. 0 < r \<and> r \<le> sp_rv sp' \<and> current_rv_of k y = show_nat r" if "sp_objs sp' n = Some y" for n y
  proof (cases "y = x")
    case True
    then show ?thesis using ok(2,3) saturating_below [OF assms(2)] by auto
  next
    case False
    then have "sp_objs sp n = Some y" using ok(4) that by blast
    then obtain r where "0 < r" "r \<le> sp_rv sp" "current_rv_of k y = show_nat r"
      using assms(1) by (auto simp: versioned_def)
    then show ?thesis using ok(2) saturating_below [OF assms(2)] by (intro exI [of _ r]) simp
  qed
  then show ?thesis using ok(1) by (simp add: versioned_def)
qed (use assms in simp)

lemma spec_run_versions:
  assumes "sp_rv sp + length ps \<le> u64_max"
  shows "sp_rv sp \<le> sp_rv (fst (spec_run k ps sp)) \<and>
         sp_rv (fst (spec_run k ps sp)) \<le> sp_rv sp + length ps \<and>
         map (ev_rv k) (fst (snd (spec_run k ps sp))) =
           map show_nat [Suc (sp_rv sp)..<Suc (sp_rv (fst (spec_run k ps sp)))]"
  using assms
proof (induction ps arbitrary: sp)
  case (Cons p ps)
  show ?case
  proof (cases rule: spec_exec_cases [of p sp])
    case (fail e)
    then show ?thesis using Cons.IH [of sp] Cons.prems by (auto simp: case_prod_beta Let_def)
  next
    case (ok x ty sp')
    have rv: "sp_rv sp' = Suc (sp_rv sp)" using ok(2) saturating_below Cons.prems by simp
    then have IH: "sp_rv sp' \<le> sp_rv (fst (spec_run k ps sp'))" "sp_rv (fst (spec_run k ps sp')) \<le> sp_rv sp' + length ps"
      "map (ev_rv k) (fst (snd (spec_run k ps sp'))) = map show_nat [Suc (sp_rv sp')..<Suc (sp_rv (fst (spec_run k ps sp')))]"
      using Cons.IH [of sp'] Cons.prems by auto
    have up: "[Suc (sp_rv sp)..<Suc (sp_rv (fst (spec_run k ps sp')))] =
        Suc (sp_rv sp) # [Suc (sp_rv sp')..<Suc (sp_rv (fst (spec_run k ps sp')))]"
      using IH(1) rv by (subst upt_conv_Cons) simp_all
    have "ev_rv k \<lparr>we_type = ty, we_object = x\<rparr> = show_nat (Suc (sp_rv sp))"
      using ok(3) rv ok(2) by (simp add: ev_rv_def)
    with IH up rv ok(1) show ?thesis
      by (simp add: case_prod_beta Let_def del: upt_Suc)
  qed
qed simp

lemma spec_run_versioned:
  "versioned k sp \<Longrightarrow> sp_rv sp + length ps \<le> u64_max \<Longrightarrow> versioned k (fst (spec_run k ps sp))"
proof (induction ps arbitrary: sp)
  case (Cons p ps)
  have "versioned k (fst (spec_exec k p sp))" using Cons.prems by (intro spec_exec_versioned) simp_all
  moreover have "sp_rv (fst (spec_exec k p sp)) + length ps \<le> u64_max"
    using spec_run_versions [of sp "[p]"] Cons.prems by (simp add: case_prod_beta Let_def)
  ultimately show ?case using Cons.IH by (simp add: case_prod_beta Let_def)
qed simp

text \<open>Once an object's version is passed, nobody can act on it again.\<close>

definition past :: "nat \<Rightarrow> string \<Rightarrow> 'a spec \<Rightarrow> bool" where
  "past r name sp \<longleftrightarrow> r < sp_rv sp \<and>
     (\<forall>x. sp_objs sp name = Some x \<longrightarrow> (\<exists>q > r. current_rv_of k x = show_nat q))"

lemma past_exec:
  assumes "past r name sp" and "sp_rv sp < u64_max"
  shows "past r name (fst (spec_exec k p sp))"
proof (cases rule: spec_exec_cases [of p sp])
  case (ok x ty sp')
  have "\<exists>q > r. current_rv_of k y = show_nat q" if "sp_objs sp' name = Some y" for y
  proof (cases "y = x")
    case True
    then show ?thesis using ok(3) saturating_below [OF assms(2)] assms(1) by (auto simp: past_def intro!: exI [of _ "Suc (sp_rv sp)"])
  next
    case False
    then show ?thesis using ok(4) that assms(1) by (auto simp: past_def)
  qed
  then show ?thesis using ok(1,2) saturating_below [OF assms(2)] assms(1) by (simp add: past_def)
qed (use assms in simp)

lemma past_run:
  "past r name sp \<Longrightarrow> sp_rv sp + length ps \<le> u64_max \<Longrightarrow> past r name (fst (spec_run k ps sp))"
proof (induction ps arbitrary: sp)
  case (Cons p ps)
  have "past r name (fst (spec_exec k p sp))" using Cons.prems by (intro past_exec) simp_all
  moreover have "sp_rv (fst (spec_exec k p sp)) + length ps \<le> u64_max"
    using spec_run_versions [of sp "[p]"] Cons.prems by (simp add: case_prod_beta Let_def)
  ultimately show ?case using Cons.IH by (simp add: case_prod_beta Let_def)
qed simp

lemma check_rv_stale:
  "current_rv_of k x = show_nat q \<Longrightarrow> q \<noteq> r \<Longrightarrow>
   check_rv k x (Some (show_nat r)) = Inl (Store_Conflict (show_nat q) (show_nat r))"
  by (simp add: check_rv_def show_nat_inj)

end

subsection \<open>The promises of the store\<close>

text \<open>The operations that act on a given version of a given object.\<close>

fun acts_on :: "'a kind \<Rightarrow> string \<Rightarrow> string \<Rightarrow> 'a store_op \<Rightarrow> bool" where
  "acts_on k name rv (Create_op obj) = False"
| "acts_on k name rv (ReplaceSpec_op n obj) = (n = name \<and> om_resource_version (kd_meta k obj) = Some rv)"
| "acts_on k name rv (ReplaceStatus_op n v mutate) = (n = name \<and> v = rv)"
| "acts_on k name rv (Delete_op n v) = (n = name \<and> v = rv)"

definition refused :: "string \<Rightarrow> string \<Rightarrow> store_error + 'a \<Rightarrow> bool" where
  "refused name rv r \<longleftrightarrow> r = Inl (Store_NotFound name) \<or> (\<exists>q. q \<noteq> rv \<and> r = Inl (Store_Conflict q rv))"

context resource_kind
begin

lemma acts_on_past:
  assumes "acts_on k name (show_nat r) p" and "past r name sp"
  shows "refused name (show_nat r) (snd (snd (spec_exec k p sp)))"
proof -
  have "\<exists>q. q \<noteq> show_nat r \<and> check_rv k x (Some (show_nat r)) = Inl (Store_Conflict q (show_nat r))"
    if x: "sp_objs sp name = Some x" for x
  proof -
    obtain q where "q > r" "current_rv_of k x = show_nat q" using assms(2) x by (auto simp: past_def)
    then show ?thesis using check_rv_stale [of x q r] by (intro exI [of _ "show_nat q"]) (auto simp: show_nat_inj)
  qed
  then show ?thesis
    using assms(1) by (cases p; cases "sp_objs sp name") (fastforce simp: spec_checked_def refused_def)+
qed

lemma acts_on_wins:
  assumes "acts_on k name (show_nat r) p" and "versioned k sp" and "sp_rv sp < u64_max"
    and "snd (snd (spec_exec k p sp)) = Inr y"
  shows "past r name (fst (spec_exec k p sp))"
proof -
  obtain x where x: "sp_objs sp name = Some x" and c: "check_rv k x (Some (show_nat r)) = Inr ()"
    using assms(1,4)
    by (cases p; cases "sp_objs sp name"; cases "check_rv k (the (sp_objs sp name)) (Some (show_nat r))")
      (auto simp: spec_checked_def)
  obtain q where q: "q \<le> sp_rv sp" "current_rv_of k x = show_nat q" using assms(2) x by (auto simp: versioned_def)
  then have r: "r \<le> sp_rv sp" using c by (cases "q = r") (simp_all add: check_rv_stale)
  note sat = saturating_below [OF assms(3)]
  have "\<exists>q > r. current_rv_of k z = show_nat q" if "sp_objs (fst (spec_exec k p sp)) name = Some z" for z
    using that assms(1) x c r sat
    by (cases p) (auto simp: spec_checked_def spec_put_def Let_def intro!: exI [of _ "Suc (sp_rv sp)"])
  moreover have "sp_rv (fst (spec_exec k p sp)) = Suc (sp_rv sp)"
    using assms(1) x c sat by (cases p) (auto simp: spec_checked_def spec_put_def Let_def)
  ultimately show ?thesis using r by (simp add: past_def)
qed

end

lemma spec_run_append:
  "spec_run k (ps @ [p]) sp =
     (let (sp1, evs1, rs) = spec_run k ps sp; (sp2, evs2, r) = spec_exec k p sp1
      in (sp2, evs1 @ evs2, rs @ [r]))"
  by (induction ps arbitrary: sp) (simp_all add: case_prod_beta Let_def)

text \<open>
  C13 (the store refines its specification): on a healthy tree and with a JSON library that reads back what it
  wrote, any sequence of writes gives exactly the results and broadcasts of the specification, error branches
  included, and leaves the disk holding the specification's objects and counter; no key outside the kind and the
  counter changes.
\<close>

theorem store_refines_spec:
  assumes "resource_kind k" and "sled_laws sl view" and "json_laws js" and "holds js k (view (dk_db dk)) sp"
  shows "\<exists>dk'. store_run sl js k ps dk = (dk', snd (spec_run k ps sp)) \<and>
           holds js k (view (dk_db dk')) (fst (spec_run k ps sp)) \<and>
           same_outside k (view (dk_db dk)) (view (dk_db dk'))"
  by (rule resource_kind.store_run_refines [OF assms])

definition empty_disk :: "(bytes, bytes) fmap disk" where
  "empty_disk = \<lparr>dk_db = fmempty, dk_rv_tree = fmempty\<rparr>"

definition empty_spec :: "'a spec" where
  "empty_spec = \<lparr>sp_rv = 0, sp_objs = Map.empty\<rparr>"

lemma empty_holds: "holds js k (fmlookup (dk_db empty_disk)) empty_spec"
  by (simp add: holds_def rv_holds_def kind_holds_def empty_disk_def empty_spec_def)

lemma empty_versioned: "versioned k empty_spec"
  by (simp add: versioned_def empty_spec_def)

definition demo_meta :: "string \<Rightarrow> object_meta" where
  "demo_meta name = object_meta_default\<lparr>om_name := name\<rparr>"

definition demo_pod :: "string \<Rightarrow> pod" where
  "demo_pod name =
     \<lparr>pod_api_version = ''v1'', pod_kind = ''Pod'', pod_metadata = demo_meta name,
      pod_spec = \<lparr>pc_containers = [\<lparr>ct_name = ''c'', ct_image = ''busybox'', ct_command = []\<rparr>], pc_node_name = None\<rparr>,
      pod_status = None\<rparr>"

definition with_rv :: "nat \<Rightarrow> pod \<Rightarrow> pod" where
  "with_rv r p = set_rv Pod_kind r p"

lemma show_nat_small: "show_nat 1 = ''1''"
  by (simp add: show_nat_def dec_digits.simps [of "Suc 0"] char_of_def bit_0)

theorem store_refines_spec_witness:
  "\<exists>dk'. store_run map_tree (wire_json wr_pod) Pod_kind [Create_op (demo_pod ''a''), Delete_op ''a'' ''7''] empty_disk =
      (dk', [\<lparr>we_type = Added, we_object = with_rv 1 (demo_pod ''a'')\<rparr>],
       [Inr (with_rv 1 (demo_pod ''a'')), Inl (Store_Conflict (show_nat 1) ''7'')])"
proof -
  have sat: "saturating_succ 0 = 1" by (simp add: saturating_succ_def u64_max_def)
  have ne: "show_nat 1 \<noteq> ''7''" unfolding show_nat_small by simp
  have "snd (spec_run Pod_kind [Create_op (demo_pod ''a''), Delete_op ''a'' ''7''] empty_spec) =
      ([\<lparr>we_type = Added, we_object = with_rv 1 (demo_pod ''a'')\<rparr>],
       [Inr (with_rv 1 (demo_pod ''a'')), Inl (Store_Conflict (show_nat 1) ''7'')])"
    using ne by (simp add: empty_spec_def sat spec_put_def spec_checked_def check_rv_def current_rv_of_def set_rv_def
      with_rv_def Pod_kind_def demo_pod_def demo_meta_def)
  then show ?thesis
    using store_refines_spec [OF pod_res.resource_kind_axioms map_tree_laws wire_json_laws [OF wr_pod_ok] empty_holds,
        of "[Create_op (demo_pod ''a''), Delete_op ''a'' ''7'']"] by metis
qed

text \<open>
  One gap-free version sequence: the broadcasts of any run carry consecutive resource versions, starting right
  after the counter's value before the run and ending at its value afterwards, so a watcher that sees version
  \<open>n\<close> then \<open>n + 2\<close> knows it missed one.
\<close>

theorem versions_gap_free:
  assumes "resource_kind k" and "sled_laws sl view" and "json_laws js" and "holds js k (view (dk_db dk)) sp"
    and "sp_rv sp + length ps \<le> u64_max"
  shows "\<exists>rv. store_current_rv sl (fst (store_run sl js k ps dk)) = Inr rv \<and> sp_rv sp \<le> rv \<and>
           map (ev_rv k) (fst (snd (store_run sl js k ps dk))) = map show_nat [Suc (sp_rv sp)..<Suc rv]"
proof -
  obtain dk' where dk': "store_run sl js k ps dk = (dk', snd (spec_run k ps sp))"
      "holds js k (view (dk_db dk')) (fst (spec_run k ps sp))"
    using resource_kind.store_run_refines [OF assms(1-4)] by blast
  have "store_current_rv sl dk' = Inr (sp_rv (fst (spec_run k ps sp)))"
    using sled_lawD(1) [OF assms(2)] dk'(2) by (simp add: store_current_rv_def holds_def rv_holds_def)
  then show ?thesis using resource_kind.spec_run_versions [OF assms(1,5)] dk'(1) by simp
qed

theorem versions_gap_free_witness:
  "map (ev_rv Pod_kind) (fst (snd (store_run map_tree (wire_json wr_pod) Pod_kind [Create_op (demo_pod ''a''), Create_op (demo_pod ''b'')] empty_disk)))
     = [show_nat 1, show_nat 2]"
proof -
  let ?ps = "[Create_op (demo_pod ''a''), Create_op (demo_pod ''b'')]" and ?sl = map_tree and ?js = "wire_json wr_pod"
  have sat: "saturating_succ 0 = 1" "saturating_succ 1 = 2" by (simp_all add: saturating_succ_def u64_max_def)
  have n: "length (fst (snd (spec_run Pod_kind ?ps empty_spec))) = 2"
    by (simp add: empty_spec_def sat spec_put_def Pod_kind_def demo_pod_def demo_meta_def)
  have le: "sp_rv (empty_spec :: pod spec) + length ?ps \<le> u64_max" by (simp add: empty_spec_def u64_max_def)
  obtain rv where rv: "map (ev_rv Pod_kind) (fst (snd (store_run ?sl ?js Pod_kind ?ps empty_disk))) = map show_nat [Suc 0..<Suc rv]"
    using versions_gap_free [OF pod_res.resource_kind_axioms map_tree_laws wire_json_laws [OF wr_pod_ok] empty_holds le]
    by (auto simp: empty_spec_def)
  have "fst (snd (store_run ?sl ?js Pod_kind ?ps empty_disk)) = fst (snd (spec_run Pod_kind ?ps empty_spec))"
    using pod_res.store_run_refines [OF map_tree_laws wire_json_laws [OF wr_pod_ok] empty_holds, of ?ps] by auto
  then have "length (map show_nat [Suc 0..<Suc rv]) = 2" using n rv by (metis length_map)
  then have "rv = 2" by (simp del: upt_Suc)
  then show ?thesis using rv by (simp add: upt_rec numeral_2_eq_2)
qed

text \<open>
  C14 (no lost update): of two clients that act on the same version of an object, only one can succeed. Once a
  spec replacement, status replacement or deletion that names version \<open>r\<close> has gone through, any later operation
  that names \<open>r\<close> is refused as a conflict or as not found, whatever was written in between, including
  a deletion and re-creation of the object.
\<close>

theorem no_lost_update:
  assumes "resource_kind k" and "sled_laws sl view" and "json_laws js" and "holds js k (view (dk_db dk)) sp"
    and "versioned k sp" and "sp_rv sp + length ps + 2 \<le> u64_max"
    and "acts_on k name (show_nat r) p" and "acts_on k name (show_nat r) q"
    and "hd (snd (snd (store_run sl js k (p # ps @ [q]) dk))) = Inr y"
  shows "refused name (show_nat r) (last (snd (snd (store_run sl js k (p # ps @ [q]) dk))))"
proof -
  let ?sp1 = "fst (spec_exec k p sp)" and ?sp2 = "fst (spec_run k ps (fst (spec_exec k p sp)))"
  have run: "snd (store_run sl js k (p # ps @ [q]) dk) = snd (spec_run k (p # ps @ [q]) sp)"
    using resource_kind.store_run_refines [OF assms(1-4), of "p # ps @ [q]"] by auto
  have ok: "snd (snd (spec_exec k p sp)) = Inr y"
    using assms(9) unfolding run by (simp add: case_prod_beta Let_def)
  have "sp_rv ?sp1 \<le> sp_rv sp + 1"
    using resource_kind.spec_run_versions [OF assms(1), of sp "[p]"] assms(6) by (simp add: case_prod_beta Let_def)
  then have "resource_kind.past k r name ?sp2"
    using assms(6) by (intro resource_kind.past_run [OF assms(1)] resource_kind.acts_on_wins [OF assms(1,7,5) _ ok]) simp_all
  then have "refused name (show_nat r) (snd (snd (spec_exec k q ?sp2)))"
    by (rule resource_kind.acts_on_past [OF assms(1,8)])
  moreover have "last (snd (snd (spec_run k (p # ps @ [q]) sp))) = snd (snd (spec_exec k q ?sp2))"
    by (simp add: spec_run_append case_prod_beta Let_def)
  ultimately show ?thesis unfolding run by simp
qed

definition demo_spec :: "pod spec" where
  "demo_spec = fst (spec_exec Pod_kind (Create_op (demo_pod ''a'')) empty_spec)"

theorem no_lost_update_witness:
  "\<exists>dk. hd (snd (snd (store_run map_tree (wire_json wr_pod) Pod_kind
        [Delete_op ''a'' (show_nat 1), Create_op (demo_pod ''a''), Delete_op ''a'' (show_nat 1)] dk))) =
          Inr (with_rv 2 (demo_pod ''a'')) \<and>
      refused ''a'' (show_nat 1) (last (snd (snd (store_run map_tree (wire_json wr_pod) Pod_kind
        [Delete_op ''a'' (show_nat 1), Create_op (demo_pod ''a''), Delete_op ''a'' (show_nat 1)] dk))))"
proof -
  let ?sl = map_tree and ?js = "wire_json wr_pod" and ?del = "Delete_op ''a'' (show_nat 1)" and ?mk = "Create_op (demo_pod ''a'')"
  note laws = map_tree_laws wire_json_laws [OF wr_pod_ok]
  have sat: "saturating_succ 0 = 1" "saturating_succ 1 = 2" by (simp_all add: saturating_succ_def u64_max_def)
  obtain dk :: "(bytes, bytes) fmap disk" where h: "holds ?js Pod_kind (fmlookup (dk_db dk)) demo_spec"
    using pod_res.store_exec_refines [OF laws empty_holds, of ?mk] unfolding demo_spec_def by blast
  have rv: "sp_rv demo_spec = 1" "sp_objs demo_spec ''a'' = Some (with_rv 1 (demo_pod ''a''))"
    by (simp_all add: demo_spec_def empty_spec_def spec_put_def sat Pod_kind_def demo_pod_def demo_meta_def set_rv_def with_rv_def)
  have v: "versioned Pod_kind demo_spec" unfolding demo_spec_def
    by (rule pod_res.spec_exec_versioned [OF empty_versioned]) (simp add: empty_spec_def u64_max_def)
  have le: "sp_rv demo_spec + length [?mk] + 2 \<le> u64_max" by (simp add: rv u64_max_def)
  have "hd (snd (snd (spec_run Pod_kind (?del # [?mk] @ [?del]) demo_spec))) = Inr (with_rv 2 (demo_pod ''a''))"
    using rv sat by (simp add: case_prod_beta Let_def spec_checked_def check_rv_def current_rv_of_def with_rv_def set_rv_def Pod_kind_def demo_pod_def)
  then have hd: "hd (snd (snd (store_run ?sl ?js Pod_kind (?del # [?mk] @ [?del]) dk))) = Inr (with_rv 2 (demo_pod ''a''))"
    using pod_res.store_run_refines [OF laws h, of "?del # [?mk] @ [?del]"] by auto
  have "refused ''a'' (show_nat 1) (last (snd (snd (store_run ?sl ?js Pod_kind (?del # [?mk] @ [?del]) dk))))"
    by (rule no_lost_update [OF pod_res.resource_kind_axioms laws h v le _ _ hd]) simp_all
  with hd show ?thesis by auto
qed

end
