(* ===== verification/Api_Watch.thy ===== *)
theory Api_Watch
  imports Api_Versions
begin

text \<open>
  Watch streams, \<^verbatim>\<open>src/apiserver/watch.rs\<close>: a snapshot replayed as additions, then the live broadcasts newer than
  the snapshot. What the receiver of the broadcast channel yields (an event, a report of skipped
  events, or the end) is an argument, as are the contents of the disk at the two moments \<open>list\<close>
  reads it. A client that folds the stream into a map reaches the store's content.
\<close>

datatype watch_error =
    Watch_Lagged nat
  | Watch_Store store_error

datatype 'a recv =
    Recv_ok "'a watch_event"
  | Recv_lagged nat
  | Recv_closed

definition resource_rv :: "'a kind \<Rightarrow> 'a \<Rightarrow> nat" where
  "resource_rv k x =
     (case om_resource_version (kd_meta k x) of
        None \<Rightarrow> 0
      | Some s \<Rightarrow> (case parse_u64 s of Some n \<Rightarrow> n | None \<Rightarrow> 0))"

fun live_events :: "'a kind \<Rightarrow> nat \<Rightarrow> ('a \<Rightarrow> bool) \<Rightarrow> 'a recv list \<Rightarrow> (watch_error + 'a watch_event) list" where
  "live_events k snapshot_rv filt [] = []"
| "live_events k snapshot_rv filt (Recv_ok ev # rest) =
     (if snapshot_rv < resource_rv k (we_object ev) \<and> filt (we_object ev)
      then Inr ev # live_events k snapshot_rv filt rest
      else live_events k snapshot_rv filt rest)"
| "live_events k snapshot_rv filt (Recv_lagged skipped # rest) = [Inl (Watch_Lagged skipped)]"
| "live_events k snapshot_rv filt (Recv_closed # rest) = []"

definition stream_events ::
  "'s sled \<Rightarrow> ('a, 'j) json \<Rightarrow> 'a kind \<Rightarrow> 's disk \<Rightarrow> 's disk \<Rightarrow> nat \<Rightarrow> ('a \<Rightarrow> bool) \<Rightarrow> 'a recv list \<Rightarrow>
   (watch_error + 'a watch_event) list" where
  "stream_events sl js k dk_scan dk_rv from_rv filt recvs =
     (case store_list sl js k dk_scan dk_rv of
        Inl e \<Rightarrow> [Inl (Watch_Store e)]
      | Inr (snapshot, snapshot_rv) \<Rightarrow>
          map (\<lambda>x. Inr \<lparr>we_type = Added, we_object = x\<rparr>) (filter (\<lambda>x. from_rv < resource_rv k x \<and> filt x) snapshot)
          @ live_events k snapshot_rv filt recvs)"

subsection \<open>The client's view\<close>

definition cache_event :: "'a kind \<Rightarrow> 'a watch_event \<Rightarrow> (string \<rightharpoonup> 'a) \<Rightarrow> string \<rightharpoonup> 'a" where
  "cache_event k ev m =
     m(kd_name k (we_object ev) := (if we_type ev = Deleted then None else Some (we_object ev)))"

text \<open>Objects are stored under their own name, and no operation renames one.\<close>

definition named :: "'a kind \<Rightarrow> 'a spec \<Rightarrow> bool" where
  "named k sp \<longleftrightarrow> (\<forall>n x. sp_objs sp n = Some x \<longrightarrow> kd_name k x = n)"

fun keeps_names :: "'a kind \<Rightarrow> 'a store_op \<Rightarrow> bool" where
  "keeps_names k (Create_op obj) = True"
| "keeps_names k (ReplaceSpec_op name obj) = (kd_name k obj = name)"
| "keeps_names k (ReplaceStatus_op name rv mutate) = (\<forall>x. kd_name k (mutate x) = kd_name k x)"
| "keeps_names k (Delete_op name rv) = True"

lemma resource_rv_shown: "n \<le> u64_max \<Longrightarrow> current_rv_of k x = show_nat n \<Longrightarrow> resource_rv k x = n"
  by (cases "om_resource_version (kd_meta k x)")
    (auto simp: current_rv_of_def resource_rv_def parse_u64_def parse_show dest!: sym [of "[]"])

context resource_kind
begin

lemma set_rv_name [simp]: "kd_name k (set_rv k rv x) = kd_name k x"
  by (simp add: set_rv_def)

lemma carry_over_name [simp]: "kd_name k (carry_over k current rv x) = kd_name k x"
  by (simp add: carry_over_def)

lemma spec_exec_cache:
  assumes "named k sp" and "keeps_names k p"
  shows "fold (cache_event k) (fst (snd (spec_exec k p sp))) (sp_objs sp) = sp_objs (fst (spec_exec k p sp))"
    and "named k (fst (spec_exec k p sp))"
  using assms
  by (cases p; auto simp: spec_checked_def spec_put_def cache_event_def named_def Let_def split: option.splits sum.splits)+

lemma spec_run_cache:
  assumes "named k sp" and "list_all (keeps_names k) ps"
  shows "fold (cache_event k) (fst (snd (spec_run k ps sp))) (sp_objs sp) = sp_objs (fst (spec_run k ps sp)) \<and>
         named k (fst (spec_run k ps sp))"
  using assms
proof (induction ps arbitrary: sp)
  case (Cons p ps)
  then show ?case using spec_exec_cache [of sp p] Cons.IH [of "fst (spec_exec k p sp)"]
    by (simp add: case_prod_beta Let_def del: spec_exec.simps)
qed simp

lemma event_rvs:
  assumes "sp_rv sp + length ps \<le> u64_max" and "ev \<in> set (fst (snd (spec_run k ps sp)))"
  shows "sp_rv sp < resource_rv k (we_object ev)" and "resource_rv k (we_object ev) \<le> sp_rv (fst (spec_run k ps sp))"
proof -
  note v = spec_run_versions [OF assms(1)]
  have "ev_rv k ev \<in> set (map show_nat [Suc (sp_rv sp)..<Suc (sp_rv (fst (spec_run k ps sp)))])"
    using v assms(2) by (metis image_eqI set_map)
  then obtain n where n: "ev_rv k ev = show_nat n" "sp_rv sp < n" "n \<le> sp_rv (fst (spec_run k ps sp))" by auto
  then have "resource_rv k (we_object ev) = n"
    using v assms(1) by (intro resource_rv_shown) (simp_all add: ev_rv_def)
  with n show "sp_rv sp < resource_rv k (we_object ev)"
    and "resource_rv k (we_object ev) \<le> sp_rv (fst (spec_run k ps sp))" by simp_all
qed

end

lemma live_events_old:
  "(\<And>ev. ev \<in> set evs \<Longrightarrow> resource_rv k (we_object ev) \<le> rv) \<Longrightarrow>
   live_events k rv filt (map Recv_ok evs @ rest) = live_events k rv filt rest"
  by (induction evs) (auto simp: not_less)

lemma live_events_new:
  "(\<And>ev. ev \<in> set evs \<Longrightarrow> rv < resource_rv k (we_object ev)) \<Longrightarrow>
   live_events k rv (\<lambda>_. True) (map Recv_ok evs) = map Inr evs"
  by (induction evs) auto

lemma catch_up_cache:
  assumes "distinct names" and "\<And>n. n \<in> set names \<Longrightarrow> kd_name k (f n) = n"
  shows "fold (cache_event k) (map (\<lambda>x. \<lparr>we_type = Added, we_object = x\<rparr>) (map f names)) m =
         (\<lambda>n. if n \<in> set names then Some (f n) else m n)"
  using assms by (induction names arbitrary: m) (auto simp: cache_event_def fun_eq_iff)

text \<open>The last event about a name decides what a client that folds the events holds under it.\<close>

definition last_about :: "'a kind \<Rightarrow> string \<Rightarrow> 'a watch_event list \<Rightarrow> 'a watch_event option" where
  "last_about k name evs =
     (case filter (\<lambda>ev. kd_name k (we_object ev) = name) (rev evs) of [] \<Rightarrow> None | ev # _ \<Rightarrow> Some ev)"

lemma last_about_simps [simp]:
  "last_about k name [] = None"
  "last_about k name (evs @ [ev]) = (if kd_name k (we_object ev) = name then Some ev else last_about k name evs)"
  by (simp_all add: last_about_def)

lemma last_about_filter:
  "last_about k name evs = None \<Longrightarrow> last_about k name (filter P evs) = None"
  "last_about k name evs = Some ev \<Longrightarrow> P ev \<Longrightarrow> last_about k name (filter P evs) = Some ev"
  by (induction evs rule: rev_induct) (auto split: if_splits)

lemma cache_last:
  "fold (cache_event k) evs m name =
     (case last_about k name evs of
        None \<Rightarrow> m name
      | Some ev \<Rightarrow> if we_type ev = Deleted then None else Some (we_object ev))"
  by (induction evs rule: rev_induct) (auto simp: cache_event_def split: option.splits)

text \<open>What the catch-up phase leaves under a name: the scanned object was sent, or the client had it before.\<close>

definition caught_up :: "'a kind \<Rightarrow> nat \<Rightarrow> ('a \<Rightarrow> bool) \<Rightarrow> 'a option \<Rightarrow> 'a option \<Rightarrow> bool" where
  "caught_up k from_rv filt scanned cached \<longleftrightarrow>
     (case scanned of None \<Rightarrow> cached = None | Some x \<Rightarrow> from_rv < resource_rv k x \<and> filt x \<or> cached = Some x)"

lemma store_list_two:
  assumes "sled_laws sl view" and "holds js k (view (dk_db dk1)) sp1" and "holds js k (view (dk_db dk2)) sp2"
  obtains names where "sorted_wrt (<) (map (store_key k) names)" and "set names = dom (sp_objs sp1)"
    and "store_list sl js k dk1 dk2 = Inr (map (the \<circ> sp_objs sp1) names, sp_rv sp2)"
proof -
  obtain names where n: "sorted_wrt (<) (map (store_key k) names)" "set names = dom (sp_objs sp1)"
      "store_list sl js k dk1 dk1 = Inr (map (the \<circ> sp_objs sp1) names, sp_rv sp1)"
    using store_list_items [OF assms(1,2)] by blast
  moreover have "store_current_rv sl dk2 = Inr (sp_rv sp2)"
    using sled_lawD(1) [OF assms(1)] assms(3) by (simp add: store_current_rv_def holds_def rv_holds_def)
  ultimately show ?thesis by (intro that [of names]) (auto simp: store_list_def split: sum.splits)
qed

abbreviation catch_up_names :: "'a kind \<Rightarrow> nat \<Rightarrow> ('a \<Rightarrow> bool) \<Rightarrow> (string \<rightharpoonup> 'a) \<Rightarrow> string list \<Rightarrow> string list" where
  "catch_up_names k from_rv filt objs \<equiv> filter (\<lambda>n. from_rv < resource_rv k (the (objs n)) \<and> filt (the (objs n)))"

text \<open>The events a stream delivers when the scan, the counter and the channel come from three stages of a run.\<close>

lemma stream_delivers:
  assumes "sled_laws sl view" and "holds js k (view (dk_db dk1)) sp1" and "holds js k (view (dk_db dk2)) sp2"
    and old: "\<And>ev. ev \<in> set evs \<Longrightarrow> resource_rv k (we_object ev) \<le> sp_rv sp2"
    and new: "\<And>ev. ev \<in> set evs' \<Longrightarrow> sp_rv sp2 < resource_rv k (we_object ev)"
  obtains names where "distinct names" and "set names = dom (sp_objs sp1)"
    and "\<And>tail. stream_events sl js k dk1 dk2 from_rv filt (map Recv_ok (evs @ evs') @ tail) =
      map Inr (map (\<lambda>x. \<lparr>we_type = Added, we_object = x\<rparr>)
          (map (the \<circ> sp_objs sp1) (catch_up_names k from_rv filt (sp_objs sp1) names))
        @ filter (\<lambda>ev. filt (we_object ev)) evs') @ live_events k (sp_rv sp2) filt tail"
proof -
  obtain names where n: "sorted_wrt (<) (map (store_key k) names)" "set names = dom (sp_objs sp1)"
      "store_list sl js k dk1 dk2 = Inr (map (the \<circ> sp_objs sp1) names, sp_rv sp2)"
    by (rule store_list_two [OF assms(1-3)])
  have "distinct names" using n(1) by (auto simp: strict_sorted_iff distinct_map)
  moreover have "live_events k (sp_rv sp2) filt (map Recv_ok evs' @ tail) =
      map Inr (filter (\<lambda>ev. filt (we_object ev)) evs') @ live_events k (sp_rv sp2) filt tail" for tail
    using new by (induction evs') auto
  ultimately show ?thesis
    using n(2) by (intro that [of names])
      (auto simp: stream_events_def n(3) live_events_old [OF old] filter_map comp_def)
qed

lemma replayed:
  assumes names: "distinct names" "set names = dom objs" and nm: "\<forall>n x. objs n = Some x \<longrightarrow> kd_name k x = n"
    and evs: "evs = map (\<lambda>x. \<lparr>we_type = Added, we_object = x\<rparr>) (map (the \<circ> objs) (catch_up_names k from_rv filt objs names)) @
      filter (\<lambda>ev. filt (we_object ev)) live"
  shows "last_about k name live = Some ev \<Longrightarrow> filt (we_object ev) \<Longrightarrow>
      fold (cache_event k) evs m name = (if we_type ev = Deleted then None else Some (we_object ev))"
    and "last_about k name live = None \<Longrightarrow> caught_up k from_rv filt (objs name) (m name) \<Longrightarrow> fold (cache_event k) evs m name = objs name"
proof -
  let ?sent = "catch_up_names k from_rv filt objs names"
  have catch: "fold (cache_event k) (map (\<lambda>x. \<lparr>we_type = Added, we_object = x\<rparr>) (map (the \<circ> objs) ?sent)) m =
      (\<lambda>n. if n \<in> set ?sent then Some (the (objs n)) else m n)"
    using names nm by (subst catch_up_cache) auto
  have held: "fold (cache_event k) evs m name =
      (case last_about k name (filter (\<lambda>ev. filt (we_object ev)) live) of
         None \<Rightarrow> if name \<in> set ?sent then Some (the (objs name)) else m name
       | Some ev \<Rightarrow> if we_type ev = Deleted then None else Some (we_object ev))"
    unfolding evs fold_append comp_apply cache_last [of _ "filter _ live"] catch by (rule refl)
  show "fold (cache_event k) evs m name = (if we_type ev = Deleted then None else Some (we_object ev))"
    if "last_about k name live = Some ev" "filt (we_object ev)"
    unfolding held last_about_filter(2) [OF that(1), where P = "\<lambda>ev. filt (we_object ev)", OF that(2)] by simp
  show "fold (cache_event k) evs m name = objs name"
    if "last_about k name live = None" "caught_up k from_rv filt (objs name) (m name)"
    unfolding held last_about_filter(1) [OF that(1)] using that(2) names(2) by (auto simp: caught_up_def split: option.splits)
qed

text \<open>
  C15 (what a watch shows): subscribe, let any writes happen (\<open>ps\<close>), scan the objects, let more writes happen (\<open>gs\<close>), read
  the counter, let more writes happen (\<open>qs\<close>). Whatever version the client resumes from, whatever its filter and whatever it
  held before, the stream is a list of events \<open>evs\<close>, followed by the lag error when the channel reports skipped events. Folding
  them into its map, the client ends as follows for a name. If the name was written after the counter was read and the
  filter passes the last of these events, it holds what the store holds at the end. If the name was not written after
  the counter was read and the catch-up covers it (the scanned object is newer than the resumed version and passes the filter, or
  the client held the same as the scan), it holds what the scan saw, which is what the store holds at the end
  unless the name was written between the scan and the reading of the counter: those writes are lost. In particular, a
  client that starts from version 0 without a filter, with no write in between, ends with exactly the store's objects.
\<close>

theorem watch_converges:
  assumes "resource_kind k" and "sled_laws sl view" and "json_laws js" and "holds js k (view (dk_db dk)) sp"
    and "versioned k sp" and "named k sp" and "list_all (keeps_names k) (ps @ gs @ qs)"
    and "sp_rv sp + length ps + length gs + length qs \<le> u64_max"
    and "store_run sl js k ps dk = (dk1, evs1, rs1)" and "store_run sl js k gs dk1 = (dk2, evs2, rs2)"
    and "store_run sl js k qs dk2 = (dk3, evs3, rs3)"
  shows "\<exists>evs. stream_events sl js k dk1 dk2 from_rv filt (map Recv_ok (evs1 @ evs2 @ evs3)) = map Inr evs \<and>
    (\<forall>skipped rest. stream_events sl js k dk1 dk2 from_rv filt (map Recv_ok (evs1 @ evs2 @ evs3) @ Recv_lagged skipped # rest) =
       map Inr evs @ [Inl (Watch_Lagged skipped)]) \<and>
    (\<forall>m name. let held = fold (cache_event k) evs m name in
       (\<forall>ev. last_about k name evs3 = Some ev \<longrightarrow> filt (we_object ev) \<longrightarrow> store_get sl js k dk3 name = Inr held) \<and>
       (\<forall>x. last_about k name evs3 = None \<longrightarrow> store_get sl js k dk1 name = Inr x \<longrightarrow> caught_up k from_rv filt x (m name) \<longrightarrow>
          held = x \<and> (last_about k name evs2 = None \<longrightarrow> store_get sl js k dk3 name = Inr held))) \<and>
    (gs = [] \<and> from_rv = 0 \<and> filt = (\<lambda>_. True) \<longrightarrow>
       (\<forall>name. store_get sl js k dk3 name = Inr (fold (cache_event k) evs Map.empty name)))"
proof -
  note run = resource_kind.store_run_refines [OF assms(1-3)] and cache = resource_kind.spec_run_cache [OF assms(1)]
  define sp1 where "sp1 = fst (spec_run k ps sp)"
  define sp2 where "sp2 = fst (spec_run k gs sp1)"
  define sp3 where "sp3 = fst (spec_run k qs sp2)"
  have h1: "holds js k (view (dk_db dk1)) sp1" "evs1 = fst (snd (spec_run k ps sp))"
    using run [OF assms(4), of ps] assms(9) by (auto simp: sp1_def dest: sym)
  have h2: "holds js k (view (dk_db dk2)) sp2" "evs2 = fst (snd (spec_run k gs sp1))"
    using run [OF h1(1), of gs] assms(10) by (auto simp: sp2_def dest: sym)
  have h3: "holds js k (view (dk_db dk3)) sp3" "evs3 = fst (snd (spec_run k qs sp2))"
    using run [OF h2(1), of qs] assms(11) by (auto simp: sp3_def dest: sym)
  note rvs = resource_kind.spec_run_versions [OF assms(1)]
  have le1: "sp_rv sp + length ps \<le> u64_max" using assms(8) by simp
  have le2: "sp_rv sp1 + length gs \<le> u64_max" using assms(8) rvs [of sp ps] by (simp add: sp1_def)
  have mono: "sp_rv sp1 \<le> sp_rv sp2" using rvs [OF le2] by (simp add: sp2_def)
  have le3: "sp_rv sp2 + length qs \<le> u64_max" using assms(8) rvs [OF le1] rvs [OF le2] by (simp add: sp1_def sp2_def)
  note ev_rvs = resource_kind.event_rvs [OF assms(1)]
  have old: "resource_rv k (we_object ev) \<le> sp_rv sp2" if "ev \<in> set (evs1 @ evs2)" for ev
    using that ev_rvs(2) [OF le1] ev_rvs(2) [OF le2] mono unfolding h1(2) h2(2) sp1_def [symmetric] sp2_def [symmetric] by fastforce
  have new: "sp_rv sp2 < resource_rv k (we_object ev)" if "ev \<in> set evs3" for ev using ev_rvs(1) [OF le3] that h3(2) by simp
  have n1: "named k sp1" using cache [OF assms(6)] assms(7) by (simp add: sp1_def)
  have n2: "named k sp2" "fold (cache_event k) evs2 (sp_objs sp1) = sp_objs sp2"
    using cache [OF n1, of gs] assms(7) by (simp_all add: sp2_def h2(2))
  have n3: "fold (cache_event k) evs3 (sp_objs sp2) = sp_objs sp3" using cache [OF n2(1), of qs] assms(7) by (simp add: sp3_def h3(2))
  obtain names where names: "distinct names" "set names = dom (sp_objs sp1)"
    and stream: "\<And>tail. stream_events sl js k dk1 dk2 from_rv filt (map Recv_ok ((evs1 @ evs2) @ evs3) @ tail) =
      map Inr (map (\<lambda>x. \<lparr>we_type = Added, we_object = x\<rparr>)
          (map (the \<circ> sp_objs sp1) (catch_up_names k from_rv filt (sp_objs sp1) names))
        @ filter (\<lambda>ev. filt (we_object ev)) evs3) @ live_events k (sp_rv sp2) filt tail"
    using stream_delivers [OF assms(2) h1(1) h2(1) old new] by blast
  define evs where "evs = map (\<lambda>x. \<lparr>we_type = Added, we_object = x\<rparr>) (map (the \<circ> sp_objs sp1)
      (catch_up_names k from_rv filt (sp_objs sp1) names)) @ filter (\<lambda>ev. filt (we_object ev)) evs3"
  note replay = replayed [OF names n1 [unfolded named_def] evs_def]
  have late: "sp_objs sp3 name = fold (cache_event k) evs m name"
    if "last_about k name evs3 = Some ev" "filt (we_object ev)" for m name ev
    unfolding replay(1) [OF that] n3 [symmetric] cache_last [of _ evs3] that(1) by simp
  note scanned = replay(2)
  have same: "sp_objs sp3 name = sp_objs sp1 name" if "last_about k name evs3 = None" "last_about k name evs2 = None" for name
    using fun_cong [OF n3, of name] fun_cong [OF n2(2), of name] that by (simp add: cache_last)
  have get: "store_get sl js k dk1 name = Inr (sp_objs sp1 name)" "store_get sl js k dk3 name = Inr (sp_objs sp3 name)" for name
    by (rule store_get_item [OF assms(2) h1(1)], rule store_get_item [OF assms(2) h3(1)])
  have plain: "sp_objs sp3 name = fold (cache_event k) evs Map.empty name" if "gs = []" "from_rv = 0" "filt = (\<lambda>_. True)" for name
  proof (cases "last_about k name evs3")
    case None
    have v1: "versioned k sp1" unfolding sp1_def by (rule resource_kind.spec_run_versioned [OF assms(1,5) le1])
    have "from_rv < resource_rv k x" if x: "sp_objs sp1 name = Some x" for x
    proof -
      obtain r where "0 < r" "r \<le> sp_rv sp1" "current_rv_of k x = show_nat r" using v1 x by (auto simp: versioned_def)
      then show ?thesis using le2 \<open>from_rv = 0\<close> resource_rv_shown [of r k x] by simp
    qed
    then have "caught_up k from_rv filt (sp_objs sp1 name) None" using that(3) by (simp add: caught_up_def split: option.split)
    moreover have "last_about k name evs2 = None" using that(1) h2(2) by simp
    ultimately show ?thesis using scanned [OF None, of Map.empty] same [OF None] by simp
  next
    case (Some ev)
    then show ?thesis using late [OF Some] that(3) by simp
  qed
  have "stream_events sl js k dk1 dk2 from_rv filt (map Recv_ok (evs1 @ evs2 @ evs3)) = map Inr evs"
    using stream [of "[]"] by (simp add: evs_def)
  moreover have "stream_events sl js k dk1 dk2 from_rv filt (map Recv_ok (evs1 @ evs2 @ evs3) @ Recv_lagged skipped # rest) =
      map Inr evs @ [Inl (Watch_Lagged skipped)]" for skipped rest
    using stream [of "Recv_lagged skipped # rest"] by (simp add: evs_def)
  ultimately show ?thesis
    using late scanned same plain by (intro exI [of _ evs]) (auto simp: Let_def get)
qed

lemma empty_named: "named k empty_spec"
  by (simp add: named_def empty_spec_def)

lemma empty_scan: "sl_scan_prefix map_tree (dk_db empty_disk) p = []"
  by (simp add: map_tree_def empty_disk_def sorted_list_of_fset.rep_eq)

theorem watch_converges_witness:
  "\<exists>evs dk1 evs1 rs1 dk2 evs2 rs2.
      store_run map_tree (wire_json wr_pod) Pod_kind [Create_op (demo_pod ''a'')] empty_disk = (dk1, evs1, rs1) \<and>
      store_run map_tree (wire_json wr_pod) Pod_kind [Create_op (demo_pod ''b''), Delete_op ''a'' (show_nat 1)] dk1 = (dk2, evs2, rs2) \<and>
      stream_events map_tree (wire_json wr_pod) Pod_kind dk1 dk1 0 (\<lambda>_. True) (map Recv_ok (evs1 @ evs2)) = map Inr evs \<and>
      (\<forall>name. store_get map_tree (wire_json wr_pod) Pod_kind dk2 name = Inr (fold (cache_event Pod_kind) evs Map.empty name))"
proof -
  let ?js = "wire_json wr_pod" and ?ps = "[Create_op (demo_pod ''a'')]"
    and ?qs = "[Create_op (demo_pod ''b''), Delete_op ''a'' (show_nat 1)]"
  obtain dk1 evs1 rs1 where 1: "store_run map_tree ?js Pod_kind ?ps empty_disk = (dk1, evs1, rs1)" by (metis surj_pair)
  obtain dk2 evs2 rs2 where 2: "store_run map_tree ?js Pod_kind ?qs dk1 = (dk2, evs2, rs2)" by (metis surj_pair)
  have 0: "store_run map_tree ?js Pod_kind [] dk1 = (dk1, [], [])" by simp
  have le: "sp_rv (empty_spec :: pod spec) + length ?ps + length ([] :: pod store_op list) + length ?qs \<le> u64_max"
    by (simp add: empty_spec_def u64_max_def)
  have names: "list_all (keeps_names Pod_kind) (?ps @ [] @ ?qs)" by simp
  from watch_converges [OF pod_res.resource_kind_axioms map_tree_laws wire_json_laws [OF wr_pod_ok] empty_holds
      empty_versioned empty_named names le 1 0 2, of 0 "\<lambda>_. True"]
  show ?thesis using 1 2 by (simp only: append_Nil simp_thms) blast
qed

text \<open>
  A watcher that falls behind is told: when the channel reports skipped events, the stream delivers what came
  before, then ends with the lag error, whatever would follow; when the snapshot cannot be read, the
  stream is that one error. Events are never skipped silently.
\<close>

theorem watch_errors_end_stream:
  assumes "store_list sl js k dk_scan dk_rv = r"
  shows "(case r of
            Inl e \<Rightarrow> stream_events sl js k dk_scan dk_rv from_rv filt recvs = [Inl (Watch_Store e)]
          | Inr _ \<Rightarrow> stream_events sl js k dk_scan dk_rv from_rv filt (map Recv_ok evs @ Recv_lagged n # rest) =
                     stream_events sl js k dk_scan dk_rv from_rv filt (map Recv_ok evs) @ [Inl (Watch_Lagged n)])"
proof -
  have "live_events k rv filt (map Recv_ok evs @ Recv_lagged n # rest) =
      live_events k rv filt (map Recv_ok evs) @ [Inl (Watch_Lagged n)]" for rv
    by (induction evs) auto
  with assms show ?thesis by (auto simp: stream_events_def split: sum.splits)
qed

theorem watch_errors_end_stream_witness:
  "stream_events map_tree (wire_json wr_pod) Pod_kind empty_disk empty_disk 0 (\<lambda>_. True)
     [Recv_ok \<lparr>we_type = Added, we_object = with_rv 1 (demo_pod ''a'')\<rparr>, Recv_lagged 44, Recv_closed] =
     [Inr \<lparr>we_type = Added, we_object = with_rv 1 (demo_pod ''a'')\<rparr>, Inl (Watch_Lagged 44)]"
proof -
  let ?ev = "\<lparr>we_type = Added, we_object = with_rv 1 (demo_pod ''a'')\<rparr>"
  have l: "store_list map_tree (wire_json wr_pod) Pod_kind empty_disk empty_disk = Inr ([], 0)"
    by (simp add: store_list_def empty_scan store_current_rv_def) (simp add: map_tree_def empty_disk_def)
  have "resource_rv Pod_kind (with_rv 1 (demo_pod ''a'')) = 1"
    by (rule resource_rv_shown) (simp_all add: u64_max_def with_rv_def)
  then have "stream_events map_tree (wire_json wr_pod) Pod_kind empty_disk empty_disk 0 (\<lambda>_. True) (map Recv_ok [?ev]) = [Inr ?ev]"
    by (simp add: stream_events_def l)
  then show ?thesis
    using watch_errors_end_stream [OF l, of 0 "\<lambda>_. True" _ "[?ev]" 44 "[Recv_closed]"] by simp
qed

text \<open>
  The proviso on the snapshot matters: \<open>list\<close> scans first and reads the counter afterwards. A write between the two is
  neither in the scan nor newer than the counter, so the stream never shows it.
\<close>

lemma watch_gap:
  "\<exists>dk ev. store_run map_tree (wire_json wr_pod) Pod_kind [Create_op (demo_pod ''a'')] empty_disk = (dk, [ev], [Inr (we_object ev)]) \<and>
      store_get map_tree (wire_json wr_pod) Pod_kind dk ''a'' = Inr (Some (we_object ev)) \<and>
      stream_events map_tree (wire_json wr_pod) Pod_kind empty_disk dk 0 (\<lambda>_. True) [Recv_ok ev] = []"
proof -
  let ?js = "wire_json wr_pod" and ?ps = "[Create_op (demo_pod ''a'')]" and ?x = "with_rv 1 (demo_pod ''a'')"
  note laws = map_tree_laws wire_json_laws [OF wr_pod_ok]
  have sat: "saturating_succ 0 = 1" by (simp add: saturating_succ_def u64_max_def)
  have run: "spec_run Pod_kind ?ps empty_spec =
      (\<lparr>sp_rv = 1, sp_objs = [''a'' \<mapsto> ?x]\<rparr>, [\<lparr>we_type = Added, we_object = ?x\<rparr>], [Inr ?x])"
    by (simp add: empty_spec_def sat spec_put_def Pod_kind_def demo_pod_def demo_meta_def set_rv_def with_rv_def)
  obtain dk where dk: "store_run map_tree ?js Pod_kind ?ps empty_disk = (dk, [\<lparr>we_type = Added, we_object = ?x\<rparr>], [Inr ?x])"
      "holds ?js Pod_kind (fmlookup (dk_db dk)) \<lparr>sp_rv = 1, sp_objs = [''a'' \<mapsto> ?x]\<rparr>"
    using pod_res.store_run_refines [OF laws empty_holds, of ?ps] unfolding run by auto
  have "store_current_rv map_tree dk = Inr 1"
    using dk(2) sled_lawD(1) [OF map_tree_laws] by (simp add: store_current_rv_def holds_def rv_holds_def)
  then have "store_list map_tree ?js Pod_kind empty_disk dk = Inr ([], 1)"
    by (simp add: store_list_def empty_scan)
  moreover have "resource_rv Pod_kind ?x = 1"
    by (rule resource_rv_shown) (simp_all add: u64_max_def with_rv_def)
  ultimately show ?thesis
    using dk(1) store_get_item [OF map_tree_laws dk(2), of "''a''"]
    by (intro exI [of _ dk] exI [of _ "\<lparr>we_type = Added, we_object = ?x\<rparr>"]) (simp add: stream_events_def)
qed

end
