(* ===== verification/Api_Server.thy ===== *)
theory Api_Server
  imports Api_Applier Api_Watch Text_Ops
begin

text \<open>
  The HTTP front: the write side of \<^verbatim>\<open>src/apiserver/raft_glue.rs\<close> and every handler of
  \<^verbatim>\<open>src/apiserver/handlers.rs\<close>. A handler runs on a replica and returns the new replica with a reply, an
  API error (the \<open>?\<close> of the source) or a panic. Requests arrive decoded. What a request needs from outside is
  its environment: the tree and codecs, the write path, fresh identifiers and the time, and what the rest
  of the replica (the Raft shell and the apply loop) does with a proposed command until the handler is
  answered or gives up.
\<close>

subsection \<open>Errors\<close>

datatype api_error =
    Api_NotFound string
  | Api_AlreadyExists string
  | Api_Conflict string string
  | Api_BadRequest string
  | Api_Internal string
  | Api_Redirect string

fun from_store_error :: "(io_error \<Rightarrow> string) \<Rightarrow> store_error \<Rightarrow> api_error" where
  "from_store_error msg (Store_NotFound n) = Api_NotFound n"
| "from_store_error msg (Store_AlreadyExists n) = Api_AlreadyExists n"
| "from_store_error msg (Store_Conflict current provided) = Api_Conflict current provided"
| "from_store_error msg Store_Sled = Api_Internal (msg SledError)"
| "from_store_error msg Store_Json = Api_Internal (msg JsonError)"

fun error_text :: "api_error \<Rightarrow> string" where
  "error_text (Api_NotFound n) = ''not found: '' @ n"
| "error_text (Api_AlreadyExists n) = ''already exists: '' @ n"
| "error_text (Api_Conflict current provided) = ''conflict: current rv '' @ current @ '', provided '' @ provided"
| "error_text (Api_BadRequest m) = ''bad request: '' @ m"
| "error_text (Api_Internal m) = ''internal: '' @ m"
| "error_text (Api_Redirect url) = ''redirect to '' @ url"

record status =
  su_kind :: string
  su_api_version :: string
  su_code :: nat
  su_message :: string
  su_reason :: string

record http_error =
  he_code :: nat
  he_location :: "string option"
  he_body :: "status option"

definition status_response :: "nat \<Rightarrow> string \<Rightarrow> api_error \<Rightarrow> http_error" where
  "status_response code reason e =
     \<lparr>he_code = code, he_location = None,
      he_body = Some \<lparr>su_kind = ''Status'', su_api_version = ''v1'', su_code = code, su_message = error_text e, su_reason = reason\<rparr>\<rparr>"

fun into_response :: "api_error \<Rightarrow> http_error" where
  "into_response (Api_Redirect url) = \<lparr>he_code = 307, he_location = Some url, he_body = None\<rparr>"
| "into_response (Api_NotFound n) = status_response 404 ''NotFound'' (Api_NotFound n)"
| "into_response (Api_AlreadyExists n) = status_response 409 ''AlreadyExists'' (Api_AlreadyExists n)"
| "into_response (Api_Conflict current provided) = status_response 409 ''Conflict'' (Api_Conflict current provided)"
| "into_response (Api_BadRequest m) = status_response 400 ''BadRequest'' (Api_BadRequest m)"
| "into_response (Api_Internal m) = status_response 500 ''Internal'' (Api_Internal m)"

subsection \<open>The proposer\<close>

record proposer =
  pr_id :: node_id
  pr_leader :: "node_id option"
  pr_peer_apis :: "node_id \<rightharpoonup> string"

definition ensure_leader :: "proposer \<Rightarrow> api_error + unit" where
  "ensure_leader pr =
     (case pr_leader pr of
        Some l \<Rightarrow>
          (if l = pr_id pr then Inr ()
           else (case pr_peer_apis pr l of
                   Some url \<Rightarrow> Inl (Api_Redirect url)
                 | None \<Rightarrow> Inl (Api_Internal (''unknown leader '' @ show_nat l))))
      | None \<Rightarrow> Inl (Api_Internal ''no leader elected yet; retry''))"

fun outcome_to_result :: "'j apply_outcome \<Rightarrow> api_error + 'j" where
  "outcome_to_result (Outcome_Ok v) = Inr v"
| "outcome_to_result (Outcome_NotFound n) = Inl (Api_NotFound n)"
| "outcome_to_result (Outcome_AlreadyExists n) = Inl (Api_AlreadyExists n)"
| "outcome_to_result (Outcome_Conflict current provided) = Inl (Api_Conflict current provided)"
| "outcome_to_result (Outcome_Internal m) = Inl (Api_Internal m)"

text \<open>How the wait for a proposed command ends; a dropped sender and a timeout are the same branch.\<close>

datatype 'j fate =
    Channel_closed
  | Resolved "'j apply_outcome"
  | Not_resolved

type_synonym ('s, 'j) rest = "bytes \<Rightarrow> ('s, 'j) replica \<Rightarrow> ('s, 'j) replica \<times> 'j fate"

definition submit :: "'j codecs \<Rightarrow> ('s, 'j) rest \<Rightarrow> proposer \<Rightarrow> 'j store_command \<Rightarrow> ('s, 'j) replica \<Rightarrow>
    ('s, 'j) replica \<times> (api_error + 'j)" where
  "submit cx run pr cmd rp =
     (case ensure_leader pr of
        Inl e \<Rightarrow> (rp, Inl e)
      | Inr _ \<Rightarrow>
          (let i = sc_id cmd; waiting = rp\<lparr>rp_pending := insert i (rp_pending rp)\<rparr>;
               sweep = (\<lambda>r. r\<lparr>rp_pending := rp_pending r - {i}\<rparr>)
           in (case js_to_vec (cx_cmd cx) cmd of
                 Inl e \<Rightarrow> (waiting, Inl (Api_Internal (''encode command: '' @ cx_error_text cx e)))
               | Inr b \<Rightarrow>
                   (case run b waiting of
                      (rp', Channel_closed) \<Rightarrow> (sweep rp', Inl (Api_Internal ''raft proposer channel closed''))
                    | (rp', Resolved out) \<Rightarrow> (rp', outcome_to_result out)
                    | (rp', Not_resolved) \<Rightarrow> (sweep rp', Inl (Api_Internal ''write timed out (not committed)''))))))"

text \<open>A full inbox drops the message.\<close>

definition deliver :: "nat \<Rightarrow> (node_id \<times> message) list \<Rightarrow> node_id \<Rightarrow> message \<Rightarrow> (node_id \<times> message) list" where
  "deliver capacity inbox sender msg = (if length inbox < capacity then inbox @ [(sender, msg)] else inbox)"

text \<open>
  The redirect layer; \<open>header_text\<close> and \<open>header_value\<close> say which strings the HTTP library accepts as header
  text.
\<close>

definition append_path_to_redirect :: "(string \<Rightarrow> bool) \<Rightarrow> (string \<Rightarrow> bool) \<Rightarrow> string \<Rightarrow> nat \<times> string option \<Rightarrow> nat \<times> string option" where
  "append_path_to_redirect header_text header_value path_and_query resp =
     (case resp of (code, loc) \<Rightarrow>
        (case loc of
           None \<Rightarrow> resp
         | Some base \<Rightarrow>
             (if code = 307 \<and> header_text base \<and> length (filter (\<lambda>c. c = CHR ''/'') base) = 2 \<and>
                 header_value (base @ path_and_query)
              then (code, Some (base @ path_and_query)) else resp)))"

subsection \<open>Handlers\<close>

datatype write_path = Direct | Raft proposer

record ('s, 'j) env =
  en_sled :: "'s sled"
  en_cx :: "'j codecs"
  en_write :: write_path
  en_uuid :: string
  en_now :: string
  en_cmd_id :: string
  en_run :: "('s, 'j) rest"

datatype 'x result =
    Reply 'x
  | Fail api_error
  | Panic

type_synonym ('s, 'j, 'x) handler = "('s, 'j) replica \<Rightarrow> ('s, 'j) replica \<times> 'x result"

definition h_ok :: "'x \<Rightarrow> ('s, 'j, 'x) handler" where
  "h_ok x rp = (rp, Reply x)"

definition h_fail :: "api_error \<Rightarrow> ('s, 'j, 'x) handler" where
  "h_fail e rp = (rp, Fail e)"

definition h_bind :: "('s, 'j, 'x) handler \<Rightarrow> ('x \<Rightarrow> ('s, 'j, 'y) handler) \<Rightarrow> ('s, 'j, 'y) handler" where
  "h_bind f g rp =
     (case f rp of (rp', Reply x) \<Rightarrow> g x rp' | (rp', Fail e) \<Rightarrow> (rp', Fail e) | (rp', Panic) \<Rightarrow> (rp', Panic))"

definition h_try :: "api_error + 'x \<Rightarrow> ('s, 'j, 'x) handler" where
  "h_try r = (case r of Inl e \<Rightarrow> h_fail e | Inr x \<Rightarrow> h_ok x)"

text \<open>A call of a store: reads leave the disk alone, writes broadcast on the channel of their kind.\<close>

definition h_read :: "('s, 'j) env \<Rightarrow> ('s disk \<Rightarrow> store_error + 'x) \<Rightarrow> ('s, 'j, 'x) handler" where
  "h_read en f rp =
     (case f (rp_disk rp) of
        Inl e \<Rightarrow> (rp, Fail (from_store_error (cx_error_text (en_cx en)) e))
      | Inr x \<Rightarrow> (rp, Reply x))"

definition h_write :: "('s, 'j) env \<Rightarrow> ('a watch_event \<Rightarrow> api_event) \<Rightarrow> ('s disk \<Rightarrow> ('s, 'a) store_result) \<Rightarrow> ('s, 'j, 'a) handler" where
  "h_write en ev f rp =
     (case f (rp_disk rp) of (dk, evs, r) \<Rightarrow>
        (rp\<lparr>rp_disk := dk, rp_events := rp_events rp @ map ev evs\<rparr>,
         (case r of Inl e \<Rightarrow> Fail (from_store_error (cx_error_text (en_cx en)) e) | Inr x \<Rightarrow> Reply x)))"

definition h_submit :: "('s, 'j) env \<Rightarrow> proposer \<Rightarrow> 'j store_command \<Rightarrow> ('s, 'j, 'j) handler" where
  "h_submit en pr c rp =
     (case submit (en_cx en) (en_run en) pr c rp of
        (rp', Inl e) \<Rightarrow> (rp', Fail e)
      | (rp', Inr v) \<Rightarrow> (rp', Reply v))"

subsection \<open>Replies\<close>

record 'a list_body =
  lb_kind :: string
  lb_api_version :: string
  lb_items :: "'a list"

datatype ('a, 'j) body =
    Typed 'a
  | Value 'j
  | Items "'a list_body"
  | Watch nat "'a \<Rightarrow> bool"

type_synonym ('a, 'j) response = "nat \<times> ('a, 'j) body"

definition PodList_new :: "pod list \<Rightarrow> pod list_body" where
  "PodList_new items = \<lparr>lb_kind = ''PodList'', lb_api_version = ''v1'', lb_items = items\<rparr>"

definition ReplicaSetList_new :: "replicaset list \<Rightarrow> replicaset list_body" where
  "ReplicaSetList_new items = \<lparr>lb_kind = ''ReplicaSetList'', lb_api_version = ''apps/v1'', lb_items = items\<rparr>"

definition NodeList_new :: "node list \<Rightarrow> node list_body" where
  "NodeList_new items = \<lparr>lb_kind = ''NodeList'', lb_api_version = ''v1'', lb_items = items\<rparr>"

definition ServiceList_new :: "service list \<Rightarrow> service list_body" where
  "ServiceList_new items = \<lparr>lb_kind = ''ServiceList'', lb_api_version = ''v1'', lb_items = items\<rparr>"

definition EndpointsList_new :: "endpoints list \<Rightarrow> endpoints list_body" where
  "EndpointsList_new items = \<lparr>lb_kind = ''EndpointsList'', lb_api_version = ''v1'', lb_items = items\<rparr>"

record list_watch_params =
  lw_watch :: "bool option"
  lw_resource_version :: "string option"
  lw_field_selector :: "string option"

text \<open>The body of a watch: each event as JSON with a newline, an error ends the connection.\<close>

definition watch_frame :: "('a watch_event \<Rightarrow> io_error + bytes) \<Rightarrow> (io_error \<Rightarrow> string) \<Rightarrow> (watch_error \<Rightarrow> string) \<Rightarrow>
    watch_error + 'a watch_event \<Rightarrow> string + bytes" where
  "watch_frame to_vec msg watch_msg r =
     (case r of
        Inr ev \<Rightarrow> (case to_vec ev of Inl e \<Rightarrow> Inl (msg e) | Inr b \<Rightarrow> Inr (b @ [10]))
      | Inl e \<Rightarrow> Inl (watch_msg e))"

end
