(* ===== verification/Api_Handlers.thy ===== *)
theory Api_Handlers
  imports Api_Server
begin

text \<open>
  The request handlers of \<^verbatim>\<open>src/apiserver/handlers.rs\<close>, in the order of the file, and the route table of
  \<^verbatim>\<open>src/apiserver/routes.rs\<close>. The five kinds repeat four write shapes (create, replace the spec, replace
  the status, delete), each with a Raft branch and a direct branch; the shapes are the \<open>*_write\<close> definitions.
\<close>

subsection \<open>Commands\<close>

definition cmd :: "('s, 'j) env \<Rightarrow> string \<Rightarrow> 'j op \<Rightarrow> 'j store_command" where
  "cmd en kind oper = \<lparr>sc_id = en_cmd_id en, sc_kind = kind, sc_op = oper\<rparr>"

definition to_value :: "('a, 'j) json \<Rightarrow> 'a \<Rightarrow> api_error + 'j" where
  "to_value js x =
     (case js_to_value js x of Inl e \<Rightarrow> Inl (Api_Internal (''encode payload: '' @ e)) | Inr v \<Rightarrow> Inr v)"

definition create_cmd :: "('s, 'j) env \<Rightarrow> ('a, 'j) json \<Rightarrow> 'a kind \<Rightarrow> 'a \<Rightarrow> api_error + 'j store_command" where
  "create_cmd en js k x =
     (case to_value js x of Inl e \<Rightarrow> Inl e | Inr v \<Rightarrow> Inr (cmd en (kd_prefix k) (Op_Create v)))"

subsection \<open>The write shapes\<close>

definition create_write :: "('s, 'j) env \<Rightarrow> ('a, 'j) json \<Rightarrow> 'a kind \<Rightarrow> ('a watch_event \<Rightarrow> api_event) \<Rightarrow> 'a \<Rightarrow>
    ('s, 'j, ('a, 'j) response) handler" where
  "create_write en js k ev x =
     (case en_write en of
        Raft pr \<Rightarrow>
          h_bind (h_try (create_cmd en js k (stamp_for_create k (en_uuid en) (en_now en) x))) (\<lambda>c.
          h_bind (h_submit en pr c) (\<lambda>v. h_ok (201, Value v)))
      | Direct \<Rightarrow>
          h_bind (h_write en ev (\<lambda>dk. store_create (en_sled en) js k (en_uuid en) (en_now en) dk x)) (\<lambda>y.
          h_ok (201, Typed y)))"

definition replace_write :: "('s, 'j) env \<Rightarrow> ('a, 'j) json \<Rightarrow> 'a kind \<Rightarrow> ('a watch_event \<Rightarrow> api_event) \<Rightarrow> string \<Rightarrow> 'a \<Rightarrow>
    ('s, 'j, ('a, 'j) response) handler" where
  "replace_write en js k ev name x =
     (case en_write en of
        Raft pr \<Rightarrow>
          h_bind (h_try (to_value js x)) (\<lambda>payload.
          h_bind (h_submit en pr (cmd en (kd_prefix k) (Op_ReplaceSpec name payload))) (\<lambda>v. h_ok (200, Value v)))
      | Direct \<Rightarrow>
          h_bind (h_write en ev (\<lambda>dk. replace_spec (en_sled en) js k dk name x)) (\<lambda>y. h_ok (200, Typed y)))"

definition delete_write :: "('s, 'j) env \<Rightarrow> ('a, 'j) json \<Rightarrow> 'a kind \<Rightarrow> ('a watch_event \<Rightarrow> api_event) \<Rightarrow> string \<Rightarrow>
    string option \<Rightarrow> ('s, 'j, ('a, 'j) response) handler" where
  "delete_write en js k ev name rv_param =
     (case rv_param of
        None \<Rightarrow> h_fail (Api_BadRequest ''resourceVersion query param required'')
      | Some rv \<Rightarrow>
          (case en_write en of
             Raft pr \<Rightarrow>
               h_bind (h_submit en pr (cmd en (kd_prefix k) (Op_Delete name rv))) (\<lambda>v. h_ok (200, Value v))
           | Direct \<Rightarrow>
               h_bind (h_write en ev (\<lambda>dk. store_delete (en_sled en) js k dk name rv)) (\<lambda>y. h_ok (200, Typed y))))"

definition status_write :: "('s, 'j) env \<Rightarrow> ('a, 'j) json \<Rightarrow> 'a kind \<Rightarrow> ('a watch_event \<Rightarrow> api_event) \<Rightarrow>
    ('st, 'j) json \<Rightarrow> ('st \<Rightarrow> 'a \<Rightarrow> 'a) \<Rightarrow> string \<Rightarrow> string option \<Rightarrow> 'st \<Rightarrow> ('s, 'j, ('a, 'j) response) handler" where
  "status_write en js k ev js_st set_st name rv_param st =
     (case rv_param of
        None \<Rightarrow> h_fail (Api_BadRequest ''resourceVersion query param required'')
      | Some rv \<Rightarrow>
          (case en_write en of
             Raft pr \<Rightarrow>
               h_bind (h_try (to_value js_st st)) (\<lambda>payload.
               h_bind (h_submit en pr (cmd en (kd_prefix k) (Op_ReplaceStatus name rv payload))) (\<lambda>v. h_ok (200, Value v)))
           | Direct \<Rightarrow>
               h_bind (h_write en ev (\<lambda>dk. replace_status (en_sled en) js k dk name rv (set_st st))) (\<lambda>y. h_ok (200, Typed y))))"

definition get_object :: "('s, 'j) env \<Rightarrow> ('a, 'j) json \<Rightarrow> 'a kind \<Rightarrow> string \<Rightarrow> ('s, 'j, ('a, 'j) response) handler" where
  "get_object en js k name =
     h_bind (h_read en (\<lambda>dk. store_get (en_sled en) js k dk name)) (\<lambda>r.
       case r of None \<Rightarrow> h_fail (Api_NotFound name) | Some x \<Rightarrow> h_ok (200, Typed x))"

definition check_name :: "string \<Rightarrow> string \<Rightarrow> api_error + unit" where
  "check_name body_name name =
     (if body_name \<noteq> name
      then Inl (Api_BadRequest (''name in body ('' @ body_name @ '') does not match URL path ('' @ name @ '')''))
      else Inr ())"

definition parse_rv :: "string option \<Rightarrow> nat" where
  "parse_rv s = (case s of None \<Rightarrow> 0 | Some v \<Rightarrow> (case parse_u64 v of None \<Rightarrow> 0 | Some n \<Rightarrow> n))"

definition parse_node_name_selector :: "string option \<Rightarrow> string option" where
  "parse_node_name_selector field_selector =
     (case field_selector of None \<Rightarrow> None | Some s \<Rightarrow> strip_prefix ''spec.nodeName='' s)"

definition wants_watch :: "list_watch_params \<Rightarrow> bool" where
  "wants_watch params = (case lw_watch params of Some b \<Rightarrow> b | None \<Rightarrow> False)"

definition list_or_watch :: "('s, 'j) env \<Rightarrow> ('a, 'j) json \<Rightarrow> 'a kind \<Rightarrow> ('a list \<Rightarrow> 'a list_body) \<Rightarrow> list_watch_params \<Rightarrow>
    ('s, 'j, ('a, 'j) response) handler" where
  "list_or_watch en js k new params =
     (if wants_watch params then h_ok (200, Watch (parse_rv (lw_resource_version params)) (\<lambda>_. True))
      else h_bind (h_read en (\<lambda>dk. store_list (en_sled en) js k dk dk)) (\<lambda>(items, rv). h_ok (200, Items (new items))))"

subsection \<open>Pods\<close>

definition on_node :: "string option \<Rightarrow> pod \<Rightarrow> bool" where
  "on_node node_filter p =
     (case node_filter of Some node \<Rightarrow> pc_node_name (pod_spec p) = Some node | None \<Rightarrow> True)"

definition list_or_watch_pods :: "('s, 'j) env \<Rightarrow> list_watch_params \<Rightarrow> ('s, 'j, (pod, 'j) response) handler" where
  "list_or_watch_pods en params =
     (let node_filter = parse_node_name_selector (lw_field_selector params) in
      if wants_watch params then h_ok (200, Watch (parse_rv (lw_resource_version params)) (on_node node_filter))
      else h_bind (h_read en (\<lambda>dk. store_list (en_sled en) (cx_pod (en_cx en)) Pod_kind dk dk)) (\<lambda>(pods, rv).
             h_ok (200, Items (PodList_new (case node_filter of Some _ \<Rightarrow> filter (on_node node_filter) pods | None \<Rightarrow> pods)))))"

definition validate_pod :: "pod \<Rightarrow> api_error + unit" where
  "validate_pod p =
     (if om_name (pod_metadata p) = [] then Inl (Api_BadRequest ''metadata.name must not be empty'')
      else if pc_containers (pod_spec p) = [] then Inl (Api_BadRequest ''spec.containers must not be empty'')
      else Inr ())"

definition create_pod :: "('s, 'j) env \<Rightarrow> pod \<Rightarrow> ('s, 'j, (pod, 'j) response) handler" where
  "create_pod en p = h_bind (h_try (validate_pod p)) (\<lambda>_. create_write en (cx_pod (en_cx en)) Pod_kind Pod_event p)"

definition get_pod :: "('s, 'j) env \<Rightarrow> string \<Rightarrow> ('s, 'j, (pod, 'j) response) handler" where
  "get_pod en name = get_object en (cx_pod (en_cx en)) Pod_kind name"

definition replace_pod_spec :: "('s, 'j) env \<Rightarrow> string \<Rightarrow> pod \<Rightarrow> ('s, 'j, (pod, 'j) response) handler" where
  "replace_pod_spec en name p =
     h_bind (h_try (validate_pod p)) (\<lambda>_. h_bind (h_try (check_name (om_name (pod_metadata p)) name)) (\<lambda>_.
       replace_write en (cx_pod (en_cx en)) Pod_kind Pod_event name p))"

definition delete_pod :: "('s, 'j) env \<Rightarrow> string \<Rightarrow> string option \<Rightarrow> ('s, 'j, (pod, 'j) response) handler" where
  "delete_pod en name rv = delete_write en (cx_pod (en_cx en)) Pod_kind Pod_event name rv"

definition replace_pod_status :: "('s, 'j) env \<Rightarrow> string \<Rightarrow> string option \<Rightarrow> pod_status \<Rightarrow> ('s, 'j, (pod, 'j) response) handler" where
  "replace_pod_status en name rv st =
     status_write en (cx_pod (en_cx en)) Pod_kind Pod_event (cx_pod_status (en_cx en)) (\<lambda>s p. p\<lparr>pod_status := Some s\<rparr>) name rv st"

text \<open>In Raft mode the read must happen on the leader, so leadership is checked before it.\<close>

definition gate_leader :: "('s, 'j) env \<Rightarrow> ('s, 'j, unit) handler" where
  "gate_leader en = (case en_write en of Raft pr \<Rightarrow> h_try (ensure_leader pr) | Direct \<Rightarrow> h_ok ())"

definition set_node_name :: "string \<Rightarrow> pod \<Rightarrow> pod" where
  "set_node_name node p = p\<lparr>pod_spec := (pod_spec p)\<lparr>pc_node_name := Some node\<rparr>\<rparr>"

definition bind_pod :: "('s, 'j) env \<Rightarrow> string \<Rightarrow> string \<Rightarrow> ('s, 'j, (pod, 'j) response) handler" where
  "bind_pod en name node_name =
     (if node_name = [] then h_fail (Api_BadRequest ''binding.node_name must not be empty'')
      else h_bind (gate_leader en) (\<lambda>_.
           h_bind (h_read en (\<lambda>dk. store_get (en_sled en) (cx_pod (en_cx en)) Pod_kind dk name)) (\<lambda>r.
             case r of
               None \<Rightarrow> h_fail (Api_NotFound name)
             | Some p \<Rightarrow> replace_write en (cx_pod (en_cx en)) Pod_kind Pod_event name (set_node_name node_name p))))"

subsection \<open>ReplicaSets\<close>

definition validate_replicaset :: "replicaset \<Rightarrow> api_error + unit" where
  "validate_replicaset r =
     (if om_name (rs_metadata r) = [] then Inl (Api_BadRequest ''metadata.name must not be empty'')
      else if rss_match_labels (rs_spec r) = [] then Inl (Api_BadRequest ''spec.selector.matchLabels must not be empty'')
      else Inr ())"

definition list_or_watch_replicasets :: "('s, 'j) env \<Rightarrow> list_watch_params \<Rightarrow> ('s, 'j, (replicaset, 'j) response) handler" where
  "list_or_watch_replicasets en params = list_or_watch en (cx_rs (en_cx en)) ReplicaSet_kind ReplicaSetList_new params"

definition create_replicaset :: "('s, 'j) env \<Rightarrow> replicaset \<Rightarrow> ('s, 'j, (replicaset, 'j) response) handler" where
  "create_replicaset en r =
     h_bind (h_try (validate_replicaset r)) (\<lambda>_. create_write en (cx_rs (en_cx en)) ReplicaSet_kind Rs_event r)"

definition get_replicaset :: "('s, 'j) env \<Rightarrow> string \<Rightarrow> ('s, 'j, (replicaset, 'j) response) handler" where
  "get_replicaset en name = get_object en (cx_rs (en_cx en)) ReplicaSet_kind name"

definition replace_replicaset_spec :: "('s, 'j) env \<Rightarrow> string \<Rightarrow> replicaset \<Rightarrow> ('s, 'j, (replicaset, 'j) response) handler" where
  "replace_replicaset_spec en name r =
     h_bind (h_try (validate_replicaset r)) (\<lambda>_. h_bind (h_try (check_name (om_name (rs_metadata r)) name)) (\<lambda>_.
       replace_write en (cx_rs (en_cx en)) ReplicaSet_kind Rs_event name r))"

definition delete_replicaset :: "('s, 'j) env \<Rightarrow> string \<Rightarrow> string option \<Rightarrow> ('s, 'j, (replicaset, 'j) response) handler" where
  "delete_replicaset en name rv = delete_write en (cx_rs (en_cx en)) ReplicaSet_kind Rs_event name rv"

definition replace_replicaset_status :: "('s, 'j) env \<Rightarrow> string \<Rightarrow> string option \<Rightarrow> replicaset_status \<Rightarrow>
    ('s, 'j, (replicaset, 'j) response) handler" where
  "replace_replicaset_status en name rv st =
     status_write en (cx_rs (en_cx en)) ReplicaSet_kind Rs_event (cx_rs_status (en_cx en)) (\<lambda>s r. r\<lparr>rs_status := Some s\<rparr>) name rv st"

subsection \<open>Nodes\<close>

definition CLUSTER_POD_CIDR_PREFIX :: string where
  "CLUSTER_POD_CIDR_PREFIX = ''10.244''"

definition parse_cidr_index :: "string \<Rightarrow> nat option" where
  "parse_cidr_index cidr =
     (case strip_prefix (CLUSTER_POD_CIDR_PREFIX @ ''.'') cidr of
        None \<Rightarrow> None
      | Some s \<Rightarrow> (case split_once (CHR ''.'') s of None \<Rightarrow> None | Some (idx, rest) \<Rightarrow> parse_u64 idx))"

text \<open>The largest index in use plus one; adding one to the largest \<open>u64\<close> panics.\<close>

definition next_index_after :: "nat list \<Rightarrow> nat panics" where
  "next_index_after used = (if used = [] then Some 0 else checked_add u64_max (Max (set used)) 1)"

definition next_free_node_cidr_index :: "node list \<Rightarrow> nat panics" where
  "next_free_node_cidr_index nodes =
     next_index_after (List.map_filter parse_cidr_index (List.map_filter (\<lambda>n. nd_pod_cidr (node_spec n)) nodes))"

definition validate_node :: "node \<Rightarrow> api_error + unit" where
  "validate_node n =
     (if om_name (node_metadata n) = [] then Inl (Api_BadRequest ''metadata.name must not be empty'') else Inr ())"

definition list_or_watch_nodes :: "('s, 'j) env \<Rightarrow> list_watch_params \<Rightarrow> ('s, 'j, (node, 'j) response) handler" where
  "list_or_watch_nodes en params = list_or_watch en (cx_node (en_cx en)) Node_kind NodeList_new params"

definition set_pod_cidr :: "string \<Rightarrow> node \<Rightarrow> node" where
  "set_pod_cidr cidr n = n\<lparr>node_spec := (node_spec n)\<lparr>nd_pod_cidr := Some cidr\<rparr>\<rparr>"

definition node_cidr :: "nat \<Rightarrow> string" where
  "node_cidr idx = CLUSTER_POD_CIDR_PREFIX @ ''.'' @ show_nat idx @ ''.0/24''"

definition h_panics :: "'x panics \<Rightarrow> ('s, 'j, 'x) handler" where
  "h_panics r rp = (rp, (case r of None \<Rightarrow> Panic | Some x \<Rightarrow> Reply x))"

definition assign_pod_cidr :: "('s, 'j) env \<Rightarrow> node \<Rightarrow> ('s, 'j, node) handler" where
  "assign_pod_cidr en n =
     (if nd_pod_cidr (node_spec n) \<noteq> None then h_ok n
      else h_bind (h_read en (\<lambda>dk. store_get (en_sled en) (cx_node (en_cx en)) Node_kind dk (om_name (node_metadata n)))) (\<lambda>cur.
             if cur \<noteq> None then h_ok n
             else h_bind (h_read en (\<lambda>dk. store_list (en_sled en) (cx_node (en_cx en)) Node_kind dk dk)) (\<lambda>(nodes, rv).
                  h_bind (h_panics (next_free_node_cidr_index nodes)) (\<lambda>idx.
                    if 255 < idx
                    then h_fail (Api_Internal (''pod CIDR space exhausted (node index '' @ show_nat idx @ '' exceeds 255)''))
                    else h_ok (set_pod_cidr (node_cidr idx) n)))))"

definition create_node :: "('s, 'j) env \<Rightarrow> node \<Rightarrow> ('s, 'j, (node, 'j) response) handler" where
  "create_node en n =
     h_bind (h_try (validate_node n)) (\<lambda>_. h_bind (gate_leader en) (\<lambda>_. h_bind (assign_pod_cidr en n) (\<lambda>n'.
       create_write en (cx_node (en_cx en)) Node_kind Node_event n')))"

definition get_node :: "('s, 'j) env \<Rightarrow> string \<Rightarrow> ('s, 'j, (node, 'j) response) handler" where
  "get_node en name = get_object en (cx_node (en_cx en)) Node_kind name"

definition replace_node_spec :: "('s, 'j) env \<Rightarrow> string \<Rightarrow> node \<Rightarrow> ('s, 'j, (node, 'j) response) handler" where
  "replace_node_spec en name n =
     h_bind (h_try (validate_node n)) (\<lambda>_. h_bind (h_try (check_name (om_name (node_metadata n)) name)) (\<lambda>_.
       replace_write en (cx_node (en_cx en)) Node_kind Node_event name n))"

definition delete_node :: "('s, 'j) env \<Rightarrow> string \<Rightarrow> string option \<Rightarrow> ('s, 'j, (node, 'j) response) handler" where
  "delete_node en name rv = delete_write en (cx_node (en_cx en)) Node_kind Node_event name rv"

definition replace_node_status :: "('s, 'j) env \<Rightarrow> string \<Rightarrow> string option \<Rightarrow> node_status \<Rightarrow> ('s, 'j, (node, 'j) response) handler" where
  "replace_node_status en name rv st =
     status_write en (cx_node (en_cx en)) Node_kind Node_event (cx_node_status (en_cx en)) (\<lambda>s n. n\<lparr>node_status := Some s\<rparr>) name rv st"

subsection \<open>Services\<close>

definition SERVICE_CIDR_PREFIX :: string where
  "SERVICE_CIDR_PREFIX = ''10.96.0''"

definition parse_cluster_ip :: "string \<Rightarrow> nat option" where
  "parse_cluster_ip ip =
     (case strip_prefix (SERVICE_CIDR_PREFIX @ ''.'') ip of None \<Rightarrow> None | Some s \<Rightarrow> parse_u64 s)"

definition next_free_cluster_ip_index :: "service list \<Rightarrow> nat panics" where
  "next_free_cluster_ip_index services =
     next_index_after (List.map_filter parse_cluster_ip (List.map_filter (\<lambda>s. sv_cluster_ip (svc_spec s)) services))"

definition validate_service :: "service \<Rightarrow> api_error + unit" where
  "validate_service s =
     (if om_name (svc_metadata s) = [] then Inl (Api_BadRequest ''metadata.name must not be empty'') else Inr ())"

definition list_or_watch_services :: "('s, 'j) env \<Rightarrow> list_watch_params \<Rightarrow> ('s, 'j, (service, 'j) response) handler" where
  "list_or_watch_services en params = list_or_watch en (cx_svc (en_cx en)) Service_kind ServiceList_new params"

definition set_cluster_ip :: "string \<Rightarrow> service \<Rightarrow> service" where
  "set_cluster_ip ip s = s\<lparr>svc_spec := (svc_spec s)\<lparr>sv_cluster_ip := Some ip\<rparr>\<rparr>"

definition cluster_ip_of :: "nat \<Rightarrow> string" where
  "cluster_ip_of idx = SERVICE_CIDR_PREFIX @ ''.'' @ show_nat idx"

definition assign_cluster_ip :: "('s, 'j) env \<Rightarrow> service \<Rightarrow> ('s, 'j, service) handler" where
  "assign_cluster_ip en s =
     (if sv_cluster_ip (svc_spec s) \<noteq> None then h_ok s
      else h_bind (h_read en (\<lambda>dk. store_get (en_sled en) (cx_svc (en_cx en)) Service_kind dk (om_name (svc_metadata s)))) (\<lambda>cur.
             if cur \<noteq> None then h_ok s
             else h_bind (h_read en (\<lambda>dk. store_list (en_sled en) (cx_svc (en_cx en)) Service_kind dk dk)) (\<lambda>(services, rv).
                  h_bind (h_panics (next_free_cluster_ip_index services)) (\<lambda>idx.
                    if 255 < idx
                    then h_fail (Api_Internal (''service ClusterIP space exhausted (index '' @ show_nat idx @ '' exceeds 255)''))
                    else h_ok (set_cluster_ip (cluster_ip_of idx) s)))))"

definition create_service :: "('s, 'j) env \<Rightarrow> service \<Rightarrow> ('s, 'j, (service, 'j) response) handler" where
  "create_service en s =
     h_bind (h_try (validate_service s)) (\<lambda>_. h_bind (gate_leader en) (\<lambda>_. h_bind (assign_cluster_ip en s) (\<lambda>s'.
       create_write en (cx_svc (en_cx en)) Service_kind Svc_event s')))"

definition get_service :: "('s, 'j) env \<Rightarrow> string \<Rightarrow> ('s, 'j, (service, 'j) response) handler" where
  "get_service en name = get_object en (cx_svc (en_cx en)) Service_kind name"

definition replace_service_spec :: "('s, 'j) env \<Rightarrow> string \<Rightarrow> service \<Rightarrow> ('s, 'j, (service, 'j) response) handler" where
  "replace_service_spec en name s =
     h_bind (h_try (validate_service s)) (\<lambda>_. h_bind (h_try (check_name (om_name (svc_metadata s)) name)) (\<lambda>_.
       replace_write en (cx_svc (en_cx en)) Service_kind Svc_event name s))"

definition delete_service :: "('s, 'j) env \<Rightarrow> string \<Rightarrow> string option \<Rightarrow> ('s, 'j, (service, 'j) response) handler" where
  "delete_service en name rv = delete_write en (cx_svc (en_cx en)) Service_kind Svc_event name rv"

subsection \<open>Endpoints\<close>

definition list_or_watch_endpoints :: "('s, 'j) env \<Rightarrow> list_watch_params \<Rightarrow> ('s, 'j, (endpoints, 'j) response) handler" where
  "list_or_watch_endpoints en params = list_or_watch en (cx_ep (en_cx en)) Endpoints_kind EndpointsList_new params"

definition create_endpoints :: "('s, 'j) env \<Rightarrow> endpoints \<Rightarrow> ('s, 'j, (endpoints, 'j) response) handler" where
  "create_endpoints en e =
     (if om_name (ep_metadata e) = [] then h_fail (Api_BadRequest ''metadata.name must not be empty'')
      else create_write en (cx_ep (en_cx en)) Endpoints_kind Ep_event e)"

definition get_endpoints :: "('s, 'j) env \<Rightarrow> string \<Rightarrow> ('s, 'j, (endpoints, 'j) response) handler" where
  "get_endpoints en name = get_object en (cx_ep (en_cx en)) Endpoints_kind name"

definition replace_endpoints :: "('s, 'j) env \<Rightarrow> string \<Rightarrow> endpoints \<Rightarrow> ('s, 'j, (endpoints, 'j) response) handler" where
  "replace_endpoints en name e =
     h_bind (h_try (check_name (om_name (ep_metadata e)) name)) (\<lambda>_.
       replace_write en (cx_ep (en_cx en)) Endpoints_kind Ep_event name e)"

definition delete_endpoints :: "('s, 'j) env \<Rightarrow> string \<Rightarrow> string option \<Rightarrow> ('s, 'j, (endpoints, 'j) response) handler" where
  "delete_endpoints en name rv = delete_write en (cx_ep (en_cx en)) Endpoints_kind Ep_event name rv"

end
