(* ===== verification/Client.thy ===== *)
theory Client
  imports Api_Handlers
begin

text \<open>
  The API client of \<^verbatim>\<open>src/client.rs\<close> and the route table of \<^verbatim>\<open>src/apiserver/routes.rs\<close>. A call runs on an outside
  world through the HTTP library, which is a parameter: it takes a request and gives a status with a body, or no
  response. The paths the client builds are routed to the handlers they are meant for, and the errors of the
  server come back as the client errors they stand for.
\<close>

subsection \<open>The HTTP library\<close>

datatype http_method = GET | POST | PUT | DELETE

record http_request =
  hq_method :: http_method
  hq_url :: string
  hq_body :: "bytes option"

text \<open>A response's body may fail to arrive.\<close>

type_synonym 'w http = "http_request \<Rightarrow> 'w \<Rightarrow> 'w \<times> (nat \<times> bytes option) option"

datatype client_error =
    Cl_Http nat string
  | Cl_Conflict string
  | Cl_AlreadyExists
  | Cl_NotFound
  | Cl_Transport
  | Cl_Json
  | Cl_Io

type_synonym ('w, 'x) call = "'w \<Rightarrow> 'w \<times> (client_error + 'x)"

record status_envelope =
  se_code :: nat
  se_message :: string
  se_reason :: "string option"

record 'j client_codecs =
  kc_cx :: "'j codecs"
  kc_pods :: "bytes \<Rightarrow> io_error + pod list"
  kc_rss :: "bytes \<Rightarrow> io_error + replicaset list"
  kc_nodes :: "bytes \<Rightarrow> io_error + node list"
  kc_svcs :: "bytes \<Rightarrow> io_error + service list"
  kc_eps :: "bytes \<Rightarrow> io_error + endpoints list"
  kc_status :: "bytes \<Rightarrow> io_error + status_envelope"
  kc_binding :: "string \<Rightarrow> io_error + bytes"
  kc_lossy :: "bytes \<Rightarrow> string"
  kc_lines :: "bytes \<Rightarrow> (io_error + string) list"
  kc_pod_event :: "string \<Rightarrow> io_error + pod watch_event"
  kc_rs_event :: "string \<Rightarrow> io_error + replicaset watch_event"
  kc_svc_event :: "string \<Rightarrow> io_error + service watch_event"
  kc_ep_event :: "string \<Rightarrow> io_error + endpoints watch_event"

record ('w, 'j) client =
  cn_base_url :: string
  cn_http :: "'w http"
  cn_kc :: "'j client_codecs"

definition client_new :: "string \<Rightarrow> 'w http \<Rightarrow> 'j client_codecs \<Rightarrow> ('w, 'j) client" where
  "client_new base_url http kc =
     \<lparr>cn_base_url = rev (dropWhile (\<lambda>c. c = CHR ''/'') (rev base_url)), cn_http = http, cn_kc = kc\<rparr>"

definition client_url :: "('w, 'j) client \<Rightarrow> string \<Rightarrow> string" where
  "client_url cl path = cn_base_url cl @ path"

subsection \<open>Responses\<close>

definition map_envelope :: "nat \<Rightarrow> status_envelope \<Rightarrow> client_error" where
  "map_envelope st env =
     (if st = 404 then Cl_NotFound
      else if st = 409 \<and> se_reason env = Some ''AlreadyExists'' then Cl_AlreadyExists
      else if st = 409 then Cl_Conflict (se_message env)
      else Cl_Http (se_code env) (se_message env))"

definition check_status :: "'j client_codecs \<Rightarrow> nat \<times> bytes option \<Rightarrow> client_error + bytes option" where
  "check_status kc res =
     (case res of (st, body) \<Rightarrow>
        if 200 \<le> st \<and> st < 300 then Inr body
        else (case body of
                None \<Rightarrow> Inl Cl_Transport
              | Some b \<Rightarrow> (case kc_status kc b of
                             Inr env \<Rightarrow> Inl (map_envelope st env)
                           | Inl _ \<Rightarrow> Inl (Cl_Http st (kc_lossy kc b)))))"

definition parse_json :: "'j client_codecs \<Rightarrow> (bytes \<Rightarrow> io_error + 'x) \<Rightarrow> nat \<times> bytes option \<Rightarrow> client_error + 'x" where
  "parse_json kc dec res =
     (case check_status kc res of
        Inl e \<Rightarrow> Inl e
      | Inr None \<Rightarrow> Inl Cl_Transport
      | Inr (Some b) \<Rightarrow> (case dec b of Inl _ \<Rightarrow> Inl Cl_Json | Inr x \<Rightarrow> Inr x))"

definition send :: "('w, 'j) client \<Rightarrow> http_method \<Rightarrow> string \<Rightarrow> bytes option \<Rightarrow> (nat \<times> bytes option \<Rightarrow> client_error + 'x) \<Rightarrow> ('w, 'x) call" where
  "send cl meth path body f w =
     (case cn_http cl \<lparr>hq_method = meth, hq_url = client_url cl path, hq_body = body\<rparr> w of
        (w', None) \<Rightarrow> (w', Inl Cl_Transport)
      | (w', Some res) \<Rightarrow> (w', f res))"

text \<open>A body that cannot be encoded fails the request before it is sent.\<close>

definition send_body :: "('w, 'j) client \<Rightarrow> http_method \<Rightarrow> string \<Rightarrow> io_error + bytes \<Rightarrow> (nat \<times> bytes option \<Rightarrow> client_error + 'x) \<Rightarrow> ('w, 'x) call" where
  "send_body cl meth path enc f w =
     (case enc of Inl _ \<Rightarrow> (w, Inl Cl_Transport) | Inr b \<Rightarrow> send cl meth path (Some b) f w)"

definition list_resource :: "('w, 'j) client \<Rightarrow> (bytes \<Rightarrow> io_error + 'a list) \<Rightarrow> string \<Rightarrow> ('w, 'a list) call" where
  "list_resource cl dec path = send cl GET path None (parse_json (cn_kc cl) dec)"

definition get_resource :: "('w, 'j) client \<Rightarrow> ('a, 'j) json \<Rightarrow> string \<Rightarrow> ('w, 'a option) call" where
  "get_resource cl js path =
     send cl GET path None (\<lambda>res.
       if fst res = 404 then Inr None
       else (case parse_json (cn_kc cl) (js_from_slice js) res of Inl e \<Rightarrow> Inl e | Inr x \<Rightarrow> Inr (Some x)))"

definition create_resource :: "('w, 'j) client \<Rightarrow> ('a, 'j) json \<Rightarrow> string \<Rightarrow> io_error + bytes \<Rightarrow> ('w, 'a) call" where
  "create_resource cl js path enc = send_body cl POST path enc (parse_json (cn_kc cl) (js_from_slice js))"

definition put_resource :: "('w, 'j) client \<Rightarrow> ('a, 'j) json \<Rightarrow> string \<Rightarrow> io_error + bytes \<Rightarrow> ('w, 'a) call" where
  "put_resource cl js path enc = send_body cl PUT path enc (parse_json (cn_kc cl) (js_from_slice js))"

definition delete_resource :: "('w, 'j) client \<Rightarrow> string \<Rightarrow> ('w, unit) call" where
  "delete_resource cl path =
     send cl DELETE path None (\<lambda>res. case check_status (cn_kc cl) res of Inl e \<Rightarrow> Inl e | Inr _ \<Rightarrow> Inr ())"

text \<open>The events of a watch, one per line of the body received so far.\<close>

definition watch_line :: "(string \<Rightarrow> io_error + 'a watch_event) \<Rightarrow> io_error + string \<Rightarrow> client_error + 'a watch_event" where
  "watch_line dec r =
     (case r of Inl _ \<Rightarrow> Inl Cl_Io | Inr line \<Rightarrow> (case dec line of Inl _ \<Rightarrow> Inl Cl_Json | Inr ev \<Rightarrow> Inr ev))"

definition watch_resource :: "('w, 'j) client \<Rightarrow> (string \<Rightarrow> io_error + 'a watch_event) \<Rightarrow> string \<Rightarrow>
    ('w, (client_error + 'a watch_event) list) call" where
  "watch_resource cl dec path =
     send cl GET path None (\<lambda>res.
       case check_status (cn_kc cl) res of
         Inl e \<Rightarrow> Inl e
       | Inr None \<Rightarrow> Inr []
       | Inr (Some b) \<Rightarrow> Inr (map (watch_line dec) (kc_lines (cn_kc cl) b)))"

subsection \<open>Paths\<close>

definition rv_query :: "string \<Rightarrow> string" where
  "rv_query rv = ''?resourceVersion='' @ rv"

definition watch_path :: "string \<Rightarrow> string option \<Rightarrow> string" where
  "watch_path coll from_rv =
     (case from_rv of
        Some rv \<Rightarrow> coll @ ''?watch=true&resourceVersion='' @ rv
      | None \<Rightarrow> coll @ ''?watch=true'')"

definition node_watch_path :: "string \<Rightarrow> string option \<Rightarrow> string" where
  "node_watch_path node from_rv =
     (case from_rv of
        Some rv \<Rightarrow> ''/api/v1/pods?watch=true&fieldSelector=spec.nodeName='' @ node @ ''&resourceVersion='' @ rv
      | None \<Rightarrow> ''/api/v1/pods?watch=true&fieldSelector=spec.nodeName='' @ node)"

subsection \<open>Pods\<close>

definition client_list_pods :: "('w, 'j) client \<Rightarrow> ('w, pod list) call" where
  "client_list_pods cl = list_resource cl (kc_pods (cn_kc cl)) ''/api/v1/pods''"

definition client_get_pod :: "('w, 'j) client \<Rightarrow> string \<Rightarrow> ('w, pod option) call" where
  "client_get_pod cl name = get_resource cl (cx_pod (kc_cx (cn_kc cl))) (''/api/v1/pods/'' @ name)"

definition client_create_pod :: "('w, 'j) client \<Rightarrow> pod \<Rightarrow> ('w, pod) call" where
  "client_create_pod cl x = create_resource cl (cx_pod (kc_cx (cn_kc cl))) ''/api/v1/pods'' (js_to_vec (cx_pod (kc_cx (cn_kc cl))) x)"

definition client_replace_pod_spec :: "('w, 'j) client \<Rightarrow> pod \<Rightarrow> ('w, pod) call" where
  "client_replace_pod_spec cl x =
     put_resource cl (cx_pod (kc_cx (cn_kc cl))) (''/api/v1/pods/'' @ om_name (pod_metadata x)) (js_to_vec (cx_pod (kc_cx (cn_kc cl))) x)"

definition client_replace_pod_status :: "('w, 'j) client \<Rightarrow> string \<Rightarrow> pod_status \<Rightarrow> string \<Rightarrow> ('w, pod) call" where
  "client_replace_pod_status cl name st rv =
     put_resource cl (cx_pod (kc_cx (cn_kc cl))) (''/api/v1/pods/'' @ name @ ''/status'' @ rv_query rv) (js_to_vec (cx_pod_status (kc_cx (cn_kc cl))) st)"

definition client_delete_pod :: "('w, 'j) client \<Rightarrow> string \<Rightarrow> string \<Rightarrow> ('w, unit) call" where
  "client_delete_pod cl name rv = delete_resource cl (''/api/v1/pods/'' @ name @ rv_query rv)"

definition client_watch_pods :: "('w, 'j) client \<Rightarrow> string option \<Rightarrow> ('w, (client_error + pod watch_event) list) call" where
  "client_watch_pods cl from_rv = watch_resource cl (kc_pod_event (cn_kc cl)) (watch_path ''/api/v1/pods'' from_rv)"

definition client_list_pods_on_node :: "('w, 'j) client \<Rightarrow> string \<Rightarrow> ('w, pod list) call" where
  "client_list_pods_on_node cl node =
     list_resource cl (kc_pods (cn_kc cl)) (''/api/v1/pods?fieldSelector=spec.nodeName='' @ node)"

definition client_watch_pods_on_node :: "('w, 'j) client \<Rightarrow> string \<Rightarrow> string option \<Rightarrow> ('w, (client_error + pod watch_event) list) call" where
  "client_watch_pods_on_node cl node from_rv = watch_resource cl (kc_pod_event (cn_kc cl)) (node_watch_path node from_rv)"

definition client_bind_pod :: "('w, 'j) client \<Rightarrow> string \<Rightarrow> string \<Rightarrow> ('w, pod) call" where
  "client_bind_pod cl pod_name node =
     create_resource cl (cx_pod (kc_cx (cn_kc cl))) (''/api/v1/pods/'' @ pod_name @ ''/binding'') (kc_binding (cn_kc cl) node)"

subsection \<open>Nodes\<close>

definition client_list_nodes :: "('w, 'j) client \<Rightarrow> ('w, node list) call" where
  "client_list_nodes cl = list_resource cl (kc_nodes (cn_kc cl)) ''/api/v1/nodes''"

definition client_get_node :: "('w, 'j) client \<Rightarrow> string \<Rightarrow> ('w, node option) call" where
  "client_get_node cl name = get_resource cl (cx_node (kc_cx (cn_kc cl))) (''/api/v1/nodes/'' @ name)"

definition client_create_node :: "('w, 'j) client \<Rightarrow> node \<Rightarrow> ('w, node) call" where
  "client_create_node cl x = create_resource cl (cx_node (kc_cx (cn_kc cl))) ''/api/v1/nodes'' (js_to_vec (cx_node (kc_cx (cn_kc cl))) x)"

definition client_replace_node_status :: "('w, 'j) client \<Rightarrow> string \<Rightarrow> node_status \<Rightarrow> string \<Rightarrow> ('w, node) call" where
  "client_replace_node_status cl name st rv =
     put_resource cl (cx_node (kc_cx (cn_kc cl))) (''/api/v1/nodes/'' @ name @ ''/status'' @ rv_query rv) (js_to_vec (cx_node_status (kc_cx (cn_kc cl))) st)"

subsection \<open>ReplicaSets\<close>

definition client_list_replicasets :: "('w, 'j) client \<Rightarrow> ('w, replicaset list) call" where
  "client_list_replicasets cl = list_resource cl (kc_rss (cn_kc cl)) ''/api/v1/replicasets''"

definition client_get_replicaset :: "('w, 'j) client \<Rightarrow> string \<Rightarrow> ('w, replicaset option) call" where
  "client_get_replicaset cl name = get_resource cl (cx_rs (kc_cx (cn_kc cl))) (''/api/v1/replicasets/'' @ name)"

definition client_create_replicaset :: "('w, 'j) client \<Rightarrow> replicaset \<Rightarrow> ('w, replicaset) call" where
  "client_create_replicaset cl x = create_resource cl (cx_rs (kc_cx (cn_kc cl))) ''/api/v1/replicasets'' (js_to_vec (cx_rs (kc_cx (cn_kc cl))) x)"

definition client_replace_replicaset_spec :: "('w, 'j) client \<Rightarrow> replicaset \<Rightarrow> ('w, replicaset) call" where
  "client_replace_replicaset_spec cl x =
     put_resource cl (cx_rs (kc_cx (cn_kc cl))) (''/api/v1/replicasets/'' @ om_name (rs_metadata x)) (js_to_vec (cx_rs (kc_cx (cn_kc cl))) x)"

definition client_replace_rs_status :: "('w, 'j) client \<Rightarrow> string \<Rightarrow> replicaset_status \<Rightarrow> string \<Rightarrow> ('w, replicaset) call" where
  "client_replace_rs_status cl name st rv =
     put_resource cl (cx_rs (kc_cx (cn_kc cl))) (''/api/v1/replicasets/'' @ name @ ''/status'' @ rv_query rv) (js_to_vec (cx_rs_status (kc_cx (cn_kc cl))) st)"

definition client_delete_replicaset :: "('w, 'j) client \<Rightarrow> string \<Rightarrow> string \<Rightarrow> ('w, unit) call" where
  "client_delete_replicaset cl name rv = delete_resource cl (''/api/v1/replicasets/'' @ name @ rv_query rv)"

definition client_watch_replicasets :: "('w, 'j) client \<Rightarrow> string option \<Rightarrow> ('w, (client_error + replicaset watch_event) list) call" where
  "client_watch_replicasets cl from_rv = watch_resource cl (kc_rs_event (cn_kc cl)) (watch_path ''/api/v1/replicasets'' from_rv)"

subsection \<open>Services\<close>

definition client_list_services :: "('w, 'j) client \<Rightarrow> ('w, service list) call" where
  "client_list_services cl = list_resource cl (kc_svcs (cn_kc cl)) ''/api/v1/services''"

definition client_get_service :: "('w, 'j) client \<Rightarrow> string \<Rightarrow> ('w, service option) call" where
  "client_get_service cl name = get_resource cl (cx_svc (kc_cx (cn_kc cl))) (''/api/v1/services/'' @ name)"

definition client_create_service :: "('w, 'j) client \<Rightarrow> service \<Rightarrow> ('w, service) call" where
  "client_create_service cl x = create_resource cl (cx_svc (kc_cx (cn_kc cl))) ''/api/v1/services'' (js_to_vec (cx_svc (kc_cx (cn_kc cl))) x)"

definition client_replace_service_spec :: "('w, 'j) client \<Rightarrow> service \<Rightarrow> ('w, service) call" where
  "client_replace_service_spec cl x =
     put_resource cl (cx_svc (kc_cx (cn_kc cl))) (''/api/v1/services/'' @ om_name (svc_metadata x)) (js_to_vec (cx_svc (kc_cx (cn_kc cl))) x)"

definition client_delete_service :: "('w, 'j) client \<Rightarrow> string \<Rightarrow> string \<Rightarrow> ('w, unit) call" where
  "client_delete_service cl name rv = delete_resource cl (''/api/v1/services/'' @ name @ rv_query rv)"

definition client_watch_services :: "('w, 'j) client \<Rightarrow> string option \<Rightarrow> ('w, (client_error + service watch_event) list) call" where
  "client_watch_services cl from_rv = watch_resource cl (kc_svc_event (cn_kc cl)) (watch_path ''/api/v1/services'' from_rv)"

subsection \<open>Endpoints\<close>

definition client_list_endpoints :: "('w, 'j) client \<Rightarrow> ('w, endpoints list) call" where
  "client_list_endpoints cl = list_resource cl (kc_eps (cn_kc cl)) ''/api/v1/endpoints''"

definition client_get_endpoints :: "('w, 'j) client \<Rightarrow> string \<Rightarrow> ('w, endpoints option) call" where
  "client_get_endpoints cl name = get_resource cl (cx_ep (kc_cx (cn_kc cl))) (''/api/v1/endpoints/'' @ name)"

definition client_create_endpoints :: "('w, 'j) client \<Rightarrow> endpoints \<Rightarrow> ('w, endpoints) call" where
  "client_create_endpoints cl x = create_resource cl (cx_ep (kc_cx (cn_kc cl))) ''/api/v1/endpoints'' (js_to_vec (cx_ep (kc_cx (cn_kc cl))) x)"

definition client_replace_endpoints :: "('w, 'j) client \<Rightarrow> endpoints \<Rightarrow> ('w, endpoints) call" where
  "client_replace_endpoints cl x =
     put_resource cl (cx_ep (kc_cx (cn_kc cl))) (''/api/v1/endpoints/'' @ om_name (ep_metadata x)) (js_to_vec (cx_ep (kc_cx (cn_kc cl))) x)"

definition client_delete_endpoints :: "('w, 'j) client \<Rightarrow> string \<Rightarrow> string \<Rightarrow> ('w, unit) call" where
  "client_delete_endpoints cl name rv = delete_resource cl (''/api/v1/endpoints/'' @ name @ rv_query rv)"

definition client_watch_endpoints :: "('w, 'j) client \<Rightarrow> string option \<Rightarrow> ('w, (client_error + endpoints watch_event) list) call" where
  "client_watch_endpoints cl from_rv = watch_resource cl (kc_ep_event (cn_kc cl)) (watch_path ''/api/v1/endpoints'' from_rv)"

end
