(* ===== verification/Workqueue.thy ===== *)
theory Workqueue
  imports Prelude
begin

text \<open>
  The controllers' work queue and retry counter, \<^verbatim>\<open>src/controller/workqueue.rs\<close>, and the worker turn that
  every controller runs over them. The queue's \<open>Notify\<close> is its one stored permit. The contract of the queue
  is the locale \<open>dedup_queue\<close>: no key is lost, none is queued twice, none is handed out while it is being processed.
\<close>

record work_queue =
  wq_queue :: "string list"
  wq_dirty :: "string set"
  wq_processing :: "string set"
  wq_permit :: bool

definition wq_new :: work_queue where
  "wq_new = \<lparr>wq_queue = [], wq_dirty = {}, wq_processing = {}, wq_permit = False\<rparr>"

definition wq_push :: "string \<Rightarrow> work_queue \<Rightarrow> work_queue" where
  "wq_push key q = q\<lparr>wq_queue := wq_queue q @ [key], wq_permit := True\<rparr>"

definition wq_add :: "string \<Rightarrow> work_queue \<Rightarrow> work_queue" where
  "wq_add key q =
     (if key \<in> wq_dirty q then q
      else (let q' = q\<lparr>wq_dirty := insert key (wq_dirty q)\<rparr>
            in if key \<in> wq_processing q' then q' else wq_push key q'))"

definition wq_try_get :: "work_queue \<Rightarrow> (string \<times> work_queue) option" where
  "wq_try_get q =
     (case wq_queue q of
        [] \<Rightarrow> None
      | key # rest \<Rightarrow>
          Some (key, q\<lparr>wq_queue := rest, wq_dirty := wq_dirty q - {key}, wq_processing := insert key (wq_processing q)\<rparr>))"

definition wq_done :: "string \<Rightarrow> work_queue \<Rightarrow> work_queue" where
  "wq_done key q =
     (let q' = q\<lparr>wq_processing := wq_processing q - {key}\<rparr>
      in if key \<in> wq_dirty q' then wq_push key q' else q')"

definition wq_ready_len :: "work_queue \<Rightarrow> nat" where
  "wq_ready_len q = length (wq_queue q)"

subsection \<open>Retries\<close>

type_synonym rate_limiter = "string \<rightharpoonup> nat"

definition rl_failure :: "string \<Rightarrow> rate_limiter \<Rightarrow> (rate_limiter \<times> nat) panics" where
  "rl_failure key f =
     (case checked_add u32_max (case f key of Some n \<Rightarrow> n | None \<Rightarrow> 0) 1 of
        None \<Rightarrow> None
      | Some n \<Rightarrow> Some (f(key \<mapsto> n), n))"

definition rl_forget :: "string \<Rightarrow> rate_limiter \<Rightarrow> rate_limiter" where
  "rl_forget key f = f(key := None)"

definition backoff_for :: "nat \<Rightarrow> nat" where
  "backoff_for failures =
     (let e = min (failures - 1) 20;
          mult = (if e < 64 then 2 ^ e mod 2 ^ 64 else u64_max)
      in min (min (500 * mult) u64_max) (300 * 1000))"

text \<open>
  Back-off: the delay in milliseconds is exactly \<open>500 * 2^(n - 1)\<close> cut off at five minutes, for every failure count:
  the clamp of the exponent and the saturating operations never change the result. It never falls as failures accumulate.
\<close>

theorem backoff_exact:
  assumes "0 < n"
  shows "backoff_for n = min (500 * 2 ^ (n - 1)) 300000 \<and> 500 \<le> backoff_for n \<and> backoff_for n \<le> backoff_for (Suc n)"
proof -
  have exact: "backoff_for m = min (500 * 2 ^ (m - 1)) 300000" for m
  proof (cases "m - 1 \<le> 20")
    case True
    have "(2 :: nat) ^ (m - 1) \<le> 2 ^ 20" using True by (intro power_increasing) simp_all
    then have "(2 :: nat) ^ (m - 1) mod 2 ^ 64 = 2 ^ (m - 1)" "500 * 2 ^ (m - 1) \<le> u64_max"
      by (simp_all add: u64_max_def)
    with True show ?thesis by (simp add: backoff_for_def Let_def)
  next
    case False
    then have "(2 :: nat) ^ 20 \<le> 2 ^ (m - 1)" by (intro power_increasing) simp_all
    then have "300000 \<le> 500 * (2 :: nat) ^ (m - 1)" by simp
    with False show ?thesis by (simp add: backoff_for_def Let_def u64_max_def)
  qed
  have "min (500 * 2 ^ (n - 1)) 300000 \<le> min (500 * 2 ^ (Suc n - 1)) (300000 :: nat)"
    by (intro min.mono) simp_all
  then show ?thesis unfolding exact by simp
qed

theorem backoff_exact_witness: "backoff_for 3 = 2000 \<and> backoff_for 40 = 300000"
  using backoff_exact [of 3] backoff_exact [of 40] by simp

subsection \<open>The contract\<close>

text \<open>
  \<open>wanted\<close> are the keys that still need processing, \<open>busy\<close> those a worker holds. \<open>finish\<close> may only be called for
  a key that is held.
\<close>

locale dedup_queue =
  fixes add :: "'k \<Rightarrow> 'q \<Rightarrow> 'q" and take_key :: "'q \<Rightarrow> ('k \<times> 'q) option" and finish :: "'k \<Rightarrow> 'q \<Rightarrow> 'q"
    and ready :: "'q \<Rightarrow> 'k list" and wanted busy :: "'q \<Rightarrow> 'k set" and inv :: "'q \<Rightarrow> bool"
  assumes add_inv: "inv q \<Longrightarrow> inv (add k q)"
    and add_wanted: "wanted (add k q) = insert k (wanted q)"
    and add_busy: "busy (add k q) = busy q"
    and take_inv: "inv q \<Longrightarrow> take_key q = Some (k, q') \<Longrightarrow> inv q'"
    and take_ready: "take_key q = (case ready q of [] \<Rightarrow> None | k # ks \<Rightarrow> Some (k, snd (the (take_key q))))"
    and take_state: "take_key q = Some (k, q') \<Longrightarrow>
          ready q' = tl (ready q) \<and> wanted q' = wanted q - {k} \<and> busy q' = insert k (busy q)"
    and finish_inv: "inv q \<Longrightarrow> k \<in> busy q \<Longrightarrow> inv (finish k q)"
    and finish_wanted: "wanted (finish k q) = wanted q"
    and finish_busy: "busy (finish k q) = busy q - {k}"
    and inv_ready: "inv q \<Longrightarrow> distinct (ready q) \<and> set (ready q) = wanted q - busy q"
begin

lemma taken_not_busy: "inv q \<Longrightarrow> take_key q = Some (k, q') \<Longrightarrow> k \<notin> busy q \<and> k \<in> wanted q \<and> k \<in> busy q'"
  using inv_ready [of q] take_ready [of q] take_state [of q k q'] by (cases "ready q") auto

text \<open>Only handing it out removes a key from the wanted ones.\<close>

lemma wanted_kept:
  assumes "k \<in> wanted q"
  shows "k \<in> wanted (add k' q)" "k \<in> wanted (finish k' q)"
    "take_key q = Some (k', q') \<Longrightarrow> k' \<noteq> k \<Longrightarrow> k \<in> wanted q'"
  using assms take_state [of q k' q'] by (auto simp: add_wanted finish_wanted)

lemma take_enabled: "inv q \<Longrightarrow> k \<in> wanted q \<Longrightarrow> k \<notin> busy q \<Longrightarrow> \<exists>k' q'. take_key q = Some (k', q')"
  using inv_ready [of q] take_ready [of q] by (cases "ready q") auto

end

definition wq_inv :: "work_queue \<Rightarrow> bool" where
  "wq_inv q \<longleftrightarrow> distinct (wq_queue q) \<and> set (wq_queue q) = wq_dirty q - wq_processing q"

lemmas wq_defs = wq_add_def wq_try_get_def wq_done_def wq_push_def wq_inv_def Let_def

interpretation wq: dedup_queue wq_add wq_try_get wq_done wq_queue wq_dirty wq_processing wq_inv
  by unfold_locales (auto simp: wq_defs split: list.splits if_splits)

text \<open>
  All that several workers and event sources can do to one queue, in any order: a worker that was handed a key finishes
  that key.
\<close>

inductive wq_step :: "work_queue \<Rightarrow> work_queue \<Rightarrow> bool" where
  step_add: "wq_step q (wq_add k q)"
| step_get: "wq_try_get q = Some (k, q') \<Longrightarrow> wq_step q q'"
| step_done: "k \<in> wq_processing q \<Longrightarrow> wq_step q (wq_done k q)"

lemma wq_step_inv: "wq_step q q' \<Longrightarrow> wq_inv q \<Longrightarrow> wq_inv q'"
  by (induction rule: wq_step.induct) (auto intro: wq.add_inv wq.take_inv wq.finish_inv)

lemma wq_reach_inv: "wq_step\<^sup>*\<^sup>* wq_new q \<Longrightarrow> wq_inv q"
  by (induction rule: rtranclp_induct) (auto dest: wq_step_inv simp: wq_new_def wq_inv_def)

text \<open>
  C20 (one worker per key, no duplicates): in every state the workers and event sources can reach, the queue holds no key
  twice, a key that is handed out is not being processed by anyone, and a key that still needs processing is
  queued or will be queued again when the worker holding it finishes.
\<close>

theorem workqueue_exclusive:
  assumes "wq_step\<^sup>*\<^sup>* wq_new q"
  shows "distinct (wq_queue q) \<and>
    (\<forall>k q'. wq_try_get q = Some (k, q') \<longrightarrow> k \<notin> wq_processing q) \<and>
    (\<forall>k \<in> wq_dirty q. k \<in> set (wq_queue q) \<or> (k \<in> wq_processing q \<and> k \<in> set (wq_queue (wq_done k q))))"
proof -
  have inv: "wq_inv q" by (rule wq_reach_inv [OF assms])
  have "k \<in> set (wq_queue (wq_done k q))" if "k \<in> wq_dirty q" for k
    using that by (simp add: wq_done_def wq_push_def Let_def)
  then show ?thesis using inv wq.taken_not_busy [OF inv] by (auto simp: wq_inv_def)
qed

theorem workqueue_exclusive_witness:
  "let q = snd (the (wq_try_get (wq_add ''a'' wq_new))) in
     wq_processing q = {''a''} \<and> ''a'' \<in> set (wq_queue (wq_done ''a'' (wq_add ''a'' q)))"
proof -
  let ?q = "snd (the (wq_try_get (wq_add ''a'' wq_new)))"
  have get: "wq_try_get (wq_add ''a'' wq_new) = Some (''a'', ?q)" by (simp add: wq_defs wq_new_def)
  have p: "wq_processing ?q = {''a''}" "''a'' \<in> wq_dirty (wq_add ''a'' ?q)" "wq_queue (wq_add ''a'' ?q) = []"
    by (simp_all add: wq_defs wq_new_def)
  have "wq_step\<^sup>*\<^sup>* wq_new (wq_add ''a'' wq_new)" by (intro r_into_rtranclp step_add)
  then have "wq_step\<^sup>*\<^sup>* wq_new ?q" using step_get [OF get] by (rule rtranclp.rtrancl_into_rtrancl)
  then have "wq_step\<^sup>*\<^sup>* wq_new (wq_add ''a'' ?q)" using step_add by (rule rtranclp.rtrancl_into_rtrancl)
  from workqueue_exclusive [OF this] p show ?thesis by (auto simp: Let_def)
qed

subsection \<open>One worker\<close>

text \<open>
  Each controller runs one worker. It tries the queue, waits for the permit when the queue is empty, and finishes
  the key it took; the event sources add keys at any moment, also between the worker's failed try and its wait.
\<close>

datatype worker = Trying | Waiting | Working string

inductive worker_step :: "work_queue \<times> worker \<Rightarrow> work_queue \<times> worker \<Rightarrow> bool" where
  take_key: "wq_try_get q = Some (k, q') \<Longrightarrow> worker_step (q, Trying) (q', Working k)"
| go_wait: "wq_try_get q = None \<Longrightarrow> worker_step (q, Trying) (q, Waiting)"
| wake_up: "wq_permit q \<Longrightarrow> worker_step (q, Waiting) (q\<lparr>wq_permit := False\<rparr>, Trying)"
| finish: "worker_step (q, Working k) (wq_done k q, Trying)"

inductive system_step :: "work_queue \<times> worker \<Rightarrow> work_queue \<times> worker \<Rightarrow> bool" where
  by_worker: "worker_step s s' \<Longrightarrow> system_step s s'"
| by_source: "system_step (q, w) (wq_add k q, w)"

inductive_cases worker_stepE: "worker_step (q, w) s"

fun holding :: "worker \<Rightarrow> string set" where
  "holding (Working k) = {k}"
| "holding _ = {}"

definition worker_inv :: "work_queue \<times> worker \<Rightarrow> bool" where
  "worker_inv s \<longleftrightarrow> wq_inv (fst s) \<and> wq_processing (fst s) = holding (snd s) \<and>
     (snd s = Waiting \<longrightarrow> wq_queue (fst s) \<noteq> [] \<longrightarrow> wq_permit (fst s))"

lemma add_permit: "wq_queue (wq_add k q) \<noteq> wq_queue q \<Longrightarrow> wq_permit (wq_add k q)"
  by (auto simp: wq_defs split: if_splits)

lemma add_keeps_permit: "wq_permit q \<Longrightarrow> wq_permit (wq_add k q)"
  by (auto simp: wq_defs)

lemma worker_step_inv: "worker_step s s' \<Longrightarrow> worker_inv s \<Longrightarrow> worker_inv s'"
proof (induction rule: worker_step.induct)
  case (take_key q k q')
  then show ?case using wq.take_inv [of q k q'] wq.take_state [of q k q'] by (simp add: worker_inv_def)
next
  case (finish q k)
  then show ?case using wq.finish_inv [of q k] by (simp add: worker_inv_def wq.finish_busy)
qed (auto simp: worker_inv_def wq_try_get_def wq_inv_def split: list.splits)

lemma source_step_inv: "worker_inv (q, w) \<Longrightarrow> worker_inv (wq_add k q, w)"
  using wq.add_inv [of q k] wq.add_busy [of k q] add_permit [of k q] add_keeps_permit [of q k]
  by (auto simp: worker_inv_def)

lemma system_reach_inv: "system_step\<^sup>*\<^sup>* (wq_new, Trying) s \<Longrightarrow> worker_inv s"
proof (induction rule: rtranclp_induct)
  case base
  show ?case by (simp add: worker_inv_def wq_new_def wq_inv_def)
next
  case (step s s')
  from step.hyps(2) step.IH show ?case
    by (induction rule: system_step.induct) (auto intro: worker_step_inv source_step_inv)
qed

text \<open>A trying worker reaches the key at position \<open>n\<close> after finishing those before it.\<close>

lemma queued_is_reached:
  "wq_queue q = ks @ k # rest \<Longrightarrow> \<exists>q'. worker_step\<^sup>*\<^sup>* (q, Trying) (q', Working k)"
proof (induction ks arbitrary: q rest)
  case Nil
  then obtain q' where "wq_try_get q = Some (k, q')" by (simp add: wq_try_get_def)
  then show ?case by (blast intro: r_into_rtranclp worker_step.take_key)
next
  case (Cons x ks)
  then obtain q1 where q1: "wq_try_get q = Some (x, q1)" "wq_queue q1 = ks @ k # rest" by (simp add: wq_try_get_def)
  then have "\<exists>rest'. wq_queue (wq_done x q1) = ks @ k # rest'" by (simp add: wq_done_def wq_push_def Let_def)
  then obtain q' where "worker_step\<^sup>*\<^sup>* (wq_done x q1, Trying) (q', Working k)" using Cons.IH by blast
  then have "worker_step\<^sup>*\<^sup>* (q1, Working x) (q', Working k)"
    using worker_step.finish [of q1 x] by (rule converse_rtranclp_into_rtranclp [rotated])
  then have "worker_step\<^sup>*\<^sup>* (q, Trying) (q', Working k)"
    using worker_step.take_key [OF q1(1)] by (rule converse_rtranclp_into_rtranclp [rotated])
  then show ?case by blast
qed

text \<open>
  C21 (every key is processed): whatever the event sources did and wherever the worker stands, a key that needs processing is
  reached by the worker's own steps, without any further event. In particular no wake-up is lost between a failed try and
  the wait, and a key added while it is being processed is processed again.
\<close>

theorem wanted_key_is_processed:
  assumes "system_step\<^sup>*\<^sup>* (wq_new, Trying) (q, w)" and "k \<in> wq_dirty q"
  shows "\<exists>q'. worker_step\<^sup>*\<^sup>* (q, w) (q', Working k)"
proof -
  have inv: "worker_inv (q, w)" by (rule system_reach_inv [OF assms(1)])
  have trying: "\<exists>q'. worker_step\<^sup>*\<^sup>* (p, Trying) (q', Working k)" if p: "worker_inv (p, Trying)" "k \<in> wq_dirty p" for p
  proof -
    have "k \<in> set (wq_queue p)" using p by (simp add: worker_inv_def wq_inv_def)
    then obtain ks rest where "wq_queue p = ks @ k # rest" by (metis split_list)
    then show ?thesis by (rule queued_is_reached)
  qed
  show ?thesis
  proof (cases w)
    case Trying
    then show ?thesis using trying inv assms(2) by simp
  next
    case Waiting
    have "k \<in> set (wq_queue q)" using inv assms(2) Waiting by (simp add: worker_inv_def wq_inv_def)
    then have "wq_permit q" using inv Waiting by (auto simp: worker_inv_def)
    then have st: "worker_step (q, w) (q\<lparr>wq_permit := False\<rparr>, Trying)" using Waiting by (simp add: worker_step.wake_up)
    then have "\<exists>q'. worker_step\<^sup>*\<^sup>* (q\<lparr>wq_permit := False\<rparr>, Trying) (q', Working k)"
      using assms(2) by (intro trying worker_step_inv [OF st inv]) simp
    then show ?thesis using st by (blast intro: converse_rtranclp_into_rtranclp)
  next
    case (Working x)
    have st: "worker_step (q, w) (wq_done x q, Trying)" using Working by (simp add: worker_step.finish)
    then have "\<exists>q'. worker_step\<^sup>*\<^sup>* (wq_done x q, Trying) (q', Working k)"
      using assms(2) by (intro trying worker_step_inv [OF st inv]) (simp add: wq.finish_wanted)
    then show ?thesis using st by (blast intro: converse_rtranclp_into_rtranclp)
  qed
qed

theorem wanted_key_is_processed_witness:
  "\<exists>q'. worker_step\<^sup>*\<^sup>* (wq_add ''a'' wq_new, Waiting) (q', Working ''a'')"
proof -
  have "wq_try_get wq_new = None" by (simp add: wq_try_get_def wq_new_def)
  then have "system_step\<^sup>*\<^sup>* (wq_new, Trying) (wq_new, Waiting)"
    by (intro r_into_rtranclp by_worker go_wait)
  then have r: "system_step\<^sup>*\<^sup>* (wq_new, Trying) (wq_add ''a'' wq_new, Waiting)"
    using by_source by (rule rtranclp.rtrancl_into_rtrancl)
  show ?thesis by (rule wanted_key_is_processed [OF r]) (simp add: wq_defs)
qed

subsection \<open>The worker's turn\<close>

text \<open>
  One iteration of the \<open>worker_loop\<close> of each controller: reconcile the key, then forget or count the failure, finish the
  key, and on failure schedule it again after the back-off (the delayed keys are the last component).
\<close>

definition worker_turn :: "('w \<Rightarrow> 'w \<times> ('e + unit)) \<Rightarrow> string \<Rightarrow> work_queue \<Rightarrow> rate_limiter \<Rightarrow> 'w \<Rightarrow>
    ('w \<times> work_queue \<times> rate_limiter \<times> (string \<times> nat) list) panics" where
  "worker_turn reconcile key q rl w =
     (case reconcile w of
        (w', Inr _) \<Rightarrow> Some (w', wq_done key q, rl_forget key rl, [])
      | (w', Inl e) \<Rightarrow>
          (case rl_failure key rl of
             None \<Rightarrow> None
           | Some (rl', attempt) \<Rightarrow> Some (w', wq_done key q, rl', [(key, backoff_for attempt)])))"

end
