(* ===== verification/Controllers.thy ===== *)
theory Controllers
  imports Client Workqueue "HOL-Library.Option_ord" "HOL-Library.Char_ord"
begin

text \<open>
  The controllers: \<^verbatim>\<open>src/controller/replicaset.rs\<close>, \<^verbatim>\<open>src/controller/endpoints.rs\<close> and
  \<^verbatim>\<open>src/scheduler.rs\<close>, with the informer, resync and worker loops of their managers. They reach the cluster through
  the client only, so they are defined over a record of its calls; \<open>client_api\<close> is the instance that
  \<^verbatim>\<open>src/client.rs\<close> gives. Failed calls that the source logs and ignores change nothing but the world.
\<close>

record 'w api =
  k8_list_pods :: "('w, pod list) call"
  k8_get_pod :: "string \<Rightarrow> ('w, pod option) call"
  k8_create_pod :: "pod \<Rightarrow> ('w, pod) call"
  k8_replace_pod_spec :: "pod \<Rightarrow> ('w, pod) call"
  k8_replace_pod_status :: "string \<Rightarrow> pod_status \<Rightarrow> string \<Rightarrow> ('w, pod) call"
  k8_delete_pod :: "string \<Rightarrow> string \<Rightarrow> ('w, unit) call"
  k8_bind_pod :: "string \<Rightarrow> string \<Rightarrow> ('w, pod) call"
  k8_list_nodes :: "('w, node list) call"
  k8_get_node :: "string \<Rightarrow> ('w, node option) call"
  k8_create_node :: "node \<Rightarrow> ('w, node) call"
  k8_replace_node_status :: "string \<Rightarrow> node_status \<Rightarrow> string \<Rightarrow> ('w, node) call"
  k8_list_replicasets :: "('w, replicaset list) call"
  k8_get_replicaset :: "string \<Rightarrow> ('w, replicaset option) call"
  k8_replace_rs_status :: "string \<Rightarrow> replicaset_status \<Rightarrow> string \<Rightarrow> ('w, replicaset) call"
  k8_list_services :: "('w, service list) call"
  k8_get_service :: "string \<Rightarrow> ('w, service option) call"
  k8_list_endpoints :: "('w, endpoints list) call"
  k8_get_endpoints :: "string \<Rightarrow> ('w, endpoints option) call"
  k8_create_endpoints :: "endpoints \<Rightarrow> ('w, endpoints) call"
  k8_replace_endpoints :: "endpoints \<Rightarrow> ('w, endpoints) call"
  k8_delete_endpoints :: "string \<Rightarrow> string \<Rightarrow> ('w, unit) call"

definition client_api :: "('w, 'j) client \<Rightarrow> 'w api" where
  "client_api cl =
     \<lparr>k8_list_pods = client_list_pods cl, k8_get_pod = client_get_pod cl, k8_create_pod = client_create_pod cl,
      k8_replace_pod_spec = client_replace_pod_spec cl, k8_replace_pod_status = client_replace_pod_status cl,
      k8_delete_pod = client_delete_pod cl, k8_bind_pod = client_bind_pod cl, k8_list_nodes = client_list_nodes cl,
      k8_get_node = client_get_node cl, k8_create_node = client_create_node cl,
      k8_replace_node_status = client_replace_node_status cl, k8_list_replicasets = client_list_replicasets cl,
      k8_get_replicaset = client_get_replicaset cl, k8_replace_rs_status = client_replace_rs_status cl,
      k8_list_services = client_list_services cl, k8_get_service = client_get_service cl,
      k8_list_endpoints = client_list_endpoints cl, k8_get_endpoints = client_get_endpoints cl,
      k8_create_endpoints = client_create_endpoints cl, k8_replace_endpoints = client_replace_endpoints cl,
      k8_delete_endpoints = client_delete_endpoints cl\<rparr>"

text \<open>A call whose error ends the caller, and one whose error is only logged.\<close>

definition and_then :: "('w, 'x) call \<Rightarrow> ('x \<Rightarrow> ('w, 'y) call) \<Rightarrow> ('w, 'y) call" where
  "and_then f g w = (case f w of (w', Inl e) \<Rightarrow> (w', Inl e) | (w', Inr x) \<Rightarrow> g x w')"

definition ignoring :: "('w, 'x) call \<Rightarrow> 'w \<Rightarrow> 'w" where
  "ignoring f w = fst (f w)"

subsection \<open>ReplicaSets\<close>

definition matches_selector :: "string_map \<Rightarrow> string_map \<Rightarrow> bool" where
  "matches_selector labels match_labels = list_all (\<lambda>(k, v). map_of labels k = Some v) match_labels"

definition rs_key_for_pod :: "pod \<Rightarrow> string option" where
  "rs_key_for_pod p =
     map_option or_name (List.find (\<lambda>r. or_kind r = ''ReplicaSet'' \<and> or_controller r) (om_owner_references (pod_metadata p)))"

definition is_owned_by :: "pod \<Rightarrow> string \<Rightarrow> bool" where
  "is_owned_by p rs_name =
     list_ex (\<lambda>r. or_kind r = ''ReplicaSet'' \<and> or_controller r \<and> or_name r = rs_name) (om_owner_references (pod_metadata p))"

definition can_adopt :: "pod \<Rightarrow> replicaset \<Rightarrow> bool" where
  "can_adopt p rs =
     (let has_controller = list_ex or_controller (om_owner_references (pod_metadata p))
      in \<not> has_controller \<and> matches_selector (om_labels (pod_metadata p)) (rss_match_labels (rs_spec rs)))"

definition owner_ref :: "replicaset \<Rightarrow> owner_reference" where
  "owner_ref rs =
     \<lparr>or_api_version = ''apps/v1'', or_kind = ''ReplicaSet'', or_name = om_name (rs_metadata rs),
      or_uid = (case om_uid (rs_metadata rs) of Some u \<Rightarrow> u | None \<Rightarrow> []), or_controller = True\<rparr>"

definition push_owner :: "owner_reference \<Rightarrow> pod \<Rightarrow> pod" where
  "push_owner r p = p\<lparr>pod_metadata := (pod_metadata p)\<lparr>om_owner_references := om_owner_references (pod_metadata p) @ [r]\<rparr>\<rparr>"

definition adopt :: "'w api \<Rightarrow> pod \<Rightarrow> replicaset \<Rightarrow> ('w, pod) call" where
  "adopt api p rs = k8_replace_pod_spec api (push_owner (owner_ref rs) p)"

definition pod_from_template :: "replicaset \<Rightarrow> string \<Rightarrow> pod" where
  "pod_from_template rs sfx =
     \<lparr>pod_api_version = ''v1'', pod_kind = ''Pod'',
      pod_metadata = object_meta_default\<lparr>om_name := om_name (rs_metadata rs) @ ''-'' @ sfx,
        om_labels := pt_labels (rss_template (rs_spec rs)), om_owner_references := [owner_ref rs]\<rparr>,
      pod_spec = pt_spec (rss_template (rs_spec rs)), pod_status = None\<rparr>"

definition pod_is_ready :: "pod \<Rightarrow> bool" where
  "pod_is_ready p =
     (case pod_status p of
        None \<Rightarrow> False
      | Some s \<Rightarrow> ps_phase s = Running \<and> ps_container_statuses s \<noteq> [] \<and> list_all cs_ready (ps_container_statuses s))"

text \<open>The owned pods, with matching orphans adopted on the way; a failed adoption is skipped.\<close>

fun gather_owned :: "'w api \<Rightarrow> replicaset \<Rightarrow> string \<Rightarrow> pod list \<Rightarrow> 'w \<Rightarrow> 'w \<times> pod list" where
  "gather_owned api rs rs_name [] w = (w, [])"
| "gather_owned api rs rs_name (p # ps) w =
     (if is_owned_by p rs_name
      then (case gather_owned api rs rs_name ps w of (w', owned) \<Rightarrow> (w', p # owned))
      else if can_adopt p rs
      then (case adopt api p rs w of
              (w1, Inr updated) \<Rightarrow> (case gather_owned api rs rs_name ps w1 of (w', owned) \<Rightarrow> (w', updated # owned))
            | (w1, Inl e) \<Rightarrow> gather_owned api rs rs_name ps w1)
      else gather_owned api rs rs_name ps w)"

fun create_missing :: "'w api \<Rightarrow> replicaset \<Rightarrow> string list \<Rightarrow> 'w \<Rightarrow> 'w" where
  "create_missing api rs [] w = w"
| "create_missing api rs (sfx # rest) w =
     create_missing api rs rest (ignoring (k8_create_pod api (pod_from_template rs sfx)) w)"

fun delete_pods :: "'w api \<Rightarrow> pod list \<Rightarrow> 'w \<Rightarrow> 'w" where
  "delete_pods api [] w = w"
| "delete_pods api (p # ps) w =
     (case om_resource_version (pod_metadata p) of
        Some rv \<Rightarrow> delete_pods api ps (ignoring (k8_delete_pod api (om_name (pod_metadata p)) rv) w)
      | None \<Rightarrow> delete_pods api ps w)"

definition cascade_delete :: "'w api \<Rightarrow> string \<Rightarrow> ('w, unit) call" where
  "cascade_delete api rs_name =
     and_then (k8_list_pods api) (\<lambda>pods w. (delete_pods api (filter (\<lambda>p. is_owned_by p rs_name) pods) w, Inr ()))"

definition new_rs_status :: "replicaset \<Rightarrow> pod list \<Rightarrow> replicaset_status" where
  "new_rs_status rs owned =
     \<lparr>rst_replicas = length owned mod 2 ^ 32, rst_ready_replicas = length (filter pod_is_ready owned) mod 2 ^ 32,
      rst_observed_generation = (case om_generation (rs_metadata rs) of Some g \<Rightarrow> g | None \<Rightarrow> 0)\<rparr>"

definition update_status :: "'w api \<Rightarrow> string \<Rightarrow> replicaset \<Rightarrow> ('w, unit) call" where
  "update_status api rs_name rs =
     and_then (k8_list_pods api) (\<lambda>pods.
       let new_status = new_rs_status rs (filter (\<lambda>p. is_owned_by p rs_name) pods) in
       (case om_resource_version (rs_metadata rs) of
          Some rv \<Rightarrow> (if rs_status rs \<noteq> Some new_status
                      then and_then (k8_replace_rs_status api rs_name new_status rv) (\<lambda>_ w. (w, Inr ()))
                      else (\<lambda>w. (w, Inr ())))
        | None \<Rightarrow> (\<lambda>w. (w, Inr ()))))"

text \<open>Random name sfxs are an argument, one for each pod that may be created.\<close>

definition rs_scale :: "'w api \<Rightarrow> replicaset \<Rightarrow> (nat \<Rightarrow> string) \<Rightarrow> pod list \<Rightarrow> 'w \<Rightarrow> 'w" where
  "rs_scale api rs sfxs owned w =
     (let desired = rss_replicas (rs_spec rs) in
      if length owned < desired then create_missing api rs (map sfxs [0..<desired - length owned]) w
      else if desired < length owned
      then delete_pods api (take (length owned - desired) (sort_key (\<lambda>p. om_creation_timestamp (pod_metadata p)) owned)) w
      else w)"

definition rs_reconcile :: "'w api \<Rightarrow> (nat \<Rightarrow> string) \<Rightarrow> string \<Rightarrow> ('w, unit) call" where
  "rs_reconcile api sfxs rs_name =
     and_then (k8_get_replicaset api rs_name) (\<lambda>r.
       case r of
         None \<Rightarrow> cascade_delete api rs_name
       | Some rs \<Rightarrow>
           and_then (k8_list_pods api) (\<lambda>all_pods w.
             case gather_owned api rs rs_name all_pods w of
               (w1, owned) \<Rightarrow> update_status api rs_name rs (rs_scale api rs sfxs owned w1)))"

subsection \<open>Endpoints\<close>

definition pod_matches :: "pod \<Rightarrow> string_map \<Rightarrow> bool" where
  "pod_matches p selector \<longleftrightarrow> selector \<noteq> [] \<and> list_all (\<lambda>(k, v). map_of (om_labels (pod_metadata p)) k = Some v) selector"

definition backend_ip :: "pod \<Rightarrow> string option" where
  "backend_ip p =
     (case pod_status p of None \<Rightarrow> None | Some st \<Rightarrow> (if ps_phase st \<noteq> Running then None else ps_pod_ip st))"

definition services_for_pod :: "pod \<Rightarrow> service list \<Rightarrow> string list" where
  "services_for_pod p services =
     map (\<lambda>s. om_name (svc_metadata s)) (filter (\<lambda>s. pod_matches p (sv_selector (svc_spec s))) services)"

definition backends :: "service \<Rightarrow> pod list \<Rightarrow> endpoint_address list" where
  "backends svc pods =
     sort_key ea_ip
       (List.map_filter (\<lambda>p. map_option (\<lambda>ip. \<lparr>ea_ip = ip, ea_port = sv_target_port (svc_spec svc)\<rparr>) (backend_ip p))
         (filter (\<lambda>p. pod_matches p (sv_selector (svc_spec svc))) pods))"

definition new_endpoints :: "string \<Rightarrow> endpoint_address list \<Rightarrow> endpoints" where
  "new_endpoints svc_name addresses =
     \<lparr>ep_api_version = ''v1'', ep_kind = ''Endpoints'', ep_metadata = object_meta_default\<lparr>om_name := svc_name\<rparr>,
      ep_addresses = addresses\<rparr>"

definition write_endpoints :: "'w api \<Rightarrow> string \<Rightarrow> endpoint_address list \<Rightarrow> ('w, unit) call" where
  "write_endpoints api svc_name addresses =
     and_then (k8_get_endpoints api svc_name) (\<lambda>r.
       case r of
         Some existing \<Rightarrow>
           (if ep_addresses existing = addresses then (\<lambda>w. (w, Inr ()))
            else and_then (k8_replace_endpoints api (existing\<lparr>ep_addresses := addresses\<rparr>)) (\<lambda>_ w. (w, Inr ())))
       | None \<Rightarrow> and_then (k8_create_endpoints api (new_endpoints svc_name addresses)) (\<lambda>_ w. (w, Inr ())))"

definition ep_reconcile :: "'w api \<Rightarrow> string \<Rightarrow> ('w, unit) call" where
  "ep_reconcile api svc_name =
     and_then (k8_get_service api svc_name) (\<lambda>r.
       case r of
         None \<Rightarrow>
           and_then (k8_get_endpoints api svc_name) (\<lambda>e w.
             case e of
               None \<Rightarrow> (w, Inr ())
             | Some existing \<Rightarrow>
                 (case om_resource_version (ep_metadata existing) of
                    None \<Rightarrow> (w, Inr ())
                  | Some rv \<Rightarrow> (ignoring (k8_delete_endpoints api svc_name rv) w, Inr ())))
       | Some svc \<Rightarrow>
           and_then (k8_list_pods api) (\<lambda>pods. write_endpoints api svc_name (backends svc pods)))"

subsection \<open>The scheduler\<close>

datatype schedule_error =
    Sched_client client_error
  | No_ready_node string

definition STALENESS_WINDOW_SECS :: int where
  "STALENESS_WINDOW_SECS = 30"

definition is_schedulable :: "(string \<Rightarrow> int option) \<Rightarrow> int \<Rightarrow> node \<Rightarrow> bool" where
  "is_schedulable parse_rfc3339 now n \<longleftrightarrow> \<not> nd_unschedulable (node_spec n) \<and> is_ready parse_rfc3339 n now STALENESS_WINDOW_SECS"

text \<open>The load table: zero for every candidate, one more for every pod bound to one.\<close>

definition initial_load :: "node list \<Rightarrow> string \<rightharpoonup> nat" where
  "initial_load candidates = map_of (map (\<lambda>n. (om_name (node_metadata n), 0)) candidates)"

definition count_pod :: "pod \<Rightarrow> (string \<rightharpoonup> nat) \<Rightarrow> string \<rightharpoonup> nat" where
  "count_pod p load =
     (case pc_node_name (pod_spec p) of None \<Rightarrow> load | Some n \<Rightarrow> load(n := map_option Suc (load n)))"

fun min_by_key :: "('a \<Rightarrow> nat) \<Rightarrow> 'a list \<Rightarrow> 'a option" where
  "min_by_key f [] = None"
| "min_by_key f (x # xs) =
     (case min_by_key f xs of None \<Rightarrow> Some x | Some y \<Rightarrow> (if f y < f x then Some y else Some x))"

definition choose_node :: "node list \<Rightarrow> pod list \<Rightarrow> node option" where
  "choose_node candidates all_pods =
     (let load = fold count_pod all_pods (initial_load candidates)
      in min_by_key (\<lambda>n. the (load (om_name (node_metadata n)))) candidates)"

definition sched_call :: "('w, 'x) call \<Rightarrow> ('x \<Rightarrow> 'w \<Rightarrow> 'w \<times> (schedule_error + 'y)) \<Rightarrow> 'w \<Rightarrow> 'w \<times> (schedule_error + 'y)" where
  "sched_call f g w = (case f w of (w', Inl e) \<Rightarrow> (w', Inl (Sched_client e)) | (w', Inr x) \<Rightarrow> g x w')"

definition schedule :: "'w api \<Rightarrow> (string \<Rightarrow> int option) \<Rightarrow> int \<Rightarrow> string \<Rightarrow> 'w \<Rightarrow> 'w \<times> (schedule_error + unit)" where
  "schedule api parse_rfc3339 now pod_name =
     sched_call (k8_get_pod api pod_name) (\<lambda>r.
       case r of
         None \<Rightarrow> (\<lambda>w. (w, Inr ()))
       | Some p \<Rightarrow>
           (if pc_node_name (pod_spec p) \<noteq> None then (\<lambda>w. (w, Inr ()))
            else sched_call (k8_list_nodes api) (\<lambda>nodes.
              let candidates = filter (is_schedulable parse_rfc3339 now) nodes in
              if candidates = [] then (\<lambda>w. (w, Inl (No_ready_node pod_name)))
              else sched_call (k8_list_pods api) (\<lambda>all_pods.
                case choose_node candidates all_pods of
                  None \<Rightarrow> (\<lambda>w. (w, Inr ()))
                | Some best \<Rightarrow>
                    sched_call (k8_bind_pod api pod_name (om_name (node_metadata best))) (\<lambda>_ w. (w, Inr ()))))))"

subsection \<open>Managers\<close>

text \<open>
  An informer consumes the events of one watch connection and stops at the first error or at the end, after which it
  reconnects. The pod informer of the endpoints manager lists the services for every event.
\<close>

fun informer :: "('a \<Rightarrow> 'w \<times> work_queue \<Rightarrow> 'w \<times> work_queue) \<Rightarrow> (client_error + 'a watch_event) list \<Rightarrow>
    'w \<times> work_queue \<Rightarrow> 'w \<times> work_queue" where
  "informer f [] s = s"
| "informer f (Inr ev # rest) s = informer f rest (f (we_object ev) s)"
| "informer f (Inl e # rest) s = s"

definition rs_informer :: "(client_error + replicaset watch_event) list \<Rightarrow> 'w \<times> work_queue \<Rightarrow> 'w \<times> work_queue" where
  "rs_informer = informer (\<lambda>rs (w, q). (w, wq_add (om_name (rs_metadata rs)) q))"

definition pod_informer :: "(client_error + pod watch_event) list \<Rightarrow> 'w \<times> work_queue \<Rightarrow> 'w \<times> work_queue" where
  "pod_informer = informer (\<lambda>p (w, q). (w, (case rs_key_for_pod p of Some rs \<Rightarrow> wq_add rs q | None \<Rightarrow> q)))"

definition service_informer :: "(client_error + service watch_event) list \<Rightarrow> 'w \<times> work_queue \<Rightarrow> 'w \<times> work_queue" where
  "service_informer = informer (\<lambda>s (w, q). (w, wq_add (om_name (svc_metadata s)) q))"

definition ep_pod_informer :: "'w api \<Rightarrow> (client_error + pod watch_event) list \<Rightarrow> 'w \<times> work_queue \<Rightarrow> 'w \<times> work_queue" where
  "ep_pod_informer api = informer (\<lambda>p (w, q).
     case k8_list_services api w of
       (w', Inr services) \<Rightarrow> (w', fold wq_add (services_for_pod p services) q)
     | (w', Inl e) \<Rightarrow> (w', q))"

definition sched_pod_informer :: "(client_error + pod watch_event) list \<Rightarrow> 'w \<times> work_queue \<Rightarrow> 'w \<times> work_queue" where
  "sched_pod_informer = informer (\<lambda>p (w, q).
     (w, (if pc_node_name (pod_spec p) = None then wq_add (om_name (pod_metadata p)) q else q)))"

definition rs_resync :: "'w api \<Rightarrow> 'w \<times> work_queue \<Rightarrow> 'w \<times> work_queue" where
  "rs_resync api s =
     (case k8_list_replicasets api (fst s) of
        (w, Inr list) \<Rightarrow> (w, fold wq_add (map (\<lambda>r. om_name (rs_metadata r)) list) (snd s))
      | (w, Inl e) \<Rightarrow> (w, snd s))"

definition ep_resync :: "'w api \<Rightarrow> 'w \<times> work_queue \<Rightarrow> 'w \<times> work_queue" where
  "ep_resync api s =
     (case k8_list_services api (fst s) of
        (w, Inr list) \<Rightarrow> (w, fold wq_add (map (\<lambda>r. om_name (svc_metadata r)) list) (snd s))
      | (w, Inl e) \<Rightarrow> (w, snd s))"

definition sched_resync :: "'w api \<Rightarrow> 'w \<times> work_queue \<Rightarrow> 'w \<times> work_queue" where
  "sched_resync api s =
     (case k8_list_pods api (fst s) of
        (w, Inr pods) \<Rightarrow>
          (w, fold wq_add (map (\<lambda>p. om_name (pod_metadata p)) (filter (\<lambda>p. pc_node_name (pod_spec p) = None) pods)) (snd s))
      | (w, Inl e) \<Rightarrow> (w, snd s))"

definition rs_worker :: "'w api \<Rightarrow> (nat \<Rightarrow> string) \<Rightarrow> string \<Rightarrow> work_queue \<Rightarrow> rate_limiter \<Rightarrow> 'w \<Rightarrow>
    ('w \<times> work_queue \<times> rate_limiter \<times> (string \<times> nat) list) panics" where
  "rs_worker api sfxs key = worker_turn (rs_reconcile api sfxs key) key"

definition ep_worker :: "'w api \<Rightarrow> string \<Rightarrow> work_queue \<Rightarrow> rate_limiter \<Rightarrow> 'w \<Rightarrow>
    ('w \<times> work_queue \<times> rate_limiter \<times> (string \<times> nat) list) panics" where
  "ep_worker api key = worker_turn (ep_reconcile api key) key"

definition sched_worker :: "'w api \<Rightarrow> (string \<Rightarrow> int option) \<Rightarrow> int \<Rightarrow> string \<Rightarrow> work_queue \<Rightarrow> rate_limiter \<Rightarrow> 'w \<Rightarrow>
    ('w \<times> work_queue \<times> rate_limiter \<times> (string \<times> nat) list) panics" where
  "sched_worker api parse_rfc3339 now key = worker_turn (schedule api parse_rfc3339 now key) key"

end
