(* ===== verification/Kube_Proxy.thy ===== *)
theory Kube_Proxy
  imports Controllers
begin

text \<open>
  The service proxy of \<^verbatim>\<open>src/kube_proxy.rs\<close>: every change of a service or of endpoints asks for one full sync, which plans the
  rules of all services and hands them to the \<^verbatim>\<open>iptables\<close> program one by one. The program and the hash of the standard library
  are parameters, as is the printing of a fraction with five digits.
\<close>

definition SYNC_KEY :: string where
  "SYNC_KEY = ''sync''"

definition KUBE_SERVICES :: string where
  "KUBE_SERVICES = ''KUBE-SERVICES''"

definition KUBE_MARK_MASQ :: string where
  "KUBE_MARK_MASQ = ''KUBE-MARK-MASQ''"

subsection \<open>Chain names\<close>

definition hex_digit :: "nat \<Rightarrow> char" where
  "hex_digit d = (if d < 10 then char_of (48 + d) else char_of (55 + d))"

fun hex_digits :: "nat \<Rightarrow> nat \<Rightarrow> string" where
  "hex_digits 0 n = []"
| "hex_digits (Suc w) n = hex_digits w (n div 16) @ [hex_digit (n mod 16)]"

definition short_hash :: "(string \<Rightarrow> nat) \<Rightarrow> string \<Rightarrow> string" where
  "short_hash hasher s = hex_digits 16 (hasher s)"

definition svc_chain_name :: "(string \<Rightarrow> nat) \<Rightarrow> string \<Rightarrow> string" where
  "svc_chain_name hasher svc = ''KUBE-SVC-'' @ short_hash hasher svc"

definition sep_chain_name :: "(string \<Rightarrow> nat) \<Rightarrow> string \<Rightarrow> string \<Rightarrow> nat \<Rightarrow> string" where
  "sep_chain_name hasher svc ip port = ''KUBE-SEP-'' @ short_hash hasher (svc @ ''/'' @ ip @ '':'' @ show_nat port)"

subsection \<open>The plan\<close>

type_synonym rule = "string list"

definition destination :: "endpoint_address \<Rightarrow> string" where
  "destination ep = ea_ip ep @ '':'' @ show_nat (ea_port ep)"

text \<open>One turn of the loop over a service's addresses: \<open>i\<close> counts them, \<open>n\<close> is their number.\<close>

definition plan_endpoint :: "(string \<Rightarrow> nat) \<Rightarrow> (nat \<Rightarrow> string) \<Rightarrow> string \<Rightarrow> nat \<Rightarrow> nat \<times> endpoint_address \<Rightarrow> rule list" where
  "plan_endpoint hasher prob_text svc n iep =
     (case iep of (i, ep) \<Rightarrow>
        let sep_chain = sep_chain_name hasher svc (ea_ip ep) (ea_port ep); svc_chain = svc_chain_name hasher svc in
        [[''-N'', sep_chain], [''-F'', sep_chain], [''-A'', sep_chain, ''-j'', KUBE_MARK_MASQ],
         [''-A'', sep_chain, ''-p'', ''tcp'', ''-j'', ''DNAT'', ''--to-destination'', destination ep],
         (if i < n - 1
          then [''-A'', svc_chain, ''-m'', ''statistic'', ''--mode'', ''random'', ''--probability'', prob_text (n - i), ''-j'', sep_chain]
          else [''-A'', svc_chain, ''-j'', sep_chain])])"

definition addresses_of :: "endpoints list \<Rightarrow> service \<Rightarrow> endpoint_address list" where
  "addresses_of eps svc =
     (case List.find (\<lambda>e. om_name (ep_metadata e) = om_name (svc_metadata svc)) eps of Some e \<Rightarrow> ep_addresses e | None \<Rightarrow> [])"

definition plan_service :: "(string \<Rightarrow> nat) \<Rightarrow> (nat \<Rightarrow> string) \<Rightarrow> endpoints list \<Rightarrow> service \<Rightarrow> rule list" where
  "plan_service hasher prob_text eps svc =
     (case sv_cluster_ip (svc_spec svc) of
        None \<Rightarrow> []
      | Some cluster_ip \<Rightarrow>
          (let addrs = addresses_of eps svc; svc_chain = svc_chain_name hasher (om_name (svc_metadata svc)) in
           if addrs = [] then []
           else [[''-N'', svc_chain], [''-F'', svc_chain]] @
                concat (map (plan_endpoint hasher prob_text (om_name (svc_metadata svc)) (length addrs)) (enumerate 0 addrs)) @
                [[''-A'', KUBE_SERVICES, ''-d'', cluster_ip, ''-p'', ''tcp'', ''--dport'', show_nat (sv_port (svc_spec svc)), ''-j'', svc_chain]]))"

definition plan_rules :: "(string \<Rightarrow> nat) \<Rightarrow> (nat \<Rightarrow> string) \<Rightarrow> service list \<Rightarrow> endpoints list \<Rightarrow> rule list" where
  "plan_rules hasher prob_text services eps =
     [''-F'', KUBE_SERVICES] # concat (map (plan_service hasher prob_text eps) services)"

subsection \<open>Commands\<close>

text \<open>A program either cannot be started, or ends with a success flag and its error output.\<close>

type_synonym 'w exec = "string list \<Rightarrow> 'w \<Rightarrow> 'w \<times> (string + bool \<times> string)"

datatype proxy_error =
    Px_client client_error
  | Px_spawn string
  | Px_failed "string list" string

type_synonym 'w command = "'w \<Rightarrow> 'w \<times> (proxy_error + unit)"

definition run_cmd :: "'w exec \<Rightarrow> string list \<Rightarrow> 'w command" where
  "run_cmd exec argv w =
     (case exec argv w of
        (w', Inl e) \<Rightarrow> (w', Inl (Px_spawn e))
      | (w', Inr (ok, err)) \<Rightarrow> (w', (if ok then Inr () else Inl (Px_failed argv err))))"

text \<open>A tolerated failure and any other are both only logged.\<close>

definition run_tolerate :: "'w exec \<Rightarrow> string list \<Rightarrow> 'w \<Rightarrow> 'w" where
  "run_tolerate exec argv w = fst (exec argv w)"

definition nat_args :: "string list \<Rightarrow> string list" where
  "nat_args rest = [''iptables'', ''-t'', ''nat''] @ rest"

fun apply_rules :: "'w exec \<Rightarrow> rule list \<Rightarrow> 'w command" where
  "apply_rules exec [] w = (w, Inr ())"
| "apply_rules exec (r # rs) w =
     (if r \<noteq> [] \<and> r ! 0 = ''-N'' then apply_rules exec rs (run_tolerate exec (nat_args r) w)
      else (case run_cmd exec (nat_args r) w of (w', Inl e) \<Rightarrow> (w', Inl e) | (w', Inr _) \<Rightarrow> apply_rules exec rs w'))"

text \<open>Check for a rule and append it when the check fails.\<close>

definition ensure_rule :: "'w exec \<Rightarrow> string list \<Rightarrow> 'w command" where
  "ensure_rule exec rest w =
     (case exec (nat_args (''-C'' # rest)) w of
        (w', Inl e) \<Rightarrow> (w', Inl (Px_spawn e))
      | (w', Inr (ok, _)) \<Rightarrow> (if ok then (w', Inr ()) else run_cmd exec (nat_args (''-A'' # rest)) w'))"

definition ensure_jump :: "'w exec \<Rightarrow> string \<Rightarrow> 'w command" where
  "ensure_jump exec parent = ensure_rule exec [parent, ''-j'', KUBE_SERVICES]"

definition ensure_masquerade :: "'w exec \<Rightarrow> 'w command" where
  "ensure_masquerade exec = ensure_rule exec [''POSTROUTING'', ''-m'', ''mark'', ''--mark'', ''0x4000/0x4000'', ''-j'', ''MASQUERADE'']"

definition then_cmd :: "'w command \<Rightarrow> 'w command \<Rightarrow> 'w command" where
  "then_cmd f g w = (case f w of (w', Inl e) \<Rightarrow> (w', Inl e) | (w', Inr _) \<Rightarrow> g w')"

definition ensure_base_chains :: "'w exec \<Rightarrow> 'w command" where
  "ensure_base_chains exec w =
     then_cmd (ensure_jump exec ''PREROUTING'') (then_cmd (ensure_jump exec ''OUTPUT'') (ensure_masquerade exec))
       (run_tolerate exec (nat_args [''-A'', KUBE_MARK_MASQ, ''-j'', ''MARK'', ''--set-xmark'', ''0x4000/0x4000''])
         (run_tolerate exec (nat_args [''-N'', KUBE_MARK_MASQ]) (run_tolerate exec (nat_args [''-N'', KUBE_SERVICES]) w)))"

definition sync :: "'w api \<Rightarrow> 'w exec \<Rightarrow> (string \<Rightarrow> nat) \<Rightarrow> (nat \<Rightarrow> string) \<Rightarrow> 'w command" where
  "sync api exec hasher prob_text w =
     (case k8_list_services api w of
        (w1, Inl e) \<Rightarrow> (w1, Inl (Px_client e))
      | (w1, Inr services) \<Rightarrow>
          (case k8_list_endpoints api w1 of
             (w2, Inl e) \<Rightarrow> (w2, Inl (Px_client e))
           | (w2, Inr eps) \<Rightarrow> apply_rules exec (plan_rules hasher prob_text services eps) w2))"

subsection \<open>The loops\<close>

definition proxy_informer :: "(client_error + 'a watch_event) list \<Rightarrow> 'w \<times> work_queue \<Rightarrow> 'w \<times> work_queue" where
  "proxy_informer = informer (\<lambda>_ (w, q). (w, wq_add SYNC_KEY q))"

definition endpoints_informer :: "(client_error + endpoints watch_event) list \<Rightarrow> 'w \<times> work_queue \<Rightarrow> 'w \<times> work_queue" where
  "endpoints_informer = proxy_informer"

definition proxy_service_informer :: "(client_error + service watch_event) list \<Rightarrow> 'w \<times> work_queue \<Rightarrow> 'w \<times> work_queue" where
  "proxy_service_informer = proxy_informer"

definition proxy_resync :: "work_queue \<Rightarrow> work_queue" where
  "proxy_resync = wq_add SYNC_KEY"

definition proxy_worker :: "'w api \<Rightarrow> 'w exec \<Rightarrow> (string \<Rightarrow> nat) \<Rightarrow> (nat \<Rightarrow> string) \<Rightarrow> string \<Rightarrow> work_queue \<Rightarrow> rate_limiter \<Rightarrow> 'w \<Rightarrow>
    ('w \<times> work_queue \<times> rate_limiter \<times> (string \<times> nat) list) panics" where
  "proxy_worker api exec hasher prob_text key = worker_turn (sync api exec hasher prob_text) key"

end
