(* ===== verification/Api_Replicas.thy ===== *)
theory Api_Replicas
  imports Api_Applier Api_Versions
begin

text \<open>
  Replicated API servers: the safety of Raft (theory \<^verbatim>\<open>Raft_Safety\<close>) and the refinement of the applier
  (theory \<^verbatim>\<open>Api_Applier\<close>) together. Also the codec of the command language that the witnesses use, and what a
  restart does to a replica whose store survives it.
\<close>

subsection \<open>A codec for commands\<close>

fun op_code :: "nat list op \<Rightarrow> nat \<times> string \<times> string \<times> nat list" where
  "op_code (Op_Create v) = (0, [], [], v)"
| "op_code (Op_ReplaceSpec n v) = (1, n, [], v)"
| "op_code (Op_ReplaceStatus n r v) = (2, n, r, v)"
| "op_code (Op_Delete n r) = (3, n, r, [])"

definition code_op :: "nat \<times> string \<times> string \<times> nat list \<Rightarrow> nat list op" where
  "code_op c = (case c of (t, n, r, v) \<Rightarrow>
     if t = 0 then Op_Create v else if t = 1 then Op_ReplaceSpec n v
     else if t = 2 then Op_ReplaceStatus n r v else Op_Delete n r)"

lemma code_op_code [simp]: "code_op (op_code c) = c"
  by (cases c) (simp_all add: code_op_def)

definition wr_cmd :: "nat list store_command wire" where
  "wr_cmd = wr_map (\<lambda>(i, k, c). \<lparr>sc_id = i, sc_kind = k, sc_op = code_op c\<rparr>) (\<lambda>c. (sc_id c, sc_kind c, op_code (sc_op c)))
     (wr_prod wr_string (wr_prod wr_string (wr_prod wr_nat (wr_prod wr_string (wr_prod wr_string (wr_list wr_nat))))))"

lemma wr_cmd_ok [wire_intros]: "wire_ok wr_cmd"
  unfolding wr_cmd_def by (intro wire_intros) simp

definition wire_codecs :: "nat list codecs" where
  "wire_codecs =
     \<lparr>cx_pod = wire_json wr_pod, cx_rs = wire_json wr_rs, cx_node = wire_json wr_node, cx_svc = wire_json wr_svc,
      cx_ep = wire_json wr_ep, cx_pod_status = wire_json wr_pod_status, cx_rs_status = wire_json wr_rs_status,
      cx_node_status = wire_json wr_node_status, cx_cmd = wire_json wr_cmd, cx_error_text = (\<lambda>_. ''io'')\<rparr>"

lemma wire_codecs_ok: "codecs_ok wire_codecs"
  by (simp add: codecs_ok_def wire_codecs_def wire_json_laws wire_intros)

lemma wire_value: "wire_ok w \<Longrightarrow> js_from_value (wire_json w) (w_enc w x) = Inr x"
  by (simp add: wire_json_def wire_dec)

lemma wire_slice: "wire_ok w \<Longrightarrow> js_from_slice (wire_json w) (w_enc w x) = Inr x"
  by (simp add: wire_json_def wire_dec)

definition empty_api :: api_spec where
  "empty_api = \<lparr>ap_rv = 0, ap_pods = Map.empty, ap_rss = Map.empty, ap_nodes = Map.empty, ap_svcs = Map.empty, ap_eps = Map.empty\<rparr>"

definition fresh_replica :: "((bytes, bytes) fmap, nat list) replica" where
  "fresh_replica = \<lparr>rp_disk = empty_disk, rp_pending = {}, rp_events = [], rp_resolved = []\<rparr>"

lemma fresh_holds: "all_hold cx (fmlookup (dk_db (rp_disk fresh_replica))) empty_api"
  by (simp add: fresh_replica_def all_hold_def empty_api_def empty_disk_def rv_holds_def kind_holds_def)

subsection \<open>Agreement\<close>

text \<open>
  C12 (replicas agree): take two API servers of one Raft cluster whose stores began with the same
  content. At any two moments, one has applied a prefix of what the other has; once it has applied the
  missing entries as well, every list a client can read, of all five kinds, with its versions, is the same
  on both.
\<close>

theorem replicas_agree:
  assumes "distinct N" and "reachable N timeout s" and "(cstep N)\<^sup>*\<^sup>* s s'" and "i \<in> set N" and "j \<in> set N"
    and "sled_laws sl view" and "codecs_ok cx"
    and "all_hold cx (view (dk_db (rp_disk ri))) a" and "all_hold cx (view (dk_db (rp_disk rj))) a"
  shows "\<exists>es.
      (cl_applied s' j = cl_applied s i @ es \<and>
       api_reads sl cx (rp_disk (apply_loop sl cx es (apply_loop sl cx (cl_applied s i) ri))) =
       api_reads sl cx (rp_disk (apply_loop sl cx (cl_applied s' j) rj))) \<or>
      (cl_applied s i = cl_applied s' j @ es \<and>
       api_reads sl cx (rp_disk (apply_loop sl cx es (apply_loop sl cx (cl_applied s' j) rj))) =
       api_reads sl cx (rp_disk (apply_loop sl cx (cl_applied s i) ri)))"
proof -
  have same: "api_reads sl cx (rp_disk (apply_loop sl cx es (apply_loop sl cx xs rp))) =
      api_reads sl cx (rp_disk (apply_loop sl cx (xs @ es) rq))"
    if "all_hold cx (view (dk_db (rp_disk rp))) a" "all_hold cx (view (dk_db (rp_disk rq))) a" for es xs rp rq
    using apply_loop_refines [OF assms(6,7) that(1), of "xs @ es"] apply_loop_refines [OF assms(6,7) that(2), of "xs @ es"]
    by (intro api_reads_unique [OF assms(6)]) (simp_all add: apply_loop_def)
  from applied_prefixes [OF assms(1-5)] show ?thesis
    by (auto simp: prefix_def intro!: same assms(8,9))
qed

theorem replicas_agree_witness:
  "\<exists>s es. reachable [1, 2, 3] (\<lambda>_. 1) s \<and> cl_applied s 1 = [demo_entry] \<and>
      (api_reads map_tree wire_codecs (rp_disk (apply_loop map_tree wire_codecs es (apply_loop map_tree wire_codecs (cl_applied s 2) fresh_replica))) =
       api_reads map_tree wire_codecs (rp_disk (apply_loop map_tree wire_codecs (cl_applied s 1) fresh_replica)) \<or>
       api_reads map_tree wire_codecs (rp_disk (apply_loop map_tree wire_codecs es (apply_loop map_tree wire_codecs (cl_applied s 1) fresh_replica))) =
       api_reads map_tree wire_codecs (rp_disk (apply_loop map_tree wire_codecs (cl_applied s 2) fresh_replica)))"
proof -
  obtain s s' where d: "reachable [1, 2, 3] (\<lambda>_. 1) s" "(cstep [1, 2, 3])\<^sup>*\<^sup>* s s'" "cl_applied s' 1 = [demo_entry]"
    by (rule demo_run)
  then have r: "reachable [1, 2, 3] (\<lambda>_. 1) s'" by (auto simp: reachable_def)
  have "distinct [1, 2, 3 :: nat]" "(1 :: nat) \<in> set [1, 2, 3]" "(2 :: nat) \<in> set [1, 2, 3]" by simp_all
  note agree = replicas_agree [OF this(1) r rtranclp.rtrancl_refl this(2,3) map_tree_laws wire_codecs_ok fresh_holds fresh_holds]
  show ?thesis using agree r d(3) by metis
qed

subsection \<open>A restart on a surviving store\<close>

text \<open>
  The agreement needs stores that began alike. \<open>RaftShell::new\<close> restarts with nothing applied and hands the log to
  the applier from the first entry on, but the stores of \<^verbatim>\<open>bin/apiserver.rs\<close> survive the restart, so the entries are
  applied a second time: a pod that was created and deleted comes back.
\<close>

definition demo_create :: log_entry where
  "demo_create = \<lparr>le_term = 1, le_index = 1,
     le_command = w_enc wr_cmd \<lparr>sc_id = ''1'', sc_kind = ''pods/'', sc_op = Op_Create (w_enc wr_pod (demo_pod ''a''))\<rparr>\<rparr>"

definition demo_delete :: log_entry where
  "demo_delete = \<lparr>le_term = 1, le_index = 2,
     le_command = w_enc wr_cmd \<lparr>sc_id = ''2'', sc_kind = ''pods/'', sc_op = Op_Delete ''a'' (show_nat 1)\<rparr>\<rparr>"

lemma spec_entry_pods:
  assumes "js_from_slice (cx_cmd cx) (le_command e) = Inr cmd" and "sc_kind cmd = ''pods/''"
    and "decode_op (cx_pod cx) (set_pod_status cx) (sc_op cmd) = Inr p"
  shows "spec_entry cx e a = with_part pods_part (fst (spec_exec Pod_kind p (part_spec pods_part a))) a"
  using assms by (simp add: spec_entry_def spec_apply_def kind_prefix_simps tag_fst spec_part_def split: prod.splits)

lemma demo_create_entry: "spec_entry wire_codecs demo_create a =
    with_part pods_part (fst (spec_exec Pod_kind (Create_op (demo_pod ''a'')) (part_spec pods_part a))) a"
  by (rule spec_entry_pods [where cmd = "\<lparr>sc_id = ''1'', sc_kind = ''pods/'', sc_op = Op_Create (w_enc wr_pod (demo_pod ''a''))\<rparr>"])
    (simp_all add: demo_create_def wire_codecs_def wire_slice wire_value wire_intros)

lemma demo_delete_entry: "spec_entry wire_codecs demo_delete a =
    with_part pods_part (fst (spec_exec Pod_kind (Delete_op ''a'' (show_nat 1)) (part_spec pods_part a))) a"
  by (rule spec_entry_pods [where cmd = "\<lparr>sc_id = ''2'', sc_kind = ''pods/'', sc_op = Op_Delete ''a'' (show_nat 1)\<rparr>"])
    (simp_all add: demo_delete_def wire_codecs_def wire_slice wire_intros)

lemma restart_replays:
  "store_get map_tree (wire_json wr_pod) Pod_kind
     (rp_disk (apply_loop map_tree wire_codecs [demo_create, demo_delete] fresh_replica)) ''a'' = Inr None"
  "store_get map_tree (wire_json wr_pod) Pod_kind
     (rp_disk (apply_loop map_tree wire_codecs [demo_create, demo_delete]
        (apply_loop map_tree wire_codecs [demo_create, demo_delete] fresh_replica))) ''a'' =
     Inr (Some (with_rv 3 (demo_pod ''a'')))"
proof -
  have sat: "saturating_succ 0 = 1" "saturating_succ 1 = 2" "saturating_succ 2 = 3" "saturating_succ (Suc 0) = 2"
    by (simp_all add: saturating_succ_def u64_max_def)
  have ne: "show_nat 1 \<noteq> show_nat 3" by (simp add: show_nat_inj)
  note defs = demo_create_entry demo_delete_entry spec_put_def spec_checked_def with_part_def part_spec_def pods_part_def
    check_rv_def current_rv_of_def set_rv_def Pod_kind_def demo_pod_def demo_meta_def Let_def
  define a1 where "a1 = spec_entry wire_codecs demo_create empty_api"
  define a2 where "a2 = spec_entry wire_codecs demo_delete a1"
  define a3 where "a3 = spec_entry wire_codecs demo_create a2"
  define a4 where "a4 = spec_entry wire_codecs demo_delete a3"
  have a1: "ap_pods a1 = [''a'' \<mapsto> with_rv 1 (demo_pod ''a'')]" "ap_rv a1 = 1"
    by (simp_all add: a1_def defs with_rv_def empty_api_def sat)
  have a2: "ap_pods a2 = Map.empty" "ap_rv a2 = 2"
    using a1 by (simp_all add: a2_def defs with_rv_def sat)
  have a3: "ap_pods a3 = [''a'' \<mapsto> with_rv 3 (demo_pod ''a'')]" "ap_rv a3 = 3"
    using a2 by (simp_all add: a3_def defs with_rv_def sat)
  have a4: "ap_pods a4 = ap_pods a3" using a3 ne by (simp add: a4_def defs with_rv_def)
  have run: "all_hold wire_codecs (fmlookup (dk_db (rp_disk (apply_loop map_tree wire_codecs es fresh_replica))))
      (fold (spec_entry wire_codecs) es empty_api)" for es
    by (rule apply_loop_refines [OF map_tree_laws wire_codecs_ok fresh_holds])
  have get: "store_get map_tree (wire_json wr_pod) Pod_kind (rp_disk (apply_loop map_tree wire_codecs es fresh_replica)) n =
      Inr (ap_pods (fold (spec_entry wire_codecs) es empty_api) n)" for es n
    using run [of es] store_get_item [OF map_tree_laws, of "wire_json wr_pod" Pod_kind _
        "part_spec pods_part (fold (spec_entry wire_codecs) es empty_api)" n]
    by (simp add: all_hold_def holds_def part_spec_def pods_part_def wire_codecs_def)
  show "store_get map_tree (wire_json wr_pod) Pod_kind
     (rp_disk (apply_loop map_tree wire_codecs [demo_create, demo_delete] fresh_replica)) ''a'' = Inr None"
    using a2 by (simp add: get a1_def a2_def)
  show "store_get map_tree (wire_json wr_pod) Pod_kind
     (rp_disk (apply_loop map_tree wire_codecs [demo_create, demo_delete]
        (apply_loop map_tree wire_codecs [demo_create, demo_delete] fresh_replica))) ''a'' =
     Inr (Some (with_rv 3 (demo_pod ''a'')))"
    using get [of "[demo_create, demo_delete] @ [demo_create, demo_delete]" "''a''"] a4 a3
    by (simp add: apply_loop_def a1_def a2_def a3_def a4_def)
qed

end
