(* ===== verification/Api_Paths.thy ===== *)
theory Api_Paths
  imports Api_Handlers Api_Replicas
begin

text \<open>
  The write requests as one type, and what holds of all of them: a follower writes nothing and redirects, and the direct and
  the Raft write path have the same effect and the same answer once the command is applied.
\<close>

datatype write_request =
    Create_pod pod
  | Replace_pod_spec string pod
  | Delete_pod string "string option"
  | Replace_pod_status string "string option" pod_status
  | Bind_pod string string
  | Create_replicaset replicaset
  | Replace_replicaset_spec string replicaset
  | Delete_replicaset string "string option"
  | Replace_replicaset_status string "string option" replicaset_status
  | Create_node node
  | Replace_node_spec string node
  | Delete_node string "string option"
  | Replace_node_status string "string option" node_status
  | Create_service service
  | Replace_service_spec string service
  | Delete_service string "string option"
  | Create_endpoints endpoints
  | Replace_endpoints string endpoints
  | Delete_endpoints string "string option"

datatype 'j reply =
    Re_pod "(pod, 'j) response"
  | Re_rs "(replicaset, 'j) response"
  | Re_node "(node, 'j) response"
  | Re_svc "(service, 'j) response"
  | Re_ep "(endpoints, 'j) response"

definition h_map :: "('x \<Rightarrow> 'y) \<Rightarrow> ('s, 'j, 'x) handler \<Rightarrow> ('s, 'j, 'y) handler" where
  "h_map f h = h_bind h (\<lambda>x. h_ok (f x))"

fun handle :: "('s, 'j) env \<Rightarrow> write_request \<Rightarrow> ('s, 'j, 'j reply) handler" where
  "handle en (Create_pod p) = h_map Re_pod (create_pod en p)"
| "handle en (Replace_pod_spec name p) = h_map Re_pod (replace_pod_spec en name p)"
| "handle en (Delete_pod name rv) = h_map Re_pod (delete_pod en name rv)"
| "handle en (Replace_pod_status name rv st) = h_map Re_pod (replace_pod_status en name rv st)"
| "handle en (Bind_pod name node) = h_map Re_pod (bind_pod en name node)"
| "handle en (Create_replicaset r) = h_map Re_rs (create_replicaset en r)"
| "handle en (Replace_replicaset_spec name r) = h_map Re_rs (replace_replicaset_spec en name r)"
| "handle en (Delete_replicaset name rv) = h_map Re_rs (delete_replicaset en name rv)"
| "handle en (Replace_replicaset_status name rv st) = h_map Re_rs (replace_replicaset_status en name rv st)"
| "handle en (Create_node n) = h_map Re_node (create_node en n)"
| "handle en (Replace_node_spec name n) = h_map Re_node (replace_node_spec en name n)"
| "handle en (Delete_node name rv) = h_map Re_node (delete_node en name rv)"
| "handle en (Replace_node_status name rv st) = h_map Re_node (replace_node_status en name rv st)"
| "handle en (Create_service s) = h_map Re_svc (create_service en s)"
| "handle en (Replace_service_spec name s) = h_map Re_svc (replace_service_spec en name s)"
| "handle en (Delete_service name rv) = h_map Re_svc (delete_service en name rv)"
| "handle en (Create_endpoints e) = h_map Re_ep (create_endpoints en e)"
| "handle en (Replace_endpoints name e) = h_map Re_ep (replace_endpoints en name e)"
| "handle en (Delete_endpoints name rv) = h_map Re_ep (delete_endpoints en name rv)"

lemmas handler_defs =
  create_pod_def replace_pod_spec_def delete_pod_def replace_pod_status_def bind_pod_def
  create_replicaset_def replace_replicaset_spec_def delete_replicaset_def replace_replicaset_status_def
  create_node_def replace_node_spec_def delete_node_def replace_node_status_def
  create_service_def replace_service_spec_def delete_service_def
  create_endpoints_def replace_endpoints_def delete_endpoints_def

subsection \<open>Followers\<close>

text \<open>The errors a follower may answer with: a refusal of the request itself, or the leader's address.\<close>

definition refusal :: "proposer \<Rightarrow> api_error \<Rightarrow> bool" where
  "refusal pr e \<longleftrightarrow> ensure_leader pr = Inl e \<or> (\<exists>m. e = Api_BadRequest m) \<or> (\<exists>m. e = Api_Internal (''encode payload: '' @ m))"

definition refuses :: "proposer \<Rightarrow> ('s, 'j, 'x) handler \<Rightarrow> bool" where
  "refuses pr h \<longleftrightarrow> (\<forall>rp. \<exists>e. h rp = (rp, Fail e) \<and> refusal pr e)"

lemma refuses_bind:
  assumes "refuses pr h"
  shows "refuses pr (h_bind h g)"
  unfolding refuses_def
proof
  fix rp
  obtain e where "h rp = (rp, Fail e)" "refusal pr e" using assms by (auto simp: refuses_def)
  then show "\<exists>e. h_bind h g rp = (rp, Fail e) \<and> refusal pr e" by (simp add: h_bind_def)
qed

lemma h_try_Inl [simp]: "h_bind (h_try (Inl e)) g = h_fail e"
  by (simp add: fun_eq_iff h_bind_def h_try_def h_fail_def)

lemma h_try_Inr [simp]: "h_bind (h_try (Inr x)) g = g x"
  by (simp add: fun_eq_iff h_bind_def h_try_def h_ok_def)

lemma refuses_try: "(\<And>e. r = Inl e \<Longrightarrow> refusal pr e) \<Longrightarrow> (\<And>x. refuses pr (g x)) \<Longrightarrow> refuses pr (h_bind (h_try r) g)"
  by (cases r) (auto simp: refuses_def h_bind_def h_try_def h_fail_def h_ok_def)

lemma refuses_fail: "refusal pr e \<Longrightarrow> refuses pr (h_fail e)"
  by (simp add: refuses_def h_fail_def)

lemma refuses_map: "refuses pr h \<Longrightarrow> refuses pr (h_map f h)"
  by (simp add: h_map_def refuses_bind)

lemma refuses_submit: "ensure_leader pr = Inl e \<Longrightarrow> refuses pr (h_bind (h_submit en pr c) g)"
  by (rule refuses_bind) (simp add: refuses_def h_submit_def submit_def refusal_def)

lemma to_value_refusal: "to_value js x = Inl e \<Longrightarrow> refusal pr e"
  by (auto simp: to_value_def refusal_def split: sum.splits)

lemma create_cmd_refusal: "create_cmd en js k x = Inl e \<Longrightarrow> refusal pr e"
  by (auto simp: create_cmd_def dest: to_value_refusal split: sum.splits)

lemma leader_refusal: "ensure_leader pr = Inl e \<Longrightarrow> refusal pr e"
  by (simp add: refusal_def)

lemma bad_request_refusal: "refusal pr (Api_BadRequest m)"
  by (simp add: refusal_def)

lemma validate_refusal:
  "validate_pod p = Inl e \<Longrightarrow> refusal pr e" "validate_replicaset r = Inl e \<Longrightarrow> refusal pr e"
  "validate_node n = Inl e \<Longrightarrow> refusal pr e" "validate_service s = Inl e \<Longrightarrow> refusal pr e"
  "check_name a b = Inl e \<Longrightarrow> refusal pr e"
  by (auto simp: validate_pod_def validate_replicaset_def validate_node_def validate_service_def check_name_def refusal_def
      split: if_splits)

lemma writes_refuse:
  assumes "en_write en = Raft pr" and "ensure_leader pr = Inl e"
  shows "refuses pr (create_write en js k ev x)" "refuses pr (replace_write en js k ev name x)"
    "refuses pr (delete_write en js k ev name rv)" "refuses pr (status_write en js k ev js_st set_st name rv st)"
    "refuses pr (h_bind (gate_leader en) g)"
  using assms
  by (auto simp: create_write_def replace_write_def delete_write_def status_write_def gate_leader_def
      intro!: refuses_try refuses_submit refuses_fail bad_request_refusal
      dest: to_value_refusal create_cmd_refusal leader_refusal split: option.splits)

subsection \<open>A replica that lost its leadership\<close>

text \<open>
  The wait for a proposal on a replica whose node is \<open>n\<close>: the shell steps the node with it, and the apply loop consumes what the
  step applies and the entries \<open>es\<close> that are committed until the timeout.
\<close>

definition proposal_run :: "'s sled \<Rightarrow> 'j codecs \<Rightarrow> raft_node \<Rightarrow> log_entry list \<Rightarrow> ('s, 'j) rest" where
  "proposal_run sl cx n es b rp =
     (let own = (case step n (Propose b) of None \<Rightarrow> [] | Some (_, effs) \<Rightarrow> applies effs);
          rp' = apply_loop sl cx (own @ es) rp;
          answers = drop (length (rp_resolved rp)) (rp_resolved rp')
      in (rp', (case js_from_slice (cx_cmd cx) b of
                  Inl _ \<Rightarrow> Not_resolved
                | Inr c \<Rightarrow> (case map_of answers (sc_id c) of None \<Rightarrow> Not_resolved | Some out \<Rightarrow> Resolved out))))"

definition carries_id :: "'j codecs \<Rightarrow> string \<Rightarrow> log_entry \<Rightarrow> bool" where
  "carries_id cx i e \<longleftrightarrow> (\<exists>c. js_from_slice (cx_cmd cx) (le_command e) = Inr c \<and> sc_id c = i)"

definition waiting_for :: "string \<Rightarrow> ('s, 'j) replica \<Rightarrow> ('s, 'j) replica" where
  "waiting_for i rp = rp\<lparr>rp_pending := insert i (rp_pending rp)\<rparr>"

lemma propose_unled: "\<not> is_leader (rn_role n) \<Longrightarrow> step n (Propose b) = Some (n, [ProposeRejected (rn_leader_hint n)])"
  by (simp add: on_propose_def)

text \<open>Entries with other ids do not touch a waiter.\<close>

lemma apply_entry_waiter:
  assumes "\<not> carries_id cx i e"
  shows "apply_entry sl cx e (waiting_for i rp) = waiting_for i (apply_entry sl cx e rp)"
    and "\<exists>xs. rp_resolved (apply_entry sl cx e rp) = rp_resolved rp @ xs \<and> i \<notin> fst ` set xs"
    and "i \<notin> rp_pending rp \<Longrightarrow> i \<notin> rp_pending (apply_entry sl cx e rp)"
  using assms
  by (cases rp; auto simp: apply_entry_def waiting_for_def carries_id_def insert_Diff_if Let_def split: sum.splits prod.splits)+

lemma apply_loop_waiter:
  assumes "\<forall>e \<in> set es. \<not> carries_id cx i e"
  shows "apply_loop sl cx es (waiting_for i rp) = waiting_for i (apply_loop sl cx es rp) \<and>
    (\<exists>xs. rp_resolved (apply_loop sl cx es rp) = rp_resolved rp @ xs \<and> i \<notin> fst ` set xs) \<and>
    (i \<notin> rp_pending rp \<longrightarrow> i \<notin> rp_pending (apply_loop sl cx es rp))"
  using assms unfolding apply_loop_def
proof (induction es arbitrary: rp)
  case (Cons e es)
  note e = apply_entry_waiter [where cx = cx and i = i and e = e and sl = sl and rp = rp] and ih = Cons.IH [of "apply_entry sl cx e rp"]
  have e': "\<not> carries_id cx i e" "\<forall>e \<in> set es. \<not> carries_id cx i e" using Cons.prems by simp_all
  obtain xs where xs: "rp_resolved (apply_entry sl cx e rp) = rp_resolved rp @ xs" "i \<notin> fst ` set xs" using e(2) [OF e'(1)] by blast
  obtain ys where ys: "rp_resolved (fold (apply_entry sl cx) es (apply_entry sl cx e rp)) = rp_resolved (apply_entry sl cx e rp) @ ys"
      "i \<notin> fst ` set ys" using ih [OF e'(2)] by blast
  have "\<exists>xs. rp_resolved (fold (apply_entry sl cx) (e # es) rp) = rp_resolved rp @ xs \<and> i \<notin> fst ` set xs"
    using xs ys by (intro exI [of _ "xs @ ys"]) auto
  then show ?case using e(1,3) [OF e'(1)] ih [OF e'(2)] by simp
qed simp

lemma submit_unled:
  assumes "ensure_leader pr = Inr ()" and "json_laws (cx_cmd cx)" and "\<not> is_leader (rn_role n)"
    and "sc_id c \<notin> rp_pending rp" and "\<forall>e \<in> set es. \<not> carries_id cx (sc_id c) e"
  shows "submit cx (proposal_run sl cx n es) pr c rp =
    (apply_loop sl cx es rp, Inl (Api_Internal ''write timed out (not committed)''))"
proof -
  let ?rp = "apply_loop sl cx es rp"
  obtain b where b: "js_to_vec (cx_cmd cx) c = Inr b" "js_from_slice (cx_cmd cx) b = Inr c" using assms(2) by (auto simp: json_laws_def)
  note w = apply_loop_waiter [OF assms(5), of sl rp]
  obtain xs where xs: "rp_resolved ?rp = rp_resolved rp @ xs" "sc_id c \<notin> fst ` set xs" using w by blast
  have "proposal_run sl cx n es b (waiting_for (sc_id c) rp) = (waiting_for (sc_id c) ?rp, Not_resolved)"
    using xs b(2) map_of_eq_None_iff [THEN iffD2, OF xs(2)]
    by (simp add: proposal_run_def on_propose_def assms(3) applies_def w [folded waiting_for_def] Let_def) (simp add: waiting_for_def)
  then show ?thesis using assms(1,4) b(1) w
    by (simp add: submit_def Let_def waiting_for_def [symmetric]) (simp add: waiting_for_def)
qed

text \<open>
  What a handler does there: it answers without a success before it submits, or it submits and times out; reading handlers
  leave the replica alone.
\<close>

definition times_out :: "'s sled \<Rightarrow> 'j codecs \<Rightarrow> log_entry list \<Rightarrow> ('s, 'j) replica \<Rightarrow> ('s, 'j) replica \<times> 'x result \<Rightarrow> bool" where
  "times_out sl cx es rp res \<longleftrightarrow>
     res = (apply_loop sl cx es rp, Fail (Api_Internal ''write timed out (not committed)'')) \<or>
     fst res = rp \<and> (\<forall>x. snd res \<noteq> Reply x)"

definition gives_up :: "'s sled \<Rightarrow> 'j codecs \<Rightarrow> log_entry list \<Rightarrow> string \<Rightarrow> ('s, 'j, 'x) handler \<Rightarrow> bool" where
  "gives_up sl cx es i h \<longleftrightarrow> (\<forall>rp. i \<notin> rp_pending rp \<longrightarrow> times_out sl cx es rp (h rp))"

definition reads_only :: "('s, 'j, 'x) handler \<Rightarrow> bool" where
  "reads_only h \<longleftrightarrow> (\<forall>rp. fst (h rp) = rp)"

lemma gives_up_bind: "gives_up sl cx es i h \<Longrightarrow> gives_up sl cx es i (h_bind h g)"
  by (fastforce simp: gives_up_def times_out_def h_bind_def split: prod.splits result.splits)

lemma gives_up_after: "reads_only h \<Longrightarrow> (\<And>x. gives_up sl cx es i (g x)) \<Longrightarrow> gives_up sl cx es i (h_bind h g)"
  by (auto simp: gives_up_def reads_only_def times_out_def h_bind_def split: prod.splits result.splits) (metis fst_conv)+

lemma gives_up_fail [simp]: "gives_up sl cx es i (h_fail e)"
  by (simp add: gives_up_def times_out_def h_fail_def)

lemma reads_only_bind: "reads_only h \<Longrightarrow> (\<And>x. reads_only (g x)) \<Longrightarrow> reads_only (h_bind h g)"
  by (auto simp: reads_only_def h_bind_def split: prod.splits result.splits) (metis fst_conv)+

lemma reads_only_simps [simp]:
  "reads_only (h_ok x)" "reads_only (h_fail e)" "reads_only (h_try r)" "reads_only (h_read en f)" "reads_only (h_panics q)"
  "reads_only (gate_leader en)"
  by (auto simp: reads_only_def h_ok_def h_fail_def h_try_def h_read_def h_panics_def gate_leader_def split: sum.splits write_path.splits)

lemma reads_only_assign [simp]: "reads_only (assign_pod_cidr en nd)" "reads_only (assign_cluster_ip en s)"
  unfolding assign_pod_cidr_def assign_cluster_ip_def by (auto intro!: reads_only_bind split: prod.splits)

lemmas reader_gives_up =
  gives_up_after [OF reads_only_simps(3)] gives_up_after [OF reads_only_simps(4)] gives_up_after [OF reads_only_simps(6)]
  gives_up_after [OF reads_only_assign(1)] gives_up_after [OF reads_only_assign(2)]

lemma writes_give_up:
  assumes "en_write en = Raft pr" and "ensure_leader pr = Inr ()" and "json_laws (cx_cmd (en_cx en))" and "\<not> is_leader (rn_role n)"
    and "en_run en = proposal_run (en_sled en) (en_cx en) n es" and "\<forall>e \<in> set es. \<not> carries_id (en_cx en) (en_cmd_id en) e"
  shows "gives_up (en_sled en) (en_cx en) es (en_cmd_id en) (create_write en js k ev x)"
    "gives_up (en_sled en) (en_cx en) es (en_cmd_id en) (replace_write en js k ev name x)"
    "gives_up (en_sled en) (en_cx en) es (en_cmd_id en) (delete_write en js k ev name rv)"
    "gives_up (en_sled en) (en_cx en) es (en_cmd_id en) (status_write en js k ev js_st set_st name rv st)"
proof -
  have "gives_up (en_sled en) (en_cx en) es (en_cmd_id en) (h_submit en pr c)" if "sc_id c = en_cmd_id en" for c
  proof -
    have "submit (en_cx en) (en_run en) pr c rp = (apply_loop (en_sled en) (en_cx en) es rp, Inl (Api_Internal ''write timed out (not committed)''))"
      if "en_cmd_id en \<notin> rp_pending rp" for rp
      unfolding assms(5) by (rule submit_unled [OF assms(2-4)]) (use that assms(6) \<open>sc_id c = en_cmd_id en\<close> in simp_all)
    then show ?thesis by (simp add: gives_up_def times_out_def h_submit_def)
  qed
  note s = gives_up_bind [OF this]
  have c: "create_cmd en js k y = Inr c \<Longrightarrow> sc_id c = en_cmd_id en" for y c by (auto simp: create_cmd_def cmd_def split: sum.splits)
  have t: "gives_up (en_sled en) (en_cx en) es (en_cmd_id en) (h_bind (h_try r) g)"
    if "\<And>y. r = Inr y \<Longrightarrow> gives_up (en_sled en) (en_cx en) es (en_cmd_id en) (g y)" for r :: "api_error + 'y" and g :: "'y \<Rightarrow> ('a, 'b, 'z) handler"
    using that by (cases r) simp_all
  show "gives_up (en_sled en) (en_cx en) es (en_cmd_id en) (create_write en js k ev x)"
    "gives_up (en_sled en) (en_cx en) es (en_cmd_id en) (replace_write en js k ev name x)"
    "gives_up (en_sled en) (en_cx en) es (en_cmd_id en) (delete_write en js k ev name rv)"
    "gives_up (en_sled en) (en_cx en) es (en_cmd_id en) (status_write en js k ev js_st set_st name rv st)"
    by (auto simp: create_write_def replace_write_def delete_write_def status_write_def assms(1) cmd_def split: option.splits
        intro!: t s dest: c)
qed

text \<open>
  C17 (only a leader writes): take any write request on a replica in Raft mode. If the replica does not believe that it leads, nothing changes: neither its
  disk nor its broadcasts nor its waiters; the answer is the refusal of a malformed request or the leadership error, which for a
  known leader is the redirect to its address. If it still believes that it leads, because stepping down does not clear the
  leader hint, but its node does not lead any more, the request is not redirected: the node rejects the proposal and is unchanged
  by it, and the client gets no success, but an early error or a timeout. The replica then only has what it applied of the
  entries that others had committed meanwhile (under other ids), and no waiter is left behind.
\<close>

theorem follower_never_writes:
  assumes "en_write en = Raft pr"
  shows "(pr_leader pr \<noteq> Some (pr_id pr) \<longrightarrow> (\<exists>e. handle en req rp = (rp, Fail e) \<and> refusal pr e)) \<and>
    (pr_leader pr = Some (pr_id pr) \<and> \<not> is_leader (rn_role n) \<and> en_run en = proposal_run (en_sled en) (en_cx en) n es \<and>
      json_laws (cx_cmd (en_cx en)) \<and> en_cmd_id en \<notin> rp_pending rp \<and> (\<forall>e \<in> set es. \<not> carries_id (en_cx en) (en_cmd_id en) e) \<longrightarrow>
      times_out (en_sled en) (en_cx en) es rp (handle en req rp) \<and> step n (Propose b) = Some (n, [ProposeRejected (rn_leader_hint n)]))"
proof (intro conjI impI; (elim conjE)?)
  assume "pr_leader pr \<noteq> Some (pr_id pr)"
  then obtain e where e: "ensure_leader pr = Inl e"
    by (cases "pr_leader pr"; cases "pr_peer_apis pr (the (pr_leader pr))") (auto simp: ensure_leader_def)
  note ws = writes_refuse [OF assms e]
  have "refuses pr (handle en req)"
    by (cases req) (auto simp: handler_defs intro!: refuses_map refuses_try ws refuses_fail bad_request_refusal dest: validate_refusal)
  then show "\<exists>e. handle en req rp = (rp, Fail e) \<and> refusal pr e" by (simp add: refuses_def)
next
  assume a: "pr_leader pr = Some (pr_id pr)" "\<not> is_leader (rn_role n)" "en_run en = proposal_run (en_sled en) (en_cx en) n es"
    "json_laws (cx_cmd (en_cx en))" "en_cmd_id en \<notin> rp_pending rp" "\<forall>e \<in> set es. \<not> carries_id (en_cx en) (en_cmd_id en) e"
  have "ensure_leader pr = Inr ()" using a(1) by (simp add: ensure_leader_def)
  note ws = writes_give_up [OF assms this a(4,2,3,6)]
  have "gives_up (en_sled en) (en_cx en) es (en_cmd_id en) (handle en req)"
    by (cases req) (auto simp: handler_defs h_map_def intro!: gives_up_bind ws reader_gives_up split: option.splits)
  then show "times_out (en_sled en) (en_cx en) es rp (handle en req rp)" using a(5) by (simp add: gives_up_def)
  show "step n (Propose b) = Some (n, [ProposeRejected (rn_leader_hint n)])" by (rule propose_unled [OF a(2)])
qed

definition demo_env :: "((bytes, bytes) fmap, nat list) env" where
  "demo_env = \<lparr>en_sled = map_tree, en_cx = wire_codecs, en_write = Direct, en_uuid = ''u'', en_now = ''t'', en_cmd_id = ''id'',
     en_run = (\<lambda>b rp. (rp, Not_resolved))\<rparr>"

definition demo_follower :: proposer where
  "demo_follower = \<lparr>pr_id = 2, pr_leader = Some 1, pr_peer_apis = [1 \<mapsto> ''http://one'']\<rparr>"

definition demo_deposed :: proposer where
  "demo_deposed = \<lparr>pr_id = 2, pr_leader = Some 2, pr_peer_apis = [1 \<mapsto> ''http://one'']\<rparr>"

theorem follower_never_writes_witness:
  "(\<exists>e. handle (demo_env\<lparr>en_write := Raft demo_follower\<rparr>) (Delete_pod ''a'' (Some ''1'')) fresh_replica = (fresh_replica, Fail e) \<and>
      refusal demo_follower e) \<and>
   times_out map_tree wire_codecs [] fresh_replica
     (handle (demo_env\<lparr>en_write := Raft demo_deposed, en_run := proposal_run map_tree wire_codecs (raft_node_new 2 [1] 10) []\<rparr>)
       (Delete_pod ''a'' (Some ''1'')) fresh_replica)"
proof -
  let ?en = "demo_env\<lparr>en_write := Raft demo_deposed, en_run := proposal_run map_tree wire_codecs (raft_node_new 2 [1] 10) []\<rparr>"
  have "\<exists>e. handle (demo_env\<lparr>en_write := Raft demo_follower\<rparr>) (Delete_pod ''a'' (Some ''1'')) fresh_replica = (fresh_replica, Fail e) \<and>
      refusal demo_follower e"
    by (rule conjunct1 [OF follower_never_writes, rule_format]) (simp_all add: demo_follower_def)
  moreover have "times_out (en_sled ?en) (en_cx ?en) [] fresh_replica (handle ?en (Delete_pod ''a'' (Some ''1'')) fresh_replica)"
    by (rule conjunct1 [OF mp [OF conjunct2 [OF follower_never_writes [where n = "raft_node_new 2 [1] 10" and pr = demo_deposed]]]])
      (simp_all add: wire_codecs_def wire_json_laws wire_intros demo_env_def demo_deposed_def raft_node_new_def fresh_replica_def)
  ultimately show ?thesis by (simp add: demo_env_def)
qed

subsection \<open>The two write paths\<close>

text \<open>A leader whose proposal is committed and applied at once: the apply loop consumes the entry and answers.\<close>

definition commit_now :: "'s sled \<Rightarrow> 'j codecs \<Rightarrow> raft_term \<Rightarrow> log_index \<Rightarrow> ('s, 'j) rest" where
  "commit_now sl cx t i b rp =
     (let rp' = apply_entry sl cx \<lparr>le_term = t, le_index = i, le_command = b\<rparr> rp
      in (rp', (if length (rp_resolved rp) < length (rp_resolved rp')
                then Resolved (snd (last (rp_resolved rp'))) else Not_resolved)))"

definition value_laws :: "('a, 'j) json \<Rightarrow> bool" where
  "value_laws js \<longleftrightarrow> (\<forall>x. \<exists>v. js_to_value js x = Inr v \<and> js_from_value js v = Inr x)"

definition api_codecs :: "'j codecs \<Rightarrow> bool" where
  "api_codecs cx \<longleftrightarrow> value_laws (cx_pod cx) \<and> value_laws (cx_rs cx) \<and> value_laws (cx_node cx) \<and> value_laws (cx_svc cx) \<and>
     value_laws (cx_ep cx) \<and> value_laws (cx_pod_status cx) \<and> value_laws (cx_rs_status cx) \<and> value_laws (cx_node_status cx) \<and>
     json_laws (cx_cmd cx)"

fun same_result :: "('a, 'j) json \<Rightarrow> ('a, 'j) response result \<Rightarrow> ('a, 'j) response result \<Rightarrow> bool" where
  "same_result js (Reply (c, Typed x)) (Reply (c', Value v)) = (c = c' \<and> js_to_value js x = Inr v)"
| "same_result js (Fail e) (Fail e') = (e = e')"
| "same_result js Panic Panic = True"
| "same_result js _ _ = False"

definition same_effect :: "('s, 'j) replica \<Rightarrow> ('s, 'j) replica \<Rightarrow> bool" where
  "same_effect rd rr \<longleftrightarrow> rp_disk rr = rp_disk rd \<and> rp_events rr = rp_events rd \<and> rp_pending rr = rp_pending rd"

definition agrees :: "('a, 'j) json \<Rightarrow> ('s, 'j, ('a, 'j) response) handler \<Rightarrow> ('s, 'j, ('a, 'j) response) handler \<Rightarrow>
    ('s, 'j) replica \<Rightarrow> bool" where
  "agrees js h1 h2 rp \<longleftrightarrow> same_effect (fst (h1 rp)) (fst (h2 rp)) \<and> same_result js (snd (h1 rp)) (snd (h2 rp))"

lemma commit_submit:
  assumes "ensure_leader pr = Inr ()" and "json_laws (cx_cmd cx)" and "sc_id c \<notin> rp_pending rp"
    and "applier_apply sl cx c (rp_disk rp) = (dk, evs, out)"
  shows "submit cx (commit_now sl cx t i) pr c rp =
     (rp\<lparr>rp_disk := dk, rp_events := rp_events rp @ evs, rp_resolved := rp_resolved rp @ [(sc_id c, out)]\<rparr>, outcome_to_result out)"
proof -
  obtain b where "js_to_vec (cx_cmd cx) c = Inr b" "js_from_slice (cx_cmd cx) b = Inr c"
    using assms(2) by (auto simp: json_laws_def)
  with assms show ?thesis
    by (cases rp) (auto simp: submit_def commit_now_def apply_entry_def Let_def)
qed

lemma outcome_result:
  assumes "value_laws js"
  shows "outcome_to_result (outcome msg js r) =
     (case r of Inl e \<Rightarrow> Inl (from_store_error msg e) | Inr x \<Rightarrow> Inr (projr (js_to_value js x)))"
    and "\<exists>v. js_to_value js x = Inr v"
proof -
  show v: "\<exists>v. js_to_value js x = Inr v" for x using assms by (auto simp: value_laws_def)
  show "outcome_to_result (outcome msg js r) =
     (case r of Inl e \<Rightarrow> Inl (from_store_error msg e) | Inr x \<Rightarrow> Inr (projr (js_to_value js x)))"
  proof (cases r)
    case (Inl e)
    then show ?thesis by (cases e) simp_all
  next
    case (Inr x)
    with v [of x] show ?thesis by auto
  qed
qed

definition raft_of :: "('s, 'j) env \<Rightarrow> proposer \<Rightarrow> raft_term \<Rightarrow> log_index \<Rightarrow> ('s, 'j) env" where
  "raft_of en pr t i = en\<lparr>en_write := Raft pr, en_run := commit_now (en_sled en) (en_cx en) t i\<rparr>"

lemma raft_of_simps [simp]:
  "en_sled (raft_of en pr t i) = en_sled en" "en_cx (raft_of en pr t i) = en_cx en" "en_write (raft_of en pr t i) = Raft pr"
  "en_uuid (raft_of en pr t i) = en_uuid en" "en_now (raft_of en pr t i) = en_now en"
  "en_run (raft_of en pr t i) = commit_now (en_sled en) (en_cx en) t i" "cmd (raft_of en pr t i) kd oper = cmd en kd oper"
  by (simp_all add: raft_of_def cmd_def)

lemma h_read_raft_of [simp]: "h_read (raft_of en pr t i) f = h_read en f"
  by (intro ext) (simp add: h_read_def split: sum.split)

lemma assign_raft_of [simp]:
  "assign_pod_cidr (raft_of en pr t i) n = assign_pod_cidr en n"
  "assign_cluster_ip (raft_of en pr t i) s = assign_cluster_ip en s"
  unfolding assign_pod_cidr_def assign_cluster_ip_def raft_of_simps h_read_raft_of by (rule refl)+

lemma h_bind_ok [simp]: "h_bind (h_ok x) g = g x"
  by (simp add: fun_eq_iff h_bind_def h_ok_def)

text \<open>What the applier does with the commands of one kind: it hands them to that kind's store.\<close>

locale applied_kind =
  fixes sl :: "'s sled" and js :: "'j codecs \<Rightarrow> ('a, 'j) json" and k :: "'a kind" and ev :: "'a watch_event \<Rightarrow> api_event"
    and set_status :: "'j codecs \<Rightarrow> 'j \<Rightarrow> 'a \<Rightarrow> 'a"
  assumes dispatch: "sc_kind c = kd_prefix k \<Longrightarrow>
      applier_apply sl cx c dk = tag ev (apply_op sl (cx_error_text cx) (js cx) k (set_status cx) (sc_op c) dk)"
begin

text \<open>A submitted command and the direct call of the store it stands for.\<close>

lemma submit_agrees:
  assumes en: "en_sled en = sl" "ensure_leader pr = Inr ()" "value_laws (js (en_cx en))" "json_laws (cx_cmd (en_cx en))"
    and "en_cmd_id en \<notin> rp_pending rp"
    and "apply_op sl (cx_error_text (en_cx en)) (js (en_cx en)) k (set_status (en_cx en)) oper (rp_disk rp) =
         outcome_of (cx_error_text (en_cx en)) (js (en_cx en)) (f (rp_disk rp))"
  shows "agrees (js (en_cx en)) (h_bind (h_write en ev f) (\<lambda>y. h_ok (code, Typed y)))
     (h_bind (h_submit (raft_of en pr t i) pr (cmd en (kd_prefix k) oper)) (\<lambda>v. h_ok (code, Value v))) rp"
proof -
  obtain dk evs r where f: "f (rp_disk rp) = (dk, evs, r)" by (metis surj_pair)
  let ?out = "outcome (cx_error_text (en_cx en)) (js (en_cx en)) r" and ?c = "cmd en (kd_prefix k) oper"
  have "applier_apply sl (en_cx en) ?c (rp_disk rp) = (dk, map ev evs, ?out)"
    using assms(6) f by (subst dispatch) (simp_all add: cmd_def tag_def outcome_of_def)
  then have sub: "submit (en_cx en) (commit_now sl (en_cx en) t i) pr ?c rp =
     (rp\<lparr>rp_disk := dk, rp_events := rp_events rp @ map ev evs, rp_resolved := rp_resolved rp @ [(sc_id ?c, ?out)]\<rparr>, outcome_to_result ?out)"
    using assms(5) by (intro commit_submit en) (simp_all add: cmd_def)
  note out = outcome_result(1) [OF en(3), of "cx_error_text (en_cx en)" r]
  show ?thesis
  proof (cases r)
    case (Inl e)
    then show ?thesis using f sub out en(1) by (simp add: agrees_def h_bind_def h_write_def h_submit_def same_effect_def)
  next
    case (Inr x)
    obtain v where "js_to_value (js (en_cx en)) x = Inr v" using outcome_result(2) [OF en(3)] by blast
    then show ?thesis using Inr f sub out en(1)
      by (simp add: agrees_def h_bind_def h_write_def h_submit_def h_ok_def same_effect_def)
  qed
qed

lemma write_agrees:
  assumes en: "en_sled en = sl" "ensure_leader pr = Inr ()" "value_laws (js (en_cx en))" "json_laws (cx_cmd (en_cx en))"
    and "en_write en = Direct" and "en_cmd_id en \<notin> rp_pending rp"
  shows create_agrees: "agrees (js (en_cx en)) (create_write en (js (en_cx en)) k ev x)
      (create_write (raft_of en pr t i) (js (en_cx en)) k ev x) rp"
    and replace_agrees: "agrees (js (en_cx en)) (replace_write en (js (en_cx en)) k ev name x)
      (replace_write (raft_of en pr t i) (js (en_cx en)) k ev name x) rp"
    and delete_agrees: "agrees (js (en_cx en)) (delete_write en (js (en_cx en)) k ev name rv)
      (delete_write (raft_of en pr t i) (js (en_cx en)) k ev name rv) rp"
proof -
  note sub = submit_agrees [OF en assms(6)]
  obtain v where v: "js_to_value (js (en_cx en)) (stamp_for_create k (en_uuid en) (en_now en) x) = Inr v"
      "js_from_value (js (en_cx en)) v = Inr (stamp_for_create k (en_uuid en) (en_now en) x)"
    using en(3) by (auto simp: value_laws_def)
  then show "agrees (js (en_cx en)) (create_write en (js (en_cx en)) k ev x)
      (create_write (raft_of en pr t i) (js (en_cx en)) k ev x) rp"
    using sub [of "Op_Create v"] en(1) assms(5) by (simp add: create_write_def create_cmd_def to_value_def store_create_def)
  obtain w where "js_to_value (js (en_cx en)) x = Inr w" "js_from_value (js (en_cx en)) w = Inr x"
    using en(3) by (auto simp: value_laws_def)
  then show "agrees (js (en_cx en)) (replace_write en (js (en_cx en)) k ev name x)
      (replace_write (raft_of en pr t i) (js (en_cx en)) k ev name x) rp"
    using sub [of "Op_ReplaceSpec name w"] en(1) assms(5) by (simp add: replace_write_def to_value_def)
  show "agrees (js (en_cx en)) (delete_write en (js (en_cx en)) k ev name rv)
      (delete_write (raft_of en pr t i) (js (en_cx en)) k ev name rv) rp"
    using sub [of "Op_Delete name (the rv)"] en(1) assms(5)
    by (cases rv) (simp_all add: delete_write_def agrees_def h_fail_def same_effect_def)
qed

lemma status_agrees:
  assumes en: "en_sled en = sl" "ensure_leader pr = Inr ()" "value_laws (js (en_cx en))" "json_laws (cx_cmd (en_cx en))"
    and "en_write en = Direct" and "en_cmd_id en \<notin> rp_pending rp" and "value_laws js_st"
    and "\<And>v s. js_from_value js_st v = Inr s \<Longrightarrow> set_status (en_cx en) v = set_st s"
  shows "agrees (js (en_cx en)) (status_write en (js (en_cx en)) k ev js_st set_st name rv st)
      (status_write (raft_of en pr t i) (js (en_cx en)) k ev js_st set_st name rv st) rp"
proof (cases rv)
  case (Some r)
  obtain v where "js_to_value js_st st = Inr v" "js_from_value js_st v = Inr st" using assms(7) by (auto simp: value_laws_def)
  with Some show ?thesis
    using submit_agrees [OF en assms(6), of "Op_ReplaceStatus name r v"] assms(5,8) en(1) by (simp add: status_write_def to_value_def)
qed (simp add: status_write_def agrees_def h_fail_def same_effect_def)

end

interpretation pods_applied: applied_kind sl cx_pod Pod_kind Pod_event set_pod_status for sl :: "'s sled"
  by unfold_locales (simp add: applier_apply_def kind_prefix_simps)

interpretation rss_applied: applied_kind sl cx_rs ReplicaSet_kind Rs_event set_rs_status for sl :: "'s sled"
  by unfold_locales (simp add: applier_apply_def kind_prefix_simps)

interpretation nodes_applied: applied_kind sl cx_node Node_kind Node_event set_node_status for sl :: "'s sled"
  by unfold_locales (simp add: applier_apply_def kind_prefix_simps)

interpretation svcs_applied: applied_kind sl cx_svc Service_kind Svc_event "\<lambda>_ _ s. s" for sl :: "'s sled"
  by unfold_locales (simp add: applier_apply_def kind_prefix_simps)

interpretation eps_applied: applied_kind sl cx_ep Endpoints_kind Ep_event "\<lambda>_ _ e. e" for sl :: "'s sled"
  by unfold_locales (simp add: applier_apply_def kind_prefix_simps)

lemma agrees_try: "(\<And>x. r = Inr x \<Longrightarrow> agrees js (f x) (g x) rp) \<Longrightarrow> agrees js (h_bind (h_try r) f) (h_bind (h_try r) g) rp"
  by (cases r) (simp_all add: agrees_def h_fail_def same_effect_def)

lemma agrees_fail: "agrees js (h_fail e) (h_fail e) rp"
  by (simp add: agrees_def h_fail_def same_effect_def)

text \<open>A step that only reads, the same on both paths, followed by writes that agree.\<close>

lemma agrees_read:
  assumes "fst (h rp) = rp" and "\<And>x. agrees js (f x) (g x) rp"
  shows "agrees js (h_bind h f) (h_bind h g) rp"
proof -
  obtain r where r: "h rp = (rp, r)" using assms(1) by (metis prod.collapse)
  show ?thesis
  proof (cases r)
    case (Reply x)
    then show ?thesis using r assms(2) [of x] by (simp add: agrees_def h_bind_def)
  qed (simp_all add: agrees_def h_bind_def r same_effect_def)
qed

fun same_reply :: "'j codecs \<Rightarrow> 'j reply result \<Rightarrow> 'j reply result \<Rightarrow> bool" where
  "same_reply cx (Reply (Re_pod a)) (Reply (Re_pod b)) = same_result (cx_pod cx) (Reply a) (Reply b)"
| "same_reply cx (Reply (Re_rs a)) (Reply (Re_rs b)) = same_result (cx_rs cx) (Reply a) (Reply b)"
| "same_reply cx (Reply (Re_node a)) (Reply (Re_node b)) = same_result (cx_node cx) (Reply a) (Reply b)"
| "same_reply cx (Reply (Re_svc a)) (Reply (Re_svc b)) = same_result (cx_svc cx) (Reply a) (Reply b)"
| "same_reply cx (Reply (Re_ep a)) (Reply (Re_ep b)) = same_result (cx_ep cx) (Reply a) (Reply b)"
| "same_reply cx (Fail e) (Fail e') = (e = e')"
| "same_reply cx Panic Panic = True"
| "same_reply cx _ _ = False"

definition agree_replies :: "'j codecs \<Rightarrow> ('s, 'j, 'j reply) handler \<Rightarrow> ('s, 'j, 'j reply) handler \<Rightarrow> ('s, 'j) replica \<Rightarrow> bool" where
  "agree_replies cx h1 h2 rp \<longleftrightarrow> same_effect (fst (h1 rp)) (fst (h2 rp)) \<and> same_reply cx (snd (h1 rp)) (snd (h2 rp))"

lemma same_result_cases:
  assumes "same_result js a b"
  obtains e where "a = Fail e" "b = Fail e" | "a = Panic" "b = Panic" | x y where "a = Reply x" "b = Reply y"
  using assms by (cases "(js, a, b)" rule: same_result.cases) auto

lemma agree_replies_map:
  assumes "agrees js h1 h2 rp"
    and "\<And>a b. same_result js (Reply a) (Reply b) \<Longrightarrow> same_reply cx (Reply (f a)) (Reply (f b))"
  shows "agree_replies cx (h_map f h1) (h_map f h2) rp"
proof -
  obtain r1 a r2 b where h: "h1 rp = (r1, a)" "h2 rp = (r2, b)" by (metis surj_pair)
  then have s: "same_effect r1 r2" "same_result js a b" using assms(1) by (simp_all add: agrees_def)
  from s(2) show ?thesis
  proof (cases rule: same_result_cases)
    case (3 x y)
    then show ?thesis using h s assms(2) by (simp add: agree_replies_def h_map_def h_bind_def h_ok_def)
  qed (use h s in \<open>simp_all add: agree_replies_def h_map_def h_bind_def\<close>)
qed

lemma read_keeps: "fst (h_read en f rp) = rp"
  by (simp add: h_read_def split: sum.splits)

lemma assign_keeps: "fst (assign_pod_cidr en n rp) = rp" "fst (assign_cluster_ip en s rp) = rp"
  by (auto simp: assign_pod_cidr_def assign_cluster_ip_def h_bind_def h_read_def h_ok_def h_fail_def h_panics_def
      split: sum.splits option.splits prod.splits result.splits if_splits)

text \<open>
  C16 (the write paths agree): for every write request of every kind, a leader whose proposal is committed and
  applied ends with the same disk, the same broadcasts and the same waiters as a standalone server, and
  answers the same: the same error, or the same status code with the JSON of the object the standalone server
  returns.
\<close>

theorem write_paths_agree:
  assumes "en_write en = Direct" and "ensure_leader pr = Inr ()" and "api_codecs (en_cx en)"
    and "en_cmd_id en \<notin> rp_pending rp"
  shows "agree_replies (en_cx en) (handle en req) (handle (raft_of en pr t i) req) rp"
proof -
  note laws = assms(3) [unfolded api_codecs_def]
  note pods = pods_applied.write_agrees [OF refl assms(2) _ _ assms(1,4)] pods_applied.status_agrees [OF refl assms(2) _ _ assms(1,4)]
  note rss = rss_applied.write_agrees [OF refl assms(2) _ _ assms(1,4)] rss_applied.status_agrees [OF refl assms(2) _ _ assms(1,4)]
  note nodes = nodes_applied.write_agrees [OF refl assms(2) _ _ assms(1,4)] nodes_applied.status_agrees [OF refl assms(2) _ _ assms(1,4)]
  note svcs = svcs_applied.write_agrees [OF refl assms(2) _ _ assms(1,4)]
  note eps = eps_applied.write_agrees [OF refl assms(2) _ _ assms(1,4)]
  note st = set_pod_status_def set_rs_status_def set_node_status_def fun_eq_iff
  show ?thesis
    by (cases req)
      (use assms(1,2) laws in \<open>auto simp: handler_defs gate_leader_def st
        intro!: agree_replies_map agrees_try agrees_read read_keeps assign_keeps agrees_fail pods rss nodes svcs eps split: option.splits\<close>)
qed

definition demo_leader :: proposer where
  "demo_leader = \<lparr>pr_id = 1, pr_leader = Some 1, pr_peer_apis = Map.empty\<rparr>"

lemma wire_value_laws: "wire_ok w \<Longrightarrow> value_laws (wire_json w)"
  by (simp add: value_laws_def wire_json_def wire_dec)

lemma wire_api_codecs: "api_codecs wire_codecs"
  by (simp add: api_codecs_def wire_codecs_def wire_value_laws wire_json_laws wire_intros)

theorem write_paths_agree_witness:
  "agree_replies wire_codecs (handle demo_env (Create_pod (demo_pod ''a'')))
     (handle (raft_of demo_env demo_leader 1 1) (Create_pod (demo_pod ''a''))) fresh_replica"
  using write_paths_agree [of demo_env demo_leader fresh_replica "Create_pod (demo_pod ''a'')" 1 1] wire_api_codecs
  by (simp add: demo_env_def demo_leader_def fresh_replica_def ensure_leader_def)

end
