(* ===== verification/Api_Alloc.thy ===== *)
theory Api_Alloc
  imports Api_Paths
begin

text \<open>
  Address allocation on creation: a node without a pod range gets the /24 slice after the largest one in use, a service
  without a cluster address the next address. Requests that run one after the other never share one; the
  allocation reads before it writes, and two requests that overlap can.
\<close>

definition cidr_index :: "node \<Rightarrow> nat option" where
  "cidr_index n = (case nd_pod_cidr (node_spec n) of None \<Rightarrow> None | Some c \<Rightarrow> parse_cidr_index c)"

definition ip_index :: "service \<Rightarrow> nat option" where
  "ip_index s = (case sv_cluster_ip (svc_spec s) of None \<Rightarrow> None | Some ip \<Rightarrow> parse_cluster_ip ip)"

definition distinct_by :: "('a \<Rightarrow> nat option) \<Rightarrow> (string \<rightharpoonup> 'a) \<Rightarrow> bool" where
  "distinct_by f objs \<longleftrightarrow>
     (\<forall>a b x y i. objs a = Some x \<longrightarrow> objs b = Some y \<longrightarrow> f x = Some i \<longrightarrow> f y = Some i \<longrightarrow> a = b)"

lemma parse_node_cidr: "i \<le> u64_max \<Longrightarrow> parse_cidr_index (node_cidr i) = Some i"
proof -
  assume "i \<le> u64_max"
  then have p: "parse_u64 (show_nat i) = Some i" by (simp add: parse_u64_def parse_show)
  have "strip_prefix (CLUSTER_POD_CIDR_PREFIX @ ''.'') ((CLUSTER_POD_CIDR_PREFIX @ ''.'') @ show_nat i @ ''.0/24'') =
      Some (show_nat i @ ''.0/24'')"
    by (rule strip_prefix_append)
  moreover have "split_once (CHR ''.'') (show_nat i @ CHR ''.'' # ''0/24'') = Some (show_nat i, ''0/24'')"
    by (rule split_once_append) (rule show_nat_no_dot)
  ultimately show ?thesis using p by (simp add: parse_cidr_index_def node_cidr_def)
qed

lemma parse_cluster_ip_of: "i \<le> u64_max \<Longrightarrow> parse_cluster_ip (cluster_ip_of i) = Some i"
  using strip_prefix_append [of "SERVICE_CIDR_PREFIX @ ''.''" "show_nat i"]
  by (simp add: parse_cluster_ip_def cluster_ip_of_def parse_u64_def parse_show)

lemma in_map_filter: "x \<in> set xs \<Longrightarrow> f x = Some y \<Longrightarrow> y \<in> set (List.map_filter f xs)"
  by (induction xs) (auto simp: map_filter_simps split: option.splits)

lemma next_index_after_fresh: "next_index_after used = Some idx \<Longrightarrow> j \<in> set used \<Longrightarrow> j < idx"
  by (auto simp: next_index_after_def less_Suc_eq_le split: if_splits)

lemma next_free_node_fresh:
  "next_free_node_cidr_index nodes = Some idx \<Longrightarrow> x \<in> set nodes \<Longrightarrow> cidr_index x = Some j \<Longrightarrow> j < idx"
  unfolding next_free_node_cidr_index_def
  by (erule next_index_after_fresh) (auto simp: cidr_index_def intro: in_map_filter split: option.splits)

lemma next_free_ip_fresh:
  "next_free_cluster_ip_index services = Some idx \<Longrightarrow> x \<in> set services \<Longrightarrow> ip_index x = Some j \<Longrightarrow> j < idx"
  unfolding next_free_cluster_ip_index_def
  by (erule next_index_after_fresh) (auto simp: ip_index_def intro: in_map_filter split: option.splits)

lemma distinct_by_fresh:
  assumes "distinct_by f objs" and "\<And>b y j. objs b = Some y \<Longrightarrow> f y = Some j \<Longrightarrow> j < idx" and "f x = Some idx"
  shows "distinct_by f (objs(name \<mapsto> x))"
  unfolding distinct_by_def
proof (intro allI impI)
  fix a b u v i
  assume "(objs(name \<mapsto> x)) a = Some u" "(objs(name \<mapsto> x)) b = Some v" "f u = Some i" "f v = Some i"
  then show "a = b"
    using assms(1) [unfolded distinct_by_def] assms(2) [of a u i] assms(2) [of b v i] assms(3)
    by (cases "a = name"; cases "b = name") auto
qed

text \<open>A direct creation, in terms of the store's specification.\<close>

lemma create_write_direct:
  assumes "resource_kind k" and "en_write en = Direct" and "sled_laws (en_sled en) view" and "json_laws js"
    and "holds js k (view (dk_db (rp_disk rp))) sp"
  shows "holds js k (view (dk_db (rp_disk (fst (create_write en js k ev x rp)))))
          (fst (spec_exec k (Create_op (stamp_for_create k (en_uuid en) (en_now en) x)) sp)) \<and>
       snd (create_write en js k ev x rp) =
         (case snd (snd (spec_exec k (Create_op (stamp_for_create k (en_uuid en) (en_now en) x)) sp)) of
            Inl e \<Rightarrow> Fail (from_store_error (cx_error_text (en_cx en)) e)
          | Inr y \<Rightarrow> Reply (201, Typed y))"
proof -
  let ?p = "Create_op (stamp_for_create k (en_uuid en) (en_now en) x)"
  obtain dk where dk: "store_exec (en_sled en) js k ?p (rp_disk rp) = (dk, snd (spec_exec k ?p sp))"
      "holds js k (view (dk_db dk)) (fst (spec_exec k ?p sp))"
    using resource_kind.store_exec_refines [OF assms(1,3-5), of ?p] by blast
  have w: "create_write en js k ev x rp = h_bind (h_write en ev (\<lambda>dk. store_exec (en_sled en) js k ?p dk)) (\<lambda>y. h_ok (201, Typed y)) rp"
    by (simp add: create_write_def assms(2) store_create_def)
  show ?thesis
  proof (cases "snd (snd (spec_exec k ?p sp))")
    case (Inl e)
    then show ?thesis unfolding w h_bind_def h_write_def dk(1) using dk(2) by (simp add: case_prod_beta del: spec_exec.simps)
  next
    case (Inr y)
    then show ?thesis unfolding w h_bind_def h_write_def dk(1) using dk(2) by (simp add: case_prod_beta h_ok_def del: spec_exec.simps)
  qed
qed

lemma stamp_simps [simp]:
  "kd_name Node_kind (stamp_for_create Node_kind u t n) = om_name (node_metadata n)"
  "cidr_index (set_rv Node_kind rv (stamp_for_create Node_kind u t n)) = cidr_index n"
  "nd_pod_cidr (node_spec (set_rv Node_kind rv (stamp_for_create Node_kind u t n))) = nd_pod_cidr (node_spec n)"
  "kd_name Service_kind (stamp_for_create Service_kind u t s) = om_name (svc_metadata s)"
  "ip_index (set_rv Service_kind rv (stamp_for_create Service_kind u t s)) = ip_index s"
  "sv_cluster_ip (svc_spec (set_rv Service_kind rv (stamp_for_create Service_kind u t s))) = sv_cluster_ip (svc_spec s)"
  by (simp_all add: stamp_for_create_def set_rv_def Node_kind_def Service_kind_def cidr_index_def ip_index_def)

text \<open>The outcomes of the allocation on a healthy store.\<close>

lemma assign_pod_cidr_cases:
  assumes "sled_laws (en_sled en) view" and "holds (cx_node (en_cx en)) Node_kind (view (dk_db (rp_disk rp))) sp"
    and "nd_pod_cidr (node_spec n) = None"
  obtains (taken) x where "sp_objs sp (om_name (node_metadata n)) = Some x" "assign_pod_cidr en n rp = (rp, Reply n)"
  | (refused) r where "assign_pod_cidr en n rp = (rp, r)" "\<nexists>y. r = Reply y"
  | (fresh) idx where "sp_objs sp (om_name (node_metadata n)) = None" "idx \<le> 255"
      "assign_pod_cidr en n rp = (rp, Reply (set_pod_cidr (node_cidr idx) n))"
      "\<And>m x j. sp_objs sp m = Some x \<Longrightarrow> cidr_index x = Some j \<Longrightarrow> j < idx"
proof -
  obtain names where l: "set names = dom (sp_objs sp)"
      "store_list (en_sled en) (cx_node (en_cx en)) Node_kind (rp_disk rp) (rp_disk rp) = Inr (map (the \<circ> sp_objs sp) names, sp_rv sp)"
    using store_list_items [OF assms(1,2)] by blast
  let ?idx = "next_free_node_cidr_index (map (the \<circ> sp_objs sp) names)"
  have a: "assign_pod_cidr en n rp =
      (if sp_objs sp (om_name (node_metadata n)) \<noteq> None then (rp, Reply n)
       else (case ?idx of None \<Rightarrow> (rp, Panic)
             | Some idx \<Rightarrow> (if 255 < idx
                  then (rp, Fail (Api_Internal (''pod CIDR space exhausted (node index '' @ show_nat idx @ '' exceeds 255)'')))
                  else (rp, Reply (set_pod_cidr (node_cidr idx) n)))))"
    using assms(3) store_get_item [OF assms(1,2)] l(2)
    by (simp add: assign_pod_cidr_def h_bind_def h_read_def h_ok_def h_fail_def h_panics_def split: option.splits)
  show ?thesis
  proof (cases "sp_objs sp (om_name (node_metadata n))")
    case (Some x)
    then show ?thesis using a taken by simp
  next
    case None
    show ?thesis
    proof (cases ?idx)
      case n: None
      then show ?thesis using refused [of Panic] None a by simp
    next
      case (Some idx)
      have lt: "j < idx" if "sp_objs sp m = Some x" "cidr_index x = Some j" for m x j
        using that l(1) next_free_node_fresh [OF Some, of x j] by (force simp: dom_def image_iff)
      show ?thesis using refused fresh [OF None _ _ lt] Some None a by (cases "255 < idx") auto
    qed
  qed
qed

text \<open>
  C18 (node ranges stay distinct): creating a node that brings no range of its own keeps the slices of all registered nodes
  pairwise distinct, on success and on every error. A created node gets \<open>10.244.i.0/24\<close> with \<open>i\<close> at most 255 and
  larger than every index in use; a node that is registered already keeps its slice.
\<close>

theorem node_cidrs_stay_distinct:
  assumes "en_write en = Direct" and "sled_laws (en_sled en) view" and "json_laws (cx_node (en_cx en))"
    and "holds (cx_node (en_cx en)) Node_kind (view (dk_db (rp_disk rp))) sp"
    and "distinct_by cidr_index (sp_objs sp)" and "nd_pod_cidr (node_spec n) = None"
  shows "\<exists>sp'. holds (cx_node (en_cx en)) Node_kind (view (dk_db (rp_disk (fst (create_node en n rp))))) sp' \<and>
      distinct_by cidr_index (sp_objs sp') \<and>
      (case snd (create_node en n rp) of
         Reply (code, Typed y) \<Rightarrow>
           code = 201 \<and> sp_objs sp (om_name (node_metadata n)) = None \<and>
           sp_objs sp' = (sp_objs sp)(om_name (node_metadata n) \<mapsto> y) \<and>
           (\<exists>idx \<le> 255. nd_pod_cidr (node_spec y) = Some (node_cidr idx) \<and>
              (\<forall>m x j. sp_objs sp m = Some x \<longrightarrow> cidr_index x = Some j \<longrightarrow> j < idx))
       | _ \<Rightarrow> sp' = sp)"
proof (cases "validate_node n")
  case (Inl e)
  then show ?thesis using assms(4,5) by (intro exI [of _ sp]) (simp add: create_node_def h_fail_def)
next
  case (Inr u)
  let ?w = "create_write en (cx_node (en_cx en)) Node_kind Node_event"
  have c: "create_node en n rp = h_bind (assign_pod_cidr en n) ?w rp"
    using Inr assms(1) by (simp add: create_node_def gate_leader_def)
  note direct = create_write_direct [OF node_res.resource_kind_axioms assms(1-4), of Node_event]
  from assms(2,4,6) show ?thesis
  proof (cases rule: assign_pod_cidr_cases)
    case (taken x)
    then show ?thesis using direct [of n] assms(5) by (intro exI [of _ sp]) (simp add: c h_bind_def)
  next
    case (refused r)
    then show ?thesis using assms(4,5) by (intro exI [of _ sp]) (cases r; simp add: c h_bind_def)
  next
    case (fresh idx)
    let ?n = "set_pod_cidr (node_cidr idx) n"
    have ix: "cidr_index ?n = Some idx"
      using fresh(2) parse_node_cidr [of idx] by (simp add: cidr_index_def set_pod_cidr_def u64_max_def)
    have nm: "om_name (node_metadata ?n) = om_name (node_metadata n)" "nd_pod_cidr (node_spec ?n) = Some (node_cidr idx)"
      by (simp_all add: set_pod_cidr_def)
    let ?y = "set_rv Node_kind (saturating_succ (sp_rv sp)) (stamp_for_create Node_kind (en_uuid en) (en_now en) ?n)"
    have d: "distinct_by cidr_index ((sp_objs sp)(om_name (node_metadata n) \<mapsto> ?y))"
      using ix by (intro distinct_by_fresh [OF assms(5) fresh(4)]) simp_all
    have "holds (cx_node (en_cx en)) Node_kind (view (dk_db (rp_disk (fst (?w ?n rp)))))
        \<lparr>sp_rv = saturating_succ (sp_rv sp), sp_objs = (sp_objs sp)(om_name (node_metadata n) \<mapsto> ?y)\<rparr>"
        "snd (?w ?n rp) = Reply (201, Typed ?y)"
      using direct [of ?n] fresh(1) nm(1) by (simp_all add: spec_put_def)
    with d fresh nm(2) show ?thesis
      by (intro exI [of _ "\<lparr>sp_rv = saturating_succ (sp_rv sp), sp_objs = (sp_objs sp)(om_name (node_metadata n) \<mapsto> ?y)\<rparr>"])
        (auto simp: c h_bind_def)
  qed
qed

definition demo_node :: "string \<Rightarrow> node" where
  "demo_node name = \<lparr>node_api_version = ''v1'', node_kind = ''Node'', node_metadata = demo_meta name,
     node_spec = \<lparr>nd_unschedulable = False, nd_pod_cidr = None\<rparr>, node_status = None\<rparr>"

lemma demo_env_simps [simp]: "en_write demo_env = Direct" "en_sled demo_env = map_tree" "cx_node (en_cx demo_env) = wire_json wr_node"
  by (simp_all add: demo_env_def wire_codecs_def)

lemma fresh_disk [simp]: "rp_disk fresh_replica = empty_disk"
  by (simp add: fresh_replica_def)

theorem node_cidrs_stay_distinct_witness:
  "\<exists>sp'. holds (wire_json wr_node) Node_kind (fmlookup (dk_db (rp_disk (fst (create_node demo_env (demo_node ''n'') fresh_replica))))) sp' \<and>
      distinct_by cidr_index (sp_objs sp')"
  using node_cidrs_stay_distinct [of demo_env fmlookup fresh_replica empty_spec "demo_node ''n''"] map_tree_laws
    wire_json_laws [OF wr_node_ok] empty_holds [of "wire_json wr_node" Node_kind]
  by (simp add: distinct_by_def empty_spec_def demo_node_def) blast

text \<open>The same for cluster addresses.\<close>

lemma assign_cluster_ip_cases:
  assumes "sled_laws (en_sled en) view" and "holds (cx_svc (en_cx en)) Service_kind (view (dk_db (rp_disk rp))) sp"
    and "sv_cluster_ip (svc_spec n) = None"
  obtains (taken) x where "sp_objs sp (om_name (svc_metadata n)) = Some x" "assign_cluster_ip en n rp = (rp, Reply n)"
  | (refused) r where "assign_cluster_ip en n rp = (rp, r)" "\<nexists>y. r = Reply y"
  | (fresh) idx where "sp_objs sp (om_name (svc_metadata n)) = None" "idx \<le> 255"
      "assign_cluster_ip en n rp = (rp, Reply (set_cluster_ip (cluster_ip_of idx) n))"
      "\<And>m x j. sp_objs sp m = Some x \<Longrightarrow> ip_index x = Some j \<Longrightarrow> j < idx"
proof -
  obtain names where l: "set names = dom (sp_objs sp)"
      "store_list (en_sled en) (cx_svc (en_cx en)) Service_kind (rp_disk rp) (rp_disk rp) = Inr (map (the \<circ> sp_objs sp) names, sp_rv sp)"
    using store_list_items [OF assms(1,2)] by blast
  let ?idx = "next_free_cluster_ip_index (map (the \<circ> sp_objs sp) names)"
  have a: "assign_cluster_ip en n rp =
      (if sp_objs sp (om_name (svc_metadata n)) \<noteq> None then (rp, Reply n)
       else (case ?idx of None \<Rightarrow> (rp, Panic)
             | Some idx \<Rightarrow> (if 255 < idx
                  then (rp, Fail (Api_Internal (''service ClusterIP space exhausted (index '' @ show_nat idx @ '' exceeds 255)'')))
                  else (rp, Reply (set_cluster_ip (cluster_ip_of idx) n)))))"
    using assms(3) store_get_item [OF assms(1,2)] l(2)
    by (simp add: assign_cluster_ip_def h_bind_def h_read_def h_ok_def h_fail_def h_panics_def split: option.splits)
  show ?thesis
  proof (cases "sp_objs sp (om_name (svc_metadata n))")
    case (Some x)
    then show ?thesis using a taken by simp
  next
    case None
    show ?thesis
    proof (cases ?idx)
      case n: None
      then show ?thesis using refused [of Panic] None a by simp
    next
      case (Some idx)
      have lt: "j < idx" if "sp_objs sp m = Some x" "ip_index x = Some j" for m x j
        using that l(1) next_free_ip_fresh [OF Some, of x j] by (force simp: dom_def image_iff)
      show ?thesis using refused fresh [OF None _ _ lt] Some None a by (cases "255 < idx") auto
    qed
  qed
qed

text \<open>
  Cluster addresses stay distinct: creating a service that brings no address keeps the addresses of all services
  pairwise distinct, on success and on every error. A created service gets \<open>10.96.0.i\<close> with \<open>i\<close> at most 255 and
  larger than every index in use.
\<close>

theorem cluster_ips_stay_distinct:
  assumes "en_write en = Direct" and "sled_laws (en_sled en) view" and "json_laws (cx_svc (en_cx en))"
    and "holds (cx_svc (en_cx en)) Service_kind (view (dk_db (rp_disk rp))) sp"
    and "distinct_by ip_index (sp_objs sp)" and "sv_cluster_ip (svc_spec n) = None"
  shows "\<exists>sp'. holds (cx_svc (en_cx en)) Service_kind (view (dk_db (rp_disk (fst (create_service en n rp))))) sp' \<and>
      distinct_by ip_index (sp_objs sp') \<and>
      (case snd (create_service en n rp) of
         Reply (code, Typed y) \<Rightarrow>
           code = 201 \<and> sp_objs sp (om_name (svc_metadata n)) = None \<and>
           sp_objs sp' = (sp_objs sp)(om_name (svc_metadata n) \<mapsto> y) \<and>
           (\<exists>idx \<le> 255. sv_cluster_ip (svc_spec y) = Some (cluster_ip_of idx) \<and>
              (\<forall>m x j. sp_objs sp m = Some x \<longrightarrow> ip_index x = Some j \<longrightarrow> j < idx))
       | _ \<Rightarrow> sp' = sp)"
proof (cases "validate_service n")
  case (Inl e)
  then show ?thesis using assms(4,5) by (intro exI [of _ sp]) (simp add: create_service_def h_fail_def)
next
  case (Inr u)
  let ?w = "create_write en (cx_svc (en_cx en)) Service_kind Svc_event"
  have c: "create_service en n rp = h_bind (assign_cluster_ip en n) ?w rp"
    using Inr assms(1) by (simp add: create_service_def gate_leader_def)
  note direct = create_write_direct [OF svc_res.resource_kind_axioms assms(1-4), of Svc_event]
  from assms(2,4,6) show ?thesis
  proof (cases rule: assign_cluster_ip_cases)
    case (taken x)
    then show ?thesis using direct [of n] assms(5) by (intro exI [of _ sp]) (simp add: c h_bind_def)
  next
    case (refused r)
    then show ?thesis using assms(4,5) by (intro exI [of _ sp]) (cases r; simp add: c h_bind_def)
  next
    case (fresh idx)
    let ?n = "set_cluster_ip (cluster_ip_of idx) n"
    have ix: "ip_index ?n = Some idx"
      using fresh(2) parse_cluster_ip_of [of idx] by (simp add: ip_index_def set_cluster_ip_def u64_max_def)
    have nm: "om_name (svc_metadata ?n) = om_name (svc_metadata n)" "sv_cluster_ip (svc_spec ?n) = Some (cluster_ip_of idx)"
      by (simp_all add: set_cluster_ip_def)
    let ?y = "set_rv Service_kind (saturating_succ (sp_rv sp)) (stamp_for_create Service_kind (en_uuid en) (en_now en) ?n)"
    have d: "distinct_by ip_index ((sp_objs sp)(om_name (svc_metadata n) \<mapsto> ?y))"
      using ix by (intro distinct_by_fresh [OF assms(5) fresh(4)]) simp_all
    have "holds (cx_svc (en_cx en)) Service_kind (view (dk_db (rp_disk (fst (?w ?n rp)))))
        \<lparr>sp_rv = saturating_succ (sp_rv sp), sp_objs = (sp_objs sp)(om_name (svc_metadata n) \<mapsto> ?y)\<rparr>"
        "snd (?w ?n rp) = Reply (201, Typed ?y)"
      using direct [of ?n] fresh(1) nm(1) by (simp_all add: spec_put_def)
    with d fresh nm(2) show ?thesis
      by (intro exI [of _ "\<lparr>sp_rv = saturating_succ (sp_rv sp), sp_objs = (sp_objs sp)(om_name (svc_metadata n) \<mapsto> ?y)\<rparr>"])
        (auto simp: c h_bind_def)
  qed
qed

definition demo_service :: "string \<Rightarrow> service" where
  "demo_service name = \<lparr>svc_api_version = ''v1'', svc_kind = ''Service'', svc_metadata = demo_meta name,
     svc_spec = \<lparr>sv_selector = [(''app'', ''web'')], sv_port = 80, sv_target_port = 8080, sv_cluster_ip = None\<rparr>\<rparr>"

lemma demo_env_svc [simp]: "cx_svc (en_cx demo_env) = wire_json wr_svc"
  by (simp add: demo_env_def wire_codecs_def)

theorem cluster_ips_stay_distinct_witness:
  "\<exists>sp'. holds (wire_json wr_svc) Service_kind (fmlookup (dk_db (rp_disk (fst (create_service demo_env (demo_service ''s'') fresh_replica))))) sp' \<and>
      distinct_by ip_index (sp_objs sp')"
  using cluster_ips_stay_distinct [of demo_env fmlookup fresh_replica empty_spec "demo_service ''s''"] map_tree_laws
    wire_json_laws [OF wr_svc_ok] empty_holds [of "wire_json wr_svc" Service_kind]
  by (simp add: distinct_by_def empty_spec_def demo_service_def) blast

subsection \<open>What the allocation does not do\<close>

text \<open>The slice of a deleted node below the largest one in use is not handed out again.\<close>

lemma cidr_gap_not_reused:
  "next_free_node_cidr_index [set_pod_cidr (node_cidr 0) (demo_node ''a''), set_pod_cidr (node_cidr 2) (demo_node ''c'')] = Some 3"
proof -
  have "parse_cidr_index (node_cidr 0) = Some 0" "parse_cidr_index (node_cidr 2) = Some 2"
    by (rule parse_node_cidr, simp add: u64_max_def)+
  then show ?thesis
    by (simp add: next_free_node_cidr_index_def set_pod_cidr_def next_index_after_def map_filter_simps checked_add_def u64_max_def)
qed

text \<open>
  The allocation is decided before the write: two requests that both read before either writes are given the same
  slice.
\<close>

lemma cidr_race:
  "assign_pod_cidr demo_env (demo_node ''a'') fresh_replica = (fresh_replica, Reply (set_pod_cidr (node_cidr 0) (demo_node ''a'')))"
  "assign_pod_cidr demo_env (demo_node ''b'') fresh_replica = (fresh_replica, Reply (set_pod_cidr (node_cidr 0) (demo_node ''b'')))"
proof -
  have "holds (wire_json wr_node) Node_kind (fmlookup (dk_db empty_disk)) empty_spec" by (rule empty_holds)
  then have g: "store_get map_tree (wire_json wr_node) Node_kind empty_disk name = Inr None" for name
    using store_get_item [OF map_tree_laws] by (fastforce simp: empty_spec_def)
  have l: "store_list map_tree (wire_json wr_node) Node_kind empty_disk empty_disk = Inr ([], 0)"
    by (simp add: store_list_def empty_scan store_current_rv_def) (simp add: map_tree_def empty_disk_def)
  show "assign_pod_cidr demo_env (demo_node ''a'') fresh_replica = (fresh_replica, Reply (set_pod_cidr (node_cidr 0) (demo_node ''a'')))"
    "assign_pod_cidr demo_env (demo_node ''b'') fresh_replica = (fresh_replica, Reply (set_pod_cidr (node_cidr 0) (demo_node ''b'')))"
    by (simp_all add: assign_pod_cidr_def demo_node_def h_bind_def h_read_def h_ok_def h_panics_def g l
        next_free_node_cidr_index_def next_index_after_def map_filter_simps)
qed

end
