(* ===== verification/Ipam.thy ===== *)
theory Ipam
  imports Api_Alloc
begin

text \<open>
  The kubelet's address allocator, \<^verbatim>\<open>src/ipam.rs\<close>: one /24 slice, a cursor, the released and the handed-out hosts.
  The allocator is a state machine over its three operations; the invariant gives that an address in use is never
  handed out again and that allocation fails only when all 253 addresses are in use. With the slices the API server
  assigns, no two nodes hand out the same address.
\<close>

type_synonym ipv4 = "nat \<times> nat \<times> nat \<times> nat"

text \<open>The standard library's address parser: four decimal octets without leading zeros.\<close>

definition parse_octet :: "string \<Rightarrow> nat option" where
  "parse_octet s =
     (if s = [] \<or> 3 < length s \<or> (hd s = CHR ''0'' \<and> 1 < length s) then None else parse_digits 255 0 s)"

definition parse_ipv4 :: "string \<Rightarrow> ipv4 option" where
  "parse_ipv4 s =
     (case split_on (CHR ''.'') s of
        [a, b, c, d] \<Rightarrow>
          (case (parse_octet a, parse_octet b, parse_octet c, parse_octet d) of
             (Some a', Some b', Some c', Some d') \<Rightarrow> Some (a', b', c', d')
           | _ \<Rightarrow> None)
      | _ \<Rightarrow> None)"

datatype ipam_error =
    Missing_mask
  | Not_slash_24 string
  | Bad_address string
  | Bad_base
  | Pool_exhausted
  | Not_in_slice
  | Reserved_host

definition FIRST_HOST :: nat where
  "FIRST_HOST = 2"

definition BROADCAST_HOST :: nat where
  "BROADCAST_HOST = 255"

record ip_allocator =
  al_prefix :: "nat \<times> nat \<times> nat"
  al_next :: nat
  al_released :: "nat set"
  al_allocated :: "nat set"

definition from_cidr :: "string \<Rightarrow> ipam_error + ip_allocator" where
  "from_cidr cidr =
     (case split_once (CHR ''/'') cidr of
        None \<Rightarrow> Inl Missing_mask
      | Some (addr, bits) \<Rightarrow>
          (if bits \<noteq> ''24'' then Inl (Not_slash_24 bits)
           else (case parse_ipv4 addr of
                   None \<Rightarrow> Inl (Bad_address addr)
                 | Some (a, b, c, d) \<Rightarrow>
                     (if d \<noteq> 0 then Inl Bad_base
                      else Inr \<lparr>al_prefix = (a, b, c), al_next = FIRST_HOST, al_released = {}, al_allocated = {}\<rparr>))))"

definition make_ip :: "ip_allocator \<Rightarrow> nat \<Rightarrow> ipv4" where
  "make_ip al host = (case al_prefix al of (a, b, c) \<Rightarrow> (a, b, c, host))"

definition host_in_range :: "ip_allocator \<Rightarrow> ipv4 \<Rightarrow> ipam_error + nat" where
  "host_in_range al ip =
     (case ip of (a, b, c, d) \<Rightarrow>
        (if (a, b, c) \<noteq> al_prefix al then Inl Not_in_slice
         else if d = 0 \<or> d = 1 \<or> d = 255 then Inl Reserved_host
         else Inr d))"

text \<open>The cursor loop; it ends because the cursor moves up to the broadcast host.\<close>

function advance_cursor :: "ip_allocator \<Rightarrow> ip_allocator \<times> (ipam_error + ipv4)" where
  "advance_cursor al =
     (if al_next al < BROADCAST_HOST
      then (let host = al_next al; al' = al\<lparr>al_next := host + 1\<rparr> in
            if host \<notin> al_allocated al'
            then (al'\<lparr>al_allocated := insert host (al_allocated al')\<rparr>, Inr (make_ip al' host))
            else advance_cursor al')
      else (al, Inl Pool_exhausted))"
  by pat_completeness auto
termination
  by (relation "measure (\<lambda>al. BROADCAST_HOST - al_next al)") auto

declare advance_cursor.simps [simp del]

definition allocate :: "ip_allocator \<Rightarrow> ip_allocator \<times> (ipam_error + ipv4)" where
  "allocate al =
     (if al_released al \<noteq> {}
      then (let host = Min (al_released al) in
            (al\<lparr>al_released := al_released al - {host}, al_allocated := insert host (al_allocated al)\<rparr>, Inr (make_ip al host)))
      else advance_cursor al)"

definition reserve :: "ip_allocator \<Rightarrow> ipv4 \<Rightarrow> ip_allocator \<times> (ipam_error + unit)" where
  "reserve al ip =
     (case host_in_range al ip of
        Inl e \<Rightarrow> (al, Inl e)
      | Inr host \<Rightarrow>
          (al\<lparr>al_released := al_released al - {host}, al_allocated := insert host (al_allocated al)\<rparr>, Inr ()))"

definition release :: "ip_allocator \<Rightarrow> ipv4 \<Rightarrow> ip_allocator" where
  "release al ip =
     (case host_in_range al ip of
        Inl e \<Rightarrow> al
      | Inr host \<Rightarrow>
          (if host \<in> al_allocated al
           then al\<lparr>al_allocated := al_allocated al - {host}, al_released := insert host (al_released al)\<rparr>
           else al))"

subsection \<open>Invariant\<close>

text \<open>Usable hosts; the two sets are disjoint and cover everything below the cursor.\<close>

definition usable :: "nat set" where
  "usable = {FIRST_HOST..<BROADCAST_HOST}"

definition alloc_inv :: "ip_allocator \<Rightarrow> bool" where
  "alloc_inv al \<longleftrightarrow>
     al_released al \<subseteq> usable \<and> al_allocated al \<subseteq> usable \<and> al_released al \<inter> al_allocated al = {} \<and>
     FIRST_HOST \<le> al_next al \<and> al_next al \<le> BROADCAST_HOST \<and>
     {FIRST_HOST..<al_next al} \<subseteq> al_released al \<union> al_allocated al"

text \<open>Octets are bytes.\<close>

fun valid_ip :: "ipv4 \<Rightarrow> bool" where
  "valid_ip (a, b, c, d) = (a \<le> 255 \<and> b \<le> 255 \<and> c \<le> 255 \<and> d \<le> 255)"

inductive alloc_step :: "ip_allocator \<Rightarrow> ip_allocator \<Rightarrow> bool" where
  step_allocate: "alloc_step al (fst (allocate al))"
| step_reserve: "valid_ip ip \<Longrightarrow> alloc_step al (fst (reserve al ip))"
| step_release: "valid_ip ip \<Longrightarrow> alloc_step al (release al ip)"

inductive_simps alloc_step_simps: "alloc_step al al'"

lemmas host_defs = usable_def FIRST_HOST_def BROADCAST_HOST_def

lemma advance_cursor_spec:
  assumes "alloc_inv al" and "al_released al = {}"
  shows "alloc_inv (fst (advance_cursor al)) \<and> al_prefix (fst (advance_cursor al)) = al_prefix al \<and>
     (case snd (advance_cursor al) of
        Inr ip \<Rightarrow> \<exists>h \<in> usable - al_allocated al. ip = make_ip al h \<and>
                   al_allocated (fst (advance_cursor al)) = insert h (al_allocated al)
      | Inl e \<Rightarrow> e = Pool_exhausted \<and> al_allocated al = usable \<and> al_allocated (fst (advance_cursor al)) = usable)"
  using assms
proof (induction al rule: advance_cursor.induct)
  case (1 al)
  let ?al = "al\<lparr>al_next := al_next al + 1\<rparr>"
  show ?case
  proof (cases "al_next al < BROADCAST_HOST")
    case False
    then have "al_allocated al = usable"
      using "1.prems" by (auto simp: alloc_inv_def host_defs)
    with False "1.prems" show ?thesis by (simp add: advance_cursor.simps [of al])
  next
    case lt: True
    show ?thesis
    proof (cases "al_next al \<in> al_allocated al")
      case True
      have "alloc_inv ?al" using "1.prems" lt True by (auto simp: alloc_inv_def host_defs less_Suc_eq)
      moreover have eq: "advance_cursor al = advance_cursor ?al"
        using True lt by (simp add: advance_cursor.simps [of al] Let_def)
      moreover have "make_ip ?al h = make_ip al h" for h by (simp add: make_ip_def)
      ultimately show ?thesis
        using "1.IH" [OF lt refl refl] True "1.prems" unfolding eq by (auto split: sum.splits)
    next
      case False
      have "alloc_inv (?al\<lparr>al_allocated := insert (al_next al) (al_allocated al)\<rparr>)" "al_next al \<in> usable"
        using "1.prems" lt False by (auto simp: alloc_inv_def host_defs less_Suc_eq)
      with False lt show ?thesis
        by (auto simp: advance_cursor.simps [of al] Let_def make_ip_def)
    qed
  qed
qed

lemma host_in_range_usable:
  "host_in_range al ip = Inr h \<Longrightarrow> valid_ip ip \<Longrightarrow> h \<in> usable \<and> ip = make_ip al h"
  by (cases ip; cases "al_prefix al") (auto simp: host_in_range_def make_ip_def host_defs split: if_splits)

lemma finite_usable [simp]: "finite usable"
  by (simp add: usable_def)

lemma allocate_spec:
  assumes "alloc_inv al"
  shows "alloc_inv (fst (allocate al)) \<and> al_prefix (fst (allocate al)) = al_prefix al \<and>
     (case snd (allocate al) of
        Inr ip \<Rightarrow> \<exists>h \<in> usable - al_allocated al. ip = make_ip al h \<and>
                   al_allocated (fst (allocate al)) = insert h (al_allocated al)
      | Inl e \<Rightarrow> e = Pool_exhausted \<and> al_allocated al = usable \<and> al_allocated (fst (allocate al)) = usable)"
proof (cases "al_released al = {}")
  case True
  then have "allocate al = advance_cursor al" by (simp add: allocate_def)
  then show ?thesis using advance_cursor_spec [OF assms True] by (simp only:)
next
  case False
  have "finite (al_released al)" using assms by (auto simp: alloc_inv_def intro: finite_subset)
  then have m: "Min (al_released al) \<in> al_released al" using False by simp
  have "alloc_inv (al\<lparr>al_released := al_released al - {Min (al_released al)},
      al_allocated := insert (Min (al_released al)) (al_allocated al)\<rparr>)"
    using assms m by (auto simp: alloc_inv_def)
  moreover have "Min (al_released al) \<in> usable - al_allocated al" using assms m by (auto simp: alloc_inv_def)
  ultimately show ?thesis using False by (auto simp: allocate_def Let_def make_ip_def)
qed

lemma reserve_spec:
  assumes "alloc_inv al" and "valid_ip ip"
  shows "alloc_inv (fst (reserve al ip)) \<and> al_prefix (fst (reserve al ip)) = al_prefix al \<and>
     al_allocated al \<subseteq> al_allocated (fst (reserve al ip)) \<and>
     (\<forall>u. snd (reserve al ip) = Inr u \<longrightarrow> (\<exists>h \<in> al_allocated (fst (reserve al ip)). ip = make_ip al h))"
proof (cases "host_in_range al ip")
  case (Inr h)
  then show ?thesis
    using assms host_in_range_usable [OF Inr] by (auto simp: reserve_def alloc_inv_def)
qed (use assms in \<open>simp add: reserve_def\<close>)

lemma release_spec:
  assumes "alloc_inv al" and "valid_ip ip"
  shows "alloc_inv (release al ip) \<and> al_prefix (release al ip) = al_prefix al"
proof (cases "host_in_range al ip")
  case (Inr h)
  then show ?thesis
    using assms host_in_range_usable [OF Inr] by (auto simp: release_def alloc_inv_def)
qed (use assms in \<open>simp add: release_def\<close>)

lemma alloc_step_inv: "alloc_step al al' \<Longrightarrow> alloc_inv al \<Longrightarrow> alloc_inv al' \<and> al_prefix al' = al_prefix al"
  using allocate_spec reserve_spec release_spec by (auto simp: alloc_step_simps)

lemma alloc_steps_inv: "alloc_step\<^sup>*\<^sup>* al al' \<Longrightarrow> alloc_inv al \<Longrightarrow> alloc_inv al' \<and> al_prefix al' = al_prefix al"
  by (induction rule: rtranclp_induct) (auto dest: alloc_step_inv)

lemma from_cidr_inv: "from_cidr cidr = Inr al \<Longrightarrow> alloc_inv al"
  by (auto simp: from_cidr_def alloc_inv_def host_defs split: option.splits prod.splits if_splits)

text \<open>
  C19 (an address in use is not handed out): from a fresh slice, after any sequence of allocations, reservations and
  releases, an allocation either returns an address of the slice whose host is 2 to 254 and not in use, and marks it as in
  use, or fails, and then exactly because all 253 usable addresses are in use.
\<close>

theorem allocate_fresh_or_full:
  assumes "from_cidr cidr = Inr al0" and "alloc_step\<^sup>*\<^sup>* al0 al"
  shows "(case snd (allocate al) of
            Inr ip \<Rightarrow> \<exists>h. 2 \<le> h \<and> h \<le> 254 \<and> h \<notin> al_allocated al \<and> ip = make_ip al0 h \<and>
                      al_allocated (fst (allocate al)) = insert h (al_allocated al)
          | Inl e \<Rightarrow> e = Pool_exhausted \<and> al_allocated al = {2..254})"
proof -
  have inv: "alloc_inv al" "al_prefix al = al_prefix al0"
    using alloc_steps_inv [OF assms(2) from_cidr_inv [OF assms(1)]] by simp_all
  have mk: "make_ip al h = make_ip al0 h" for h using inv(2) by (simp add: make_ip_def)
  have us: "usable = {2..254}" by (auto simp: host_defs)
  show ?thesis
  proof (cases "snd (allocate al)")
    case (Inr ip)
    then obtain h where "h \<in> usable - al_allocated al" "ip = make_ip al0 h"
        "al_allocated (fst (allocate al)) = insert h (al_allocated al)"
      using allocate_spec [OF inv(1)] by (auto simp: mk)
    with Inr show ?thesis unfolding us by (simp, intro exI [of _ h]) simp
  qed (use allocate_spec [OF inv(1)] us in simp)
qed

subsection \<open>Slices of the API server\<close>

lemma parse_octet_show: "n \<le> 255 \<Longrightarrow> parse_octet (show_nat n) = Some n"
proof -
  assume n: "n \<le> 255"
  have "length (show_nat n) \<le> 3"
    using n zero_pad_fixed [of n 3] by (simp add: show_nat_def)
  moreover have "\<not> (hd (show_nat n) = CHR ''0'' \<and> 1 < length (show_nat n))"
  proof -
    have "hd (dec_digits m) \<noteq> 48" if "0 < m" for m
      using that
    proof (induction m rule: dec_digits.induct)
      case (1 m)
      show ?case
      proof (cases "m < 10")
        case True
        then show ?thesis using 1 by (simp add: dec_digits.simps [of m])
      next
        case False
        then have "hd (dec_digits (m div 10)) \<noteq> 48" using 1 by simp
        then show ?thesis using False by (simp add: dec_digits.simps [of m] hd_append dec_digits_Nil)
      qed
    qed
    moreover have "hd (show_nat n) = char_of (hd (dec_digits n))" by (simp add: show_nat_def hd_map dec_digits_Nil)
    moreover have "48 \<le> hd (dec_digits n) \<and> hd (dec_digits n) \<le> 57"
      by (intro dec_digits_range [of _ n] hd_in_set) (simp add: dec_digits_Nil)
    ultimately show ?thesis
      by (cases "n = 0") (auto simp: show_nat_def dec_digits.simps [of 0] dest!: arg_cong [where f = "of_char :: char \<Rightarrow> nat"])
  qed
  ultimately show ?thesis using n by (simp add: parse_octet_def parse_show_digits)
qed

lemma node_cidr_octets: "node_cidr i = (show_nat 10 @ ''.'' @ show_nat 244 @ ''.'' @ show_nat i @ ''.'' @ show_nat 0) @ CHR ''/'' # ''24''"
proof -
  have "show_nat 10 = ''10''" "show_nat 244 = ''244''" "show_nat 0 = ''0''"
    by (simp_all add: show_nat_def dec_digits.simps char_of_def bit_simps)
  then show ?thesis by (simp add: node_cidr_def CLUSTER_POD_CIDR_PREFIX_def)
qed

lemma from_node_cidr:
  assumes "i \<le> 255"
  shows "from_cidr (node_cidr i) = Inr \<lparr>al_prefix = (10, 244, i), al_next = FIRST_HOST, al_released = {}, al_allocated = {}\<rparr>"
proof -
  let ?addr = "show_nat 10 @ ''.'' @ show_nat 244 @ ''.'' @ show_nat i @ ''.'' @ show_nat 0"
  have "split_once (CHR ''/'') (node_cidr i) = Some (?addr, ''24'')"
    unfolding node_cidr_octets by (rule split_once_append) (simp add: show_nat_no_dot)
  moreover have "split_on (CHR ''.'') ?addr = [show_nat 10, show_nat 244, show_nat i, show_nat 0]"
    by (simp add: split_on_append split_on_single show_nat_no_dot)
  then have "parse_ipv4 ?addr = Some (10, 244, i, 0)"
    using assms by (simp add: parse_ipv4_def parse_octet_show)
  ultimately show ?thesis by (simp add: from_cidr_def)
qed

text \<open>
  No address on two nodes: the range string the API server writes into a node is one the kubelet's allocator accepts,
  and two nodes with different indices never hand out the same address, whatever each of them allocated, reserved and
  released before; the two need not talk to each other.
\<close>

theorem slices_never_share_addresses:
  assumes "i \<le> 255" and "j \<le> 255" and "i \<noteq> j"
  shows "\<exists>a b. from_cidr (node_cidr i) = Inr a \<and> from_cidr (node_cidr j) = Inr b \<and>
      (\<forall>a' b' ip ip'. alloc_step\<^sup>*\<^sup>* a a' \<longrightarrow> alloc_step\<^sup>*\<^sup>* b b' \<longrightarrow>
         snd (allocate a') = Inr ip \<longrightarrow> snd (allocate b') = Inr ip' \<longrightarrow> ip \<noteq> ip')"
proof -
  let ?al = "\<lambda>i. \<lparr>al_prefix = (10, 244, i), al_next = FIRST_HOST, al_released = {}, al_allocated = {}\<rparr>"
  note al = from_node_cidr [OF assms(1)] from_node_cidr [OF assms(2)]
  have third: "\<exists>h. ip = (10, 244, n, h)" if n: "n \<le> 255" "alloc_step\<^sup>*\<^sup>* (?al n) a'" "snd (allocate a') = Inr ip" for n a' ip
  proof -
    have inv: "alloc_inv a'" "al_prefix a' = (10, 244, n)"
      using alloc_steps_inv [OF n(2) from_cidr_inv [OF from_node_cidr [OF n(1)]]] by simp_all
    show ?thesis using allocate_spec [OF inv(1)] n(3) inv(2) by (auto simp: make_ip_def)
  qed
  show ?thesis using al third [OF assms(1)] third [OF assms(2)] assms(3) by fastforce
qed

theorem slices_never_share_addresses_witness:
  "\<exists>a b. from_cidr (node_cidr 0) = Inr a \<and> from_cidr (node_cidr 1) = Inr b \<and> snd (allocate a) = Inr (10, 244, 0, 2) \<and>
     snd (allocate b) = Inr (10, 244, 1, 2) \<and> (10 :: nat, 244 :: nat, 0 :: nat, 2 :: nat) \<noteq> (10, 244, 1, 2)"
proof -
  have al: "snd (allocate \<lparr>al_prefix = (10, 244, n), al_next = FIRST_HOST, al_released = {}, al_allocated = {}\<rparr>) = Inr (10, 244, n, 2)" for n
    by (simp add: allocate_def advance_cursor.simps Let_def make_ip_def FIRST_HOST_def BROADCAST_HOST_def)
  have "(0 :: nat) \<le> 255" "(1 :: nat) \<le> 255" "(0 :: nat) \<noteq> 1" by simp_all
  from slices_never_share_addresses [OF this] show ?thesis
    using from_node_cidr [of 0] from_node_cidr [of 1] al by fastforce
qed

theorem allocate_fresh_or_full_witness:
  "\<exists>al. from_cidr (node_cidr 7) = Inr al \<and>
     (case snd (allocate al) of
        Inr ip \<Rightarrow> \<exists>h. 2 \<le> h \<and> h \<le> 254 \<and> h \<notin> al_allocated al \<and> ip = make_ip al h \<and>
                   al_allocated (fst (allocate al)) = insert h (al_allocated al)
      | Inl e \<Rightarrow> e = Pool_exhausted \<and> al_allocated al = {2..254})"
proof -
  obtain al where al: "from_cidr (node_cidr 7) = Inr al" using from_node_cidr [of 7] by auto
  then show ?thesis using allocate_fresh_or_full [OF al rtranclp.rtrancl_refl] by blast
qed

end
