(* ===== verification/Runtime.thy ===== *)
theory Runtime
  imports Kube_Proxy Ipam
begin

text \<open>
  The container runtime: the trait of \<^verbatim>\<open>src/runtime.rs\<close> as a record of functions on a world \<open>'s\<close>, the bundles of
  \<^verbatim>\<open>src/runtime/bundle.rs\<close>, and the implementation of the trait in \<^verbatim>\<open>src/runtime/youki.rs\<close> over the container library,
  which is a parameter. The locale \<open>runtime_handles\<close> is the part of the trait's contract the sandboxes rely on; the
  implementation keeps it whatever the library does.
\<close>

subsection \<open>The trait\<close>

datatype container_state = C_Created | C_Running | C_Stopped | C_NotFound

datatype runtime_error =
    Rt_NotFound string
  | Rt_AlreadyExists string
  | Rt_InvalidBundle string string
  | Rt_Other string

record recovered_container =
  rc_id :: string
  rc_state :: container_state
  rc_pid :: "nat option"

type_synonym ('s, 'a) rt_call = "'s \<Rightarrow> 's \<times> (runtime_error + 'a)"

record 's runtime =
  rt_create_container :: "string \<Rightarrow> string \<Rightarrow> ('s, unit) rt_call"
  rt_start_container :: "string \<Rightarrow> ('s, unit) rt_call"
  rt_kill_container :: "string \<Rightarrow> int \<Rightarrow> ('s, unit) rt_call"
  rt_delete_container :: "string \<Rightarrow> bool \<Rightarrow> ('s, unit) rt_call"
  rt_container_state :: "string \<Rightarrow> ('s, container_state) rt_call"
  rt_container_pid :: "string \<Rightarrow> ('s, nat option) rt_call"
  rt_recover_all :: "('s, recovered_container list) rt_call"

subsection \<open>Bundles\<close>

text \<open>Joining paths: an absolute second path replaces the first.\<close>

definition join_path :: "string \<Rightarrow> string \<Rightarrow> string" where
  "join_path p q =
     (if q \<noteq> [] \<and> hd q = CHR ''/'' then q
      else if p = [] \<or> last p = CHR ''/'' then p @ q
      else p @ ''/'' @ q)"

datatype namespace_type = Ns_Pid | Ns_Mount | Ns_Network | Ns_Ipc | Ns_Uts

record linux_namespace =
  ns_typ :: namespace_type
  ns_path :: "string option"

record mount =
  mo_destination :: string
  mo_typ :: string
  mo_source :: string
  mo_options :: "string list option"

record oci_spec =
  oc_version :: string
  oc_uid :: nat
  oc_gid :: nat
  oc_terminal :: bool
  oc_args :: "string list"
  oc_env :: "string list"
  oc_cwd :: string
  oc_no_new_privileges :: bool
  oc_root_path :: string
  oc_root_readonly :: bool
  oc_hostname :: string
  oc_mounts :: "mount list"
  oc_namespaces :: "linux_namespace list"

definition shared_namespaces :: "(namespace_type \<times> string) list" where
  "shared_namespaces = [(Ns_Network, ''net''), (Ns_Ipc, ''ipc''), (Ns_Uts, ''uts'')]"

definition build_namespaces :: "nat option \<Rightarrow> linux_namespace list" where
  "build_namespaces share_namespaces_from_pid =
     map (\<lambda>ty. \<lparr>ns_typ = ty, ns_path = None\<rparr>) [Ns_Pid, Ns_Mount] @
     map (\<lambda>(ty, ns_name). \<lparr>ns_typ = ty,
        ns_path = (case share_namespaces_from_pid of
                     Some pid \<Rightarrow> Some (''/proc/'' @ show_nat pid @ ''/ns/'' @ ns_name)
                   | None \<Rightarrow> None)\<rparr>) shared_namespaces"

definition bundle_mounts :: "mount list" where
  "bundle_mounts =
     [\<lparr>mo_destination = ''/proc'', mo_typ = ''proc'', mo_source = ''proc'', mo_options = None\<rparr>,
      \<lparr>mo_destination = ''/dev'', mo_typ = ''tmpfs'', mo_source = ''tmpfs'',
        mo_options = Some [''nosuid'', ''strictatime'', ''mode=755'', ''size=65536k'']\<rparr>,
      \<lparr>mo_destination = ''/sys'', mo_typ = ''sysfs'', mo_source = ''sysfs'',
        mo_options = Some [''nosuid'', ''noexec'', ''nodev'', ''ro'']\<rparr>,
      \<lparr>mo_destination = ''/tmp'', mo_typ = ''tmpfs'', mo_source = ''tmpfs'',
        mo_options = Some [''nosuid'', ''nodev'', ''mode=1777'', ''size=16m'']\<rparr>]"

text \<open>The builders of the specification library fail only for missing fields; all are given.\<close>

definition build_spec :: "container \<Rightarrow> string \<Rightarrow> nat option \<Rightarrow> oci_spec" where
  "build_spec ct rootfs_base share_namespaces_from_pid =
     \<lparr>oc_version = ''1.0.2'', oc_uid = 0, oc_gid = 0, oc_terminal = False, oc_args = ct_command ct,
      oc_env = [''PATH=/bin'', ''HOME=/''], oc_cwd = ''/'', oc_no_new_privileges = True, oc_root_path = rootfs_base,
      oc_root_readonly = True, oc_hostname = ct_name ct, oc_mounts = bundle_mounts,
      oc_namespaces = build_namespaces share_namespaces_from_pid\<rparr>"

subsection \<open>Errors with a context\<close>

datatype any_error =
    Msg string
  | Io string
  | Rt runtime_error
  | Cl client_error
  | Ip ipam_error
  | Ctx string any_error

type_synonym ('s, 'a) any_call = "'s \<Rightarrow> 's \<times> (any_error + 'a)"

definition ctx :: "string \<Rightarrow> ('e \<Rightarrow> any_error) \<Rightarrow> ('s \<Rightarrow> 's \<times> ('e + 'a)) \<Rightarrow> ('s, 'a) any_call" where
  "ctx what conv f s = (case f s of (s', Inl e) \<Rightarrow> (s', Inl (Ctx what (conv e))) | (s', Inr x) \<Rightarrow> (s', Inr x))"

text \<open>The question mark: an error ends the caller.\<close>

definition attempt :: "('s \<Rightarrow> 's \<times> ('e + 'a)) \<Rightarrow> ('a \<Rightarrow> 's \<Rightarrow> 's \<times> ('e + 'b)) \<Rightarrow> 's \<Rightarrow> 's \<times> ('e + 'b)" where
  "attempt f g s = (case f s of (s', Inl e) \<Rightarrow> (s', Inl e) | (s', Inr x) \<Rightarrow> g x s')"

definition succeed :: "'a \<Rightarrow> ('s, 'a) any_call" where
  "succeed x s = (s, Inr x)"

text \<open>The host: files, commands, clocks and the hash of the standard library.\<close>

record 's host =
  ho_create_dir_all :: "string \<Rightarrow> 's \<Rightarrow> 's \<times> (string + unit)"
  ho_save_spec :: "oci_spec \<Rightarrow> string \<Rightarrow> 's \<Rightarrow> 's \<times> (string + unit)"
  ho_remove_dir_all :: "string \<Rightarrow> 's \<Rightarrow> 's"
  ho_exec :: "'s exec"
  ho_now :: "'s \<Rightarrow> nat"
  ho_sleep :: "nat \<Rightarrow> 's \<Rightarrow> 's"
  ho_hash :: "string \<Rightarrow> nat"

definition write_bundle :: "'s host \<Rightarrow> container \<Rightarrow> string \<Rightarrow> string \<Rightarrow> nat option \<Rightarrow> ('s, unit) any_call" where
  "write_bundle ho ct bundle_dir rootfs_base share_namespaces_from_pid =
     attempt (ctx (''creating bundle directory '' @ bundle_dir) Io (ho_create_dir_all ho bundle_dir)) (\<lambda>_.
     ctx (''writing config.json to '' @ bundle_dir) Io
       (ho_save_spec ho (build_spec ct rootfs_base share_namespaces_from_pid) (join_path bundle_dir ''config.json'')))"

end
