(* ===== verification/Youki.thy ===== *)
theory Youki
  imports Runtime
begin

text \<open>
  The implementation of the runtime trait in \<^verbatim>\<open>src/runtime/youki.rs\<close>: a map from container ids to the handles of the
  container library, which is a parameter with a world \<open>'w\<close> of its own. \<open>runtime_handles\<close> states what the sandboxes rely
  on; the implementation keeps it for every library.
\<close>

datatype lib_status = L_Creating | L_Created | L_Running | L_Stopped | L_Paused

record ('h, 'w) libcontainer =
  lc_build :: "string \<Rightarrow> string \<Rightarrow> string \<Rightarrow> 'w \<Rightarrow> 'w \<times> (string + 'h)"
  lc_start :: "'h \<Rightarrow> 'w \<Rightarrow> 'w \<times> 'h \<times> (string + unit)"
  lc_kill :: "'h \<Rightarrow> int \<Rightarrow> 'w \<Rightarrow> 'w \<times> 'h \<times> (string + unit)"
  lc_delete :: "'h \<Rightarrow> bool \<Rightarrow> 'w \<Rightarrow> 'w \<times> (string + unit)"
  lc_refresh_status :: "'h \<Rightarrow> 'w \<Rightarrow> 'w \<times> 'h \<times> (string + unit)"
  lc_status :: "'h \<Rightarrow> lib_status"
  lc_pid :: "'h \<Rightarrow> int option"
  lc_load :: "string \<Rightarrow> 'w \<Rightarrow> 'w \<times> (string + 'h)"
  lc_valid_signal :: "int \<Rightarrow> bool"
  lc_exists :: "string \<Rightarrow> 'w \<Rightarrow> bool"
  lc_read_dir :: "string \<Rightarrow> 'w \<Rightarrow> string + (string + string \<times> bool) list"

record 'h youki =
  yk_state_dir :: string
  yk_containers :: "string \<rightharpoonup> 'h"

definition youki_new :: "string \<Rightarrow> 'h youki" where
  "youki_new state_dir = \<lparr>yk_state_dir = state_dir, yk_containers = Map.empty\<rparr>"

text \<open>An operation on the handle of a container: it changes the handle in the map.\<close>

definition with_handle :: "string \<Rightarrow> ('h \<Rightarrow> 'w \<Rightarrow> 'w \<times> 'h \<times> (runtime_error + 'a)) \<Rightarrow> ('h youki \<times> 'w, 'a) rt_call" where
  "with_handle cid f s =
     (case s of (y, w) \<Rightarrow>
        (case yk_containers y cid of
           None \<Rightarrow> ((y, w), Inl (Rt_NotFound cid))
         | Some h \<Rightarrow> (case f h w of (w', h', r) \<Rightarrow> ((y\<lparr>yk_containers := (yk_containers y)(cid \<mapsto> h')\<rparr>, w'), r))))"

definition rt_other :: "string \<Rightarrow> 'w \<times> 'h \<times> (string + 'a) \<Rightarrow> 'w \<times> 'h \<times> (runtime_error + 'a)" where
  "rt_other what r = (case r of (w, h, Inl e) \<Rightarrow> (w, h, Inl (Rt_Other (what @ '': '' @ e))) | (w, h, Inr x) \<Rightarrow> (w, h, Inr x))"

definition youki_create :: "('h, 'w) libcontainer \<Rightarrow> string \<Rightarrow> string \<Rightarrow> ('h youki \<times> 'w, unit) rt_call" where
  "youki_create lc cid bundle_path s =
     (case s of (y, w) \<Rightarrow>
        (if yk_containers y cid \<noteq> None then ((y, w), Inl (Rt_AlreadyExists cid))
         else (case lc_build lc cid (yk_state_dir y) bundle_path w of
                 (w', Inl e) \<Rightarrow> ((y, w'), Inl (Rt_Other (''ContainerBuilder::build: '' @ e)))
               | (w', Inr h) \<Rightarrow> ((y\<lparr>yk_containers := (yk_containers y)(cid \<mapsto> h)\<rparr>, w'), Inr ()))))"

definition youki_start :: "('h, 'w) libcontainer \<Rightarrow> string \<Rightarrow> ('h youki \<times> 'w, unit) rt_call" where
  "youki_start lc cid = with_handle cid (\<lambda>h w. rt_other ''Container::start'' (lc_start lc h w))"

definition youki_kill :: "('h, 'w) libcontainer \<Rightarrow> string \<Rightarrow> int \<Rightarrow> ('h youki \<times> 'w, unit) rt_call" where
  "youki_kill lc cid signal =
     with_handle cid (\<lambda>h w. if lc_valid_signal lc signal then rt_other ''Container::kill'' (lc_kill lc h signal w)
                            else (w, h, Inl (Rt_Other ''invalid signal number'')))"

text \<open>The handle leaves the map before the library deletes the container.\<close>

definition youki_delete :: "('h, 'w) libcontainer \<Rightarrow> string \<Rightarrow> bool \<Rightarrow> ('h youki \<times> 'w, unit) rt_call" where
  "youki_delete lc cid force s =
     (case s of (y, w) \<Rightarrow>
        (case yk_containers y cid of
           None \<Rightarrow> ((y, w), Inl (Rt_NotFound cid))
         | Some h \<Rightarrow>
             (case lc_delete lc h force w of
                (w', Inl e) \<Rightarrow> ((y\<lparr>yk_containers := (yk_containers y)(cid := None)\<rparr>, w'), Inl (Rt_Other (''Container::delete: '' @ e)))
              | (w', Inr _) \<Rightarrow> ((y\<lparr>yk_containers := (yk_containers y)(cid := None)\<rparr>, w'), Inr ()))))"

fun flatten_status :: "lib_status \<Rightarrow> container_state" where
  "flatten_status L_Created = C_Created"
| "flatten_status L_Creating = C_Created"
| "flatten_status L_Running = C_Running"
| "flatten_status L_Paused = C_Running"
| "flatten_status L_Stopped = C_Stopped"

definition youki_state :: "('h, 'w) libcontainer \<Rightarrow> string \<Rightarrow> ('h youki \<times> 'w, container_state) rt_call" where
  "youki_state lc cid s =
     (if yk_containers (fst s) cid = None then (s, Inr C_NotFound)
      else with_handle cid (\<lambda>h w. case lc_refresh_status lc h w of
             (w', h', Inl e) \<Rightarrow> (w', h', Inl (Rt_Other (''Container::refresh_status: '' @ e)))
           | (w', h', Inr _) \<Rightarrow> (w', h', Inr (flatten_status (lc_status lc h')))) s)"

text \<open>\<open>as u32\<close> wraps.\<close>

definition pid_of :: "('h, 'w) libcontainer \<Rightarrow> 'h \<Rightarrow> nat option" where
  "pid_of lc h = map_option (\<lambda>p. nat (p mod 2 ^ 32)) (lc_pid lc h)"

definition youki_pid :: "('h, 'w) libcontainer \<Rightarrow> string \<Rightarrow> ('h youki \<times> 'w, nat option) rt_call" where
  "youki_pid lc cid = with_handle cid (\<lambda>h w. (w, h, Inr (pid_of lc h)))"

text \<open>One directory after another: files and directories without a state file are skipped, an error ends the scan.\<close>

fun recover_entries :: "('h, 'w) libcontainer \<Rightarrow> (string + string \<times> bool) list \<Rightarrow> recovered_container list \<Rightarrow>
    ('h youki \<times> 'w, recovered_container list) rt_call" where
  "recover_entries lc [] recovered s = (s, Inr recovered)"
| "recover_entries lc (entry # es) recovered (y, w) =
     (case entry of
        Inl e \<Rightarrow> ((y, w), Inl (Rt_Other (''reading state dir entry: '' @ e)))
      | Inr (name, is_dir) \<Rightarrow>
          (let root = join_path (yk_state_dir y) name in
           if \<not> is_dir then recover_entries lc es recovered (y, w)
           else if \<not> lc_exists lc (join_path root ''state.json'') w then recover_entries lc es recovered (y, w)
           else (case lc_load lc root w of
                   (w', Inl e) \<Rightarrow> ((y, w'), Inl (Rt_Other (''Container::load for '' @ name @ '': '' @ e)))
                 | (w', Inr h) \<Rightarrow>
                     recover_entries lc es (recovered @ [\<lparr>rc_id = name, rc_state = flatten_status (lc_status lc h), rc_pid = pid_of lc h\<rparr>])
                       (y\<lparr>yk_containers := (yk_containers y)(name \<mapsto> h)\<rparr>, w'))))"

definition youki_recover_all :: "('h, 'w) libcontainer \<Rightarrow> ('h youki \<times> 'w, recovered_container list) rt_call" where
  "youki_recover_all lc s =
     (case s of (y, w) \<Rightarrow>
        (if \<not> lc_exists lc (yk_state_dir y) w then ((y, w), Inr [])
         else (case lc_read_dir lc (yk_state_dir y) w of
                 Inl e \<Rightarrow> ((y, w), Inl (Rt_Other (''reading state dir: '' @ e)))
               | Inr entries \<Rightarrow> recover_entries lc entries [] (y, w))))"

definition youki_runtime :: "('h, 'w) libcontainer \<Rightarrow> ('h youki \<times> 'w) runtime" where
  "youki_runtime lc =
     \<lparr>rt_create_container = youki_create lc, rt_start_container = youki_start lc, rt_kill_container = youki_kill lc,
      rt_delete_container = youki_delete lc, rt_container_state = youki_state lc, rt_container_pid = youki_pid lc,
      rt_recover_all = youki_recover_all lc\<rparr>"

subsection \<open>The contract\<close>

text \<open>
  Which ids are taken: creating a taken id is refused, a created id is taken, nothing but a deletion frees an id, and a
  successful deletion does.
\<close>

locale runtime_handles =
  fixes rt :: "'s runtime" and ids :: "'s \<Rightarrow> string set"
  assumes create_taken: "cid \<in> ids s \<Longrightarrow> rt_create_container rt cid b s = (s, Inl (Rt_AlreadyExists cid))"
    and create_result: "ids (fst (rt_create_container rt cid b s)) =
      (case snd (rt_create_container rt cid b s) of Inl _ \<Rightarrow> ids s | Inr _ \<Rightarrow> insert cid (ids s))"
    and start_ids [simp]: "ids (fst (rt_start_container rt cid s)) = ids s"
    and kill_ids [simp]: "ids (fst (rt_kill_container rt cid sig s)) = ids s"
    and state_ids [simp]: "ids (fst (rt_container_state rt cid s)) = ids s"
    and pid_ids [simp]: "ids (fst (rt_container_pid rt cid s)) = ids s"
    and state_free: "cid \<notin> ids s \<Longrightarrow> rt_container_state rt cid s = (s, Inr C_NotFound)"
    and delete_ids [simp]: "ids (fst (rt_delete_container rt cid force s)) = ids s - {cid}"

definition handle_ids :: "'h youki \<times> 'w \<Rightarrow> string set" where
  "handle_ids s = dom (yk_containers (fst s))"

lemma with_handle_ids [simp]: "handle_ids (fst (with_handle cid f s)) = handle_ids s"
  by (auto simp: with_handle_def handle_ids_def split: prod.splits option.splits)

interpretation youki_handles: runtime_handles "youki_runtime lc" handle_ids for lc
proof
  fix cid b s show "handle_ids (fst (rt_create_container (youki_runtime lc) cid b s)) =
      (case snd (rt_create_container (youki_runtime lc) cid b s) of Inl _ \<Rightarrow> handle_ids s | Inr _ \<Rightarrow> insert cid (handle_ids s))"
    by (auto simp: youki_runtime_def youki_create_def handle_ids_def split: prod.splits sum.splits)
next
  fix cid force s show "handle_ids (fst (rt_delete_container (youki_runtime lc) cid force s)) = handle_ids s - {cid}"
    by (auto simp: youki_runtime_def youki_delete_def handle_ids_def split: prod.splits sum.splits option.splits)
qed (auto simp: youki_runtime_def youki_create_def youki_start_def youki_kill_def youki_pid_def youki_state_def handle_ids_def [symmetric]
    , auto simp: handle_ids_def)

end
