(* ===== verification/Sandbox.thy ===== *)
theory Sandbox
  imports Youki
begin

text \<open>
  The sandbox of one pod, \<^verbatim>\<open>src/runtime/sandbox.rs\<close>: a pause container that holds the namespaces and the app containers
  that join them. Instants are microseconds of the host's clock, which never goes back; a sleep takes at least the given
  time. Both are documented behaviour of the standard library and bound the wait for a container to stop.
\<close>

definition TERMINATION_GRACE :: nat where
  "TERMINATION_GRACE = 5000000"

definition POLLING_INTERVAL :: nat where
  "POLLING_INTERVAL = 100000"

definition SIGTERM :: int where
  "SIGTERM = 15"

record pod_sandbox =
  sb_pod_name :: string
  sb_pause_id :: string
  sb_pause_pid :: "nat option"
  sb_app_containers :: "string list"
  sb_pods_dir :: string
  sb_rootfs_base :: string
  sb_pod_ip :: "string option"

definition sandbox_new :: "string \<Rightarrow> string \<Rightarrow> string \<Rightarrow> pod_sandbox" where
  "sandbox_new pod_name pods_dir rootfs_base =
     \<lparr>sb_pod_name = pod_name, sb_pause_id = pod_name @ ''__pause'', sb_pause_pid = None, sb_app_containers = [],
      sb_pods_dir = pods_dir, sb_rootfs_base = rootfs_base, sb_pod_ip = None\<rparr>"

definition sandbox_from_recovered :: "string \<Rightarrow> nat \<Rightarrow> string list \<Rightarrow> string \<Rightarrow> string \<Rightarrow> string option \<Rightarrow> pod_sandbox" where
  "sandbox_from_recovered pod_name pause_pid app_container_names pods_dir rootfs_base pod_ip =
     \<lparr>sb_pod_name = pod_name, sb_pause_id = pod_name @ ''__pause'', sb_pause_pid = Some pause_pid,
      sb_app_containers = app_container_names, sb_pods_dir = pods_dir, sb_rootfs_base = rootfs_base, sb_pod_ip = pod_ip\<rparr>"

definition container_id_for :: "pod_sandbox \<Rightarrow> string \<Rightarrow> string" where
  "container_id_for sb container_name = sb_pod_name sb @ ''__'' @ container_name"

definition bundle_dir_for :: "pod_sandbox \<Rightarrow> string \<Rightarrow> string" where
  "bundle_dir_for sb container_name = join_path (join_path (sb_pods_dir sb) (sb_pod_name sb)) container_name"

definition pause_container_spec :: container where
  "pause_container_spec = \<lparr>ct_name = ''__pause'', ct_image = ''busybox'', ct_command = [''/bin/busybox'', ''sleep'', ''infinity'']\<rparr>"

subsection \<open>Networking\<close>

definition BRIDGE_NAME :: string where
  "BRIDGE_NAME = ''mykube0''"

definition BRIDGE_GATEWAY :: string where
  "BRIDGE_GATEWAY = ''10.244.0.1''"

definition BRIDGE_CIDR :: string where
  "BRIDGE_CIDR = ''10.244.0.1/16''"

definition run_host :: "'s host \<Rightarrow> string list \<Rightarrow> ('s, unit) any_call" where
  "run_host ho argv s =
     (case ho_exec ho argv s of
        (s', Inl e) \<Rightarrow> (s', Inl (Ctx ''running'' (Io e)))
      | (s', Inr (good, err)) \<Rightarrow> (s', (if good then Inr () else Inl (Msg err))))"

definition str_contains :: "string \<Rightarrow> string \<Rightarrow> bool" where
  "str_contains hay needle = list_ex (\<lambda>i. take (length needle) (drop i hay) = needle) [0..<Suc (length hay)]"

definition run_tolerate_any :: "'s host \<Rightarrow> string list \<Rightarrow> string list \<Rightarrow> ('s, unit) any_call" where
  "run_tolerate_any ho argv tolerate s =
     (case ho_exec ho argv s of
        (s', Inl e) \<Rightarrow> (s', Inl (Ctx ''running'' (Io e)))
      | (s', Inr (good, err)) \<Rightarrow>
          (s', (if good then Inr () else if list_ex (str_contains err) tolerate then Inr () else Inl (Msg err))))"

fun run_all :: "'s host \<Rightarrow> string list list \<Rightarrow> ('s, unit) any_call" where
  "run_all ho [] s = (s, Inr ())"
| "run_all ho (c # cs) s = attempt (run_host ho c) (\<lambda>_. run_all ho cs) s"

definition ensure_bridge :: "'s host \<Rightarrow> ('s, unit) any_call" where
  "ensure_bridge ho =
     attempt (run_tolerate_any ho [''ip'', ''link'', ''add'', BRIDGE_NAME, ''type'', ''bridge''] [''File exists'', ''already exists'']) (\<lambda>_.
     attempt (run_tolerate_any ho [''ip'', ''addr'', ''add'', BRIDGE_CIDR, ''dev'', BRIDGE_NAME] [''File exists'', ''already assigned'']) (\<lambda>_.
     run_all ho [[''ip'', ''link'', ''set'', BRIDGE_NAME, ''up''], [''sysctl'', ''-w'', ''net.ipv4.ip_forward=1'']]))"

definition hex_lower :: "nat \<Rightarrow> char" where
  "hex_lower d = (if d < 10 then char_of (48 + d) else char_of (87 + d))"

fun hex_lowers :: "nat \<Rightarrow> nat \<Rightarrow> string" where
  "hex_lowers 0 n = []"
| "hex_lowers (Suc w) n = hex_lowers w (n div 16) @ [hex_lower (n mod 16)]"

definition veth_name :: "'s host \<Rightarrow> char \<Rightarrow> string \<Rightarrow> string" where
  "veth_name ho p pod_name = p # hex_lowers 14 (ho_hash ho pod_name mod 2 ^ 56)"

definition host_veth_name :: "'s host \<Rightarrow> string \<Rightarrow> string" where
  "host_veth_name ho = veth_name ho (CHR ''v'')"

definition peer_veth_name :: "'s host \<Rightarrow> string \<Rightarrow> string" where
  "peer_veth_name ho = veth_name ho (CHR ''p'')"

definition nsenter :: "string \<Rightarrow> string list \<Rightarrow> string list" where
  "nsenter pid argv = [''nsenter'', ''-t'', pid, ''-n''] @ argv"

definition setup_pod_network :: "'s host \<Rightarrow> nat \<Rightarrow> string \<Rightarrow> string \<Rightarrow> ('s, unit) any_call" where
  "setup_pod_network ho pause_pid pod_name pod_ip =
     (let host_veth = host_veth_name ho pod_name; peer = peer_veth_name ho pod_name; pid = show_nat pause_pid in
      run_all ho
        [[''ip'', ''link'', ''add'', host_veth, ''type'', ''veth'', ''peer'', ''name'', peer],
         [''ip'', ''link'', ''set'', host_veth, ''master'', BRIDGE_NAME],
         [''ip'', ''link'', ''set'', host_veth, ''up''],
         [''ip'', ''link'', ''set'', peer, ''netns'', pid],
         nsenter pid [''ip'', ''link'', ''set'', peer, ''name'', ''eth0''],
         nsenter pid [''ip'', ''addr'', ''add'', pod_ip @ ''/16'', ''dev'', ''eth0''],
         nsenter pid [''ip'', ''link'', ''set'', ''eth0'', ''up''],
         nsenter pid [''ip'', ''link'', ''set'', ''lo'', ''up''],
         nsenter pid [''ip'', ''route'', ''add'', ''default'', ''via'', BRIDGE_GATEWAY]])"

definition loopback_only :: "'s host \<Rightarrow> nat \<Rightarrow> ('s, unit) any_call" where
  "loopback_only ho pause_pid = run_host ho (nsenter (show_nat pause_pid) [''ip'', ''link'', ''set'', ''lo'', ''up''])"

subsection \<open>The life of a sandbox\<close>

type_synonym 's sb_op = "pod_sandbox \<Rightarrow> 's \<Rightarrow> 's \<times> pod_sandbox \<times> (any_error + unit)"

definition start_pause :: "'s host \<Rightarrow> 's runtime \<Rightarrow> pod_sandbox \<Rightarrow> ('s, nat) any_call" where
  "start_pause ho rt sb =
     attempt (ctx ''write pause bundle'' (\<lambda>e. e)
       (write_bundle ho pause_container_spec (bundle_dir_for sb (ct_name pause_container_spec)) (sb_rootfs_base sb) None)) (\<lambda>_.
     attempt (ctx ''create pause container'' Rt
       (rt_create_container rt (sb_pause_id sb) (bundle_dir_for sb (ct_name pause_container_spec)))) (\<lambda>_.
     attempt (ctx ''start pause container'' Rt (rt_start_container rt (sb_pause_id sb))) (\<lambda>_.
     attempt (ctx ''get pause container pid'' Rt (rt_container_pid rt (sb_pause_id sb))) (\<lambda>pid s.
     (case pid of None \<Rightarrow> (s, Inl (Msg ''pause container pid not found'')) | Some p \<Rightarrow> (s, Inr p))))))"

definition sandbox_create :: "'s host \<Rightarrow> 's runtime \<Rightarrow> string option \<Rightarrow> 's sb_op" where
  "sandbox_create ho rt pod_ip sb s =
     (case start_pause ho rt sb s of
        (s', Inl e) \<Rightarrow> (s', sb, Inl e)
      | (s', Inr pid) \<Rightarrow>
          (let sb' = sb\<lparr>sb_pause_pid := Some pid, sb_pod_ip := pod_ip\<rparr> in
           (case (case pod_ip of Some ip \<Rightarrow> ctx ''configure pod network'' (\<lambda>e. e) (setup_pod_network ho pid (sb_pod_name sb) ip)
                  | None \<Rightarrow> ctx ''configure loopback'' (\<lambda>e. e) (loopback_only ho pid)) s' of
              (s'', r) \<Rightarrow> (s'', sb', r))))"

definition add_container :: "'s host \<Rightarrow> 's runtime \<Rightarrow> container \<Rightarrow> 's sb_op" where
  "add_container ho rt ct sb s =
     (case sb_pause_pid sb of
        None \<Rightarrow> (s, sb, Inl (Msg (''sandbox '' @ sb_pod_name sb @ '' not created (pause has no pid)'')))
      | Some pause_pid \<Rightarrow>
          (case attempt (ctx ''write container bundle'' (\<lambda>e. e)
                  (write_bundle ho ct (bundle_dir_for sb (ct_name ct)) (sb_rootfs_base sb) (Some pause_pid))) (\<lambda>_.
                attempt (ctx ''create container'' Rt
                  (rt_create_container rt (container_id_for sb (ct_name ct)) (bundle_dir_for sb (ct_name ct)))) (\<lambda>_.
                ctx ''start container'' Rt (rt_start_container rt (container_id_for sb (ct_name ct))))) s of
             (s', Inl e) \<Rightarrow> (s', sb, Inl e)
           | (s', Inr _) \<Rightarrow> (s', sb\<lparr>sb_app_containers := sb_app_containers sb @ [ct_name ct]\<rparr>, Inr ())))"

text \<open>
  The wait after SIGTERM, as the loop is written: it reads the clock, polls and sleeps. Nothing here says that the clock
  advances, so the loop may not return, which is \<open>None\<close>; theory \<^verbatim>\<open>Kubelet_Properties\<close> shows that it does when the
  clock runs. \<open>poll_stopped\<close> is its result for the operations around it; what it says of a loop that does not return has no meaning.
\<close>

partial_function (option) poll_loop :: "'s host \<Rightarrow> 's runtime \<Rightarrow> string \<Rightarrow> nat \<Rightarrow> 's \<Rightarrow> ('s \<times> (any_error + unit)) option" where
  "poll_loop ho rt cid deadline s =
     (if ho_now ho s < deadline
      then (case rt_container_state rt cid s of (s', r) \<Rightarrow>
              (case r of
                 Inl e \<Rightarrow> Some (s', Inl (Ctx ''polling container state during graceful shutdown'' (Rt e)))
               | Inr st \<Rightarrow>
                   (if st = C_Stopped \<or> st = C_NotFound then Some (s', Inr ())
                    else poll_loop ho rt cid deadline (ho_sleep ho POLLING_INTERVAL s'))))
      else Some (s, Inr ()))"

definition poll_stopped :: "'s host \<Rightarrow> 's runtime \<Rightarrow> string \<Rightarrow> nat \<Rightarrow> 's \<Rightarrow> 's \<times> (any_error + unit)" where
  "poll_stopped ho rt cid deadline s = (case poll_loop ho rt cid deadline s of Some res \<Rightarrow> res | None \<Rightarrow> (s, Inr ()))"

text \<open>After the wait: the deletion by force.\<close>

definition force_remove :: "'s host \<Rightarrow> 's runtime \<Rightarrow> string \<Rightarrow> 's sb_op" where
  "force_remove ho rt name sb s =
     (case rt_delete_container rt (container_id_for sb name) True s of
        (s1, r) \<Rightarrow>
          (if (case r of Inr _ \<Rightarrow> True | Inl (Rt_NotFound _) \<Rightarrow> True | Inl _ \<Rightarrow> False)
           then (ho_remove_dir_all ho (bundle_dir_for sb name) s1,
                 sb\<lparr>sb_app_containers := filter (\<lambda>n. n \<noteq> name) (sb_app_containers sb)\<rparr>, Inr ())
           else (s1, sb, (case r of Inl e \<Rightarrow> Inl (Ctx (''delete container '' @ name) (Rt e)) | Inr x \<Rightarrow> Inr x))))"

definition remove_container :: "'s host \<Rightarrow> 's runtime \<Rightarrow> string \<Rightarrow> 's sb_op" where
  "remove_container ho rt name sb s =
     (let cid = container_id_for sb name in
      case (case rt_kill_container rt cid SIGTERM s of
              (s1, Inr _) \<Rightarrow> poll_stopped ho rt cid (ho_now ho s1 + TERMINATION_GRACE) s1
            | (s1, Inl _) \<Rightarrow> (s1, Inr ())) of
        (s2, Inl e) \<Rightarrow> (s2, sb, Inl e)
      | (s2, Inr _) \<Rightarrow> force_remove ho rt name sb s2)"

fun remove_containers :: "'s host \<Rightarrow> 's runtime \<Rightarrow> string list \<Rightarrow> pod_sandbox \<Rightarrow> 's \<Rightarrow> 's \<times> pod_sandbox" where
  "remove_containers ho rt [] sb s = (s, sb)"
| "remove_containers ho rt (name # names) sb s =
     (case remove_container ho rt name sb s of (s', sb', _) \<Rightarrow> remove_containers ho rt names sb' s')"

definition sandbox_destroy :: "'s host \<Rightarrow> 's runtime \<Rightarrow> 's sb_op" where
  "sandbox_destroy ho rt sb s =
     (case remove_containers ho rt (sb_app_containers sb) sb s of (s1, sb1) \<Rightarrow>
      case rt_delete_container rt (sb_pause_id sb1) True s1 of (s2, _) \<Rightarrow>
      case ho_exec ho [''ip'', ''link'', ''del'', host_veth_name ho (sb_pod_name sb1)]
             (ho_remove_dir_all ho (join_path (sb_pods_dir sb1) (sb_pod_name sb1)) s2) of (s3, _) \<Rightarrow>
      (s3, sb1\<lparr>sb_pause_pid := None, sb_pod_ip := None\<rparr>, Inr ()))"

end
