(* ===== verification/Kubelet.thy ===== *)
theory Kubelet
  imports Sandbox
begin

text \<open>
  The node agent: the map of live pods of \<^verbatim>\<open>src/store.rs\<close> and the reconciler of \<^verbatim>\<open>src/reconciler.rs\<close>. The agent's fields are
  the record \<open>kubelet\<close>; every method takes the agent and the world \<open>'s\<close> and returns both with its result. Hash maps are HOL maps;
  the order in which one is iterated is an argument that may depend on the world. A logged error changes nothing else.
\<close>

subsection \<open>Live pods\<close>

record pod_state =
  st_pod :: pod
  st_sandbox :: pod_sandbox

type_synonym pod_store = "string \<rightharpoonup> pod_state"

definition live_new :: pod_store where
  "live_new = Map.empty"

definition live_insert :: "pod_state \<Rightarrow> pod_store \<Rightarrow> pod_store" where
  "live_insert state pods = pods(om_name (pod_metadata (st_pod state)) \<mapsto> state)"

definition live_remove :: "string \<Rightarrow> pod_store \<Rightarrow> pod_store \<times> pod_state option" where
  "live_remove name pods = (pods(name := None), pods name)"

definition live_get :: "pod_store \<Rightarrow> string \<Rightarrow> pod_state option" where
  "live_get pods name = pods name"

definition live_contains :: "pod_store \<Rightarrow> string \<Rightarrow> bool" where
  "live_contains pods name \<longleftrightarrow> pods name \<noteq> None"

definition live_len :: "pod_store \<Rightarrow> nat" where
  "live_len pods = card (dom pods)"

definition live_names :: "(string set \<Rightarrow> string list) \<Rightarrow> pod_store \<Rightarrow> string list" where
  "live_names order pods = order (dom pods)"

definition live_drain :: "(string set \<Rightarrow> string list) \<Rightarrow> pod_store \<Rightarrow> pod_store \<times> (string \<times> pod_state) list" where
  "live_drain order pods = (Map.empty, map (\<lambda>n. (n, the (pods n))) (order (dom pods)))"

subsection \<open>The agent\<close>

definition HEARTBEAT_INTERVAL :: nat where
  "HEARTBEAT_INTERVAL = 10000000"

definition BACKOFF_BASE :: nat where
  "BACKOFF_BASE = 10000000"

definition BACKOFF_MAX :: nat where
  "BACKOFF_MAX = 300000000"

record restart_tracker =
  tr_restart_count :: nat
  tr_next_retry_at :: nat

record kubelet =
  kb_node_name :: string
  kb_pods_dir :: string
  kb_rootfs_base :: string
  kb_store :: pod_store
  kb_restart_state :: "string \<rightharpoonup> restart_tracker"
  kb_debug_dump_path :: "string option"
  kb_cache :: "string \<rightharpoonup> pod"
  kb_last_pushed_status :: "string \<rightharpoonup> pod_status"
  kb_ipam :: "ip_allocator option"

definition kubelet_new :: "string \<Rightarrow> string \<Rightarrow> string \<Rightarrow> string option \<Rightarrow> kubelet" where
  "kubelet_new node_name pods_dir rootfs_base debug_dump_path =
     \<lparr>kb_node_name = node_name, kb_pods_dir = pods_dir, kb_rootfs_base = rootfs_base, kb_store = live_new,
      kb_restart_state = Map.empty, kb_debug_dump_path = debug_dump_path, kb_cache = Map.empty,
      kb_last_pushed_status = Map.empty, kb_ipam = None\<rparr>"

record debug_container =
  dc_name :: string
  dc_command :: "string list"
  dc_restart_count :: nat
  dc_backoff_remaining_secs :: nat

record debug_pod =
  dp_name :: string
  dp_pause_pid :: "nat option"
  dp_containers :: "debug_container list"

record debug_snapshot =
  ds_ts_unix :: nat
  ds_pod_count :: nat
  ds_pods :: "debug_pod list"

record 's kubelet_env =
  ke_api :: "'s api"
  ke_list_on_node :: "string \<Rightarrow> ('s, pod list) call"
  ke_runtime :: "'s runtime"
  ke_host :: "'s host"
  ke_order :: "'s \<Rightarrow> string set \<Rightarrow> string list"
  ke_timestamp :: "'s \<Rightarrow> string"
  ke_unix_time :: "'s \<Rightarrow> nat"
  ke_write_json :: "string \<Rightarrow> debug_snapshot \<Rightarrow> 's \<Rightarrow> 's \<times> (string + unit)"

type_synonym ('s, 'a) kb_op = "kubelet \<Rightarrow> 's \<Rightarrow> 's \<times> kubelet \<times> (any_error + 'a)"

definition container_key :: "string \<Rightarrow> string \<Rightarrow> string" where
  "container_key name ct = name @ ''__'' @ ct"

definition compute_backoff :: "nat \<Rightarrow> nat" where
  "compute_backoff restart_count =
     (let expo = min (restart_count - 1) 20;
          multiplier = (if expo < 64 then 2 ^ expo mod 2 ^ 64 else u64_max);
          micros = min (BACKOFF_BASE * multiplier) u64_max
      in min micros BACKOFF_MAX)"

subsection \<open>Addresses\<close>

definition show_ipv4 :: "ipv4 \<Rightarrow> string" where
  "show_ipv4 ip = (case ip of (a, b, c, d) \<Rightarrow> show_nat a @ ''.'' @ show_nat b @ ''.'' @ show_nat c @ ''.'' @ show_nat d)"

definition status_ip :: "pod \<Rightarrow> string option" where
  "status_ip p = (case pod_status p of Some st \<Rightarrow> ps_pod_ip st | None \<Rightarrow> None)"

text \<open>The address a status carries, when the allocator exists and the text is an address.\<close>

definition reusable_ip :: "kubelet \<Rightarrow> pod \<Rightarrow> (string \<times> ip_allocator \<times> ipv4) option" where
  "reusable_ip kb p =
     (case status_ip p of
        None \<Rightarrow> None
      | Some ip \<Rightarrow>
          (case (kb_ipam kb, parse_ipv4 ip) of
             (Some al, Some addr) \<Rightarrow> Some (ip, al, addr)
           | _ \<Rightarrow> None))"

definition ensure_pod_ip :: "pod \<Rightarrow> kubelet \<Rightarrow> kubelet \<times> (any_error + string)" where
  "ensure_pod_ip p kb =
     (case reusable_ip kb p of
        Some (ip, al, addr) \<Rightarrow> (kb\<lparr>kb_ipam := Some (fst (reserve al addr))\<rparr>, Inr ip)
      | None \<Rightarrow>
          (case kb_ipam kb of
             None \<Rightarrow> (kb, Inl (Msg ''IPAM not initialized (startup did not run?)''))
           | Some al \<Rightarrow>
               (case allocate al of
                  (al', Inl e) \<Rightarrow> (kb\<lparr>kb_ipam := Some al'\<rparr>, Inl (Ctx ''allocate pod IP'' (Ip e)))
                | (al', Inr addr) \<Rightarrow> (kb\<lparr>kb_ipam := Some al'\<rparr>, Inr (show_ipv4 addr)))))"

definition release_ip :: "string \<Rightarrow> kubelet \<Rightarrow> kubelet" where
  "release_ip ip kb =
     (case (kb_ipam kb, parse_ipv4 ip) of
        (Some al, Some addr) \<Rightarrow> kb\<lparr>kb_ipam := Some (release al addr)\<rparr>
      | _ \<Rightarrow> kb)"

subsection \<open>Creating and removing pods\<close>

fun add_containers :: "'s host \<Rightarrow> 's runtime \<Rightarrow> container list \<Rightarrow> 's sb_op" where
  "add_containers ho rt [] sb s = (s, sb, Inr ())"
| "add_containers ho rt (ct # cts) sb s =
     (case add_container ho rt ct sb s of
        (s', sb', Inl e) \<Rightarrow> (s', sb', Inl (Ctx (''add container '' @ ct_name ct) e))
      | (s', sb', Inr _) \<Rightarrow> add_containers ho rt cts sb' s')"

definition create_pod_on_node :: "'s kubelet_env \<Rightarrow> pod \<Rightarrow> ('s, unit) kb_op" where
  "create_pod_on_node env p kb s =
     (case ensure_pod_ip p kb of
        (kb1, Inl e) \<Rightarrow> (s, kb1, Inl e)
      | (kb1, Inr pod_ip) \<Rightarrow>
          (case sandbox_create (ke_host env) (ke_runtime env) (Some pod_ip)
                  (sandbox_new (om_name (pod_metadata p)) (kb_pods_dir kb1) (kb_rootfs_base kb1)) s of
             (s1, sb1, Inl e) \<Rightarrow> (s1, kb1, Inl (Ctx ''create sandbox'' e))
           | (s1, sb1, Inr _) \<Rightarrow>
               (case add_containers (ke_host env) (ke_runtime env) (pc_containers (pod_spec p)) sb1 s1 of
                  (s2, sb2, Inl e) \<Rightarrow>
                    (case sandbox_destroy (ke_host env) (ke_runtime env) sb2 s2 of
                       (s3, sb3, _) \<Rightarrow> (s3, release_ip pod_ip kb1, Inl e))
                | (s2, sb2, Inr _) \<Rightarrow>
                    (s2, kb1\<lparr>kb_store := live_insert \<lparr>st_pod = p, st_sandbox = sb2\<rparr> (kb_store kb1)\<rparr>, Inr ()))))"

definition remove_pod :: "'s kubelet_env \<Rightarrow> string \<Rightarrow> ('s, unit) kb_op" where
  "remove_pod env name kb s =
     (case live_remove name (kb_store kb) of
        (_, None) \<Rightarrow> (s, kb, Inr ())
      | (store', Some state) \<Rightarrow>
          (let keys = (\<lambda>ct. container_key name (ct_name ct)) ` set (pc_containers (pod_spec (st_pod state)));
               kb1 = kb\<lparr>kb_store := store', kb_restart_state := kb_restart_state kb |` (- keys),
                        kb_last_pushed_status := (kb_last_pushed_status kb)(name := None)\<rparr>
           in case sandbox_destroy (ke_host env) (ke_runtime env) (st_sandbox state) s of
                (s', _, Inl e) \<Rightarrow> (s', kb1, Inl e)
              | (s', _, Inr _) \<Rightarrow>
                  (s', (case sb_pod_ip (st_sandbox state) of Some ip \<Rightarrow> release_ip ip kb1 | None \<Rightarrow> kb1), Inr ())))"

subsection \<open>Liveness\<close>

text \<open>The tracker of a crashed container: created on the first crash, then bumped unless it is in backoff.\<close>

definition tracker_of :: "(string \<rightharpoonup> restart_tracker) \<Rightarrow> string \<Rightarrow> nat \<Rightarrow> restart_tracker" where
  "tracker_of rs cid now =
     (case rs cid of Some t \<Rightarrow> t | None \<Rightarrow> \<lparr>tr_restart_count = 0, tr_next_retry_at = now\<rparr>)"

definition bump_tracker :: "restart_tracker \<Rightarrow> nat \<Rightarrow> restart_tracker" where
  "bump_tracker t now =
     \<lparr>tr_restart_count = tr_restart_count t + 1, tr_next_retry_at = now + compute_backoff (tr_restart_count t + 1)\<rparr>"

definition restart_container :: "'s kubelet_env \<Rightarrow> container \<Rightarrow> 's sb_op" where
  "restart_container env ct sb s =
     (case remove_container (ke_host env) (ke_runtime env) (ct_name ct) sb s of
        (s1, sb1, _) \<Rightarrow>
          (case add_container (ke_host env) (ke_runtime env) ct sb1 s1 of
             (s2, sb2, Inl e) \<Rightarrow> (s2, sb2, Inl (Ctx (''restart container '' @ ct_name ct) e))
           | (s2, sb2, Inr _) \<Rightarrow> (s2, sb2, Inr ())))"

text \<open>One turn of the loop over the containers of a pod.\<close>

definition liveness_turn :: "'s kubelet_env \<Rightarrow> string \<Rightarrow> container \<Rightarrow> pod_sandbox \<Rightarrow> (string \<rightharpoonup> restart_tracker) \<Rightarrow> 's \<Rightarrow>
    's \<times> pod_sandbox \<times> (string \<rightharpoonup> restart_tracker) \<times> (any_error + unit)" where
  "liveness_turn env name ct sb rs s =
     (let cid = container_key name (ct_name ct) in
      case rt_container_state (ke_runtime env) cid s of
        (s1, Inl e) \<Rightarrow> (s1, sb, rs, Inl (Ctx (''read state for '' @ cid) (Rt e)))
      | (s1, Inr C_Running) \<Rightarrow> (s1, sb, rs(cid := None), Inr ())
      | (s1, Inr C_Created) \<Rightarrow> (s1, sb, rs, Inr ())
      | (s1, Inr _) \<Rightarrow>
          (let now = ho_now (ke_host env) s1; t = tracker_of rs cid now in
           if now < tr_next_retry_at t then (s1, sb, rs(cid \<mapsto> t), Inr ())
           else (case restart_container env ct sb s1 of
                   (s2, sb2, r) \<Rightarrow> (s2, sb2, rs(cid \<mapsto> bump_tracker t now), r))))"

fun liveness_loop :: "'s kubelet_env \<Rightarrow> string \<Rightarrow> container list \<Rightarrow> pod_sandbox \<Rightarrow> (string \<rightharpoonup> restart_tracker) \<Rightarrow> 's \<Rightarrow>
    's \<times> pod_sandbox \<times> (string \<rightharpoonup> restart_tracker) \<times> (any_error + unit)" where
  "liveness_loop env name [] sb rs s = (s, sb, rs, Inr ())"
| "liveness_loop env name (ct # cts) sb rs s =
     (case liveness_turn env name ct sb rs s of
        (s', sb', rs', Inl e) \<Rightarrow> (s', sb', rs', Inl e)
      | (s', sb', rs', Inr _) \<Rightarrow> liveness_loop env name cts sb' rs' s')"

definition reconcile_liveness :: "'s kubelet_env \<Rightarrow> string \<Rightarrow> pod \<Rightarrow> ('s, unit) kb_op" where
  "reconcile_liveness env name p kb s =
     (case live_get (kb_store kb) name of
        None \<Rightarrow> (s, kb, Inr ())
      | Some state \<Rightarrow>
          (case liveness_loop env name (pc_containers (pod_spec p)) (st_sandbox state) (kb_restart_state kb) s of
             (s', sb', rs', r) \<Rightarrow>
               (s', kb\<lparr>kb_store := (kb_store kb)(name \<mapsto> state\<lparr>st_sandbox := sb'\<rparr>), kb_restart_state := rs'\<rparr>, r)))"

subsection \<open>Status\<close>

text \<open>The status of one container: what is reported, and the three flags of the roll-up.\<close>

fun report_state :: "container_state \<Rightarrow> container_status_state \<times> bool" where
  "report_state C_Running = (RunningSince ''unknown'', True)"
| "report_state C_Created = (container_status_state.Waiting, False)"
| "report_state C_NotFound = (container_status_state.Waiting, False)"
| "report_state C_Stopped = (Terminated 0, False)"

definition read_state :: "'s runtime \<Rightarrow> string \<Rightarrow> 's \<Rightarrow> 's \<times> container_state" where
  "read_state rt cid s = (case rt_container_state rt cid s of (s', Inr st) \<Rightarrow> (s', st) | (s', Inl _) \<Rightarrow> (s', C_NotFound))"

fun container_reports :: "'s runtime \<Rightarrow> (string \<rightharpoonup> restart_tracker) \<Rightarrow> string \<Rightarrow> container list \<Rightarrow> 's \<Rightarrow>
    's \<times> (container_state \<times> container_status) list" where
  "container_reports rt rs name [] s = (s, [])"
| "container_reports rt rs name (ct # cts) s =
     (let cid = container_key name (ct_name ct) in
      case read_state rt cid s of (s', st) \<Rightarrow>
      case container_reports rt rs name cts s' of (s'', rest) \<Rightarrow>
      (s'', (st, \<lparr>cs_name = ct_name ct, cs_ready = snd (report_state st),
                  cs_restart_count = (case rs cid of Some t \<Rightarrow> tr_restart_count t | None \<Rightarrow> 0),
                  cs_state = fst (report_state st)\<rparr>) # rest))"

definition roll_up :: "container_state list \<Rightarrow> pod_phase" where
  "roll_up sts =
     (let any_waiting = list_ex (\<lambda>st. st = C_Created \<or> st = C_NotFound) sts;
          any_running = list_ex (\<lambda>st. st = C_Running) sts;
          all_terminated = (sts \<noteq> [] \<and> list_all (\<lambda>st. st = C_Stopped) sts)
      in if any_waiting then Pending else if all_terminated then Failed else if any_running then Running else Unknown)"

definition compute_pod_status :: "'s kubelet_env \<Rightarrow> pod \<Rightarrow> kubelet \<Rightarrow> 's \<Rightarrow> 's \<times> pod_status" where
  "compute_pod_status env p kb s =
     (let name = om_name (pod_metadata p);
          pod_ip = (case live_get (kb_store kb) name of Some state \<Rightarrow> sb_pod_ip (st_sandbox state) | None \<Rightarrow> None)
      in case container_reports (ke_runtime env) (kb_restart_state kb) name (pc_containers (pod_spec p)) s of
           (s', reports) \<Rightarrow>
             (s', \<lparr>ps_phase = roll_up (map fst reports), ps_container_statuses = map snd reports,
                   ps_observed_generation = om_generation (pod_metadata p), ps_pod_ip = pod_ip\<rparr>))"

subsection \<open>Debug snapshot\<close>

definition debug_containers :: "kubelet \<Rightarrow> nat \<Rightarrow> string \<Rightarrow> pod_state \<Rightarrow> debug_container list" where
  "debug_containers kb now name state =
     map (\<lambda>ct. let t = kb_restart_state kb (container_key name (ct_name ct)) in
        \<lparr>dc_name = ct_name ct, dc_command = ct_command ct,
         dc_restart_count = (case t of Some t \<Rightarrow> tr_restart_count t | None \<Rightarrow> 0),
         dc_backoff_remaining_secs = (case t of Some t \<Rightarrow> (tr_next_retry_at t - now) div 1000000 | None \<Rightarrow> 0)\<rparr>)
       (pc_containers (pod_spec (st_pod state)))"

definition write_debug_snapshot :: "'s kubelet_env \<Rightarrow> kubelet \<Rightarrow> ('s, unit) any_call" where
  "write_debug_snapshot env kb s =
     (case kb_debug_dump_path kb of
        None \<Rightarrow> (s, Inr ())
      | Some path \<Rightarrow>
          (let now = ho_now (ke_host env) s;
               pods = map (\<lambda>name. let state = the (live_get (kb_store kb) name) in
                 \<lparr>dp_name = name, dp_pause_pid = sb_pause_pid (st_sandbox state), dp_containers = debug_containers kb now name state\<rparr>)
                 (live_names (ke_order env s) (kb_store kb))
           in ctx (''writing debug snapshot to '' @ path) Io
                (ke_write_json env path \<lparr>ds_ts_unix = ke_unix_time env s, ds_pod_count = live_len (kb_store kb), ds_pods = pods\<rparr>) s))"

definition debug_dump :: "'s kubelet_env \<Rightarrow> kubelet \<Rightarrow> 's \<Rightarrow> 's" where
  "debug_dump env kb s = (if kb_debug_dump_path kb \<noteq> None then fst (write_debug_snapshot env kb s) else s)"

subsection \<open>Ticks, events and resync\<close>

fun tick_pods :: "'s kubelet_env \<Rightarrow> string list \<Rightarrow> (string \<times> pod_status) list \<Rightarrow> kubelet \<Rightarrow> 's \<Rightarrow>
    's \<times> kubelet \<times> (string \<times> pod_status) list" where
  "tick_pods env [] dirty kb s = (s, kb, dirty)"
| "tick_pods env (name # names) dirty kb s =
     (case kb_cache kb name of
        None \<Rightarrow> tick_pods env names dirty kb s
      | Some p \<Rightarrow>
          (case reconcile_liveness env name p kb s of (s1, kb1, _) \<Rightarrow>
           case compute_pod_status env p kb1 s1 of (s2, status) \<Rightarrow>
             tick_pods env names (if kb_last_pushed_status kb1 name = Some status then dirty else dirty @ [(name, status)]) kb1 s2))"

definition tick_liveness :: "'s kubelet_env \<Rightarrow> kubelet \<Rightarrow> 's \<Rightarrow> 's \<times> kubelet \<times> (string \<times> pod_status) list" where
  "tick_liveness env kb s =
     (case tick_pods env (ke_order env s (dom (kb_cache kb))) [] kb s of (s', kb', dirty) \<Rightarrow> (debug_dump env kb' s', kb', dirty))"

definition apply_watch_event :: "'s kubelet_env \<Rightarrow> pod watch_event \<Rightarrow> kubelet \<Rightarrow> 's \<Rightarrow> 's \<times> kubelet" where
  "apply_watch_event env ev kb s =
     (let p = we_object ev; name = om_name (pod_metadata p) in
      if we_type ev = Deleted
      then (case remove_pod env name (kb\<lparr>kb_cache := (kb_cache kb)(name := None)\<rparr>) s of (s', kb', _) \<Rightarrow> (s', kb'))
      else (let is_new = (kb_cache kb name = None); kb1 = kb\<lparr>kb_cache := (kb_cache kb)(name \<mapsto> p)\<rparr> in
            if is_new then (case create_pod_on_node env p kb1 s of (s', kb', _) \<Rightarrow> (s', kb')) else (s, kb1)))"

text \<open>The three loops of a diff, over lists of names.\<close>

fun create_absent :: "'s kubelet_env \<Rightarrow> (string \<rightharpoonup> pod) \<Rightarrow> string list \<Rightarrow> kubelet \<Rightarrow> 's \<Rightarrow> 's \<times> kubelet" where
  "create_absent env desired [] kb s = (s, kb)"
| "create_absent env desired (name # names) kb s =
     (if live_contains (kb_store kb) name then create_absent env desired names kb s
      else (case create_pod_on_node env (the (desired name)) kb s of (s', kb', _) \<Rightarrow> create_absent env desired names kb' s'))"

fun remove_pods :: "'s kubelet_env \<Rightarrow> string list \<Rightarrow> kubelet \<Rightarrow> 's \<Rightarrow> 's \<times> kubelet" where
  "remove_pods env [] kb s = (s, kb)"
| "remove_pods env (name # names) kb s = (case remove_pod env name kb s of (s', kb', _) \<Rightarrow> remove_pods env names kb' s')"

fun reconcile_pods :: "'s kubelet_env \<Rightarrow> (string \<rightharpoonup> pod) \<Rightarrow> string list \<Rightarrow> kubelet \<Rightarrow> 's \<Rightarrow> 's \<times> kubelet" where
  "reconcile_pods env desired [] kb s = (s, kb)"
| "reconcile_pods env desired (name # names) kb s =
     (case reconcile_liveness env name (the (desired name)) kb s of (s', kb', _) \<Rightarrow> reconcile_pods env desired names kb' s')"

definition apply_diff :: "'s kubelet_env \<Rightarrow> (string \<rightharpoonup> pod) \<Rightarrow> kubelet \<Rightarrow> 's \<Rightarrow> 's \<times> kubelet" where
  "apply_diff env desired kb s =
     (case create_absent env desired (ke_order env s (dom desired)) kb s of (s1, kb1) \<Rightarrow>
      case remove_pods env (filter (\<lambda>name. desired name = None) (live_names (ke_order env s1) (kb_store kb1))) kb1 s1 of (s2, kb2) \<Rightarrow>
      case reconcile_pods env desired (ke_order env s2 (dom desired)) kb2 s2 of (s3, kb3) \<Rightarrow>
      (debug_dump env kb3 s3, kb3))"

text \<open>A pod listed twice under one name counts as the last one.\<close>

definition by_name :: "pod list \<Rightarrow> string \<rightharpoonup> pod" where
  "by_name pods = fold (\<lambda>p m. m(om_name (pod_metadata p) \<mapsto> p)) pods Map.empty"

definition resync :: "'s kubelet_env \<Rightarrow> ('s, unit) kb_op" where
  "resync env kb s =
     (case ke_list_on_node env (kb_node_name kb) s of
        (s1, Inl e) \<Rightarrow> (s1, kb, Inl (Ctx ''resync list'' (Cl e)))
      | (s1, Inr pods) \<Rightarrow>
          (case apply_diff env (by_name pods) (kb\<lparr>kb_cache := by_name pods\<rparr>) s1 of (s2, kb2) \<Rightarrow> (s2, kb2, Inr ())))"

fun destroy_all :: "'s kubelet_env \<Rightarrow> (string \<times> pod_state) list \<Rightarrow> 's \<Rightarrow> 's" where
  "destroy_all env [] s = s"
| "destroy_all env ((name, state) # rest) s =
     destroy_all env rest (fst (sandbox_destroy (ke_host env) (ke_runtime env) (st_sandbox state) s))"

definition shutdown :: "'s kubelet_env \<Rightarrow> kubelet \<Rightarrow> 's \<Rightarrow> 's \<times> kubelet" where
  "shutdown env kb s =
     (case live_drain (ke_order env s) (kb_store kb) of
        (store', states) \<Rightarrow> (destroy_all env states s, kb\<lparr>kb_store := store', kb_restart_state := Map.empty\<rparr>))"

subsection \<open>Calls to the API server\<close>

definition push_status :: "'s kubelet_env \<Rightarrow> string \<Rightarrow> pod_status \<Rightarrow> ('s, unit) kb_op" where
  "push_status env name status kb s =
     (case (case kb_cache kb name of Some p \<Rightarrow> om_resource_version (pod_metadata p) | None \<Rightarrow> None) of
        None \<Rightarrow> (s, kb, Inr ())
      | Some rv \<Rightarrow>
          (let accept = (\<lambda>updated kb. kb\<lparr>kb_cache := (kb_cache kb)(name \<mapsto> updated),
                           kb_last_pushed_status := (kb_last_pushed_status kb)(name \<mapsto> status)\<rparr>)
           in case k8_replace_pod_status (ke_api env) name status rv s of
                (s1, Inr updated) \<Rightarrow> (s1, accept updated kb, Inr ())
              | (s1, Inl (Cl_Conflict msg)) \<Rightarrow>
                  (case k8_get_pod (ke_api env) name s1 of
                     (s2, Inl e) \<Rightarrow> (s2, kb, Inl (Ctx ''refetch on status conflict'' (Cl e)))
                   | (s2, Inr None) \<Rightarrow> (s2, kb, Inr ())
                   | (s2, Inr (Some latest)) \<Rightarrow>
                       (case om_resource_version (pod_metadata latest) of
                          None \<Rightarrow> (s2, kb, Inl (Msg ''refetched pod missing rv''))
                        | Some new_rv \<Rightarrow>
                            (let kb2 = kb\<lparr>kb_cache := (kb_cache kb)(name \<mapsto> latest)\<rparr> in
                             case k8_replace_pod_status (ke_api env) name status new_rv s2 of
                               (s3, Inl e) \<Rightarrow> (s3, kb2, Inl (Ctx ''status push retry after conflict'' (Cl e)))
                             | (s3, Inr updated) \<Rightarrow> (s3, accept updated kb2, Inr ()))))
              | (s1, Inl e) \<Rightarrow> (s1, kb, Inl (Ctx ''status push '' (Cl e)))))"

fun push_all :: "'s kubelet_env \<Rightarrow> (string \<times> pod_status) list \<Rightarrow> kubelet \<Rightarrow> 's \<Rightarrow> 's \<times> kubelet" where
  "push_all env [] kb s = (s, kb)"
| "push_all env ((name, status) # rest) kb s =
     (case push_status env name status kb s of (s', kb', _) \<Rightarrow> push_all env rest kb' s')"

definition fresh_status :: "'s kubelet_env \<Rightarrow> 's \<Rightarrow> node_status" where
  "fresh_status env s = \<lparr>nst_ready = True, nst_last_heartbeat_time = Some (ke_timestamp env s)\<rparr>"

definition register_node :: "'s kubelet_env \<Rightarrow> string \<Rightarrow> ('s, unit) any_call" where
  "register_node env node_name s =
     (case k8_create_node (ke_api env)
             \<lparr>node_api_version = ''v1'', node_kind = ''Node'', node_metadata = object_meta_default\<lparr>om_name := node_name\<rparr>,
              node_spec = \<lparr>nd_unschedulable = False, nd_pod_cidr = None\<rparr>, node_status = Some (fresh_status env s)\<rparr> s of
        (s', Inr _) \<Rightarrow> (s', Inr ())
      | (s', Inl Cl_AlreadyExists) \<Rightarrow> (s', Inr ())
      | (s', Inl e) \<Rightarrow> (s', Inl (Ctx ''register node'' (Cl e))))"

text \<open>One turn of the heartbeat.\<close>

definition heartbeat :: "'s kubelet_env \<Rightarrow> string \<Rightarrow> 's \<Rightarrow> 's" where
  "heartbeat env node_name s =
     (case k8_get_node (ke_api env) node_name s of
        (s1, Inr (Some nd)) \<Rightarrow>
          (case om_resource_version (node_metadata nd) of
             None \<Rightarrow> s1
           | Some rv \<Rightarrow> fst (k8_replace_node_status (ke_api env) node_name (fresh_status env s1) rv s1))
      | (s1, _) \<Rightarrow> s1)"

subsection \<open>Start-up\<close>

fun split_at_pattern :: "string \<Rightarrow> string \<Rightarrow> (string \<times> string) option" where
  "split_at_pattern pat [] = (if pat = [] then Some ([], []) else None)"
| "split_at_pattern pat (c # cs) =
     (if starts_with pat (c # cs) then Some ([], drop (length pat) (c # cs))
      else (case split_at_pattern pat cs of None \<Rightarrow> None | Some (a, b) \<Rightarrow> Some (c # a, b)))"

definition group_recovered :: "recovered_container list \<Rightarrow> string \<rightharpoonup> recovered_container list" where
  "group_recovered recovered =
     fold (\<lambda>rc m. case split_at_pattern ''__'' (rc_id rc) of
                    None \<Rightarrow> m
                  | Some (pod_name, _) \<Rightarrow> m(pod_name \<mapsto> (case m pod_name of Some l \<Rightarrow> l | None \<Rightarrow> []) @ [rc])) recovered Map.empty"

definition pause_pid_of :: "string \<Rightarrow> recovered_container list option \<Rightarrow> nat option" where
  "pause_pid_of pause_id recovered =
     (case recovered of
        None \<Rightarrow> None
      | Some rcs \<Rightarrow> (case List.find (\<lambda>rc. rc_id rc = pause_id) rcs of None \<Rightarrow> None | Some rc \<Rightarrow> rc_pid rc))"

definition app_names_of :: "string \<Rightarrow> recovered_container list \<Rightarrow> string list" where
  "app_names_of pause_id rcs =
     List.map_filter (\<lambda>rc. map_option snd (split_at_pattern ''__'' (rc_id rc))) (filter (\<lambda>rc. rc_id rc \<noteq> pause_id) rcs)"

fun startup_pods :: "'s kubelet_env \<Rightarrow> pod list \<Rightarrow> (string \<rightharpoonup> recovered_container list) \<Rightarrow> kubelet \<Rightarrow> 's \<Rightarrow>
    's \<times> kubelet \<times> (string \<rightharpoonup> recovered_container list)" where
  "startup_pods env [] by_pod kb s = (s, kb, by_pod)"
| "startup_pods env (p # ps) by_pod kb s =
     (let kb1 = (case reusable_ip kb p of Some (ip, al, addr) \<Rightarrow> kb\<lparr>kb_ipam := Some (fst (reserve al addr))\<rparr> | None \<Rightarrow> kb);
          name = om_name (pod_metadata p); pause_id = name @ ''__pause'' in
      case (case pause_pid_of pause_id (by_pod name) of
              Some pause_pid \<Rightarrow>
                (s, kb1\<lparr>kb_store := live_insert \<lparr>st_pod = p,
                     st_sandbox = sandbox_from_recovered name pause_pid (app_names_of pause_id (the (by_pod name)))
                       (kb_pods_dir kb1) (kb_rootfs_base kb1) (status_ip p)\<rparr> (kb_store kb1)\<rparr>)
            | None \<Rightarrow> (case create_pod_on_node env p kb1 s of (s', kb', _) \<Rightarrow> (s', kb'))) of
        (s2, kb2) \<Rightarrow> startup_pods env ps (by_pod(name := None)) (kb2\<lparr>kb_cache := (kb_cache kb2)(name \<mapsto> p)\<rparr>) s2)"

fun delete_orphans :: "'s kubelet_env \<Rightarrow> recovered_container list \<Rightarrow> 's \<Rightarrow> 's" where
  "delete_orphans env [] s = s"
| "delete_orphans env (rc # rcs) s = delete_orphans env rcs (fst (rt_delete_container (ke_runtime env) (rc_id rc) True s))"

definition startup :: "'s kubelet_env \<Rightarrow> ('s, unit) kb_op" where
  "startup env kb s =
     (case attempt (register_node env (kb_node_name kb)) (\<lambda>_.
           attempt (ctx ''ensure host bridge'' (\<lambda>e. e) (ensure_bridge (ke_host env))) (\<lambda>_ s.
           (case k8_get_node (ke_api env) (kb_node_name kb) s of
              (s', Inl e) \<Rightarrow> (s', Inl (Cl e))
            | (s', Inr None) \<Rightarrow> (s', Inl (Msg ''node not found after registration''))
            | (s', Inr (Some nd)) \<Rightarrow>
                (case nd_pod_cidr (node_spec nd) of
                   None \<Rightarrow> (s', Inl (Msg ''node has no podCIDR assigned by apiserver''))
                 | Some cidr \<Rightarrow>
                     (case from_cidr cidr of
                        Inl e \<Rightarrow> (s', Inl (Ctx ''build IP allocator'' (Ip e)))
                      | Inr al \<Rightarrow> (s', Inr al)))))) s of
        (s1, Inl e) \<Rightarrow> (s1, kb, Inl e)
      | (s1, Inr al) \<Rightarrow>
          (let kb1 = kb\<lparr>kb_ipam := Some al\<rparr> in
           case attempt (ctx ''recover containers from runtime state dir'' Rt (rt_recover_all (ke_runtime env))) (\<lambda>recovered.
                attempt (ctx ''initial list of pods from apiserver'' Cl (ke_list_on_node env (kb_node_name kb))) (\<lambda>pods s.
                (s, Inr (recovered, pods)))) s1 of
             (s2, Inl e) \<Rightarrow> (s2, kb1, Inl e)
           | (s2, Inr (recovered, pods)) \<Rightarrow>
               (case startup_pods env pods (group_recovered recovered) kb1 s2 of
                  (s3, kb3, by_pod) \<Rightarrow>
                    (delete_orphans env (concat (map (\<lambda>n. the (by_pod n)) (ke_order env s3 (dom by_pod)))) s3, kb3, Inr ()))))"

subsection \<open>The loop\<close>

datatype kubelet_event =
    Watch_item "client_error + pod watch_event"
  | Watch_closed
  | Resync_tick
  | Liveness_tick

definition kubelet_turn :: "'s kubelet_env \<Rightarrow> kubelet_event \<Rightarrow> kubelet \<Rightarrow> 's \<Rightarrow> 's \<times> kubelet" where
  "kubelet_turn env ev kb s =
     (case ev of
        Watch_item (Inr e) \<Rightarrow> apply_watch_event env e kb s
      | Watch_item (Inl e) \<Rightarrow> (s, kb)
      | Watch_closed \<Rightarrow> (s, kb)
      | Resync_tick \<Rightarrow> (case resync env kb s of (s', kb', _) \<Rightarrow> (s', kb'))
      | Liveness_tick \<Rightarrow> (case tick_liveness env kb s of (s', kb', dirty) \<Rightarrow> push_all env dirty kb' s'))"

text \<open>
  What the four arms of the select are ready with at one poll: the watch stream yields nothing yet, an item or its end. The
  select is biased: the first ready arm in this order is taken.
\<close>

record poll_state =
  po_cancelled :: bool
  po_watch :: "(client_error + pod watch_event) option option"
  po_resync_due :: bool
  po_liveness_due :: bool

datatype arm = Arm_cancel | Arm_event kubelet_event | Arm_wait

definition select_arm :: "poll_state \<Rightarrow> arm" where
  "select_arm po =
     (if po_cancelled po then Arm_cancel
      else (case po_watch po of
              Some (Some item) \<Rightarrow> Arm_event (Watch_item item)
            | Some None \<Rightarrow> Arm_event Watch_closed
            | None \<Rightarrow> (if po_resync_due po then Arm_event Resync_tick
                       else if po_liveness_due po then Arm_event Liveness_tick else Arm_wait)))"

text \<open>The loop over a sequence of polls.\<close>

fun kubelet_loop :: "'s kubelet_env \<Rightarrow> poll_state list \<Rightarrow> kubelet \<Rightarrow> 's \<Rightarrow> 's \<times> kubelet" where
  "kubelet_loop env [] kb s = (s, kb)"
| "kubelet_loop env (po # pos) kb s =
     (case select_arm po of
        Arm_cancel \<Rightarrow> (s, kb)
      | Arm_event ev \<Rightarrow> (case kubelet_turn env ev kb s of (s', kb') \<Rightarrow> kubelet_loop env pos kb' s')
      | Arm_wait \<Rightarrow> kubelet_loop env pos kb s)"

text \<open>A whole run; \<open>open_watch\<close> is the call that opens the watch stream.\<close>

definition kubelet_run :: "'s kubelet_env \<Rightarrow> ('s, unit) call \<Rightarrow> poll_state list \<Rightarrow> ('s, unit) kb_op" where
  "kubelet_run env open_watch pos kb s =
     (case startup env kb s of
        (s1, kb1, Inl e) \<Rightarrow> (s1, kb1, Inl e)
      | (s1, kb1, Inr _) \<Rightarrow>
          (case open_watch s1 of
             (s2, Inl e) \<Rightarrow> (s2, kb1, Inl (Ctx ''opening watch stream'' (Cl e)))
           | (s2, Inr _) \<Rightarrow>
               (case kubelet_loop env pos kb1 s2 of (s3, kb3) \<Rightarrow>
                case shutdown env kb3 s3 of (s4, kb4) \<Rightarrow> (s4, kb4, Inr ()))))"

end
