(* ===== verification/Sandbox_Laws.thy ===== *)
theory Sandbox_Laws
  imports Sandbox
begin

text \<open>
  What the operations of a sandbox do to the ids the runtime holds. The locale \<open>pod_host\<close> adds to the contract of the
  runtime that files, commands and sleeping create and delete no containers; it is interpreted on the implementation of
  the runtime with any host.
\<close>

locale pod_host = runtime_handles rt ids
  for rt :: "'s runtime" and ids :: "'s \<Rightarrow> string set" +
  fixes ho :: "'s host"
  assumes create_dir_ids [simp]: "ids (fst (ho_create_dir_all ho p s)) = ids s"
    and save_ids [simp]: "ids (fst (ho_save_spec ho spec p s)) = ids s"
    and remove_dir_ids [simp]: "ids (ho_remove_dir_all ho p s) = ids s"
    and exec_ids [simp]: "ids (fst (ho_exec ho argv s)) = ids s"
    and sleep_ids [simp]: "ids (ho_sleep ho d s) = ids s"

definition lift_host :: "'w host \<Rightarrow> ('h youki \<times> 'w) host" where
  "lift_host ho =
     \<lparr>ho_create_dir_all = (\<lambda>p (y, w). case ho_create_dir_all ho p w of (w', r) \<Rightarrow> ((y, w'), r)),
      ho_save_spec = (\<lambda>spec p (y, w). case ho_save_spec ho spec p w of (w', r) \<Rightarrow> ((y, w'), r)),
      ho_remove_dir_all = (\<lambda>p (y, w). (y, ho_remove_dir_all ho p w)),
      ho_exec = (\<lambda>argv (y, w). case ho_exec ho argv w of (w', r) \<Rightarrow> ((y, w'), r)),
      ho_now = (\<lambda>(y, w). ho_now ho w), ho_sleep = (\<lambda>d (y, w). (y, ho_sleep ho d w)), ho_hash = ho_hash ho\<rparr>"

interpretation youki_node: pod_host "youki_runtime lc" handle_ids "lift_host ho" for lc ho
  by unfold_locales (auto simp: lift_host_def handle_ids_def split: prod.splits)

lemma attempt_ok: "attempt f g s = (s'', Inr y) \<longleftrightarrow> (\<exists>s' x. f s = (s', Inr x) \<and> g x s' = (s'', Inr y))"
  by (auto simp: attempt_def split: prod.splits sum.splits)

lemma ctx_ok: "ctx what conv f s = (s', Inr x) \<longleftrightarrow> f s = (s', Inr x)"
  by (auto simp: ctx_def split: prod.splits sum.splits)

lemma ctx_fst [simp]: "fst (ctx what conv f s) = fst (f s)"
  by (auto simp: ctx_def split: prod.splits sum.splits)

lemma run_host_fst [simp]: "fst (run_host ho argv s) = fst (ho_exec ho argv s)"
  by (auto simp: run_host_def split: prod.splits sum.splits)

lemma run_tolerate_any_fst [simp]: "fst (run_tolerate_any ho argv ts s) = fst (ho_exec ho argv s)"
  by (auto simp: run_tolerate_any_def split: prod.splits sum.splits)

text \<open>One round of the wait, whatever the rounds after it do.\<close>

lemma poll_round:
  assumes "(if before then (case x of (s', q) \<Rightarrow>
      (case q of Inl e \<Rightarrow> Some (s', fail e) | Inr st \<Rightarrow> (if over st then Some (s', ok) else next s')))
    else Some (s, ok)) = Some res" and "x = (s1, q)"
  shows "fst res = s \<or> fst res = s1 \<or> next s1 = Some res"
  using assms by (cases before; cases q) (auto split: if_split_asm)

context pod_host
begin

lemma attempt_ids:
  "(\<And>s. ids (fst (f s)) = ids s) \<Longrightarrow> (\<And>x s. ids (fst (g x s)) = ids s) \<Longrightarrow> ids (fst (attempt f g s)) = ids s"
  by (auto simp: attempt_def split: prod.splits sum.splits) (metis fst_conv)+

lemma write_bundle_ids [simp]: "ids (fst (write_bundle ho ct dir root share s)) = ids s"
  unfolding write_bundle_def by (rule attempt_ids) simp_all

lemma run_all_ids [simp]: "ids (fst (run_all ho cs s)) = ids s"
  by (induction cs arbitrary: s) (simp_all, rule attempt_ids, simp_all)

lemma poll_loop_ids:
  assumes "poll_loop ho rt cid deadline s = Some res"
  shows "ids (fst res) = ids s"
proof -
  have "h = ho \<longrightarrow> r = rt \<longrightarrow> ids (fst res) = ids s" if "poll_loop h r cid deadline s = Some res" for h r cid deadline s res
    using that
  proof (rule poll_loop.raw_induct [where P = "\<lambda>h r cid deadline s res. h = ho \<longrightarrow> r = rt \<longrightarrow> ids (fst res) = ids s", rotated], intro impI)
    fix loop h r cid deadline s and res :: "'s \<times> (any_error + unit)"
    assume ih: "\<And>h r cid deadline s res. loop h r cid deadline s = Some res \<Longrightarrow> h = ho \<longrightarrow> r = rt \<longrightarrow> ids (fst res) = ids s"
      and eq: "(if ho_now h s < deadline
        then (case rt_container_state r cid s of (s', q) \<Rightarrow>
                (case q of
                   Inl e \<Rightarrow> Some (s', Inl (Ctx ''polling container state during graceful shutdown'' (Rt e)))
                 | Inr st \<Rightarrow>
                     (if st = C_Stopped \<or> st = C_NotFound then Some (s', Inr ())
                      else loop h r cid deadline (ho_sleep h POLLING_INTERVAL s'))))
        else Some (s, Inr ())) = Some res"
      and "h = ho" "r = rt"
    obtain s1 q where st: "rt_container_state rt cid s = (s1, q)" by force
    then have s1: "ids s1 = ids s" using state_ids [of cid s] by simp
    have again: "ids (fst res) = ids s1" if "loop ho rt cid deadline (ho_sleep ho POLLING_INTERVAL s1) = Some res"
      using ih [OF that] by simp
    have "fst res = s \<or> fst res = s1 \<or> loop ho rt cid deadline (ho_sleep ho POLLING_INTERVAL s1) = Some res"
      by (rule poll_round [OF eq [unfolded \<open>h = ho\<close> \<open>r = rt\<close>] st])
    then show "ids (fst res) = ids s" using s1 again by (elim disjE) simp_all
  qed
  then show ?thesis using assms by simp
qed

lemma poll_stopped_ids [simp]: "ids (fst (poll_stopped ho rt cid deadline s)) = ids s"
  using poll_loop_ids [of cid deadline s] by (auto simp: poll_stopped_def split: option.split)

subsection \<open>The pause container\<close>

text \<open>
  Once the runtime has created the pause container, its id stays taken whatever happens next; and while it is taken, no
  start of the pause succeeds.
\<close>

lemma start_pause_cases:
  assumes "start_pause ho rt sb s = (s', r)"
  shows "(ids s' = ids s \<and> (\<exists>e. r = Inl e)) \<or> (sb_pause_id sb \<notin> ids s \<and> ids s' = insert (sb_pause_id sb) (ids s))"
proof -
  let ?dir = "bundle_dir_for sb (ct_name pause_container_spec)"
  obtain s1 r1 where w: "write_bundle ho pause_container_spec ?dir (sb_rootfs_base sb) None s = (s1, r1)" by force
  have i1: "ids s1 = ids s" using write_bundle_ids [of pause_container_spec ?dir "sb_rootfs_base sb" None s] by (simp add: w)
  obtain s2 r2 where c: "rt_create_container rt (sb_pause_id sb) ?dir s1 = (s2, r2)" by force
  have i2: "ids s2 = (case r2 of Inl _ \<Rightarrow> ids s1 | Inr _ \<Rightarrow> insert (sb_pause_id sb) (ids s1))"
    using create_result [of "sb_pause_id sb" ?dir s1] by (simp add: c)
  have free: "sb_pause_id sb \<notin> ids s1" if "r2 = Inr x" for x using create_taken [of "sb_pause_id sb" s1 ?dir] c that by auto
  obtain s3 r3 where st: "rt_start_container rt (sb_pause_id sb) s2 = (s3, r3)" by force
  obtain s4 r4 where pd: "rt_container_pid rt (sb_pause_id sb) s3 = (s4, r4)" by force
  have i3: "ids s3 = ids s2" "ids s4 = ids s3" using start_ids [of "sb_pause_id sb" s2] pid_ids [of "sb_pause_id sb" s3] by (simp_all add: st pd)
  show ?thesis
  proof (cases r1)
    case Inl
    then show ?thesis using assms i1 by (auto simp: start_pause_def attempt_def ctx_def w)
  next
    case r1: (Inr x)
    show ?thesis
    proof (cases r2)
      case Inl
      then show ?thesis using assms i1 i2 r1 by (auto simp: start_pause_def attempt_def ctx_def w c)
    next
      case (Inr y)
      then show ?thesis using assms i1 i2 i3 free r1
        by (cases r3; cases r4) (auto simp: start_pause_def attempt_def ctx_def w c st pd split: option.splits)
    qed
  qed
qed

lemma setup_network_ids [simp]: "ids (fst (setup_pod_network ho pid name ip s)) = ids s" "ids (fst (loopback_only ho pid s)) = ids s"
  by (simp_all add: setup_pod_network_def loopback_only_def Let_def del: run_all.simps)

lemma sandbox_create_cases:
  assumes "sandbox_create ho rt pod_ip sb s = (s', sb', r)"
  shows "(ids s' = ids s \<and> (\<exists>e. r = Inl e)) \<or> (sb_pause_id sb \<notin> ids s \<and> ids s' = insert (sb_pause_id sb) (ids s))"
proof -
  obtain s1 r1 where sp: "start_pause ho rt sb s = (s1, r1)" by force
  note c = start_pause_cases [OF sp]
  show ?thesis
  proof (cases r1)
    case Inl
    then show ?thesis using assms c by (auto simp: sandbox_create_def sp)
  next
    case (Inr pid)
    let ?net = "case pod_ip of Some ip \<Rightarrow> ctx ''configure pod network'' (\<lambda>e. e) (setup_pod_network ho pid (sb_pod_name sb) ip)
      | None \<Rightarrow> ctx ''configure loopback'' (\<lambda>e. e) (loopback_only ho pid)"
    have "ids (fst (?net s1)) = ids s1" by (cases pod_ip) simp_all
    moreover have "s' = fst (?net s1)" using assms Inr by (auto simp: sandbox_create_def sp Let_def split: prod.splits)
    ultimately show ?thesis using c Inr by auto
  qed
qed

corollary create_with_taken_pause:
  assumes "sb_pause_id sb \<in> ids s"
  shows "\<exists>s' sb' e. sandbox_create ho rt pod_ip sb s = (s', sb', Inl e) \<and> ids s' = ids s"
proof -
  obtain s' sb' r where r: "sandbox_create ho rt pod_ip sb s = (s', sb', r)" by (metis prod_cases3)
  from sandbox_create_cases [OF this] assms show ?thesis using r by auto
qed

end

subsection \<open>What the operations keep of a sandbox\<close>

lemma sandbox_create_fields:
  assumes "sandbox_create ho rt pod_ip sb s = (s', sb', Inr x)"
  shows "\<exists>pid. sb' = sb\<lparr>sb_pause_pid := Some pid, sb_pod_ip := pod_ip\<rparr>"
  using assms by (auto simp: sandbox_create_def Let_def split: prod.splits sum.splits)

lemma add_container_fields:
  "\<exists>apps. fst (snd (add_container ho rt ct sb s)) = sb\<lparr>sb_app_containers := apps\<rparr>"
  by (auto simp: add_container_def split: prod.splits sum.splits option.splits intro: exI [of _ "sb_app_containers sb"])

lemma remove_container_fields:
  "\<exists>apps. fst (snd (remove_container ho rt name sb s)) = sb\<lparr>sb_app_containers := apps\<rparr>"
  by (auto simp: remove_container_def force_remove_def Let_def split: prod.splits sum.splits intro: exI [of _ "sb_app_containers sb"])

end
