(* ===== verification/Kubelet_Laws.thy ===== *)
theory Kubelet_Laws
  imports Kubelet Sandbox_Laws
begin

text \<open>
  The state of the node agent stays well-formed: every live pod is kept under its own name with a started sandbox, and every
  live pod is one the API server listed. As long as no pod is created that already carries an address, the live pods also have
  addresses of the node's slice that are marked as in use, no two of them the same. The flag \<open>ap\<close> of the lemmas says whether
  this second part is kept track of; without it no assumption is made.
\<close>

subsection \<open>Addresses of live pods\<close>

lemma parse_show_ipv4: "valid_ip ip \<Longrightarrow> parse_ipv4 (show_ipv4 ip) = Some ip"
  by (cases ip) (simp add: show_ipv4_def parse_ipv4_def split_on_append split_on_single show_nat_no_dot parse_octet_show)

lemma parse_digits_bound: "parse_digits b acc s = Some n \<Longrightarrow> acc \<le> b \<Longrightarrow> n \<le> b"
  by (induction s arbitrary: acc) (auto split: option.splits if_splits)

lemma parse_ipv4_valid: "parse_ipv4 s = Some ip \<Longrightarrow> valid_ip ip"
  by (cases ip) (auto simp: parse_ipv4_def parse_octet_def split: list.splits option.splits if_splits dest: parse_digits_bound)

definition holds_host :: "ip_allocator \<Rightarrow> pod_state \<Rightarrow> nat \<Rightarrow> bool" where
  "holds_host al st h \<longleftrightarrow> (\<exists>ip. sb_pod_ip (st_sandbox st) = Some ip \<and> parse_ipv4 ip = Some (make_ip al h))"

definition addresses_apart :: "ip_allocator \<Rightarrow> pod_store \<Rightarrow> bool" where
  "addresses_apart al pods \<longleftrightarrow> alloc_inv al \<and> valid_ip (make_ip al 0) \<and>
     (\<forall>n st. pods n = Some st \<longrightarrow> (\<exists>h \<in> al_allocated al. holds_host al st h)) \<and>
     (\<forall>n n' st st' h. pods n = Some st \<longrightarrow> pods n' = Some st' \<longrightarrow> holds_host al st h \<longrightarrow> holds_host al st' h \<longrightarrow> n = n')"

definition nobody_holds :: "ip_allocator \<Rightarrow> pod_store \<Rightarrow> nat \<Rightarrow> bool" where
  "nobody_holds al pods h \<longleftrightarrow> (\<forall>n st. pods n = Some st \<longrightarrow> \<not> holds_host al st h)"

lemma addresses_apartI:
  assumes "alloc_inv al" and "valid_ip (make_ip al 0)" and "\<And>n st. pods n = Some st \<Longrightarrow> \<exists>h \<in> al_allocated al. holds_host al st h"
    and "\<And>n n' st st' h. pods n = Some st \<Longrightarrow> pods n' = Some st' \<Longrightarrow> holds_host al st h \<Longrightarrow> holds_host al st' h \<Longrightarrow> n = n'"
  shows "addresses_apart al pods"
  unfolding addresses_apart_def by (intro conjI allI impI) (rule assms; assumption)+

lemma addresses_apartD:
  assumes "addresses_apart al pods"
  shows "alloc_inv al" and "valid_ip (make_ip al 0)" and "pods n = Some st \<Longrightarrow> \<exists>h \<in> al_allocated al. holds_host al st h"
    and "pods n = Some st \<Longrightarrow> pods n' = Some st' \<Longrightarrow> holds_host al st h \<Longrightarrow> holds_host al st' h \<Longrightarrow> n = n'"
proof -
  note a = assms [unfolded addresses_apart_def]
  show "alloc_inv al" "valid_ip (make_ip al 0)" using a by simp_all
  show "\<exists>h \<in> al_allocated al. holds_host al st h" if "pods n = Some st" using a that by simp
  show "n = n'" if "pods n = Some st" "pods n' = Some st'" "holds_host al st h" "holds_host al st' h"
    using a that by (elim conjE allE impE) assumption+
qed

lemma make_ip_prefix: "al_prefix al' = al_prefix al \<Longrightarrow> make_ip al' h = make_ip al h"
  by (simp add: make_ip_def)

lemma holds_prefix: "al_prefix al' = al_prefix al \<Longrightarrow> holds_host al' st h = holds_host al st h"
  by (simp add: holds_host_def make_ip_prefix [of al' al])

lemma make_ip_inj: "make_ip al h = make_ip al h' \<longleftrightarrow> h = h'"
  by (simp add: make_ip_def split: prod.splits)

lemma holds_unique: "holds_host al st h \<Longrightarrow> holds_host al st h' \<Longrightarrow> h = h'"
  by (auto simp: holds_host_def make_ip_inj)

lemma make_ip_valid: "valid_ip (make_ip al 0) \<Longrightarrow> h \<in> usable \<Longrightarrow> valid_ip (make_ip al h)"
  by (auto simp: make_ip_def host_defs split: prod.splits)

lemma addresses_apart_grow:
  assumes a: "addresses_apart al pods" and "alloc_inv al'" and p: "al_prefix al' = al_prefix al" and "al_allocated al \<subseteq> al_allocated al'"
  shows "addresses_apart al' pods"
proof (rule addresses_apartI)
  show "\<exists>h \<in> al_allocated al'. holds_host al' st h" if "pods n = Some st" for n st
    using addresses_apartD(3) [OF a that] assms(4) by (auto simp: holds_prefix [OF p])
  show "n = n'" if "pods n = Some st" "pods n' = Some st'" "holds_host al' st h" "holds_host al' st' h" for n n' st st' h
    using addresses_apartD(4) [OF a that(1,2)] that(3,4) by (simp add: holds_prefix [OF p])
qed (use assms(2) addresses_apartD(2) [OF a] in \<open>simp_all add: make_ip_prefix [OF p]\<close>)

lemma free_host_unheld:
  assumes "addresses_apart al pods" and "h \<notin> al_allocated al"
  shows "nobody_holds al pods h"
  unfolding nobody_holds_def using addresses_apartD(3) [OF assms(1)] holds_unique assms(2) by blast

lemma addresses_apart_allocate:
  assumes a: "addresses_apart al pods" and "allocate al = (al', r)"
  shows "addresses_apart al' pods" and "al_prefix al' = al_prefix al"
    and "r = Inr addr \<Longrightarrow> \<exists>h \<in> usable. addr = make_ip al' h \<and> h \<in> al_allocated al' \<and> h \<notin> al_allocated al \<and> nobody_holds al' pods h"
proof -
  have spec: "alloc_inv al'" "al_prefix al' = al_prefix al" and res: "case r of Inr ip \<Rightarrow> \<exists>h \<in> usable - al_allocated al. ip = make_ip al h \<and>
      al_allocated al' = insert h (al_allocated al) | Inl e \<Rightarrow> e = Pool_exhausted \<and> al_allocated al = usable \<and> al_allocated al' = usable"
    using allocate_spec [OF addresses_apartD(1) [OF a]] unfolding assms(2) fst_conv snd_conv by blast+
  have "al_allocated al \<subseteq> al_allocated al'" using res by (cases r) auto
  then show "addresses_apart al' pods" by (rule addresses_apart_grow [OF a spec])
  show "al_prefix al' = al_prefix al" by (rule spec(2))
  assume "r = Inr addr"
  then obtain h where h: "h \<in> usable" "h \<notin> al_allocated al" "addr = make_ip al h" "al_allocated al' = insert h (al_allocated al)"
    using res by auto
  have "nobody_holds al' pods h" using free_host_unheld [OF a h(2)] by (simp add: nobody_holds_def holds_prefix [OF spec(2)])
  with h show "\<exists>h \<in> usable. addr = make_ip al' h \<and> h \<in> al_allocated al' \<and> h \<notin> al_allocated al \<and> nobody_holds al' pods h"
    by (intro bexI [of _ h]) (simp_all add: make_ip_prefix [OF spec(2)])
qed

lemma release_allocated: "al_allocated al - {h} \<subseteq> al_allocated (release al (make_ip al h))"
  by (auto simp: release_def host_in_range_def make_ip_def split: prod.splits)

lemma addresses_apart_release:
  assumes a: "addresses_apart al pods" and "h \<in> usable" and no: "nobody_holds al pods h"
  shows "addresses_apart (release al (make_ip al h)) pods"
proof -
  let ?al = "release al (make_ip al h)"
  have v: "valid_ip (make_ip al h)" using addresses_apartD(2) [OF a] assms(2) by (rule make_ip_valid)
  have spec: "alloc_inv ?al" "al_prefix ?al = al_prefix al" using release_spec [OF addresses_apartD(1) [OF a] v] by simp_all
  show ?thesis
  proof (rule addresses_apartI)
    fix n st assume n: "pods n = Some st"
    then obtain h' where "h' \<in> al_allocated al" "holds_host al st h'" using addresses_apartD(3) [OF a] by blast
    moreover have "h' \<noteq> h" using no n calculation(2) by (auto simp: nobody_holds_def)
    ultimately show "\<exists>h \<in> al_allocated ?al. holds_host ?al st h" using release_allocated [of al h] by (auto simp: holds_prefix [OF spec(2)])
  next
    fix n n' st st' k assume "pods n = Some st" "pods n' = Some st'" "holds_host ?al st k" "holds_host ?al st' k"
    then show "n = n'" using addresses_apartD(4) [OF a] by (simp add: holds_prefix [OF spec(2)])
  qed (use spec addresses_apartD(2) [OF a] in \<open>simp_all add: make_ip_prefix [OF spec(2)]\<close>)
qed

lemma addresses_apart_insert:
  assumes a: "addresses_apart al pods" and h: "holds_host al st h" and "h \<in> al_allocated al" and no: "nobody_holds al pods h"
  shows "addresses_apart al (pods(name \<mapsto> st))"
proof (rule addresses_apartI)
  show "\<exists>h \<in> al_allocated al. holds_host al st' h" if "(pods(name \<mapsto> st)) n = Some st'" for n st'
    using that addresses_apartD(3) [OF a, of n st'] h assms(3) by (auto split: if_splits)
  fix n n' st1 st2 k
  assume n: "(pods(name \<mapsto> st)) n = Some st1" "(pods(name \<mapsto> st)) n' = Some st2" "holds_host al st1 k" "holds_host al st2 k"
  have "k = h" if "st1 = st \<or> st2 = st" using that n(3,4) holds_unique [OF h] by auto
  then show "n = n'" using n no addresses_apartD(4) [OF a, of n st1 n' st2 k] unfolding nobody_holds_def by (auto split: if_splits)
qed (use addresses_apartD(1,2) [OF a] in simp_all)

lemma addresses_apart_remove:
  assumes a: "addresses_apart al pods"
  shows "addresses_apart al (pods(name := None))"
proof (rule addresses_apartI)
  show "\<exists>h \<in> al_allocated al. holds_host al st h" if "(pods(name := None)) n = Some st" for n st
    using that addresses_apartD(3) [OF a, of n st] by (auto split: if_splits)
  show "n = n'" if "(pods(name := None)) n = Some st" "(pods(name := None)) n' = Some st'" "holds_host al st h" "holds_host al st' h"
    for n n' st st' h using that addresses_apartD(4) [OF a, of n st n' st' h] by (auto split: if_splits)
qed (use addresses_apartD(1,2) [OF a] in simp_all)

lemma addresses_apart_same_ip:
  assumes a: "addresses_apart al pods" and "pods name = Some st" and "sb_pod_ip (st_sandbox st') = sb_pod_ip (st_sandbox st)"
  shows "addresses_apart al (pods(name \<mapsto> st'))"
proof -
  have "holds_host al st' = holds_host al st" using assms(3) by (simp add: holds_host_def fun_eq_iff)
  moreover obtain h where h: "h \<in> al_allocated al" "holds_host al st h" using addresses_apartD(3) [OF a assms(2)] by blast
  moreover have "nobody_holds al (pods(name := None)) h"
    unfolding nobody_holds_def using addresses_apartD(4) [OF a assms(2) _ h(2)] by (auto split: if_splits)
  ultimately show ?thesis using addresses_apart_insert [OF addresses_apart_remove [OF a, of name], of st' h name] by simp
qed

subsection \<open>The well-formed agent\<close>

definition sandbox_ok :: "string \<Rightarrow> pod_state \<Rightarrow> bool" where
  "sandbox_ok name st \<longleftrightarrow> om_name (pod_metadata (st_pod st)) = name \<and> sb_pod_name (st_sandbox st) = name \<and>
     sb_pause_id (st_sandbox st) = name @ ''__pause'' \<and> sb_pause_pid (st_sandbox st) \<noteq> None"

definition agent_core :: "bool \<Rightarrow> kubelet \<Rightarrow> bool" where
  "agent_core ap kb \<longleftrightarrow> (\<exists>al. kb_ipam kb = Some al \<and> alloc_inv al \<and> (ap \<longrightarrow> addresses_apart al (kb_store kb))) \<and>
     (\<forall>name st. kb_store kb name = Some st \<longrightarrow> sandbox_ok name st) \<and> finite (dom (kb_store kb))"

definition agent_wf :: "bool \<Rightarrow> kubelet \<Rightarrow> bool" where
  "agent_wf ap kb \<longleftrightarrow> agent_core ap kb \<and> finite (dom (kb_cache kb)) \<and> dom (kb_store kb) \<subseteq> dom (kb_cache kb)"

lemma agent_core_cong: "kb_ipam kb' = kb_ipam kb \<Longrightarrow> kb_store kb' = kb_store kb \<Longrightarrow> agent_core ap kb' = agent_core ap kb"
  by (simp add: agent_core_def)

lemma agent_coreE:
  assumes "agent_core ap kb"
  obtains al where "kb_ipam kb = Some al" and "alloc_inv al" and "ap \<Longrightarrow> addresses_apart al (kb_store kb)"
  using assms by (auto simp: agent_core_def)

lemma release_ip_simps [simp]:
  "kb_store (release_ip ip kb) = kb_store kb" "kb_cache (release_ip ip kb) = kb_cache kb"
  "kb_node_name (release_ip ip kb) = kb_node_name kb" "kb_restart_state (release_ip ip kb) = kb_restart_state kb"
  by (auto simp: release_ip_def split: option.splits)

lemma release_ip_core:
  assumes wf: "agent_core ap kb" and al: "kb_ipam kb = Some al"
    and held: "ap \<Longrightarrow> \<exists>h \<in> usable. parse_ipv4 ip = Some (make_ip al h) \<and> nobody_holds al (kb_store kb) h"
  shows "agent_core ap (release_ip ip kb)"
proof (cases "parse_ipv4 ip")
  case None
  then show ?thesis using wf al by (simp add: release_ip_def)
next
  case (Some addr)
  have inv: "alloc_inv al" and apart: "ap \<Longrightarrow> addresses_apart al (kb_store kb)" using wf al by (simp_all add: agent_core_def)
  have "alloc_inv (release al addr)" using release_spec [OF inv parse_ipv4_valid [OF Some]] by blast
  moreover have "addresses_apart (release al addr) (kb_store kb)" if ap
    using held [OF that] Some addresses_apart_release [OF apart [OF that]] by auto
  ultimately show ?thesis using wf al Some by (simp add: agent_core_def release_ip_def)
qed

lemma add_containers_fields: "\<exists>apps. fst (snd (add_containers ho rt cts sb s)) = sb\<lparr>sb_app_containers := apps\<rparr>"
proof (induction cts arbitrary: sb s)
  case Nil
  show ?case by (intro exI [of _ "sb_app_containers sb"]) simp
next
  case (Cons ct cts)
  obtain s' sb' r where a: "add_container ho rt ct sb s = (s', sb', r)" by (metis prod_cases3)
  obtain apps where "sb' = sb\<lparr>sb_app_containers := apps\<rparr>" using add_container_fields [of ho rt ct sb s] a by auto
  then show ?case using Cons.IH [of sb' s'] a by (cases r) auto
qed

lemma ensure_fresh_ip:
  assumes wf: "agent_core True kb" and "status_ip p = None" and e: "ensure_pod_ip p kb = (kb1, r)"
  shows "\<exists>al. kb1 = kb\<lparr>kb_ipam := Some al\<rparr> \<and> addresses_apart al (kb_store kb) \<and>
    (\<forall>ip. r = Inr ip \<longrightarrow> (\<exists>h \<in> usable. parse_ipv4 ip = Some (make_ip al h) \<and> h \<in> al_allocated al \<and> nobody_holds al (kb_store kb) h))"
proof -
  obtain al0 where al0: "kb_ipam kb = Some al0" "addresses_apart al0 (kb_store kb)" using wf by (auto simp: agent_core_def)
  obtain al q where q: "allocate al0 = (al, q)" by force
  note apart = addresses_apart_allocate [OF al0(2) q]
  have kb1: "kb1 = kb\<lparr>kb_ipam := Some al\<rparr>" and r: "r = (case q of Inl e \<Rightarrow> Inl (Ctx ''allocate pod IP'' (Ip e)) | Inr addr \<Rightarrow> Inr (show_ipv4 addr))"
    using e assms(2) al0(1) q by (auto simp: ensure_pod_ip_def reusable_ip_def split: sum.splits)
  have "\<exists>h \<in> usable. parse_ipv4 ip = Some (make_ip al h) \<and> h \<in> al_allocated al \<and> nobody_holds al (kb_store kb) h" if ip: "r = Inr ip" for ip
  proof -
    obtain addr where a: "q = Inr addr" "ip = show_ipv4 addr" using r ip by (auto split: sum.splits)
    obtain h where h: "h \<in> usable" "addr = make_ip al h" "h \<in> al_allocated al" "nobody_holds al (kb_store kb) h" using apart(3) [OF a(1)] by blast
    have "valid_ip addr" unfolding h(2) using addresses_apartD(2) [OF apart(1)] h(1) by (rule make_ip_valid)
    then show ?thesis using h a(2) parse_show_ipv4 by (intro bexI [of _ h]) simp_all
  qed
  then show ?thesis using kb1 apart(1) by blast
qed

lemma ensure_ip_inv:
  assumes "agent_core ap kb" and e: "ensure_pod_ip p kb = (kb1, r)"
  shows "\<exists>al. kb1 = kb\<lparr>kb_ipam := Some al\<rparr> \<and> alloc_inv al"
proof -
  obtain al where al: "kb_ipam kb = Some al" "alloc_inv al" using assms(1) by (rule agent_coreE)
  show ?thesis
  proof (cases "reusable_ip kb p")
    case None
    then have "kb1 = kb\<lparr>kb_ipam := Some (fst (allocate al))\<rparr>" using e al(1) by (auto simp: ensure_pod_ip_def split: prod.splits sum.splits)
    then show ?thesis using allocate_spec [OF al(2)] by blast
  next
    case (Some x)
    then obtain ip addr where x: "x = (ip, al, addr)" "parse_ipv4 ip = Some addr"
      using al(1) by (auto simp: reusable_ip_def split: option.splits)
    then have "kb1 = kb\<lparr>kb_ipam := Some (fst (reserve al addr))\<rparr>" using e Some by (simp add: ensure_pod_ip_def)
    then show ?thesis using reserve_spec [OF al(2) parse_ipv4_valid [OF x(2)]] by blast
  qed
qed

text \<open>The three outcomes of a creation: nothing but an address was taken, everything was undone, or the pod lives.\<close>

definition live_state :: "kubelet \<Rightarrow> pod \<Rightarrow> string \<Rightarrow> nat \<Rightarrow> string list \<Rightarrow> pod_state" where
  "live_state kb p ip pid apps =
     \<lparr>st_pod = p, st_sandbox = (sandbox_new (om_name (pod_metadata p)) (kb_pods_dir kb) (kb_rootfs_base kb))
        \<lparr>sb_pause_pid := Some pid, sb_pod_ip := Some ip, sb_app_containers := apps\<rparr>\<rparr>"

lemma create_pod_outcome:
  assumes c: "create_pod_on_node env p kb s = (s', kb', r)" and e: "ensure_pod_ip p kb = (kb1, Inr ip)"
  shows "((kb' = kb1 \<or> kb' = release_ip ip kb1) \<and> (\<exists>e. r = Inl e)) \<or>
    (\<exists>pid apps. kb' = kb1\<lparr>kb_store := (kb_store kb1)(om_name (pod_metadata p) \<mapsto> live_state kb1 p ip pid apps)\<rparr> \<and> r = Inr ())"
proof -
  let ?sb0 = "sandbox_new (om_name (pod_metadata p)) (kb_pods_dir kb1) (kb_rootfs_base kb1)"
  obtain s1 sb1 r1 where cr: "sandbox_create (ke_host env) (ke_runtime env) (Some ip) ?sb0 s = (s1, sb1, r1)" by (metis prod_cases3)
  obtain s2 sb2 r2 where ad: "add_containers (ke_host env) (ke_runtime env) (pc_containers (pod_spec p)) sb1 s1 = (s2, sb2, r2)" by (metis prod_cases3)
  obtain s3 sb3 r3 where de: "sandbox_destroy (ke_host env) (ke_runtime env) sb2 s2 = (s3, sb3, r3)" by (metis prod_cases3)
  consider (fail) e' where "r1 = Inl e'" | (undone) e' u where "r1 = Inr u" "r2 = Inl e'" | (good) u v where "r1 = Inr u" "r2 = Inr v"
    by (cases r1; cases r2) auto
  then show ?thesis
  proof cases
    case good
    obtain pid apps where "sb2 = ?sb0\<lparr>sb_pause_pid := Some pid, sb_pod_ip := Some ip, sb_app_containers := apps\<rparr>"
      using sandbox_create_fields [OF cr [unfolded good(1)]] add_containers_fields [of "ke_host env" "ke_runtime env" "pc_containers (pod_spec p)" sb1 s1]
      by (auto simp: ad)
    then show ?thesis using c e cr ad good by (auto simp: create_pod_on_node_def live_insert_def live_state_def)
  qed (use c e cr ad de in \<open>auto simp: create_pod_on_node_def\<close>)
qed

text \<open>
  A pod whose status carries an address lives with that address, from whatever slice it is and whoever else has it: the reservation's
  error is ignored, and reserving does not look whether the address is in use.
\<close>

lemma carried_address_kept:
  assumes "status_ip p = Some ip" and "kb_ipam kb = Some al" and "parse_ipv4 ip = Some addr"
    and c: "create_pod_on_node env p kb s = (s', kb', Inr ())"
  shows "\<exists>st. kb_store kb' = (kb_store kb)(om_name (pod_metadata p) \<mapsto> st) \<and> sb_pod_ip (st_sandbox st) = Some ip"
proof -
  have "ensure_pod_ip p kb = (kb\<lparr>kb_ipam := Some (fst (reserve al addr))\<rparr>, Inr ip)"
    using assms(1-3) by (simp add: ensure_pod_ip_def reusable_ip_def)
  from create_pod_outcome [OF c this] show ?thesis by (auto simp: live_state_def)
qed

lemma create_pod_core:
  assumes wf: "agent_core ap kb" and no: "ap \<Longrightarrow> status_ip p = None" and c: "create_pod_on_node env p kb s = (s', kb', r)"
  shows "agent_core ap kb' \<and> kb_cache kb' = kb_cache kb \<and> kb_node_name kb' = kb_node_name kb \<and>
    dom (kb_store kb) \<subseteq> dom (kb_store kb') \<and> dom (kb_store kb') \<subseteq> insert (om_name (pod_metadata p)) (dom (kb_store kb))"
proof -
  obtain kb1 q where e: "ensure_pod_ip p kb = (kb1, q)" by force
  obtain al where kb1: "kb1 = kb\<lparr>kb_ipam := Some al\<rparr>" and inv: "alloc_inv al" using ensure_ip_inv [OF wf e] by blast
  have fresh: "addresses_apart al (kb_store kb)"
      "q = Inr ip \<Longrightarrow> \<exists>h \<in> usable. parse_ipv4 ip = Some (make_ip al h) \<and> h \<in> al_allocated al \<and> nobody_holds al (kb_store kb) h" if on: ap for ip
  proof -
    obtain al' where al': "kb1 = kb\<lparr>kb_ipam := Some al'\<rparr>" "addresses_apart al' (kb_store kb)"
        "\<forall>ip. q = Inr ip \<longrightarrow> (\<exists>h \<in> usable. parse_ipv4 ip = Some (make_ip al' h) \<and> h \<in> al_allocated al' \<and> nobody_holds al' (kb_store kb) h)"
      using ensure_fresh_ip [OF _ no [OF on] e] wf on by auto
    have "kb_ipam kb1 = Some al" by (simp add: kb1)
    then have "al' = al" by (simp add: al'(1))
    then show "addresses_apart al (kb_store kb)"
        "q = Inr ip \<Longrightarrow> \<exists>h \<in> usable. parse_ipv4 ip = Some (make_ip al h) \<and> h \<in> al_allocated al \<and> nobody_holds al (kb_store kb) h" for ip
      using al'(2,3) by blast+
  qed
  have wf1: "agent_core ap kb1" using wf inv fresh(1) by (auto simp: agent_core_def kb1)
  show ?thesis
  proof (cases q)
    case (Inl e')
    then show ?thesis using c e wf1 by (auto simp: create_pod_on_node_def kb1)
  next
    case (Inr ip)
    have rel: "agent_core ap (release_ip ip kb1)" using release_ip_core [OF wf1, of al ip] fresh(2) Inr by (auto simp: kb1)
    consider (failed) "kb' = kb1 \<or> kb' = release_ip ip kb1"
      | (alive) pid apps where "kb' = kb1\<lparr>kb_store := (kb_store kb1)(om_name (pod_metadata p) \<mapsto> live_state kb1 p ip pid apps)\<rparr>"
      using create_pod_outcome [OF c] e Inr by blast
    then show ?thesis
    proof cases
      case failed
      then show ?thesis using wf1 rel by (auto simp: kb1)
    next
      case alive
      have "addresses_apart al ((kb_store kb)(om_name (pod_metadata p) \<mapsto> live_state kb1 p ip pid apps))" if ap
        using addresses_apart_insert [OF fresh(1) [OF that]] fresh(2) [OF that Inr] by (auto simp: live_state_def holds_host_def)
      then show ?thesis using wf inv by (auto simp: agent_core_def alive kb1 sandbox_ok_def live_state_def sandbox_new_def)
    qed
  qed
qed

lemma destroy_succeeds: "\<exists>s' sb'. sandbox_destroy ho rt sb s = (s', sb', Inr ())"
  by (auto simp: sandbox_destroy_def split: prod.splits)

lemma remove_pod_core:
  assumes wf: "agent_core ap kb" and c: "remove_pod env name kb s = (s', kb', r)"
  shows "agent_core ap kb' \<and> kb_store kb' = (kb_store kb)(name := None) \<and> kb_cache kb' = kb_cache kb \<and> kb_node_name kb' = kb_node_name kb"
proof (cases "kb_store kb name")
  case None
  then have "(kb_store kb)(name := None) = kb_store kb" by auto
  then show ?thesis using c wf None by (auto simp: remove_pod_def live_remove_def)
next
  case (Some st)
  obtain al where al: "kb_ipam kb = Some al" "alloc_inv al" "ap \<Longrightarrow> addresses_apart al (kb_store kb)" using wf by (rule agent_coreE) blast
  define kb1 where "kb1 = kb\<lparr>kb_store := (kb_store kb)(name := None), kb_restart_state := kb_restart_state kb |`
      (- (\<lambda>ct. container_key name (ct_name ct)) ` set (pc_containers (pod_spec (st_pod st)))),
      kb_last_pushed_status := (kb_last_pushed_status kb)(name := None)\<rparr>"
  have kb': "kb' = (case sb_pod_ip (st_sandbox st) of Some ip \<Rightarrow> release_ip ip kb1 | None \<Rightarrow> kb1)"
    using c Some destroy_succeeds [of "ke_host env" "ke_runtime env" "st_sandbox st" s]
    by (cases "sb_pod_ip (st_sandbox st)") (auto simp: remove_pod_def live_remove_def Let_def kb1_def)
  have wf1: "agent_core ap kb1" using wf al addresses_apart_remove by (auto simp: agent_core_def kb1_def split: if_splits)
  have "\<exists>h \<in> usable. parse_ipv4 ip = Some (make_ip al h) \<and> nobody_holds al ((kb_store kb)(name := None)) h"
    if ap "sb_pod_ip (st_sandbox st) = Some ip" for ip
  proof -
    note apart = al(3) [OF that(1)]
    obtain h where h: "h \<in> al_allocated al" "holds_host al st h" using addresses_apartD(3) [OF apart Some] by blast
    have "nobody_holds al ((kb_store kb)(name := None)) h"
      unfolding nobody_holds_def using addresses_apartD(4) [OF apart Some _ h(2)] by (auto split: if_splits)
    moreover have "h \<in> usable" using h(1) al(2) by (auto simp: alloc_inv_def)
    ultimately show ?thesis using h(2) that(2) by (auto simp: holds_host_def)
  qed
  then have "agent_core ap (release_ip ip kb1)" if "sb_pod_ip (st_sandbox st) = Some ip" for ip
    using release_ip_core [OF wf1, of al ip] al(1) that by (simp add: kb1_def)
  then show ?thesis unfolding kb' using wf1 by (auto simp: kb1_def split: option.split)
qed

lemma restart_container_fields: "\<exists>apps. fst (snd (restart_container env ct sb s)) = sb\<lparr>sb_app_containers := apps\<rparr>"
proof -
  obtain s1 sb1 r1 where rm: "remove_container (ke_host env) (ke_runtime env) (ct_name ct) sb s = (s1, sb1, r1)" by (metis prod_cases3)
  obtain s2 sb2 r2 where ad: "add_container (ke_host env) (ke_runtime env) ct sb1 s1 = (s2, sb2, r2)" by (metis prod_cases3)
  have "\<exists>apps. sb2 = sb\<lparr>sb_app_containers := apps\<rparr>"
    using remove_container_fields [of "ke_host env" "ke_runtime env" "ct_name ct" sb s] add_container_fields [of "ke_host env" "ke_runtime env" ct sb1 s1]
    by (auto simp: rm ad)
  then show ?thesis by (auto simp: restart_container_def rm ad split: sum.splits)
qed

lemma liveness_turn_fields: "\<exists>apps. fst (snd (liveness_turn env name ct sb rs s)) = sb\<lparr>sb_app_containers := apps\<rparr>"
proof -
  obtain s1 q where st: "rt_container_state (ke_runtime env) (container_key name (ct_name ct)) s = (s1, q)" by force
  obtain s2 sb2 r where re: "restart_container env ct sb s1 = (s2, sb2, r)" by (metis prod_cases3)
  have same: "\<exists>apps. sb = sb\<lparr>sb_app_containers := apps\<rparr>" by (intro exI [of _ "sb_app_containers sb"]) simp
  show ?thesis using restart_container_fields [of env ct sb s1] same
    by (simp add: liveness_turn_def Let_def st re split: sum.splits container_state.splits)
qed

lemma liveness_loop_fields: "\<exists>apps. fst (snd (liveness_loop env name cts sb rs s)) = sb\<lparr>sb_app_containers := apps\<rparr>"
proof (induction cts arbitrary: sb rs s)
  case Nil
  show ?case by (intro exI [of _ "sb_app_containers sb"]) simp
next
  case (Cons ct cts)
  obtain s' sb' rs' r where t: "liveness_turn env name ct sb rs s = (s', sb', rs', r)" by (metis prod_cases4)
  obtain apps where "sb' = sb\<lparr>sb_app_containers := apps\<rparr>" using liveness_turn_fields [of env name ct sb rs s] t by auto
  then show ?case using Cons.IH [of sb' rs' s'] t by (cases r) auto
qed

text \<open>What changes neither the set of live pods nor the cache nor the node's name.\<close>

definition same_shape :: "kubelet \<Rightarrow> kubelet \<Rightarrow> bool" where
  "same_shape kb kb' \<longleftrightarrow> dom (kb_store kb') = dom (kb_store kb) \<and> kb_cache kb' = kb_cache kb \<and> kb_node_name kb' = kb_node_name kb"

lemma reconcile_liveness_core:
  assumes wf: "agent_core ap kb" and c: "reconcile_liveness env name p kb s = (s', kb', r)"
  shows "agent_core ap kb' \<and> same_shape kb kb'"
proof (cases "kb_store kb name")
  case None
  then show ?thesis using wf c by (auto simp: reconcile_liveness_def live_get_def same_shape_def)
next
  case (Some st)
  obtain s1 sb1 rs1 r1 where l: "liveness_loop env name (pc_containers (pod_spec p)) (st_sandbox st) (kb_restart_state kb) s = (s1, sb1, rs1, r1)"
    by (metis prod_cases4)
  obtain apps where sb1: "sb1 = (st_sandbox st)\<lparr>sb_app_containers := apps\<rparr>"
    using liveness_loop_fields [of env name "pc_containers (pod_spec p)" "st_sandbox st" "kb_restart_state kb" s] by (auto simp: l)
  have kb': "kb' = kb\<lparr>kb_store := (kb_store kb)(name \<mapsto> st\<lparr>st_sandbox := sb1\<rparr>), kb_restart_state := rs1\<rparr>"
    using c by (simp add: reconcile_liveness_def live_get_def Some l)
  obtain al where al: "kb_ipam kb = Some al" "alloc_inv al" "ap \<Longrightarrow> addresses_apart al (kb_store kb)" using wf by (rule agent_coreE) blast
  have "addresses_apart al ((kb_store kb)(name \<mapsto> st\<lparr>st_sandbox := sb1\<rparr>))" if ap
    by (rule addresses_apart_same_ip [OF al(3) [OF that] Some]) (simp add: sb1)
  moreover have "sandbox_ok name (st\<lparr>st_sandbox := sb1\<rparr>)" using wf Some by (auto simp: agent_core_def sandbox_ok_def sb1)
  ultimately show ?thesis using wf al Some by (auto simp: agent_core_def kb' same_shape_def)
qed

lemma same_shape_trans: "same_shape kb kb1 \<Longrightarrow> same_shape kb1 kb2 \<Longrightarrow> same_shape kb kb2"
  by (simp add: same_shape_def)

lemma same_shape_wf: "agent_wf ap kb \<Longrightarrow> agent_core ap kb' \<Longrightarrow> same_shape kb kb' \<Longrightarrow> agent_wf ap kb'"
  by (simp add: agent_wf_def same_shape_def)

subsection \<open>Turns of the loop\<close>

lemma tick_pods_core:
  "agent_core ap kb \<Longrightarrow> tick_pods env names dirty kb s = (s', kb', dirty') \<Longrightarrow> agent_core ap kb' \<and> same_shape kb kb'"
proof (induction names arbitrary: dirty kb s)
  case Nil
  then show ?case by (simp add: same_shape_def)
next
  case (Cons name names)
  show ?case
  proof (cases "kb_cache kb name")
    case None
    then show ?thesis using Cons.IH [OF Cons.prems(1)] Cons.prems(2) by simp
  next
    case (Some p)
    obtain s1 kb1 r where l: "reconcile_liveness env name p kb s = (s1, kb1, r)" by (metis prod_cases3)
    obtain s2 status where c: "compute_pod_status env p kb1 s1 = (s2, status)" by force
    note k = reconcile_liveness_core [OF Cons.prems(1) l]
    have "agent_core ap kb' \<and> same_shape kb1 kb'"
      using Cons.IH [of kb1] k Cons.prems(2) by (simp add: Some l c)
    then show ?thesis using k same_shape_trans by blast
  qed
qed

lemma agent_wf_cached:
  "agent_wf ap kb \<Longrightarrow> kb_ipam kb' = kb_ipam kb \<Longrightarrow> kb_store kb' = kb_store kb \<Longrightarrow> kb_cache kb' = (kb_cache kb)(n \<mapsto> p) \<Longrightarrow> agent_wf ap kb'"
  by (simp add: agent_wf_def agent_core_def) blast

lemma push_status_core:
  "agent_wf ap kb \<Longrightarrow> push_status env name status kb s = (s', kb', r) \<Longrightarrow> agent_wf ap kb' \<and> kb_node_name kb' = kb_node_name kb"
  unfolding push_status_def Let_def
  by (auto intro: agent_wf_cached [of _ kb] split: prod.splits sum.splits option.splits client_error.splits)

lemma push_all_wf: "agent_wf ap kb \<Longrightarrow> push_all env dirty kb s = (s', kb') \<Longrightarrow> agent_wf ap kb' \<and> kb_node_name kb' = kb_node_name kb"
proof (induction dirty arbitrary: kb s)
  case (Cons d dirty)
  obtain name status where d: "d = (name, status)" by force
  obtain s1 kb1 r where p: "push_status env name status kb s = (s1, kb1, r)" by (metis prod_cases3)
  show ?case using Cons.IH [of kb1 s1] push_status_core [OF Cons.prems(1) p] Cons.prems(2) by (simp add: d p)
qed simp

definition newcomer_ok :: "kubelet \<Rightarrow> pod \<Rightarrow> bool" where
  "newcomer_ok kb p \<longleftrightarrow> om_name (pod_metadata p) \<in> dom (kb_store kb) \<or> status_ip p = None"

lemma watch_event_wf:
  assumes wf: "agent_wf ap kb" and nc: "ap \<Longrightarrow> newcomer_ok kb (we_object ev)" and a: "apply_watch_event env ev kb s = (s', kb')"
  shows "agent_wf ap kb' \<and> kb_node_name kb' = kb_node_name kb"
proof -
  let ?p = "we_object ev"
  let ?name = "om_name (pod_metadata ?p)"
  have core: "agent_core ap (kb\<lparr>kb_cache := c\<rparr>)" for c using wf by (simp add: agent_wf_def agent_core_def)
  consider (gone) "we_type ev = Deleted" | (new) "we_type ev \<noteq> Deleted" "kb_cache kb ?name = None" | (known) "we_type ev \<noteq> Deleted" "kb_cache kb ?name \<noteq> None"
    by blast
  then show ?thesis
  proof cases
    case gone
    obtain s1 kb1 r where c: "remove_pod env ?name (kb\<lparr>kb_cache := (kb_cache kb)(?name := None)\<rparr>) s = (s1, kb1, r)" by (metis prod_cases3)
    show ?thesis using remove_pod_core [OF core c] a wf by (auto simp: apply_watch_event_def gone c agent_wf_def)
  next
    case new
    obtain s1 kb1 r where c: "create_pod_on_node env ?p (kb\<lparr>kb_cache := (kb_cache kb)(?name \<mapsto> ?p)\<rparr>) s = (s1, kb1, r)" by (metis prod_cases3)
    have "?name \<notin> dom (kb_store kb)" using wf new(2) by (auto simp: agent_wf_def)
    then have "ap \<Longrightarrow> status_ip ?p = None" using nc by (auto simp: newcomer_ok_def)
    note k = create_pod_core [OF core this c]
    then have "dom (kb_store kb1) \<subseteq> dom (kb_cache kb1)" using wf by (simp add: agent_wf_def) blast
    then show ?thesis using a wf new k by (auto simp: apply_watch_event_def Let_def c agent_wf_def)
  next
    case known
    then show ?thesis using a agent_wf_cached [OF wf, of "kb\<lparr>kb_cache := (kb_cache kb)(?name \<mapsto> ?p)\<rparr>"] by (auto simp: apply_watch_event_def Let_def)
  qed
qed

lemma create_absent_core:
  assumes "agent_core ap kb" and "create_absent env desired names kb s = (s', kb')"
    and "\<forall>n \<in> set names. \<exists>p. desired n = Some p \<and> om_name (pod_metadata p) = n \<and> (ap \<longrightarrow> newcomer_ok kb p)"
  shows "agent_core ap kb' \<and> kb_cache kb' = kb_cache kb \<and> kb_node_name kb' = kb_node_name kb \<and>
    dom (kb_store kb) \<subseteq> dom (kb_store kb') \<and> dom (kb_store kb') \<subseteq> dom (kb_store kb) \<union> set names"
  using assms
proof (induction names arbitrary: kb s)
  case (Cons n names)
  obtain p where p: "desired n = Some p" "om_name (pod_metadata p) = n" "ap \<Longrightarrow> newcomer_ok kb p" using Cons.prems(3) by auto
  show ?case
  proof (cases "n \<in> dom (kb_store kb)")
    case True
    then have "create_absent env desired names kb s = (s', kb')" using Cons.prems(2) by (auto simp: live_contains_def)
    from Cons.IH [OF Cons.prems(1) this] Cons.prems(3) show ?thesis by auto
  next
    case False
    obtain s1 kb1 r where c: "create_pod_on_node env p kb s = (s1, kb1, r)" by (metis prod_cases3)
    have "ap \<Longrightarrow> status_ip p = None" using p False by (auto simp: newcomer_ok_def)
    note k = create_pod_core [OF Cons.prems(1) this c]
    have "create_absent env desired names kb1 s1 = (s', kb')"
      using Cons.prems(2) False by (auto simp: live_contains_def domIff p(1) c)
    moreover have "\<forall>n \<in> set names. \<exists>p. desired n = Some p \<and> om_name (pod_metadata p) = n \<and> (ap \<longrightarrow> newcomer_ok kb1 p)"
      using Cons.prems(3) k unfolding newcomer_ok_def by (metis list.set_intros(2) subsetD)
    ultimately have ih: "agent_core ap kb' \<and> kb_cache kb' = kb_cache kb1 \<and> kb_node_name kb' = kb_node_name kb1 \<and>
        dom (kb_store kb1) \<subseteq> dom (kb_store kb') \<and> dom (kb_store kb') \<subseteq> dom (kb_store kb1) \<union> set names"
      using Cons.IH [of kb1 s1] k by blast
    then show ?thesis using k unfolding p(2) by (simp only: list.set) blast
  qed
qed simp

lemma remove_pods_core:
  "agent_core ap kb \<Longrightarrow> remove_pods env names kb s = (s', kb') \<Longrightarrow>
     agent_core ap kb' \<and> dom (kb_store kb') = dom (kb_store kb) - set names \<and> kb_cache kb' = kb_cache kb \<and> kb_node_name kb' = kb_node_name kb"
proof (induction names arbitrary: kb s)
  case (Cons n names)
  obtain s1 kb1 r where c: "remove_pod env n kb s = (s1, kb1, r)" by (metis prod_cases3)
  note k = remove_pod_core [OF Cons.prems(1) c]
  then have d: "dom (kb_store kb1) = dom (kb_store kb) - {n}" by simp
  have "remove_pods env names kb1 s1 = (s', kb')" using Cons.prems(2) by (simp add: c)
  note ih = Cons.IH [OF conjunct1 [OF k] this]
  then have "dom (kb_store kb') = dom (kb_store kb) - set (n # names)" unfolding d list.set by (metis Diff_insert2)
  then show ?case using ih k by (simp only:)
qed simp

lemma reconcile_pods_core:
  "agent_core ap kb \<Longrightarrow> reconcile_pods env desired names kb s = (s', kb') \<Longrightarrow> agent_core ap kb' \<and> same_shape kb kb'"
proof (induction names arbitrary: kb s)
  case (Cons n names)
  obtain s1 kb1 r where c: "reconcile_liveness env n (the (desired n)) kb s = (s1, kb1, r)" by (metis prod_cases3)
  note k = reconcile_liveness_core [OF Cons.prems(1) c]
  show ?case using Cons.IH [of kb1 s1] Cons.prems(2) k same_shape_trans by (auto simp: c)
qed (simp add: same_shape_def)

definition order_ok :: "'s kubelet_env \<Rightarrow> bool" where
  "order_ok env \<longleftrightarrow> (\<forall>s S. finite S \<longrightarrow> set (ke_order env s S) = S \<and> distinct (ke_order env s S))"

definition keyed :: "(string \<rightharpoonup> pod) \<Rightarrow> bool" where
  "keyed m \<longleftrightarrow> (\<forall>n p. m n = Some p \<longrightarrow> om_name (pod_metadata p) = n)"

text \<open>After a diff every live pod is a desired one; the creations of absent pods may have failed.\<close>

lemma apply_diff_wf:
  assumes wf: "agent_core ap kb" and env: "order_ok env" and d: "keyed desired" "finite (dom desired)" "kb_cache kb = desired"
    and new: "ap \<Longrightarrow> \<forall>p \<in> ran desired. newcomer_ok kb p" and a: "apply_diff env desired kb s = (s', kb')"
  shows "agent_wf ap kb' \<and> kb_node_name kb' = kb_node_name kb \<and> kb_cache kb' = desired"
proof -
  obtain s1 kb1 where c1: "create_absent env desired (ke_order env s (dom desired)) kb s = (s1, kb1)" by force
  obtain s2 kb2 where c2: "remove_pods env (filter (\<lambda>name. desired name = None) (live_names (ke_order env s1) (kb_store kb1))) kb1 s1 = (s2, kb2)" by force
  obtain s3 kb3 where c3: "reconcile_pods env desired (ke_order env s2 (dom desired)) kb2 s2 = (s3, kb3)" by force
  have kb': "kb' = kb3" using a by (simp add: apply_diff_def c1 c2 c3)
  have ord: "set (ke_order env s (dom desired)) = dom desired" using env d(2) by (simp add: order_ok_def)
  have "\<exists>p. desired n = Some p \<and> om_name (pod_metadata p) = n \<and> (ap \<longrightarrow> newcomer_ok kb p)" if "n \<in> dom desired" for n
    using that d(1) new by (auto simp: keyed_def ran_def)
  then have k1: "agent_core ap kb1 \<and> kb_cache kb1 = kb_cache kb \<and> kb_node_name kb1 = kb_node_name kb"
    using create_absent_core [OF wf c1] ord by simp
  then have "finite (dom (kb_store kb1))" by (simp add: agent_core_def)
  then have "set (filter (\<lambda>name. desired name = None) (live_names (ke_order env s1) (kb_store kb1))) = dom (kb_store kb1) - dom desired"
    using env by (auto simp: live_names_def order_ok_def)
  then have k2: "agent_core ap kb2 \<and> dom (kb_store kb2) \<subseteq> dom desired \<and> kb_cache kb2 = kb_cache kb \<and> kb_node_name kb2 = kb_node_name kb"
    using remove_pods_core [OF conjunct1 [OF k1] c2] k1 by auto
  then have "agent_core ap kb3 \<and> same_shape kb2 kb3" using reconcile_pods_core [OF _ c3] by blast
  then show ?thesis using k2 d by (simp add: agent_wf_def same_shape_def kb')
qed

lemma by_name_keyed: "keyed (by_name pods)" "finite (dom (by_name pods))" "ran (by_name pods) \<subseteq> set pods"
proof -
  have "keyed (fold (\<lambda>p m. m(om_name (pod_metadata p) \<mapsto> p)) pods m) \<and> finite (dom (fold (\<lambda>p m. m(om_name (pod_metadata p) \<mapsto> p)) pods m)) \<and>
      ran (fold (\<lambda>p m. m(om_name (pod_metadata p) \<mapsto> p)) pods m) \<subseteq> ran m \<union> set pods" if "keyed m" "finite (dom m)" for m
    using that
  proof (induction pods arbitrary: m)
    case (Cons p pods)
    have "keyed (m(om_name (pod_metadata p) \<mapsto> p))" "finite (dom (m(om_name (pod_metadata p) \<mapsto> p)))" using Cons.prems by (auto simp: keyed_def)
    from Cons.IH [OF this] show ?case by (auto simp: ran_def split: if_splits)
  qed simp
  from this [of Map.empty] show "keyed (by_name pods)" "finite (dom (by_name pods))" "ran (by_name pods) \<subseteq> set pods"
    by (auto simp: by_name_def keyed_def)
qed

text \<open>A turn is admissible when the pods it may have to create carry no address yet.\<close>

definition admissible :: "'s kubelet_env \<Rightarrow> kubelet_event \<Rightarrow> kubelet \<Rightarrow> 's \<Rightarrow> bool" where
  "admissible env ev kb s =
     (case ev of
        Watch_item (Inr e) \<Rightarrow> newcomer_ok kb (we_object e)
      | Resync_tick \<Rightarrow> (case ke_list_on_node env (kb_node_name kb) s of (_, Inr pods) \<Rightarrow> list_all (newcomer_ok kb) pods | _ \<Rightarrow> True)
      | _ \<Rightarrow> True)"

lemma resync_wf:
  assumes wf: "agent_wf ap kb" and env: "order_ok env" and ad: "ap \<Longrightarrow> admissible env Resync_tick kb s" and r: "resync env kb s = (s', kb', r)"
  shows "agent_wf ap kb' \<and> kb_node_name kb' = kb_node_name kb"
proof -
  obtain s1 q where l: "ke_list_on_node env (kb_node_name kb) s = (s1, q)" by force
  show ?thesis
  proof (cases q)
    case Inl
    then show ?thesis using r l wf by (auto simp: resync_def)
  next
    case (Inr pods)
    obtain s2 kb2 where a: "apply_diff env (by_name pods) (kb\<lparr>kb_cache := by_name pods\<rparr>) s1 = (s2, kb2)" by force
    have "ap \<Longrightarrow> \<forall>p \<in> ran (by_name pods). newcomer_ok (kb\<lparr>kb_cache := by_name pods\<rparr>) p"
      using ad by_name_keyed(3) [of pods] by (auto simp: admissible_def l Inr list_all_iff newcomer_ok_def)
    moreover have "agent_core ap (kb\<lparr>kb_cache := by_name pods\<rparr>)" using wf by (simp add: agent_wf_def agent_core_def)
    ultimately have "agent_wf ap kb2 \<and> kb_node_name kb2 = kb_node_name kb"
      using apply_diff_wf [OF _ env by_name_keyed(1,2) _ _ a] by simp
    then show ?thesis using r by (simp add: resync_def l Inr a)
  qed
qed

lemma kubelet_turn_wf:
  assumes wf: "agent_wf ap kb" and env: "order_ok env" and ad: "ap \<Longrightarrow> admissible env ev kb s" and t: "kubelet_turn env ev kb s = (s', kb')"
  shows "agent_wf ap kb'"
proof (cases ev)
  case (Watch_item x)
  show ?thesis
  proof (cases x)
    case (Inr e)
    then show ?thesis using watch_event_wf [OF wf, of e env s s' kb'] t ad by (simp add: kubelet_turn_def admissible_def Watch_item)
  qed (use wf t Watch_item in \<open>simp add: kubelet_turn_def\<close>)
next
  case Resync_tick
  obtain s1 kb1 r where "resync env kb s = (s1, kb1, r)" by (metis prod_cases3)
  then show ?thesis using resync_wf [OF wf env ad [unfolded Resync_tick]] t by (simp add: kubelet_turn_def Resync_tick)
next
  case Liveness_tick
  obtain s1 kb1 dirty where tk: "tick_pods env (ke_order env s (dom (kb_cache kb))) [] kb s = (s1, kb1, dirty)" by (metis prod_cases3)
  have "agent_core ap kb1 \<and> same_shape kb kb1" using tick_pods_core [OF _ tk, of ap] wf by (simp add: agent_wf_def)
  then have "agent_wf ap kb1" using same_shape_wf [OF wf] by blast
  moreover have "push_all env dirty kb1 (debug_dump env kb1 s1) = (s', kb')"
    using t by (simp add: kubelet_turn_def Liveness_tick tick_liveness_def tk)
  ultimately show ?thesis using push_all_wf [of _ kb1 env dirty] by simp
qed (use wf t in \<open>simp add: kubelet_turn_def\<close>)

fun admissible_run :: "'s kubelet_env \<Rightarrow> poll_state list \<Rightarrow> kubelet \<Rightarrow> 's \<Rightarrow> bool" where
  "admissible_run env [] kb s = True"
| "admissible_run env (po # pos) kb s =
     (case select_arm po of
        Arm_cancel \<Rightarrow> True
      | Arm_event ev \<Rightarrow> admissible env ev kb s \<and> (case kubelet_turn env ev kb s of (s', kb') \<Rightarrow> admissible_run env pos kb' s')
      | Arm_wait \<Rightarrow> admissible_run env pos kb s)"

lemma kubelet_loop_wf:
  "agent_wf ap kb \<Longrightarrow> order_ok env \<Longrightarrow> (ap \<Longrightarrow> admissible_run env pos kb s) \<Longrightarrow> agent_wf ap (snd (kubelet_loop env pos kb s))"
proof (induction pos arbitrary: kb s)
  case (Cons po pos)
  show ?case
  proof (cases "select_arm po")
    case (Arm_event ev)
    obtain s1 kb1 where t: "kubelet_turn env ev kb s = (s1, kb1)" by force
    show ?thesis using Cons.IH [of kb1 s1] kubelet_turn_wf [OF Cons.prems(1,2) _ t] Cons.prems(2,3) by (simp add: t Arm_event)
  qed (use Cons in simp_all)
qed simp

text \<open>
  A closed watch stream is ready at every poll, and its arm comes before the timers: until the cancellation no resync and no
  liveness turn runs, and the agent's state never changes again.
\<close>

lemma closed_stream_starves:
  "\<forall>po \<in> set pos. po_watch po = Some None \<Longrightarrow> kubelet_loop env pos kb s = (s, kb)"
  by (induction pos) (auto simp: select_arm_def kubelet_turn_def)

subsection \<open>The start on a fresh node\<close>

lemma from_cidr_valid: "from_cidr cidr = Inr al \<Longrightarrow> valid_ip (make_ip al 0) \<and> al_allocated al = {}"
  by (auto simp: from_cidr_def make_ip_def split: option.splits prod.splits if_splits dest!: parse_ipv4_valid)

definition fresh_agent :: "kubelet \<Rightarrow> ip_allocator \<Rightarrow> kubelet" where
  "fresh_agent kb al = kb\<lparr>kb_store := live_new, kb_cache := Map.empty, kb_ipam := Some al\<rparr>"

lemma fresh_agent_wf: "from_cidr cidr = Inr al \<Longrightarrow> agent_wf ap (fresh_agent kb al)"
  using from_cidr_inv [of cidr al] from_cidr_valid [of cidr al]
  by (simp add: agent_wf_def agent_core_def fresh_agent_def addresses_apart_def live_new_def)

lemma reserve_reusable:
  assumes "agent_core ap kb" and "ap \<Longrightarrow> status_ip p = None"
  defines "kb' \<equiv> (case reusable_ip kb p of Some (ip, al, addr) \<Rightarrow> kb\<lparr>kb_ipam := Some (fst (reserve al addr))\<rparr> | None \<Rightarrow> kb)"
  shows "agent_core ap kb' \<and> kb_store kb' = kb_store kb \<and> kb_cache kb' = kb_cache kb"
proof (cases "reusable_ip kb p")
  case None
  then show ?thesis using assms(1) by (simp add: kb'_def)
next
  case (Some x)
  obtain al where al: "kb_ipam kb = Some al" "alloc_inv al" using assms(1) by (rule agent_coreE)
  obtain ip addr where x: "x = (ip, al, addr)" "parse_ipv4 ip = Some addr" "status_ip p \<noteq> None"
    using Some al(1) by (auto simp: reusable_ip_def split: option.splits)
  have "alloc_inv (fst (reserve al addr))" using reserve_spec [OF al(2) parse_ipv4_valid [OF x(2)]] by blast
  moreover have "\<not> ap" using assms(2) x(3) by blast
  ultimately show ?thesis using assms(1) Some x(1) by (simp add: kb'_def agent_core_def)
qed

lemma startup_pods_wf:
  assumes "agent_wf ap kb"
    and "ap \<Longrightarrow> \<forall>p \<in> set pods. status_ip p = None \<and> pause_pid_of (om_name (pod_metadata p) @ ''__pause'') (by_pod (om_name (pod_metadata p))) = None"
    and "startup_pods env pods by_pod kb s = (s', kb', rest)"
  shows "agent_wf ap kb'"
  using assms
proof (induction pods arbitrary: by_pod kb s)
  case (Cons p pods)
  let ?name = "om_name (pod_metadata p)"
  define kb0 where "kb0 = (case reusable_ip kb p of Some (ip, al, addr) \<Rightarrow> kb\<lparr>kb_ipam := Some (fst (reserve al addr))\<rparr> | None \<Rightarrow> kb)"
  define alive where "alive = (case pause_pid_of (?name @ ''__pause'') (by_pod ?name) of
      Some pause_pid \<Rightarrow> (s, kb0\<lparr>kb_store := live_insert \<lparr>st_pod = p,
        st_sandbox = sandbox_from_recovered ?name pause_pid (app_names_of (?name @ ''__pause'') (the (by_pod ?name)))
          (kb_pods_dir kb0) (kb_rootfs_base kb0) (status_ip p)\<rparr> (kb_store kb0)\<rparr>)
    | None \<Rightarrow> (case create_pod_on_node env p kb0 s of (s', kb', _) \<Rightarrow> (s', kb')))"
  obtain s1 kb1 where al1: "alive = (s1, kb1)" by force
  have go: "startup_pods env pods (by_pod(?name := None)) (kb1\<lparr>kb_cache := (kb_cache kb1)(?name \<mapsto> p)\<rparr>) s1 = (s', kb', rest)"
    using Cons.prems(3) unfolding startup_pods.simps Let_def kb0_def [symmetric] alive_def [symmetric] al1 by simp
  have core0: "agent_core ap kb0" and same0: "kb_store kb0 = kb_store kb" "kb_cache kb0 = kb_cache kb"
    using reserve_reusable [of ap kb p] Cons.prems(1,2) by (auto simp: kb0_def agent_wf_def)
  have k: "agent_core ap kb1 \<and> kb_cache kb1 = kb_cache kb \<and> dom (kb_store kb1) \<subseteq> insert ?name (dom (kb_store kb))"
  proof (cases "pause_pid_of (?name @ ''__pause'') (by_pod ?name)")
    case None
    obtain s2 kb2 r where c: "create_pod_on_node env p kb0 s = (s2, kb2, r)" by (metis prod_cases3)
    then have "kb1 = kb2" using al1 None by (simp add: alive_def)
    moreover have "ap \<Longrightarrow> status_ip p = None" using Cons.prems(2) by simp
    ultimately show ?thesis using create_pod_core [OF core0 _ c] same0 by simp
  next
    case (Some pid)
    then have "\<not> ap" using Cons.prems(2) by auto
    then show ?thesis using al1 Some core0 same0
      by (auto simp: alive_def agent_core_def live_insert_def sandbox_ok_def sandbox_from_recovered_def split: if_splits)
  qed
  have "agent_wf ap (kb1\<lparr>kb_cache := (kb_cache kb1)(?name \<mapsto> p)\<rparr>)"
  proof -
    have "dom (kb_store kb1) \<subseteq> insert ?name (dom (kb_cache kb))" using k Cons.prems(1) by (simp only: agent_wf_def) blast
    then show ?thesis using k Cons.prems(1) by (simp add: agent_wf_def agent_core_def)
  qed
  moreover have "\<forall>q \<in> set pods. status_ip q = None \<and>
      pause_pid_of (om_name (pod_metadata q) @ ''__pause'') ((by_pod(?name := None)) (om_name (pod_metadata q))) = None" if ap
    using Cons.prems(2) [OF that] by (auto simp: pause_pid_of_def)
  ultimately show ?case using Cons.IH go by blast
qed simp

end
