(* ===== verification/Kind_Parts.thy ===== *)
theory Kind_Parts
  imports Api_Paths
begin

text \<open>
  One kind's store inside the whole API: what an operation of \<^verbatim>\<open>src/apiserver/storage.rs\<close> on one of the five
  kinds does to the joint specification, and what the write and read shapes of \<^verbatim>\<open>src/apiserver/handlers.rs\<close> answer on
  a standalone server. The interface is the locale \<open>kind_part\<close>; the five kinds are its interpretations.
\<close>

text \<open>An operation of one kind on the joint specification, with its answer.\<close>

definition spec_op :: "'a part \<Rightarrow> 'a kind \<Rightarrow> 'a store_op \<Rightarrow> api_spec \<Rightarrow> api_spec \<times> (store_error + 'a)" where
  "spec_op pa k p a = (case spec_exec k p (part_spec pa a) of (sp, evs, r) \<Rightarrow> (with_part pa sp a, r))"

text \<open>A list of the objects of a kind, in some order of their names.\<close>

definition enumerates :: "(string \<rightharpoonup> 'a) \<Rightarrow> 'a list \<Rightarrow> bool" where
  "enumerates objs xs \<longleftrightarrow> (\<exists>ns. distinct ns \<and> set ns = dom objs \<and> xs = map (the \<circ> objs) ns)"

fun reply_of :: "(io_error \<Rightarrow> string) \<Rightarrow> nat \<Rightarrow> store_error + 'a \<Rightarrow> ('a, 'j) response result" where
  "reply_of msg c (Inl e) = Fail (from_store_error msg e)"
| "reply_of msg c (Inr x) = Reply (c, Typed x)"

definition disk_holds :: "('s, 'j) env \<Rightarrow> ('s \<Rightarrow> bytes \<rightharpoonup> bytes) \<Rightarrow> ('s, 'j) replica \<Rightarrow> api_spec \<Rightarrow> bool" where
  "disk_holds en view rp a \<longleftrightarrow> all_hold (en_cx en) (view (dk_db (rp_disk rp))) a"

locale kind_part =
  fixes pa :: "'a part" and k :: "'a kind" and js :: "'j codecs \<Rightarrow> ('a, 'j) json"
  assumes kind: "resource_kind k"
    and get_put: "pa_get pa (pa_put pa m b) = m"
    and get_rv: "pa_get pa (b\<lparr>ap_rv := n\<rparr>) = pa_get pa b"
    and part_codec: "codecs_ok cx \<Longrightarrow> json_laws (js cx)"
    and part_holds: "all_hold cx v a \<Longrightarrow> kind_holds (js cx) k v (pa_get pa a)"
    and part_frame: "all_hold cx v a \<Longrightarrow> same_outside k v v' \<Longrightarrow> rv_holds v' n \<Longrightarrow> kind_holds (js cx) k v' m \<Longrightarrow>
      all_hold cx v' ((pa_put pa m a)\<lparr>ap_rv := n\<rparr>)"
begin

lemma part_spec_holds: "all_hold cx v a \<Longrightarrow> holds (js cx) k v (part_spec pa a)"
  by (simp add: holds_def part_spec_def part_holds) (simp add: all_hold_def)

lemma exec_refines:
  assumes "sled_laws sl view" and "codecs_ok cx" and "all_hold cx (view (dk_db dk)) a"
  shows "\<exists>dk' evs. store_exec sl (js cx) k p dk = (dk', evs, snd (spec_op pa k p a)) \<and>
    all_hold cx (view (dk_db dk')) (fst (spec_op pa k p a))"
proof -
  obtain sp evs r where e: "spec_exec k p (part_spec pa a) = (sp, evs, r)" by (metis surj_pair)
  from resource_kind.store_exec_refines [OF kind assms(1) part_codec [OF assms(2)] part_spec_holds [OF assms(3)], of p] e
  obtain dk' where d: "store_exec sl (js cx) k p dk = (dk', evs, r)" "holds (js cx) k (view (dk_db dk')) sp"
      "same_outside k (view (dk_db dk)) (view (dk_db dk'))" by auto
  then have "all_hold cx (view (dk_db dk')) (with_part pa sp a)"
    using part_frame [OF assms(3) d(3)] by (simp add: with_part_def holds_def)
  with d(1) e show ?thesis by (simp add: spec_op_def)
qed

lemma write_refines:
  assumes "sled_laws (en_sled en) view" and "codecs_ok (en_cx en)" and "disk_holds en view rp a"
    and "\<And>dk. f dk = store_exec (en_sled en) (js (en_cx en)) k p dk"
  shows "\<exists>rp'. h_bind (h_write en ev f) (\<lambda>y. h_ok (c, Typed y)) rp = (rp', reply_of (cx_error_text (en_cx en)) c (snd (spec_op pa k p a))) \<and>
    disk_holds en view rp' (fst (spec_op pa k p a))"
proof -
  obtain dk' evs where "store_exec (en_sled en) (js (en_cx en)) k p (rp_disk rp) = (dk', evs, snd (spec_op pa k p a))"
      "all_hold (en_cx en) (view (dk_db dk')) (fst (spec_op pa k p a))"
    using exec_refines [OF assms(1,2)] assms(3) by (metis disk_holds_def)
  then show ?thesis
    by (cases "snd (spec_op pa k p a)") (simp_all add: h_bind_def h_write_def h_ok_def assms(4) disk_holds_def)
qed

text \<open>The write shapes on a standalone server.\<close>

lemma direct_writes:
  assumes "sled_laws (en_sled en) view" and "codecs_ok (en_cx en)" and "disk_holds en view rp a" and "en_write en = Direct"
  shows direct_create: "\<exists>rp'. create_write en (js (en_cx en)) k ev x rp = (rp', reply_of (cx_error_text (en_cx en)) 201
        (snd (spec_op pa k (Create_op (stamp_for_create k (en_uuid en) (en_now en) x)) a))) \<and>
      disk_holds en view rp' (fst (spec_op pa k (Create_op (stamp_for_create k (en_uuid en) (en_now en) x)) a))"
    and direct_replace: "\<exists>rp'. replace_write en (js (en_cx en)) k ev name x rp = (rp', reply_of (cx_error_text (en_cx en)) 200
        (snd (spec_op pa k (ReplaceSpec_op name x) a))) \<and> disk_holds en view rp' (fst (spec_op pa k (ReplaceSpec_op name x) a))"
    and direct_delete: "\<exists>rp'. delete_write en (js (en_cx en)) k ev name (Some rv) rp = (rp', reply_of (cx_error_text (en_cx en)) 200
        (snd (spec_op pa k (Delete_op name rv) a))) \<and> disk_holds en view rp' (fst (spec_op pa k (Delete_op name rv) a))"
    and direct_status: "\<exists>rp'. status_write en (js (en_cx en)) k ev js_st set_st name (Some rv) st rp = (rp', reply_of (cx_error_text (en_cx en)) 200
        (snd (spec_op pa k (ReplaceStatus_op name rv (set_st st)) a))) \<and>
      disk_holds en view rp' (fst (spec_op pa k (ReplaceStatus_op name rv (set_st st)) a))"
  using assms(4)
  by (auto simp: create_write_def replace_write_def delete_write_def status_write_def store_create_def intro!: write_refines assms(1-3))

text \<open>The read shapes, in either mode.\<close>

lemma read_get:
  assumes "sled_laws (en_sled en) view" and "disk_holds en view rp a"
  shows "h_read en (\<lambda>dk. store_get (en_sled en) (js (en_cx en)) k dk name) rp = (rp, Reply (pa_get pa a name))"
  using store_get_item [OF assms(1) part_spec_holds] assms(2) by (simp add: h_read_def disk_holds_def part_spec_def)

lemma get_answer:
  assumes "sled_laws (en_sled en) view" and "disk_holds en view rp a"
  shows "get_object en (js (en_cx en)) k name rp =
     (rp, (case pa_get pa a name of None \<Rightarrow> Fail (Api_NotFound name) | Some x \<Rightarrow> Reply (200, Typed x)))"
  using read_get [OF assms] by (simp add: get_object_def h_bind_def h_fail_def h_ok_def split: option.splits)

lemma read_list:
  assumes "sled_laws (en_sled en) view" and "disk_holds en view rp a"
  shows "\<exists>xs. enumerates (pa_get pa a) xs \<and>
    h_read en (\<lambda>dk. store_list (en_sled en) (js (en_cx en)) k dk dk) rp = (rp, Reply (xs, ap_rv a))"
proof -
  obtain ns where ns: "sorted_wrt (<) (map (store_key k) ns)" "set ns = dom (pa_get pa a)"
      "store_list (en_sled en) (js (en_cx en)) k (rp_disk rp) (rp_disk rp) = Inr (map (the \<circ> pa_get pa a) ns, ap_rv a)"
    using store_list_items [OF assms(1) part_spec_holds [OF assms(2) [unfolded disk_holds_def]]] by (auto simp: part_spec_def)
  have "distinct ns" using ns(1) by (auto simp: strict_sorted_iff dest: distinct_map [THEN iffD1])
  with ns(2,3) show ?thesis by (auto simp: h_read_def enumerates_def)
qed

end

lemmas frame_defs = all_hold_def part_defs kind_prefix_simps codecs_ok_def

interpretation pods_kind: kind_part pods_part Pod_kind cx_pod
  by unfold_locales (auto simp: frame_defs intro: kind_holds_outside [OF kinds_res(1)] kinds_res)

interpretation rss_kind: kind_part rss_part ReplicaSet_kind cx_rs
  by unfold_locales (auto simp: frame_defs intro: kind_holds_outside [OF kinds_res(2)] kinds_res)

interpretation nodes_kind: kind_part nodes_part Node_kind cx_node
  by unfold_locales (auto simp: frame_defs intro: kind_holds_outside [OF kinds_res(3)] kinds_res)

interpretation svcs_kind: kind_part svcs_part Service_kind cx_svc
  by unfold_locales (auto simp: frame_defs intro: kind_holds_outside [OF kinds_res(4)] kinds_res)

interpretation eps_kind: kind_part eps_part Endpoints_kind cx_ep
  by unfold_locales (auto simp: frame_defs intro: kind_holds_outside [OF kinds_res(5)] kinds_res)

end
