(* ===== verification/Api_Routes.thy ===== *)
theory Api_Routes
  imports Client Api_Replicas
begin

text \<open>
  The route table of \<^verbatim>\<open>src/apiserver/routes.rs\<close>, and the agreement of client and server: every path the client builds
  reaches the handler it is meant for with the name and version it carries, and every error of a handler arrives as
  the client error it stands for. A parameter of a route matches one non-empty path segment; a query is a list of
  pairs separated by ampersands.
\<close>

datatype resource = Pods | ReplicaSets | Nodes | Services | EndpointsRes

datatype route =
    R_list_or_watch resource
  | R_create resource
  | R_get resource string
  | R_replace resource string
  | R_delete resource string
  | R_replace_status resource string
  | R_bind string

fun collection :: "string \<Rightarrow> resource option" where
  "collection s =
     (if s = ''pods'' then Some Pods else if s = ''replicasets'' then Some ReplicaSets else if s = ''nodes'' then Some Nodes
      else if s = ''services'' then Some Services else if s = ''endpoints'' then Some EndpointsRes else None)"

definition router :: "http_method \<Rightarrow> string list \<Rightarrow> route option" where
  "router meth segs =
     (case segs of
        [root, api, v, coll] \<Rightarrow>
          (if root = [] \<and> api = ''api'' \<and> v = ''v1''
           then (case collection coll of
                   None \<Rightarrow> None
                 | Some r \<Rightarrow> (case meth of GET \<Rightarrow> Some (R_list_or_watch r) | POST \<Rightarrow> Some (R_create r) | _ \<Rightarrow> None))
           else None)
      | [root, api, v, coll, name] \<Rightarrow>
          (if root = [] \<and> api = ''api'' \<and> v = ''v1'' \<and> name \<noteq> []
           then (case collection coll of
                   None \<Rightarrow> None
                 | Some r \<Rightarrow> (case meth of GET \<Rightarrow> Some (R_get r name) | PUT \<Rightarrow> Some (R_replace r name)
                             | DELETE \<Rightarrow> Some (R_delete r name) | _ \<Rightarrow> None))
           else None)
      | [root, api, v, coll, name, sub] \<Rightarrow>
          (if root = [] \<and> api = ''api'' \<and> v = ''v1'' \<and> name \<noteq> []
           then (case collection coll of
                   None \<Rightarrow> None
                 | Some r \<Rightarrow>
                     (if sub = ''status'' \<and> meth = PUT \<and> (r = Pods \<or> r = ReplicaSets \<or> r = Nodes) then Some (R_replace_status r name)
                      else if sub = ''binding'' \<and> meth = POST \<and> r = Pods then Some (R_bind name)
                      else None))
           else None)
      | _ \<Rightarrow> None)"

subsection \<open>Targets\<close>

definition target_parts :: "string \<Rightarrow> string list \<times> (string \<times> string) list" where
  "target_parts target =
     (case split_once (CHR ''?'') target of
        None \<Rightarrow> (split_on (CHR ''/'') target, [])
      | Some (path, query) \<Rightarrow>
          (split_on (CHR ''/'') path,
           List.map_filter (\<lambda>kv. split_once (CHR ''='') kv) (split_on (CHR ''&'') query)))"

definition routed :: "http_method \<Rightarrow> string \<Rightarrow> route option" where
  "routed meth target = router meth (fst (target_parts target))"

definition query_param :: "string \<Rightarrow> string \<Rightarrow> string option" where
  "query_param key target = map_of (snd (target_parts target)) key"

text \<open>Characters that need no escaping in a path segment or a query value.\<close>

definition url_safe :: "string \<Rightarrow> bool" where
  "url_safe s \<longleftrightarrow> s \<noteq> [] \<and> set s \<inter> {CHR ''/'', CHR ''?'', CHR ''&'', CHR ''='', CHR ''#'', CHR ''%'', CHR ''+'', CHR '' ''} = {}"

fun coll_name :: "resource \<Rightarrow> string" where
  "coll_name Pods = ''pods''"
| "coll_name ReplicaSets = ''replicasets''"
| "coll_name Nodes = ''nodes''"
| "coll_name Services = ''services''"
| "coll_name EndpointsRes = ''endpoints''"

definition coll_path :: "resource \<Rightarrow> string" where
  "coll_path r = ''/api/v1/'' @ coll_name r"

lemma collection_name [simp]: "collection (coll_name r) = Some r"
  by (cases r) simp_all

lemma coll_name_chars: "CHR ''/'' \<notin> set (coll_name r)" "CHR ''?'' \<notin> set (coll_name r)"
  by (cases r; simp)+

lemma split_api: "split_on (CHR ''/'') (''/api/v1/'' @ s) = [] # ''api'' # ''v1'' # split_on (CHR ''/'') s"
  by simp

lemma url_safeD: "url_safe s \<Longrightarrow> s \<noteq> [] \<and> CHR ''/'' \<notin> set s \<and> CHR ''?'' \<notin> set s \<and> CHR ''&'' \<notin> set s \<and> CHR ''='' \<notin> set s"
  by (auto simp: url_safe_def)

text \<open>The path of a target, with and without a query.\<close>

lemma target_path: "CHR ''?'' \<notin> set p \<Longrightarrow> fst (target_parts p) = split_on (CHR ''/'') p"
  "CHR ''?'' \<notin> set p \<Longrightarrow> fst (target_parts (p @ CHR ''?'' # q)) = split_on (CHR ''/'') p"
proof -
  assume p: "CHR ''?'' \<notin> set p"
  have "split_once (CHR ''?'') p = None" using p split_once_Some by (metis in_set_conv_decomp not_None_eq surj_pair)
  then show "fst (target_parts p) = split_on (CHR ''/'') p" by (simp add: target_parts_def)
  show "fst (target_parts (p @ CHR ''?'' # q)) = split_on (CHR ''/'') p" using split_once_append [OF p] by (simp add: target_parts_def)
qed

lemma coll_segments: "split_on (CHR ''/'') (coll_path r) = [[], ''api'', ''v1'', coll_name r]"
  unfolding coll_path_def split_api by (simp add: split_on_single coll_name_chars)

lemma item_segments:
  assumes "url_safe name"
  shows "split_on (CHR ''/'') (coll_path r @ ''/'' @ name) = [[], ''api'', ''v1'', coll_name r, name]"
    and "CHR ''/'' \<notin> set sub \<Longrightarrow>
      split_on (CHR ''/'') (coll_path r @ ''/'' @ name @ ''/'' @ sub) = [[], ''api'', ''v1'', coll_name r, name, sub]"
  using url_safeD [OF assms] coll_name_chars [of r] unfolding coll_path_def append_assoc split_api
  by (simp_all add: split_on_append split_on_single)

lemma no_question: "CHR ''?'' \<notin> set (coll_path r)"
  by (simp add: coll_path_def coll_name_chars)

lemma split_once_None: "c \<notin> set s \<Longrightarrow> split_once c s = None"
  by (induction s) auto

lemma rv_param:
  assumes "CHR ''?'' \<notin> set p" and "url_safe rv"
  shows "query_param ''resourceVersion'' (p @ rv_query rv) = Some rv"
proof -
  have a: "split_once (CHR ''?'') (p @ CHR ''?'' # ''resourceVersion='' @ rv) = Some (p, ''resourceVersion='' @ rv)"
    by (rule split_once_append [OF assms(1)])
  have b: "split_on (CHR ''&'') (''resourceVersion='' @ rv) = [''resourceVersion='' @ rv]"
    using url_safeD [OF assms(2)] by (intro split_on_single) simp
  have "split_once (CHR ''='') (''resourceVersion='' @ rv) = Some (''resourceVersion'', rv)"
    using split_once_append [of "CHR ''=''" "''resourceVersion''" rv] by simp
  with a b show ?thesis by (simp add: query_param_def target_parts_def rv_query_def map_filter_simps)
qed

lemma routed_paths:
  assumes "url_safe name"
  shows "routed meth (coll_path r) = router meth [[], ''api'', ''v1'', coll_name r]"
    and "routed meth (coll_path r @ ''/'' @ name) = router meth [[], ''api'', ''v1'', coll_name r, name]"
    and "routed meth (coll_path r @ ''/'' @ name @ rv_query rv) = router meth [[], ''api'', ''v1'', coll_name r, name]"
    and "routed meth (coll_path r @ ''/'' @ name @ ''/status'' @ rv_query rv) = router meth [[], ''api'', ''v1'', coll_name r, name, ''status'']"
    and "routed meth (coll_path r @ ''/'' @ name @ ''/binding'') = router meth [[], ''api'', ''v1'', coll_name r, name, ''binding'']"
proof -
  have n: "CHR ''?'' \<notin> set (coll_path r @ ''/'' @ name)" "CHR ''?'' \<notin> set (coll_path r @ ''/'' @ name @ ''/'' @ ''status'')"
      "CHR ''?'' \<notin> set (coll_path r @ ''/'' @ name @ ''/'' @ ''binding'')"
    using no_question url_safeD [OF assms] by simp_all
  note seg = coll_segments item_segments(1) [OF assms] item_segments(2) [OF assms, of "''status''"] item_segments(2) [OF assms, of "''binding''"]
  show "routed meth (coll_path r) = router meth [[], ''api'', ''v1'', coll_name r]"
    by (simp add: routed_def target_path(1) [OF no_question] seg)
  show "routed meth (coll_path r @ ''/'' @ name) = router meth [[], ''api'', ''v1'', coll_name r, name]"
    unfolding routed_def target_path(1) [OF n(1)] seg ..
  show "routed meth (coll_path r @ ''/'' @ name @ rv_query rv) = router meth [[], ''api'', ''v1'', coll_name r, name]"
    using target_path(2) [OF n(1), of "''resourceVersion='' @ rv"] seg by (simp add: routed_def rv_query_def)
  show "routed meth (coll_path r @ ''/'' @ name @ ''/status'' @ rv_query rv) = router meth [[], ''api'', ''v1'', coll_name r, name, ''status'']"
    using target_path(2) [OF n(2), of "''resourceVersion='' @ rv"] seg by (simp add: routed_def rv_query_def)
  show "routed meth (coll_path r @ ''/'' @ name @ ''/binding'') = router meth [[], ''api'', ''v1'', coll_name r, name, ''binding'']"
    using target_path(1) [OF n(3)] seg by (simp add: routed_def)
qed

subsection \<open>What the client sends\<close>

text \<open>A transport that only records, and the route and version of the one request a call makes.\<close>

definition recorder :: "http_request list http" where
  "recorder rq w = (w @ [rq], None)"

definition route_sent :: "(http_request list, 'j) client \<Rightarrow> (http_request list, 'x) call \<Rightarrow> route option \<times> string option" where
  "route_sent cl f =
     (case fst (f []) of
        [rq] \<Rightarrow> (case strip_prefix (cn_base_url cl) (hq_url rq) of
                   Some target \<Rightarrow> (routed (hq_method rq) target, query_param ''resourceVersion'' target)
                 | None \<Rightarrow> (None, None))
      | _ \<Rightarrow> (None, None))"

lemma route_sent_send:
  "cn_http cl = recorder \<Longrightarrow> route_sent cl (send cl meth path body f) = (routed meth path, query_param ''resourceVersion'' path)"
  by (simp add: route_sent_def send_def recorder_def client_url_def)

lemma route_sent_body:
  "cn_http cl = recorder \<Longrightarrow> enc = Inr b \<Longrightarrow> route_sent cl (send_body cl meth path enc f) = (routed meth path, query_param ''resourceVersion'' path)"
  by (simp add: route_sent_def send_body_def send_def recorder_def client_url_def)

lemma coll_paths:
  "''/api/v1/pods'' = coll_path Pods" "''/api/v1/replicasets'' = coll_path ReplicaSets" "''/api/v1/nodes'' = coll_path Nodes"
  "''/api/v1/services'' = coll_path Services" "''/api/v1/endpoints'' = coll_path EndpointsRes"
  "''/api/v1/pods/'' @ s = coll_path Pods @ ''/'' @ s" "''/api/v1/replicasets/'' @ s = coll_path ReplicaSets @ ''/'' @ s"
  "''/api/v1/nodes/'' @ s = coll_path Nodes @ ''/'' @ s" "''/api/v1/services/'' @ s = coll_path Services @ ''/'' @ s"
  "''/api/v1/endpoints/'' @ s = coll_path EndpointsRes @ ''/'' @ s"
  by (simp_all add: coll_path_def)

text \<open>The client's request bodies can be encoded.\<close>

definition client_encodes :: "'j client_codecs \<Rightarrow> bool" where
  "client_encodes kc \<longleftrightarrow>
     (\<forall>st. \<exists>b. js_to_vec (cx_pod_status (kc_cx kc)) st = Inr b) \<and> (\<forall>p. \<exists>b. js_to_vec (cx_pod (kc_cx kc)) p = Inr b) \<and>
     (\<forall>st. \<exists>b. js_to_vec (cx_rs_status (kc_cx kc)) st = Inr b) \<and> (\<forall>st. \<exists>b. js_to_vec (cx_node_status (kc_cx kc)) st = Inr b) \<and>
     (\<forall>n. \<exists>b. kc_binding kc n = Inr b)"

text \<open>
  Client and server agree on the routes: the requests the client makes for any object with a URL-safe name reach the
  handler they are meant for, with that name, and the version of a deletion or a status write arrives as
  the version the handler checks.
\<close>

theorem client_requests_routed:
  assumes "cn_http cl = recorder" and "url_safe name" and "url_safe rv"
    and "client_encodes (cn_kc cl)" and "om_name (pod_metadata p) = name"
  shows "fst (route_sent cl (client_list_pods cl)) = Some (R_list_or_watch Pods) \<and>
    fst (route_sent cl (client_get_pod cl name)) = Some (R_get Pods name) \<and>
    fst (route_sent cl (client_create_pod cl p)) = Some (R_create Pods) \<and>
    fst (route_sent cl (client_replace_pod_spec cl p)) = Some (R_replace Pods name) \<and>
    route_sent cl (client_replace_pod_status cl name st rv) = (Some (R_replace_status Pods name), Some rv) \<and>
    route_sent cl (client_delete_pod cl name rv) = (Some (R_delete Pods name), Some rv) \<and>
    fst (route_sent cl (client_bind_pod cl name node)) = Some (R_bind name) \<and>
    route_sent cl (client_replace_node_status cl name nst rv) = (Some (R_replace_status Nodes name), Some rv) \<and>
    route_sent cl (client_replace_rs_status cl name rst rv) = (Some (R_replace_status ReplicaSets name), Some rv) \<and>
    route_sent cl (client_delete_replicaset cl name rv) = (Some (R_delete ReplicaSets name), Some rv) \<and>
    route_sent cl (client_delete_service cl name rv) = (Some (R_delete Services name), Some rv) \<and>
    route_sent cl (client_delete_endpoints cl name rv) = (Some (R_delete EndpointsRes name), Some rv) \<and>
    fst (route_sent cl (client_get_node cl name)) = Some (R_get Nodes name) \<and>
    fst (route_sent cl (client_get_replicaset cl name)) = Some (R_get ReplicaSets name) \<and>
    fst (route_sent cl (client_get_service cl name)) = Some (R_get Services name) \<and>
    fst (route_sent cl (client_get_endpoints cl name)) = Some (R_get EndpointsRes name)"
proof -
  have q: "CHR ''?'' \<notin> set (coll_path r @ ''/'' @ name)" "CHR ''?'' \<notin> set (coll_path r @ ''/'' @ name @ ''/status'')" for r
    using no_question url_safeD [OF assms(2)] by simp_all
  have rv: "query_param ''resourceVersion'' (coll_path r @ ''/'' @ name @ rv_query rv) = Some rv"
      "query_param ''resourceVersion'' (coll_path r @ ''/'' @ name @ ''/status'' @ rv_query rv) = Some rv" for r
    using rv_param [OF q(1) assms(3)] rv_param [OF q(2) assms(3)] by simp_all
  have ne: "name \<noteq> []" using url_safeD [OF assms(2)] by simp
  obtain b1 b2 b3 b4 b5 where enc: "js_to_vec (cx_pod_status (kc_cx (cn_kc cl))) st = Inr b1"
      "js_to_vec (cx_pod (kc_cx (cn_kc cl))) p = Inr b2" "js_to_vec (cx_rs_status (kc_cx (cn_kc cl))) rst = Inr b3"
      "js_to_vec (cx_node_status (kc_cx (cn_kc cl))) nst = Inr b4" "kc_binding (cn_kc cl) node = Inr b5"
    using assms(4) unfolding client_encodes_def by meson
  note sent = route_sent_send [OF assms(1)] route_sent_body [OF assms(1) enc(1)] route_sent_body [OF assms(1) enc(2)]
    route_sent_body [OF assms(1) enc(3)] route_sent_body [OF assms(1) enc(4)] route_sent_body [OF assms(1) enc(5)]
  note calls = list_resource_def get_resource_def create_resource_def put_resource_def delete_resource_def
  note kinds = client_list_pods_def client_get_pod_def client_create_pod_def client_replace_pod_spec_def client_replace_pod_status_def
    client_delete_pod_def client_bind_pod_def client_replace_node_status_def client_replace_rs_status_def client_delete_replicaset_def
    client_delete_service_def client_delete_endpoints_def client_get_node_def client_get_replicaset_def client_get_service_def client_get_endpoints_def
  show ?thesis
    unfolding kinds calls sent coll_paths assms(5) routed_paths [OF assms(2)] rv
    using ne by (simp add: router_def)
qed

definition demo_kc :: "(bytes \<Rightarrow> io_error + status_envelope) \<Rightarrow> nat list client_codecs" where
  "demo_kc dec_status = \<lparr>kc_cx = wire_codecs, kc_pods = (\<lambda>_. Inl JsonError), kc_rss = (\<lambda>_. Inl JsonError), kc_nodes = (\<lambda>_. Inl JsonError),
     kc_svcs = (\<lambda>_. Inl JsonError), kc_eps = (\<lambda>_. Inl JsonError), kc_status = dec_status, kc_binding = (\<lambda>n. Inr (ascii n)),
     kc_lossy = map char_of, kc_lines = (\<lambda>_. []), kc_pod_event = (\<lambda>_. Inl JsonError), kc_rs_event = (\<lambda>_. Inl JsonError),
     kc_svc_event = (\<lambda>_. Inl JsonError), kc_ep_event = (\<lambda>_. Inl JsonError)\<rparr>"

theorem client_requests_routed_witness:
  "route_sent (client_new ''http://one/'' recorder (demo_kc (\<lambda>_. Inl JsonError)))
     (client_delete_pod (client_new ''http://one/'' recorder (demo_kc (\<lambda>_. Inl JsonError))) ''a'' ''7'') = (Some (R_delete Pods ''a''), Some ''7'')"
proof -
  have enc: "client_encodes (demo_kc (\<lambda>_. Inl JsonError))" by (simp add: client_encodes_def demo_kc_def wire_codecs_def wire_json_def)
  let ?cl = "client_new ''http://one/'' recorder (demo_kc (\<lambda>_. Inl JsonError))"
  show ?thesis
    using client_requests_routed [of ?cl "''a''" "''7''" "demo_pod ''a''"] enc
    by (simp add: client_new_def url_safe_def demo_pod_def demo_meta_def)
qed

subsection \<open>Errors across the wire\<close>

definition envelope :: "status \<Rightarrow> status_envelope" where
  "envelope st = \<lparr>se_code = su_code st, se_message = su_message st, se_reason = Some (su_reason st)\<rparr>"

text \<open>
  What the client reports for an error reply is determined by the server's error and tells
  the cases apart: not found, already exists, a version conflict with its text, and otherwise the status code with
  the text; the two uses of code 409 are not confused. The status body is assumed to decode to the fields it was
  encoded from.
\<close>

lemma client_sees_server_error:
  assumes "\<And>st. kc_status kc (enc st) = Inr (envelope st)" and "\<nexists>url. e = Api_Redirect url"
  shows "check_status kc (he_code (into_response e), map_option enc (he_body (into_response e))) =
     Inl (case e of
            Api_NotFound n \<Rightarrow> Cl_NotFound
          | Api_AlreadyExists n \<Rightarrow> Cl_AlreadyExists
          | Api_Conflict current provided \<Rightarrow> Cl_Conflict (error_text e)
          | Api_BadRequest m \<Rightarrow> Cl_Http 400 (error_text e)
          | _ \<Rightarrow> Cl_Http 500 (error_text e))"
  using assms by (cases e) (auto simp: check_status_def status_response_def map_envelope_def envelope_def)

definition wr_status :: "status wire" where
  "wr_status = wr_map (\<lambda>(k, a, c, m, r). \<lparr>su_kind = k, su_api_version = a, su_code = c, su_message = m, su_reason = r\<rparr>)
     (\<lambda>s. (su_kind s, su_api_version s, su_code s, su_message s, su_reason s))
     (wr_prod wr_string (wr_prod wr_string (wr_prod wr_nat (wr_prod wr_string wr_string))))"

lemma wr_status_ok [wire_intros]: "wire_ok wr_status"
  unfolding wr_status_def by (intro wire_intros) simp

definition demo_status_codec :: "bytes \<Rightarrow> io_error + status_envelope" where
  "demo_status_codec b = (case js_from_slice (wire_json wr_status) b of Inl e \<Rightarrow> Inl e | Inr st \<Rightarrow> Inr (envelope st))"

end
