(* ===== verification/Http_Server.thy ===== *)
theory Http_Server
  imports Kind_Parts Api_Routes
begin

text \<open>
  The client of \<^verbatim>\<open>src/client.rs\<close> talking to the server of \<^verbatim>\<open>src/apiserver\<close>: the route table of
  \<^verbatim>\<open>src/apiserver/routes.rs\<close> selects the handler, which runs on the replica, and its reply travels back as a status with
  a body. The encoding of bodies and the replies of the HTTP library itself (no such route, a body that does not
  decode) are parameters. Each request has its own environment (fresh identifiers, the time). A watch never ends,
  so it has no complete response here; its stream is the subject of theory \<^verbatim>\<open>Api_Watch\<close>.
\<close>

record ('s, 'j) server =
  sv_env :: "nat \<Rightarrow> ('s, 'j) env"
  sv_pods :: "pod list_body \<Rightarrow> bytes"
  sv_rss :: "replicaset list_body \<Rightarrow> bytes"
  sv_nodes :: "node list_body \<Rightarrow> bytes"
  sv_svcs :: "service list_body \<Rightarrow> bytes"
  sv_eps :: "endpoints list_body \<Rightarrow> bytes"
  sv_status :: "status \<Rightarrow> bytes"
  sv_value :: "'j \<Rightarrow> bytes"
  sv_binding :: "bytes \<Rightarrow> io_error + string"
  sv_unrouted :: "nat \<times> bytes option"
  sv_rejected :: "nat \<times> bytes option"

type_synonym http_response = "(nat \<times> bytes option) option"

fun render :: "('s, 'j) server \<Rightarrow> ('a, 'j) json \<Rightarrow> ('a list_body \<Rightarrow> bytes) \<Rightarrow> ('a, 'j) response result \<Rightarrow> http_response" where
  "render sv js enc (Reply (c, Typed x)) = (case js_to_vec js x of Inr b \<Rightarrow> Some (c, Some b) | Inl _ \<Rightarrow> Some (sv_rejected sv))"
| "render sv js enc (Reply (c, Value v)) = Some (c, Some (sv_value sv v))"
| "render sv js enc (Reply (c, Items xs)) = Some (c, Some (enc xs))"
| "render sv js enc (Reply (c, Watch rv keep)) = None"
| "render sv js enc (Fail e) = Some (he_code (into_response e), map_option (sv_status sv) (he_body (into_response e)))"
| "render sv js enc Panic = None"

definition rendered :: "('s, 'j) server \<Rightarrow> ('a, 'j) json \<Rightarrow> ('a list_body \<Rightarrow> bytes) \<Rightarrow> ('s, 'j, ('a, 'j) response) handler \<Rightarrow>
    ('s, 'j) replica \<Rightarrow> ('s, 'j) replica \<times> http_response" where
  "rendered sv js enc h rp = (case h rp of (rp', r) \<Rightarrow> (rp', render sv js enc r))"

definition with_body :: "('s, 'j) server \<Rightarrow> (bytes \<Rightarrow> io_error + 'b) \<Rightarrow> bytes option \<Rightarrow>
    ('b \<Rightarrow> ('s, 'j) replica \<Rightarrow> ('s, 'j) replica \<times> http_response) \<Rightarrow> ('s, 'j) replica \<Rightarrow> ('s, 'j) replica \<times> http_response" where
  "with_body sv dec body h rp =
     (case body of
        None \<Rightarrow> (rp, Some (sv_rejected sv))
      | Some b \<Rightarrow> (case dec b of Inl _ \<Rightarrow> (rp, Some (sv_rejected sv)) | Inr x \<Rightarrow> h x rp))"

definition params_of :: "string \<Rightarrow> list_watch_params" where
  "params_of target =
     \<lparr>lw_watch = map_option (\<lambda>s. s = ''true'') (query_param ''watch'' target),
      lw_resource_version = query_param ''resourceVersion'' target, lw_field_selector = query_param ''fieldSelector'' target\<rparr>"

fun dispatch :: "('s, 'j) server \<Rightarrow> ('s, 'j) env \<Rightarrow> route \<Rightarrow> string \<Rightarrow> bytes option \<Rightarrow> ('s, 'j) replica \<Rightarrow>
    ('s, 'j) replica \<times> http_response" where
  "dispatch sv en (R_list_or_watch Pods) t b = rendered sv (cx_pod (en_cx en)) (sv_pods sv) (list_or_watch_pods en (params_of t))"
| "dispatch sv en (R_list_or_watch ReplicaSets) t b = rendered sv (cx_rs (en_cx en)) (sv_rss sv) (list_or_watch_replicasets en (params_of t))"
| "dispatch sv en (R_list_or_watch Nodes) t b = rendered sv (cx_node (en_cx en)) (sv_nodes sv) (list_or_watch_nodes en (params_of t))"
| "dispatch sv en (R_list_or_watch Services) t b = rendered sv (cx_svc (en_cx en)) (sv_svcs sv) (list_or_watch_services en (params_of t))"
| "dispatch sv en (R_list_or_watch EndpointsRes) t b = rendered sv (cx_ep (en_cx en)) (sv_eps sv) (list_or_watch_endpoints en (params_of t))"
| "dispatch sv en (R_create Pods) t b =
     with_body sv (js_from_slice (cx_pod (en_cx en))) b (\<lambda>x. rendered sv (cx_pod (en_cx en)) (sv_pods sv) (create_pod en x))"
| "dispatch sv en (R_create ReplicaSets) t b =
     with_body sv (js_from_slice (cx_rs (en_cx en))) b (\<lambda>x. rendered sv (cx_rs (en_cx en)) (sv_rss sv) (create_replicaset en x))"
| "dispatch sv en (R_create Nodes) t b =
     with_body sv (js_from_slice (cx_node (en_cx en))) b (\<lambda>x. rendered sv (cx_node (en_cx en)) (sv_nodes sv) (create_node en x))"
| "dispatch sv en (R_create Services) t b =
     with_body sv (js_from_slice (cx_svc (en_cx en))) b (\<lambda>x. rendered sv (cx_svc (en_cx en)) (sv_svcs sv) (create_service en x))"
| "dispatch sv en (R_create EndpointsRes) t b =
     with_body sv (js_from_slice (cx_ep (en_cx en))) b (\<lambda>x. rendered sv (cx_ep (en_cx en)) (sv_eps sv) (create_endpoints en x))"
| "dispatch sv en (R_get Pods n) t b = rendered sv (cx_pod (en_cx en)) (sv_pods sv) (get_pod en n)"
| "dispatch sv en (R_get ReplicaSets n) t b = rendered sv (cx_rs (en_cx en)) (sv_rss sv) (get_replicaset en n)"
| "dispatch sv en (R_get Nodes n) t b = rendered sv (cx_node (en_cx en)) (sv_nodes sv) (get_node en n)"
| "dispatch sv en (R_get Services n) t b = rendered sv (cx_svc (en_cx en)) (sv_svcs sv) (get_service en n)"
| "dispatch sv en (R_get EndpointsRes n) t b = rendered sv (cx_ep (en_cx en)) (sv_eps sv) (get_endpoints en n)"
| "dispatch sv en (R_replace Pods n) t b =
     with_body sv (js_from_slice (cx_pod (en_cx en))) b (\<lambda>x. rendered sv (cx_pod (en_cx en)) (sv_pods sv) (replace_pod_spec en n x))"
| "dispatch sv en (R_replace ReplicaSets n) t b =
     with_body sv (js_from_slice (cx_rs (en_cx en))) b (\<lambda>x. rendered sv (cx_rs (en_cx en)) (sv_rss sv) (replace_replicaset_spec en n x))"
| "dispatch sv en (R_replace Nodes n) t b =
     with_body sv (js_from_slice (cx_node (en_cx en))) b (\<lambda>x. rendered sv (cx_node (en_cx en)) (sv_nodes sv) (replace_node_spec en n x))"
| "dispatch sv en (R_replace Services n) t b =
     with_body sv (js_from_slice (cx_svc (en_cx en))) b (\<lambda>x. rendered sv (cx_svc (en_cx en)) (sv_svcs sv) (replace_service_spec en n x))"
| "dispatch sv en (R_replace EndpointsRes n) t b =
     with_body sv (js_from_slice (cx_ep (en_cx en))) b (\<lambda>x. rendered sv (cx_ep (en_cx en)) (sv_eps sv) (replace_endpoints en n x))"
| "dispatch sv en (R_delete Pods n) t b = rendered sv (cx_pod (en_cx en)) (sv_pods sv) (delete_pod en n (query_param ''resourceVersion'' t))"
| "dispatch sv en (R_delete ReplicaSets n) t b =
     rendered sv (cx_rs (en_cx en)) (sv_rss sv) (delete_replicaset en n (query_param ''resourceVersion'' t))"
| "dispatch sv en (R_delete Nodes n) t b = rendered sv (cx_node (en_cx en)) (sv_nodes sv) (delete_node en n (query_param ''resourceVersion'' t))"
| "dispatch sv en (R_delete Services n) t b =
     rendered sv (cx_svc (en_cx en)) (sv_svcs sv) (delete_service en n (query_param ''resourceVersion'' t))"
| "dispatch sv en (R_delete EndpointsRes n) t b =
     rendered sv (cx_ep (en_cx en)) (sv_eps sv) (delete_endpoints en n (query_param ''resourceVersion'' t))"
| "dispatch sv en (R_replace_status ReplicaSets n) t b =
     with_body sv (js_from_slice (cx_rs_status (en_cx en))) b
       (\<lambda>st. rendered sv (cx_rs (en_cx en)) (sv_rss sv) (replace_replicaset_status en n (query_param ''resourceVersion'' t) st))"
| "dispatch sv en (R_replace_status Nodes n) t b =
     with_body sv (js_from_slice (cx_node_status (en_cx en))) b
       (\<lambda>st. rendered sv (cx_node (en_cx en)) (sv_nodes sv) (replace_node_status en n (query_param ''resourceVersion'' t) st))"
| "dispatch sv en (R_replace_status _ n) t b =
     with_body sv (js_from_slice (cx_pod_status (en_cx en))) b
       (\<lambda>st. rendered sv (cx_pod (en_cx en)) (sv_pods sv) (replace_pod_status en n (query_param ''resourceVersion'' t) st))"
| "dispatch sv en (R_bind n) t b =
     with_body sv (sv_binding sv) b (\<lambda>node. rendered sv (cx_pod (en_cx en)) (sv_pods sv) (bind_pod en n node))"

type_synonym ('s, 'j) net = "nat \<times> ('s, 'j) replica"

definition serve :: "('s, 'j) server \<Rightarrow> string \<Rightarrow> ('s, 'j) net http" where
  "serve sv base rq w =
     (case strip_prefix base (hq_url rq) of
        None \<Rightarrow> (w, None)
      | Some target \<Rightarrow>
          (case routed (hq_method rq) target of
             None \<Rightarrow> (w, Some (sv_unrouted sv))
           | Some r \<Rightarrow>
               (case dispatch sv (sv_env sv (fst w)) r target (hq_body rq) (snd w) of
                  (rp, res) \<Rightarrow> ((Suc (fst w), rp), res))))"

end
