(* ===== verification/Cluster_Api.thy ===== *)
theory Cluster_Api
  imports Kind_Parts Api_Routes Controllers
begin

text \<open>
  What the controllers rely on: the locale \<open>cluster\<close> says of a record of API calls that each performs the operation of
  the joint specification that its name promises. The first lemmas read the laws off for the cases a controller meets.
  Theory \<^verbatim>\<open>Http_Cluster\<close> discharges the laws for the client of \<^verbatim>\<open>src/client.rs\<close> connected to the server of
  \<^verbatim>\<open>src/apiserver\<close>.
\<close>

text \<open>A call performs an operation: it gives the operation's answer and reaches a world that holds its result.\<close>

definition performs :: "('w \<Rightarrow> api_spec \<Rightarrow> bool) \<Rightarrow> (store_error \<Rightarrow> client_error) \<Rightarrow> ('a \<Rightarrow> 'x) \<Rightarrow> ('w, 'x) call \<Rightarrow> 'w \<Rightarrow>
    api_spec \<times> (store_error + 'a) \<Rightarrow> bool" where
  "performs R err g f w res \<longleftrightarrow> (\<exists>w'. f w = (w', map_sum err g (snd res)) \<and> R w' (fst res))"

definition reads :: "('w \<Rightarrow> api_spec \<Rightarrow> bool) \<Rightarrow> ('w, 'x) call \<Rightarrow> 'w \<Rightarrow> api_spec \<Rightarrow> 'x \<Rightarrow> bool" where
  "reads R f w a x \<longleftrightarrow> (\<exists>w'. f w = (w', Inr x) \<and> R w' a)"

text \<open>Objects are stored under their names, the names can stand in a path, and each object carries its version.\<close>

definition tidy :: "'a kind \<Rightarrow> (string \<rightharpoonup> 'a) \<Rightarrow> bool" where
  "tidy k objs \<longleftrightarrow> (\<forall>n x. objs n = Some x \<longrightarrow>
     kd_name k x = n \<and> url_safe n \<and> (\<exists>r. om_resource_version (kd_meta k x) = Some (show_nat r)))"

definition well_formed :: "api_spec \<Rightarrow> bool" where
  "well_formed a \<longleftrightarrow> tidy Pod_kind (ap_pods a) \<and> tidy ReplicaSet_kind (ap_rss a) \<and> tidy Node_kind (ap_nodes a) \<and>
     tidy Service_kind (ap_svcs a) \<and> tidy Endpoints_kind (ap_eps a) \<and>
     (\<forall>n p. ap_pods a n = Some p \<longrightarrow> pc_containers (pod_spec p) \<noteq> [])"

locale cluster =
  fixes api :: "'w api" and R :: "'w \<Rightarrow> api_spec \<Rightarrow> bool" and err :: "store_error \<Rightarrow> client_error"
  assumes shape: "R w a \<Longrightarrow> well_formed a"
    and list_pods: "R w a \<Longrightarrow> \<exists>ps. enumerates (ap_pods a) ps \<and> reads R (k8_list_pods api) w a ps"
    and list_nodes: "R w a \<Longrightarrow> \<exists>ns. enumerates (ap_nodes a) ns \<and> reads R (k8_list_nodes api) w a ns"
    and list_services: "R w a \<Longrightarrow> \<exists>xs. enumerates (ap_svcs a) xs \<and> reads R (k8_list_services api) w a xs"
    and list_endpoints: "R w a \<Longrightarrow> \<exists>xs. enumerates (ap_eps a) xs \<and> reads R (k8_list_endpoints api) w a xs"
    and get_pod: "R w a \<Longrightarrow> url_safe n \<Longrightarrow> reads R (k8_get_pod api n) w a (ap_pods a n)"
    and get_replicaset: "R w a \<Longrightarrow> url_safe n \<Longrightarrow> reads R (k8_get_replicaset api n) w a (ap_rss a n)"
    and get_service: "R w a \<Longrightarrow> url_safe n \<Longrightarrow> reads R (k8_get_service api n) w a (ap_svcs a n)"
    and get_endpoints: "R w a \<Longrightarrow> url_safe n \<Longrightarrow> reads R (k8_get_endpoints api n) w a (ap_eps a n)"
    and create_pod: "R w a \<Longrightarrow> validate_pod p = Inr () \<Longrightarrow> url_safe (om_name (pod_metadata p)) \<Longrightarrow>
      \<exists>uuid now. performs R err id (k8_create_pod api p) w (spec_op pods_part Pod_kind (Create_op (stamp_for_create Pod_kind uuid now p)) a)"
    and replace_pod: "R w a \<Longrightarrow> validate_pod p = Inr () \<Longrightarrow> url_safe (om_name (pod_metadata p)) \<Longrightarrow>
      performs R err id (k8_replace_pod_spec api p) w (spec_op pods_part Pod_kind (ReplaceSpec_op (om_name (pod_metadata p)) p) a)"
    and delete_pod: "R w a \<Longrightarrow> url_safe n \<Longrightarrow> url_safe rv \<Longrightarrow>
      performs R err (\<lambda>_. ()) (k8_delete_pod api n rv) w (spec_op pods_part Pod_kind (Delete_op n rv) a)"
    and bind_pod: "R w a \<Longrightarrow> node \<noteq> [] \<Longrightarrow> ap_pods a n = Some p \<Longrightarrow>
      performs R err id (k8_bind_pod api n node) w (spec_op pods_part Pod_kind (ReplaceSpec_op n (set_node_name node p)) a)"
    and replace_rs_status: "R w a \<Longrightarrow> url_safe n \<Longrightarrow> url_safe rv \<Longrightarrow>
      performs R err id (k8_replace_rs_status api n st rv) w
        (spec_op rss_part ReplicaSet_kind (ReplaceStatus_op n rv (\<lambda>r. r\<lparr>rs_status := Some st\<rparr>)) a)"
    and create_endpoints: "R w a \<Longrightarrow> url_safe (om_name (ep_metadata e)) \<Longrightarrow>
      \<exists>uuid now. performs R err id (k8_create_endpoints api e) w
        (spec_op eps_part Endpoints_kind (Create_op (stamp_for_create Endpoints_kind uuid now e)) a)"
    and replace_endpoints: "R w a \<Longrightarrow> url_safe (om_name (ep_metadata e)) \<Longrightarrow>
      performs R err id (k8_replace_endpoints api e) w (spec_op eps_part Endpoints_kind (ReplaceSpec_op (om_name (ep_metadata e)) e) a)"
    and delete_endpoints: "R w a \<Longrightarrow> url_safe n \<Longrightarrow> url_safe rv \<Longrightarrow>
      performs R err (\<lambda>_. ()) (k8_delete_endpoints api n rv) w (spec_op eps_part Endpoints_kind (Delete_op n rv) a)"

lemma show_nat_safe: "url_safe (show_nat r)"
proof -
  have "show_nat r \<noteq> []" by (simp add: show_nat_def dec_digits.simps [of r])
  then show ?thesis using show_nat_digits [of _ r] by (force simp: url_safe_def)
qed

lemma tidyD: "tidy k objs \<Longrightarrow> objs n = Some x \<Longrightarrow>
    kd_name k x = n \<and> url_safe n \<and> (\<exists>r. om_resource_version (kd_meta k x) = Some (show_nat r))"
  by (simp add: tidy_def)

lemma well_formed_pod:
  assumes "well_formed a" and "ap_pods a n = Some p"
  obtains r where "om_name (pod_metadata p) = n" "url_safe n" "om_resource_version (pod_metadata p) = Some (show_nat r)"
    "validate_pod p = Inr ()"
  using assms tidyD [of Pod_kind "ap_pods a" n p] that
  by (auto simp: well_formed_def validate_pod_def Pod_kind_def url_safe_def)

lemma well_formed_rs:
  assumes "well_formed a" and "ap_rss a n = Some x"
  obtains r where "om_name (rs_metadata x) = n" "url_safe n" "om_resource_version (rs_metadata x) = Some (show_nat r)"
  using assms tidyD [of ReplicaSet_kind "ap_rss a" n x] that by (auto simp: well_formed_def ReplicaSet_kind_def)

lemma well_formed_ep:
  assumes "well_formed a" and "ap_eps a n = Some x"
  obtains r where "om_name (ep_metadata x) = n" "url_safe n" "om_resource_version (ep_metadata x) = Some (show_nat r)"
  using assms tidyD [of Endpoints_kind "ap_eps a" n x] that by (auto simp: well_formed_def Endpoints_kind_def)

text \<open>What an enumeration of a kind's objects contains.\<close>

lemma enumerates_set: "enumerates objs xs \<Longrightarrow> set xs = ran objs"
  by (force simp: enumerates_def ran_def dom_def)

lemma enumerates_names:
  assumes "enumerates objs xs" and "tidy k objs"
  shows "distinct (map (kd_name k) xs)" and "\<And>x. x \<in> set xs \<Longrightarrow> objs (kd_name k x) = Some x"
proof -
  obtain ns where ns: "distinct ns" "set ns = dom objs" "xs = map (the \<circ> objs) ns" using assms(1) by (auto simp: enumerates_def)
  have nm: "kd_name k (the (objs n)) = n" if "n \<in> set ns" for n using that ns(2) assms(2) by (auto simp: tidy_def)
  then have "map (kd_name k) xs = ns" using ns(3) by (simp add: map_idI)
  then show "distinct (map (kd_name k) xs)" using ns(1) by simp
  show "objs (kd_name k x) = Some x" if "x \<in> set xs" for x
    using that ns tidyD [OF assms(2)] by fastforce
qed

text \<open>A count over an enumeration is the number of stored objects with the property.\<close>

lemma enumerates_count:
  assumes "enumerates objs xs"
  shows "length (filter P xs) = card {n. \<exists>x. objs n = Some x \<and> P x}"
proof -
  obtain ns where ns: "distinct ns" "set ns = dom objs" "xs = map (the \<circ> objs) ns" using assms by (auto simp: enumerates_def)
  have "length (filter P xs) = length (filter (\<lambda>n. P (the (objs n))) ns)" using ns(3) by (simp add: filter_map comp_def)
  also have "\<dots> = card (set (filter (\<lambda>n. P (the (objs n))) ns))" by (metis distinct_card distinct_filter ns(1))
  also have "set (filter (\<lambda>n. P (the (objs n))) ns) = {n. \<exists>x. objs n = Some x \<and> P x}" using ns(2) by auto
  finally show ?thesis .
qed

subsection \<open>Successful calls\<close>

definition with_pods :: "(string \<rightharpoonup> pod) \<Rightarrow> api_spec \<Rightarrow> api_spec" where
  "with_pods m a = a\<lparr>ap_pods := m, ap_rv := saturating_succ (ap_rv a)\<rparr>"

lemma with_pods_simps [simp]:
  "ap_pods (with_pods m a) = m" "ap_rss (with_pods m a) = ap_rss a" "ap_nodes (with_pods m a) = ap_nodes a"
  "ap_svcs (with_pods m a) = ap_svcs a" "ap_eps (with_pods m a) = ap_eps a"
  by (simp_all add: with_pods_def)

lemmas spec_op_defs = spec_op_def part_spec_def with_part_def part_defs spec_put_def spec_checked_def check_rv_def
  current_rv_of_def set_rv_def carry_over_def stamp_for_create_def

context cluster
begin

lemma create_pod_ok:
  assumes "R w a" and "validate_pod p = Inr ()" and "url_safe (om_name (pod_metadata p))" and "ap_pods a (om_name (pod_metadata p)) = None"
  shows "\<exists>w' q. k8_create_pod api p w = (w', Inr q) \<and> R w' (with_pods ((ap_pods a)(om_name (pod_metadata p) \<mapsto> q)) a) \<and>
    om_name (pod_metadata q) = om_name (pod_metadata p) \<and> om_owner_references (pod_metadata q) = om_owner_references (pod_metadata p) \<and>
    pod_spec q = pod_spec p"
proof -
  obtain uuid now where "performs R err id (k8_create_pod api p) w
      (spec_op pods_part Pod_kind (Create_op (stamp_for_create Pod_kind uuid now p)) a)"
    using create_pod [OF assms(1-3)] by blast
  with assms(4) show ?thesis by (auto simp: performs_def spec_op_defs Pod_kind_def with_pods_def)
qed

lemma replace_pod_ok:
  assumes "R w a" and "ap_pods a n = Some p" and "om_name (pod_metadata q) = n" and "validate_pod q = Inr ()"
    and "om_resource_version (pod_metadata q) = om_resource_version (pod_metadata p)"
  shows "\<exists>w' u. k8_replace_pod_spec api q w = (w', Inr u) \<and> R w' (with_pods ((ap_pods a)(n \<mapsto> u)) a) \<and>
    om_name (pod_metadata u) = n \<and> om_owner_references (pod_metadata u) = om_owner_references (pod_metadata q)"
proof -
  obtain r where p: "om_resource_version (pod_metadata p) = Some (show_nat r)" "url_safe n"
    using well_formed_pod [OF shape [OF assms(1)] assms(2)] by metis
  have "performs R err id (k8_replace_pod_spec api q) w (spec_op pods_part Pod_kind (ReplaceSpec_op n q) a)"
    using replace_pod [OF assms(1,4)] p(2) assms(3) by simp
  then show ?thesis using assms(2,3,5) p(1) by (auto simp: performs_def spec_op_defs Pod_kind_def with_pods_def)
qed

lemma delete_pod_ok:
  assumes "R w a" and "ap_pods a n = Some p" and "om_resource_version (pod_metadata p) = Some rv"
  shows "\<exists>w'. k8_delete_pod api n rv w = (w', Inr ()) \<and> R w' (with_pods ((ap_pods a)(n := None)) a)"
proof -
  obtain r where p: "rv = show_nat r" "url_safe n"
    using well_formed_pod [OF shape [OF assms(1)] assms(2)] assms(3) by (metis option.inject)
  have "performs R err (\<lambda>_. ()) (k8_delete_pod api n rv) w (spec_op pods_part Pod_kind (Delete_op n rv) a)"
    using delete_pod [OF assms(1) p(2)] p(1) show_nat_safe by simp
  then show ?thesis using assms(2,3) by (auto simp: performs_def spec_op_defs Pod_kind_def with_pods_def Let_def)
qed

lemma bind_pod_ok:
  assumes "R w a" and "ap_pods a n = Some p" and "node \<noteq> []"
  shows "\<exists>w' u. k8_bind_pod api n node w = (w', Inr u) \<and> R w' (with_pods ((ap_pods a)(n \<mapsto> u)) a) \<and>
    om_name (pod_metadata u) = n \<and> pc_node_name (pod_spec u) = Some node \<and> pc_containers (pod_spec u) = pc_containers (pod_spec p)"
proof -
  obtain r where p: "om_resource_version (pod_metadata p) = Some (show_nat r)" "om_name (pod_metadata p) = n"
    using well_formed_pod [OF shape [OF assms(1)] assms(2)] by metis
  show ?thesis using bind_pod [OF assms(1,3,2)] assms(2) p
    by (auto simp: performs_def spec_op_defs Pod_kind_def with_pods_def set_node_name_def)
qed

lemma rs_status_ok:
  assumes "R w a" and "ap_rss a n = Some rs" and "om_resource_version (rs_metadata rs) = Some rv"
  shows "\<exists>w' u. k8_replace_rs_status api n st rv w = (w', Inr u) \<and>
    R w' (a\<lparr>ap_rss := (ap_rss a)(n \<mapsto> u), ap_rv := saturating_succ (ap_rv a)\<rparr>) \<and>
    rs_status u = Some st \<and> rs_spec u = rs_spec rs \<and> om_generation (rs_metadata u) = om_generation (rs_metadata rs) \<and>
    om_name (rs_metadata u) = n"
proof -
  obtain r where p: "rv = show_nat r" "url_safe n" "om_name (rs_metadata rs) = n"
    using well_formed_rs [OF shape [OF assms(1)] assms(2)] assms(3) by (metis option.inject)
  have "performs R err id (k8_replace_rs_status api n st rv) w
      (spec_op rss_part ReplicaSet_kind (ReplaceStatus_op n rv (\<lambda>r. r\<lparr>rs_status := Some st\<rparr>)) a)"
    using replace_rs_status [OF assms(1) p(2)] p(1) show_nat_safe by simp
  then show ?thesis using assms(2,3) p(3) by (auto simp: performs_def spec_op_defs ReplicaSet_kind_def)
qed

text \<open>The owned pods are adopted or listed as they are; the list names pods of the final world.\<close>

end

end
