(* ===== verification/Replicaset_Convergence.thy ===== *)
theory Replicaset_Convergence
  imports Cluster_Api
begin

text \<open>
  The reconcile function of \<^verbatim>\<open>src/controller/replicaset.rs\<close> on any lawful cluster: one call brings the number of owned pods to
  the desired one, publishes a true status and leaves foreign pods alone; a second call changes nothing; the pods of a
  deleted ReplicaSet are deleted.
\<close>

abbreviation pname :: "pod \<Rightarrow> string" where
  "pname p \<equiv> om_name (pod_metadata p)"

text \<open>The names of the pods a ReplicaSet controls, and the status that is true of them.\<close>

definition owned_pods :: "api_spec \<Rightarrow> string \<Rightarrow> string set" where
  "owned_pods a rs_name = {n. \<exists>p. ap_pods a n = Some p \<and> is_owned_by p rs_name}"

definition true_status :: "api_spec \<Rightarrow> string \<Rightarrow> replicaset \<Rightarrow> replicaset_status" where
  "true_status a rs_name rs =
     \<lparr>rst_replicas = card (owned_pods a rs_name) mod 2 ^ 32,
      rst_ready_replicas = card {n. \<exists>p. ap_pods a n = Some p \<and> is_owned_by p rs_name \<and> pod_is_ready p} mod 2 ^ 32,
      rst_observed_generation = (case om_generation (rs_metadata rs) of Some g \<Rightarrow> g | None \<Rightarrow> 0)\<rparr>"

definition settled :: "api_spec \<Rightarrow> string \<Rightarrow> replicaset \<Rightarrow> bool" where
  "settled a rs_name rs \<longleftrightarrow> card (owned_pods a rs_name) = rss_replicas (rs_spec rs) \<and>
     (\<forall>n p. ap_pods a n = Some p \<longrightarrow> \<not> can_adopt p rs) \<and> rs_status rs = Some (true_status a rs_name rs)"

definition pods_only :: "api_spec \<Rightarrow> api_spec \<Rightarrow> bool" where
  "pods_only a a' \<longleftrightarrow> ap_rss a' = ap_rss a \<and> ap_nodes a' = ap_nodes a \<and> ap_svcs a' = ap_svcs a \<and> ap_eps a' = ap_eps a"

lemma pods_only_refl [simp]: "pods_only a a"
  by (simp add: pods_only_def)

lemma pods_only_with [simp]: "pods_only a (with_pods m a)"
  by (simp add: pods_only_def)

lemma pods_only_trans: "pods_only a b \<Longrightarrow> pods_only b c \<Longrightarrow> pods_only a c"
  by (simp add: pods_only_def)

lemma push_owner_simps [simp]:
  "pname (push_owner r p) = pname p" "om_resource_version (pod_metadata (push_owner r p)) = om_resource_version (pod_metadata p)"
  "om_owner_references (pod_metadata (push_owner r p)) = om_owner_references (pod_metadata p) @ [r]"
  "validate_pod (push_owner r p) = validate_pod p"
  by (simp_all add: push_owner_def validate_pod_def)

lemma owner_ref_owns: "owner_ref rs \<in> set (om_owner_references (pod_metadata p)) \<Longrightarrow> is_owned_by p (om_name (rs_metadata rs))"
  by (auto simp: is_owned_by_def list_ex_iff intro!: bexI [of _ "owner_ref rs"]) (simp_all add: owner_ref_def)

lemma owned_not_adoptable: "is_owned_by p rs_name \<Longrightarrow> \<not> can_adopt p rs"
  by (auto simp: is_owned_by_def can_adopt_def list_ex_iff Let_def)

lemma template_pod:
  "pname (pod_from_template rs s) = om_name (rs_metadata rs) @ ''-'' @ s"
  "om_owner_references (pod_metadata (pod_from_template rs s)) = [owner_ref rs]"
  "pod_spec (pod_from_template rs s) = pt_spec (rss_template (rs_spec rs))"
  by (simp_all add: pod_from_template_def)

text \<open>The statement of convergence for the pods of one phase: which pods changed and who owns them.\<close>

context cluster
begin

lemma gather_owned_ok:
  assumes "R w a" and "distinct (map pname ps)" and "\<forall>p \<in> set ps. ap_pods a (pname p) = Some p"
    and "om_name (rs_metadata rs) = rsn"
  shows "\<exists>w' a' os. gather_owned api rs rsn ps w = (w', os) \<and> R w' a' \<and> pods_only a a' \<and>
    map pname os = map pname (filter (\<lambda>p. is_owned_by p rsn \<or> can_adopt p rs) ps) \<and>
    (\<forall>p \<in> set os. is_owned_by p rsn \<and> ap_pods a' (pname p) = Some p) \<and>
    (\<forall>n. n \<notin> pname ` {p \<in> set ps. can_adopt p rs} \<longrightarrow> ap_pods a' n = ap_pods a n)"
  using assms(1-3)
proof (induction ps arbitrary: w a)
  case Nil
  then show ?case by (intro exI [of _ w] exI [of _ a] exI [of _ "[]"]) simp
next
  case (Cons p ps)
  have cur: "ap_pods a (pname p) = Some p" and fresh: "pname p \<notin> pname ` set ps" using Cons.prems by auto
  show ?case
  proof (cases "\<not> is_owned_by p rsn \<and> can_adopt p rs")
    case True
    have v: "validate_pod p = Inr ()" using well_formed_pod [OF shape [OF Cons.prems(1)] cur] by metis
    obtain w1 u where u: "adopt api p rs w = (w1, Inr u)" "R w1 (with_pods ((ap_pods a)(pname p \<mapsto> u)) a)" "pname u = pname p"
        "om_owner_references (pod_metadata u) = om_owner_references (pod_metadata p) @ [owner_ref rs]"
      using replace_pod_ok [OF Cons.prems(1) cur, of "push_owner (owner_ref rs) p"] v by (auto simp: adopt_def)
    have own: "is_owned_by u rsn" using owner_ref_owns [of rs u] u(4) assms(4) by simp
    have "\<forall>q \<in> set ps. ap_pods (with_pods ((ap_pods a)(pname p \<mapsto> u)) a) (pname q) = Some q"
      using Cons.prems(3) fresh by (auto simp: image_iff)
    from Cons.IH [OF u(2) _ this] Cons.prems(2) obtain w' a' os where s: "gather_owned api rs rsn ps w1 = (w', os)" "R w' a'"
        "pods_only (with_pods ((ap_pods a)(pname p \<mapsto> u)) a) a'"
        "map pname os = map pname (filter (\<lambda>p. is_owned_by p rsn \<or> can_adopt p rs) ps)"
        "\<forall>p \<in> set os. is_owned_by p rsn \<and> ap_pods a' (pname p) = Some p"
        "\<And>n. n \<notin> pname ` {p \<in> set ps. can_adopt p rs} \<Longrightarrow> ap_pods a' n = ((ap_pods a)(pname p \<mapsto> u)) n" by auto
    have "ap_pods a' (pname u) = Some u" using s(6) [of "pname p"] fresh u(3) by auto
    moreover have "ap_pods a' n = ap_pods a n" if "n \<notin> pname ` {q \<in> set (p # ps). can_adopt q rs}" for n
    proof -
      have "n \<noteq> pname p" "n \<notin> pname ` {q \<in> set ps. can_adopt q rs}" using that True by auto
      then show ?thesis using s(6) by simp
    qed
    ultimately show ?thesis using True s(1-5) u own pods_only_trans [OF pods_only_with s(3)]
      by (intro exI [of _ w'] exI [of _ a'] exI [of _ "u # os"]) auto
  next
    case False
    obtain w' a' os where s: "gather_owned api rs rsn ps w = (w', os)" "R w' a'" "pods_only a a'"
        "map pname os = map pname (filter (\<lambda>p. is_owned_by p rsn \<or> can_adopt p rs) ps)"
        "\<forall>p \<in> set os. is_owned_by p rsn \<and> ap_pods a' (pname p) = Some p"
        "\<And>n. n \<notin> pname ` {p \<in> set ps. can_adopt p rs} \<Longrightarrow> ap_pods a' n = ap_pods a n"
      using Cons.IH [OF Cons.prems(1)] Cons.prems(2,3) by auto
    have "ap_pods a' (pname p) = Some p" using s(6) [of "pname p"] fresh cur by auto
    then show ?thesis using False s owned_not_adoptable [of p rsn rs]
      by (intro exI [of _ w'] exI [of _ a'] exI [of _ "if is_owned_by p rsn then p # os else os"]) auto
  qed
qed

lemma create_missing_ok:
  assumes "R w a" and "distinct ss" and "\<forall>s \<in> set ss. url_safe (rsn @ ''-'' @ s) \<and> ap_pods a (rsn @ ''-'' @ s) = None"
    and "om_name (rs_metadata rs) = rsn" and "pc_containers (pt_spec (rss_template (rs_spec rs))) \<noteq> []"
  shows "\<exists>a'. R (create_missing api rs ss w) a' \<and> pods_only a a' \<and>
    (\<forall>n. n \<notin> (\<lambda>s. rsn @ ''-'' @ s) ` set ss \<longrightarrow> ap_pods a' n = ap_pods a n) \<and>
    (\<forall>s \<in> set ss. \<exists>p. ap_pods a' (rsn @ ''-'' @ s) = Some p \<and> is_owned_by p rsn)"
  using assms(1-3)
proof (induction ss arbitrary: w a)
  case Nil
  then show ?case by (intro exI [of _ a]) simp
next
  case (Cons s ss)
  let ?p = "pod_from_template rs s"
  have "validate_pod ?p = Inr ()" using assms(4,5) by (auto simp: validate_pod_def template_pod)
  then obtain w1 q where q: "k8_create_pod api ?p w = (w1, Inr q)" "R w1 (with_pods ((ap_pods a)(rsn @ ''-'' @ s \<mapsto> q)) a)"
      "om_owner_references (pod_metadata q) = [owner_ref rs]"
    using create_pod_ok [OF Cons.prems(1), of ?p] Cons.prems(3) assms(4) by (auto simp: template_pod)
  have own: "is_owned_by q rsn" using owner_ref_owns [of rs q] q(3) assms(4) by simp
  have "\<forall>t \<in> set ss. url_safe (rsn @ ''-'' @ t) \<and> ap_pods (with_pods ((ap_pods a)(rsn @ ''-'' @ s \<mapsto> q)) a) (rsn @ ''-'' @ t) = None"
    using Cons.prems(2,3) by auto
  from Cons.IH [OF q(2) _ this] Cons.prems(2) obtain a' where a': "R (create_missing api rs ss w1) a'"
      "pods_only (with_pods ((ap_pods a)(rsn @ ''-'' @ s \<mapsto> q)) a) a'"
      "\<And>n. n \<notin> (\<lambda>s. rsn @ ''-'' @ s) ` set ss \<Longrightarrow> ap_pods a' n = ((ap_pods a)(rsn @ ''-'' @ s \<mapsto> q)) n"
      "\<forall>s \<in> set ss. \<exists>p. ap_pods a' (rsn @ ''-'' @ s) = Some p \<and> is_owned_by p rsn" by auto
  have "ap_pods a' (rsn @ ''-'' @ s) = Some q" using a'(3) [of "rsn @ ''-'' @ s"] Cons.prems(2) by auto
  then show ?case using a' q(1) own pods_only_trans [OF pods_only_with a'(2)]
    by (intro exI [of _ a']) (auto simp: ignoring_def)
qed

lemma delete_pods_ok:
  assumes "R w a" and "distinct (map pname ps)" and "\<forall>p \<in> set ps. ap_pods a (pname p) = Some p"
  shows "\<exists>a'. R (delete_pods api ps w) a' \<and> pods_only a a' \<and> ap_pods a' = (\<lambda>n. if n \<in> pname ` set ps then None else ap_pods a n)"
  using assms
proof (induction ps arbitrary: w a)
  case (Cons p ps)
  have cur: "ap_pods a (pname p) = Some p" using Cons.prems(3) by simp
  obtain r where r: "om_resource_version (pod_metadata p) = Some (show_nat r)"
    using well_formed_pod [OF shape [OF Cons.prems(1)] cur] by metis
  obtain w1 where w1: "k8_delete_pod api (pname p) (show_nat r) w = (w1, Inr ())" "R w1 (with_pods ((ap_pods a)(pname p := None)) a)"
    using delete_pod_ok [OF Cons.prems(1) cur r] by blast
  have "\<forall>q \<in> set ps. ap_pods (with_pods ((ap_pods a)(pname p := None)) a) (pname q) = Some q"
    using Cons.prems(2,3) by (auto simp: image_iff)
  then obtain a' where "R (delete_pods api ps w1) a'" "pods_only (with_pods ((ap_pods a)(pname p := None)) a) a'"
      "ap_pods a' = (\<lambda>n. if n \<in> pname ` set ps then None else ap_pods (with_pods ((ap_pods a)(pname p := None)) a) n)"
    using Cons.IH [OF w1(2)] Cons.prems(2) by (metis (no_types, lifting) distinct.simps(2) list.simps(9))
  then show ?case using r w1(1) pods_only_trans [OF pods_only_with]
    by (intro exI [of _ a']) (auto simp: ignoring_def)
qed auto

text \<open>Scaling: from the owned pods to the desired number of them.\<close>

definition scaled_to :: "nat \<Rightarrow> string \<Rightarrow> api_spec \<Rightarrow> 'w \<Rightarrow> bool" where
  "scaled_to d rsn a w \<longleftrightarrow> (\<exists>a'. R w a' \<and> pods_only a a' \<and> card (owned_pods a' rsn) = d \<and>
     (\<forall>n p. \<not> is_owned_by p rsn \<longrightarrow> (ap_pods a' n = Some p \<longleftrightarrow> ap_pods a n = Some p)))"

lemma scale_up:
  assumes "R w a" and "finite (owned_pods a rsn)" and "distinct ss"
    and new: "\<forall>s \<in> set ss. url_safe (rsn @ ''-'' @ s) \<and> ap_pods a (rsn @ ''-'' @ s) = None"
    and "om_name (rs_metadata rs) = rsn" and "pc_containers (pt_spec (rss_template (rs_spec rs))) \<noteq> []"
  shows "scaled_to (card (owned_pods a rsn) + length ss) rsn a (create_missing api rs ss w)"
proof -
  let ?nm = "\<lambda>s. rsn @ ''-'' @ s"
  obtain a' where a': "R (create_missing api rs ss w) a'" "pods_only a a'"
      "\<forall>n. n \<notin> ?nm ` set ss \<longrightarrow> ap_pods a' n = ap_pods a n"
      "\<forall>s \<in> set ss. \<exists>p. ap_pods a' (?nm s) = Some p \<and> is_owned_by p rsn"
    using create_missing_ok [OF assms(1,3,4,5,6)] by blast
  have "n \<in> owned_pods a' rsn \<longleftrightarrow> n \<in> owned_pods a rsn \<union> ?nm ` set ss" for n
    using a'(3,4) by (cases "n \<in> ?nm ` set ss") (auto simp: owned_pods_def)
  then have own: "owned_pods a' rsn = owned_pods a rsn \<union> ?nm ` set ss" by blast
  have "card (?nm ` set ss) = card (set ss)" by (rule card_image) (simp add: inj_on_def)
  then have "card (?nm ` set ss) = length ss" using distinct_card [OF assms(3)] by simp
  moreover have "owned_pods a rsn \<inter> ?nm ` set ss = {}" using new by (auto simp: owned_pods_def)
  ultimately have "card (owned_pods a' rsn) = card (owned_pods a rsn) + length ss"
    using own assms(2) by (simp add: card_Un_disjoint)
  moreover have "ap_pods a' n = Some p \<longleftrightarrow> ap_pods a n = Some p" if "\<not> is_owned_by p rsn" for n p
    using a'(3,4) new that by (cases "n \<in> ?nm ` set ss") auto
  ultimately show ?thesis using a'(1,2) unfolding scaled_to_def by blast
qed

lemma scale_down:
  assumes "R w a" and "finite (owned_pods a rsn)" and "distinct (map pname ps)"
    and cur: "\<forall>p \<in> set ps. ap_pods a (pname p) = Some p" and mem: "pname ` set ps \<subseteq> owned_pods a rsn"
  shows "scaled_to (card (owned_pods a rsn) - length ps) rsn a (delete_pods api ps w)"
proof -
  obtain a' where a': "R (delete_pods api ps w) a'" "pods_only a a'"
      "ap_pods a' = (\<lambda>n. if n \<in> pname ` set ps then None else ap_pods a n)"
    using delete_pods_ok [OF assms(1,3,4)] by blast
  have own: "owned_pods a' rsn = owned_pods a rsn - pname ` set ps" using a'(3) by (auto simp: owned_pods_def split: if_splits)
  have "card (pname ` set ps) = length ps" using distinct_card [OF assms(3)] by simp
  then have "card (owned_pods a' rsn) = card (owned_pods a rsn) - length ps"
    using own mem assms(2) by (simp add: card_Diff_subset finite_subset)
  moreover have "ap_pods a' n = Some p \<longleftrightarrow> ap_pods a n = Some p" if "\<not> is_owned_by p rsn" for n p
    using a'(3) that mem by (auto simp: owned_pods_def)
  ultimately show ?thesis using a'(1,2) unfolding scaled_to_def by blast
qed

lemma rs_scale_ok:
  assumes "R w a" and os: "distinct (map pname os)" "set (map pname os) = owned_pods a rsn" "\<forall>p \<in> set os. ap_pods a (pname p) = Some p"
    and "om_name (rs_metadata rs) = rsn" and "pc_containers (pt_spec (rss_template (rs_spec rs))) \<noteq> []"
    and "inj_on sfxs {..<rss_replicas (rs_spec rs)}"
    and "\<forall>i < rss_replicas (rs_spec rs). url_safe (rsn @ ''-'' @ sfxs i) \<and> ap_pods a (rsn @ ''-'' @ sfxs i) = None"
  shows "scaled_to (rss_replicas (rs_spec rs)) rsn a (rs_scale api rs sfxs os w)"
proof -
  let ?d = "rss_replicas (rs_spec rs)"
  have card: "card (owned_pods a rsn) = length os" using os(1,2) by (metis distinct_card length_map)
  have fin: "finite (owned_pods a rsn)" using os(2) by (metis List.finite_set)
  consider (up) "length os < ?d" | (down) "?d < length os" | (same) "?d = length os" by linarith
  then show ?thesis
  proof cases
    case up
    have "distinct (map sfxs [0..<?d - length os])" using assms(7) by (auto simp: distinct_map intro: inj_on_subset)
    then show ?thesis
      using scale_up [OF assms(1) fin _ _ assms(5,6), of "map sfxs [0..<?d - length os]"] assms(8) card up
      by (simp add: rs_scale_def Let_def)
  next
    case down
    let ?sorted = "sort_key (\<lambda>p. om_creation_timestamp (pod_metadata p)) os"
    have sub: "set (take (length os - ?d) ?sorted) \<subseteq> set os" using set_take_subset by fastforce
    have "distinct (map pname ?sorted)" using os(1) by (simp add: distinct_map)
    then have "distinct (map pname (take (length os - ?d) ?sorted))" by (metis distinct_take take_map)
    moreover have "pname ` set (take (length os - ?d) ?sorted) \<subseteq> owned_pods a rsn" using sub os(2) by auto
    ultimately show ?thesis
      using scale_down [OF assms(1) fin, of "take (length os - ?d) ?sorted"] sub os(3) card down
      by (auto simp: rs_scale_def Let_def)
  next
    case same
    then show ?thesis using assms(1) card unfolding scaled_to_def by (intro exI [of _ a]) (simp add: rs_scale_def)
  qed
qed

lemma new_status_true:
  assumes "enumerates (ap_pods a) ps"
  shows "new_rs_status rs (filter (\<lambda>p. is_owned_by p rsn) ps) = true_status a rsn rs"
  using enumerates_count [OF assms, of "\<lambda>p. is_owned_by p rsn"] enumerates_count [OF assms, of "\<lambda>p. is_owned_by p rsn \<and> pod_is_ready p"]
  by (simp add: new_rs_status_def true_status_def owned_pods_def conj_commute)

lemma true_status_cong: "ap_pods a' = ap_pods a \<Longrightarrow> om_generation (rs_metadata rs') = om_generation (rs_metadata rs) \<Longrightarrow>
    true_status a' rsn rs' = true_status a rsn rs"
  by (simp add: true_status_def owned_pods_def)

lemma update_status_ok:
  assumes "R w a" and "ap_rss a rsn = Some rs"
  shows "\<exists>w' a' rs'. update_status api rsn rs w = (w', Inr ()) \<and> R w' a' \<and> ap_pods a' = ap_pods a \<and>
    ap_rss a' = (ap_rss a)(rsn \<mapsto> rs') \<and> rs_spec rs' = rs_spec rs \<and> rs_status rs' = Some (true_status a' rsn rs') \<and>
    (rs_status rs = Some (true_status a rsn rs) \<longrightarrow> a' = a)"
proof -
  obtain r where r: "om_resource_version (rs_metadata rs) = Some (show_nat r)"
    using well_formed_rs [OF shape [OF assms(1)] assms(2)] by metis
  obtain ps w1 where ps: "enumerates (ap_pods a) ps" "k8_list_pods api w = (w1, Inr ps)" "R w1 a"
    using list_pods [OF assms(1)] by (auto simp: reads_def)
  note st = new_status_true [OF ps(1), of rs rsn]
  show ?thesis
  proof (cases "rs_status rs = Some (true_status a rsn rs)")
    case True
    then show ?thesis using ps(2,3) assms(2) st r
      by (intro exI [of _ w1] exI [of _ a] exI [of _ rs]) (auto simp: update_status_def and_then_def)
  next
    case False
    obtain w2 u where u: "k8_replace_rs_status api rsn (true_status a rsn rs) (show_nat r) w1 = (w2, Inr u)"
        "R w2 (a\<lparr>ap_rss := (ap_rss a)(rsn \<mapsto> u), ap_rv := saturating_succ (ap_rv a)\<rparr>)"
        "rs_status u = Some (true_status a rsn rs)" "rs_spec u = rs_spec rs"
        "om_generation (rs_metadata u) = om_generation (rs_metadata rs)"
      using rs_status_ok [OF ps(3) assms(2) r] by blast
    let ?a = "a\<lparr>ap_rss := (ap_rss a)(rsn \<mapsto> u), ap_rv := saturating_succ (ap_rv a)\<rparr>"
    have "true_status ?a rsn u = true_status a rsn rs" using u(5) by (intro true_status_cong) simp_all
    then show ?thesis using ps(2) st r False u
      by (intro exI [of _ w2] exI [of _ ?a] exI [of _ u]) (simp add: update_status_def and_then_def)
  qed
qed

text \<open>After gathering, the list is exactly the owned pods, and no orphan that matches is left.\<close>

lemma gather_phase:
  assumes "R w a" and ps: "enumerates (ap_pods a) ps" and "om_name (rs_metadata rs) = rsn"
  shows "\<exists>w' a1 os. gather_owned api rs rsn ps w = (w', os) \<and> R w' a1 \<and> pods_only a a1 \<and>
    distinct (map pname os) \<and> set (map pname os) = owned_pods a1 rsn \<and> (\<forall>p \<in> set os. ap_pods a1 (pname p) = Some p) \<and>
    (\<forall>n p. ap_pods a1 n = Some p \<longrightarrow> \<not> can_adopt p rs) \<and>
    (\<forall>n p. \<not> is_owned_by p rsn \<longrightarrow> \<not> can_adopt p rs \<longrightarrow> (ap_pods a1 n = Some p \<longleftrightarrow> ap_pods a n = Some p)) \<and>
    (\<forall>n. ap_pods a n = None \<longrightarrow> ap_pods a1 n = None)"
proof -
  have tidy: "tidy Pod_kind (ap_pods a)" using shape [OF assms(1)] by (simp add: well_formed_def)
  have nm: "distinct (map pname ps)" "\<forall>p \<in> set ps. ap_pods a (pname p) = Some p"
    using enumerates_names [OF ps tidy] by (simp_all add: Pod_kind_def)
  obtain w3 a1 os where g: "gather_owned api rs rsn ps w = (w3, os)" "R w3 a1" "pods_only a a1"
      "map pname os = map pname (filter (\<lambda>p. is_owned_by p rsn \<or> can_adopt p rs) ps)"
      "\<forall>p \<in> set os. is_owned_by p rsn \<and> ap_pods a1 (pname p) = Some p"
      "\<And>n. n \<notin> pname ` {p \<in> set ps. can_adopt p rs} \<Longrightarrow> ap_pods a1 n = ap_pods a n"
    using gather_owned_ok [OF assms(1) nm assms(3)] by blast
  have all: "p \<in> set ps \<and> pname p = n" if "ap_pods a n = Some p" for n p
    using that enumerates_set [OF ps] tidyD [OF tidy that] by (auto simp: ran_def Pod_kind_def)
  have in_os: "pname ` {p \<in> set ps. is_owned_by p rsn \<or> can_adopt p rs} = pname ` set os"
    using arg_cong [OF g(4), of set] by simp
  have adopted: "\<exists>u. ap_pods a1 n = Some u \<and> is_owned_by u rsn" if "n \<in> pname ` {p \<in> set ps. can_adopt p rs}" for n
    using that in_os g(5) by (metis (mono_tags, lifting) image_iff mem_Collect_eq)
  have owned1: "set (map pname os) = owned_pods a1 rsn" (is "?l = ?r")
  proof
    show "?l \<subseteq> ?r" using g(5) by (auto simp: owned_pods_def)
    show "?r \<subseteq> ?l"
    proof
      fix n assume "n \<in> ?r"
      then obtain p where p: "ap_pods a1 n = Some p" "is_owned_by p rsn" by (auto simp: owned_pods_def)
      then have "n \<in> pname ` {p \<in> set ps. is_owned_by p rsn \<or> can_adopt p rs}"
        using g(6) [of n] all [of n p] by (cases "n \<in> pname ` {p \<in> set ps. can_adopt p rs}") auto
      then show "n \<in> ?l" using in_os by simp
    qed
  qed
  have gone: "\<not> can_adopt p rs" if "ap_pods a1 n = Some p" for n p
  proof (cases "n \<in> pname ` {p \<in> set ps. can_adopt p rs}")
    case True
    then show ?thesis using that adopted [OF True] owned_not_adoptable by auto
  next
    case False
    then have "p \<in> set ps" "pname p = n" using that g(6) all by simp_all
    then show ?thesis using False by auto
  qed
  have foreign: "ap_pods a1 n = Some p \<longleftrightarrow> ap_pods a n = Some p" if p: "\<not> is_owned_by p rsn" "\<not> can_adopt p rs" for n p
    using p adopted [of n] g(6) [of n] nm(2) by (cases "n \<in> pname ` {p \<in> set ps. can_adopt p rs}") auto
  have none: "ap_pods a1 n = None" if "ap_pods a n = None" for n
    using that g(6) [of n] nm(2) by (cases "n \<in> pname ` {p \<in> set ps. can_adopt p rs}") auto
  have "distinct (map pname os)" using nm(1) g(4) by (metis distinct_map_filter)
  then show ?thesis using g(1-3,5) owned1 gone foreign none by blast
qed

text \<open>One call of reconcile.\<close>

lemma rs_reconcile_ok:
  assumes "R w a" and "ap_rss a rsn = Some rs" and "pc_containers (pt_spec (rss_template (rs_spec rs))) \<noteq> []"
    and "inj_on sfxs {..<rss_replicas (rs_spec rs)}"
    and "\<forall>i < rss_replicas (rs_spec rs). url_safe (rsn @ ''-'' @ sfxs i) \<and> ap_pods a (rsn @ ''-'' @ sfxs i) = None"
  shows "\<exists>w' a' rs'. rs_reconcile api sfxs rsn w = (w', Inr ()) \<and> R w' a' \<and> ap_rss a' = (ap_rss a)(rsn \<mapsto> rs') \<and>
    rs_spec rs' = rs_spec rs \<and> settled a' rsn rs' \<and>
    (\<forall>n p. \<not> is_owned_by p rsn \<longrightarrow> \<not> can_adopt p rs \<longrightarrow> (ap_pods a' n = Some p \<longleftrightarrow> ap_pods a n = Some p))"
proof -
  have wf: "well_formed a" by (rule shape [OF assms(1)])
  obtain rv where rs: "om_name (rs_metadata rs) = rsn" "url_safe rsn" using well_formed_rs [OF wf assms(2)] by metis
  obtain w1 where w1: "k8_get_replicaset api rsn w = (w1, Inr (Some rs))" "R w1 a"
    using get_replicaset [OF assms(1) rs(2)] assms(2) by (auto simp: reads_def)
  obtain ps w2 where ps: "enumerates (ap_pods a) ps" "k8_list_pods api w1 = (w2, Inr ps)" "R w2 a"
    using list_pods [OF w1(2)] by (auto simp: reads_def)
  obtain w3 a1 os where g: "gather_owned api rs rsn ps w2 = (w3, os)" "R w3 a1" "pods_only a a1" "distinct (map pname os)"
      "set (map pname os) = owned_pods a1 rsn" "\<forall>p \<in> set os. ap_pods a1 (pname p) = Some p"
      "\<And>n p. ap_pods a1 n = Some p \<Longrightarrow> \<not> can_adopt p rs"
      "\<And>n p. \<not> is_owned_by p rsn \<Longrightarrow> \<not> can_adopt p rs \<Longrightarrow> ap_pods a1 n = Some p \<longleftrightarrow> ap_pods a n = Some p"
      "\<And>n. ap_pods a n = None \<Longrightarrow> ap_pods a1 n = None"
    using gather_phase [OF ps(3,1) rs(1)] by blast
  have "\<forall>i < rss_replicas (rs_spec rs). url_safe (rsn @ ''-'' @ sfxs i) \<and> ap_pods a1 (rsn @ ''-'' @ sfxs i) = None"
    using assms(5) g(9) by blast
  then obtain a2 where a2: "R (rs_scale api rs sfxs os w3) a2" "pods_only a1 a2" "card (owned_pods a2 rsn) = rss_replicas (rs_spec rs)"
      "\<And>n p. \<not> is_owned_by p rsn \<Longrightarrow> ap_pods a2 n = Some p \<longleftrightarrow> ap_pods a1 n = Some p"
    using rs_scale_ok [OF g(2,4-6) rs(1) assms(3,4)] unfolding scaled_to_def by blast
  have rss: "ap_rss a2 = ap_rss a" using g(3) a2(2) by (simp add: pods_only_def)
  obtain w4 a3 rs' where u: "update_status api rsn rs (rs_scale api rs sfxs os w3) = (w4, Inr ())" "R w4 a3" "ap_pods a3 = ap_pods a2"
      "ap_rss a3 = (ap_rss a)(rsn \<mapsto> rs')" "rs_spec rs' = rs_spec rs" "rs_status rs' = Some (true_status a3 rsn rs')"
    using update_status_ok [OF a2(1)] rss assms(2) by metis
  have "\<not> can_adopt p rs'" if "ap_pods a3 n = Some p" for n p
  proof (cases "is_owned_by p rsn")
    case True
    then show ?thesis by (rule owned_not_adoptable)
  next
    case False
    then have "\<not> can_adopt p rs" using that u(3) a2(4) g(7) by simp
    then show ?thesis using u(5) by (simp add: can_adopt_def)
  qed
  then have "settled a3 rsn rs'" using u(3,5,6) a2(3) by (simp add: settled_def owned_pods_def)
  moreover have "rs_reconcile api sfxs rsn w = (w4, Inr ())"
    using w1(1) ps(2) g(1) u(1) by (simp add: rs_reconcile_def and_then_def)
  moreover have "ap_pods a3 n = Some p \<longleftrightarrow> ap_pods a n = Some p" if "\<not> is_owned_by p rsn" "\<not> can_adopt p rs" for n p
    using u(3) a2(4) g(8) that by simp
  ultimately show ?thesis using u(2,4,5) by blast
qed

text \<open>A settled ReplicaSet is left alone.\<close>

lemma gather_settled:
  "\<forall>p \<in> set ps. \<not> can_adopt p rs \<Longrightarrow> gather_owned api rs rsn ps w = (w, filter (\<lambda>p. is_owned_by p rsn) ps)"
  by (induction ps) auto

lemma rs_reconcile_stable:
  assumes "R w a" and "ap_rss a rsn = Some rs" and "settled a rsn rs"
  shows "\<exists>w'. rs_reconcile api sfxs rsn w = (w', Inr ()) \<and> R w' a"
proof -
  have safe: "url_safe rsn" using well_formed_rs [OF shape [OF assms(1)] assms(2)] by metis
  obtain w1 where w1: "k8_get_replicaset api rsn w = (w1, Inr (Some rs))" "R w1 a"
    using get_replicaset [OF assms(1) safe] assms(2) by (auto simp: reads_def)
  obtain ps w2 where ps: "enumerates (ap_pods a) ps" "k8_list_pods api w1 = (w2, Inr ps)" "R w2 a"
    using list_pods [OF w1(2)] by (auto simp: reads_def)
  have "\<forall>p \<in> set ps. \<not> can_adopt p rs" using assms(3) enumerates_set [OF ps(1)] by (auto simp: settled_def ran_def)
  note g = gather_settled [OF this, of rsn w2]
  have "length (filter (\<lambda>p. is_owned_by p rsn) ps) = rss_replicas (rs_spec rs)"
    using enumerates_count [OF ps(1)] assms(3) by (simp add: settled_def owned_pods_def)
  then have "rs_scale api rs sfxs (filter (\<lambda>p. is_owned_by p rsn) ps) w2 = w2" by (simp add: rs_scale_def)
  moreover obtain w3 where "update_status api rsn rs w2 = (w3, Inr ())" "R w3 a"
    using update_status_ok [OF ps(3) assms(2)] assms(3) by (auto simp: settled_def)
  ultimately show ?thesis using w1(1) ps(2) g by (simp add: rs_reconcile_def and_then_def)
qed

text \<open>The pods of a ReplicaSet that is gone are deleted.\<close>

lemma rs_cascade_ok:
  assumes "R w a" and "ap_rss a rsn = None" and "url_safe rsn"
  shows "\<exists>w' a'. rs_reconcile api sfxs rsn w = (w', Inr ()) \<and> R w' a' \<and> pods_only a a' \<and>
    ap_pods a' = (\<lambda>n. if n \<in> owned_pods a rsn then None else ap_pods a n)"
proof -
  obtain w1 where w1: "k8_get_replicaset api rsn w = (w1, Inr None)" "R w1 a"
    using get_replicaset [OF assms(1,3)] assms(2) by (auto simp: reads_def)
  obtain ps w2 where ps: "enumerates (ap_pods a) ps" "k8_list_pods api w1 = (w2, Inr ps)" "R w2 a"
    using list_pods [OF w1(2)] by (auto simp: reads_def)
  have tidy: "tidy Pod_kind (ap_pods a)" using shape [OF assms(1)] by (simp add: well_formed_def)
  note nm = enumerates_names [OF ps(1) tidy]
  let ?os = "filter (\<lambda>p. is_owned_by p rsn) ps"
  have "distinct (map pname ?os)" "\<forall>p \<in> set ?os. ap_pods a (pname p) = Some p"
    using nm by (simp_all add: Pod_kind_def distinct_map_filter)
  then obtain a' where a': "R (delete_pods api ?os w2) a'" "pods_only a a'"
      "ap_pods a' = (\<lambda>n. if n \<in> pname ` set ?os then None else ap_pods a n)"
    using delete_pods_ok [OF ps(3)] by blast
  have "pname ` set ?os = owned_pods a rsn"
    using nm(2) enumerates_set [OF ps(1)] tidyD [OF tidy] by (force simp: owned_pods_def ran_def Pod_kind_def)
  then show ?thesis using w1(1) ps(2) a'
    by (intro exI [of _ "delete_pods api ?os w2"] exI [of _ a']) (simp add: rs_reconcile_def cascade_delete_def and_then_def)
qed

end

end
