(* ===== verification/Service_Placement.thy ===== *)
theory Service_Placement
  imports Replicaset_Convergence "HOL-Library.Multiset"
begin

text \<open>
  The reconcile function of \<^verbatim>\<open>src/controller/endpoints.rs\<close> and the \<open>schedule\<close> function of
  \<^verbatim>\<open>src/scheduler.rs\<close> on any lawful cluster: endpoints list exactly the running pods that a service selects and are
  written only when they change; an unbound pod is bound to a ready node with the fewest pods.
\<close>

subsection \<open>Endpoints\<close>

text \<open>The addresses a service should have: those of its running pods, in the order of their addresses.\<close>

definition backend_pods :: "api_spec \<Rightarrow> service \<Rightarrow> string set" where
  "backend_pods a svc = {n. \<exists>p. ap_pods a n = Some p \<and> pod_matches p (sv_selector (svc_spec svc)) \<and> backend_ip p \<noteq> None}"

definition true_backends :: "api_spec \<Rightarrow> service \<Rightarrow> endpoint_address list" where
  "true_backends a svc =
     map (\<lambda>ip. \<lparr>ea_ip = ip, ea_port = sv_target_port (svc_spec svc)\<rparr>)
       (sorted_list_of_multiset (image_mset (\<lambda>n. the (backend_ip (the (ap_pods a n)))) (mset_set (backend_pods a svc))))"

lemma insort_key_map: "insort_key f (g x) (map g xs) = map g (insort_key (f \<circ> g) x xs)"
  by (induction xs) auto

lemma sort_key_map: "sort_key f (map g xs) = map g (sort_key (f \<circ> g) xs)"
  by (induction xs) (simp_all add: insort_key_map comp_def)

lemma map_filter_option:
  "List.map_filter (\<lambda>p. map_option g (h p)) (filter P xs) = map g (map (\<lambda>p. the (h p)) (filter (\<lambda>p. P p \<and> h p \<noteq> None) xs))"
  by (induction xs) (auto simp: map_filter_simps)

lemma backends_true:
  assumes "enumerates (ap_pods a) ps"
  shows "backends svc ps = true_backends a svc"
proof -
  let ?mk = "\<lambda>ip. \<lparr>ea_ip = ip, ea_port = sv_target_port (svc_spec svc)\<rparr>" and ?sel = "sv_selector (svc_spec svc)"
  let ?ip = "\<lambda>n. the (backend_ip (the (ap_pods a n)))"
  obtain ns where ns: "distinct ns" "set ns = dom (ap_pods a)" "ps = map (the \<circ> ap_pods a) ns"
    using assms by (auto simp: enumerates_def)
  let ?ns = "filter (\<lambda>n. pod_matches (the (ap_pods a n)) ?sel \<and> backend_ip (the (ap_pods a n)) \<noteq> None) ns"
  have "List.map_filter (\<lambda>p. map_option ?mk (backend_ip p)) (filter (\<lambda>p. pod_matches p ?sel) ps) = map ?mk (map ?ip ?ns)"
    unfolding map_filter_option ns(3) by (simp add: filter_map comp_def)
  then have "backends svc ps = map ?mk (sort (map ?ip ?ns))"
    by (simp only: backends_def sort_key_map) (simp add: comp_def)
  moreover have "set ?ns = backend_pods a svc" using ns(2) by (auto simp: backend_pods_def)
  then have "mset ?ns = mset_set (backend_pods a svc)" by (simp only: mset_set_set [OF distinct_filter [OF ns(1)], symmetric])
  then have "sort (map ?ip ?ns) = sorted_list_of_multiset (image_mset ?ip (mset_set (backend_pods a svc)))"
    by (simp add: sorted_list_of_multiset_mset [symmetric])
  ultimately show ?thesis by (simp add: true_backends_def)
qed

definition with_eps :: "(string \<rightharpoonup> endpoints) \<Rightarrow> api_spec \<Rightarrow> api_spec" where
  "with_eps m a = a\<lparr>ap_eps := m, ap_rv := saturating_succ (ap_rv a)\<rparr>"

lemma with_eps_simps [simp]:
  "ap_eps (with_eps m a) = m" "ap_pods (with_eps m a) = ap_pods a" "ap_svcs (with_eps m a) = ap_svcs a"
  by (simp_all add: with_eps_def)

context cluster
begin

lemma create_endpoints_ok:
  assumes "R w a" and "url_safe (om_name (ep_metadata e))" and "ap_eps a (om_name (ep_metadata e)) = None"
  shows "\<exists>w' u. k8_create_endpoints api e w = (w', Inr u) \<and> R w' (with_eps ((ap_eps a)(om_name (ep_metadata e) \<mapsto> u)) a) \<and>
    ep_addresses u = ep_addresses e"
proof -
  obtain uuid now where "performs R err id (k8_create_endpoints api e) w
      (spec_op eps_part Endpoints_kind (Create_op (stamp_for_create Endpoints_kind uuid now e)) a)"
    using create_endpoints [OF assms(1,2)] by blast
  with assms(3) show ?thesis by (auto simp: performs_def spec_op_defs Endpoints_kind_def with_eps_def)
qed

lemma replace_endpoints_ok:
  assumes "R w a" and "ap_eps a n = Some e" and "om_name (ep_metadata u) = n"
    and "om_resource_version (ep_metadata u) = om_resource_version (ep_metadata e)"
  shows "\<exists>w' v. k8_replace_endpoints api u w = (w', Inr v) \<and> R w' (with_eps ((ap_eps a)(n \<mapsto> v)) a) \<and> ep_addresses v = ep_addresses u"
proof -
  obtain r where e: "url_safe n" "om_resource_version (ep_metadata e) = Some (show_nat r)"
    using well_formed_ep [OF shape [OF assms(1)] assms(2)] by metis
  have "performs R err id (k8_replace_endpoints api u) w (spec_op eps_part Endpoints_kind (ReplaceSpec_op n u) a)"
    using replace_endpoints [OF assms(1), of u] e(1) assms(3) by simp
  then show ?thesis using assms(2-4) e(2) by (auto simp: performs_def spec_op_defs Endpoints_kind_def with_eps_def)
qed

lemma delete_endpoints_ok:
  assumes "R w a" and "ap_eps a n = Some e" and "om_resource_version (ep_metadata e) = Some rv"
  shows "\<exists>w'. k8_delete_endpoints api n rv w = (w', Inr ()) \<and> R w' (with_eps ((ap_eps a)(n := None)) a)"
proof -
  obtain r where e: "url_safe n" "rv = show_nat r"
    using well_formed_ep [OF shape [OF assms(1)] assms(2)] assms(3) by (metis option.inject)
  have "performs R err (\<lambda>_. ()) (k8_delete_endpoints api n rv) w (spec_op eps_part Endpoints_kind (Delete_op n rv) a)"
    using delete_endpoints [OF assms(1) e(1)] e(2) show_nat_safe by simp
  then show ?thesis using assms(2,3) by (auto simp: performs_def spec_op_defs Endpoints_kind_def with_eps_def Let_def)
qed

lemma write_endpoints_ok:
  assumes "R w a" and "url_safe n"
  shows "\<exists>w' a' e. write_endpoints api n xs w = (w', Inr ()) \<and> R w' a' \<and> ap_eps a' = (ap_eps a)(n \<mapsto> e) \<and> ep_addresses e = xs \<and>
    ap_pods a' = ap_pods a \<and> ap_svcs a' = ap_svcs a \<and> (map_option ep_addresses (ap_eps a n) = Some xs \<longrightarrow> a' = a)"
proof -
  obtain w1 where w1: "k8_get_endpoints api n w = (w1, Inr (ap_eps a n))" "R w1 a"
    using get_endpoints [OF assms] by (auto simp: reads_def)
  show ?thesis
  proof (cases "ap_eps a n")
    case None
    have n: "om_name (ep_metadata (new_endpoints n xs)) = n" "ep_addresses (new_endpoints n xs) = xs" by (simp_all add: new_endpoints_def)
    obtain w2 u where "k8_create_endpoints api (new_endpoints n xs) w1 = (w2, Inr u)" "R w2 (with_eps ((ap_eps a)(n \<mapsto> u)) a)"
        "ep_addresses u = xs"
      using create_endpoints_ok [OF w1(2), of "new_endpoints n xs"] assms(2) None n by metis
    then show ?thesis using None w1(1)
      by (intro exI [of _ w2] exI [of _ "with_eps ((ap_eps a)(n \<mapsto> u)) a"] exI [of _ u]) (simp add: write_endpoints_def and_then_def)
  next
    case (Some e)
    obtain r where e: "om_name (ep_metadata e) = n" "om_resource_version (ep_metadata e) = Some (show_nat r)"
      using well_formed_ep [OF shape [OF assms(1)] Some] by metis
    show ?thesis
    proof (cases "ep_addresses e = xs")
      case True
      then show ?thesis using w1 Some
        by (intro exI [of _ w1] exI [of _ a] exI [of _ e]) (auto simp: write_endpoints_def and_then_def)
    next
      case False
      obtain w2 u where "k8_replace_endpoints api (e\<lparr>ep_addresses := xs\<rparr>) w1 = (w2, Inr u)" "R w2 (with_eps ((ap_eps a)(n \<mapsto> u)) a)"
          "ep_addresses u = xs"
        using replace_endpoints_ok [OF w1(2) Some, of "e\<lparr>ep_addresses := xs\<rparr>"] e(1) by auto
      then show ?thesis using Some w1(1) False
        by (intro exI [of _ w2] exI [of _ "with_eps ((ap_eps a)(n \<mapsto> u)) a"] exI [of _ u]) (simp add: write_endpoints_def and_then_def)
    qed
  qed
qed

lemma ep_reconcile_ok:
  assumes "R w a" and "ap_svcs a n = Some svc"
  shows "\<exists>w' a' e. ep_reconcile api n w = (w', Inr ()) \<and> R w' a' \<and> ap_eps a' = (ap_eps a)(n \<mapsto> e) \<and>
    ep_addresses e = true_backends a svc \<and> ap_pods a' = ap_pods a \<and> ap_svcs a' = ap_svcs a \<and>
    (map_option ep_addresses (ap_eps a n) = Some (true_backends a svc) \<longrightarrow> a' = a)"
proof -
  have safe: "url_safe n" using shape [OF assms(1)] assms(2) by (auto simp: well_formed_def dest: tidyD)
  obtain w1 where w1: "k8_get_service api n w = (w1, Inr (Some svc))" "R w1 a"
    using get_service [OF assms(1) safe] assms(2) by (auto simp: reads_def)
  obtain ps w2 where ps: "enumerates (ap_pods a) ps" "k8_list_pods api w1 = (w2, Inr ps)" "R w2 a"
    using list_pods [OF w1(2)] by (auto simp: reads_def)
  have "ep_reconcile api n w = write_endpoints api n (true_backends a svc) w2"
    using w1(1) ps(2) backends_true [OF ps(1)] by (simp add: ep_reconcile_def and_then_def)
  then show ?thesis using write_endpoints_ok [OF ps(3) safe, of "true_backends a svc"] by simp
qed

lemma ep_gone_ok:
  assumes "R w a" and "ap_svcs a n = None" and "url_safe n"
  shows "\<exists>w' a'. ep_reconcile api n w = (w', Inr ()) \<and> R w' a' \<and> ap_eps a' = (ap_eps a)(n := None) \<and>
    ap_pods a' = ap_pods a \<and> ap_svcs a' = ap_svcs a"
proof -
  obtain w1 where w1: "k8_get_service api n w = (w1, Inr None)" "R w1 a"
    using get_service [OF assms(1,3)] assms(2) by (auto simp: reads_def)
  obtain w2 where w2: "k8_get_endpoints api n w1 = (w2, Inr (ap_eps a n))" "R w2 a"
    using get_endpoints [OF w1(2) assms(3)] by (auto simp: reads_def)
  show ?thesis
  proof (cases "ap_eps a n")
    case None
    then show ?thesis using w1(1) w2 by (intro exI [of _ w2] exI [of _ a]) (auto simp: ep_reconcile_def and_then_def)
  next
    case (Some e)
    obtain r where e: "om_resource_version (ep_metadata e) = Some (show_nat r)"
      using well_formed_ep [OF shape [OF assms(1)] Some] by metis
    obtain w3 where "k8_delete_endpoints api n (show_nat r) w2 = (w3, Inr ())" "R w3 (with_eps ((ap_eps a)(n := None)) a)"
      using delete_endpoints_ok [OF w2(2) Some e] by blast
    then show ?thesis using w1(1) w2(1) Some e
      by (intro exI [of _ w3] exI [of _ "with_eps ((ap_eps a)(n := None)) a"]) (simp add: ep_reconcile_def and_then_def ignoring_def)
  qed
qed

end

subsection \<open>Scheduling\<close>

definition node_load :: "api_spec \<Rightarrow> string \<Rightarrow> nat" where
  "node_load a node = card {n. \<exists>p. ap_pods a n = Some p \<and> pc_node_name (pod_spec p) = Some node}"

lemma min_by_key_least: "xs \<noteq> [] \<Longrightarrow> \<exists>y. min_by_key f xs = Some y \<and> y \<in> set xs \<and> (\<forall>x \<in> set xs. f y \<le> f x)"
proof (induction xs)
  case (Cons x xs)
  then show ?case by (cases "xs = []") (force simp: not_less intro: le_trans)+
qed simp

lemma initial_load_lookup: "initial_load cs n = (if n \<in> (\<lambda>c. om_name (node_metadata c)) ` set cs then Some 0 else None)"
  by (induction cs) (auto simp: initial_load_def)

lemma load_counts:
  "fold count_pod ps load n = map_option (\<lambda>v. v + length (filter (\<lambda>p. pc_node_name (pod_spec p) = Some n) ps)) (load n)"
  by (induction ps arbitrary: load) (auto simp: count_pod_def option.map_comp comp_def option.map_ident split: option.splits)

lemma choose_node_least:
  assumes "cs \<noteq> []"
  shows "\<exists>best \<in> set cs. choose_node cs ps = Some best \<and>
    (\<forall>c \<in> set cs. length (filter (\<lambda>p. pc_node_name (pod_spec p) = Some (om_name (node_metadata best))) ps) \<le>
       length (filter (\<lambda>p. pc_node_name (pod_spec p) = Some (om_name (node_metadata c))) ps))"
proof -
  let ?key = "\<lambda>c. the (fold count_pod ps (initial_load cs) (om_name (node_metadata c)))"
  have key: "?key c = length (filter (\<lambda>p. pc_node_name (pod_spec p) = Some (om_name (node_metadata c))) ps)" if "c \<in> set cs" for c
    using that by (auto simp: load_counts initial_load_lookup)
  obtain best where "min_by_key ?key cs = Some best" "best \<in> set cs" "\<forall>c \<in> set cs. ?key best \<le> ?key c"
    using min_by_key_least [OF assms] by blast
  then show ?thesis using key by (intro bexI [of _ best]) (simp_all add: choose_node_def)
qed

context cluster
begin

lemma schedule_ok:
  assumes "R w a" and "ap_pods a n = Some p" and "pc_node_name (pod_spec p) = None"
    and "ap_nodes a m = Some nd" and "is_schedulable prs now nd"
  shows "\<exists>w' a' u best. schedule api prs now n w = (w', Inr ()) \<and> R w' a' \<and> pods_only a a' \<and> ap_pods a' = (ap_pods a)(n \<mapsto> u) \<and>
    pc_node_name (pod_spec u) = Some best \<and> (\<exists>x. ap_nodes a best = Some x \<and> is_schedulable prs now x) \<and>
    (\<forall>c x. ap_nodes a c = Some x \<longrightarrow> is_schedulable prs now x \<longrightarrow> node_load a best \<le> node_load a c)"
proof -
  have wf: "well_formed a" by (rule shape [OF assms(1)])
  have tidy: "tidy Node_kind (ap_nodes a)" using wf by (simp add: well_formed_def)
  have safe: "url_safe n" using well_formed_pod [OF wf assms(2)] by metis
  obtain w1 where w1: "k8_get_pod api n w = (w1, Inr (Some p))" "R w1 a"
    using get_pod [OF assms(1) safe] assms(2) by (auto simp: reads_def)
  obtain ns w2 where ns: "enumerates (ap_nodes a) ns" "k8_list_nodes api w1 = (w2, Inr ns)" "R w2 a"
    using list_nodes [OF w1(2)] by (auto simp: reads_def)
  obtain ps w3 where ps: "enumerates (ap_pods a) ps" "k8_list_pods api w2 = (w3, Inr ps)" "R w3 a"
    using list_pods [OF ns(3)] by (auto simp: reads_def)
  let ?cs = "filter (is_schedulable prs now) ns"
  have load: "length (filter (\<lambda>p. pc_node_name (pod_spec p) = Some c) ps) = node_load a c" for c
    using enumerates_count [OF ps(1)] by (simp add: node_load_def)
  have "nd \<in> set ?cs" using enumerates_set [OF ns(1)] assms(4,5) by (auto simp: ran_def)
  then have ne: "?cs \<noteq> []" by (metis empty_iff empty_set)
  obtain best where b: "best \<in> set ?cs" "choose_node ?cs ps = Some best"
      "\<forall>c \<in> set ?cs. node_load a (om_name (node_metadata best)) \<le> node_load a (om_name (node_metadata c))"
    using choose_node_least [OF ne, of ps] unfolding load by blast
  let ?b = "om_name (node_metadata best)"
  have bn: "ap_nodes a ?b = Some best" using enumerates_names(2) [OF ns(1) tidy] b(1) by (simp add: Node_kind_def)
  have "?b \<noteq> []" using tidyD [OF tidy bn] by (auto simp: url_safe_def)
  then obtain w4 u where u: "k8_bind_pod api n ?b w3 = (w4, Inr u)" "R w4 (with_pods ((ap_pods a)(n \<mapsto> u)) a)"
      "pc_node_name (pod_spec u) = Some ?b"
    using bind_pod_ok [OF ps(3) assms(2)] by blast
  have "node_load a ?b \<le> node_load a c" if "ap_nodes a c = Some x" "is_schedulable prs now x" for c x
    using that b(3) enumerates_set [OF ns(1)] tidyD [OF tidy that(1)] by (auto simp: ran_def Node_kind_def)
  moreover have "schedule api prs now n w = (w4, Inr ())"
    using w1(1) ns(2) ps(2) ne b(2) u(1) assms(3) by (simp add: schedule_def sched_call_def Let_def)
  ultimately show ?thesis using u(2,3) bn b(1)
    by (intro exI [of _ w4] exI [of _ "with_pods ((ap_pods a)(n \<mapsto> u)) a"] exI [of _ u] exI [of _ ?b]) simp
qed

lemma schedule_waits:
  assumes "R w a" and "ap_pods a n = Some p" and "pc_node_name (pod_spec p) = None"
    and "\<forall>c x. ap_nodes a c = Some x \<longrightarrow> \<not> is_schedulable prs now x"
  shows "\<exists>w'. schedule api prs now n w = (w', Inl (No_ready_node n)) \<and> R w' a"
proof -
  have safe: "url_safe n" using well_formed_pod [OF shape [OF assms(1)] assms(2)] by metis
  obtain w1 where w1: "k8_get_pod api n w = (w1, Inr (Some p))" "R w1 a"
    using get_pod [OF assms(1) safe] assms(2) by (auto simp: reads_def)
  obtain ns w2 where ns: "enumerates (ap_nodes a) ns" "k8_list_nodes api w1 = (w2, Inr ns)" "R w2 a"
    using list_nodes [OF w1(2)] by (auto simp: reads_def)
  have "filter (is_schedulable prs now) ns = []" using enumerates_set [OF ns(1)] assms(4) by (auto simp: ran_def filter_empty_conv)
  then show ?thesis using w1(1) ns(2,3) assms(3) by (simp add: schedule_def sched_call_def Let_def)
qed

lemma schedule_keeps_bound:
  assumes "R w a" and "url_safe n" and "\<forall>p. ap_pods a n = Some p \<longrightarrow> pc_node_name (pod_spec p) \<noteq> None"
  shows "\<exists>w'. schedule api prs now n w = (w', Inr ()) \<and> R w' a"
proof -
  obtain w1 where "k8_get_pod api n w = (w1, Inr (ap_pods a n))" "R w1 a"
    using get_pod [OF assms(1,2)] by (auto simp: reads_def)
  then show ?thesis using assms(3) by (cases "ap_pods a n") (auto simp: schedule_def sched_call_def)
qed

end

end
