(* ===== verification/Control_Loops.thy ===== *)
theory Control_Loops
  imports Service_Placement
begin

text \<open>
  The worker loop that the controllers of \<^verbatim>\<open>src/controller\<close> and the scheduler run over their work queue. What one turn has to
  do is the locale \<open>control_loop\<close>; in it, a worker that is left alone empties its queue. Every lawful cluster is an
  instance for the endpoints controller and for the scheduler.
\<close>

subsection \<open>The loop\<close>

record 'w control =
  ct_world :: 'w
  ct_queue :: work_queue
  ct_limiter :: rate_limiter
  ct_worker :: worker
  ct_delayed :: "(string \<times> nat) list"

text \<open>The steps of one \<open>worker_loop\<close>: getting a key, waiting, waking up, and the turn for the key. Events come in between.\<close>

inductive loop_step ::
  "(string \<Rightarrow> work_queue \<Rightarrow> rate_limiter \<Rightarrow> 'w \<Rightarrow> ('w \<times> work_queue \<times> rate_limiter \<times> (string \<times> nat) list) panics) \<Rightarrow>
   'w control \<Rightarrow> 'w control \<Rightarrow> bool" for turn where
  loop_get: "ct_worker c = Trying \<Longrightarrow> wq_try_get (ct_queue c) = Some (k, q) \<Longrightarrow>
    loop_step turn c (c\<lparr>ct_queue := q, ct_worker := Working k\<rparr>)"
| loop_wait: "ct_worker c = Trying \<Longrightarrow> wq_try_get (ct_queue c) = None \<Longrightarrow> loop_step turn c (c\<lparr>ct_worker := Waiting\<rparr>)"
| loop_wake: "ct_worker c = Waiting \<Longrightarrow> wq_permit (ct_queue c) \<Longrightarrow>
    loop_step turn c (c\<lparr>ct_queue := (ct_queue c)\<lparr>wq_permit := False\<rparr>, ct_worker := Trying\<rparr>)"
| loop_turn: "ct_worker c = Working k \<Longrightarrow> turn k (ct_queue c) (ct_limiter c) (ct_world c) = Some (w, q, rl, delayed) \<Longrightarrow>
    loop_step turn c \<lparr>ct_world = w, ct_queue = q, ct_limiter = rl, ct_worker = Trying, ct_delayed = ct_delayed c @ delayed\<rparr>"

abbreviation started :: "'w \<Rightarrow> work_queue \<Rightarrow> rate_limiter \<Rightarrow> 'w control" where
  "started w q rl \<equiv> \<lparr>ct_world = w, ct_queue = q, ct_limiter = rl, ct_worker = Trying, ct_delayed = []\<rparr>"

text \<open>A loop at rest: nothing is wanted, nothing is held, nothing waits for a retry.\<close>

definition at_rest :: "'w control \<Rightarrow> bool" where
  "at_rest c \<longleftrightarrow> wq_dirty (ct_queue c) = {} \<and> wq_processing (ct_queue c) = {} \<and> ct_worker c = Waiting \<and> ct_delayed c = []"

text \<open>
  \<open>progress w D\<close> says of a world that the keys in \<open>D\<close> have been dealt with. The turn for a further good key succeeds and
  deals with it.
\<close>

locale control_loop =
  fixes turn :: "string \<Rightarrow> work_queue \<Rightarrow> rate_limiter \<Rightarrow> 'w \<Rightarrow> ('w \<times> work_queue \<times> rate_limiter \<times> (string \<times> nat) list) panics"
    and progress :: "'w \<Rightarrow> string set \<Rightarrow> bool"
  assumes turn_ok: "progress w D \<Longrightarrow> url_safe k \<Longrightarrow> k \<notin> D \<Longrightarrow>
      \<exists>w'. turn k q rl w = Some (w', wq_done k q, rl_forget k rl, []) \<and> progress w' (insert k D)"
begin

lemma drains:
  assumes "wq_inv (ct_queue c)" and "wq_processing (ct_queue c) = {}" and "ct_worker c = Trying" and "ct_delayed c = []"
    and "progress (ct_world c) D" and "\<forall>k \<in> wq_dirty (ct_queue c). url_safe k \<and> k \<notin> D"
  shows "\<exists>c'. (loop_step turn)\<^sup>*\<^sup>* c c' \<and> at_rest c' \<and> progress (ct_world c') (D \<union> wq_dirty (ct_queue c))"
  using assms
proof (induction "wq_queue (ct_queue c)" arbitrary: c D)
  case Nil
  then have "wq_dirty (ct_queue c) = {}" by (simp add: wq_inv_def)
  moreover have "loop_step turn c (c\<lparr>ct_worker := Waiting\<rparr>)"
    using Nil by (intro loop_step.loop_wait) (simp_all add: wq_try_get_def)
  ultimately show ?case using Nil.prems by (intro exI [of _ "c\<lparr>ct_worker := Waiting\<rparr>"]) (simp add: at_rest_def r_into_rtranclp)
next
  case (Cons k ks)
  let ?q = "ct_queue c"
  obtain q1 where q1: "wq_try_get ?q = Some (k, q1)" using Cons.hyps(2) [symmetric] by (simp add: wq_try_get_def)
  have st: "wq_queue q1 = ks" "wq_dirty q1 = wq_dirty ?q - {k}" "wq_processing q1 = {k}"
    using wq.take_state [OF q1] Cons.hyps(2) [symmetric] Cons.prems(2) by simp_all
  have kd: "k \<in> wq_dirty ?q" using wq.taken_not_busy [OF Cons.prems(1) q1] by simp
  have inv1: "wq_inv q1" by (rule wq.take_inv [OF Cons.prems(1) q1])
  have quiet: "wq_queue (wq_done k q1) = ks" "wq_dirty (wq_done k q1) = wq_dirty ?q - {k}" "wq_processing (wq_done k q1) = {}"
    using st by (simp_all add: wq_done_def Let_def)
  have inv2: "wq_inv (wq_done k q1)" using wq.finish_inv [OF inv1] st(3) by simp
  have k: "url_safe k" "k \<notin> D" using kd Cons.prems(6) by blast+
  obtain w' where w': "turn k q1 (ct_limiter c) (ct_world c) = Some (w', wq_done k q1, rl_forget k (ct_limiter c), [])"
      "progress w' (insert k D)"
    using turn_ok [OF Cons.prems(5) k] by blast
  let ?c1 = "c\<lparr>ct_queue := q1, ct_worker := Working k\<rparr>" and ?c2 = "started w' (wq_done k q1) (rl_forget k (ct_limiter c))"
  have "loop_step turn c ?c1" by (rule loop_step.loop_get [OF Cons.prems(3) q1])
  moreover have "loop_step turn ?c1 ?c2" using loop_step.loop_turn [of ?c1 k turn] w'(1) Cons.prems(4) by simp
  ultimately have two: "(loop_step turn)\<^sup>*\<^sup>* c ?c2" by (simp add: rtranclp.rtrancl_into_rtrancl)
  have "\<forall>j \<in> wq_dirty (wq_done k q1). url_safe j \<and> j \<notin> insert k D" using Cons.prems(6) quiet(2) by auto
  then obtain c' where c': "(loop_step turn)\<^sup>*\<^sup>* ?c2 c'" "at_rest c'"
      "progress (ct_world c') (insert k D \<union> wq_dirty (wq_done k q1))"
    using Cons.hyps(1) [of ?c2 "insert k D"] inv2 quiet w'(2) by auto
  have "insert k D \<union> wq_dirty (wq_done k q1) = D \<union> wq_dirty ?q" using kd quiet(2) by blast
  then show ?case using c' rtranclp_trans [OF two c'(1)] by (intro exI [of _ c']) simp
qed

end

subsection \<open>Keys\<close>

lemma fold_add:
  "wq_inv q \<Longrightarrow> wq_inv (fold wq_add ks q)" "wq_dirty (fold wq_add ks q) = wq_dirty q \<union> set ks"
  "wq_processing (fold wq_add ks q) = wq_processing q"
  by (induction ks arbitrary: q) (auto simp: wq.add_inv wq.add_wanted wq.add_busy)

text \<open>What an informer sees before the first error.\<close>

fun seen_objects :: "(client_error + 'a watch_event) list \<Rightarrow> 'a list" where
  "seen_objects [] = []"
| "seen_objects (Inr ev # rest) = we_object ev # seen_objects rest"
| "seen_objects (Inl e # rest) = []"

lemma service_informer_adds:
  "service_informer evs (w, q) = (w, fold wq_add (map (\<lambda>s. om_name (svc_metadata s)) (seen_objects evs)) q)"
  unfolding service_informer_def by (induction evs arbitrary: q rule: seen_objects.induct) auto

lemma enumerates_keys:
  assumes "enumerates objs xs" and "tidy k objs"
  shows "set (map (kd_name k) xs) = dom objs"
  using enumerates_set [OF assms(1)] assms(2) by (force simp: tidy_def ran_def dom_def)

subsection \<open>The endpoints controller\<close>

text \<open>The addresses listed under a name when the keys in \<open>D\<close> have been dealt with: those of the pods, none for a name without a service.\<close>

definition settled_addresses :: "api_spec \<Rightarrow> string set \<Rightarrow> string \<Rightarrow> endpoint_address list option" where
  "settled_addresses a D n =
     (if n \<in> D then map_option (true_backends a) (ap_svcs a n) else map_option ep_addresses (ap_eps a n))"

definition ep_progress :: "('w \<Rightarrow> api_spec \<Rightarrow> bool) \<Rightarrow> api_spec \<Rightarrow> 'w \<Rightarrow> string set \<Rightarrow> bool" where
  "ep_progress R a w D \<longleftrightarrow> (\<exists>b. R w b \<and> ap_pods b = ap_pods a \<and> ap_svcs b = ap_svcs a \<and>
     (\<forall>n. map_option ep_addresses (ap_eps b n) = settled_addresses a D n))"

context cluster
begin

lemma ep_turn:
  assumes "ep_progress R a w D" and "url_safe k"
  shows "\<exists>w'. ep_worker api k q rl w = Some (w', wq_done k q, rl_forget k rl, []) \<and> ep_progress R a w' (insert k D)"
proof -
  obtain b where b: "R w b" "ap_pods b = ap_pods a" "ap_svcs b = ap_svcs a"
      "\<And>n. map_option ep_addresses (ap_eps b n) = settled_addresses a D n"
    using assms(1) by (auto simp: ep_progress_def)
  have same: "true_backends b svc = true_backends a svc" for svc
    using b(2) by (simp add: true_backends_def backend_pods_def)
  have "\<exists>w' b' e. ep_reconcile api k w = (w', Inr ()) \<and> R w' b' \<and> ap_pods b' = ap_pods b \<and> ap_svcs b' = ap_svcs b \<and>
      ap_eps b' = (ap_eps b)(k := e) \<and> map_option ep_addresses e = map_option (true_backends a) (ap_svcs a k)"
  proof (cases "ap_svcs b k")
    case None
    then show ?thesis using ep_gone_ok [OF b(1) None assms(2)] b(3) by fastforce
  next
    case (Some svc)
    then show ?thesis using ep_reconcile_ok [OF b(1) Some] b(3) same by fastforce
  qed
  then obtain w' b' e where r: "ep_reconcile api k w = (w', Inr ())" "R w' b'" "ap_pods b' = ap_pods b" "ap_svcs b' = ap_svcs b"
      "ap_eps b' = (ap_eps b)(k := e)" "map_option ep_addresses e = map_option (true_backends a) (ap_svcs a k)" by blast
  have "map_option ep_addresses (ap_eps b' n) = settled_addresses a (insert k D) n" for n
    using r(5,6) b(4) [of n] by (simp add: settled_addresses_def)
  then have "ep_progress R a w' (insert k D)" using r(2-4) b(2,3) unfolding ep_progress_def by (intro exI [of _ b']) simp
  then show ?thesis using r(1) by (simp add: ep_worker_def worker_turn_def)
qed

lemma ep_resync_adds:
  assumes "R w a"
  shows "\<exists>w' ks. ep_resync api (w, q) = (w', fold wq_add ks q) \<and> R w' a \<and> set ks = dom (ap_svcs a)"
proof -
  obtain xs w' where xs: "enumerates (ap_svcs a) xs" "k8_list_services api w = (w', Inr xs)" "R w' a"
    using list_services [OF assms] by (auto simp: reads_def)
  have "set (map (kd_name Service_kind) xs) = dom (ap_svcs a)"
    using shape [OF assms] by (intro enumerates_keys [OF xs(1)]) (simp add: well_formed_def)
  then have "set (map (\<lambda>s. om_name (svc_metadata s)) xs) = dom (ap_svcs a)" by (simp add: Service_kind_def)
  then show ?thesis using xs(2,3)
    by (intro exI [of _ w'] exI [of _ "map (\<lambda>s. om_name (svc_metadata s)) xs"]) (simp add: ep_resync_def)
qed

end

sublocale cluster \<subseteq> ep_loop: control_loop "ep_worker api" "ep_progress R a" for a
  by unfold_locales (blast intro: ep_turn)

context cluster
begin

lemma ep_loop_settles:
  assumes "R w a" and "wq_inv q" and "wq_processing q = {}" and "\<forall>k \<in> wq_dirty q. url_safe k"
  shows "\<exists>w1 q1 c b. ep_resync api (w, q) = (w1, q1) \<and> (loop_step (ep_worker api))\<^sup>*\<^sup>* (started w1 q1 rl) c \<and> at_rest c \<and>
    R (ct_world c) b \<and> ap_pods b = ap_pods a \<and> ap_svcs b = ap_svcs a \<and>
    (\<forall>n. map_option ep_addresses (ap_eps b n) = settled_addresses a (dom (ap_svcs a) \<union> wq_dirty q) n)"
proof -
  obtain w1 ks where r: "ep_resync api (w, q) = (w1, fold wq_add ks q)" "R w1 a" "set ks = dom (ap_svcs a)"
    using ep_resync_adds [OF assms(1)] by blast
  let ?q1 = "fold wq_add ks q"
  have safe: "\<forall>k \<in> wq_dirty ?q1. url_safe k \<and> k \<notin> {}"
    using shape [OF assms(1)] assms(4) r(3) by (auto simp: fold_add(2) well_formed_def dest: tidyD)
  have "ep_progress R a w1 {}" using r(2) by (auto simp: ep_progress_def settled_addresses_def)
  then obtain c where c: "(loop_step (ep_worker api))\<^sup>*\<^sup>* (started w1 ?q1 rl) c" "at_rest c" "ep_progress R a (ct_world c) (wq_dirty ?q1)"
    using ep_loop.drains [of "started w1 ?q1 rl" a "{}"] assms(2,3) safe by (auto simp: fold_add)
  then obtain b where "R (ct_world c) b" "ap_pods b = ap_pods a" "ap_svcs b = ap_svcs a"
      "\<forall>n. map_option ep_addresses (ap_eps b n) = settled_addresses a (dom (ap_svcs a) \<union> wq_dirty q) n"
    using r(3) by (auto simp: ep_progress_def fold_add(2) Un_commute)
  with r(1) c(1,2) show ?thesis by blast
qed

end

subsection \<open>The scheduler\<close>

text \<open>
  \<open>ready\<close> are the nodes that can be scheduled to at every reading of the clock during the run. A pod that has been dealt with
  is bound to one of them, every other pod is as it was; loads that differ by at most one stay so.
\<close>

definition ready_nodes :: "(string \<Rightarrow> int option) \<Rightarrow> (string \<Rightarrow> int) \<Rightarrow> api_spec \<Rightarrow> string set \<Rightarrow> bool" where
  "ready_nodes prs now a ready \<longleftrightarrow> ready \<noteq> {} \<and>
     (\<forall>k c. c \<in> ready \<longleftrightarrow> (\<exists>x. ap_nodes a c = Some x \<and> is_schedulable prs (now k) x))"

definition balanced :: "api_spec \<Rightarrow> string set \<Rightarrow> bool" where
  "balanced a ready \<longleftrightarrow> (\<forall>c \<in> ready. \<forall>d \<in> ready. node_load a c \<le> Suc (node_load a d))"

definition placed :: "api_spec \<Rightarrow> string set \<Rightarrow> string set \<Rightarrow> api_spec \<Rightarrow> string \<Rightarrow> bool" where
  "placed a ready D b n \<longleftrightarrow>
     (case ap_pods a n of
        None \<Rightarrow> ap_pods b n = None
      | Some p \<Rightarrow>
          if n \<in> D \<and> pc_node_name (pod_spec p) = None
          then \<exists>u m. ap_pods b n = Some u \<and> pc_node_name (pod_spec u) = Some m \<and> m \<in> ready
          else ap_pods b n = Some p)"

definition sched_progress :: "('w \<Rightarrow> api_spec \<Rightarrow> bool) \<Rightarrow> (string \<Rightarrow> int option) \<Rightarrow> (string \<Rightarrow> int) \<Rightarrow> string set \<Rightarrow> api_spec \<Rightarrow>
    'w \<Rightarrow> string set \<Rightarrow> bool" where
  "sched_progress R prs now ready a w D \<longleftrightarrow> ready_nodes prs now a ready \<and>
     (\<exists>b. R w b \<and> pods_only a b \<and> (\<forall>n. placed a ready D b n) \<and> (balanced a ready \<longrightarrow> balanced b ready))"

lemma load_bound:
  assumes "finite (dom (ap_pods b))" and "ap_pods b n = Some p" and "pc_node_name (pod_spec p) = None"
    and "ap_pods b' = (ap_pods b)(n \<mapsto> u)" and "pc_node_name (pod_spec u) = Some best"
  shows "node_load b' c = (if c = best then Suc (node_load b c) else node_load b c)"
proof -
  let ?B = "{i. \<exists>q. ap_pods b i = Some q \<and> pc_node_name (pod_spec q) = Some c}"
  have fin: "finite ?B" by (rule finite_subset [OF _ assms(1)]) auto
  have "{i. \<exists>q. ap_pods b' i = Some q \<and> pc_node_name (pod_spec q) = Some c} = (if c = best then insert n ?B else ?B)"
    using assms(2-5) by (auto split: if_splits)
  moreover have "n \<notin> ?B" using assms(2,3) by auto
  then have "card (insert n ?B) = Suc (card ?B)" using fin by simp
  ultimately show ?thesis unfolding node_load_def by presburger
qed

lemma balance_kept:
  assumes "balanced b ready" and "best \<in> ready" and "\<forall>c \<in> ready. node_load b best \<le> node_load b c"
    and "\<And>c. node_load b' c = (if c = best then Suc (node_load b c) else node_load b c)"
  shows "balanced b' ready"
  using assms by (auto simp: balanced_def intro: le_SucI)

context cluster
begin

lemma sched_turn:
  assumes "sched_progress R prs now ready a w D" and "url_safe k" and "k \<notin> D"
  shows "\<exists>w'. sched_worker api prs (now k) k q rl w = Some (w', wq_done k q, rl_forget k rl, []) \<and>
    sched_progress R prs now ready a w' (insert k D)"
proof -
  obtain b where b: "R w b" "pods_only a b" "\<And>n. placed a ready D b n" "balanced a ready \<longrightarrow> balanced b ready"
    and ready: "ready_nodes prs now a ready" using assms(1) by (auto simp: sched_progress_def)
  have nodes: "ap_nodes b = ap_nodes a" using b(2) by (simp add: pods_only_def)
  show ?thesis
  proof (cases "\<exists>p. ap_pods b k = Some p \<and> pc_node_name (pod_spec p) = None")
    case False
    obtain w' where w': "schedule api prs (now k) k w = (w', Inr ())" "R w' b"
      using schedule_keeps_bound [OF b(1) assms(2), where prs = prs and now = "now k"] False by auto
    have "placed a ready (insert k D) b n" for n
      using b(3) [of n] False assms(3) by (auto simp: placed_def split: option.splits if_splits)
    then have "sched_progress R prs now ready a w' (insert k D)"
      using ready w'(2) b(2,4) by (auto simp: sched_progress_def)
    then show ?thesis using w'(1) by (simp add: sched_worker_def worker_turn_def)
  next
    case True
    then obtain p where p: "ap_pods b k = Some p" "pc_node_name (pod_spec p) = None" by blast
    obtain c x where "ap_nodes b c = Some x" "is_schedulable prs (now k) x"
      using ready nodes unfolding ready_nodes_def by (metis ex_in_conv)
    then obtain w' b' u best where r: "schedule api prs (now k) k w = (w', Inr ())" "R w' b'" "pods_only b b'"
        "ap_pods b' = (ap_pods b)(k \<mapsto> u)" "pc_node_name (pod_spec u) = Some best"
        "\<exists>x. ap_nodes b best = Some x \<and> is_schedulable prs (now k) x"
        "\<forall>c x. ap_nodes b c = Some x \<longrightarrow> is_schedulable prs (now k) x \<longrightarrow> node_load b best \<le> node_load b c"
      using schedule_ok [OF b(1) p, of c x prs "now k"] by blast
    have best: "best \<in> ready" "\<forall>c \<in> ready. node_load b best \<le> node_load b c"
      using ready r(6,7) nodes unfolding ready_nodes_def by metis+
    obtain ps where "enumerates (ap_pods b) ps" using list_pods [OF b(1)] by blast
    then have "finite (dom (ap_pods b))" by (auto simp: enumerates_def) (metis finite_set)
    then have "balanced b ready \<longrightarrow> balanced b' ready" using balance_kept [OF _ best load_bound [OF _ p r(4,5)]] by blast
    moreover have "placed a ready (insert k D) b' n" for n
      using b(3) [of n] p r(4,5) best(1) assms(3) by (cases "n = k") (auto simp: placed_def split: option.splits if_splits)
    ultimately have "sched_progress R prs now ready a w' (insert k D)"
      using ready r(2) b(4) pods_only_trans [OF b(2) r(3)] by (auto simp: sched_progress_def)
    then show ?thesis using r(1) by (simp add: sched_worker_def worker_turn_def)
  qed
qed

lemma sched_resync_adds:
  assumes "R w a"
  shows "\<exists>w' ks. sched_resync api (w, q) = (w', fold wq_add ks q) \<and> R w' a \<and>
    set ks = {n. \<exists>p. ap_pods a n = Some p \<and> pc_node_name (pod_spec p) = None}"
proof -
  obtain ps w' where ps: "enumerates (ap_pods a) ps" "k8_list_pods api w = (w', Inr ps)" "R w' a"
    using list_pods [OF assms] by (auto simp: reads_def)
  let ?ks = "map pname (filter (\<lambda>p. pc_node_name (pod_spec p) = None) ps)"
  have tidy: "tidy Pod_kind (ap_pods a)" using shape [OF assms] by (simp add: well_formed_def)
  have "set ?ks = {n. \<exists>p. ap_pods a n = Some p \<and> pc_node_name (pod_spec p) = None}"
    using enumerates_set [OF ps(1)] tidyD [OF tidy] by (force simp: ran_def Pod_kind_def)
  then show ?thesis using ps(2,3) by (intro exI [of _ w'] exI [of _ ?ks]) (simp add: sched_resync_def)
qed

end

sublocale cluster \<subseteq> sched_loop: control_loop "\<lambda>k. sched_worker api prs (now k) k" "sched_progress R prs now ready a"
  for prs now ready a
  by unfold_locales (blast intro: sched_turn)

context cluster
begin

lemma sched_loop_settles:
  assumes "R w a" and "wq_inv q" and "wq_processing q = {}" and "\<forall>k \<in> wq_dirty q. url_safe k" and "ready_nodes prs now a ready"
  shows "\<exists>w1 q1 c b. sched_resync api (w, q) = (w1, q1) \<and>
    (loop_step (\<lambda>k. sched_worker api prs (now k) k))\<^sup>*\<^sup>* (started w1 q1 rl) c \<and> at_rest c \<and>
    R (ct_world c) b \<and> pods_only a b \<and> (\<forall>n. placed a ready UNIV b n) \<and> (balanced a ready \<longrightarrow> balanced b ready)"
proof -
  obtain w1 ks where r: "sched_resync api (w, q) = (w1, fold wq_add ks q)" "R w1 a"
      "set ks = {n. \<exists>p. ap_pods a n = Some p \<and> pc_node_name (pod_spec p) = None}"
    using sched_resync_adds [OF assms(1)] by blast
  let ?q1 = "fold wq_add ks q"
  have safe: "\<forall>k \<in> wq_dirty ?q1. url_safe k \<and> k \<notin> {}"
    using shape [OF assms(1)] assms(4) r(3) by (auto simp: fold_add(2) elim: well_formed_pod)
  have "sched_progress R prs now ready a w1 {}"
    using r(2) assms(5) by (auto simp: sched_progress_def placed_def split: option.splits)
  then obtain c where c: "(loop_step (\<lambda>k. sched_worker api prs (now k) k))\<^sup>*\<^sup>* (started w1 ?q1 rl) c" "at_rest c"
      "sched_progress R prs now ready a (ct_world c) (wq_dirty ?q1)"
    using sched_loop.drains [of "started w1 ?q1 rl" prs now ready a "{}"] assms(2,3) safe by (auto simp: fold_add)
  then obtain b where b: "R (ct_world c) b" "pods_only a b" "\<And>n. placed a ready (wq_dirty ?q1) b n" "balanced a ready \<longrightarrow> balanced b ready"
    by (auto simp: sched_progress_def)
  have "placed a ready UNIV b n" for n
    using b(3) [of n] r(3) by (auto simp: placed_def fold_add(2) split: option.splits if_splits)
  with r(1) c(1,2) b show ?thesis by blast
qed

end

end
