(* ===== verification/Http_Cluster.thy ===== *)
theory Http_Cluster
  imports Http_Server Control_Loops
begin

text \<open>
  The client of \<^verbatim>\<open>src/client.rs\<close>, connected over HTTP to a standalone server of \<^verbatim>\<open>src/apiserver\<close> on a healthy store,
  is a lawful cluster: the laws of the locale \<open>cluster\<close> are discharged for it, through routes, handlers, store and
  codecs. The properties of the controllers and the scheduler follow for the whole stack.
\<close>

subsection \<open>The connection\<close>

text \<open>
  What is assumed of the libraries: the transport delivers requests to the server, the tree is lawful, bodies decode to
  what was encoded.
\<close>

definition wired :: "(('s, 'j) net, 'j) client \<Rightarrow> ('s, 'j) server \<Rightarrow> 's sled \<Rightarrow> ('s \<Rightarrow> bytes \<rightharpoonup> bytes) \<Rightarrow> bool" where
  "wired cl sv sl view \<longleftrightarrow>
     cn_http cl = serve sv (cn_base_url cl) \<and> sled_laws sl view \<and>
     codecs_ok (kc_cx (cn_kc cl)) \<and> json_laws (cx_rs_status (kc_cx (cn_kc cl))) \<and> json_laws (cx_pod_status (kc_cx (cn_kc cl))) \<and>
     (\<forall>n. en_write (sv_env sv n) = Direct \<and> en_sled (sv_env sv n) = sl \<and> en_cx (sv_env sv n) = kc_cx (cn_kc cl)) \<and>
     (\<forall>xs. kc_pods (cn_kc cl) (sv_pods sv xs) = Inr (lb_items xs)) \<and>
     (\<forall>xs. kc_nodes (cn_kc cl) (sv_nodes sv xs) = Inr (lb_items xs)) \<and>
     (\<forall>xs. kc_svcs (cn_kc cl) (sv_svcs sv xs) = Inr (lb_items xs)) \<and>
     (\<forall>xs. kc_eps (cn_kc cl) (sv_eps sv xs) = Inr (lb_items xs)) \<and>
     (\<forall>st. kc_status (cn_kc cl) (sv_status sv st) = Inr (envelope st)) \<and>
     (\<forall>n. \<exists>b. kc_binding (cn_kc cl) n = Inr b \<and> sv_binding sv b = Inr n)"

definition connected :: "(('s, 'j) net, 'j) client \<Rightarrow> ('s, 'j) server \<Rightarrow> 's sled \<Rightarrow> ('s \<Rightarrow> bytes \<rightharpoonup> bytes) \<Rightarrow>
    ('s, 'j) net \<Rightarrow> api_spec \<Rightarrow> bool" where
  "connected cl sv sl view w a \<longleftrightarrow> wired cl sv sl view \<and> all_hold (kc_cx (cn_kc cl)) (view (dk_db (rp_disk (snd w)))) a \<and> well_formed a"

text \<open>The client error that each error of the server arrives as.\<close>

fun client_view :: "api_error \<Rightarrow> client_error" where
  "client_view (Api_NotFound n) = Cl_NotFound"
| "client_view (Api_AlreadyExists n) = Cl_AlreadyExists"
| "client_view (Api_Conflict current provided) = Cl_Conflict (error_text (Api_Conflict current provided))"
| "client_view (Api_BadRequest m) = Cl_Http 400 (error_text (Api_BadRequest m))"
| "client_view (Api_Internal m) = Cl_Http 500 (error_text (Api_Internal m))"
| "client_view (Api_Redirect url) = Cl_Transport"

definition seen_error :: "('w, 'j) client \<Rightarrow> store_error \<Rightarrow> client_error" where
  "seen_error cl e = client_view (from_store_error (cx_error_text (kc_cx (cn_kc cl))) e)"

subsection \<open>Replies\<close>

lemma wiredD:
  assumes "wired cl sv sl view"
  shows "cn_http cl = serve sv (cn_base_url cl)" "sled_laws sl view" "codecs_ok (kc_cx (cn_kc cl))"
    "en_write (sv_env sv n) = Direct" "en_sled (sv_env sv n) = sl" "en_cx (sv_env sv n) = kc_cx (cn_kc cl)"
  using assms by (simp_all add: wired_def)

lemma check_fail:
  assumes "wired cl sv sl view"
  shows "check_status (cn_kc cl) (he_code (into_response e), map_option (sv_status sv) (he_body (into_response e))) = Inl (client_view e)"
  using assms by (cases e) (auto simp: wired_def check_status_def status_response_def map_envelope_def envelope_def)

lemma send_served:
  assumes "wired cl sv sl view" and "routed meth path = Some r"
  shows "send cl meth path body f (n, rp) =
     (case dispatch sv (sv_env sv n) r path body rp of
        (rp', None) \<Rightarrow> ((Suc n, rp'), Inl Cl_Transport) | (rp', Some res) \<Rightarrow> ((Suc n, rp'), f res))"
  using assms by (simp add: send_def wired_def serve_def client_url_def split: prod.splits option.splits)

text \<open>A handler's reply as the client decodes it.\<close>

lemma typed_call:
  assumes "wired cl sv sl view" and "routed meth path = Some r" and "json_laws js"
    and "dispatch sv (sv_env sv n) r path body rp = rendered sv js enc h rp"
    and "h rp = (rp', reply_of (cx_error_text (kc_cx (cn_kc cl))) c res)" and "200 \<le> c" "c < 300"
  shows "send cl meth path body (parse_json (cn_kc cl) (js_from_slice js)) (n, rp) = ((Suc n, rp'), map_sum (seen_error cl) id res)"
    and "send cl meth path body (\<lambda>r. case check_status (cn_kc cl) r of Inl e \<Rightarrow> Inl e | Inr _ \<Rightarrow> Inr ()) (n, rp) =
      ((Suc n, rp'), map_sum (seen_error cl) (\<lambda>_. ()) res)"
proof -
  note s = send_served [OF assms(1,2)] rendered_def assms(4,5)
  show "send cl meth path body (parse_json (cn_kc cl) (js_from_slice js)) (n, rp) = ((Suc n, rp'), map_sum (seen_error cl) id res)"
  proof (cases res)
    case (Inl e)
    then show ?thesis using check_fail [OF assms(1)] by (simp add: s parse_json_def seen_error_def)
  next
    case (Inr x)
    obtain b where "js_to_vec js x = Inr b" "js_from_slice js b = Inr x" using assms(3) by (auto simp: json_laws_def)
    then show ?thesis using Inr assms(6,7) by (simp add: s parse_json_def check_status_def)
  qed
  show "send cl meth path body (\<lambda>r. case check_status (cn_kc cl) r of Inl e \<Rightarrow> Inl e | Inr _ \<Rightarrow> Inr ()) (n, rp) =
      ((Suc n, rp'), map_sum (seen_error cl) (\<lambda>_. ()) res)"
  proof (cases res)
    case (Inl e)
    then show ?thesis using check_fail [OF assms(1)] by (simp add: s seen_error_def)
  next
    case (Inr x)
    obtain b where "js_to_vec js x = Inr b" using assms(3) by (auto simp: json_laws_def)
    then show ?thesis using Inr assms(6,7) by (simp add: s check_status_def)
  qed
qed

lemma get_call:
  assumes "wired cl sv sl view" and "routed GET path = Some r" and "json_laws js"
    and "dispatch sv (sv_env sv n) r path None rp = rendered sv js enc h rp"
    and "h rp = (rp, (case x of None \<Rightarrow> Fail (Api_NotFound name) | Some y \<Rightarrow> Reply (200, Typed y)))"
  shows "get_resource cl js path (n, rp) = ((Suc n, rp), Inr x)"
proof (cases x)
  case None
  then show ?thesis using assms by (simp add: get_resource_def send_served rendered_def status_response_def)
next
  case (Some y)
  obtain b where "js_to_vec js y = Inr b" "js_from_slice js b = Inr y" using assms(3) by (auto simp: json_laws_def)
  then show ?thesis using Some assms by (simp add: get_resource_def send_served rendered_def parse_json_def check_status_def)
qed

lemma list_call:
  assumes "wired cl sv sl view" and "routed GET path = Some r"
    and "dispatch sv (sv_env sv n) r path None rp = rendered sv js enc h rp"
    and "h rp = (rp, Reply (200, Items xs))" and "dec (enc xs) = Inr (lb_items xs)"
  shows "list_resource cl dec path (n, rp) = ((Suc n, rp), Inr (lb_items xs))"
  using assms by (simp add: list_resource_def send_served rendered_def parse_json_def check_status_def)

subsection \<open>Well-formed contents\<close>

fun safe_op :: "'a kind \<Rightarrow> 'a store_op \<Rightarrow> bool" where
  "safe_op k (Create_op x) = url_safe (kd_name k x)"
| "safe_op k (ReplaceSpec_op n x) = (kd_name k x = n)"
| "safe_op k (ReplaceStatus_op n rv f) = (\<forall>x. kd_name k (f x) = kd_name k x)"
| "safe_op k (Delete_op n rv) = True"

context resource_kind
begin

lemma tidy_exec:
  assumes "tidy k (sp_objs sp)" and "safe_op k p"
  shows "tidy k (sp_objs (fst (spec_exec k p sp)))"
proof (cases p)
  case (Create_op x)
  then show ?thesis using assms by (auto simp: tidy_def spec_put_def set_rv_def)
next
  case (ReplaceSpec_op n x)
  then show ?thesis using assms
    by (cases "sp_objs sp n"; cases "check_rv k (the (sp_objs sp n)) (om_resource_version (kd_meta k x))")
      (auto simp: tidy_def spec_put_def spec_checked_def carry_over_def)
next
  case (ReplaceStatus_op n rv f)
  then show ?thesis using assms
    by (cases "sp_objs sp n"; cases "check_rv k (the (sp_objs sp n)) (Some rv)")
      (auto simp: tidy_def spec_put_def spec_checked_def set_rv_def)
next
  case (Delete_op n rv)
  then show ?thesis using assms
    by (cases "sp_objs sp n"; cases "check_rv k (the (sp_objs sp n)) (Some rv)") (auto simp: tidy_def spec_checked_def Let_def)
qed

end

lemma spec_op_tidy:
  assumes "resource_kind k" and "tidy k (pa_get pa a)" and "safe_op k p"
    and "\<And>m b. pa_get pa (pa_put pa m b) = m" and "\<And>b n. pa_get pa (b\<lparr>ap_rv := n\<rparr>) = pa_get pa b"
  shows "tidy k (pa_get pa (fst (spec_op pa k p a)))"
  using resource_kind.tidy_exec [OF assms(1), of "part_spec pa a" p] assms(2-5)
  by (simp add: spec_op_def with_part_def part_spec_def case_prod_beta)

fun full_op :: "pod store_op \<Rightarrow> bool" where
  "full_op (Create_op p) = (pc_containers (pod_spec p) \<noteq> [])"
| "full_op (ReplaceSpec_op n p) = (pc_containers (pod_spec p) \<noteq> [])"
| "full_op (ReplaceStatus_op n rv f) = (\<forall>p. pod_spec (f p) = pod_spec p)"
| "full_op (Delete_op n rv) = True"

lemma full_exec:
  assumes "\<forall>n p. sp_objs sp n = Some p \<longrightarrow> pc_containers (pod_spec p) \<noteq> []" and "full_op q"
  shows "\<forall>n p. sp_objs (fst (spec_exec Pod_kind q sp)) n = Some p \<longrightarrow> pc_containers (pod_spec p) \<noteq> []"
proof (cases q)
  case (Create_op x)
  then show ?thesis using assms by (simp add: spec_put_def set_rv_def Pod_kind_def)
next
  case (ReplaceSpec_op n x)
  then show ?thesis using assms
    by (cases "sp_objs sp n"; cases "check_rv Pod_kind (the (sp_objs sp n)) (om_resource_version (kd_meta Pod_kind x))")
      (simp_all add: spec_put_def spec_checked_def carry_over_def Pod_kind_def)
next
  case (ReplaceStatus_op n rv f)
  then show ?thesis using assms
    by (cases "sp_objs sp n"; cases "check_rv Pod_kind (the (sp_objs sp n)) (Some rv)")
      (simp_all add: spec_put_def spec_checked_def set_rv_def Pod_kind_def)
next
  case (Delete_op n rv)
  then show ?thesis using assms
    by (cases "sp_objs sp n"; cases "check_rv Pod_kind (the (sp_objs sp n)) (Some rv)") (simp_all add: spec_checked_def Let_def)
qed

lemma part_gets: "pa_get pods_part = ap_pods" "pa_get rss_part = ap_rss" "pa_get nodes_part = ap_nodes" "pa_get svcs_part = ap_svcs"
  "pa_get eps_part = ap_eps"
  by (simp_all add: part_defs)

lemma spec_op_frame:
  "ap_rss (fst (spec_op pods_part Pod_kind p a)) = ap_rss a" "ap_nodes (fst (spec_op pods_part Pod_kind p a)) = ap_nodes a"
  "ap_svcs (fst (spec_op pods_part Pod_kind p a)) = ap_svcs a" "ap_eps (fst (spec_op pods_part Pod_kind p a)) = ap_eps a"
  "ap_pods (fst (spec_op rss_part ReplicaSet_kind q a)) = ap_pods a" "ap_nodes (fst (spec_op rss_part ReplicaSet_kind q a)) = ap_nodes a"
  "ap_svcs (fst (spec_op rss_part ReplicaSet_kind q a)) = ap_svcs a" "ap_eps (fst (spec_op rss_part ReplicaSet_kind q a)) = ap_eps a"
  "ap_pods (fst (spec_op eps_part Endpoints_kind r a)) = ap_pods a" "ap_nodes (fst (spec_op eps_part Endpoints_kind r a)) = ap_nodes a"
  "ap_svcs (fst (spec_op eps_part Endpoints_kind r a)) = ap_svcs a" "ap_rss (fst (spec_op eps_part Endpoints_kind r a)) = ap_rss a"
  by (simp_all add: spec_op_def with_part_def part_defs case_prod_beta)

lemma well_formed_pods:
  assumes "well_formed a" and "safe_op Pod_kind p" and "full_op p"
  shows "well_formed (fst (spec_op pods_part Pod_kind p a))"
proof -
  have "tidy Pod_kind (pa_get pods_part (fst (spec_op pods_part Pod_kind p a)))"
    using assms by (intro spec_op_tidy kinds_res) (simp_all add: well_formed_def part_defs)
  moreover have "\<forall>n x. ap_pods (fst (spec_op pods_part Pod_kind p a)) n = Some x \<longrightarrow> pc_containers (pod_spec x) \<noteq> []"
    using full_exec [of "part_spec pods_part a" p] assms
    by (simp add: well_formed_def spec_op_def with_part_def part_spec_def part_defs case_prod_beta)
  ultimately show ?thesis using assms(1) by (simp add: well_formed_def spec_op_frame part_gets)
qed

lemma well_formed_rss:
  assumes "well_formed a" and "safe_op ReplicaSet_kind p"
  shows "well_formed (fst (spec_op rss_part ReplicaSet_kind p a))"
proof -
  have "tidy ReplicaSet_kind (pa_get rss_part (fst (spec_op rss_part ReplicaSet_kind p a)))"
    using assms by (intro spec_op_tidy kinds_res) (simp_all add: well_formed_def part_defs)
  then show ?thesis using assms(1) by (simp add: well_formed_def spec_op_frame part_gets)
qed

lemma well_formed_eps:
  assumes "well_formed a" and "safe_op Endpoints_kind p"
  shows "well_formed (fst (spec_op eps_part Endpoints_kind p a))"
proof -
  have "tidy Endpoints_kind (pa_get eps_part (fst (spec_op eps_part Endpoints_kind p a)))"
    using assms by (intro spec_op_tidy kinds_res) (simp_all add: well_formed_def part_defs)
  then show ?thesis using assms(1) by (simp add: well_formed_def spec_op_frame part_gets)
qed

subsection \<open>The calls\<close>

lemma connectedD:
  assumes "connected cl sv sl view (n, rp) a"
  shows "wired cl sv sl view" "well_formed a" "disk_holds (sv_env sv n) view rp a" "sled_laws (en_sled (sv_env sv n)) view"
    "codecs_ok (en_cx (sv_env sv n))" "en_write (sv_env sv n) = Direct" "en_cx (sv_env sv n) = kc_cx (cn_kc cl)"
    "json_laws (cx_pod (kc_cx (cn_kc cl)))" "json_laws (cx_rs (kc_cx (cn_kc cl)))" "json_laws (cx_node (kc_cx (cn_kc cl)))"
    "json_laws (cx_svc (kc_cx (cn_kc cl)))" "json_laws (cx_ep (kc_cx (cn_kc cl)))"
  using assms by (simp_all add: connected_def wired_def disk_holds_def codecs_ok_def)

lemma connectedI:
  assumes "connected cl sv sl view (n, rp) a" and "disk_holds (sv_env sv n) view rp' b" and "well_formed b"
  shows "connected cl sv sl view (m, rp') b"
  using assms by (simp add: connected_def wired_def disk_holds_def)

text \<open>A handler carries out an operation: its reply and its effect on the disk are the operation's.\<close>

definition carries_out :: "('s, 'j) env \<Rightarrow> ('s \<Rightarrow> bytes \<rightharpoonup> bytes) \<Rightarrow> ('s, 'j, ('a, 'j) response) handler \<Rightarrow> ('s, 'j) replica \<Rightarrow> nat \<Rightarrow>
    api_spec \<times> (store_error + 'a) \<Rightarrow> bool" where
  "carries_out en view h rp code res \<longleftrightarrow>
     (\<exists>rp'. h rp = (rp', reply_of (cx_error_text (en_cx en)) code (snd res)) \<and> disk_holds en view rp' (fst res))"

lemmas carried =
  pods_kind.direct_create [folded carries_out_def] pods_kind.direct_replace [folded carries_out_def]
  pods_kind.direct_delete [folded carries_out_def] rss_kind.direct_status [folded carries_out_def]
  eps_kind.direct_create [folded carries_out_def] eps_kind.direct_replace [folded carries_out_def]
  eps_kind.direct_delete [folded carries_out_def] pods_kind.direct_status [folded carries_out_def]

text \<open>The shape shared by all writes: route, decode, run the handler, encode, decode.\<close>

lemma write_performs:
  assumes c: "connected cl sv sl view (n, rp) a" and "routed meth path = Some r" and "json_laws js"
    and "dispatch sv (sv_env sv n) r path body rp = rendered sv js enc h rp"
    and h: "carries_out (sv_env sv n) view h rp code res"
    and "well_formed (fst res)" and code: "200 \<le> code" "code < 300"
  shows "performs (connected cl sv sl view) (seen_error cl) id (send cl meth path body (parse_json (cn_kc cl) (js_from_slice js))) (n, rp) res"
    and "performs (connected cl sv sl view) (seen_error cl) (\<lambda>_. ())
      (send cl meth path body (\<lambda>r. case check_status (cn_kc cl) r of Inl e \<Rightarrow> Inl e | Inr _ \<Rightarrow> Inr ())) (n, rp) res"
proof -
  obtain rp' where rp': "h rp = (rp', reply_of (cx_error_text (kc_cx (cn_kc cl))) code (snd res))" "disk_holds (sv_env sv n) view rp' (fst res)"
    using h connectedD(7) [OF c] by (auto simp: carries_out_def)
  note call = typed_call [OF connectedD(1) [OF c] assms(2,3,4) rp'(1) code]
  have "connected cl sv sl view (Suc n, rp') (fst res)" by (rule connectedI [OF c rp'(2) assms(6)])
  then show "performs (connected cl sv sl view) (seen_error cl) id (send cl meth path body (parse_json (cn_kc cl) (js_from_slice js))) (n, rp) res"
    "performs (connected cl sv sl view) (seen_error cl) (\<lambda>_. ())
      (send cl meth path body (\<lambda>r. case check_status (cn_kc cl) r of Inl e \<Rightarrow> Inl e | Inr _ \<Rightarrow> Inr ())) (n, rp) res"
    using call by (auto simp: performs_def)
qed

lemma fixed_routes:
  "routed GET ''/api/v1/pods'' = Some (R_list_or_watch Pods)" "routed GET ''/api/v1/nodes'' = Some (R_list_or_watch Nodes)"
  "routed POST ''/api/v1/pods'' = Some (R_create Pods)" "routed POST ''/api/v1/endpoints'' = Some (R_create EndpointsRes)"
  "routed GET ''/api/v1/services'' = Some (R_list_or_watch Services)" "routed GET ''/api/v1/endpoints'' = Some (R_list_or_watch EndpointsRes)"
  unfolding coll_paths routed_paths(1) [of "''x''", simplified url_safe_def, simplified] by (simp_all add: router_def)

lemma item_routes:
  assumes "url_safe n"
  shows "routed GET (''/api/v1/pods/'' @ n) = Some (R_get Pods n)" "routed GET (''/api/v1/replicasets/'' @ n) = Some (R_get ReplicaSets n)"
    "routed GET (''/api/v1/services/'' @ n) = Some (R_get Services n)" "routed GET (''/api/v1/endpoints/'' @ n) = Some (R_get EndpointsRes n)"
    "routed PUT (''/api/v1/pods/'' @ n) = Some (R_replace Pods n)" "routed PUT (''/api/v1/endpoints/'' @ n) = Some (R_replace EndpointsRes n)"
    "routed POST (''/api/v1/pods/'' @ n @ ''/binding'') = Some (R_bind n)"
    "routed DELETE (''/api/v1/pods/'' @ n @ rv_query rv) = Some (R_delete Pods n)"
    "routed DELETE (''/api/v1/endpoints/'' @ n @ rv_query rv) = Some (R_delete EndpointsRes n)"
    "routed PUT (''/api/v1/replicasets/'' @ n @ ''/status'' @ rv_query rv) = Some (R_replace_status ReplicaSets n)"
    "routed PUT (''/api/v1/pods/'' @ n @ ''/status'' @ rv_query rv) = Some (R_replace_status Pods n)"
  unfolding coll_paths routed_paths [OF assms] using assms by (simp_all add: router_def url_safe_def)

lemma rv_params:
  assumes "url_safe n" and "url_safe rv"
  shows "query_param ''resourceVersion'' (''/api/v1/pods/'' @ n @ rv_query rv) = Some rv"
    "query_param ''resourceVersion'' (''/api/v1/endpoints/'' @ n @ rv_query rv) = Some rv"
    "query_param ''resourceVersion'' (''/api/v1/replicasets/'' @ n @ ''/status'' @ rv_query rv) = Some rv"
    "query_param ''resourceVersion'' (''/api/v1/pods/'' @ n @ ''/status'' @ rv_query rv) = Some rv"
proof -
  have q: "CHR ''?'' \<notin> set (''/api/v1/pods/'' @ n)" "CHR ''?'' \<notin> set (''/api/v1/endpoints/'' @ n)"
      "CHR ''?'' \<notin> set (''/api/v1/replicasets/'' @ n @ ''/status'')" "CHR ''?'' \<notin> set (''/api/v1/pods/'' @ n @ ''/status'')"
    using url_safeD [OF assms(1)] by simp_all
  show "query_param ''resourceVersion'' (''/api/v1/pods/'' @ n @ rv_query rv) = Some rv"
    "query_param ''resourceVersion'' (''/api/v1/endpoints/'' @ n @ rv_query rv) = Some rv"
    "query_param ''resourceVersion'' (''/api/v1/replicasets/'' @ n @ ''/status'' @ rv_query rv) = Some rv"
    "query_param ''resourceVersion'' (''/api/v1/pods/'' @ n @ ''/status'' @ rv_query rv) = Some rv"
    using rv_param [OF q(1) assms(2)] rv_param [OF q(2) assms(2)] rv_param [OF q(3) assms(2)] rv_param [OF q(4) assms(2)] by simp_all
qed

lemma body_sent:
  "create_resource cl js path (Inr b) = send cl POST path (Some b) (parse_json (cn_kc cl) (js_from_slice js))"
  "put_resource cl js path (Inr b) = send cl PUT path (Some b) (parse_json (cn_kc cl) (js_from_slice js))"
  by (simp_all add: create_resource_def put_resource_def send_body_def fun_eq_iff)

lemma create_pod_law:
  assumes c: "connected cl sv sl view (n, rp) a" and "validate_pod p = Inr ()" and "url_safe (om_name (pod_metadata p))"
  shows "\<exists>uuid now. performs (connected cl sv sl view) (seen_error cl) id (client_create_pod cl p) (n, rp)
    (spec_op pods_part Pod_kind (Create_op (stamp_for_create Pod_kind uuid now p)) a)"
proof -
  let ?en = "sv_env sv n"
  note d = connectedD [OF c]
  obtain b where b: "js_to_vec (cx_pod (kc_cx (cn_kc cl))) p = Inr b" "js_from_slice (cx_pod (kc_cx (cn_kc cl))) b = Inr p"
    using d(8) by (auto simp: json_laws_def)
  have wf: "well_formed (fst (spec_op pods_part Pod_kind (Create_op (stamp_for_create Pod_kind (en_uuid ?en) (en_now ?en) p)) a))"
    using assms(2,3) by (intro well_formed_pods d(2)) (auto simp: stamp_for_create_def Pod_kind_def validate_pod_def split: if_splits)
  have "create_pod ?en p = create_write ?en (cx_pod (en_cx ?en)) Pod_kind Pod_event p" using assms(2) by (simp add: create_pod_def)
  then have "carries_out ?en view (create_pod ?en p) rp 201 (spec_op pods_part Pod_kind (Create_op (stamp_for_create Pod_kind (en_uuid ?en) (en_now ?en) p)) a)"
    using carried(1) [OF d(4,5,3,6)] by simp
  from write_performs(1) [OF c fixed_routes(3) d(8) _ this wf, of "Some b" "sv_pods sv"]
  have "performs (connected cl sv sl view) (seen_error cl) id (client_create_pod cl p) (n, rp)
      (spec_op pods_part Pod_kind (Create_op (stamp_for_create Pod_kind (en_uuid ?en) (en_now ?en) p)) a)"
    using b d(7) by (simp add: client_create_pod_def body_sent with_body_def)
  then show ?thesis by blast
qed

lemma replace_pod_law:
  assumes c: "connected cl sv sl view (n, rp) a" and v: "validate_pod p = Inr ()" and safe: "url_safe (om_name (pod_metadata p))"
  shows "performs (connected cl sv sl view) (seen_error cl) id (client_replace_pod_spec cl p) (n, rp)
    (spec_op pods_part Pod_kind (ReplaceSpec_op (om_name (pod_metadata p)) p) a)"
proof -
  let ?en = "sv_env sv n" and ?op = "ReplaceSpec_op (om_name (pod_metadata p)) p"
  note d = connectedD [OF c]
  obtain b where b: "js_to_vec (cx_pod (kc_cx (cn_kc cl))) p = Inr b" "js_from_slice (cx_pod (kc_cx (cn_kc cl))) b = Inr p"
    using d(8) by (auto simp: json_laws_def)
  have wf: "well_formed (fst (spec_op pods_part Pod_kind ?op a))"
    using v by (intro well_formed_pods d(2)) (auto simp: Pod_kind_def validate_pod_def split: if_splits)
  have "carries_out ?en view (replace_pod_spec ?en (om_name (pod_metadata p)) p) rp 200 (spec_op pods_part Pod_kind ?op a)"
    using carried(2) [OF d(4,5,3,6)] v by (simp add: replace_pod_spec_def check_name_def)
  from write_performs(1) [OF c item_routes(5) [OF safe] d(8) _ this wf, of "Some b" "sv_pods sv"] show ?thesis
    using b d(7) by (simp add: client_replace_pod_spec_def body_sent with_body_def)
qed

lemma delete_pod_law:
  assumes c: "connected cl sv sl view (n, rp) a" and safe: "url_safe m" "url_safe rv"
  shows "performs (connected cl sv sl view) (seen_error cl) (\<lambda>_. ()) (client_delete_pod cl m rv) (n, rp)
    (spec_op pods_part Pod_kind (Delete_op m rv) a)"
proof -
  let ?en = "sv_env sv n"
  note d = connectedD [OF c]
  have wf: "well_formed (fst (spec_op pods_part Pod_kind (Delete_op m rv) a))" by (intro well_formed_pods d(2)) simp_all
  have "carries_out ?en view (delete_pod ?en m (Some rv)) rp 200 (spec_op pods_part Pod_kind (Delete_op m rv) a)"
    using carried(3) [OF d(4,5,3,6)] by (simp add: delete_pod_def)
  from write_performs(2) [OF c item_routes(8) [OF safe(1)] d(8) _ this wf, of rv None "sv_pods sv"] show ?thesis
    using d(7) rv_params [OF safe] by (simp add: client_delete_pod_def delete_resource_def)
qed

lemma bind_pod_law:
  assumes c: "connected cl sv sl view (n, rp) a" and "node \<noteq> []" and p: "ap_pods a m = Some p"
  shows "performs (connected cl sv sl view) (seen_error cl) id (client_bind_pod cl m node) (n, rp)
    (spec_op pods_part Pod_kind (ReplaceSpec_op m (set_node_name node p)) a)"
proof -
  let ?en = "sv_env sv n" and ?op = "ReplaceSpec_op m (set_node_name node p)"
  note d = connectedD [OF c]
  obtain r where nm: "om_name (pod_metadata p) = m" "url_safe m" "validate_pod p = Inr ()" using well_formed_pod [OF d(2) p] by metis
  obtain b where b: "kc_binding (cn_kc cl) node = Inr b" "sv_binding sv b = Inr node" using d(1) unfolding wired_def by meson
  have wf: "well_formed (fst (spec_op pods_part Pod_kind ?op a))"
    using nm by (intro well_formed_pods d(2)) (auto simp: Pod_kind_def set_node_name_def validate_pod_def split: if_splits)
  have "bind_pod ?en m node rp = replace_write ?en (cx_pod (en_cx ?en)) Pod_kind Pod_event m (set_node_name node p) rp"
    using pods_kind.read_get [OF d(4,3), of m] p assms(2) d(6)
    by (simp add: bind_pod_def gate_leader_def h_bind_def [of "h_read _ _"] part_gets)
  then have "carries_out ?en view (bind_pod ?en m node) rp 200 (spec_op pods_part Pod_kind ?op a)"
    using carried(2) [OF d(4,5,3,6), of Pod_event m "set_node_name node p"] by (simp add: carries_out_def)
  from write_performs(1) [OF c item_routes(7) [OF nm(2)] d(8) _ this wf, of "Some b" "sv_pods sv"] show ?thesis
    using b d(7) by (simp add: client_bind_pod_def body_sent with_body_def)
qed

lemma rs_status_law:
  assumes c: "connected cl sv sl view (n, rp) a" and safe: "url_safe m" "url_safe rv"
  shows "performs (connected cl sv sl view) (seen_error cl) id (client_replace_rs_status cl m st rv) (n, rp)
    (spec_op rss_part ReplicaSet_kind (ReplaceStatus_op m rv (\<lambda>r. r\<lparr>rs_status := Some st\<rparr>)) a)"
proof -
  let ?en = "sv_env sv n" and ?op = "ReplaceStatus_op m rv (\<lambda>r. r\<lparr>rs_status := Some st\<rparr>)"
  note d = connectedD [OF c]
  obtain b where b: "js_to_vec (cx_rs_status (kc_cx (cn_kc cl))) st = Inr b" "js_from_slice (cx_rs_status (kc_cx (cn_kc cl))) b = Inr st"
    using d(1) unfolding json_laws_def wired_def by meson
  have wf: "well_formed (fst (spec_op rss_part ReplicaSet_kind ?op a))" by (intro well_formed_rss d(2)) (simp add: ReplicaSet_kind_def)
  have "carries_out ?en view (replace_replicaset_status ?en m (Some rv) st) rp 200 (spec_op rss_part ReplicaSet_kind ?op a)"
    using carried(4) [OF d(4,5,3,6)] by (simp add: replace_replicaset_status_def)
  from write_performs(1) [OF c item_routes(10) [OF safe(1)] d(9) _ this wf, of rv "Some b" "sv_rss sv"] show ?thesis
    using b d(7) rv_params [OF safe] by (simp add: client_replace_rs_status_def body_sent with_body_def)
qed

lemma pod_status_law:
  assumes c: "connected cl sv sl view (n, rp) a" and safe: "url_safe m" "url_safe rv"
  shows "performs (connected cl sv sl view) (seen_error cl) id (client_replace_pod_status cl m st rv) (n, rp)
    (spec_op pods_part Pod_kind (ReplaceStatus_op m rv (\<lambda>p. p\<lparr>pod_status := Some st\<rparr>)) a)"
proof -
  let ?en = "sv_env sv n" and ?op = "ReplaceStatus_op m rv (\<lambda>p. p\<lparr>pod_status := Some st\<rparr>)"
  note d = connectedD [OF c]
  obtain b where b: "js_to_vec (cx_pod_status (kc_cx (cn_kc cl))) st = Inr b" "js_from_slice (cx_pod_status (kc_cx (cn_kc cl))) b = Inr st"
    using d(1) unfolding json_laws_def wired_def by meson
  have wf: "well_formed (fst (spec_op pods_part Pod_kind ?op a))" by (intro well_formed_pods d(2)) (simp_all add: Pod_kind_def)
  have "carries_out ?en view (replace_pod_status ?en m (Some rv) st) rp 200 (spec_op pods_part Pod_kind ?op a)"
    using carried(8) [OF d(4,5,3,6)] by (simp add: replace_pod_status_def)
  from write_performs(1) [OF c item_routes(11) [OF safe(1)] d(8) _ this wf, of rv "Some b" "sv_pods sv"] show ?thesis
    using b d(7) rv_params [OF safe] by (simp add: client_replace_pod_status_def body_sent with_body_def)
qed

lemma create_endpoints_law:
  assumes c: "connected cl sv sl view (n, rp) a" and safe: "url_safe (om_name (ep_metadata e))"
  shows "\<exists>uuid now. performs (connected cl sv sl view) (seen_error cl) id (client_create_endpoints cl e) (n, rp)
    (spec_op eps_part Endpoints_kind (Create_op (stamp_for_create Endpoints_kind uuid now e)) a)"
proof -
  let ?en = "sv_env sv n"
  let ?op = "Create_op (stamp_for_create Endpoints_kind (en_uuid ?en) (en_now ?en) e)"
  note d = connectedD [OF c]
  obtain b where b: "js_to_vec (cx_ep (kc_cx (cn_kc cl))) e = Inr b" "js_from_slice (cx_ep (kc_cx (cn_kc cl))) b = Inr e"
    using d(12) by (auto simp: json_laws_def)
  have wf: "well_formed (fst (spec_op eps_part Endpoints_kind ?op a))"
    using safe by (intro well_formed_eps d(2)) (simp add: stamp_for_create_def Endpoints_kind_def)
  have "carries_out ?en view (create_endpoints ?en e) rp 201 (spec_op eps_part Endpoints_kind ?op a)"
    using carried(5) [OF d(4,5,3,6)] url_safeD [OF safe] by (simp add: create_endpoints_def)
  from write_performs(1) [OF c fixed_routes(4) d(12) _ this wf, of "Some b" "sv_eps sv"]
  have "performs (connected cl sv sl view) (seen_error cl) id (client_create_endpoints cl e) (n, rp) (spec_op eps_part Endpoints_kind ?op a)"
    using b d(7) by (simp add: client_create_endpoints_def body_sent with_body_def)
  then show ?thesis by blast
qed

lemma replace_endpoints_law:
  assumes c: "connected cl sv sl view (n, rp) a" and safe: "url_safe (om_name (ep_metadata e))"
  shows "performs (connected cl sv sl view) (seen_error cl) id (client_replace_endpoints cl e) (n, rp)
    (spec_op eps_part Endpoints_kind (ReplaceSpec_op (om_name (ep_metadata e)) e) a)"
proof -
  let ?en = "sv_env sv n" and ?op = "ReplaceSpec_op (om_name (ep_metadata e)) e"
  note d = connectedD [OF c]
  obtain b where b: "js_to_vec (cx_ep (kc_cx (cn_kc cl))) e = Inr b" "js_from_slice (cx_ep (kc_cx (cn_kc cl))) b = Inr e"
    using d(12) by (auto simp: json_laws_def)
  have wf: "well_formed (fst (spec_op eps_part Endpoints_kind ?op a))" by (intro well_formed_eps d(2)) (simp add: Endpoints_kind_def)
  have "carries_out ?en view (replace_endpoints ?en (om_name (ep_metadata e)) e) rp 200 (spec_op eps_part Endpoints_kind ?op a)"
    using carried(6) [OF d(4,5,3,6)] by (simp add: replace_endpoints_def check_name_def)
  from write_performs(1) [OF c item_routes(6) [OF safe] d(12) _ this wf, of "Some b" "sv_eps sv"] show ?thesis
    using b d(7) by (simp add: client_replace_endpoints_def body_sent with_body_def)
qed

lemma delete_endpoints_law:
  assumes c: "connected cl sv sl view (n, rp) a" and safe: "url_safe m" "url_safe rv"
  shows "performs (connected cl sv sl view) (seen_error cl) (\<lambda>_. ()) (client_delete_endpoints cl m rv) (n, rp)
    (spec_op eps_part Endpoints_kind (Delete_op m rv) a)"
proof -
  let ?en = "sv_env sv n"
  note d = connectedD [OF c]
  have wf: "well_formed (fst (spec_op eps_part Endpoints_kind (Delete_op m rv) a))" by (intro well_formed_eps d(2)) simp_all
  have "carries_out ?en view (delete_endpoints ?en m (Some rv)) rp 200 (spec_op eps_part Endpoints_kind (Delete_op m rv) a)"
    using carried(7) [OF d(4,5,3,6)] by (simp add: delete_endpoints_def)
  from write_performs(2) [OF c item_routes(9) [OF safe(1)] d(12) _ this wf, of rv None "sv_eps sv"] show ?thesis
    using d(7) rv_params [OF safe] by (simp add: client_delete_endpoints_def delete_resource_def)
qed

text \<open>Reads.\<close>

lemma read_laws:
  assumes c: "connected cl sv sl view (n, rp) a" and safe: "url_safe m"
  shows "reads (connected cl sv sl view) (client_get_pod cl m) (n, rp) a (ap_pods a m)"
    and "reads (connected cl sv sl view) (client_get_replicaset cl m) (n, rp) a (ap_rss a m)"
    and "reads (connected cl sv sl view) (client_get_service cl m) (n, rp) a (ap_svcs a m)"
    and "reads (connected cl sv sl view) (client_get_endpoints cl m) (n, rp) a (ap_eps a m)"
proof -
  let ?en = "sv_env sv n"
  note d = connectedD [OF c]
  note after = connectedI [OF c d(3,2)]
  note got = get_call [OF d(1)]
  show "reads (connected cl sv sl view) (client_get_pod cl m) (n, rp) a (ap_pods a m)"
    using got [OF item_routes(1) [OF safe] d(8), of n rp "sv_pods sv" "get_pod ?en m"] pods_kind.get_answer [OF d(4,3), of m] after d(7)
    by (simp add: reads_def client_get_pod_def get_pod_def part_gets)
  show "reads (connected cl sv sl view) (client_get_replicaset cl m) (n, rp) a (ap_rss a m)"
    using got [OF item_routes(2) [OF safe] d(9), of n rp "sv_rss sv" "get_replicaset ?en m"] rss_kind.get_answer [OF d(4,3), of m] after d(7)
    by (simp add: reads_def client_get_replicaset_def get_replicaset_def part_gets)
  show "reads (connected cl sv sl view) (client_get_service cl m) (n, rp) a (ap_svcs a m)"
    using got [OF item_routes(3) [OF safe] d(11), of n rp "sv_svcs sv" "get_service ?en m"] svcs_kind.get_answer [OF d(4,3), of m] after d(7)
    by (simp add: reads_def client_get_service_def get_service_def part_gets)
  show "reads (connected cl sv sl view) (client_get_endpoints cl m) (n, rp) a (ap_eps a m)"
    using got [OF item_routes(4) [OF safe] d(12), of n rp "sv_eps sv" "get_endpoints ?en m"] eps_kind.get_answer [OF d(4,3), of m] after d(7)
    by (simp add: reads_def client_get_endpoints_def get_endpoints_def part_gets)
qed

lemma plain_params: "params_of ''/api/v1/pods'' = \<lparr>lw_watch = None, lw_resource_version = None, lw_field_selector = None\<rparr>"
  "params_of ''/api/v1/nodes'' = \<lparr>lw_watch = None, lw_resource_version = None, lw_field_selector = None\<rparr>"
  "params_of ''/api/v1/services'' = \<lparr>lw_watch = None, lw_resource_version = None, lw_field_selector = None\<rparr>"
  "params_of ''/api/v1/endpoints'' = \<lparr>lw_watch = None, lw_resource_version = None, lw_field_selector = None\<rparr>"
  by (simp_all add: params_of_def query_param_def target_parts_def)

lemma list_pods_law:
  assumes c: "connected cl sv sl view (n, rp) a"
  shows "\<exists>ps. enumerates (ap_pods a) ps \<and> reads (connected cl sv sl view) (client_list_pods cl) (n, rp) a ps"
proof -
  let ?en = "sv_env sv n"
  note d = connectedD [OF c]
  obtain ps where ps: "enumerates (ap_pods a) ps"
      "h_read ?en (\<lambda>dk. store_list (en_sled ?en) (cx_pod (en_cx ?en)) Pod_kind dk dk) rp = (rp, Reply (ps, ap_rv a))"
    using pods_kind.read_list [OF d(4,3)] by (auto simp: part_gets)
  let ?h = "list_or_watch_pods ?en (params_of ''/api/v1/pods'')"
  have "?h rp = (rp, Reply (200, Items (PodList_new ps)))"
    using ps(2) unfolding plain_params
    by (simp add: list_or_watch_pods_def wants_watch_def parse_node_name_selector_def h_bind_def h_ok_def)
  moreover have "kc_pods (cn_kc cl) (sv_pods sv (PodList_new ps)) = Inr (lb_items (PodList_new ps))" using d(1) by (simp add: wired_def)
  ultimately have "client_list_pods cl (n, rp) = ((Suc n, rp), Inr ps)"
    using list_call [OF d(1) fixed_routes(1), of n rp "cx_pod (en_cx ?en)" "sv_pods sv" ?h "PodList_new ps" "kc_pods (cn_kc cl)"]
    by (simp add: client_list_pods_def PodList_new_def)
  then show ?thesis using ps(1) connectedI [OF c d(3,2)] by (auto simp: reads_def)
qed

lemma list_nodes_law:
  assumes c: "connected cl sv sl view (n, rp) a"
  shows "\<exists>ns. enumerates (ap_nodes a) ns \<and> reads (connected cl sv sl view) (client_list_nodes cl) (n, rp) a ns"
proof -
  let ?en = "sv_env sv n"
  note d = connectedD [OF c]
  obtain ns where ns: "enumerates (ap_nodes a) ns"
      "h_read ?en (\<lambda>dk. store_list (en_sled ?en) (cx_node (en_cx ?en)) Node_kind dk dk) rp = (rp, Reply (ns, ap_rv a))"
    using nodes_kind.read_list [OF d(4,3)] by (auto simp: part_gets)
  let ?h = "list_or_watch_nodes ?en (params_of ''/api/v1/nodes'')"
  have "?h rp = (rp, Reply (200, Items (NodeList_new ns)))"
    using ns(2) unfolding plain_params by (simp add: list_or_watch_nodes_def list_or_watch_def wants_watch_def h_bind_def h_ok_def)
  moreover have "kc_nodes (cn_kc cl) (sv_nodes sv (NodeList_new ns)) = Inr (lb_items (NodeList_new ns))" using d(1) by (simp add: wired_def)
  ultimately have "client_list_nodes cl (n, rp) = ((Suc n, rp), Inr ns)"
    using list_call [OF d(1) fixed_routes(2), of n rp "cx_node (en_cx ?en)" "sv_nodes sv" ?h "NodeList_new ns" "kc_nodes (cn_kc cl)"]
    by (simp add: client_list_nodes_def NodeList_new_def)
  then show ?thesis using ns(1) connectedI [OF c d(3,2)] by (auto simp: reads_def)
qed

lemma list_services_law:
  assumes c: "connected cl sv sl view (n, rp) a"
  shows "\<exists>xs. enumerates (ap_svcs a) xs \<and> reads (connected cl sv sl view) (client_list_services cl) (n, rp) a xs"
proof -
  let ?en = "sv_env sv n"
  note d = connectedD [OF c]
  obtain xs where xs: "enumerates (ap_svcs a) xs"
      "h_read ?en (\<lambda>dk. store_list (en_sled ?en) (cx_svc (en_cx ?en)) Service_kind dk dk) rp = (rp, Reply (xs, ap_rv a))"
    using svcs_kind.read_list [OF d(4,3)] by (auto simp: part_gets)
  let ?h = "list_or_watch_services ?en (params_of ''/api/v1/services'')"
  have "?h rp = (rp, Reply (200, Items (ServiceList_new xs)))"
    using xs(2) unfolding plain_params by (simp add: list_or_watch_services_def list_or_watch_def wants_watch_def h_bind_def h_ok_def)
  moreover have "kc_svcs (cn_kc cl) (sv_svcs sv (ServiceList_new xs)) = Inr (lb_items (ServiceList_new xs))" using d(1) by (simp add: wired_def)
  ultimately have "client_list_services cl (n, rp) = ((Suc n, rp), Inr xs)"
    using list_call [OF d(1) fixed_routes(5), of n rp "cx_svc (en_cx ?en)" "sv_svcs sv" ?h "ServiceList_new xs" "kc_svcs (cn_kc cl)"]
    by (simp add: client_list_services_def ServiceList_new_def)
  then show ?thesis using xs(1) connectedI [OF c d(3,2)] by (auto simp: reads_def)
qed

lemma list_endpoints_law:
  assumes c: "connected cl sv sl view (n, rp) a"
  shows "\<exists>xs. enumerates (ap_eps a) xs \<and> reads (connected cl sv sl view) (client_list_endpoints cl) (n, rp) a xs"
proof -
  let ?en = "sv_env sv n"
  note d = connectedD [OF c]
  obtain xs where xs: "enumerates (ap_eps a) xs"
      "h_read ?en (\<lambda>dk. store_list (en_sled ?en) (cx_ep (en_cx ?en)) Endpoints_kind dk dk) rp = (rp, Reply (xs, ap_rv a))"
    using eps_kind.read_list [OF d(4,3)] by (auto simp: part_gets)
  let ?h = "list_or_watch_endpoints ?en (params_of ''/api/v1/endpoints'')"
  have "?h rp = (rp, Reply (200, Items (EndpointsList_new xs)))"
    using xs(2) unfolding plain_params by (simp add: list_or_watch_endpoints_def list_or_watch_def wants_watch_def h_bind_def h_ok_def)
  moreover have "kc_eps (cn_kc cl) (sv_eps sv (EndpointsList_new xs)) = Inr (lb_items (EndpointsList_new xs))" using d(1) by (simp add: wired_def)
  ultimately have "client_list_endpoints cl (n, rp) = ((Suc n, rp), Inr xs)"
    using list_call [OF d(1) fixed_routes(6), of n rp "cx_ep (en_cx ?en)" "sv_eps sv" ?h "EndpointsList_new xs" "kc_eps (cn_kc cl)"]
    by (simp add: client_list_endpoints_def EndpointsList_new_def)
  then show ?thesis using xs(1) connectedI [OF c d(3,2)] by (auto simp: reads_def)
qed

subsection \<open>Refused requests, lists of a node, and the opening of a watch\<close>

text \<open>A call is declined: the client sees the error and nothing has changed.\<close>

definition declines :: "('w \<Rightarrow> api_spec \<Rightarrow> bool) \<Rightarrow> ('w, 'x) call \<Rightarrow> 'w \<Rightarrow> api_spec \<Rightarrow> client_error \<Rightarrow> bool" where
  "declines R f w a e \<longleftrightarrow> (\<exists>w'. f w = (w', Inl e) \<and> R w' a)"

lemma declined_call:
  assumes c: "connected cl sv sl view (n, rp) a" and "routed meth path = Some r"
    and "dispatch sv (sv_env sv n) r path body rp = rendered sv js enc h rp" and "h rp = (rp, Fail e)"
  shows "declines (connected cl sv sl view) (send cl meth path body (parse_json (cn_kc cl) dec)) (n, rp) a (client_view e)"
proof -
  note d = connectedD [OF c]
  have "send cl meth path body (parse_json (cn_kc cl) dec) (n, rp) = ((Suc n, rp), Inl (client_view e))"
    using check_fail [OF d(1)] assms(2-4) by (simp add: send_served [OF d(1)] rendered_def parse_json_def)
  then show ?thesis using connectedI [OF c d(3,2)] by (auto simp: declines_def)
qed

lemma create_pod_declined:
  assumes c: "connected cl sv sl view (n, rp) a" and "validate_pod p = Inl e"
  shows "declines (connected cl sv sl view) (client_create_pod cl p) (n, rp) a (client_view e)"
proof -
  note d = connectedD [OF c]
  obtain b where b: "js_to_vec (cx_pod (kc_cx (cn_kc cl))) p = Inr b" "js_from_slice (cx_pod (kc_cx (cn_kc cl))) b = Inr p"
    using d(8) by (auto simp: json_laws_def)
  have "create_pod (sv_env sv n) p rp = (rp, Fail e)" using assms(2) by (simp add: create_pod_def h_fail_def)
  from declined_call [where h = "create_pod (sv_env sv n) p" and body = "Some b" and js = "cx_pod (en_cx (sv_env sv n))" and enc = "sv_pods sv", OF c fixed_routes(3) _ this] show ?thesis
    using b d(7) by (simp add: client_create_pod_def body_sent with_body_def)
qed

lemma replace_pod_declined:
  assumes c: "connected cl sv sl view (n, rp) a" and "validate_pod p = Inl e" and safe: "url_safe (om_name (pod_metadata p))"
  shows "declines (connected cl sv sl view) (client_replace_pod_spec cl p) (n, rp) a (client_view e)"
proof -
  note d = connectedD [OF c]
  obtain b where b: "js_to_vec (cx_pod (kc_cx (cn_kc cl))) p = Inr b" "js_from_slice (cx_pod (kc_cx (cn_kc cl))) b = Inr p"
    using d(8) by (auto simp: json_laws_def)
  have "replace_pod_spec (sv_env sv n) (om_name (pod_metadata p)) p rp = (rp, Fail e)"
    using assms(2) by (simp add: replace_pod_spec_def h_fail_def)
  from declined_call [where h = "replace_pod_spec (sv_env sv n) (om_name (pod_metadata p)) p" and body = "Some b" and js = "cx_pod (en_cx (sv_env sv n))" and enc = "sv_pods sv", OF c item_routes(5) [OF safe] _ this] show ?thesis
    using b d(7) by (simp add: client_replace_pod_spec_def body_sent with_body_def)
qed

definition bind_error :: "api_spec \<Rightarrow> string \<Rightarrow> string \<Rightarrow> api_error option" where
  "bind_error a m node =
     (if node = [] then Some (Api_BadRequest ''binding.node_name must not be empty'')
      else if ap_pods a m = None then Some (Api_NotFound m) else None)"

lemma bind_pod_declined:
  assumes c: "connected cl sv sl view (n, rp) a" and safe: "url_safe m" and e: "bind_error a m node = Some e"
  shows "declines (connected cl sv sl view) (client_bind_pod cl m node) (n, rp) a (client_view e)"
proof -
  let ?en = "sv_env sv n"
  note d = connectedD [OF c]
  obtain b where b: "kc_binding (cn_kc cl) node = Inr b" "sv_binding sv b = Inr node" using d(1) unfolding wired_def by meson
  have "bind_pod ?en m node rp = (rp, Fail e)"
    using e d(6) pods_kind.read_get [OF d(4,3), of m]
    by (auto simp: bind_error_def bind_pod_def gate_leader_def h_fail_def h_bind_def [of "h_read _ _"] part_gets split: if_splits)
  from declined_call [where h = "bind_pod (sv_env sv n) m node" and body = "Some b" and js = "cx_pod (en_cx (sv_env sv n))" and enc = "sv_pods sv", OF c item_routes(7) [OF safe] _ this] show ?thesis
    using b d(7) by (simp add: client_bind_pod_def body_sent with_body_def)
qed

text \<open>The queries of the node agent.\<close>

lemma pods_target:
  "target_parts (''/api/v1/pods?'' @ q) =
     (split_on (CHR ''/'') ''/api/v1/pods'', List.map_filter (\<lambda>kv. split_once (CHR ''='') kv) (split_on (CHR ''&'') q))"
  using split_once_append [of "CHR ''?''" "''/api/v1/pods''" q] by (simp add: target_parts_def)

lemma node_selector: "parse_node_name_selector (Some (''spec.nodeName='' @ node)) = Some node"
  unfolding parse_node_name_selector_def option.case by (rule strip_prefix_append)

lemma node_list_params:
  assumes "url_safe node"
  shows "routed GET (''/api/v1/pods?fieldSelector=spec.nodeName='' @ node) = Some (R_list_or_watch Pods)"
    and "params_of (''/api/v1/pods?fieldSelector=spec.nodeName='' @ node) =
      \<lparr>lw_watch = None, lw_resource_version = None, lw_field_selector = Some (''spec.nodeName='' @ node)\<rparr>"
proof -
  have "split_on (CHR ''&'') (''fieldSelector=spec.nodeName='' @ node) = [''fieldSelector=spec.nodeName='' @ node]"
    using url_safeD [OF assms] by (intro split_on_single) simp
  then have t: "target_parts (''/api/v1/pods?fieldSelector=spec.nodeName='' @ node) =
      ([[], ''api'', ''v1'', ''pods''], [(''fieldSelector'', ''spec.nodeName='' @ node)])"
    using pods_target [of "''fieldSelector=spec.nodeName='' @ node"] by (simp add: map_filter_simps)
  show "routed GET (''/api/v1/pods?fieldSelector=spec.nodeName='' @ node) = Some (R_list_or_watch Pods)"
    unfolding routed_def t by (simp add: router_def)
  show "params_of (''/api/v1/pods?fieldSelector=spec.nodeName='' @ node) =
      \<lparr>lw_watch = None, lw_resource_version = None, lw_field_selector = Some (''spec.nodeName='' @ node)\<rparr>"
    unfolding params_of_def query_param_def t by simp
qed

lemma list_pods_on_node_law:
  assumes c: "connected cl sv sl view (n, rp) a" and safe: "url_safe node"
  shows "\<exists>ps. enumerates (ap_pods a) ps \<and>
    reads (connected cl sv sl view) (client_list_pods_on_node cl node) (n, rp) a (filter (\<lambda>p. pc_node_name (pod_spec p) = Some node) ps)"
proof -
  let ?en = "sv_env sv n" and ?path = "''/api/v1/pods?fieldSelector=spec.nodeName='' @ node"
  note d = connectedD [OF c] and q = node_list_params [OF safe]
  obtain ps where ps: "enumerates (ap_pods a) ps"
      "h_read ?en (\<lambda>dk. store_list (en_sled ?en) (cx_pod (en_cx ?en)) Pod_kind dk dk) rp = (rp, Reply (ps, ap_rv a))"
    using pods_kind.read_list [OF d(4,3)] by (auto simp: part_gets)
  let ?qs = "filter (\<lambda>p. pc_node_name (pod_spec p) = Some node) ps"
  have sel: "parse_node_name_selector (Some (''spec.nodeName='' @ node)) = Some node"
    by (rule node_selector)
  have "list_or_watch_pods ?en (params_of ?path) rp = (rp, Reply (200, Items (PodList_new ?qs)))"
    using ps(2) unfolding q(2) list_or_watch_pods_def Let_def list_watch_params.select_convs sel
    by (simp add: wants_watch_def h_bind_def h_ok_def on_node_def [abs_def])
  moreover have "kc_pods (cn_kc cl) (sv_pods sv (PodList_new ?qs)) = Inr (lb_items (PodList_new ?qs))" using d(1) by (simp add: wired_def)
  ultimately have "client_list_pods_on_node cl node (n, rp) = ((Suc n, rp), Inr ?qs)"
    using list_call [OF d(1) q(1), of n rp "cx_pod (en_cx ?en)" "sv_pods sv" "list_or_watch_pods ?en (params_of ?path)" "PodList_new ?qs" "kc_pods (cn_kc cl)"]
    by (simp add: client_list_pods_on_node_def PodList_new_def)
  then show ?thesis using ps(1) connectedI [OF c d(3,2)] by (auto simp: reads_def)
qed

text \<open>A watch has no complete answer; its request selects the stream from a version on, with a filter.\<close>

definition opens_watch :: "('s, 'j) env \<Rightarrow> string \<Rightarrow> nat \<Rightarrow> (pod \<Rightarrow> bool) \<Rightarrow> bool" where
  "opens_watch en path from_rv keep \<longleftrightarrow> routed GET path = Some (R_list_or_watch Pods) \<and>
     (\<forall>rp. list_or_watch_pods en (params_of path) rp = (rp, Reply (200, Watch from_rv keep)))"

lemma watch_opened:
  assumes "url_safe rv" and "url_safe node"
  shows "opens_watch en (watch_path ''/api/v1/pods'' (Some rv)) (parse_rv (Some rv)) (on_node None)"
    and "opens_watch en (watch_path ''/api/v1/pods'' None) 0 (on_node None)"
    and "opens_watch en (node_watch_path node (Some rv)) (parse_rv (Some rv)) (on_node (Some node))"
    and "opens_watch en (node_watch_path node None) 0 (on_node (Some node))"
proof -
  have single: "split_on (CHR ''&'') (''resourceVersion='' @ rv) = [''resourceVersion='' @ rv]"
      "split_on (CHR ''&'') (''fieldSelector=spec.nodeName='' @ node) = [''fieldSelector=spec.nodeName='' @ node]"
    using url_safeD [OF assms(1)] url_safeD [OF assms(2)] by (simp_all add: split_on_single)
  have both: "split_on (CHR ''&'') (''fieldSelector=spec.nodeName='' @ node @ ''&resourceVersion='' @ rv) =
      [''fieldSelector=spec.nodeName='' @ node, ''resourceVersion='' @ rv]"
    using split_on_append [of "CHR ''&''" "''fieldSelector=spec.nodeName='' @ node" "''resourceVersion='' @ rv"] single url_safeD [OF assms(2)]
    by simp
  have w: "split_on (CHR ''&'') (''watch=true&'' @ q) = ''watch=true'' # split_on (CHR ''&'') q" for q by simp
  have t: "target_parts (watch_path ''/api/v1/pods'' (Some rv)) = ([[], ''api'', ''v1'', ''pods''], [(''watch'', ''true''), (''resourceVersion'', rv)])"
    "target_parts (watch_path ''/api/v1/pods'' None) = ([[], ''api'', ''v1'', ''pods''], [(''watch'', ''true'')])"
    "target_parts (node_watch_path node (Some rv)) =
       ([[], ''api'', ''v1'', ''pods''], [(''watch'', ''true''), (''fieldSelector'', ''spec.nodeName='' @ node), (''resourceVersion'', rv)])"
    "target_parts (node_watch_path node None) = ([[], ''api'', ''v1'', ''pods''], [(''watch'', ''true''), (''fieldSelector'', ''spec.nodeName='' @ node)])"
    using pods_target [of "''watch=true&'' @ ''resourceVersion='' @ rv"] pods_target [of "''watch=true''"]
      pods_target [of "''watch=true&'' @ ''fieldSelector=spec.nodeName='' @ node @ ''&resourceVersion='' @ rv"]
      pods_target [of "''watch=true&'' @ ''fieldSelector=spec.nodeName='' @ node"] single both
    unfolding w by (simp_all add: watch_path_def node_watch_path_def map_filter_simps)
  have no_selector: "parse_node_name_selector None = None" by (simp add: parse_node_name_selector_def)
  note open_defs = opens_watch_def routed_def params_of_def query_param_def list_or_watch_pods_def wants_watch_def
  show "opens_watch en (watch_path ''/api/v1/pods'' (Some rv)) (parse_rv (Some rv)) (on_node None)"
    and "opens_watch en (watch_path ''/api/v1/pods'' None) 0 (on_node None)"
    and "opens_watch en (node_watch_path node (Some rv)) (parse_rv (Some rv)) (on_node (Some node))"
    and "opens_watch en (node_watch_path node None) 0 (on_node (Some node))"
    unfolding open_defs t
    using node_selector [of node] no_selector by (simp_all add: router_def parse_rv_def h_ok_def)
qed

interpretation net: cluster "client_api cl" "connected cl sv sl view" "seen_error cl"
  for cl :: "(('s, 'j) net, 'j) client" and sv :: "('s, 'j) server" and sl :: "'s sled" and view :: "'s \<Rightarrow> bytes \<rightharpoonup> bytes"
proof (unfold_locales, goal_cases)
  case (1 w a)
  then show ?case by (simp add: connected_def)
qed (auto simp: client_api_def intro: list_pods_law list_nodes_law list_services_law list_endpoints_law read_laws create_pod_law replace_pod_law delete_pod_law bind_pod_law
    rs_status_law create_endpoints_law replace_endpoints_law delete_endpoints_law)

end
