(* ===== verification/Node_Cluster.thy ===== *)
theory Node_Cluster
  imports Http_Cluster Kubelet
begin

text \<open>
  The status reports of the node agent against the API server. The locale \<open>node_cluster\<close> extends \<open>cluster\<close> by the call a node agent
  makes and the controllers do not; it is interpreted on the client connected to the server, so the result holds for the
  whole stack.
\<close>

locale node_cluster = cluster api R err
  for api :: "'w api" and R :: "'w \<Rightarrow> api_spec \<Rightarrow> bool" and err :: "store_error \<Rightarrow> client_error" +
  assumes replace_pod_status: "R w a \<Longrightarrow> url_safe n \<Longrightarrow> url_safe rv \<Longrightarrow>
      performs R err id (k8_replace_pod_status api n st rv) w
        (spec_op pods_part Pod_kind (ReplaceStatus_op n rv (\<lambda>p. p\<lparr>pod_status := Some st\<rparr>)) a)"
    and conflict_seen: "\<exists>m. err (Store_Conflict x y) = Cl_Conflict m"

context node_cluster
begin

lemma pod_status_ok:
  assumes "R w a" and "ap_pods a n = Some p" and "om_resource_version (pod_metadata p) = Some rv"
  shows "\<exists>w' u. k8_replace_pod_status api n st rv w = (w', Inr u) \<and> R w' (with_pods ((ap_pods a)(n \<mapsto> u)) a) \<and>
    pod_status u = Some st \<and> pod_spec u = pod_spec p"
proof -
  obtain r where p: "rv = show_nat r" "url_safe n" "om_name (pod_metadata p) = n"
    using well_formed_pod [OF shape [OF assms(1)] assms(2)] assms(3) by (metis option.inject)
  have "performs R err id (k8_replace_pod_status api n st rv) w
      (spec_op pods_part Pod_kind (ReplaceStatus_op n rv (\<lambda>p. p\<lparr>pod_status := Some st\<rparr>)) a)"
    using replace_pod_status [OF assms(1) p(2)] p(1) show_nat_safe by simp
  then show ?thesis using assms(2,3) p(3) by (auto simp: performs_def spec_op_defs Pod_kind_def with_pods_def)
qed

lemma pod_status_stale:
  assumes "R w a" and "ap_pods a n = Some p" and "om_resource_version (pod_metadata p) \<noteq> Some rv" and "url_safe rv"
  shows "\<exists>w' m. k8_replace_pod_status api n st rv w = (w', Inl (Cl_Conflict m)) \<and> R w' a"
proof -
  obtain r where p: "om_resource_version (pod_metadata p) = Some (show_nat r)" "url_safe n"
    using well_formed_pod [OF shape [OF assms(1)] assms(2)] by metis
  obtain m where m: "err (Store_Conflict (show_nat r) rv) = Cl_Conflict m" using conflict_seen by blast
  have "spec_op pods_part Pod_kind (ReplaceStatus_op n rv (\<lambda>p. p\<lparr>pod_status := Some st\<rparr>)) a = (a, Inl (Store_Conflict (show_nat r) rv))"
    using assms(2,3) p(1) by (auto simp: spec_op_defs Pod_kind_def)
  then show ?thesis using replace_pod_status [OF assms(1) p(2) assms(4), of st] m by (auto simp: performs_def)
qed

lemma push_status_reported:
  assumes "ke_api env = api" and w: "R w a" and p: "ap_pods a n = Some p"
    and q: "kb_cache kb n = Some q" "om_resource_version (pod_metadata q) = Some rv" "url_safe rv"
  shows "\<exists>w' u kb'. push_status env n st kb w = (w', kb', Inr ()) \<and> R w' (with_pods ((ap_pods a)(n \<mapsto> u)) a) \<and>
    pod_status u = Some st \<and> pod_spec u = pod_spec p \<and> kb_cache kb' n = Some u \<and> kb_last_pushed_status kb' n = Some st"
proof (cases "om_resource_version (pod_metadata p) = Some rv")
  case True
  obtain w' u where "k8_replace_pod_status api n st rv w = (w', Inr u)" "R w' (with_pods ((ap_pods a)(n \<mapsto> u)) a)"
      "pod_status u = Some st" "pod_spec u = pod_spec p" using pod_status_ok [OF w p True] by blast
  then show ?thesis using q assms(1) by (simp add: push_status_def Let_def)
next
  case False
  obtain r where rv: "om_resource_version (pod_metadata p) = Some (show_nat r)" "url_safe n"
    using well_formed_pod [OF shape [OF w] p] by metis
  obtain w1 m where c: "k8_replace_pod_status api n st rv w = (w1, Inl (Cl_Conflict m))" "R w1 a"
    using pod_status_stale [OF w p False q(3)] by blast
  obtain w2 where g: "k8_get_pod api n w1 = (w2, Inr (Some p))" "R w2 a" using get_pod [OF c(2) rv(2)] p by (auto simp: reads_def)
  obtain w3 u where "k8_replace_pod_status api n st (show_nat r) w2 = (w3, Inr u)" "R w3 (with_pods ((ap_pods a)(n \<mapsto> u)) a)"
      "pod_status u = Some st" "pod_spec u = pod_spec p" using pod_status_ok [OF g(2) p rv(1)] by blast
  then show ?thesis using q assms(1) c(1) g(1) rv(1) by (simp add: push_status_def Let_def)
qed

end

interpretation node_net: node_cluster "client_api cl" "connected cl sv sl view" "seen_error cl"
  for cl :: "(('s, 'j) net, 'j) client" and sv :: "('s, 'j) server" and sl :: "'s sled" and view :: "'s \<Rightarrow> bytes \<rightharpoonup> bytes"
  by unfold_locales (auto simp: client_api_def seen_error_def intro: pod_status_law)

end
