(* ===== verification/Controller_Properties.thy ===== *)
theory Controller_Properties
  imports Http_Cluster
begin

text \<open>
  The properties of the ReplicaSet controller, the endpoints controller and the scheduler, each for the whole stack: the
  control loop calls the client, the request is routed to the handler, the handler works on the store, and the answer
  travels back. The hypothesis \<open>connected\<close> says that the store holds the cluster state of the specification.
\<close>

subsection \<open>A small cluster\<close>

definition demo_server :: "((bytes, bytes) fmap, nat list) server" where
  "demo_server = \<lparr>sv_env = (\<lambda>_. demo_env), sv_pods = (\<lambda>l. w_enc (wr_list wr_pod) (lb_items l)),
     sv_rss = (\<lambda>l. w_enc (wr_list wr_rs) (lb_items l)), sv_nodes = (\<lambda>l. w_enc (wr_list wr_node) (lb_items l)),
     sv_svcs = (\<lambda>l. w_enc (wr_list wr_svc) (lb_items l)), sv_eps = (\<lambda>l. w_enc (wr_list wr_ep) (lb_items l)),
     sv_status = w_enc wr_status, sv_value = (\<lambda>v. v), sv_binding = js_from_slice (wire_json wr_string),
     sv_unrouted = (404, None), sv_rejected = (422, None)\<rparr>"

definition demo_client :: "(((bytes, bytes) fmap, nat list) net, nat list) client" where
  "demo_client = \<lparr>cn_base_url = ''http://one'', cn_http = serve demo_server ''http://one'',
     cn_kc = (demo_kc demo_status_codec)\<lparr>kc_pods := js_from_slice (wire_json (wr_list wr_pod)),
       kc_nodes := js_from_slice (wire_json (wr_list wr_node)), kc_svcs := js_from_slice (wire_json (wr_list wr_svc)),
       kc_eps := js_from_slice (wire_json (wr_list wr_ep)), kc_binding := (\<lambda>n. Inr (w_enc wr_string n))\<rparr>\<rparr>"

lemma demo_wired: "wired demo_client demo_server map_tree fmlookup"
  by (simp add: wired_def demo_client_def demo_server_def demo_env_def demo_kc_def demo_status_codec_def map_tree_laws
      wire_codecs_ok wire_slice wire_intros) (simp add: wire_codecs_def wire_json_laws wire_intros)

definition demo_labels :: string_map where
  "demo_labels = [(''app'', ''web'')]"

definition demo_rs :: replicaset where
  "demo_rs = \<lparr>rs_api_version = ''apps/v1'', rs_kind = ''ReplicaSet'', rs_metadata = demo_meta ''web'',
     rs_spec = \<lparr>rss_replicas = 2, rss_match_labels = demo_labels,
       rss_template = \<lparr>pt_labels = demo_labels, pt_spec = pod_spec (demo_pod ''x'')\<rparr>\<rparr>, rs_status = None\<rparr>"

definition demo_svc :: service where
  "demo_svc = \<lparr>svc_api_version = ''v1'', svc_kind = ''Service'', svc_metadata = demo_meta ''web'',
     svc_spec = \<lparr>sv_selector = demo_labels, sv_port = 80, sv_target_port = 8080, sv_cluster_ip = None\<rparr>\<rparr>"

definition demo_node :: node where
  "demo_node = \<lparr>node_api_version = ''v1'', node_kind = ''Node'', node_metadata = demo_meta ''n1'',
     node_spec = \<lparr>nd_unschedulable = False, nd_pod_cidr = None\<rparr>,
     node_status = Some \<lparr>nst_ready = True, nst_last_heartbeat_time = Some ''t''\<rparr>\<rparr>"

definition running_pod :: pod where
  "running_pod = (demo_pod ''a'')\<lparr>pod_metadata := (demo_meta ''a'')\<lparr>om_labels := demo_labels\<rparr>,
     pod_status := Some \<lparr>ps_phase = Running, ps_container_statuses = [], ps_observed_generation = None, ps_pod_ip = Some ''10.244.0.2''\<rparr>\<rparr>"

text \<open>The contents after creating a pod, a ReplicaSet, a service and a node on an empty store.\<close>

definition demo_cluster :: api_spec where
  "demo_cluster =
     fst (spec_op nodes_part Node_kind (Create_op demo_node) (fst (spec_op svcs_part Service_kind (Create_op demo_svc)
       (fst (spec_op rss_part ReplicaSet_kind (Create_op demo_rs) (fst (spec_op pods_part Pod_kind (Create_op running_pod) empty_api)))))))"

lemma demo_versions: "saturating_succ 0 = 1" "saturating_succ (Suc 0) = 2" "saturating_succ 2 = 3" "saturating_succ 3 = 4"
  by (simp_all add: saturating_succ_def u64_max_def)

lemma demo_names:
  "kd_name Pod_kind running_pod = ''a''" "kd_name ReplicaSet_kind demo_rs = ''web''" "kd_name Service_kind demo_svc = ''web''"
  "kd_name Node_kind demo_node = ''n1''"
  by (simp_all add: Pod_kind_def ReplicaSet_kind_def Service_kind_def Node_kind_def running_pod_def demo_rs_def demo_svc_def demo_node_def demo_meta_def)

lemma demo_contents:
  "ap_pods demo_cluster = [''a'' \<mapsto> set_rv Pod_kind 1 running_pod]" "ap_rss demo_cluster = [''web'' \<mapsto> set_rv ReplicaSet_kind 2 demo_rs]"
  "ap_svcs demo_cluster = [''web'' \<mapsto> set_rv Service_kind 3 demo_svc]" "ap_nodes demo_cluster = [''n1'' \<mapsto> set_rv Node_kind 4 demo_node]"
  "ap_eps demo_cluster = Map.empty"
  by (simp_all add: demo_cluster_def spec_op_def part_spec_def with_part_def part_defs spec_put_def empty_api_def demo_names demo_versions)

lemma demo_well_formed: "well_formed demo_cluster"
proof -
  have "url_safe ''a''" "url_safe ''web''" "url_safe ''n1''" by (simp_all add: url_safe_def)
  then show ?thesis
    by (auto simp: well_formed_def demo_contents tidy_def set_rv_def Pod_kind_def ReplicaSet_kind_def Service_kind_def Node_kind_def
        running_pod_def demo_rs_def demo_svc_def demo_node_def demo_meta_def demo_pod_def)
qed

lemma demo_connected:
  obtains w where "connected demo_client demo_server map_tree fmlookup w demo_cluster"
proof -
  note laws = map_tree_laws wire_codecs_ok
  obtain d1 :: "(bytes, bytes) fmap disk" where d1: "all_hold wire_codecs (fmlookup (dk_db d1)) (fst (spec_op pods_part Pod_kind (Create_op running_pod) empty_api))"
    using pods_kind.exec_refines [OF laws fresh_holds] by blast
  obtain d2 :: "(bytes, bytes) fmap disk" where d2: "all_hold wire_codecs (fmlookup (dk_db d2)) (fst (spec_op rss_part ReplicaSet_kind (Create_op demo_rs)
      (fst (spec_op pods_part Pod_kind (Create_op running_pod) empty_api))))"
    using rss_kind.exec_refines [OF laws d1] by blast
  obtain d3 :: "(bytes, bytes) fmap disk" where d3: "all_hold wire_codecs (fmlookup (dk_db d3)) (fst (spec_op svcs_part Service_kind (Create_op demo_svc)
      (fst (spec_op rss_part ReplicaSet_kind (Create_op demo_rs) (fst (spec_op pods_part Pod_kind (Create_op running_pod) empty_api))))))"
    using svcs_kind.exec_refines [OF laws d2] by blast
  obtain d4 :: "(bytes, bytes) fmap disk" where "all_hold wire_codecs (fmlookup (dk_db d4)) demo_cluster"
    using nodes_kind.exec_refines [OF laws d3] unfolding demo_cluster_def by blast
  then have "connected demo_client demo_server map_tree fmlookup (0, fresh_replica\<lparr>rp_disk := d4\<rparr>) demo_cluster"
    using demo_wired demo_well_formed by (simp add: connected_def demo_client_def demo_kc_def)
  then show ?thesis by (rule that)
qed

subsection \<open>The calls\<close>

text \<open>
  C22 (the client and server implement the specification): over HTTP, routes, handlers and the store of a standalone server, the
  pod calls of the client do what the specification's operations do and return their answers, for names that can stand in
  a path. The lists return the stored objects, all of them or those bound to a node, and a get the object of a name;
  create, replace, the status report, delete and bind perform the versioned operation, with its answer or its error
  (not found, already exists, conflict). A pod that fails the validation, a binding without a node and the
  binding of a missing pod are declined with the validation's error and change nothing. The requests that open a watch select the stream
  from the requested version on, restricted to the requested node (what such a stream then carries is the subject of
  theory \<^verbatim>\<open>Api_Watch\<close>).
\<close>

theorem client_calls_refine:
  assumes "connected cl sv sl view w a"
  shows "(\<exists>ps. enumerates (ap_pods a) ps \<and> reads (connected cl sv sl view) (client_list_pods cl) w a ps) \<and>
    (url_safe node \<longrightarrow> (\<exists>ps. enumerates (ap_pods a) ps \<and>
      reads (connected cl sv sl view) (client_list_pods_on_node cl node) w a (filter (\<lambda>p. pc_node_name (pod_spec p) = Some node) ps))) \<and>
    (url_safe n \<longrightarrow> reads (connected cl sv sl view) (client_get_pod cl n) w a (ap_pods a n)) \<and>
    (validate_pod p = Inr () \<and> url_safe (om_name (pod_metadata p)) \<longrightarrow>
      (\<exists>uuid now. performs (connected cl sv sl view) (seen_error cl) id (client_create_pod cl p) w
        (spec_op pods_part Pod_kind (Create_op (stamp_for_create Pod_kind uuid now p)) a)) \<and>
      performs (connected cl sv sl view) (seen_error cl) id (client_replace_pod_spec cl p) w
        (spec_op pods_part Pod_kind (ReplaceSpec_op (om_name (pod_metadata p)) p) a)) \<and>
    (\<forall>e. validate_pod p = Inl e \<longrightarrow> declines (connected cl sv sl view) (client_create_pod cl p) w a (client_view e) \<and>
      (url_safe (om_name (pod_metadata p)) \<longrightarrow> declines (connected cl sv sl view) (client_replace_pod_spec cl p) w a (client_view e))) \<and>
    (url_safe n \<and> url_safe rv \<longrightarrow>
      performs (connected cl sv sl view) (seen_error cl) id (client_replace_pod_status cl n st rv) w
        (spec_op pods_part Pod_kind (ReplaceStatus_op n rv (\<lambda>q. q\<lparr>pod_status := Some st\<rparr>)) a) \<and>
      performs (connected cl sv sl view) (seen_error cl) (\<lambda>_. ()) (client_delete_pod cl n rv) w (spec_op pods_part Pod_kind (Delete_op n rv) a)) \<and>
    (\<forall>q. ap_pods a n = Some q \<and> node \<noteq> [] \<longrightarrow>
      performs (connected cl sv sl view) (seen_error cl) id (client_bind_pod cl n node) w
        (spec_op pods_part Pod_kind (ReplaceSpec_op n (set_node_name node q)) a)) \<and>
    (\<forall>e. url_safe n \<and> bind_error a n node = Some e \<longrightarrow> declines (connected cl sv sl view) (client_bind_pod cl n node) w a (client_view e)) \<and>
    (url_safe rv \<and> url_safe node \<longrightarrow>
      opens_watch (sv_env sv i) (watch_path ''/api/v1/pods'' (Some rv)) (parse_rv (Some rv)) (on_node None) \<and>
      opens_watch (sv_env sv i) (watch_path ''/api/v1/pods'' None) 0 (on_node None) \<and>
      opens_watch (sv_env sv i) (node_watch_path node (Some rv)) (parse_rv (Some rv)) (on_node (Some node)) \<and>
      opens_watch (sv_env sv i) (node_watch_path node None) 0 (on_node (Some node)))"
proof -
  obtain m rp where w: "w = (m, rp)" by (cases w)
  note c = assms [unfolded w]
  show ?thesis unfolding w
    by (intro conjI impI allI; (elim conjE)?; rule list_pods_law [OF c] list_pods_on_node_law [OF c] read_laws(1) [OF c]
        create_pod_law [OF c] replace_pod_law [OF c] create_pod_declined [OF c] replace_pod_declined [OF c] pod_status_law [OF c]
        delete_pod_law [OF c] bind_pod_law [OF c] bind_pod_declined [OF c] watch_opened; assumption)
qed

theorem client_calls_refine_witness:
  "\<exists>w. connected demo_client demo_server map_tree fmlookup w demo_cluster \<and>
     (\<exists>w'. client_get_pod demo_client ''a'' w = (w', Inr (Some (set_rv Pod_kind 1 running_pod)))) \<and>
     (\<exists>w'. client_delete_pod demo_client ''a'' ''7'' w = (w', Inl (seen_error demo_client (Store_Conflict (show_nat 1) ''7'')))) \<and>
     (\<exists>w'. client_bind_pod demo_client ''nobody'' ''n1'' w = (w', Inl Cl_NotFound))"
proof -
  obtain w where w: "connected demo_client demo_server map_tree fmlookup w demo_cluster" by (rule demo_connected)
  have ne: "''7'' \<noteq> show_nat 1" unfolding show_nat_small by simp
  have res: "snd (spec_op pods_part Pod_kind (Delete_op ''a'' ''7'') demo_cluster) = Inl (Store_Conflict (show_nat 1) ''7'')"
    using ne by (simp add: spec_op_def part_spec_def part_gets demo_contents spec_checked_def check_rv_def current_rv_of_def set_rv_def Pod_kind_def)
  have "url_safe ''a''" "url_safe ''7''" by (simp_all add: url_safe_def)
  then have calls: "reads (connected demo_client demo_server map_tree fmlookup) (client_get_pod demo_client ''a'') w demo_cluster (ap_pods demo_cluster ''a'')"
      "performs (connected demo_client demo_server map_tree fmlookup) (seen_error demo_client) (\<lambda>_. ()) (client_delete_pod demo_client ''a'' ''7'') w
        (spec_op pods_part Pod_kind (Delete_op ''a'' ''7'') demo_cluster)"
    using client_calls_refine [OF w, where n = "''a''" and rv = "''7''"] by simp_all
  have "url_safe ''nobody''" "bind_error demo_cluster ''nobody'' ''n1'' = Some (Api_NotFound ''nobody'')"
    by (simp_all add: url_safe_def bind_error_def demo_contents)
  then have "declines (connected demo_client demo_server map_tree fmlookup) (client_bind_pod demo_client ''nobody'' ''n1'') w demo_cluster Cl_NotFound"
    using client_calls_refine [OF w, where n = "''nobody''" and node = "''n1''"] by simp
  then have bind: "\<exists>w'. client_bind_pod demo_client ''nobody'' ''n1'' w = (w', Inl Cl_NotFound)" by (auto simp: declines_def)
  have "\<exists>w'. client_get_pod demo_client ''a'' w = (w', Inr (Some (set_rv Pod_kind 1 running_pod)))"
    using calls(1) unfolding reads_def demo_contents by fastforce
  moreover have "\<exists>w'. client_delete_pod demo_client ''a'' ''7'' w = (w', Inl (seen_error demo_client (Store_Conflict (show_nat 1) ''7'')))"
    using calls(2) unfolding performs_def res by fastforce
  ultimately show ?thesis using w bind by blast
qed

subsection \<open>The ReplicaSet controller\<close>

text \<open>
  C23 (a ReplicaSet converges in one call and stays): when reconcile is called for a ReplicaSet whose template can be
  created and whose random pod names are fresh, it returns successfully with exactly the desired number of
  owned pods, with the matching orphans adopted and a status that is true of the pods; pods of others are untouched.
  From then on, whatever names are drawn, a further call succeeds and changes nothing, which is what ends the
  chain of status events.
\<close>

theorem replicaset_converges:
  assumes "connected cl sv sl view w a" and "ap_rss a rsn = Some rs"
    and "pc_containers (pt_spec (rss_template (rs_spec rs))) \<noteq> []" and "inj_on sfxs {..<rss_replicas (rs_spec rs)}"
    and "\<forall>i < rss_replicas (rs_spec rs). url_safe (rsn @ ''-'' @ sfxs i) \<and> ap_pods a (rsn @ ''-'' @ sfxs i) = None"
  shows "\<exists>w' a' rs'. rs_reconcile (client_api cl) sfxs rsn w = (w', Inr ()) \<and> connected cl sv sl view w' a' \<and>
    ap_rss a' rsn = Some rs' \<and> rs_spec rs' = rs_spec rs \<and>
    card (owned_pods a' rsn) = rss_replicas (rs_spec rs) \<and> rs_status rs' = Some (true_status a' rsn rs') \<and>
    (\<forall>n p. ap_pods a' n = Some p \<longrightarrow> \<not> can_adopt p rs) \<and>
    (\<forall>n p. \<not> is_owned_by p rsn \<longrightarrow> \<not> can_adopt p rs \<longrightarrow> (ap_pods a' n = Some p \<longleftrightarrow> ap_pods a n = Some p)) \<and>
    (\<forall>sfxs'. \<exists>w''. rs_reconcile (client_api cl) sfxs' rsn w' = (w'', Inr ()) \<and> connected cl sv sl view w'' a')"
proof -
  obtain w' a' rs' where r: "rs_reconcile (client_api cl) sfxs rsn w = (w', Inr ())" "connected cl sv sl view w' a'"
      "ap_rss a' = (ap_rss a)(rsn \<mapsto> rs')" "rs_spec rs' = rs_spec rs" "settled a' rsn rs'"
      "\<forall>n p. \<not> is_owned_by p rsn \<longrightarrow> \<not> can_adopt p rs \<longrightarrow> (ap_pods a' n = Some p \<longleftrightarrow> ap_pods a n = Some p)"
    using net.rs_reconcile_ok [OF assms] by blast
  have same: "can_adopt p rs' = can_adopt p rs" for p using r(4) by (simp add: can_adopt_def)
  have "\<exists>w''. rs_reconcile (client_api cl) sfxs' rsn w' = (w'', Inr ()) \<and> connected cl sv sl view w'' a'" for sfxs'
    using r(3,5) by (intro net.rs_reconcile_stable [OF r(2)]) simp_all
  then show ?thesis using r same by (intro exI [of _ w'] exI [of _ a'] exI [of _ rs']) (simp add: settled_def)
qed

theorem replicaset_converges_witness:
  "\<exists>w w' a'. connected demo_client demo_server map_tree fmlookup w demo_cluster \<and>
     rs_reconcile (client_api demo_client) (\<lambda>i. if i = 0 then ''x1'' else ''x2'') ''web'' w = (w', Inr ()) \<and>
     connected demo_client demo_server map_tree fmlookup w' a' \<and> card (owned_pods a' ''web'') = 2"
proof -
  obtain w where w: "connected demo_client demo_server map_tree fmlookup w demo_cluster" by (rule demo_connected)
  let ?rs = "set_rv ReplicaSet_kind 2 demo_rs" and ?s = "\<lambda>i :: nat. if i = 0 then ''x1'' else ''x2''"
  have rs: "rs_spec ?rs = rs_spec demo_rs" by (simp add: set_rv_def ReplicaSet_kind_def)
  have two: "rss_replicas (rs_spec ?rs) = 2" unfolding rs by (simp add: demo_rs_def)
  have "pc_containers (pt_spec (rss_template (rs_spec ?rs))) \<noteq> []" unfolding rs by (simp add: demo_rs_def demo_pod_def)
  moreover have "inj_on ?s {..<rss_replicas (rs_spec ?rs)}" unfolding two by (auto simp: inj_on_def)
  moreover have "\<forall>i < rss_replicas (rs_spec ?rs). url_safe (''web'' @ ''-'' @ ?s i) \<and> ap_pods demo_cluster (''web'' @ ''-'' @ ?s i) = None"
    by (simp add: demo_contents url_safe_def)
  moreover have "ap_rss demo_cluster ''web'' = Some ?rs" by (simp add: demo_contents)
  ultimately obtain w' a' where "rs_reconcile (client_api demo_client) ?s ''web'' w = (w', Inr ())"
      "connected demo_client demo_server map_tree fmlookup w' a'" "card (owned_pods a' ''web'') = rss_replicas (rs_spec ?rs)"
    using replicaset_converges [OF w, of "''web''" ?rs ?s] by blast
  then show ?thesis using w unfolding two by blast
qed

text \<open>
  The pods of a deleted ReplicaSet are deleted: when reconcile is called for a name that no ReplicaSet has, it deletes
  exactly the pods that a ReplicaSet of that name controls and changes nothing else.
\<close>

theorem replicaset_cascade:
  assumes "connected cl sv sl view w a" and "ap_rss a rsn = None" and "url_safe rsn"
  shows "\<exists>w' a'. rs_reconcile (client_api cl) sfxs rsn w = (w', Inr ()) \<and> connected cl sv sl view w' a' \<and> pods_only a a' \<and>
    ap_pods a' = (\<lambda>n. if n \<in> owned_pods a rsn then None else ap_pods a n)"
  by (rule net.rs_cascade_ok [OF assms])

theorem replicaset_cascade_witness:
  "\<exists>w w' a'. connected demo_client demo_server map_tree fmlookup w demo_cluster \<and>
     rs_reconcile (client_api demo_client) (\<lambda>_. ''x'') ''gone'' w = (w', Inr ()) \<and>
     connected demo_client demo_server map_tree fmlookup w' a' \<and> ap_pods a' ''a'' = Some (set_rv Pod_kind 1 running_pod)"
proof -
  obtain w where w: "connected demo_client demo_server map_tree fmlookup w demo_cluster" by (rule demo_connected)
  have "ap_rss demo_cluster ''gone'' = None" "url_safe ''gone''" by (simp_all add: demo_contents url_safe_def)
  then obtain w' a' where r: "rs_reconcile (client_api demo_client) (\<lambda>_. ''x'') ''gone'' w = (w', Inr ())"
      "connected demo_client demo_server map_tree fmlookup w' a'"
      "ap_pods a' = (\<lambda>n. if n \<in> owned_pods demo_cluster ''gone'' then None else ap_pods demo_cluster n)"
    using replicaset_cascade [OF w] by blast
  have "''a'' \<notin> owned_pods demo_cluster ''gone''"
    by (simp add: owned_pods_def demo_contents is_owned_by_def set_rv_def Pod_kind_def running_pod_def demo_meta_def object_meta_default_def)
  then have "ap_pods a' ''a'' = Some (set_rv Pod_kind 1 running_pod)" using r(3) by (simp add: demo_contents)
  then show ?thesis using w r(1,2) by blast
qed

subsection \<open>The endpoints controller\<close>

text \<open>
  Endpoints follow the pods: after reconcile the endpoints of a service list exactly the addresses of the running pods its
  selector matches, sorted, at the service's target port, and nothing else has changed; when they already did, nothing is
  written at all. For a service that is gone, the endpoints are gone.
\<close>

theorem endpoints_follow_pods:
  assumes "connected cl sv sl view w a" and "url_safe n"
  shows "\<exists>w' a'. ep_reconcile (client_api cl) n w = (w', Inr ()) \<and> connected cl sv sl view w' a' \<and>
    ap_pods a' = ap_pods a \<and> ap_svcs a' = ap_svcs a \<and> (\<forall>m. m \<noteq> n \<longrightarrow> ap_eps a' m = ap_eps a m) \<and>
    map_option ep_addresses (ap_eps a' n) = map_option (true_backends a) (ap_svcs a n) \<and>
    (map_option ep_addresses (ap_eps a n) = map_option (true_backends a) (ap_svcs a n) \<longrightarrow> ap_svcs a n \<noteq> None \<longrightarrow> a' = a)"
proof (cases "ap_svcs a n")
  case None
  obtain w' a' where "ep_reconcile (client_api cl) n w = (w', Inr ())" "connected cl sv sl view w' a'"
      "ap_eps a' = (ap_eps a)(n := None)" "ap_pods a' = ap_pods a" "ap_svcs a' = ap_svcs a"
    using net.ep_gone_ok [OF assms(1) None assms(2)] by blast
  then show ?thesis using None by (intro exI [of _ w'] exI [of _ a']) simp
next
  case (Some svc)
  obtain w' a' e where "ep_reconcile (client_api cl) n w = (w', Inr ())" "connected cl sv sl view w' a'"
      "ap_eps a' = (ap_eps a)(n \<mapsto> e)" "ep_addresses e = true_backends a svc" "ap_pods a' = ap_pods a" "ap_svcs a' = ap_svcs a"
      "map_option ep_addresses (ap_eps a n) = Some (true_backends a svc) \<longrightarrow> a' = a"
    using net.ep_reconcile_ok [OF assms(1) Some] by blast
  then show ?thesis using Some by (intro exI [of _ w'] exI [of _ a']) simp
qed

theorem endpoints_follow_pods_witness:
  "\<exists>w w' a'. connected demo_client demo_server map_tree fmlookup w demo_cluster \<and>
     ep_reconcile (client_api demo_client) ''web'' w = (w', Inr ()) \<and> connected demo_client demo_server map_tree fmlookup w' a' \<and>
     map_option ep_addresses (ap_eps a' ''web'') = Some [\<lparr>ea_ip = ''10.244.0.2'', ea_port = 8080\<rparr>]"
proof -
  obtain w where w: "connected demo_client demo_server map_tree fmlookup w demo_cluster" by (rule demo_connected)
  let ?svc = "set_rv Service_kind 3 demo_svc" and ?p = "set_rv Pod_kind 1 running_pod"
  have svc: "svc_spec ?svc = svc_spec demo_svc" by (simp add: set_rv_def Service_kind_def)
  have p: "backend_ip ?p = Some ''10.244.0.2''" "pod_matches ?p demo_labels"
    by (simp_all add: backend_ip_def pod_matches_def set_rv_def Pod_kind_def running_pod_def demo_labels_def)
  then have "backend_pods demo_cluster ?svc = {''a''}"
    unfolding backend_pods_def svc by (auto simp: demo_contents demo_svc_def)
  then have addrs: "true_backends demo_cluster ?svc = [\<lparr>ea_ip = ''10.244.0.2'', ea_port = 8080\<rparr>]"
    using p(1) unfolding true_backends_def svc by (simp add: demo_contents demo_svc_def)
  have "url_safe ''web''" by (simp add: url_safe_def)
  then obtain w' a' where "ep_reconcile (client_api demo_client) ''web'' w = (w', Inr ())" "connected demo_client demo_server map_tree fmlookup w' a'"
      "map_option ep_addresses (ap_eps a' ''web'') = map_option (true_backends demo_cluster) (ap_svcs demo_cluster ''web'')"
    using endpoints_follow_pods [OF w] by blast
  then show ?thesis using w addrs by (auto simp: demo_contents simp del: split_paired_Ex)
qed

subsection \<open>The scheduler\<close>

text \<open>
  C24 (pods are placed on a least loaded ready node): for an unbound pod, when some node is schedulable (not cordoned, ready, with a
  heartbeat younger than the window), the pod is bound to a schedulable node that no other schedulable
  node undercuts in the number of pods bound to it, and only the pod changes; when none is, the call fails with
  that error and changes nothing.
\<close>

theorem schedule_least_loaded:
  assumes "connected cl sv sl view w a" and "ap_pods a n = Some p" and "pc_node_name (pod_spec p) = None"
  shows "if \<exists>c x. ap_nodes a c = Some x \<and> is_schedulable parse now x
    then \<exists>w' a' u best. schedule (client_api cl) parse now n w = (w', Inr ()) \<and> connected cl sv sl view w' a' \<and> pods_only a a' \<and>
      ap_pods a' = (ap_pods a)(n \<mapsto> u) \<and> pc_node_name (pod_spec u) = Some best \<and>
      (\<exists>x. ap_nodes a best = Some x \<and> is_schedulable parse now x) \<and>
      (\<forall>c x. ap_nodes a c = Some x \<longrightarrow> is_schedulable parse now x \<longrightarrow> node_load a best \<le> node_load a c)
    else \<exists>w'. schedule (client_api cl) parse now n w = (w', Inl (No_ready_node n)) \<and> connected cl sv sl view w' a"
proof (cases "\<exists>c x. ap_nodes a c = Some x \<and> is_schedulable parse now x")
  case True
  then obtain c x where "ap_nodes a c = Some x" "is_schedulable parse now x" by blast
  then show ?thesis using True net.schedule_ok [OF assms, of c x] by simp
next
  case False
  then show ?thesis using net.schedule_waits [OF assms, of parse now] by auto
qed

theorem schedule_least_loaded_witness:
  "\<exists>w w' a' u. connected demo_client demo_server map_tree fmlookup w demo_cluster \<and>
     schedule (client_api demo_client) (\<lambda>_. Some 0) 5 ''a'' w = (w', Inr ()) \<and>
     connected demo_client demo_server map_tree fmlookup w' a' \<and> ap_pods a' = [''a'' \<mapsto> u] \<and> pc_node_name (pod_spec u) = Some ''n1''"
proof -
  obtain w where w: "connected demo_client demo_server map_tree fmlookup w demo_cluster" by (rule demo_connected)
  let ?p = "set_rv Pod_kind 1 running_pod" and ?prs = "\<lambda>_ :: string. Some (0 :: int)"
  have "is_schedulable ?prs 5 (set_rv Node_kind 4 demo_node)"
    by (simp add: is_schedulable_def is_ready_def set_rv_def Node_kind_def demo_node_def num_seconds_def STALENESS_WINDOW_SECS_def)
  then have some: "\<exists>c x. ap_nodes demo_cluster c = Some x \<and> is_schedulable ?prs 5 x" by (auto simp: demo_contents)
  have p: "ap_pods demo_cluster ''a'' = Some ?p" "pc_node_name (pod_spec ?p) = None"
    by (simp_all add: demo_contents set_rv_def Pod_kind_def running_pod_def demo_pod_def)
  obtain w' u best and a' :: api_spec where r: "schedule (client_api demo_client) ?prs 5 ''a'' w = (w', Inr ())"
      "connected demo_client demo_server map_tree fmlookup w' a'"
      "ap_pods a' = (ap_pods demo_cluster)(''a'' \<mapsto> u)" "pc_node_name (pod_spec u) = Some best" "\<exists>x. ap_nodes demo_cluster best = Some x"
    using schedule_least_loaded [OF w p, of ?prs 5] unfolding if_P [OF some] by blast
  have "best = ''n1''" using r(5) by (auto simp: demo_contents split: if_splits)
  then show ?thesis using w r(1-4) by (auto simp: demo_contents simp del: split_paired_Ex)
qed

end
