(* ===== verification/Kubelet_Properties.thy ===== *)
theory Kubelet_Properties
  imports Kubelet_Laws Node_Cluster Controller_Properties
begin

text \<open>
  The properties of the node agent and of the sandboxes: the wait for a container ends, restarts keep their distance, the agent's
  state stays well-formed, and two ways in which it loses or doubles an address.
\<close>

subsection \<open>The wait for a container to stop\<close>

text \<open>What the wait relies on: sleeping takes at least the time asked for, and the clock never goes back.\<close>

definition clock_ok :: "'s host \<Rightarrow> 's runtime \<Rightarrow> bool" where
  "clock_ok ho rt \<longleftrightarrow> (\<forall>d s. ho_now ho s + d \<le> ho_now ho (ho_sleep ho d s)) \<and>
     (\<forall>cid s. ho_now ho s \<le> ho_now ho (fst (rt_container_state rt cid s)))"

definition poll_round :: "'s host \<Rightarrow> 's runtime \<Rightarrow> string \<Rightarrow> 's \<Rightarrow> 's" where
  "poll_round ho rt cid s = ho_sleep ho POLLING_INTERVAL (fst (rt_container_state rt cid s))"

text \<open>
  The wait ends after exactly \<open>n\<close> rounds. Every round before began before the deadline and found the container neither
  stopped nor gone. Then either the deadline has come, and the world is left as the last sleep left it, or the state cannot be
  read, which is an error, or the container has stopped.
\<close>

definition wait_ends :: "'s host \<Rightarrow> 's runtime \<Rightarrow> string \<Rightarrow> nat \<Rightarrow> nat \<Rightarrow> 's \<Rightarrow> 's \<times> (any_error + unit) \<Rightarrow> bool" where
  "wait_ends ho rt cid deadline n s res \<longleftrightarrow>
     (let at = (\<lambda>i. (poll_round ho rt cid ^^ i) s) in
      (\<forall>i < n. ho_now ho (at i) < deadline \<and>
         (\<exists>st. snd (rt_container_state rt cid (at i)) = Inr st \<and> st \<noteq> C_Stopped \<and> st \<noteq> C_NotFound)) \<and>
      (if deadline \<le> ho_now ho (at n) then res = (at n, Inr ())
       else (case rt_container_state rt cid (at n) of
               (s', Inl e) \<Rightarrow> res = (s', Inl (Ctx ''polling container state during graceful shutdown'' (Rt e)))
             | (s', Inr st) \<Rightarrow> (st = C_Stopped \<or> st = C_NotFound) \<and> res = (s', Inr ()))))"

lemma wait_ends_Suc:
  assumes "ho_now ho s < deadline" and "rt_container_state rt cid s = (s', Inr st)" and "st \<noteq> C_Stopped" and "st \<noteq> C_NotFound"
    and "wait_ends ho rt cid deadline n (poll_round ho rt cid s) res"
  shows "wait_ends ho rt cid deadline (Suc n) s res"
  using assms by (simp add: wait_ends_def Let_def All_less_Suc2 funpow_swap1)

lemma poll_round_now:
  assumes "clock_ok ho rt"
  shows "ho_now ho s + POLLING_INTERVAL \<le> ho_now ho (poll_round ho rt cid s)"
proof -
  let ?s = "fst (rt_container_state rt cid s)"
  have "ho_now ho s \<le> ho_now ho ?s" "ho_now ho ?s + POLLING_INTERVAL \<le> ho_now ho (ho_sleep ho POLLING_INTERVAL ?s)"
    using assms by (simp_all add: clock_ok_def)
  then show ?thesis by (simp add: poll_round_def)
qed

lemma poll_ends:
  assumes clock: "clock_ok ho rt"
  shows "deadline \<le> ho_now ho s + k * POLLING_INTERVAL \<Longrightarrow>
    \<exists>n \<le> k. \<exists>res. poll_loop ho rt cid deadline s = Some res \<and> wait_ends ho rt cid deadline n s res"
proof (induction k arbitrary: s)
  case 0
  then show ?case by (simp add: wait_ends_def poll_loop.simps [of _ _ _ _ s])
next
  case (Suc k)
  obtain s1 r where r: "rt_container_state rt cid s = (s1, r)" by force
  consider (late) "deadline \<le> ho_now ho s" | (failed) e where "ho_now ho s < deadline" "r = Inl e"
    | (stopped) st where "ho_now ho s < deadline" "r = Inr st" "st = C_Stopped \<or> st = C_NotFound"
    | (again) st where "ho_now ho s < deadline" "r = Inr st" "st \<noteq> C_Stopped" "st \<noteq> C_NotFound"
    by (cases "ho_now ho s < deadline"; cases r) (simp_all add: not_less, blast+)
  then show ?case
  proof cases
    case again
    have loop: "poll_loop ho rt cid deadline s = poll_loop ho rt cid deadline (poll_round ho rt cid s)"
      using again by (subst poll_loop.simps) (simp add: r poll_round_def)
    have "deadline \<le> ho_now ho (poll_round ho rt cid s) + k * POLLING_INTERVAL"
      using Suc.prems poll_round_now [OF clock, of s cid] by simp
    then obtain n res where n: "n \<le> k" "poll_loop ho rt cid deadline (poll_round ho rt cid s) = Some res"
        "wait_ends ho rt cid deadline n (poll_round ho rt cid s) res" using Suc.IH by blast
    have "wait_ends ho rt cid deadline (Suc n) s res" by (rule wait_ends_Suc [OF again(1) r [unfolded again(2)] again(3,4) n(3)])
    then show ?thesis using n(1,2) loop by (intro exI [of _ "Suc n"] exI [of _ res]) simp
  qed (auto intro!: exI [of _ 0] simp: wait_ends_def r poll_loop.simps [of _ _ _ _ s])
qed

text \<open>
  Claim C35. Removing a container never hangs, if sleeping takes at least the time asked for and the clock does not go back. After SIGTERM
  the state is polled at most 50 times, and no poll starts later than 5 s after the signal; only three things end the wait:
  the container has stopped or is gone, its state cannot be read, which is the only case in which nothing is deleted, or 5 s
  have really passed. A container that ignores the signal is then deleted by force.
\<close>
theorem grace_wait_ends:
  assumes "clock_ok ho rt" and "rt_kill_container rt (container_id_for sb name) SIGTERM s = (s1, Inr u)"
  shows "\<exists>n \<le> 50. \<exists>res. wait_ends ho rt (container_id_for sb name) (ho_now ho s1 + 5000000) n s1 res \<and>
    poll_loop ho rt (container_id_for sb name) (ho_now ho s1 + 5000000) s1 = Some res \<and>
    remove_container ho rt name sb s = (case res of (s2, Inl e) \<Rightarrow> (s2, sb, Inl e) | (s2, Inr _) \<Rightarrow> force_remove ho rt name sb s2)"
proof -
  have d: "TERMINATION_GRACE = 5000000" "50 * POLLING_INTERVAL = 5000000" by (simp_all add: TERMINATION_GRACE_def POLLING_INTERVAL_def)
  obtain n res where n: "n \<le> 50" "poll_loop ho rt (container_id_for sb name) (ho_now ho s1 + 5000000) s1 = Some res"
      "wait_ends ho rt (container_id_for sb name) (ho_now ho s1 + 5000000) n s1 res"
    using poll_ends [OF assms(1), where deadline = "ho_now ho s1 + 5000000" and s = s1 and k = 50 and cid = "container_id_for sb name"] d(2) by auto
  then have "remove_container ho rt name sb s = (case res of (s2, Inl e) \<Rightarrow> (s2, sb, Inl e) | (s2, Inr _) \<Rightarrow> force_remove ho rt name sb s2)"
    by (simp add: remove_container_def Let_def assms(2) poll_stopped_def d(1))
  then show ?thesis using n by blast
qed

text \<open>A container that ignores every signal, on a host whose clock runs: it is deleted after the whole 5 s.\<close>

definition stubborn_runtime :: "(nat \<times> string list) runtime" where
  "stubborn_runtime = \<lparr>rt_create_container = (\<lambda>_ _ s. (s, Inr ())), rt_start_container = (\<lambda>_ s. (s, Inr ())),
     rt_kill_container = (\<lambda>_ _ s. (s, Inr ())), rt_delete_container = (\<lambda>cid _ (t, gone). ((t, cid # gone), Inr ())),
     rt_container_state = (\<lambda>_ s. (s, Inr C_Running)), rt_container_pid = (\<lambda>_ s. (s, Inr None)), rt_recover_all = (\<lambda>s. (s, Inr []))\<rparr>"

definition clock_host :: "(nat \<times> string list) host" where
  "clock_host = \<lparr>ho_create_dir_all = (\<lambda>_ w. (w, Inr ())), ho_save_spec = (\<lambda>_ _ w. (w, Inr ())), ho_remove_dir_all = (\<lambda>_ w. w),
     ho_exec = (\<lambda>_ w. (w, Inr (True, []))), ho_now = fst, ho_sleep = (\<lambda>d (t, gone). (t + d, gone)), ho_hash = length\<rparr>"

lemma stubborn_rounds: "(poll_round clock_host stubborn_runtime cid ^^ i) (t, gone) = (t + i * POLLING_INTERVAL, gone)"
  by (induction i) (simp_all add: poll_round_def clock_host_def stubborn_runtime_def)

theorem grace_wait_ends_witness:
  "clock_ok clock_host stubborn_runtime \<and>
   fst (remove_container clock_host stubborn_runtime ''c'' (sandbox_new ''a'' ''/pods'' ''/rootfs'') (0, [])) = (5000000, [''a__c''])"
proof -
  let ?sb = "sandbox_new ''a'' ''/pods'' ''/rootfs''" and ?cid = "container_id_for (sandbox_new ''a'' ''/pods'' ''/rootfs'') ''c''"
  have clock: "clock_ok clock_host stubborn_runtime" by (auto simp: clock_ok_def clock_host_def stubborn_runtime_def)
  have kill: "rt_kill_container stubborn_runtime ?cid SIGTERM (0, []) = ((0, []), Inr ())" by (simp add: stubborn_runtime_def)
  obtain n res where n: "n \<le> 50" "wait_ends clock_host stubborn_runtime ?cid (ho_now clock_host (0, []) + 5000000) n (0, []) res"
      "remove_container clock_host stubborn_runtime ''c'' ?sb (0, []) =
        (case res of (s2, Inl e) \<Rightarrow> (s2, ?sb, Inl e) | (s2, Inr _) \<Rightarrow> force_remove clock_host stubborn_runtime ''c'' ?sb s2)"
    using grace_wait_ends [OF clock kill] by blast
  have now: "ho_now clock_host = fst" "rt_container_state stubborn_runtime cid s = (s, Inr C_Running)" for cid s
    by (simp_all add: clock_host_def stubborn_runtime_def)
  have "5000000 \<le> n * POLLING_INTERVAL" and res: "res = ((n * POLLING_INTERVAL, []), Inr ())"
    using n(2) by (simp_all add: wait_ends_def Let_def stubborn_rounds now split: if_splits)
  then have "n * POLLING_INTERVAL = 5000000" using n(1) by (simp add: POLLING_INTERVAL_def)
  then show ?thesis using clock n(3) unfolding res
    by (simp add: force_remove_def clock_host_def stubborn_runtime_def container_id_for_def sandbox_new_def)
qed

subsection \<open>Restarts\<close>

lemma compute_backoff_exact: "compute_backoff n = min (BACKOFF_BASE * 2 ^ (n - 1)) BACKOFF_MAX"
proof (cases "n - 1 \<le> 20")
  case True
  have "(2 :: nat) ^ (n - 1) \<le> 2 ^ 20" using True by (intro power_increasing) simp_all
  then have "(2 :: nat) ^ (n - 1) < 2 ^ 64" "BACKOFF_BASE * 2 ^ (n - 1) \<le> u64_max" by (simp_all add: BACKOFF_BASE_def u64_max_def)
  then show ?thesis using True by (simp add: compute_backoff_def min_def)
next
  case False
  have "(2 :: nat) ^ 20 \<le> 2 ^ (n - 1)" using False by (intro power_increasing) simp_all
  then have "BACKOFF_MAX \<le> BACKOFF_BASE * 2 ^ (n - 1)" by (simp add: BACKOFF_MAX_def BACKOFF_BASE_def)
  then show ?thesis using False by (simp add: compute_backoff_def BACKOFF_MAX_def BACKOFF_BASE_def u64_max_def)
qed

definition crashed :: "'s kubelet_env \<Rightarrow> string \<Rightarrow> 's \<Rightarrow> 's \<Rightarrow> bool" where
  "crashed env cid s s' \<longleftrightarrow> (\<exists>st. rt_container_state (ke_runtime env) cid s = (s', Inr st) \<and> (st = C_Stopped \<or> st = C_NotFound))"

text \<open>
  The later turns of one container. Between two of them everything may change, the sandbox, the world and the notes of other
  containers, but while the pod lives nothing else writes this container's note: each turn finds the one the turn before left.
\<close>

fun later_turns :: "'s kubelet_env \<Rightarrow> string \<Rightarrow> container \<Rightarrow> restart_tracker option \<Rightarrow> (pod_sandbox \<times> (string \<rightharpoonup> restart_tracker) \<times> 's) list \<Rightarrow>
    ('s \<times> pod_sandbox \<times> (string \<rightharpoonup> restart_tracker) \<times> (any_error + unit)) list" where
  "later_turns env name ct note [] = []"
| "later_turns env name ct note ((sb, rs, s) # turns) =
     (let res = liveness_turn env name ct sb (rs(container_key name (ct_name ct) := note)) s
      in res # later_turns env name ct (fst (snd (snd res)) (container_key name (ct_name ct))) turns)"

text \<open>A turn before \<open>limit\<close> that does not find the container running, and a turn that only reads the container's state.\<close>

definition not_yet :: "'s kubelet_env \<Rightarrow> string \<Rightarrow> nat \<Rightarrow> pod_sandbox \<times> (string \<rightharpoonup> restart_tracker) \<times> 's \<Rightarrow> bool" where
  "not_yet env cid limit = (\<lambda>(sb, rs, s). case rt_container_state (ke_runtime env) cid s of (s', r) \<Rightarrow>
     r \<noteq> Inr C_Running \<and> ho_now (ke_host env) s' < limit)"

definition only_looks :: "'s kubelet_env \<Rightarrow> string \<Rightarrow> restart_tracker \<Rightarrow> pod_sandbox \<times> (string \<rightharpoonup> restart_tracker) \<times> 's \<Rightarrow>
    's \<times> pod_sandbox \<times> (string \<rightharpoonup> restart_tracker) \<times> (any_error + unit) \<Rightarrow> bool" where
  "only_looks env cid note = (\<lambda>(sb, rs, s) (s', sb', rs', r).
     s' = fst (rt_container_state (ke_runtime env) cid s) \<and> sb' = sb \<and> rs' = rs(cid \<mapsto> note))"

lemma early_turn_looks:
  assumes "not_yet env (container_key name (ct_name ct)) (tr_next_retry_at note) (sb, rs, s)"
  shows "only_looks env (container_key name (ct_name ct)) note (sb, rs, s)
    (liveness_turn env name ct sb (rs(container_key name (ct_name ct) \<mapsto> note)) s)"
proof -
  let ?cid = "container_key name (ct_name ct)"
  obtain s1 r where st: "rt_container_state (ke_runtime env) ?cid s = (s1, r)" by force
  show ?thesis
  proof (cases r)
    case Inl
    then show ?thesis by (simp add: liveness_turn_def only_looks_def st Let_def)
  next
    case (Inr c)
    then show ?thesis using assms by (cases c) (simp_all add: liveness_turn_def only_looks_def not_yet_def tracker_of_def st Let_def)
  qed
qed

lemma early_turns_look:
  "list_all (not_yet env (container_key name (ct_name ct)) (tr_next_retry_at note)) turns \<Longrightarrow>
   list_all2 (only_looks env (container_key name (ct_name ct)) note) turns (later_turns env name ct (Some note) turns)"
proof (induction turns)
  case (Cons x turns)
  obtain sb rs s where x: "x = (sb, rs, s)" by (metis prod_cases3)
  obtain s' sb' rs' r where t: "liveness_turn env name ct sb (rs(container_key name (ct_name ct) \<mapsto> note)) s = (s', sb', rs', r)" by (metis prod_cases4)
  have l: "only_looks env (container_key name (ct_name ct)) note (sb, rs, s) (s', sb', rs', r)"
    using early_turn_looks [of env name ct "note" sb rs s] Cons.prems by (simp add: x t)
  then have "rs' (container_key name (ct_name ct)) = Some note" by (simp add: only_looks_def)
  then show ?case using Cons l by (simp add: x t)
qed simp

text \<open>
  Claim C31. When a turn restarts a crashed container, it notes one more attempt and a waiting time of 10 s times two to the number of earlier
  attempts, at most 5 minutes. However many turns of this container follow before that time has passed, as long as none of them
  finds it running, each only reads its state: it restarts nothing and keeps the note. A turn that finds it running forgets the
  note, also inside the waiting time, and a crash that finds no note is restarted at once and counts as the first: the back-off
  only spaces restarts between which the agent has not seen the container run.
\<close>
theorem restarts_are_spaced:
  assumes cid: "cid = container_key name (ct_name ct)" and "crashed env cid s s0" and now: "now = ho_now (ke_host env) s0"
    and t: "t = tracker_of rs cid now" and "tr_next_retry_at t \<le> now" and turn: "liveness_turn env name ct sb rs s = (s1, sb1, rs1, r)"
    and nt: "note = \<lparr>tr_restart_count = tr_restart_count t + 1, tr_next_retry_at = now + min (10000000 * 2 ^ tr_restart_count t) 300000000\<rparr>"
  shows "restart_container env ct sb s0 = (s1, sb1, r) \<and> rs1 = rs(cid \<mapsto> note) \<and>
    (\<forall>turns. list_all (not_yet env cid (tr_next_retry_at note)) turns \<longrightarrow>
       list_all2 (only_looks env cid note) turns (later_turns env name ct (Some note) turns)) \<and>
    (\<forall>sb' rs' s' s0'. rt_container_state (ke_runtime env) cid s' = (s0', Inr C_Running) \<longrightarrow>
       liveness_turn env name ct sb' (rs'(cid \<mapsto> note)) s' = (s0', sb', rs'(cid := None), Inr ())) \<and>
    (\<forall>sb' rs' s' s0'. rs' cid = None \<longrightarrow> crashed env cid s' s0' \<longrightarrow>
       liveness_turn env name ct sb' rs' s' = (case restart_container env ct sb' s0' of (s2, sb2, r2) \<Rightarrow>
         (s2, sb2, rs'(cid \<mapsto> \<lparr>tr_restart_count = 1, tr_next_retry_at = ho_now (ke_host env) s0' + 10000000\<rparr>), r2)))"
proof -
  have backoff: "compute_backoff (n + 1) = min (10000000 * 2 ^ n) 300000000" for n
    by (simp add: compute_backoff_exact BACKOFF_BASE_def BACKOFF_MAX_def)
  have crash: "liveness_turn env name ct sb' rs' s' = (case restart_container env ct sb' s0' of (s2, sb2, r2) \<Rightarrow>
      (s2, sb2, rs'(cid \<mapsto> bump_tracker (tracker_of rs' cid (ho_now (ke_host env) s0')) (ho_now (ke_host env) s0')), r2))"
    if "crashed env cid s' s0'" "tr_next_retry_at (tracker_of rs' cid (ho_now (ke_host env) s0')) \<le> ho_now (ke_host env) s0'" for sb' rs' s' s0'
    using that unfolding crashed_def cid by (auto simp: liveness_turn_def Let_def)
  have 1: "restart_container env ct sb s0 = (s1, sb1, r) \<and> rs1 = rs(cid \<mapsto> note)"
    using crash [of s s0 rs sb] assms(2,5) turn
    by (simp add: now [symmetric] t [symmetric] bump_tracker_def backoff [unfolded Suc_eq_plus1 [symmetric]] nt split: prod.splits)
  have 2: "list_all2 (only_looks env cid note) turns (later_turns env name ct (Some note) turns)"
    if "list_all (not_yet env cid (tr_next_retry_at note)) turns" for turns
    using that unfolding cid by (rule early_turns_look)
  have 3: "liveness_turn env name ct sb' (rs'(cid \<mapsto> note)) s' = (s0', sb', rs'(cid := None), Inr ())"
    if "rt_container_state (ke_runtime env) cid s' = (s0', Inr C_Running)" for sb' rs' s' s0'
    using that by (simp add: liveness_turn_def cid)
  have 4: "liveness_turn env name ct sb' rs' s' = (case restart_container env ct sb' s0' of (s2, sb2, r2) \<Rightarrow>
         (s2, sb2, rs'(cid \<mapsto> \<lparr>tr_restart_count = 1, tr_next_retry_at = ho_now (ke_host env) s0' + 10000000\<rparr>), r2))"
    if "rs' cid = None" "crashed env cid s' s0'" for sb' rs' s' s0'
    using crash [OF that(2), of rs' sb'] that(1) backoff [of 0] by (simp add: tracker_of_def bump_tracker_def)
  show ?thesis using 1 2 3 4 by blast
qed

subsection \<open>Well-formed states\<close>


subsection \<open>Addresses lost by failed creations\<close>

lemma card_usable: "card usable = 253"
  by (simp add: host_defs)

lemma allocate_card:
  assumes "alloc_inv al"
  shows "alloc_inv (fst (allocate al)) \<and> card (al_allocated (fst (allocate al))) = min 253 (card (al_allocated al) + 1)"
proof -
  have sub: "al_allocated al \<subseteq> usable" using assms by (simp add: alloc_inv_def)
  then have fin: "finite (al_allocated al)" by (rule finite_subset) simp
  note spec = allocate_spec [OF assms]
  show ?thesis
  proof (cases "snd (allocate al)")
    case Inl
    then show ?thesis using spec card_usable by simp
  next
    case (Inr ip)
    then obtain h where h: "h \<in> usable - al_allocated al" "al_allocated (fst (allocate al)) = insert h (al_allocated al)" using spec by auto
    have "card (insert h (al_allocated al)) \<le> card usable" using h(1) sub by (intro card_mono) auto
    then show ?thesis using h spec fin card_usable by simp
  qed
qed

text \<open>The retries: a resync tries to create a pod that is desired and not alive.\<close>

fun retry_create :: "'s kubelet_env \<Rightarrow> pod \<Rightarrow> nat \<Rightarrow> kubelet \<Rightarrow> 's \<Rightarrow> 's \<times> kubelet" where
  "retry_create env p 0 kb s = (s, kb)"
| "retry_create env p (Suc n) kb s = (case create_pod_on_node env p kb s of (s', kb', _) \<Rightarrow> retry_create env p n kb' s')"

lemma ensure_pod_ip_fresh:
  "status_ip p = None \<Longrightarrow> kb_ipam kb = Some al \<Longrightarrow> \<exists>r. ensure_pod_ip p kb = (kb\<lparr>kb_ipam := Some (fst (allocate al))\<rparr>, r)"
  by (auto simp: ensure_pod_ip_def reusable_ip_def split: prod.splits sum.splits)

lemma create_pod_taken:
  assumes "pod_host (ke_runtime env) ids (ke_host env)" and "status_ip p = None" and "kb_ipam kb = Some al"
    and "om_name (pod_metadata p) @ ''__pause'' \<in> ids s"
  shows "\<exists>s' e. create_pod_on_node env p kb s = (s', kb\<lparr>kb_ipam := Some (fst (allocate al))\<rparr>, Inl e) \<and> ids s' = ids s"
proof -
  obtain r where r: "ensure_pod_ip p kb = (kb\<lparr>kb_ipam := Some (fst (allocate al))\<rparr>, r)" using ensure_pod_ip_fresh [OF assms(2,3)] by blast
  show ?thesis
  proof (cases r)
    case Inl
    then show ?thesis using r by (simp add: create_pod_on_node_def)
  next
    case (Inr ip)
    let ?sb = "sandbox_new (om_name (pod_metadata p)) (kb_pods_dir kb) (kb_rootfs_base kb)"
    have "sb_pause_id ?sb \<in> ids s" using assms(4) by (simp add: sandbox_new_def)
    from pod_host.create_with_taken_pause [OF assms(1) this, of "Some ip"] show ?thesis using r Inr
      by (auto simp: create_pod_on_node_def)
  qed
qed

lemma retry_create_drains:
  assumes "pod_host (ke_runtime env) ids (ke_host env)" and "status_ip p = None"
  shows "kb_ipam kb = Some al \<Longrightarrow> alloc_inv al \<Longrightarrow> om_name (pod_metadata p) @ ''__pause'' \<in> ids s \<Longrightarrow> retry_create env p n kb s = (s', kb') \<Longrightarrow>
    kb_store kb' = kb_store kb \<and> (\<exists>al'. kb_ipam kb' = Some al' \<and> card (al_allocated al') = min 253 (card (al_allocated al) + n))"
proof (induction n arbitrary: kb s al)
  case 0
  have "card (al_allocated al) \<le> card usable" using 0(2) by (intro card_mono) (simp_all add: alloc_inv_def)
  then show ?case using 0 card_usable by simp
next
  case (Suc n)
  obtain s1 e where c: "create_pod_on_node env p kb s = (s1, kb\<lparr>kb_ipam := Some (fst (allocate al))\<rparr>, Inl e)" "ids s1 = ids s"
    using create_pod_taken [OF assms Suc.prems(1,3)] by blast
  have "card (al_allocated (fst (allocate al))) + n = min 253 (card (al_allocated al) + 1) + n" using allocate_card [OF Suc.prems(2)] by simp
  moreover have "retry_create env p n (kb\<lparr>kb_ipam := Some (fst (allocate al))\<rparr>) s1 = (s', kb')" using Suc.prems(4) by (simp add: c)
  ultimately show ?case
    using Suc.IH [of "kb\<lparr>kb_ipam := Some (fst (allocate al))\<rparr>" "fst (allocate al)" s1] allocate_card [OF Suc.prems(2)] Suc.prems(3) c(2)
    by (simp add: min_def split: if_splits)
qed

text \<open>
  Claim C29. When the network of a new pod cannot be set up, its creation fails and leaves the started pause container and the address behind. From
  then on every retry fails, since the id of the pause container is taken, and takes one more address of the slice, until none of the
  253 is left for any pod of the node.
\<close>
theorem failed_creation_drains_addresses:
  assumes "pod_host (ke_runtime env) ids (ke_host env)" and "status_ip p = None" and "kb_ipam kb = Some al" and "alloc_inv al"
    and "allocate al = (al1, Inr addr)" and sb: "sb = sandbox_new (om_name (pod_metadata p)) (kb_pods_dir kb) (kb_rootfs_base kb)"
    and "start_pause (ke_host env) (ke_runtime env) sb s = (s0, Inr pid)"
    and "setup_pod_network (ke_host env) pid (sb_pod_name sb) (show_ipv4 addr) s0 = (s1, Inl e)"
  shows "\<exists>kb1. create_pod_on_node env p kb s = (s1, kb1, Inl (Ctx ''create sandbox'' (Ctx ''configure pod network'' e))) \<and>
    (\<forall>n s2 kb2. retry_create env p n kb1 s1 = (s2, kb2) \<longrightarrow> kb_store kb2 = kb_store kb \<and>
      (\<exists>al2. kb_ipam kb2 = Some al2 \<and> card (al_allocated al2) = min 253 (card (al_allocated al) + 1 + n)))"
proof -
  define kb1 where "kb1 = kb\<lparr>kb_ipam := Some al1\<rparr>"
  have ens: "ensure_pod_ip p kb = (kb1, Inr (show_ipv4 addr))"
    using assms(2,3,5) by (simp add: ensure_pod_ip_def reusable_ip_def kb1_def)
  have cr: "sandbox_create (ke_host env) (ke_runtime env) (Some (show_ipv4 addr)) sb s =
      (s1, sb\<lparr>sb_pause_pid := Some pid, sb_pod_ip := Some (show_ipv4 addr)\<rparr>, Inl (Ctx ''configure pod network'' e))"
    using assms(7,8) by (simp add: sandbox_create_def ctx_def)
  have "create_pod_on_node env p kb s = (s1, kb1, Inl (Ctx ''create sandbox'' (Ctx ''configure pod network'' e)))"
    using ens cr by (simp add: create_pod_on_node_def kb1_def sb)
  moreover have taken: "om_name (pod_metadata p) @ ''__pause'' \<in> ids s1"
    using pod_host.start_pause_cases [OF assms(1,7)] pod_host.setup_network_ids(1) [OF assms(1), of pid "sb_pod_name sb" "show_ipv4 addr" s0] assms(8)
    by (auto simp: sb sandbox_new_def)
  have al1: "alloc_inv al1" "card (al_allocated al1) = min 253 (card (al_allocated al) + 1)" using allocate_card [OF assms(4)] assms(5) by simp_all
  have "kb_store kb2 = kb_store kb \<and> (\<exists>al2. kb_ipam kb2 = Some al2 \<and> card (al_allocated al2) = min 253 (card (al_allocated al) + 1 + n))"
    if "retry_create env p n kb1 s1 = (s2, kb2)" for n s2 kb2
  proof -
    have k: "kb_ipam kb1 = Some al1" "kb_store kb1 = kb_store kb" by (simp_all add: kb1_def)
    have m: "min 253 (card (al_allocated al1) + n) = min 253 (card (al_allocated al) + 1 + n)" unfolding al1(2) by linarith
    show ?thesis using retry_create_drains [OF assms(1,2) k(1) al1(1) taken that] unfolding k(2) m .
  qed
  ultimately show ?thesis by blast
qed

subsection \<open>Addresses handed out twice at the start\<close>

lemma fresh_allocate:
  "from_cidr cidr = Inr al \<Longrightarrow> \<exists>al'. allocate al = (al', Inr (make_ip al FIRST_HOST)) \<and> al_prefix al' = al_prefix al"
  by (auto simp: from_cidr_def allocate_def advance_cursor.simps host_defs make_ip_def split: option.splits prod.splits if_splits)

text \<open>
  Claim C30. The start goes through the listed pods one by one and reserves a pod's address only when it gets to that pod. A pod without an address
  that is listed before a pod that survived with the first address of the slice is given the same address: afterwards both are
  alive with it.
\<close>
theorem startup_hands_out_live_address:
  assumes "from_cidr cidr = Inr al" and "kb_ipam kb = Some al" and "om_name (pod_metadata a) \<noteq> om_name (pod_metadata b)"
    and "status_ip a = None" and "pause_pid_of (om_name (pod_metadata a) @ ''__pause'') (by_pod (om_name (pod_metadata a))) = None"
    and "create_pod_on_node env a kb s = (s1, kb1, Inr ())"
    and "status_ip b = Some (show_ipv4 (make_ip al FIRST_HOST))"
    and "pause_pid_of (om_name (pod_metadata b) @ ''__pause'') (by_pod (om_name (pod_metadata b))) = Some pid"
    and "startup_pods env [a, b] by_pod kb s = (s2, kb2, rest)"
  shows "\<exists>sta stb. kb_store kb2 (om_name (pod_metadata a)) = Some sta \<and> kb_store kb2 (om_name (pod_metadata b)) = Some stb \<and>
    sb_pod_ip (st_sandbox sta) = sb_pod_ip (st_sandbox stb) \<and> sb_pod_ip (st_sandbox stb) = Some (show_ipv4 (make_ip al FIRST_HOST))"
proof -
  let ?a = "om_name (pod_metadata a)" and ?b = "om_name (pod_metadata b)" and ?ip = "show_ipv4 (make_ip al FIRST_HOST)"
  obtain al' where al': "allocate al = (al', Inr (make_ip al FIRST_HOST))" using fresh_allocate [OF assms(1)] by blast
  have "ensure_pod_ip a kb = (kb\<lparr>kb_ipam := Some al'\<rparr>, Inr ?ip)"
    using assms(2,4) al' by (simp add: ensure_pod_ip_def reusable_ip_def)
  from create_pod_outcome [OF assms(6) this] obtain pid' apps where
    kb1: "kb1 = kb\<lparr>kb_ipam := Some al', kb_store := (kb_store kb)(?a \<mapsto> live_state (kb\<lparr>kb_ipam := Some al'\<rparr>) a ?ip pid' apps)\<rparr>" by auto
  define kb3 where "kb3 = kb1\<lparr>kb_cache := (kb_cache kb1)(?a \<mapsto> a)\<rparr>"
  have store3: "kb_store kb3 ?a = Some (live_state (kb\<lparr>kb_ipam := Some al'\<rparr>) a ?ip pid' apps)" by (simp add: kb3_def kb1)
  have step: "startup_pods env [b] (by_pod(?a := None)) kb3 s1 = (s2, kb2, rest)"
    using assms(4,5,6,9) by (simp add: Let_def reusable_ip_def kb3_def)
  define by_pod1 where "by_pod1 = by_pod(?a := None)"
  define kb4 where "kb4 = (case reusable_ip kb3 b of Some (ip, al, addr) \<Rightarrow> kb3\<lparr>kb_ipam := Some (fst (reserve al addr))\<rparr> | None \<Rightarrow> kb3)"
  have store4: "kb_store kb4 = kb_store kb3" by (simp add: kb4_def split: option.splits prod.splits)
  define stb where "stb = \<lparr>st_pod = b, st_sandbox = sandbox_from_recovered ?b pid (app_names_of (?b @ ''__pause'') (the (by_pod1 ?b)))
    (kb_pods_dir kb4) (kb_rootfs_base kb4) (status_ip b)\<rparr>"
  have pp: "pause_pid_of (?b @ ''__pause'') (by_pod1 ?b) = Some pid" using assms(3,8) by (simp add: by_pod1_def)
  have "startup_pods env [b] by_pod1 kb3 s1 = (s1, kb4\<lparr>kb_store := live_insert stb (kb_store kb4), kb_cache := (kb_cache kb4)(?b \<mapsto> b)\<rparr>, by_pod1(?b := None))"
    unfolding startup_pods.simps Let_def kb4_def [symmetric] pp stb_def [symmetric] option.case prod.case by simp
  with step have "kb_store kb2 = (kb_store kb3)(?b \<mapsto> stb)" by (auto simp: by_pod1_def live_insert_def store4 stb_def)
  moreover have "sb_pod_ip (st_sandbox stb) = Some ?ip" using assms(7) by (simp add: stb_def sandbox_from_recovered_def)
  ultimately show ?thesis using store3 assms(3) by (auto simp: live_state_def)
qed

subsection \<open>Status reports\<close>

text \<open>
  Claim C28. A status report reaches the API server even when the agent's cached version of the pod is stale: over HTTP, routes, handlers and store, the report
  is refused, the pod is fetched again and the report is repeated. Afterwards the server holds the pod with the reported status and its
  specification untouched, and the agent remembers that object and that status.
\<close>
theorem stale_report_heals:
  assumes "connected cl sv sl view w a" and "ke_api env = client_api cl" and "ap_pods a n = Some p"
    and "kb_cache kb n = Some q" and "om_resource_version (pod_metadata q) = Some rv" and "url_safe rv"
  shows "\<exists>w' u kb'. push_status env n st kb w = (w', kb', Inr ()) \<and> connected cl sv sl view w' (with_pods ((ap_pods a)(n \<mapsto> u)) a) \<and>
    pod_status u = Some st \<and> pod_spec u = pod_spec p \<and> kb_cache kb' n = Some u \<and> kb_last_pushed_status kb' n = Some st"
  by (rule node_net.push_status_reported [OF assms(2,1,3-6)])

subsection \<open>A small node\<close>

text \<open>A container library whose containers run once started, a host whose commands all succeed or all fail, and no API server.\<close>

definition demo_lib :: "(bool, unit) libcontainer" where
  "demo_lib = \<lparr>lc_build = (\<lambda>_ _ _ w. (w, Inr False)), lc_start = (\<lambda>_ w. (w, True, Inr ())), lc_kill = (\<lambda>_ _ w. (w, False, Inr ())),
     lc_delete = (\<lambda>_ _ w. (w, Inr ())), lc_refresh_status = (\<lambda>h w. (w, h, Inr ())), lc_status = (\<lambda>h. if h then L_Running else L_Stopped),
     lc_pid = (\<lambda>h. if h then Some 7 else None), lc_load = (\<lambda>_ w. (w, Inl ''no such container'')), lc_valid_signal = (\<lambda>_. True),
     lc_exists = (\<lambda>_ _. False), lc_read_dir = (\<lambda>_ _. Inr [])\<rparr>"

definition demo_host :: "bool \<Rightarrow> unit host" where
  "demo_host works = \<lparr>ho_create_dir_all = (\<lambda>_ w. (w, Inr ())), ho_save_spec = (\<lambda>_ _ w. (w, Inr ())), ho_remove_dir_all = (\<lambda>_ w. w),
     ho_exec = (\<lambda>_ w. (w, Inr (works, ''no network''))), ho_now = (\<lambda>_. 0), ho_sleep = (\<lambda>_ w. w), ho_hash = length\<rparr>"

definition offline :: "'w api" where
  "offline = client_api \<lparr>cn_base_url = ''http://one'', cn_http = (\<lambda>_ w. (w, None)), cn_kc = demo_kc demo_status_codec\<rparr>"

definition demo_node_env :: "'s api \<Rightarrow> 's runtime \<Rightarrow> 's host \<Rightarrow> 's kubelet_env" where
  "demo_node_env api rt ho = \<lparr>ke_api = api, ke_list_on_node = (\<lambda>_ s. (s, Inr [])), ke_runtime = rt, ke_host = ho,
     ke_order = (\<lambda>_ S. sorted_list_of_set S), ke_timestamp = (\<lambda>_. ''t''), ke_unix_time = (\<lambda>_. 0), ke_write_json = (\<lambda>_ _ s. (s, Inr ()))\<rparr>"

definition youki_env :: "bool \<Rightarrow> (bool youki \<times> unit) kubelet_env" where
  "youki_env works = demo_node_env offline (youki_runtime demo_lib) (lift_host (demo_host works))"

definition demo_agent :: kubelet where
  "demo_agent = kubelet_new ''n1'' ''/pods'' ''/rootfs'' None"

definition demo_alloc :: ip_allocator where
  "demo_alloc = \<lparr>al_prefix = (10, 244, 1), al_next = FIRST_HOST, al_released = {}, al_allocated = {}\<rparr>"

lemma demo_cidr: "from_cidr (node_cidr 1) = Inr demo_alloc"
  using from_node_cidr [of 1] by (simp add: demo_alloc_def)


lemma demo_pod_ip: "status_ip (demo_pod n) = None" "om_name (pod_metadata (demo_pod n)) = n"
  by (simp_all add: status_ip_def demo_pod_def demo_meta_def)

definition demo_app :: container where
  "demo_app = pause_container_spec\<lparr>ct_name := ''c''\<rparr>"

theorem restarts_are_spaced_witness:
  "\<exists>s1 sb1 rs1 r. liveness_turn (youki_env True) ''a'' demo_app (sandbox_new ''a'' ''/pods'' ''/rootfs'') Map.empty (youki_new ''/run'', ()) = (s1, sb1, rs1, r) \<and>
     rs1 ''a__c'' = Some \<lparr>tr_restart_count = 1, tr_next_retry_at = 10000000\<rparr> \<and>
     later_turns (youki_env True) ''a'' demo_app (rs1 ''a__c'') [(sb1, rs1, (youki_new ''/run'', ())), (sb1, rs1, (youki_new ''/run'', ()))] =
       [((youki_new ''/run'', ()), sb1, rs1, Inr ()), ((youki_new ''/run'', ()), sb1, rs1, Inr ())]"
proof -
  let ?s = "(youki_new ''/run'', ()) :: bool youki \<times> unit" and ?sb = "sandbox_new ''a'' ''/pods'' ''/rootfs''"
  let ?note = "\<lparr>tr_restart_count = 1, tr_next_retry_at = 10000000\<rparr>"
  obtain s1 sb1 rs1 r where t: "liveness_turn (youki_env True) ''a'' demo_app ?sb Map.empty ?s = (s1, sb1, rs1, r)" by (metis prod_cases4)
  have now: "ho_now (ke_host (youki_env True)) s = 0" for s by (cases s) (simp add: youki_env_def demo_node_env_def lift_host_def demo_host_def)
  have state: "rt_container_state (ke_runtime (youki_env True)) ''a__c'' ?s = (?s, Inr C_NotFound)"
    by (simp add: youki_env_def demo_node_env_def youki_runtime_def youki_state_def youki_new_def)
  have key: "''a__c'' = container_key ''a'' (ct_name demo_app)" by (simp add: container_key_def demo_app_def)
  have c: "crashed (youki_env True) ''a__c'' ?s ?s" using state by (simp add: crashed_def)
  have tr: "tracker_of Map.empty ''a__c'' 0 = \<lparr>tr_restart_count = 0, tr_next_retry_at = 0\<rparr>" by (simp add: tracker_of_def)
  have rs1: "rs1 = Map.empty(''a__c'' \<mapsto> ?note)" and later: "list_all (not_yet (youki_env True) ''a__c'' 10000000) turns \<Longrightarrow>
      list_all2 (only_looks (youki_env True) ''a__c'' ?note) turns (later_turns (youki_env True) ''a'' demo_app (Some ?note) turns)" for turns
    using restarts_are_spaced [OF key c now [symmetric] refl _ t refl] by (simp_all add: tr)
  let ?turns = "[(sb1, rs1, ?s), (sb1, rs1, ?s)]"
  have "list_all2 (only_looks (youki_env True) ''a__c'' ?note) ?turns (later_turns (youki_env True) ''a'' demo_app (Some ?note) ?turns)"
    by (rule later) (simp add: not_yet_def state now)
  moreover have "snd (snd (snd (liveness_turn (youki_env True) ''a'' demo_app sb1 rs1 ?s))) = Inr ()"
    using state by (simp add: liveness_turn_def key [symmetric] rs1 tracker_of_def now)
  ultimately show ?thesis using t state
    by (auto simp: rs1 only_looks_def Let_def key [symmetric] prod_eq_iff intro!: exI [of _ s1])
qed


lemmas node_defs = youki_env_def demo_node_env_def youki_runtime_def lift_host_def demo_host_def demo_lib_def

lemma demo_pause:
  "start_pause (ke_host (youki_env works)) (ke_runtime (youki_env works)) (sandbox_new ''a'' ''/pods'' ''/rootfs'') (youki_new ''/run'', ()) =
     ((\<lparr>yk_state_dir = ''/run'', yk_containers = [''a__pause'' \<mapsto> True]\<rparr>, ()), Inr 7)"
  by (simp add: start_pause_def attempt_def ctx_def write_bundle_def node_defs sandbox_new_def youki_create_def youki_new_def youki_start_def
      youki_pid_def with_handle_def rt_other_def pid_of_def)

theorem failed_creation_drains_addresses_witness:
  "\<exists>s1 kb1. create_pod_on_node (youki_env False) (demo_pod ''a'') (fresh_agent demo_agent demo_alloc) (youki_new ''/run'', ()) =
       (s1, kb1, Inl (Ctx ''create sandbox'' (Ctx ''configure pod network'' (Msg ''no network'')))) \<and>
     (\<exists>al2. kb_ipam (snd (retry_create (youki_env False) (demo_pod ''a'') 252 kb1 s1)) = Some al2 \<and> card (al_allocated al2) = 253)"
proof -
  let ?kb = "fresh_agent demo_agent demo_alloc" and ?sb = "sandbox_new ''a'' ''/pods'' ''/rootfs''"
  let ?s0 = "(\<lparr>yk_state_dir = ''/run'', yk_containers = [''a__pause'' \<mapsto> True]\<rparr>, ()) :: bool youki \<times> unit"
  have host: "pod_host (ke_runtime (youki_env False)) handle_ids (ke_host (youki_env False))"
    using youki_node.pod_host_axioms [of demo_lib "demo_host False"] by (simp add: youki_env_def demo_node_env_def)
  obtain al1 where al1: "allocate demo_alloc = (al1, Inr (make_ip demo_alloc FIRST_HOST))" using fresh_allocate [OF demo_cidr] by blast
  have net: "setup_pod_network (ke_host (youki_env False)) 7 (sb_pod_name ?sb) ip ?s0 = (?s0, Inl (Msg ''no network''))" for ip
    by (simp add: setup_pod_network_def Let_def attempt_def run_host_def node_defs)
  have sb: "?sb = sandbox_new (om_name (pod_metadata (demo_pod ''a''))) (kb_pods_dir ?kb) (kb_rootfs_base ?kb)"
    by (simp add: demo_pod_ip fresh_agent_def demo_agent_def kubelet_new_def)
  have ipam: "kb_ipam ?kb = Some demo_alloc" by (simp add: fresh_agent_def)
  obtain kb1 where kb1: "create_pod_on_node (youki_env False) (demo_pod ''a'') ?kb (youki_new ''/run'', ()) =
       (?s0, kb1, Inl (Ctx ''create sandbox'' (Ctx ''configure pod network'' (Msg ''no network''))))"
    and retry: "\<And>n s2 kb2. retry_create (youki_env False) (demo_pod ''a'') n kb1 ?s0 = (s2, kb2) \<Longrightarrow>
      \<exists>al2. kb_ipam kb2 = Some al2 \<and> card (al_allocated al2) = min 253 (card (al_allocated demo_alloc) + 1 + n)"
    using failed_creation_drains_addresses [OF host demo_pod_ip(1) ipam from_cidr_inv [OF demo_cidr] al1 sb demo_pause net] by blast
  obtain s2 kb2 where r: "retry_create (youki_env False) (demo_pod ''a'') 252 kb1 ?s0 = (s2, kb2)" by (rule prod.exhaust)
  then have "\<exists>al2. kb_ipam kb2 = Some al2 \<and> card (al_allocated al2) = 253" using retry [OF r] by (simp add: demo_alloc_def)
  then show ?thesis using kb1 r by (intro exI [of _ ?s0] exI [of _ kb1]) simp
qed

definition survivor :: pod where
  "survivor = (demo_pod ''b'')\<lparr>pod_status := Some \<lparr>ps_phase = Running, ps_container_statuses = [], ps_observed_generation = None,
     ps_pod_ip = Some (show_ipv4 (make_ip demo_alloc FIRST_HOST))\<rparr>\<rparr>"

theorem startup_hands_out_live_address_witness:
  "\<exists>s2 kb2 rest sta stb. startup_pods (youki_env True) [demo_pod ''a'', survivor] [''b'' \<mapsto> [\<lparr>rc_id = ''b__pause'', rc_state = C_Running, rc_pid = Some 5\<rparr>]]
       (fresh_agent demo_agent demo_alloc) (youki_new ''/run'', ()) = (s2, kb2, rest) \<and>
     kb_store kb2 ''a'' = Some sta \<and> kb_store kb2 ''b'' = Some stb \<and> sb_pod_ip (st_sandbox sta) = sb_pod_ip (st_sandbox stb)"
proof -
  let ?kb = "fresh_agent demo_agent demo_alloc" and ?by = "[''b'' \<mapsto> [\<lparr>rc_id = ''b__pause'', rc_state = C_Running, rc_pid = Some 5\<rparr>]]"
  let ?s = "(youki_new ''/run'', ()) :: bool youki \<times> unit"
  have ipam: "kb_ipam ?kb = Some demo_alloc" by (simp add: fresh_agent_def)
  obtain al1 where al1: "allocate demo_alloc = (al1, Inr (make_ip demo_alloc FIRST_HOST))" using fresh_allocate [OF demo_cidr] by blast
  have "ensure_pod_ip (demo_pod ''a'') ?kb = (?kb\<lparr>kb_ipam := Some al1\<rparr>, Inr (show_ipv4 (make_ip demo_alloc FIRST_HOST)))"
    using al1 by (simp add: ensure_pod_ip_def reusable_ip_def demo_pod_ip ipam)
  then have "\<exists>s1 kb1. create_pod_on_node (youki_env True) (demo_pod ''a'') ?kb ?s = (s1, kb1, Inr ())"
    using demo_pause [of True]
    by (simp add: create_pod_on_node_def demo_pod_ip fresh_agent_def demo_agent_def kubelet_new_def sandbox_create_def ctx_def)
      (simp add: setup_pod_network_def Let_def attempt_def run_host_def node_defs demo_pod_def add_container_def ctx_def write_bundle_def
        youki_create_def youki_start_def with_handle_def rt_other_def container_id_for_def sandbox_new_def)
  then obtain s1 kb1 where c: "create_pod_on_node (youki_env True) (demo_pod ''a'') ?kb ?s = (s1, kb1, Inr ())" by blast
  obtain s2 kb2 rest where st: "startup_pods (youki_env True) [demo_pod ''a'', survivor] ?by ?kb ?s = (s2, kb2, rest)" by (metis prod_cases3)
  have b: "om_name (pod_metadata survivor) = ''b''" "status_ip survivor = Some (show_ipv4 (make_ip demo_alloc FIRST_HOST))"
    by (simp_all add: survivor_def status_ip_def demo_pod_def demo_meta_def)
  have "\<exists>sta stb. kb_store kb2 ''a'' = Some sta \<and> kb_store kb2 ''b'' = Some stb \<and> sb_pod_ip (st_sandbox sta) = sb_pod_ip (st_sandbox stb)"
    using startup_hands_out_live_address [OF demo_cidr ipam, of "demo_pod ''a''" survivor ?by, OF _ _ _ c b(2) _ st] b(1)
    by (auto simp: demo_pod_ip pause_pid_of_def)
  then show ?thesis using st by blast
qed

definition idle_runtime :: "'s runtime" where
  "idle_runtime = \<lparr>rt_create_container = (\<lambda>_ _ s. (s, Inl (Rt_Other ''idle''))), rt_start_container = (\<lambda>_ s. (s, Inl (Rt_Other ''idle''))),
     rt_kill_container = (\<lambda>_ _ s. (s, Inl (Rt_Other ''idle''))), rt_delete_container = (\<lambda>_ _ s. (s, Inl (Rt_Other ''idle''))),
     rt_container_state = (\<lambda>_ s. (s, Inr C_NotFound)), rt_container_pid = (\<lambda>_ s. (s, Inr None)), rt_recover_all = (\<lambda>s. (s, Inr []))\<rparr>"

definition idle_host :: "'s host" where
  "idle_host = \<lparr>ho_create_dir_all = (\<lambda>_ w. (w, Inr ())), ho_save_spec = (\<lambda>_ _ w. (w, Inr ())), ho_remove_dir_all = (\<lambda>_ w. w),
     ho_exec = (\<lambda>_ w. (w, Inr (True, []))), ho_now = (\<lambda>_. 0), ho_sleep = (\<lambda>_ w. w), ho_hash = length\<rparr>"

definition failed_status :: pod_status where
  "failed_status = \<lparr>ps_phase = Failed, ps_container_statuses = [], ps_observed_generation = None, ps_pod_ip = None\<rparr>"

theorem stale_report_heals_witness:
  "\<exists>w w' u kb'. connected demo_client demo_server map_tree fmlookup w demo_cluster \<and>
     push_status (demo_node_env (client_api demo_client) idle_runtime idle_host) ''a'' failed_status
       (demo_agent\<lparr>kb_cache := [''a'' \<mapsto> set_rv Pod_kind 7 running_pod]\<rparr>) w = (w', kb', Inr ()) \<and>
     connected demo_client demo_server map_tree fmlookup w' (with_pods ((ap_pods demo_cluster)(''a'' \<mapsto> u)) demo_cluster) \<and> pod_status u = Some failed_status"
proof -
  obtain w where w: "connected demo_client demo_server map_tree fmlookup w demo_cluster" by (rule demo_connected)
  let ?env = "demo_node_env (client_api demo_client) idle_runtime idle_host" and ?kb = "demo_agent\<lparr>kb_cache := [''a'' \<mapsto> set_rv Pod_kind 7 running_pod]\<rparr>"
  have env: "ke_api ?env = client_api demo_client" by (simp add: demo_node_env_def)
  have p: "ap_pods demo_cluster ''a'' = Some (set_rv Pod_kind 1 running_pod)" by (simp add: demo_contents)
  have q: "kb_cache ?kb ''a'' = Some (set_rv Pod_kind 7 running_pod)" "om_resource_version (pod_metadata (set_rv Pod_kind 7 running_pod)) = Some (show_nat 7)"
    by (simp_all add: set_rv_def Pod_kind_def)
  show ?thesis using stale_report_heals [OF w env p q show_nat_safe, of failed_status] w by blast
qed

end
