(* ===== verification/Proxy_Rules.thy ===== *)
theory Proxy_Rules
  imports Kube_Proxy Complex_Main
begin

text \<open>
  What a sync of \<^verbatim>\<open>src/kube_proxy.rs\<close> leaves in the packet filter. The locale \<open>iptables\<close> states what the manual of the
  \<^verbatim>\<open>iptables\<close> program says of the three commands the plan uses (new chain, flush, append) over a table from chain names to
  rules; its instance \<open>run_table\<close> is such a table. The plan succeeds and leaves the intended rules, and a service's
  traffic is spread evenly over its backends.
\<close>

type_synonym table = "string \<rightharpoonup> rule list"

text \<open>
  The chain a rule jumps to must exist when the rule is appended. Every option of the planned rules takes one argument.
\<close>

definition builtin_targets :: "string list" where
  "builtin_targets = [''MARK'', ''DNAT'', ''MASQUERADE'']"

fun rule_targets :: "rule \<Rightarrow> string list" where
  "rule_targets (x # y # r) = (if x = ''-j'' then y # rule_targets r else rule_targets r)"
| "rule_targets _ = []"

definition targets_ok :: "table \<Rightarrow> rule \<Rightarrow> bool" where
  "targets_ok t r \<longleftrightarrow> list_all (\<lambda>c. c \<in> set builtin_targets \<or> t c \<noteq> None) (rule_targets r)"

locale iptables =
  fixes exec :: "'w exec" and table :: "'w \<Rightarrow> table" and accepts :: "rule \<Rightarrow> bool"
  assumes new_chain: "table w c = None \<Longrightarrow> length c \<le> 28 \<Longrightarrow> \<exists>w' out. exec (nat_args [''-N'', c]) w = (w', out) \<and> table w' = (table w)(c \<mapsto> [])"
    and old_chain: "table w c \<noteq> None \<Longrightarrow> table (fst (exec (nat_args [''-N'', c]) w)) = table w"
    and flush: "table w c \<noteq> None \<Longrightarrow> \<exists>w' err. exec (nat_args [''-F'', c]) w = (w', Inr (True, err)) \<and> table w' = (table w)(c \<mapsto> [])"
    and append_rule: "table w c = Some rs \<Longrightarrow> accepts r \<Longrightarrow> targets_ok (table w) r \<Longrightarrow>
      \<exists>w' err. exec (nat_args (''-A'' # c # r)) w = (w', Inr (True, err)) \<and> table w' = (table w)(c \<mapsto> rs @ [r])"
    and refused_rule: "\<not> accepts r \<Longrightarrow> \<exists>w' err. exec (nat_args (''-A'' # c # r)) w = (w', Inr (False, err)) \<and> table w' = table w"
    and check_rule: "\<exists>w' ok err. exec (nat_args (''-C'' # r)) w = (w', Inr (ok, err)) \<and> table w' = table w"

text \<open>The effect of a list of planned rules on a table.\<close>

fun rule_effect :: "rule \<Rightarrow> table \<Rightarrow> table" where
  "rule_effect (oper # c # r) t =
     (if oper = ''-N'' then (if t c = None then t(c \<mapsto> []) else t)
      else if oper = ''-F'' then t(c \<mapsto> [])
      else t(c \<mapsto> (case t c of Some rs \<Rightarrow> rs | None \<Rightarrow> []) @ [r]))"
| "rule_effect _ t = t"

fun rule_valid :: "(rule \<Rightarrow> bool) \<Rightarrow> rule \<Rightarrow> table \<Rightarrow> bool" where
  "rule_valid acc (oper # c # r) t =
     (if oper = ''-N'' then r = [] \<and> length c \<le> 28
      else if oper = ''-F'' then r = [] \<and> t c \<noteq> None
      else oper = ''-A'' \<and> t c \<noteq> None \<and> acc r \<and> targets_ok t r)"
| "rule_valid acc _ t = False"

fun plan_valid :: "(rule \<Rightarrow> bool) \<Rightarrow> rule list \<Rightarrow> table \<Rightarrow> bool" where
  "plan_valid acc [] t = True"
| "plan_valid acc (r # rs) t = (rule_valid acc r t \<and> plan_valid acc rs (rule_effect r t))"

definition plan_steps :: "(rule \<Rightarrow> bool) \<Rightarrow> rule list \<Rightarrow> table \<Rightarrow> table \<Rightarrow> bool" where
  "plan_steps acc rs t t' \<longleftrightarrow> plan_valid acc rs t \<and> t' = fold rule_effect rs t"

lemma plan_valid_append: "plan_valid acc (xs @ ys) t \<longleftrightarrow> plan_valid acc xs t \<and> plan_valid acc ys (fold rule_effect xs t)"
  by (induction xs arbitrary: t) auto

lemma plan_steps_append: "plan_steps acc xs t t' \<Longrightarrow> plan_steps acc ys t' t'' \<Longrightarrow> plan_steps acc (xs @ ys) t t''"
  by (simp add: plan_steps_def plan_valid_append)

lemma plan_steps_nil [simp]: "plan_steps acc [] t t' \<longleftrightarrow> t' = t"
  by (simp add: plan_steps_def)

lemma plan_steps_one: "rule_valid acc r t \<Longrightarrow> t' = rule_effect r t \<Longrightarrow> plan_steps acc [r] t t'"
  by (simp add: plan_steps_def)

context iptables
begin

lemma apply_rule:
  assumes v: "rule_valid accepts r (table w)"
  shows "\<exists>w'. apply_rules exec (r # rs) w = apply_rules exec rs w' \<and> table w' = rule_effect r (table w)"
proof -
  obtain oper c q where r: "r = oper # c # q" using v by (cases "(accepts, r, table w)" rule: rule_valid.cases) auto
  consider (N) "oper = ''-N''" "q = []" "length c \<le> 28" | (F) "oper = ''-F''" "q = []" "table w c \<noteq> None"
    | (A) "oper = ''-A''" "table w c \<noteq> None" "accepts q" "targets_ok (table w) q"
    using v unfolding r rule_valid.simps by metis
  then show ?thesis
  proof cases
    case N
    have t: "table (run_tolerate exec (nat_args r) w) = rule_effect r (table w)"
      using new_chain [of w c] old_chain [of w c] N r by (cases "table w c") (auto simp: run_tolerate_def)
    then show ?thesis using N r by (intro exI [of _ "run_tolerate exec (nat_args r) w"]) simp
  next
    case F
    then obtain w' err where e: "exec (nat_args r) w = (w', Inr (True, err))" "table w' = rule_effect r (table w)"
      using flush [of w c] r by auto
    then show ?thesis using F(1) r by (intro exI [of _ w']) (simp only: apply_rules.simps run_cmd_def, simp)
  next
    case A
    then obtain rs0 where "table w c = Some rs0" by auto
    then obtain w' err where e: "exec (nat_args r) w = (w', Inr (True, err))" "table w' = rule_effect r (table w)"
      using append_rule [of w c rs0 q] A r by auto
    then show ?thesis using A(1) r by (intro exI [of _ w']) (simp only: apply_rules.simps run_cmd_def, simp)
  qed
qed

lemma apply_steps:
  "plan_steps accepts rs (table w) t' \<Longrightarrow> \<exists>w'. apply_rules exec (rs @ rest) w = apply_rules exec rest w' \<and> table w' = t'"
proof (induction rs arbitrary: w)
  case Nil
  then show ?case by auto
next
  case (Cons r rs)
  obtain w1 where w1: "apply_rules exec (r # rs @ rest) w = apply_rules exec (rs @ rest) w1" "table w1 = rule_effect r (table w)"
    using apply_rule [of r w "rs @ rest"] Cons.prems by (auto simp: plan_steps_def)
  have "plan_steps accepts rs (table w1) t'" using Cons.prems w1(2) by (simp add: plan_steps_def)
  from Cons.IH [OF this] show ?case using w1(1) by simp
qed

lemma apply_refused:
  assumes "\<not> accepts r"
  shows "\<exists>w' err. apply_rules exec ((''-A'' # c # r) # rest) w = (w', Inl (Px_failed (nat_args (''-A'' # c # r)) err)) \<and> table w' = table w"
  using refused_rule [OF assms, of c w] by (auto simp: run_cmd_def)

end

subsection \<open>A table as a packet filter\<close>

definition run_table :: "(rule \<Rightarrow> bool) \<Rightarrow> table exec" where
  "run_table acc argv t =
     (case argv of
        ipt # tflag # tab # oper # c # r \<Rightarrow>
          (if oper = ''-N'' \<and> t c \<noteq> None then (t, Inr (False, ''Chain already exists''))
           else if oper = ''-C'' then (t, Inr (case t c of Some rs \<Rightarrow> r \<in> set rs | None \<Rightarrow> False, []))
           else if rule_valid acc (oper # c # r) t then (rule_effect (oper # c # r) t, Inr (True, []))
           else (t, Inr (False, ''No chain/target/match by that name'')))
      | _ \<Rightarrow> (t, Inr (False, ''bad arguments'')))"

interpretation run: iptables "run_table acc" "\<lambda>t. t" acc for acc
  by unfold_locales (auto simp: run_table_def nat_args_def split: list.splits)

subsection \<open>The intended rules\<close>

definition sep_rules :: "endpoint_address \<Rightarrow> rule list" where
  "sep_rules ep = [[''-j'', KUBE_MARK_MASQ], [''-p'', ''tcp'', ''-j'', ''DNAT'', ''--to-destination'', destination ep]]"

definition balance_rule :: "(nat \<Rightarrow> string) \<Rightarrow> nat \<Rightarrow> nat \<Rightarrow> string \<Rightarrow> rule" where
  "balance_rule prob_text n i sep =
     (if i < n - 1 then [''-m'', ''statistic'', ''--mode'', ''random'', ''--probability'', prob_text (n - i), ''-j'', sep]
      else [''-j'', sep])"

abbreviation sname :: "service \<Rightarrow> string" where
  "sname svc \<equiv> om_name (svc_metadata svc)"

abbreviation sep_of :: "(string \<Rightarrow> nat) \<Rightarrow> string \<Rightarrow> endpoint_address \<Rightarrow> string" where
  "sep_of hasher svc ep \<equiv> sep_chain_name hasher svc (ea_ip ep) (ea_port ep)"

definition svc_rules :: "(string \<Rightarrow> nat) \<Rightarrow> (nat \<Rightarrow> string) \<Rightarrow> string \<Rightarrow> endpoint_address list \<Rightarrow> rule list" where
  "svc_rules hasher prob_text svc addrs = map (\<lambda>(i, ep). balance_rule prob_text (length addrs) i (sep_of hasher svc ep)) (enumerate 0 addrs)"

definition vip_rule :: "(string \<Rightarrow> nat) \<Rightarrow> service \<Rightarrow> rule" where
  "vip_rule hasher svc =
     [''-d'', the (sv_cluster_ip (svc_spec svc)), ''-p'', ''tcp'', ''--dport'', show_nat (sv_port (svc_spec svc)), ''-j'',
      svc_chain_name hasher (sname svc)]"

definition programmed :: "endpoints list \<Rightarrow> service \<Rightarrow> bool" where
  "programmed eps svc \<longleftrightarrow> sv_cluster_ip (svc_spec svc) \<noteq> None \<and> addresses_of eps svc \<noteq> []"

definition chains_of :: "(string \<Rightarrow> nat) \<Rightarrow> endpoints list \<Rightarrow> service \<Rightarrow> string set" where
  "chains_of hasher eps svc =
     (if programmed eps svc then insert (svc_chain_name hasher (sname svc)) (sep_of hasher (sname svc) ` set (addresses_of eps svc)) else {})"

text \<open>No two keys that are in use hash alike, and service names are plain.\<close>

definition sep_key :: "string \<Rightarrow> endpoint_address \<Rightarrow> string" where
  "sep_key svc ep = svc @ ''/'' @ destination ep"

definition keys_apart :: "(string \<Rightarrow> nat) \<Rightarrow> endpoints list \<Rightarrow> service list \<Rightarrow> bool" where
  "keys_apart hasher eps svcs \<longleftrightarrow> distinct (map sname svcs) \<and> (\<forall>svc \<in> set svcs. CHR ''/'' \<notin> set (sname svc)) \<and>
     inj_on (short_hash hasher) (sname ` set svcs) \<and>
     inj_on (short_hash hasher) (\<Union>svc \<in> set svcs. sep_key (sname svc) ` set (addresses_of eps svc))"

lemma chain_names [simp]:
  "svc_chain_name h a \<noteq> sep_chain_name h' b ip port" "sep_chain_name h' b ip port \<noteq> svc_chain_name h a"
  "svc_chain_name h a \<noteq> KUBE_SERVICES" "svc_chain_name h a \<noteq> KUBE_MARK_MASQ" "sep_chain_name h a ip port \<noteq> KUBE_SERVICES"
  "sep_chain_name h a ip port \<noteq> KUBE_MARK_MASQ" "KUBE_SERVICES \<noteq> KUBE_MARK_MASQ"
  "KUBE_SERVICES \<noteq> svc_chain_name h a" "KUBE_SERVICES \<noteq> sep_chain_name h a ip port" "KUBE_MARK_MASQ \<noteq> svc_chain_name h a"
  "KUBE_MARK_MASQ \<noteq> sep_chain_name h a ip port" "KUBE_MARK_MASQ \<noteq> KUBE_SERVICES"
  by (simp_all add: svc_chain_name_def sep_chain_name_def KUBE_SERVICES_def KUBE_MARK_MASQ_def)

lemma sep_of_key: "sep_of h a ep = ''KUBE-SEP-'' @ short_hash h (sep_key a ep)"
  by (simp add: sep_chain_name_def sep_key_def destination_def)

lemma sep_key_inj:
  assumes "CHR ''/'' \<notin> set a" and "CHR ''/'' \<notin> set b" and "sep_key a ep = sep_key b ep'"
  shows "a = b \<and> destination ep = destination ep'"
proof -
  have "split_once (CHR ''/'') (sep_key c x) = Some (c, destination x)" if "CHR ''/'' \<notin> set c" for c x
    using split_once_append [OF that, of "destination x"] by (simp add: sep_key_def)
  from this [OF assms(1), of ep] this [OF assms(2), of ep'] assms(3) show ?thesis by simp
qed

subsection \<open>What the plan does\<close>

lemma hex_digits_length [simp]: "length (hex_digits w n) = w"
  by (induction w arbitrary: n) simp_all

lemma chain_lengths [simp]: "length (svc_chain_name h a) = 25" "length (sep_chain_name h a ip port) = 25"
  by (simp_all add: svc_chain_name_def sep_chain_name_def short_hash_def)

lemma endpoint_effect:
  assumes "t (svc_chain_name h svc) = Some rs" and "t KUBE_MARK_MASQ \<noteq> None"
    and "acc (balance_rule pt n i (sep_of h svc ep))" and "\<forall>r \<in> set (sep_rules ep). acc r"
  shows "plan_steps acc (plan_endpoint h pt svc n (i, ep)) t
      (t(sep_of h svc ep \<mapsto> sep_rules ep, svc_chain_name h svc \<mapsto> rs @ [balance_rule pt n i (sep_of h svc ep)]))"
  using assms by (auto simp: plan_steps_def plan_endpoint_def Let_def targets_ok_def builtin_targets_def sep_rules_def balance_rule_def fun_upd_twist fun_eq_iff
      split: if_splits)

definition same_backend :: "(string \<Rightarrow> nat) \<Rightarrow> string \<Rightarrow> endpoint_address set \<Rightarrow> bool" where
  "same_backend h svc A \<longleftrightarrow> (\<forall>e \<in> A. \<forall>e' \<in> A. sep_of h svc e = sep_of h svc e' \<longrightarrow> destination e = destination e')"

lemma same_backend_sub: "same_backend h svc A \<Longrightarrow> B \<subseteq> A \<Longrightarrow> same_backend h svc B"
  unfolding same_backend_def by blast

lemma same_backend_rules:
  "same_backend h svc A \<Longrightarrow> e \<in> A \<Longrightarrow> e' \<in> A \<Longrightarrow> sep_of h svc e = sep_of h svc e' \<Longrightarrow> sep_rules e = sep_rules e'"
  unfolding same_backend_def sep_rules_def by metis

abbreviation svc_rules_from :: "(string \<Rightarrow> nat) \<Rightarrow> (nat \<Rightarrow> string) \<Rightarrow> string \<Rightarrow> nat \<Rightarrow> nat \<Rightarrow> endpoint_address list \<Rightarrow> rule list" where
  "svc_rules_from h pt svc n k es \<equiv> map (\<lambda>(i, ep). balance_rule pt n i (sep_of h svc ep)) (enumerate k es)"

lemma endpoints_effect:
  assumes "t (svc_chain_name h svc) = Some rs" and "t KUBE_MARK_MASQ \<noteq> None" and "same_backend h svc (set es)"
    and "\<forall>r \<in> set (svc_rules_from h pt svc n k es). acc r" and "\<forall>e \<in> set es. \<forall>r \<in> set (sep_rules e). acc r"
  shows "\<exists>t'. plan_steps acc (concat (map (plan_endpoint h pt svc n) (enumerate k es))) t t' \<and>
     t' (svc_chain_name h svc) = Some (rs @ svc_rules_from h pt svc n k es) \<and>
     (\<forall>e \<in> set es. t' (sep_of h svc e) = Some (sep_rules e)) \<and>
     (\<forall>c. c \<noteq> svc_chain_name h svc \<longrightarrow> c \<notin> sep_of h svc ` set es \<longrightarrow> t' c = t c)"
  using assms
proof (induction es arbitrary: t rs k)
  case Nil
  then show ?case by simp
next
  case (Cons e es)
  let ?r = "balance_rule pt n k (sep_of h svc e)"
  define t1 where "t1 = t(sep_of h svc e \<mapsto> sep_rules e, svc_chain_name h svc \<mapsto> rs @ [?r])"
  have step: "plan_steps acc (plan_endpoint h pt svc n (k, e)) t t1"
    unfolding t1_def by (rule endpoint_effect [OF Cons.prems(1,2)]) (use Cons.prems(4,5) in simp_all)
  have "t1 (svc_chain_name h svc) = Some (rs @ [?r])" "t1 KUBE_MARK_MASQ \<noteq> None" "same_backend h svc (set es)"
    using Cons.prems(2,3) same_backend_sub [of h svc "set (e # es)" "set es"] by (auto simp: t1_def)
  from Cons.IH [OF this, of "Suc k"] Cons.prems(4,5) obtain t' where
    t': "plan_steps acc (concat (map (plan_endpoint h pt svc n) (enumerate (Suc k) es))) t1 t'"
      "t' (svc_chain_name h svc) = Some ((rs @ [?r]) @ svc_rules_from h pt svc n (Suc k) es)"
      "\<forall>e \<in> set es. t' (sep_of h svc e) = Some (sep_rules e)"
      "\<forall>c. c \<noteq> svc_chain_name h svc \<longrightarrow> c \<notin> sep_of h svc ` set es \<longrightarrow> t' c = t1 c" by auto
  have first: "t' (sep_of h svc e) = Some (sep_rules e)"
  proof (cases "sep_of h svc e \<in> sep_of h svc ` set es")
    case True
    then obtain e' where e': "e' \<in> set es" "sep_of h svc e = sep_of h svc e'" by blast
    then have "sep_rules e = sep_rules e'" using same_backend_rules [OF Cons.prems(3)] by simp
    then show ?thesis using t'(3) e' by simp
  next
    case False
    then show ?thesis using t'(4) by (simp add: t1_def)
  qed
  have "plan_steps acc (concat (map (plan_endpoint h pt svc n) (enumerate k (e # es)))) t t'"
    using plan_steps_append [OF step t'(1)] by simp
  moreover have "t' c = t c" if "c \<noteq> svc_chain_name h svc" "c \<notin> sep_of h svc ` set (e # es)" for c
    using t'(4) that by (simp add: t1_def)
  ultimately show ?case using t'(2,3) first by (intro exI [of _ t']) simp
qed

definition backends_accepted :: "(rule \<Rightarrow> bool) \<Rightarrow> (string \<Rightarrow> nat) \<Rightarrow> (nat \<Rightarrow> string) \<Rightarrow> endpoints list \<Rightarrow> service \<Rightarrow> bool" where
  "backends_accepted acc h pt eps svc \<longleftrightarrow> (programmed eps svc \<longrightarrow>
     list_all acc (svc_rules h pt (sname svc) (addresses_of eps svc)) \<and> (\<forall>e \<in> set (addresses_of eps svc). list_all acc (sep_rules e)))"

definition service_accepted :: "(rule \<Rightarrow> bool) \<Rightarrow> (string \<Rightarrow> nat) \<Rightarrow> (nat \<Rightarrow> string) \<Rightarrow> endpoints list \<Rightarrow> service \<Rightarrow> bool" where
  "service_accepted acc h pt eps svc \<longleftrightarrow> backends_accepted acc h pt eps svc \<and> (programmed eps svc \<longrightarrow> acc (vip_rule h svc))"

text \<open>The chains of a service hold its intended rules.\<close>

definition service_installed :: "(string \<Rightarrow> nat) \<Rightarrow> (nat \<Rightarrow> string) \<Rightarrow> endpoints list \<Rightarrow> service \<Rightarrow> table \<Rightarrow> bool" where
  "service_installed h pt eps svc t \<longleftrightarrow>
     t (svc_chain_name h (sname svc)) = Some (svc_rules h pt (sname svc) (addresses_of eps svc)) \<and>
     (\<forall>e \<in> set (addresses_of eps svc). t (sep_of h (sname svc) e) = Some (sep_rules e))"

lemma service_installed_cong:
  "programmed eps svc \<Longrightarrow> \<forall>c \<in> chains_of h eps svc. t' c = t c \<Longrightarrow> service_installed h pt eps svc t' = service_installed h pt eps svc t"
  by (simp add: service_installed_def chains_of_def)

definition service_body :: "(string \<Rightarrow> nat) \<Rightarrow> (nat \<Rightarrow> string) \<Rightarrow> endpoints list \<Rightarrow> service \<Rightarrow> rule list" where
  "service_body h pt eps svc = [[''-N'', svc_chain_name h (sname svc)], [''-F'', svc_chain_name h (sname svc)]] @
     concat (map (plan_endpoint h pt (sname svc) (length (addresses_of eps svc))) (enumerate 0 (addresses_of eps svc)))"

lemma plan_service_split:
  "programmed eps svc \<Longrightarrow> plan_service h pt eps svc = service_body h pt eps svc @ [''-A'' # KUBE_SERVICES # vip_rule h svc]"
  by (auto simp: programmed_def plan_service_def service_body_def vip_rule_def Let_def)

lemma plan_service_skipped: "\<not> programmed eps svc \<Longrightarrow> plan_service h pt eps svc = []"
  by (auto simp: programmed_def plan_service_def Let_def split: option.splits)

lemma body_effect:
  assumes "t KUBE_MARK_MASQ \<noteq> None" and p: "programmed eps svc"
    and sb: "same_backend h (sname svc) (set (addresses_of eps svc))" and acc: "backends_accepted acc h pt eps svc"
  shows "\<exists>t'. plan_steps acc (service_body h pt eps svc) t t' \<and> service_installed h pt eps svc t' \<and>
     (\<forall>c. c \<notin> chains_of h eps svc \<longrightarrow> t' c = t c)"
proof -
  let ?c = "svc_chain_name h (sname svc)" and ?as = "addresses_of eps svc"
  define t1 where "t1 = t(?c \<mapsto> [])"
  have "t1 ?c = Some []" "t1 KUBE_MARK_MASQ \<noteq> None" using assms(1) by (simp_all add: t1_def)
  note eff = endpoints_effect [OF this sb, of pt "length ?as" 0 acc]
  have "\<forall>r \<in> set (svc_rules_from h pt (sname svc) (length ?as) 0 ?as). acc r" "\<forall>e \<in> set ?as. \<forall>r \<in> set (sep_rules e). acc r"
    using acc p by (simp_all add: backends_accepted_def list_all_iff svc_rules_def)
  from eff [OF this] obtain t2 where
    t2: "plan_steps acc (concat (map (plan_endpoint h pt (sname svc) (length ?as)) (enumerate 0 ?as))) t1 t2"
      "t2 ?c = Some (svc_rules h pt (sname svc) ?as)" "\<forall>e \<in> set ?as. t2 (sep_of h (sname svc) e) = Some (sep_rules e)"
      "\<forall>c. c \<noteq> ?c \<longrightarrow> c \<notin> sep_of h (sname svc) ` set ?as \<longrightarrow> t2 c = t1 c" by (auto simp: svc_rules_def)
  have "plan_steps acc [[''-N'', ?c], [''-F'', ?c]] t t1" by (auto simp: plan_steps_def t1_def fun_eq_iff)
  from plan_steps_append [OF this t2(1)] have "plan_steps acc (service_body h pt eps svc) t t2" by (simp add: service_body_def)
  moreover have "t2 c = t c" if "c \<notin> chains_of h eps svc" for c
    using that t2(4) p by (simp add: chains_of_def t1_def)
  ultimately show ?thesis using t2(2,3) by (intro exI [of _ t2]) (simp add: service_installed_def)
qed

lemma chains_not_services [simp]: "KUBE_SERVICES \<notin> chains_of h eps svc" "KUBE_MARK_MASQ \<notin> chains_of h eps svc"
  by (auto simp: chains_of_def)

lemma service_effect:
  assumes "t KUBE_SERVICES = Some rs" and "t KUBE_MARK_MASQ \<noteq> None" and p: "programmed eps svc"
    and sb: "same_backend h (sname svc) (set (addresses_of eps svc))" and acc: "service_accepted acc h pt eps svc"
  shows "\<exists>t'. plan_steps acc (plan_service h pt eps svc) t t' \<and> t' KUBE_SERVICES = Some (rs @ [vip_rule h svc]) \<and>
     service_installed h pt eps svc t' \<and> (\<forall>c. c \<noteq> KUBE_SERVICES \<longrightarrow> c \<notin> chains_of h eps svc \<longrightarrow> t' c = t c)"
proof -
  obtain t2 where t2: "plan_steps acc (service_body h pt eps svc) t t2" "service_installed h pt eps svc t2"
      "\<forall>c. c \<notin> chains_of h eps svc \<longrightarrow> t2 c = t c"
    using body_effect [of t eps svc h acc pt] assms(2) p sb acc by (auto simp: service_accepted_def)
  define t3 where "t3 = t2(KUBE_SERVICES \<mapsto> rs @ [vip_rule h svc])"
  have svcs: "t2 KUBE_SERVICES = Some rs" using t2(3) assms(1) by simp
  have "targets_ok t2 (vip_rule h svc)" using t2(2) by (simp add: targets_ok_def vip_rule_def service_installed_def)
  then have "plan_steps acc [''-A'' # KUBE_SERVICES # vip_rule h svc] t2 t3"
    using svcs acc p by (intro plan_steps_one) (simp_all add: t3_def service_accepted_def)
  from plan_steps_append [OF t2(1) this] have "plan_steps acc (plan_service h pt eps svc) t t3"
    by (simp add: plan_service_split [OF p])
  moreover have "service_installed h pt eps svc t3"
    using t2(2) service_installed_cong [OF p, of h t3 t2] by (auto simp: t3_def)
  ultimately show ?thesis using t2(3) by (intro exI [of _ t3]) (simp add: t3_def)
qed

subsection \<open>All services\<close>

definition chains_apart :: "(string \<Rightarrow> nat) \<Rightarrow> endpoints list \<Rightarrow> service list \<Rightarrow> bool" where
  "chains_apart h eps svcs \<longleftrightarrow> sorted_wrt (\<lambda>a b. chains_of h eps a \<inter> chains_of h eps b = {}) svcs \<and>
     (\<forall>svc \<in> set svcs. same_backend h (sname svc) (set (addresses_of eps svc)))"

lemma chains_apart_cons:
  "chains_apart h eps (svc # svcs) \<longleftrightarrow> same_backend h (sname svc) (set (addresses_of eps svc)) \<and>
     (\<forall>b \<in> set svcs. chains_of h eps svc \<inter> chains_of h eps b = {}) \<and> chains_apart h eps svcs"
  by (auto simp: chains_apart_def)

lemma services_effect:
  assumes "t KUBE_SERVICES = Some rs" and "t KUBE_MARK_MASQ \<noteq> None" and "chains_apart h eps svcs"
    and "\<forall>svc \<in> set svcs. service_accepted acc h pt eps svc"
  shows "\<exists>t'. plan_steps acc (concat (map (plan_service h pt eps) svcs)) t t' \<and>
     t' KUBE_SERVICES = Some (rs @ map (vip_rule h) (filter (programmed eps) svcs)) \<and>
     (\<forall>svc \<in> set svcs. programmed eps svc \<longrightarrow> service_installed h pt eps svc t') \<and>
     (\<forall>c. c \<noteq> KUBE_SERVICES \<longrightarrow> c \<notin> (\<Union>svc \<in> set svcs. chains_of h eps svc) \<longrightarrow> t' c = t c)"
  using assms
proof (induction svcs arbitrary: t rs)
  case Nil
  then show ?case by simp
next
  case (Cons svc svcs)
  have apart: "chains_apart h eps svcs" "\<forall>svc \<in> set svcs. service_accepted acc h pt eps svc"
    using Cons.prems(3,4) by (auto simp: chains_apart_cons)
  show ?case
  proof (cases "programmed eps svc")
    case False
    with Cons.IH [OF Cons.prems(1,2) apart] show ?thesis by (simp add: plan_service_skipped chains_of_def)
  next
    case True
    obtain t1 where t1: "plan_steps acc (plan_service h pt eps svc) t t1" "t1 KUBE_SERVICES = Some (rs @ [vip_rule h svc])"
        "service_installed h pt eps svc t1" "\<forall>c. c \<noteq> KUBE_SERVICES \<longrightarrow> c \<notin> chains_of h eps svc \<longrightarrow> t1 c = t c"
      using service_effect [of t rs eps svc h acc pt] Cons.prems True by (auto simp: chains_apart_cons)
    then have "t1 KUBE_MARK_MASQ \<noteq> None" using Cons.prems(2) by simp
    from Cons.IH [OF t1(2) this apart] obtain t' where
      t': "plan_steps acc (concat (map (plan_service h pt eps) svcs)) t1 t'"
        "t' KUBE_SERVICES = Some ((rs @ [vip_rule h svc]) @ map (vip_rule h) (filter (programmed eps) svcs))"
        "\<forall>svc \<in> set svcs. programmed eps svc \<longrightarrow> service_installed h pt eps svc t'"
        "\<forall>c. c \<noteq> KUBE_SERVICES \<longrightarrow> c \<notin> (\<Union>svc \<in> set svcs. chains_of h eps svc) \<longrightarrow> t' c = t1 c" by auto
    have "\<forall>c \<in> chains_of h eps svc. t' c = t1 c"
    proof
      fix c assume c: "c \<in> chains_of h eps svc"
      then have "c \<notin> (\<Union>svc \<in> set svcs. chains_of h eps svc)" using Cons.prems(3) by (auto simp: chains_apart_cons)
      moreover have "c \<noteq> KUBE_SERVICES" using c chains_not_services by blast
      ultimately show "t' c = t1 c" using t'(4) by simp
    qed
    then have "service_installed h pt eps svc t'" using service_installed_cong [OF True] t1(3) by blast
    moreover have "plan_steps acc (concat (map (plan_service h pt eps) (svc # svcs))) t t'"
      using plan_steps_append [OF t1(1) t'(1)] by simp
    ultimately show ?thesis using t' t1(4) True by (intro exI [of _ t']) simp
  qed
qed

lemma keys_apart_prefix:
  assumes "keys_apart h eps (xs @ ys)"
  shows "keys_apart h eps xs"
proof -
  have sub: "sname ` set xs \<subseteq> sname ` set (xs @ ys)"
    "(\<Union>svc \<in> set xs. sep_key (sname svc) ` set (addresses_of eps svc)) \<subseteq> (\<Union>svc \<in> set (xs @ ys). sep_key (sname svc) ` set (addresses_of eps svc))"
    by auto
  show ?thesis using assms inj_on_subset [OF _ sub(1), of "short_hash h"] inj_on_subset [OF _ sub(2), of "short_hash h"]
    unfolding keys_apart_def by simp
qed

lemma distinct_map_sorted_wrt: "distinct (map f xs) \<Longrightarrow> sorted_wrt (\<lambda>a b. f a \<noteq> f b) xs"
  by (induction xs) auto

lemma keys_apart_chains:
  assumes k: "keys_apart h eps svcs"
  shows "chains_apart h eps svcs"
proof -
  let ?K = "\<Union>svc \<in> set svcs. sep_key (sname svc) ` set (addresses_of eps svc)"
  have inj: "inj_on (short_hash h) ?K" "inj_on (short_hash h) (sname ` set svcs)" using k by (auto simp: keys_apart_def)
  have keys: "sep_key (sname a) e = sep_key (sname b) e'"
    if "a \<in> set svcs" "b \<in> set svcs" "e \<in> set (addresses_of eps a)" "e' \<in> set (addresses_of eps b)"
      "sep_of h (sname a) e = sep_of h (sname b) e'" for a b e e'
  proof -
    have "short_hash h (sep_key (sname a) e) = short_hash h (sep_key (sname b) e')" using that(5) unfolding sep_of_key by simp
    then show ?thesis by (rule inj_onD [OF inj(1)]) (use that in auto)
  qed
  have names: "sname a = sname b \<and> destination e = destination e'"
    if "a \<in> set svcs" "b \<in> set svcs" "e \<in> set (addresses_of eps a)" "e' \<in> set (addresses_of eps b)"
      "sep_of h (sname a) e = sep_of h (sname b) e'" for a b e e'
    using sep_key_inj [OF _ _ keys [OF that]] that(1,2) k by (auto simp: keys_apart_def)
  have disj: "chains_of h eps a \<inter> chains_of h eps b = {}" if ab: "a \<in> set svcs" "b \<in> set svcs" "sname a \<noteq> sname b" for a b
  proof -
    have "svc_chain_name h (sname a) \<noteq> svc_chain_name h (sname b)"
      using inj_onD [OF inj(2), of "sname a" "sname b"] ab by (auto simp: svc_chain_name_def)
    moreover have "sep_of h (sname a) e \<noteq> sep_of h (sname b) e'"
      if "e \<in> set (addresses_of eps a)" "e' \<in> set (addresses_of eps b)" for e e' using names ab that by blast
    ultimately show ?thesis by (auto simp: chains_of_def)
  qed
  have "distinct (map sname svcs)" using k by (simp add: keys_apart_def)
  then have "sorted_wrt (\<lambda>a b. sname a \<noteq> sname b) svcs" by (rule distinct_map_sorted_wrt)
  then have "sorted_wrt (\<lambda>a b. chains_of h eps a \<inter> chains_of h eps b = {}) svcs"
    by (rule sorted_wrt_mono_rel [rotated]) (use disj in blast)
  moreover have "same_backend h (sname svc) (set (addresses_of eps svc))" if "svc \<in> set svcs" for svc
    unfolding same_backend_def using names [OF that that] by blast
  ultimately show ?thesis by (simp add: chains_apart_def)
qed

subsection \<open>A whole sync\<close>

definition listed :: "'w api \<Rightarrow> 'w \<Rightarrow> service list \<Rightarrow> endpoints list \<Rightarrow> 'w \<Rightarrow> bool" where
  "listed api w services eps w2 \<longleftrightarrow> (\<exists>w1. k8_list_services api w = (w1, Inr services) \<and> k8_list_endpoints api w1 = (w2, Inr eps))"

lemma sync_listed:
  "listed api w services eps w2 \<Longrightarrow> sync api exec h pt w = apply_rules exec (plan_rules h pt services eps) w2"
  by (auto simp: listed_def sync_def)

definition base_chains :: "table \<Rightarrow> bool" where
  "base_chains t \<longleftrightarrow> t KUBE_SERVICES \<noteq> None \<and> t KUBE_MARK_MASQ \<noteq> None"

lemma plan_effect:
  assumes "base_chains t" and "keys_apart h eps services" and "\<forall>svc \<in> set services. service_accepted acc h pt eps svc"
  shows "\<exists>t'. plan_steps acc (plan_rules h pt services eps) t t' \<and>
     t' KUBE_SERVICES = Some (map (vip_rule h) (filter (programmed eps) services)) \<and>
     (\<forall>svc \<in> set services. programmed eps svc \<longrightarrow> service_installed h pt eps svc t') \<and>
     (\<forall>c. c \<noteq> KUBE_SERVICES \<longrightarrow> c \<notin> (\<Union>svc \<in> set services. chains_of h eps svc) \<longrightarrow> t' c = t c)"
proof -
  define t1 where "t1 = t(KUBE_SERVICES \<mapsto> [])"
  have "plan_steps acc [[''-F'', KUBE_SERVICES]] t t1" using assms(1) by (simp add: plan_steps_def t1_def base_chains_def)
  note first = plan_steps_append [OF this]
  have "t1 KUBE_SERVICES = Some []" "t1 KUBE_MARK_MASQ \<noteq> None" using assms(1) by (simp_all add: t1_def base_chains_def)
  from services_effect [OF this keys_apart_chains [OF assms(2)] assms(3)] obtain t' where
    t': "plan_steps acc (concat (map (plan_service h pt eps) services)) t1 t'"
      "t' KUBE_SERVICES = Some ([] @ map (vip_rule h) (filter (programmed eps) services))"
      "\<forall>svc \<in> set services. programmed eps svc \<longrightarrow> service_installed h pt eps svc t'"
      "\<forall>c. c \<noteq> KUBE_SERVICES \<longrightarrow> c \<notin> (\<Union>svc \<in> set services. chains_of h eps svc) \<longrightarrow> t' c = t1 c" by blast
  then show ?thesis using first [OF t'(1)] by (intro exI [of _ t']) (simp add: plan_rules_def t1_def)
qed

context iptables
begin

lemma sync_programs:
  assumes "listed api w services eps w2" and "base_chains (table w2)" and "keys_apart h eps services"
    and "\<forall>svc \<in> set services. service_accepted accepts h pt eps svc"
  shows "\<exists>w'. sync api exec h pt w = (w', Inr ()) \<and>
     table w' KUBE_SERVICES = Some (map (vip_rule h) (filter (programmed eps) services)) \<and>
     (\<forall>svc \<in> set services. programmed eps svc \<longrightarrow> service_installed h pt eps svc (table w')) \<and>
     (\<forall>c. c \<noteq> KUBE_SERVICES \<longrightarrow> c \<notin> (\<Union>svc \<in> set services. chains_of h eps svc) \<longrightarrow> table w' c = table w2 c)"
proof -
  obtain t' where t': "plan_steps accepts (plan_rules h pt services eps) (table w2) t'"
      "t' KUBE_SERVICES = Some (map (vip_rule h) (filter (programmed eps) services))"
      "\<forall>svc \<in> set services. programmed eps svc \<longrightarrow> service_installed h pt eps svc t'"
      "\<forall>c. c \<noteq> KUBE_SERVICES \<longrightarrow> c \<notin> (\<Union>svc \<in> set services. chains_of h eps svc) \<longrightarrow> t' c = table w2 c"
    using plan_effect [OF assms(2,3,4)] by blast
  obtain w' where "apply_rules exec (plan_rules h pt services eps) w2 = (w', Inr ())" "table w' = t'"
    using apply_steps [OF t'(1), of "[]"] by auto
  then show ?thesis using sync_listed [OF assms(1), of exec h pt] t' by (intro exI [of _ w']) simp
qed

lemma sync_refused:
  assumes "listed api w (before @ bad # after) eps w2" and "base_chains (table w2)" and "keys_apart h eps (before @ bad # after)"
    and "\<forall>svc \<in> set before. service_accepted accepts h pt eps svc" and "backends_accepted accepts h pt eps bad"
    and p: "programmed eps bad" and no: "\<not> accepts (vip_rule h bad)"
  shows "\<exists>w' err. sync api exec h pt w = (w', Inl (Px_failed (nat_args (''-A'' # KUBE_SERVICES # vip_rule h bad)) err)) \<and>
     table w' KUBE_SERVICES = Some (map (vip_rule h) (filter (programmed eps) before))"
proof -
  have apart: "keys_apart h eps before" "same_backend h (sname bad) (set (addresses_of eps bad))"
    using keys_apart_prefix [OF assms(3)] keys_apart_chains [OF assms(3)] by (simp_all add: chains_apart_def)
  obtain t1 where t1: "plan_steps accepts (plan_rules h pt before eps) (table w2) t1"
      "t1 KUBE_SERVICES = Some (map (vip_rule h) (filter (programmed eps) before))"
      "\<forall>c. c \<noteq> KUBE_SERVICES \<longrightarrow> c \<notin> (\<Union>svc \<in> set before. chains_of h eps svc) \<longrightarrow> t1 c = table w2 c"
    using plan_effect [OF assms(2) apart(1) assms(4)] by blast
  have "t1 KUBE_MARK_MASQ \<noteq> None" using t1(3) assms(2) by (simp add: base_chains_def)
  then obtain t2 where t2: "plan_steps accepts (service_body h pt eps bad) t1 t2" "\<forall>c. c \<notin> chains_of h eps bad \<longrightarrow> t2 c = t1 c"
    using body_effect [of t1 eps bad h accepts pt] p apart(2) assms(5) by blast
  let ?tail = "concat (map (plan_service h pt eps) after)"
  have "plan_rules h pt (before @ bad # after) eps =
      (plan_rules h pt before eps @ service_body h pt eps bad) @ (''-A'' # KUBE_SERVICES # vip_rule h bad) # ?tail"
    by (simp add: plan_rules_def plan_service_split [OF p])
  moreover obtain w3 where w3: "apply_rules exec ((plan_rules h pt before eps @ service_body h pt eps bad) @
      (''-A'' # KUBE_SERVICES # vip_rule h bad) # ?tail) w2 = apply_rules exec ((''-A'' # KUBE_SERVICES # vip_rule h bad) # ?tail) w3" "table w3 = t2"
    using apply_steps [OF plan_steps_append [OF t1(1) t2(1)]] by blast
  moreover obtain w' err where "apply_rules exec ((''-A'' # KUBE_SERVICES # vip_rule h bad) # ?tail) w3 =
      (w', Inl (Px_failed (nat_args (''-A'' # KUBE_SERVICES # vip_rule h bad)) err))" "table w' = table w3"
    using apply_refused [OF no] by blast
  ultimately show ?thesis using sync_listed [OF assms(1), of exec h pt] t1(2) t2(2)
    by (intro exI [of _ w'] exI [of _ err]) simp
qed

end

subsection \<open>Start-up\<close>

definition mark_rule :: rule where
  "mark_rule = [''-j'', ''MARK'', ''--set-xmark'', ''0x4000/0x4000'']"

definition jump_rule :: rule where
  "jump_rule = [''-j'', KUBE_SERVICES]"

definition masquerade_rule :: rule where
  "masquerade_rule = [''-m'', ''mark'', ''--mark'', ''0x4000/0x4000'', ''-j'', ''MASQUERADE'']"

context iptables
begin

lemma ensure_rule_table:
  assumes "table w c = Some rs" and "accepts r" and "targets_ok (table w) r"
  shows "\<exists>w'. ensure_rule exec (c # r) w = (w', Inr ()) \<and> (table w' = table w \<or> table w' = (table w)(c \<mapsto> rs @ [r]))"
proof -
  obtain w1 ok err where w1: "exec (nat_args (''-C'' # c # r)) w = (w1, Inr (ok, err))" "table w1 = table w"
    using check_rule [of "c # r" w] by blast
  obtain w2 err2 where "exec (nat_args (''-A'' # c # r)) w1 = (w2, Inr (True, err2))" "table w2 = (table w)(c \<mapsto> rs @ [r])"
    using append_rule [of w1 c rs r] w1(2) assms by auto
  with w1 show ?thesis by (cases ok) (simp_all add: ensure_rule_def run_cmd_def)
qed

lemma tolerated_chain:
  "length c \<le> 28 \<Longrightarrow>
     table (run_tolerate exec (nat_args [''-N'', c]) w) = (if table w c = None then (table w)(c \<mapsto> []) else table w)"
  using new_chain [of w c] old_chain [of w c] by (auto simp: run_tolerate_def)

text \<open>Every start appends one more marking rule.\<close>

lemma base_chains_start:
  assumes hooks: "\<forall>c \<in> {''PREROUTING'', ''OUTPUT'', ''POSTROUTING''}. table w c \<noteq> None"
    and acc: "accepts mark_rule" "accepts jump_rule" "accepts masquerade_rule"
  shows "\<exists>w'. ensure_base_chains exec w = (w', Inr ()) \<and> base_chains (table w') \<and>
    table w' KUBE_MARK_MASQ = Some (case_option [] (\<lambda>rs. rs) (table w KUBE_MARK_MASQ) @ [mark_rule])"
proof -
  define w1 where "w1 = run_tolerate exec (nat_args [''-N'', KUBE_MARK_MASQ]) (run_tolerate exec (nat_args [''-N'', KUBE_SERVICES]) w)"
  have names: "length KUBE_SERVICES \<le> 28" "length KUBE_MARK_MASQ \<le> 28" by (simp_all add: KUBE_SERVICES_def KUBE_MARK_MASQ_def)
  have t1: "table w1 KUBE_MARK_MASQ = Some (case_option [] (\<lambda>rs. rs) (table w KUBE_MARK_MASQ))" "table w1 KUBE_SERVICES \<noteq> None"
      "\<forall>c \<in> {''PREROUTING'', ''OUTPUT'', ''POSTROUTING''}. table w1 c \<noteq> None"
    using hooks by (auto simp: w1_def tolerated_chain [OF names(1)] tolerated_chain [OF names(2)])
  define w2 where "w2 = run_tolerate exec (nat_args (''-A'' # KUBE_MARK_MASQ # mark_rule)) w1"
  have "targets_ok (table w1) mark_rule" by (simp add: targets_ok_def mark_rule_def builtin_targets_def)
  then have t2: "table w2 = (table w1)(KUBE_MARK_MASQ \<mapsto> case_option [] (\<lambda>rs. rs) (table w KUBE_MARK_MASQ) @ [mark_rule])"
    using append_rule [OF t1(1) acc(1)] by (auto simp: w2_def run_tolerate_def)
  have plain: "''PREROUTING'' \<noteq> KUBE_MARK_MASQ" "''OUTPUT'' \<noteq> KUBE_MARK_MASQ" "''POSTROUTING'' \<noteq> KUBE_MARK_MASQ"
    "''PREROUTING'' \<noteq> KUBE_SERVICES" "''OUTPUT'' \<noteq> KUBE_SERVICES" "''POSTROUTING'' \<noteq> KUBE_SERVICES"
    by (simp_all add: KUBE_MARK_MASQ_def KUBE_SERVICES_def)
  have jump: "targets_ok t jump_rule" if "t KUBE_SERVICES \<noteq> None" for t using that by (simp add: targets_ok_def jump_rule_def)
  obtain w3 where w3: "ensure_jump exec ''PREROUTING'' w2 = (w3, Inr ())" "\<forall>c. c \<noteq> ''PREROUTING'' \<longrightarrow> table w3 c = table w2 c"
    using ensure_rule_table [of w2 "''PREROUTING''" _ jump_rule] acc(2) jump [of "table w2"] t1 t2 plain
    unfolding ensure_jump_def jump_rule_def by fastforce
  obtain w4 where w4: "ensure_jump exec ''OUTPUT'' w3 = (w4, Inr ())" "\<forall>c. c \<noteq> ''OUTPUT'' \<longrightarrow> table w4 c = table w3 c"
    using ensure_rule_table [of w3 "''OUTPUT''" _ jump_rule] acc(2) jump [of "table w3"] t1 t2 w3(2) plain
    unfolding ensure_jump_def jump_rule_def by fastforce
  have "targets_ok (table w4) masquerade_rule" by (simp add: targets_ok_def masquerade_rule_def builtin_targets_def)
  then obtain w5 where w5: "ensure_masquerade exec w4 = (w5, Inr ())" "\<forall>c. c \<noteq> ''POSTROUTING'' \<longrightarrow> table w5 c = table w4 c"
    using ensure_rule_table [of w4 "''POSTROUTING''" _ masquerade_rule] acc(3) t1 t2 w3(2) w4(2) plain
    unfolding ensure_masquerade_def masquerade_rule_def by fastforce
  have "ensure_base_chains exec w = (w5, Inr ())"
    using w3(1) w4(1) w5(1) by (simp add: ensure_base_chains_def then_cmd_def w2_def w1_def mark_rule_def)
  moreover have "table w5 c = table w2 c" if "c \<in> {KUBE_SERVICES, KUBE_MARK_MASQ}" for c
    using that w3(2) w4(2) w5(2) plain by auto
  ultimately show ?thesis using t1 t2 by (intro exI [of _ w5]) (simp add: base_chains_def)
qed

end

end
