(* ===== verification/Proxy_Properties.thy ===== *)
theory Proxy_Properties
  imports Proxy_Rules Controller_Properties
begin

text \<open>
  The properties of the service proxy: a sync installs exactly the intended rules, a rule the packet filter refuses ends
  the sync, and the traffic of a service is spread evenly over its backends.
\<close>

subsection \<open>Shares of the traffic\<close>

text \<open>
  A rule of the form the plan uses for all backends but the last takes a packet with the printed probability; any other rule
  of a service's chain takes every packet it sees. A taken packet leaves for the chain the rule names last.
\<close>

fun taken :: "(string \<Rightarrow> real) \<Rightarrow> rule \<Rightarrow> real" where
  "taken number [a, b, c, d, e, p, f, g] = (if [a, b, c, d, e] = [''-m'', ''statistic'', ''--mode'', ''random'', ''--probability''] then number p else 1)"
| "taken number _ = 1"

fun chain_share :: "(string \<Rightarrow> real) \<Rightarrow> rule list \<Rightarrow> string \<Rightarrow> real" where
  "chain_share number [] c = 0"
| "chain_share number (r # rs) c = (if last r = c then taken number r else 0) + (1 - taken number r) * chain_share number rs c"

definition prints_fractions :: "(string \<Rightarrow> real) \<Rightarrow> (nat \<Rightarrow> string) \<Rightarrow> real \<Rightarrow> nat \<Rightarrow> bool" where
  "prints_fractions number pt eps n \<longleftrightarrow>
     (\<forall>k. 2 \<le> k \<longrightarrow> k \<le> n \<longrightarrow> 0 \<le> number (pt k) \<and> number (pt k) \<le> 1 \<and> \<bar>number (pt k) - 1 / real k\<bar> \<le> eps)"

lemma balance_rule_simps [simp]:
  "last (balance_rule pt n i sep) = sep" "taken number (balance_rule pt n i sep) = (if i < n - 1 then number (pt (n - i)) else 1)"
  by (simp_all add: balance_rule_def)

lemma absent_share:
  "c \<notin> sep_of h svc ` set es \<Longrightarrow> chain_share number (svc_rules_from h pt svc n k es) c = 0"
  by (induction es arbitrary: k) auto

lemma share_step:
  fixes q s :: real
  assumes "2 \<le> m" and "0 \<le> q" "q \<le> 1" "\<bar>q - 1 / real m\<bar> \<le> err" "\<bar>s - 1 / real (m - 1)\<bar> \<le> real (m - 1) * err"
  shows "\<bar>(1 - q) * s - 1 / real m\<bar> \<le> real m * err"
proof -
  define x where "x = real (m - 1)"
  have pos: "x \<ge> 1" and m: "real m = x + 1" using assms(1) by (simp_all add: x_def of_nat_diff)
  have a: "0 \<le> 1 / x" "1 / x \<le> 1" using pos by simp_all
  have "1 / (x + 1) = (1 - 1 / (x + 1)) * (1 / x)" using pos by (simp add: field_simps)
  moreover have "(1 - q) * s - y = (1 - q) * (s - z) + (y - q) * z" if "y = (1 - y) * z" for y z :: real using that by algebra
  ultimately have "(1 - q) * s - 1 / (x + 1) = (1 - q) * (s - 1 / x) + (1 / (x + 1) - q) * (1 / x)" by blast
  then have "\<bar>(1 - q) * s - 1 / (x + 1)\<bar> \<le> \<bar>(1 - q) * (s - 1 / x)\<bar> + \<bar>(1 / (x + 1) - q) * (1 / x)\<bar>"
    using abs_triangle_ineq by metis
  also have "\<dots> = (1 - q) * \<bar>s - 1 / x\<bar> + \<bar>1 / (x + 1) - q\<bar> * (1 / x)"
    using assms(3) pos by (simp only: abs_mult) simp
  also have "\<dots> \<le> 1 * (x * err) + err * 1"
    using assms(2-5) a unfolding m x_def [symmetric] by (intro add_mono mult_mono) (auto simp: abs_minus_commute)
  also have "\<dots> = (x + 1) * err" by (simp add: algebra_simps)
  finally show ?thesis unfolding m .
qed

lemma even_shares:
  assumes "prints_fractions number pt err n" and "0 \<le> err" and "distinct (map (sep_of h svc) es)" and "ep \<in> set es" and "k + length es = n"
  shows "\<bar>chain_share number (svc_rules_from h pt svc n k es) (sep_of h svc ep) - 1 / real (length es)\<bar> \<le> real (length es) * err"
  using assms(3-5)
proof (induction es arbitrary: k)
  case (Cons e es)
  define q where "q = (if k < n - 1 then number (pt (n - k)) else 1)"
  define s where "s = chain_share number (svc_rules_from h pt svc n (Suc k) es) (sep_of h svc ep)"
  have share: "chain_share number (svc_rules_from h pt svc n k (e # es)) (sep_of h svc ep) =
      (if sep_of h svc e = sep_of h svc ep then q else 0) + (1 - q) * s"
    by (simp add: q_def s_def)
  show ?case
  proof (cases es)
    case Nil
    then have "q = 1" using Cons.prems(3) by (auto simp: q_def)
    then show ?thesis using share Cons.prems(2) Nil assms(2) by simp
  next
    case (Cons e1 es1)
    let ?m = "Suc (length es)"
    have m: "2 \<le> ?m" "?m \<le> n" and "q = number (pt ?m)" using Cons.prems(3) Cons by (auto simp: q_def)
    then have q: "2 \<le> ?m" "0 \<le> q" "q \<le> 1" "\<bar>q - 1 / real ?m\<bar> \<le> err"
      using assms(1) unfolding prints_fractions_def by blast+
    show ?thesis
    proof (cases "ep \<in> set es")
      case True
      then have "sep_of h svc e \<noteq> sep_of h svc ep" using Cons.prems(1) by auto
      moreover have "\<bar>s - 1 / real (?m - 1)\<bar> \<le> real (?m - 1) * err"
        using Cons.IH [of "Suc k"] Cons.prems True by (simp add: s_def)
      ultimately show ?thesis using share share_step [OF q] by simp
    next
      case False
      then have "ep = e" "s = 0" using Cons.prems absent_share [of "sep_of h svc e" h svc es number pt n "Suc k"] by (auto simp: s_def)
      moreover have "err \<le> real ?m * err" using assms(2) by (simp add: mult_le_cancel_right1)
      ultimately show ?thesis using share q(4) by simp
    qed
  qed
qed simp

lemma keys_apart_backends:
  assumes "keys_apart h eps services" and "svc \<in> set services" and "distinct (map destination (addresses_of eps svc))"
  shows "distinct (map (sep_of h (sname svc)) (addresses_of eps svc))"
proof -
  have "same_backend h (sname svc) (set (addresses_of eps svc))"
    using keys_apart_chains [OF assms(1)] assms(2) by (simp add: chains_apart_def)
  then show ?thesis using assms(3) unfolding distinct_map same_backend_def inj_on_def by blast
qed


subsection \<open>A small proxy\<close>

definition proxy_svc :: "string \<Rightarrow> string \<Rightarrow> service" where
  "proxy_svc name ip = demo_svc\<lparr>svc_metadata := demo_meta name, svc_spec := (svc_spec demo_svc)\<lparr>sv_cluster_ip := Some ip\<rparr>\<rparr>"

definition proxy_eps :: "string \<Rightarrow> endpoints" where
  "proxy_eps name = \<lparr>ep_api_version = ''v1'', ep_kind = ''Endpoints'', ep_metadata = demo_meta name,
     ep_addresses = [\<lparr>ea_ip = ''10.244.0.2'', ea_port = 8080\<rparr>, \<lparr>ea_ip = ''10.244.0.13'', ea_port = 8080\<rparr>]\<rparr>"

definition proxy_api :: "service list \<Rightarrow> endpoints list \<Rightarrow> table api" where
  "proxy_api services eps =
     (client_api \<lparr>cn_base_url = ''http://one'', cn_http = (\<lambda>_ w. (w, None)), cn_kc = demo_kc demo_status_codec\<rparr>)
       \<lparr>k8_list_services := \<lambda>w. (w, Inr services), k8_list_endpoints := \<lambda>w. (w, Inr eps)\<rparr>"

definition proxy_table :: table where
  "proxy_table = [KUBE_SERVICES \<mapsto> [], KUBE_MARK_MASQ \<mapsto> []]"

text \<open>Options with an argument that is not an address are refused.\<close>

definition proxy_accepts :: "rule \<Rightarrow> bool" where
  "proxy_accepts r \<longleftrightarrow> ''none'' \<notin> set r"

definition proxy_print :: "nat \<Rightarrow> string" where
  "proxy_print k = (if k = 2 then ''0.50000'' else if k = 3 then ''0.33333'' else ''0.00000'')"

lemma proxy_listed: "listed (proxy_api services eps) t services eps t"
  by (simp add: listed_def proxy_api_def)

lemma proxy_base: "base_chains proxy_table"
  by (simp add: base_chains_def proxy_table_def)

definition proxy_hash :: "string \<Rightarrow> nat" where
  "proxy_hash s = length s mod 16"

lemma hex_digit_inj: "a < 16 \<Longrightarrow> b < 16 \<Longrightarrow> hex_digit a = hex_digit b \<Longrightarrow> a = b"
  by (auto simp: hex_digit_def split: if_splits dest: arg_cong [where f = "of_char :: char \<Rightarrow> nat"])

lemma hex_digits_last: "last (hex_digits (Suc w) n) = hex_digit (n mod 16)"
  by simp

lemma proxy_hash_inj: "inj_on proxy_hash A \<Longrightarrow> inj_on (short_hash proxy_hash) A"
proof (rule inj_onI)
  fix x y assume A: "inj_on proxy_hash A" "x \<in> A" "y \<in> A" "short_hash proxy_hash x = short_hash proxy_hash y"
  then have "last (hex_digits (Suc 15) (proxy_hash x)) = last (hex_digits (Suc 15) (proxy_hash y))" by (simp add: short_hash_def)
  then have "hex_digit (length x mod 16) = hex_digit (length y mod 16)" unfolding hex_digits_last by (simp add: proxy_hash_def)
  from hex_digit_inj [OF _ _ this] have "proxy_hash x = proxy_hash y" by (simp add: proxy_hash_def)
  then show "x = y" using A by (simp add: inj_on_def)
qed

lemma proxy_port: "length (show_nat 8080) = 4"
  by (simp add: show_nat_def dec_digits.simps [of 8080] dec_digits.simps [of 808] dec_digits.simps [of 80] dec_digits.simps [of 8])

lemma proxy_addresses:
  "addresses_of [proxy_eps ''web'', proxy_eps ''cache''] (proxy_svc ''web'' ip) = ep_addresses (proxy_eps ''web'')"
  "addresses_of [proxy_eps ''web'', proxy_eps ''cache''] (proxy_svc ''cache'' ip) = ep_addresses (proxy_eps ''web'')"
  by (simp_all add: addresses_of_def proxy_eps_def proxy_svc_def demo_meta_def)

lemma proxy_names: "sname (proxy_svc name ip) = name"
  by (simp add: proxy_svc_def demo_meta_def)

lemma proxy_apart: "keys_apart proxy_hash [proxy_eps ''web'', proxy_eps ''cache''] [proxy_svc ''web'' ip, proxy_svc ''cache'' ip']"
proof -
  have keys: "inj_on proxy_hash (\<Union>svc \<in> set [proxy_svc ''web'' ip, proxy_svc ''cache'' ip'].
      sep_key (sname svc) ` set (addresses_of [proxy_eps ''web'', proxy_eps ''cache''] svc))"
    by (simp add: proxy_addresses proxy_names) (simp add: proxy_eps_def sep_key_def destination_def proxy_port proxy_hash_def)
  have names: "inj_on proxy_hash (sname ` set [proxy_svc ''web'' ip, proxy_svc ''cache'' ip'])"
    by (simp add: proxy_names proxy_hash_def)
  show ?thesis unfolding keys_apart_def
    by (intro conjI proxy_hash_inj names keys) (simp_all add: proxy_names)
qed

lemma proxy_programmed:
  "programmed [proxy_eps ''web'', proxy_eps ''cache''] (proxy_svc ''web'' ip)"
  "programmed [proxy_eps ''web'', proxy_eps ''cache''] (proxy_svc ''cache'' ip)"
  by (simp_all add: programmed_def proxy_addresses) (simp_all add: proxy_svc_def proxy_eps_def)

lemma proxy_backends_accepted:
  "backends_accepted proxy_accepts proxy_hash proxy_print [proxy_eps ''web'', proxy_eps ''cache''] (proxy_svc ''web'' ip)"
  "backends_accepted proxy_accepts proxy_hash proxy_print [proxy_eps ''web'', proxy_eps ''cache''] (proxy_svc ''cache'' ip)"
  by (simp_all add: backends_accepted_def proxy_addresses)
    (simp_all add: proxy_eps_def svc_rules_def sep_rules_def balance_rule_def proxy_accepts_def proxy_print_def destination_def
      KUBE_MARK_MASQ_def sep_chain_name_def)

lemma proxy_accepted:
  "service_accepted proxy_accepts proxy_hash proxy_print [proxy_eps ''web'', proxy_eps ''cache''] (proxy_svc ''web'' ''10.96.0.1'')"
  "service_accepted proxy_accepts proxy_hash proxy_print [proxy_eps ''web'', proxy_eps ''cache''] (proxy_svc ''cache'' ''10.96.0.2'')"
  by (simp_all add: service_accepted_def proxy_backends_accepted)
    (simp_all add: proxy_accepts_def vip_rule_def proxy_svc_def demo_svc_def svc_chain_name_def show_nat_def
      dec_digits.simps [of 80] dec_digits.simps [of 8])

subsection \<open>Properties\<close>

text \<open>
  Claim C32. When the listings succeed and every rule of the intended plan is one the packet filter accepts, a sync from a table with the two
  base chains succeeds. Afterwards the entry chain sends the address of every service that has a cluster IP and a backend to that
  service's chain, and nothing else; the chain of each such service holds its balancing rules and the chain of each backend
  marks and translates to that backend; all other chains are as before. No two keys in use may hash alike.
\<close>
theorem proxy_programs_services:
  assumes "iptables exec table accepts" and "listed api w services eps w2" and "base_chains (table w2)" and "keys_apart h eps services"
    and "\<forall>svc \<in> set services. service_accepted accepts h pt eps svc"
  shows "\<exists>w'. sync api exec h pt w = (w', Inr ()) \<and>
     table w' KUBE_SERVICES = Some (map (vip_rule h) (filter (programmed eps) services)) \<and>
     (\<forall>svc \<in> set services. programmed eps svc \<longrightarrow> service_installed h pt eps svc (table w')) \<and>
     (\<forall>c. c \<noteq> KUBE_SERVICES \<longrightarrow> c \<notin> (\<Union>svc \<in> set services. chains_of h eps svc) \<longrightarrow> table w' c = table w2 c)"
  using assms(1) by (rule iptables.sync_programs) (rule assms(2-5))+

theorem proxy_programs_services_witness:
  "\<exists>w'. sync (proxy_api [proxy_svc ''web'' ''10.96.0.1'', proxy_svc ''cache'' ''10.96.0.2''] [proxy_eps ''web'', proxy_eps ''cache''])
       (run_table proxy_accepts) proxy_hash proxy_print proxy_table = (w', Inr ()) \<and>
     w' KUBE_SERVICES = Some [vip_rule proxy_hash (proxy_svc ''web'' ''10.96.0.1''), vip_rule proxy_hash (proxy_svc ''cache'' ''10.96.0.2'')]"
proof -
  let ?ss = "[proxy_svc ''web'' ''10.96.0.1'', proxy_svc ''cache'' ''10.96.0.2'']"
  have "\<forall>svc \<in> set ?ss. service_accepted proxy_accepts proxy_hash proxy_print [proxy_eps ''web'', proxy_eps ''cache''] svc"
    using proxy_accepted by simp
  from proxy_programs_services [where table = "\<lambda>t. t", OF run.iptables_axioms proxy_listed proxy_base proxy_apart this] show ?thesis
    by (auto simp: proxy_programmed)
qed

text \<open>
  Claim C33. A service whose entry rule the packet filter refuses, for instance because the cluster IP its creator gave is not an address,
  ends the sync with the failed command: the services listed before it are entered, the entry chain, which the sync flushed first,
  holds nothing for it or for any service listed after it.
\<close>
theorem proxy_stops_at_refused_rule:
  assumes "iptables exec table accepts" and "listed api w (before @ bad # after) eps w2" and "base_chains (table w2)"
    and "keys_apart h eps (before @ bad # after)" and "\<forall>svc \<in> set before. service_accepted accepts h pt eps svc"
    and "backends_accepted accepts h pt eps bad" and "programmed eps bad" and "\<not> accepts (vip_rule h bad)"
  shows "\<exists>w' err. sync api exec h pt w = (w', Inl (Px_failed (nat_args (''-A'' # KUBE_SERVICES # vip_rule h bad)) err)) \<and>
     table w' KUBE_SERVICES = Some (map (vip_rule h) (filter (programmed eps) before))"
  using assms(1) by (rule iptables.sync_refused) (rule assms(2-8))+

theorem proxy_stops_at_refused_rule_witness:
  "\<exists>w' err. sync (proxy_api [proxy_svc ''web'' ''none'', proxy_svc ''cache'' ''10.96.0.2''] [proxy_eps ''web'', proxy_eps ''cache''])
       (run_table proxy_accepts) proxy_hash proxy_print proxy_table =
       (w', Inl (Px_failed (nat_args (''-A'' # KUBE_SERVICES # vip_rule proxy_hash (proxy_svc ''web'' ''none''))) err)) \<and>
     w' KUBE_SERVICES = Some []"
proof -
  have "\<not> proxy_accepts (vip_rule proxy_hash (proxy_svc ''web'' ''none''))"
    by (simp add: proxy_accepts_def vip_rule_def proxy_svc_def)
  moreover have "keys_apart proxy_hash [proxy_eps ''web'', proxy_eps ''cache'']
      ([] @ proxy_svc ''web'' ''none'' # [proxy_svc ''cache'' ''10.96.0.2''])" using proxy_apart by simp
  ultimately show ?thesis
    using proxy_stops_at_refused_rule [where table = "\<lambda>t. t" and before = "[]" and h = proxy_hash and pt = proxy_print and
      eps = "[proxy_eps ''web'', proxy_eps ''cache'']" and accepts = proxy_accepts, OF run.iptables_axioms proxy_listed proxy_base,
      of "proxy_svc ''web'' ''none''" "[proxy_svc ''cache'' ''10.96.0.2'']"] proxy_backends_accepted(1) proxy_programmed(1)
    by simp
qed

text \<open>
  Claim C34. After a successful sync every backend of a service with \<open>n\<close> different backends gets its fair share of the traffic to the service: when the
  printed probabilities are off by at most \<open>err\<close>, the share is within \<open>n * err\<close> of \<open>1 / n\<close>.
\<close>
theorem backends_share_traffic:
  assumes "iptables exec table accepts" and "listed api w services eps w2" and "base_chains (table w2)" and "keys_apart h eps services"
    and "\<forall>svc \<in> set services. service_accepted accepts h pt eps svc"
    and "svc \<in> set services" and "programmed eps svc" and "distinct (map destination (addresses_of eps svc))"
    and "prints_fractions number pt err (length (addresses_of eps svc))" and "0 \<le> err" and "ep \<in> set (addresses_of eps svc)"
  shows "\<exists>w' rules. sync api exec h pt w = (w', Inr ()) \<and> table w' (svc_chain_name h (sname svc)) = Some rules \<and>
     \<bar>chain_share number rules (sep_of h (sname svc) ep) - 1 / real (length (addresses_of eps svc))\<bar> \<le> real (length (addresses_of eps svc)) * err"
proof -
  obtain w' where w': "sync api exec h pt w = (w', Inr ())" "service_installed h pt eps svc (table w')"
    using iptables.sync_programs [OF assms(1-5)] assms(6,7) by blast
  have "\<bar>chain_share number (svc_rules h pt (sname svc) (addresses_of eps svc)) (sep_of h (sname svc) ep) - 1 / real (length (addresses_of eps svc))\<bar>
      \<le> real (length (addresses_of eps svc)) * err"
    unfolding svc_rules_def by (rule even_shares [OF assms(9,10) keys_apart_backends [OF assms(4,6,8)] assms(11)]) simp
  with w' show ?thesis unfolding service_installed_def by blast
qed

definition proxy_number :: "string \<Rightarrow> real" where
  "proxy_number s = (if s = ''0.50000'' then 1 / 2 else if s = ''0.33333'' then 33333 / 100000 else 0)"

theorem backends_share_traffic_witness:
  "\<exists>w' rules. sync (proxy_api [proxy_svc ''web'' ''10.96.0.1'', proxy_svc ''cache'' ''10.96.0.2''] [proxy_eps ''web'', proxy_eps ''cache''])
       (run_table proxy_accepts) proxy_hash proxy_print proxy_table = (w', Inr ()) \<and> w' (svc_chain_name proxy_hash ''web'') = Some rules \<and>
     \<bar>chain_share proxy_number rules (sep_chain_name proxy_hash ''web'' ''10.244.0.13'' 8080) - 1 / 2\<bar> \<le> 2 * (1 / 100000)"
proof -
  let ?ss = "[proxy_svc ''web'' ''10.96.0.1'', proxy_svc ''cache'' ''10.96.0.2'']" and ?es = "[proxy_eps ''web'', proxy_eps ''cache'']"
  let ?ep = "\<lparr>ea_ip = ''10.244.0.13'', ea_port = 8080\<rparr>"
  have acc: "\<forall>svc \<in> set ?ss. service_accepted proxy_accepts proxy_hash proxy_print ?es svc" using proxy_accepted by simp
  have n: "length (addresses_of ?es (proxy_svc ''web'' ''10.96.0.1'')) = 2" by (simp add: proxy_addresses) (simp add: proxy_eps_def)
  have "prints_fractions proxy_number proxy_print (1 / 100000) 2"
    by (auto simp: prints_fractions_def proxy_number_def proxy_print_def le_Suc_eq numeral_2_eq_2)
  moreover have "distinct (map destination (addresses_of ?es (proxy_svc ''web'' ''10.96.0.1'')))"
    by (simp add: proxy_addresses) (simp add: proxy_eps_def destination_def)
  moreover have "?ep \<in> set (addresses_of ?es (proxy_svc ''web'' ''10.96.0.1''))"
    by (simp add: proxy_addresses) (simp add: proxy_eps_def)
  ultimately show ?thesis
    using backends_share_traffic [where table = "\<lambda>t. t", OF run.iptables_axioms proxy_listed proxy_base proxy_apart acc, of "proxy_svc ''web'' ''10.96.0.1''" proxy_number "1 / 100000" ?ep]
      proxy_programmed(1) by (simp add: n proxy_names)
qed

end
