(* ===== verification/Text_Format.thy ===== *)
theory Text_Format
  imports Text_Ops
begin

text \<open>
  Formatting of lines as the command line tools print them: \<open>join\<close> of string slices and left-aligned columns
  (\<open>{:<20}\<close> pads with spaces to a width and never cuts).
\<close>

fun join :: "string \<Rightarrow> string list \<Rightarrow> string" where
  "join sep [] = []"
| "join sep [x] = x"
| "join sep (x # y # ys) = x @ sep @ join sep (y # ys)"

definition pad :: "nat \<Rightarrow> string \<Rightarrow> string" where
  "pad width s = s @ replicate (width - length s) (CHR '' '')"

definition newline :: string where
  "newline = [char_of (10 :: nat)]"

lemma join_Cons: "join sep (x # ys) = (if ys = [] then x else x @ sep @ join sep ys)"
  by (cases ys) simp_all

text \<open>Splitting at the separator takes a joined list apart again.\<close>

lemma split_join:
  assumes "xs \<noteq> []" and "\<And>x. x \<in> set xs \<Longrightarrow> c \<notin> set x"
  shows "split_on c (join [c] xs) = xs"
  using assms
proof (induction xs)
  case (Cons x xs)
  then show ?case using split_on_append [of c x "join [c] xs"] by (auto simp: join_Cons split_on_single)
qed simp

lemma join_split: "join [c] (split_on c s) = s"
proof (induction s)
  case (Cons x s)
  then show ?case by (cases "split_on c s") (auto simp: join_Cons split: if_splits)
qed simp

lemma split_on_inj: "split_on c s = split_on c t \<Longrightarrow> s = t"
  using join_split by metis

lemma length_pad: "length (pad width s) = max width (length s)"
  by (simp add: pad_def)

end
