(* ===== verification/Raft_Transport.thy ===== *)
theory Raft_Transport
  imports Http_Server Raft_Node Text_Format
begin

text \<open>
  How messages of the log travel between replicas: the transport of \<^verbatim>\<open>src/raft/transport.rs\<close> posts them to the
  peer's server, whose route \<^verbatim>\<open>/raft/message\<close> (\<^verbatim>\<open>src/bin/apiserver.rs\<close>) puts them into the inbox of the shell; and how a
  replica is started from its command line (\<^verbatim>\<open>src/bin/apiserver.rs\<close>, \<open>spawn_raft\<close> of \<^verbatim>\<open>src/apiserver/raft_glue.rs\<close>). The
  JSON library and the HTTP library's own answers are parameters; ids are decimal numbers, so nothing in a query needs an
  escape.
\<close>

subsection \<open>Sending\<close>

record http_transport =
  ht_self_id :: node_id
  ht_peers :: "node_id \<rightharpoonup> string"

definition http_transport_new :: "node_id \<Rightarrow> (node_id \<rightharpoonup> string) \<Rightarrow> http_transport" where
  "http_transport_new self_id peers = \<lparr>ht_self_id = self_id, ht_peers = peers\<rparr>"

definition message_url :: "string \<Rightarrow> node_id \<Rightarrow> string" where
  "message_url base self_id = base @ ''/raft/message?from='' @ show_nat self_id"

text \<open>
  The request that the spawned task sends, if any: an unknown peer is dropped silently, and so is a body that cannot be
  encoded.
\<close>

definition http_send :: "(message \<Rightarrow> io_error + bytes) \<Rightarrow> http_transport \<Rightarrow> node_id \<Rightarrow> message \<Rightarrow> http_request list" where
  "http_send enc t to msg =
     (case ht_peers t to of
        None \<Rightarrow> []
      | Some base \<Rightarrow>
          (case enc msg of
             Inl _ \<Rightarrow> []
           | Inr b \<Rightarrow> [\<lparr>hq_method = POST, hq_url = message_url base (ht_self_id t), hq_body = Some b\<rparr>]))"

subsection \<open>Receiving\<close>

definition RAFT_MESSAGE_PATH :: string where
  "RAFT_MESSAGE_PATH = ''/raft/message''"

definition INBOX_CAPACITY :: nat where
  "INBOX_CAPACITY = 1024"

definition PROPOSAL_CAPACITY :: nat where
  "PROPOSAL_CAPACITY = 64"

text \<open>The query of the route: the field must be there once and be a number of 64 bits.\<close>

definition from_param :: "string \<Rightarrow> node_id option" where
  "from_param target =
     (case filter (\<lambda>kv. fst kv = ''from'') (snd (target_parts target)) of [(_, v)] \<Rightarrow> parse_u64 v | _ \<Rightarrow> None)"

text \<open>Route and extractors; \<open>None\<close> is an answer of the HTTP library that never reaches the handler.\<close>

definition read_message :: "(bytes \<Rightarrow> io_error + message) \<Rightarrow> string \<Rightarrow> http_request \<Rightarrow> (node_id \<times> message) option" where
  "read_message dec target rq =
     (if hq_method rq = POST \<and> fst (target_parts target) = split_on (CHR ''/'') RAFT_MESSAGE_PATH
      then (case from_param target of
              None \<Rightarrow> None
            | Some sender \<Rightarrow>
                (case hq_body rq of
                   None \<Rightarrow> None
                 | Some b \<Rightarrow> (case dec b of Inl _ \<Rightarrow> None | Inr m \<Rightarrow> Some (sender, m))))
      else None)"

definition raft_message :: "nat \<Rightarrow> node_id \<Rightarrow> message \<Rightarrow> (node_id \<times> message) list \<Rightarrow> (node_id \<times> message) list \<times> nat" where
  "raft_message capacity sender msg inbox = (deliver capacity inbox sender msg, 200)"

text \<open>A request reaches the replica whose base URL it starts with.\<close>

definition http_receive :: "(bytes \<Rightarrow> io_error + message) \<Rightarrow> (node_id \<Rightarrow> string) \<Rightarrow> node_id \<Rightarrow> http_request \<Rightarrow> (node_id \<times> message) option" where
  "http_receive dec base j rq =
     (case strip_prefix (base j) (hq_url rq) of None \<Rightarrow> None | Some target \<Rightarrow> read_message dec target rq)"

subsection \<open>Starting a replica\<close>

datatype peers_error =
    Bad_entry string
  | Bad_id string

fun collect_peers :: "string list \<Rightarrow> (node_id \<rightharpoonup> string) \<Rightarrow> peers_error + (node_id \<rightharpoonup> string)" where
  "collect_peers [] m = Inr m"
| "collect_peers (part # parts) m =
     (case split_once (CHR ''='') part of
        None \<Rightarrow> Inl (Bad_entry part)
      | Some (i, url) \<Rightarrow> (case parse_u64 i of None \<Rightarrow> Inl (Bad_id i) | Some n \<Rightarrow> collect_peers parts (m(n \<mapsto> url))))"

definition parse_peers :: "string \<Rightarrow> peers_error + (node_id \<rightharpoonup> string)" where
  "parse_peers s = collect_peers (filter (\<lambda>p. p \<noteq> []) (split_on (CHR '','') s)) Map.empty"

text \<open>
  A running replica: the shell with its transport (any type, as in the source) and the two bounded channels that feed it.
\<close>

record ('s, 't) raft_host =
  rh_shell :: "'s shell"
  rh_transport :: 't
  rh_inbox :: "(node_id \<times> message) list"
  rh_proposals :: "bytes list"

definition spawn_raft :: "'s sled \<Rightarrow> codec \<Rightarrow> node_id \<Rightarrow> node_id list \<Rightarrow> (node_id \<rightharpoonup> string) \<Rightarrow> 's \<Rightarrow> 64 word \<Rightarrow>
    io_error + ('s, http_transport) raft_host \<times> proposer" where
  "spawn_raft sl c nid peers peer_apis storage seed =
     (case shell_new sl c nid peers storage None True seed of
        Inl e \<Rightarrow> Inl e
      | Inr sh \<Rightarrow>
          Inr (\<lparr>rh_shell = sh, rh_transport = http_transport_new nid peer_apis, rh_inbox = [], rh_proposals = []\<rparr>,
               \<lparr>pr_id = nid, pr_leader = None, pr_peer_apis = peer_apis\<rparr>))"

datatype start_error =
    Start_peers peers_error
  | Start_raft io_error

text \<open>
  The raft branch of the server's \<open>main\<close>: \<open>key_order\<close> is the order in which the hash map yields its keys, \<open>nanos\<close> the
  sub-second part of the clock.
\<close>

definition start_raft :: "'s sled \<Rightarrow> codec \<Rightarrow> ((node_id \<rightharpoonup> string) \<Rightarrow> node_id list) \<Rightarrow> node_id \<Rightarrow> string \<Rightarrow> 's \<Rightarrow> 64 word \<Rightarrow>
    start_error + ('s, http_transport) raft_host \<times> proposer" where
  "start_raft sl c key_order raft_id peers_arg storage nanos =
     (case parse_peers peers_arg of
        Inl e \<Rightarrow> Inl (Start_peers e)
      | Inr peer_apis \<Rightarrow>
          (case spawn_raft sl c raft_id (key_order peer_apis) peer_apis storage (nanos OR 1) of
             Inl e \<Rightarrow> Inl (Start_raft e)
           | Inr r \<Rightarrow> Inr r))"

subsection \<open>Round trips\<close>

definition peers_text :: "(node_id \<times> string) list \<Rightarrow> string" where
  "peers_text ps = join '','' (map (\<lambda>(i, url). show_nat i @ ''='' @ url) ps)"

lemma show_nat_plain: "CHR '','' \<notin> set (show_nat n)" "CHR ''='' \<notin> set (show_nat n)" "CHR ''&'' \<notin> set (show_nat n)"
  "CHR ''?'' \<notin> set (show_nat n)"
  using show_nat_digits [of "CHR '',''" n] show_nat_digits [of "CHR ''=''" n] show_nat_digits [of "CHR ''&''" n]
    show_nat_digits [of "CHR ''?''" n] by auto

lemma collect_peers_map:
  assumes "\<forall>(i, url) \<in> set ps. i \<le> u64_max"
  shows "collect_peers (map (\<lambda>(i, url). show_nat i @ ''='' @ url) ps) m = Inr (m ++ map_of (rev ps))"
  using assms
proof (induction ps arbitrary: m)
  case (Cons p ps)
  obtain i url where p: "p = (i, url)" by force
  have "split_once (CHR ''='') (show_nat i @ CHR ''='' # url) = Some (show_nat i, url)"
    by (rule split_once_append) (rule show_nat_plain)
  then show ?case using Cons p parse_show [of i u64_max] by (simp add: parse_u64_def)
qed simp

lemma parse_peers_text:
  assumes "distinct (map fst ps)" and "\<forall>(i, url) \<in> set ps. i \<le> u64_max \<and> CHR '','' \<notin> set url"
  shows "parse_peers (peers_text ps) = Inr (map_of ps)"
proof (cases ps)
  case Nil
  then show ?thesis by (simp add: parse_peers_def peers_text_def)
next
  case (Cons p rest)
  let ?parts = "map (\<lambda>(i, url). show_nat i @ ''='' @ url) ps"
  have parts: "CHR '','' \<notin> set x" "x \<noteq> []" if "x \<in> set ?parts" for x
    using that assms(2) show_nat_plain(1) by auto
  have "split_on (CHR '','') (peers_text ps) = ?parts"
    unfolding peers_text_def by (rule split_join) (use Cons parts in auto)
  then have "parse_peers (peers_text ps) = collect_peers ?parts Map.empty"
    using parts(2) by (simp add: parse_peers_def filter_True)
  also have "\<dots> = Inr (map_of (rev ps))" using assms(2) by (subst collect_peers_map) auto
  also have "map_of (rev ps) = map_of ps"
    using assms(1) by (intro map_of_eqI) (auto simp: rev_map [symmetric] distinct_map)
  finally show ?thesis .
qed

text \<open>What one replica posts, the addressed replica reads as a message of the sender, and no other replica does.\<close>

lemma message_target:
  assumes "i \<le> u64_max"
  shows "fst (target_parts (''/raft/message?from='' @ show_nat i)) = split_on (CHR ''/'') RAFT_MESSAGE_PATH"
    and "from_param (''/raft/message?from='' @ show_nat i) = Some i"
proof -
  have a: "split_once (CHR ''?'') (''/raft/message'' @ CHR ''?'' # ''from='' @ show_nat i) = Some (''/raft/message'', ''from='' @ show_nat i)"
    by (rule split_once_append) simp
  have b: "split_on (CHR ''&'') (''from='' @ show_nat i) = [''from='' @ show_nat i]"
    using show_nat_plain(3) by (intro split_on_single) simp
  have d: "split_once (CHR ''='') (''from'' @ CHR ''='' # show_nat i) = Some (''from'', show_nat i)"
    by (rule split_once_append) simp
  have parts: "target_parts (''/raft/message?from='' @ show_nat i) = (split_on (CHR ''/'') ''/raft/message'', [(''from'', show_nat i)])"
    using a b d by (simp add: target_parts_def map_filter_simps)
  show "fst (target_parts (''/raft/message?from='' @ show_nat i)) = split_on (CHR ''/'') RAFT_MESSAGE_PATH"
    unfolding parts by (simp add: RAFT_MESSAGE_PATH_def)
  show "from_param (''/raft/message?from='' @ show_nat i) = Some i"
    unfolding from_param_def parts using parse_show [OF assms] by (simp add: parse_u64_def)
qed

lemma message_path:
  assumes "fst (target_parts target) = split_on (CHR ''/'') RAFT_MESSAGE_PATH"
  shows "target = RAFT_MESSAGE_PATH \<or> (\<exists>q. target = RAFT_MESSAGE_PATH @ CHR ''?'' # q)"
proof (cases "split_once (CHR ''?'') target")
  case None
  then show ?thesis using assms split_on_inj by (simp add: target_parts_def)
next
  case (Some pq)
  then have "fst pq = RAFT_MESSAGE_PATH" using assms split_on_inj by (cases pq) (simp add: target_parts_def)
  then show ?thesis using Some split_once_Some [of _ target "fst pq" "snd pq"] by (cases pq) auto
qed

lemma received_is_sent:
  assumes base: "inj_on base N" "\<And>j. j \<in> N \<Longrightarrow> CHR ''?'' \<notin> set (base j)" and "to \<in> N" "j \<in> N" and i: "i \<le> u64_max"
    and rec: "http_receive dec base j \<lparr>hq_method = POST, hq_url = message_url (base to) i, hq_body = Some b\<rparr> = Some (sender, m)"
  shows "j = to \<and> sender = i \<and> dec b = Inr m"
proof -
  let ?rest = "''from='' @ show_nat i"
  have url: "message_url (base to) i = (base to @ RAFT_MESSAGE_PATH) @ CHR ''?'' # ?rest"
    by (simp add: message_url_def RAFT_MESSAGE_PATH_def)
  obtain target where t: "message_url (base to) i = base j @ target" and r: "read_message dec target
      \<lparr>hq_method = POST, hq_url = message_url (base to) i, hq_body = Some b\<rparr> = Some (sender, m)"
    using rec by (auto simp: http_receive_def strip_prefix_Some split: option.splits)
  have noq: "CHR ''?'' \<notin> set (base to @ RAFT_MESSAGE_PATH)" "CHR ''?'' \<notin> set (base j @ RAFT_MESSAGE_PATH)"
    using base(2) assms(3,4) by (simp_all add: RAFT_MESSAGE_PATH_def)
  have path: "fst (target_parts target) = split_on (CHR ''/'') RAFT_MESSAGE_PATH"
    using r by (simp add: read_message_def split: if_splits)
  from message_path [OF this] have "base j = base to \<and> target = RAFT_MESSAGE_PATH @ CHR ''?'' # ?rest"
  proof
    assume "target = RAFT_MESSAGE_PATH"
    then have "CHR ''?'' \<in> set (base j @ RAFT_MESSAGE_PATH)" using t url by (metis in_set_conv_decomp)
    then show ?thesis using noq by blast
  next
    assume "\<exists>q. target = RAFT_MESSAGE_PATH @ CHR ''?'' # q"
    then obtain q where q: "target = RAFT_MESSAGE_PATH @ CHR ''?'' # q" by blast
    have "split_once (CHR ''?'') (message_url (base to) i) = Some (base to @ RAFT_MESSAGE_PATH, ?rest)"
      unfolding url by (rule split_once_append [OF noq(1)])
    moreover have "split_once (CHR ''?'') (message_url (base to) i) = Some (base j @ RAFT_MESSAGE_PATH, q)"
      unfolding t q using split_once_append [OF noq(2)] by simp
    ultimately show ?thesis using q by simp
  qed
  then have tgt: "target = ''/raft/message?from='' @ show_nat i" and "base j = base to" by (simp_all add: RAFT_MESSAGE_PATH_def)
  have "from_param target = Some i" unfolding tgt by (rule message_target(2) [OF i])
  then show ?thesis using r base(1) assms(3,4) \<open>base j = base to\<close>
    by (cases "dec b") (simp_all add: read_message_def inj_on_eq_iff split: if_splits)
qed

lemma sent_is_received:
  assumes "i \<le> u64_max" and "ht_peers t to = Some (base to)" and "enc m = Inr b" and "dec b = Inr m"
  shows "\<exists>rq. http_send enc (t\<lparr>ht_self_id := i\<rparr>) to m = [rq] \<and> http_receive dec base to rq = Some (i, m)"
  using message_target [OF assms(1)] assms(2-4)
  by (simp add: http_send_def http_receive_def message_url_def read_message_def)

end
