(* ===== verification/Raft_Deployment.thy ===== *)
theory Raft_Deployment
  imports Raft_Transport Raft_Safety
begin

text \<open>
  A deployed cluster: replicas of \<^verbatim>\<open>src/raft/node.rs\<close> with their real storage (\<^verbatim>\<open>src/raft/storage.rs\<close> over the tree), their
  bounded channels and a transport, next to the packets in flight. The shell is generic in its transport, as in the
  source; what the safety of the log needs of one is the locale \<open>raft_transport\<close>, interpreted on the HTTP transport and the
  route \<^verbatim>\<open>/raft/message\<close>. Every step of a deployment is a step of the cluster of theory \<^verbatim>\<open>Raft_Cluster\<close>, or none, so its
  safety theorems hold for what is deployed.
\<close>

subsection \<open>The run loop\<close>

text \<open>The biased choice of \<open>select!\<close>: a due tick first, then the inbox, then the proposals.\<close>

definition pick_event :: "bool \<Rightarrow> (node_id \<times> message) list \<Rightarrow> bytes list \<Rightarrow>
    (event \<times> (node_id \<times> message) list \<times> bytes list) option" where
  "pick_event tick inbox proposals =
     (if tick then Some (Tick, inbox, proposals)
      else (case inbox of
              (sender, m) # rest \<Rightarrow> Some (Message sender m, rest, proposals)
            | [] \<Rightarrow> (case proposals of p # rest \<Rightarrow> Some (Propose p, [], rest) | [] \<Rightarrow> None)))"

type_synonym ('t, 'p) post = "'t \<Rightarrow> node_id \<Rightarrow> message \<Rightarrow> 'p list"

definition post_all :: "('t, 'p) post \<Rightarrow> 't \<Rightarrow> (node_id \<times> message) list \<Rightarrow> 'p list" where
  "post_all post t out = concat (map (\<lambda>(to, m). post t to m) out)"

text \<open>One iteration: the shell's turn, and the packets its transport sends for it.\<close>

definition host_turn :: "'s sled \<Rightarrow> codec \<Rightarrow> ('t, 'p) post \<Rightarrow> event \<Rightarrow> ('s, 't) raft_host \<Rightarrow> (('s, 't) raft_host \<times> 'p list) panics" where
  "host_turn sl c post ev h =
     (case shell_turn sl c ev ((rh_shell h)\<lparr>sh_outbox := []\<rparr>) of
        None \<Rightarrow> None
      | Some sh \<Rightarrow> Some (h\<lparr>rh_shell := sh\<rparr>, post_all post (rh_transport h) (sh_outbox sh)))"

text \<open>
  A turn that the process does not survive: it dies after \<open>k\<close> effects and is started again on its storage, with
  empty channels. The new process lists its peers in an order of its own, that of its hash map.
  An effect is all or nothing: a process that dies inside a storage operation, between the removals of a truncation for example,
  is not modelled; lemma \<open>torn_truncation\<close> of \<^verbatim>\<open>Raft_Storage\<close> has the log it would recover.
\<close>

definition cut_turn :: "'s sled \<Rightarrow> codec \<Rightarrow> nat \<Rightarrow> raft_node \<Rightarrow> effect list \<Rightarrow> 's shell \<Rightarrow> 's shell" where
  "cut_turn sl c k n effs sh = execute sl c (take k effs) (sh\<lparr>sh_node := n, sh_outbox := []\<rparr>)"

definition restart_host :: "'s sled \<Rightarrow> codec \<Rightarrow> node_id list \<Rightarrow> node_id \<Rightarrow> 64 word \<Rightarrow> 's \<Rightarrow> ('s, 't) raft_host \<Rightarrow> io_error + ('s, 't) raft_host" where
  "restart_host sl c peers i seed storage h =
     (case shell_new sl c i peers storage None True seed of
        Inl e \<Rightarrow> Inl e
      | Inr sh \<Rightarrow> Inr (h\<lparr>rh_shell := sh, rh_inbox := [], rh_proposals := []\<rparr>))"

record ('s, 't, 'p) raft_world =
  rw_hosts :: "node_id \<Rightarrow> ('s, 't) raft_host"
  rw_wire :: "'p list"

text \<open>A log of 2 to the 64 entries is out of reach of memory.\<close>

definition log_fits :: "raft_node \<Rightarrow> bool" where
  "log_fits n \<longleftrightarrow> length (rn_log n) \<le> u64_max"

text \<open>
  The steps of a deployment: a replica's iteration, a proposal from its handlers, the arrival or the loss of a packet, a
  crash inside an iteration, between two of its effects, or between two iterations.
\<close>

inductive wstep :: "'s sled \<Rightarrow> codec \<Rightarrow> ('t, 'p) post \<Rightarrow> (node_id \<Rightarrow> 'p \<Rightarrow> (node_id \<times> message) option) \<Rightarrow> node_id list \<Rightarrow>
    ('s, 't, 'p) raft_world \<Rightarrow> ('s, 't, 'p) raft_world \<Rightarrow> bool"
  for sl c post receive N where
  loop: "i \<in> set N \<Longrightarrow> h = rw_hosts w i \<Longrightarrow>
    pick_event tick (rh_inbox h) (rh_proposals h) = Some (ev, inbox, proposals) \<Longrightarrow>
    host_turn sl c post ev h = Some (h', ps) \<Longrightarrow> log_fits (sh_node (rh_shell h')) \<Longrightarrow>
    wstep sl c post receive N w (w\<lparr>rw_hosts := (rw_hosts w)(i := h'\<lparr>rh_inbox := inbox, rh_proposals := proposals\<rparr>),
      rw_wire := rw_wire w @ ps\<rparr>)"
| propose: "i \<in> set N \<Longrightarrow> h = rw_hosts w i \<Longrightarrow> length (rh_proposals h) < PROPOSAL_CAPACITY \<Longrightarrow>
    wstep sl c post receive N w (w\<lparr>rw_hosts := (rw_hosts w)(i := h\<lparr>rh_proposals := rh_proposals h @ [b]\<rparr>)\<rparr>)"
| arrive: "j \<in> set N \<Longrightarrow> h = rw_hosts w j \<Longrightarrow> p \<in> set (rw_wire w) \<Longrightarrow> receive j p = Some (sender, m) \<Longrightarrow>
    wstep sl c post receive N w (w\<lparr>rw_hosts := (rw_hosts w)(j := h\<lparr>rh_inbox := fst (raft_message INBOX_CAPACITY sender m (rh_inbox h))\<rparr>),
      rw_wire := remove1 p (rw_wire w)\<rparr>)"
| lose: "p \<in> set (rw_wire w) \<Longrightarrow> wstep sl c post receive N w (w\<lparr>rw_wire := remove1 p (rw_wire w)\<rparr>)"
| crash: "i \<in> set N \<Longrightarrow> h = rw_hosts w i \<Longrightarrow>
    pick_event tick (rh_inbox h) (rh_proposals h) = Some (ev, inbox, proposals) \<Longrightarrow>
    step (sh_node (rh_shell h)) ev = Some (n, effs) \<Longrightarrow> log_fits n \<Longrightarrow> dead = cut_turn sl c k n effs (rh_shell h) \<Longrightarrow>
    peer_order N i peers \<Longrightarrow> restart_host sl c peers i seed (sh_storage dead) h = Inr h' \<Longrightarrow>
    wstep sl c post receive N w (w\<lparr>rw_hosts := (rw_hosts w)(i := h'),
      rw_wire := rw_wire w @ post_all post (rh_transport h) (sh_outbox dead)\<rparr>)"
| restart: "i \<in> set N \<Longrightarrow> h = rw_hosts w i \<Longrightarrow> peer_order N i peers \<Longrightarrow>
    restart_host sl c peers i seed (sh_storage (rh_shell h)) h = Inr h' \<Longrightarrow>
    wstep sl c post receive N w (w\<lparr>rw_hosts := (rw_hosts w)(i := h')\<rparr>)"

subsection \<open>Disk operations stay in range\<close>

lemma term_at_bound: "term_at l i = Some t \<Longrightarrow> i \<le> length l"
  by (auto simp: term_at_def split: if_splits)

lemma merge_in_range:
  assumes "merge_entries l es = (l', tr, ta)" and "length l \<le> u64_max"
  shows "list_all op_in_range (disk_ops n tr)"
  using assms
proof (induction l es arbitrary: l' tr ta rule: merge_entries.induct)
  case (2 l e es)
  show ?case
  proof (cases "term_at l (le_index e)")
    case None
    then show ?thesis using 2 by (auto split: prod.splits)
  next
    case (Some t)
    then have "le_index e \<le> u64_max" using term_at_bound "2.prems"(2) le_trans by blast
    moreover have "length (truncate_from l (le_index e)) \<le> u64_max" using "2.prems"(2) by (simp add: truncate_from_def min.coboundedI1)
    ultimately show ?thesis using 2 Some by (auto split: prod.splits if_splits)
  qed
qed simp

lemma indexed_in_range: "indexed l \<Longrightarrow> length l \<le> u64_max \<Longrightarrow> set es \<subseteq> set l \<Longrightarrow> in_range es"
  using indexed_mem by (fastforce simp: in_range_def)

lemma on_append_entries_in_range:
  assumes st: "on_append_entries n sender req = Some (n', effs)" and idx: "indexed (rn_log n')" "log_fits n" "log_fits n'"
  shows "list_all op_in_range (disk_ops n' effs)"
proof -
  obtain n1 e1 where sd: "maybe_step_down n (ae_term req) = (n1, e1)" by force
  have log1: "rn_log n1 = rn_log n" using sd by (auto simp: maybe_step_down_def split: if_splits)
  have e1: "list_all op_in_range (disk_ops n' e1)" using step_down_ops [OF sd] by auto
  have reply: "disk_ops m [ae_reply f t ok k] = []" for m f t ok k by (simp add: ae_reply_def)
  from st sd show ?thesis
  proof (cases rule: on_append_entries_cases)
    case stale
    then show ?thesis using e1 reply by simp
  next
    case (mismatch n2)
    then show ?thesis using e1 reply by simp
  next
    case (accept n2 l tr ta ap)
    have "rn_log n' = l @ ta" using accept(5) by (auto dest: advance_frame split: if_splits)
    then have ta: "in_range ta" using idx by (intro indexed_in_range [OF idx(1)]) (simp_all add: log_fits_def)
    have "list_all (\<lambda>x. \<not> is_persist x) ap" using accept(5) by (auto dest: advance_no_persist split: if_splits)
    then show ?thesis
      using e1 ta merge_in_range [OF accept(4), of n'] idx(2) log1 reply
      unfolding accept(6) disk_ops_simps(3) by (simp add: no_persist_ops log_fits_def)
  qed
qed

lemma quiet_in_range:
  "maybe_step_down n t = (n1, e1) \<Longrightarrow> effs = e1 @ es \<Longrightarrow> list_all (\<lambda>x. \<not> is_persist x) es \<Longrightarrow>
    list_all op_in_range (disk_ops n' effs)"
  using step_down_ops by (fastforce simp: no_persist_ops)

lemma step_in_range:
  assumes st: "step n ev = Some (n', effs)" and idx: "indexed (rn_log n')" "log_fits n" "log_fits n'"
  shows "list_all op_in_range (disk_ops n' effs)"
proof (cases "(n, ev)" rule: step.cases)
  case (1 n)
  then have "start_election (n\<lparr>rn_ticks_since_reset := rn_ticks_since_reset n + 1\<rparr>) = Some (n', effs) \<or> disk_ops n' effs = []"
    using st by (auto simp: on_tick_def Let_def broadcast_ops split: bind_splits if_splits)
  then show ?thesis using start_election_ops by force
next
  case (2 n sender req)
  obtain n1 e1 where sd: "maybe_step_down n (rv_term req) = (n1, e1)" by force
  obtain g r where "effs = e1 @ (if g then [Persist] else []) @ [Send sender (RequestVoteResp r)]"
    using st 2 by (auto simp: on_request_vote_def sd Let_def)
  then show ?thesis using step_down_ops [OF sd] by auto
next
  case (3 n sender resp)
  obtain n1 e1 where sd: "maybe_step_down n (rvr_term resp) = (n1, e1)" by force
  obtain won where "effs = e1 @ won" "list_all (\<lambda>x. \<not> is_persist x) won"
    using st 3 unfolding on_request_vote_resp_def sd Let_def prod.case
    by (auto simp: on_request_vote_resp_def sd dest: try_win_no_persist split: role.splits if_splits bind_splits)
  then show ?thesis by (rule quiet_in_range [OF sd])
next
  case (4 n sender req)
  then show ?thesis using on_append_entries_in_range st idx by auto
next
  case (5 n sender resp)
  obtain n1 e1 where sd: "maybe_step_down n (aer_term resp) = (n1, e1)" by force
  obtain es where "effs = e1 @ es" "list_all (\<lambda>x. \<not> is_persist x) es"
    using st 5 by (auto simp: on_append_entries_resp_def sd Let_def dest: try_commit_no_persist append_for_is_send
        split: role.splits if_splits bind_splits prod.splits)
  then show ?thesis by (rule quiet_in_range [OF sd])
next
  case (6 n b)
  show ?thesis
  proof (cases "is_leader (rn_role n)")
    case True
    obtain l k where la: "log_append (rn_log n) (rn_current_term n) b = (l, k)" by force
    obtain e bc ap where p: "log_get l k = Some e" "broadcast_append (n\<lparr>rn_log := l\<rparr>) = Some bc"
        "try_commit (n\<lparr>rn_log := l\<rparr>) = (n', ap)" "effs = [PersistEntries [e]] @ bc @ ap"
      using st 6 True by (auto simp: on_propose_def la Let_def split: bind_splits prod.splits)
    have "rn_log n' = l" using try_commit_frame [OF p(3)] by simp
    moreover have "e \<in> set l" using p(1) by (auto simp: log_get_def split: if_splits)
    ultimately have "in_range [e]" using idx by (intro indexed_in_range [OF idx(1)]) (simp_all add: log_fits_def)
    then show ?thesis using p no_persist_ops [OF try_commit_no_persist [OF p(3)]] broadcast_ops [OF p(2)] by simp
  qed (use st 6 in \<open>auto simp: on_propose_def\<close>)
qed

subsection \<open>The interface of a transport\<close>

text \<open>
  What the log needs of a transport: whatever a replica reads from a packet of \<open>i\<close> is a message that \<open>i\<close> sent to that
  replica. Packets may be lost, delayed and reordered. \<open>owns\<close> says which transport value belongs to which replica, \<open>lawful\<close>
  is what the transport assumes of its configuration.
\<close>

locale raft_transport =
  fixes post :: "('t, 'p) post" and receive :: "node_id \<Rightarrow> 'p \<Rightarrow> (node_id \<times> message) option"
    and owns :: "node_id \<Rightarrow> 't \<Rightarrow> bool" and N :: "node_id list" and lawful :: bool
  assumes honest: "lawful \<Longrightarrow> i \<in> set N \<Longrightarrow> owns i t \<Longrightarrow> p \<in> set (post t to m) \<Longrightarrow> j \<in> set N \<Longrightarrow>
    receive j p = Some (sender, m') \<Longrightarrow> sender = i \<and> j = to \<and> m' = m"

text \<open>A deployment mirrors a cluster: same nodes, the storage holds the disk, all that is under way was sent.\<close>

definition host_mirrors :: "('s \<Rightarrow> bytes \<rightharpoonup> bytes) \<Rightarrow> codec \<Rightarrow> (node_id \<Rightarrow> 't \<Rightarrow> bool) \<Rightarrow> cluster \<Rightarrow> node_id \<Rightarrow>
    ('s, 't) raft_host \<Rightarrow> bool" where
  "host_mirrors view c owns s i h \<longleftrightarrow>
     sh_node (rh_shell h) = cl_node s i \<and> stores c (view (sh_storage (rh_shell h))) (cl_disk s i) \<and>
     sh_applied (rh_shell h) = cl_applied s i \<and> sh_apply_open (rh_shell h) \<and> owns i (rh_transport h) \<and>
     (\<forall>(sender, m) \<in> set (rh_inbox h). (sender, i, m) \<in> cl_net s)"

definition wire_mirrors :: "(node_id \<Rightarrow> 'p \<Rightarrow> (node_id \<times> message) option) \<Rightarrow> node_id list \<Rightarrow> cluster \<Rightarrow> 'p list \<Rightarrow> bool" where
  "wire_mirrors receive N s ps \<longleftrightarrow>
     (\<forall>p \<in> set ps. \<forall>j \<in> set N. \<forall>sender m. receive j p = Some (sender, m) \<longrightarrow> (sender, j, m) \<in> cl_net s)"

definition mirrors :: "('s \<Rightarrow> bytes \<rightharpoonup> bytes) \<Rightarrow> codec \<Rightarrow> (node_id \<Rightarrow> 't \<Rightarrow> bool) \<Rightarrow>
    (node_id \<Rightarrow> 'p \<Rightarrow> (node_id \<times> message) option) \<Rightarrow> node_id list \<Rightarrow> ('s, 't, 'p) raft_world \<Rightarrow> cluster \<Rightarrow> bool" where
  "mirrors view c owns receive N w s \<longleftrightarrow>
     (\<forall>i \<in> set N. host_mirrors view c owns s i (rw_hosts w i)) \<and> wire_mirrors receive N s (rw_wire w)"

lemma shell_turn_cases:
  assumes "shell_turn sl c ev sh = Some sh'"
  obtains n effs n' ticks sh1 where "step (sh_node sh) ev = Some (n, effs)" "n' = n \<or> n' = set_election_timeout n ticks"
    "sh_node sh1 = n'" "sh_storage sh1 = sh_storage sh" "sh_storage sh' = sh_storage (execute sl c effs sh1)" "sh_node sh' = n'"
    "sh_outbox sh' = sh_outbox sh @ sends effs" "sh_apply_open sh' = sh_apply_open sh"
    "sh_applied sh' = sh_applied sh @ (if sh_apply_open sh then applies effs else [])"
proof -
  obtain n effs where st: "step (sh_node sh) ev = Some (n, effs)" using assms by (auto simp: shell_turn_def split: bind_splits)
  define sh1 where "sh1 = (if \<not> is_candidate (rn_role (sh_node sh)) \<and> is_candidate (rn_role n)
      then sh\<lparr>sh_rng := xorshift_next (sh_rng sh), sh_node := set_election_timeout n (draw_timeout (xorshift_next (sh_rng sh)))\<rparr>
      else sh\<lparr>sh_node := n\<rparr>)"
  have sh': "sh' = (execute sl c effs sh1)\<lparr>sh_leader_watch := rn_leader_hint (sh_node (execute sl c effs sh1))\<rparr>"
    using assms st by (auto simp: shell_turn_def sh1_def Let_def)
  have opn: "sh_apply_open (execute sl c effs sh1) = sh_apply_open sh1"
    unfolding execute_def by (induction effs arbitrary: sh1) simp_all
  show ?thesis
    by (rule that [OF st, of "sh_node sh1" "draw_timeout (xorshift_next (sh_rng sh))" sh1])
      (use execute_traces [of sl c effs sh1] opn in \<open>auto simp: sh' sh1_def\<close>)
qed

lemma stored_fits: "stores c v d \<Longrightarrow> indexed (d_log d) \<Longrightarrow> length (d_log d) \<le> u64_max"
proof -
  assume s: "stores c v d" and idx: "indexed (d_log d)"
  show ?thesis
  proof (cases "d_log d = []")
    case False
    then have "le_index (last (d_log d)) = length (d_log d)" using idx by (simp add: indexed_def last_conv_nth)
    moreover have "in_range (d_log d)" using s by (simp add: stores_def)
    ultimately show ?thesis using False by (metis in_range_def last_in_set)
  qed simp
qed

text \<open>The cluster state after some effects of a turn of node \<open>i\<close>, on the storage of its replica.\<close>

lemma turn_stored:
  assumes laws: "sled_laws sl view" "codec_laws c" and st: "step n ev = Some (n', effs)"
    and idx: "indexed (rn_log n)" "indexed (rn_log n')" and fits: "log_fits n'"
    and d: "stores c (view s) d" "d_log d = rn_log n" and m: "node_hard m = node_hard n'" "sh_node sh = m" "sh_storage sh = s"
  shows "stores c (view (sh_storage (execute sl c (take k effs) sh))) (fold durable_op (disk_ops n' (take k effs)) d)"
proof -
  have "log_fits n" using stored_fits [OF d(1)] d(2) idx(1) by (simp add: log_fits_def)
  then have "list_all op_in_range (disk_ops n' effs)" by (rule step_in_range [OF st idx(2) _ fits])
  moreover obtain j where "disk_ops n' (take k effs) = take j (disk_ops n' effs)" using disk_ops_take by blast
  ultimately have "list_all op_in_range (disk_ops n' (take k effs))" by (auto simp: list_all_iff dest: in_set_takeD)
  moreover have eq: "disk_ops n' (take k effs) = disk_ops (sh_node sh) (take k effs)" using m by (intro disk_ops_hard) simp
  ultimately show ?thesis using execute_run [OF laws, of sh d "take k effs"] d(1) m by simp
qed

lemma turn_facts:
  assumes "sim N a s" and "distinct N" and "i \<in> set N" and "deliverable s i ev" and "step (cl_node s i) ev = Some (n, effs)"
  shows "indexed (rn_log (cl_node s i))" and "indexed (rn_log n)" and "d_log (cl_disk s i) = rn_log (cl_node s i)"
proof -
  note inv = simD(1) [OF assms(1)] and ok = simD(2) [OF assms(1,3)]
  obtain b where t: "turn_ok N a i n effs b"
    using step_turn [OF assms(2,3) inv ok deliverable_ok [OF assms(1,4)] assms(5)] by blast
  then have "moves N i a b" "node_ok N b i n" by (auto simp: turn_ok_def)
  then show "indexed (rn_log n)" using log_indexed [OF moves_inv [OF _ inv]] by (simp add: node_ok_def)
  show "indexed (rn_log (cl_node s i))" using log_indexed [OF inv] ok by (simp add: node_ok_def)
  show "d_log (cl_disk s i) = rn_log (cl_node s i)" using simD(3) [OF assms(1,3)] by (simp add: synced_def)
qed

lemma restart_cases:
  assumes "sled_laws sl view" "codec_laws c" and "stores c (view st) d" and "restart_host sl c peers i seed st h = Inr h'"
  obtains ticks where "sh_node (rh_shell h') = recover i peers ticks d" "sh_storage (rh_shell h') = st"
    "sh_applied (rh_shell h') = []" "sh_apply_open (rh_shell h')" "rh_inbox h' = []" "rh_transport h' = rh_transport h"
proof -
  have "load_log sl c st = Inr (d_log d)" "load_hard_state sl c st = Inr (d_hard d)"
    using load_log_stores [OF assms(1-3)] load_hard_stores [OF assms(1,3)] by simp_all
  then have "h' = h\<lparr>rh_shell := rh_shell h', rh_inbox := [], rh_proposals := []\<rparr>"
      "sh_node (rh_shell h') = recover i peers (draw_timeout (xorshift_next (shell_seed seed i))) d"
      "sh_storage (rh_shell h') = st" "sh_applied (rh_shell h') = []" "sh_apply_open (rh_shell h')"
    using assms(4) by (auto simp: restart_host_def shell_new_def recover_def from_entries_def Let_def)
  then show ?thesis using that by (metis raft_host.select_convs raft_host.surjective raft_host.update_convs(1,3,4))
qed

context raft_transport
begin

lemma posted_mirrors:
  assumes "lawful" and "i \<in> set N" and "owns i t" and "\<And>to m. (to, m) \<in> set out \<Longrightarrow> (i, to, m) \<in> cl_net s"
  shows "wire_mirrors receive N s (post_all post t out)"
  using assms honest [OF assms(1-3)] by (fastforce simp: wire_mirrors_def post_all_def)

lemma host_mirrors_net: "cl_net s \<subseteq> cl_net s' \<Longrightarrow> cl_node s' j = cl_node s j \<Longrightarrow> cl_disk s' j = cl_disk s j \<Longrightarrow>
    cl_applied s' j = cl_applied s j \<Longrightarrow> host_mirrors view c owns s j h \<Longrightarrow> host_mirrors view c owns s' j h"
  by (auto simp: host_mirrors_def)

lemma wire_mirrors_mono: "cl_net s \<subseteq> cl_net s' \<Longrightarrow> wire_mirrors receive N s ps \<Longrightarrow> wire_mirrors receive N s' ps"
  by (fastforce simp: wire_mirrors_def)

lemma wire_append: "wire_mirrors receive N s (ps @ qs) \<longleftrightarrow> wire_mirrors receive N s ps \<and> wire_mirrors receive N s qs"
  by (auto simp: wire_mirrors_def)

lemma wire_less: "wire_mirrors receive N s ps \<Longrightarrow> wire_mirrors receive N s (remove1 p ps)"
  using set_remove1_subset [of p ps] by (auto simp: wire_mirrors_def)

lemma picked_deliverable:
  assumes "pick_event tick (rh_inbox h) props = Some (ev, inbox, props')" and "host_mirrors view c owns s i h"
  shows "deliverable s i ev" and "set inbox \<subseteq> set (rh_inbox h)"
  using assms by (auto simp: pick_event_def host_mirrors_def split: if_splits list.splits)

text \<open>An iteration of a replica is a turn of its node; the packets it sends carry what the turn sent.\<close>

lemma loop_mirrors:
  assumes laws: "sled_laws sl view" "codec_laws c" and ok: "lawful" and N: "distinct N" "i \<in> set N" and sm: "sim N a s"
    and mir: "mirrors view c owns receive N w s"
    and pick: "pick_event tick (rh_inbox (rw_hosts w i)) (rh_proposals (rw_hosts w i)) = Some (ev, inbox, props)"
    and turn: "host_turn sl c post ev (rw_hosts w i) = Some (h', ps)" and fits: "log_fits (sh_node (rh_shell h'))"
  shows "\<exists>s'. cstep N s s' \<and> mirrors view c owns receive N
    (w\<lparr>rw_hosts := (rw_hosts w)(i := h'\<lparr>rh_inbox := inbox, rh_proposals := props\<rparr>), rw_wire := rw_wire w @ ps\<rparr>) s'"
proof -
  let ?h = "rw_hosts w i"
  have hm: "host_mirrors view c owns s i ?h" using mir N(2) by (simp add: mirrors_def)
  then have h: "sh_node (rh_shell ?h) = cl_node s i" "stores c (view (sh_storage (rh_shell ?h))) (cl_disk s i)"
      "sh_applied (rh_shell ?h) = cl_applied s i" "sh_apply_open (rh_shell ?h)" "owns i (rh_transport ?h)"
    by (simp_all add: host_mirrors_def)
  note del = picked_deliverable [OF pick hm]
  obtain sh where sh: "shell_turn sl c ev ((rh_shell ?h)\<lparr>sh_outbox := []\<rparr>) = Some sh" "h' = ?h\<lparr>rh_shell := sh\<rparr>"
      "ps = post_all post (rh_transport ?h) (sh_outbox sh)" using turn by (auto simp: host_turn_def split: option.splits)
  obtain n effs n' ticks sh1 where t: "step (cl_node s i) ev = Some (n, effs)" "n' = n \<or> n' = set_election_timeout n ticks"
      "sh_node sh1 = n'" "sh_storage sh1 = sh_storage (rh_shell ?h)" "sh_storage sh = sh_storage (execute sl c effs sh1)" "sh_node sh = n'"
      "sh_outbox sh = sends effs" "sh_apply_open sh" "sh_applied sh = cl_applied s i @ applies effs"
    using shell_turn_cases [OF sh(1)] h by (simp, metis)
  have same: "node_hard n' = node_hard n" "rn_log n' = rn_log n" using t(2) by (auto simp: set_election_timeout_def node_hard_def)
  let ?s' = "run_effects i n effs (s\<lparr>cl_node := (cl_node s)(i := n')\<rparr>)"
  have cs: "cstep N s ?s'" by (rule cstep.turn [OF N(2) del(1) t(1,2)])
  note f = turn_facts [OF sm N(1,2) del(1) t(1)]
  have "log_fits n" using fits sh(2) t(6) same(2) by (simp add: log_fits_def)
  from turn_stored [OF laws t(1) f(1,2) this h(2) f(3) same(1) t(3,4), of "length effs"]
  have store: "stores c (view (sh_storage sh)) (cl_disk ?s' i)" using t(5) by (simp add: run_effects_def)
  have net: "cl_net s \<subseteq> cl_net ?s'" by (auto simp: run_effects_def)
  have sent: "(i, to, m) \<in> cl_net ?s'" if "(to, m) \<in> set (sends effs)" for to m using that by (force simp: run_effects_def)
  have inb: "\<forall>(sender, m) \<in> set inbox. (sender, i, m) \<in> cl_net ?s'" using del(2) hm net by (fastforce simp: host_mirrors_def)
  have "host_mirrors view c owns ?s' i (h'\<lparr>rh_inbox := inbox, rh_proposals := props\<rparr>)"
    using store t(6,8,9) h(5) inb sh(2) by (simp add: host_mirrors_def run_effects_def)
  moreover have "host_mirrors view c owns ?s' j (rw_hosts w j)" if "j \<in> set N" "j \<noteq> i" for j
    by (rule host_mirrors_net [OF net]) (use that mir in \<open>simp_all add: run_effects_def mirrors_def\<close>)
  moreover have "wire_mirrors receive N ?s' (rw_wire w @ ps)"
    unfolding wire_append sh(3) using wire_mirrors_mono [OF net] mir posted_mirrors [OF ok N(2) h(5) sent] t(7) by (simp add: mirrors_def)
  ultimately show ?thesis using cs by (auto simp: mirrors_def)
qed

lemma reboot_mirrors:
  assumes laws: "sled_laws sl view" "codec_laws c" and i: "i \<in> set N" and mir: "mirrors view c owns receive N w s"
    and net: "cl_net s \<subseteq> cl_net s1" and others: "\<And>j. j \<noteq> i \<Longrightarrow> cl_node s1 j = cl_node s j \<and> cl_disk s1 j = cl_disk s j \<and> cl_applied s1 j = cl_applied s j"
    and store: "stores c (view st) (cl_disk s1 i)" and re: "restart_host sl c peers i seed st (rw_hosts w i) = Inr h'"
    and wire: "wire_mirrors receive N s1 ps"
  shows "\<exists>ticks. mirrors view c owns receive N (w\<lparr>rw_hosts := (rw_hosts w)(i := h'), rw_wire := rw_wire w @ ps\<rparr>) (reboot i peers ticks s1)"
proof -
  obtain ticks where h': "sh_node (rh_shell h') = recover i peers ticks (cl_disk s1 i)" "sh_storage (rh_shell h') = st"
      "sh_applied (rh_shell h') = []" "sh_apply_open (rh_shell h')" "rh_inbox h' = []" "rh_transport h' = rh_transport (rw_hosts w i)"
    by (rule restart_cases [OF laws store re])
  let ?s' = "reboot i peers ticks s1"
  have sub: "cl_net s \<subseteq> cl_net ?s'" using net by (simp add: reboot_def)
  have "host_mirrors view c owns ?s' i h'" using h' store mir i by (simp add: host_mirrors_def reboot_def mirrors_def)
  moreover have "host_mirrors view c owns ?s' j (rw_hosts w j)" if "j \<in> set N" "j \<noteq> i" for j
    by (rule host_mirrors_net [OF sub]) (use that mir others in \<open>simp_all add: reboot_def mirrors_def\<close>)
  moreover have "wire_mirrors receive N ?s' (rw_wire w)" using wire_mirrors_mono [OF sub] mir by (simp add: mirrors_def)
  moreover have "wire_mirrors receive N ?s' ps" using wire by (simp add: wire_mirrors_def reboot_def)
  ultimately show ?thesis by (intro exI [of _ ticks]) (auto simp: mirrors_def wire_append)
qed

lemma crash_mirrors:
  assumes laws: "sled_laws sl view" "codec_laws c" and ok: "lawful" and N: "distinct N" "i \<in> set N" and sm: "sim N a s"
    and mir: "mirrors view c owns receive N w s"
    and pick: "pick_event tick (rh_inbox (rw_hosts w i)) (rh_proposals (rw_hosts w i)) = Some (ev, inbox, props)"
    and st: "step (sh_node (rh_shell (rw_hosts w i))) ev = Some (n, effs)" and fits: "log_fits n"
    and dead: "dead = cut_turn sl c k n effs (rh_shell (rw_hosts w i))"
    and po: "peer_order N i peers" and re: "restart_host sl c peers i seed (sh_storage dead) (rw_hosts w i) = Inr h'"
  shows "\<exists>s'. cstep N s s' \<and> mirrors view c owns receive N
    (w\<lparr>rw_hosts := (rw_hosts w)(i := h'), rw_wire := rw_wire w @ post_all post (rh_transport (rw_hosts w i)) (sh_outbox dead)\<rparr>) s'"
proof -
  let ?h = "rw_hosts w i"
  have hm: "host_mirrors view c owns s i ?h" using mir N(2) by (simp add: mirrors_def)
  then have h: "sh_node (rh_shell ?h) = cl_node s i" "stores c (view (sh_storage (rh_shell ?h))) (cl_disk s i)" "owns i (rh_transport ?h)"
    by (simp_all add: host_mirrors_def)
  note del = picked_deliverable [OF pick hm]
  have t: "step (cl_node s i) ev = Some (n, effs)" using st h(1) by simp
  let ?s1 = "run_effects i n (take k effs) s"
  note f = turn_facts [OF sm N(1,2) del(1) t]
  have store: "stores c (view (sh_storage dead)) (cl_disk ?s1 i)"
    using turn_stored [OF laws t f(1,2) fits h(2) f(3) refl, of "(rh_shell ?h)\<lparr>sh_node := n, sh_outbox := []\<rparr>" k]
    by (simp add: dead cut_turn_def run_effects_def)
  have sent: "(i, to, m) \<in> cl_net ?s1" if "(to, m) \<in> set (sends (take k effs))" for to m using that by (force simp: run_effects_def)
  have out: "sh_outbox dead = sends (take k effs)" by (simp add: dead cut_turn_def execute_traces)
  have wire: "wire_mirrors receive N ?s1 (post_all post (rh_transport ?h) (sh_outbox dead))"
    unfolding out by (rule posted_mirrors [OF ok N(2) h(3) sent])
  obtain ticks where "mirrors view c owns receive N
      (w\<lparr>rw_hosts := (rw_hosts w)(i := h'), rw_wire := rw_wire w @ post_all post (rh_transport ?h) (sh_outbox dead)\<rparr>) (reboot i peers ticks ?s1)"
    using reboot_mirrors [OF laws N(2) mir _ _ store re wire] by (auto simp: run_effects_def)
  then show ?thesis using cstep.crash [OF N(2) del(1) t po, of ticks k] by blast
qed

lemma step_mirrors:
  assumes laws: "sled_laws sl view" "codec_laws c" and ok: "lawful" and N: "distinct N" and sm: "sim N a s"
    and mir: "mirrors view c owns receive N w s" and st: "wstep sl c post receive N w w'"
  shows "\<exists>s'. (cstep N)\<^sup>*\<^sup>* s s' \<and> mirrors view c owns receive N w' s'"
  using st
proof cases
  case (loop i h tick ev inbox proposals h' ps)
  then show ?thesis using loop_mirrors [OF laws ok N loop(2) sm mir] by blast
next
  case (propose i h b)
  then have "mirrors view c owns receive N w' s" using mir by (simp add: mirrors_def host_mirrors_def)
  then show ?thesis by blast
next
  case (arrive j h p sender m)
  have "(sender, j, m) \<in> cl_net s" using mir arrive(2,4,5) by (simp add: mirrors_def wire_mirrors_def)
  then have "mirrors view c owns receive N w' s"
    using mir wire_less [of s "rw_wire w" p] arrive
    by (auto simp: mirrors_def host_mirrors_def raft_message_def deliver_def)
  then show ?thesis by blast
next
  case (lose p)
  then have "mirrors view c owns receive N w' s" using mir wire_less [of s "rw_wire w" p] by (simp add: mirrors_def)
  then show ?thesis by blast
next
  case (crash i h tick ev inbox proposals n effs dead k peers seed h')
  then show ?thesis using crash_mirrors [OF laws ok N crash(2) sm mir] by blast
next
  case (restart i h peers seed h')
  have store: "stores c (view (sh_storage (rh_shell h))) (cl_disk s i)" using mir restart(2,3) by (simp add: mirrors_def host_mirrors_def)
  have none: "wire_mirrors receive N s []" by (simp add: wire_mirrors_def)
  obtain ticks where "mirrors view c owns receive N (w\<lparr>rw_hosts := (rw_hosts w)(i := h'), rw_wire := rw_wire w @ []\<rparr>) (reboot i peers ticks s)"
    using reboot_mirrors [OF laws restart(2) mir order_refl _ store _ none] restart(3,5) by blast
  then show ?thesis using cstep.restart [OF restart(2,4), of s ticks] restart(1) by auto
qed

lemma run_mirrors:
  assumes laws: "sled_laws sl view" "codec_laws c" and ok: "lawful" and N: "distinct N"
    and st: "(wstep sl c post receive N)\<^sup>*\<^sup>* w w'" and sm: "sim N a s" and mir: "mirrors view c owns receive N w s"
  shows "\<exists>b s'. (cstep N)\<^sup>*\<^sup>* s s' \<and> sim N b s' \<and> mirrors view c owns receive N w' s'"
  using st
proof (induction rule: rtranclp_induct)
  case base
  then show ?case using sm mir by blast
next
  case (step w1 w2)
  then obtain b s1 where s1: "(cstep N)\<^sup>*\<^sup>* s s1" "sim N b s1" "mirrors view c owns receive N w1 s1" by blast
  obtain s2 where s2: "(cstep N)\<^sup>*\<^sup>* s1 s2" "mirrors view c owns receive N w2 s2"
    using step_mirrors [OF laws ok N s1(2,3) step.hyps(2)] by blast
  then obtain b' where "sim N b' s2" using sim_steps [OF s2(1) N s1(2)] by blast
  then show ?case using s1(1) s2 rtranclp_trans [OF s1(1) s2(1)] by blast
qed

end

subsection \<open>The HTTP transport is lawful\<close>

text \<open>Every replica is started with the base URLs of the others; the URLs tell the replicas apart, and bodies decode.\<close>

definition peer_bases :: "(node_id \<Rightarrow> string) \<Rightarrow> node_id list \<Rightarrow> node_id \<Rightarrow> node_id \<rightharpoonup> string" where
  "peer_bases base N i j = (if j \<in> set N \<and> j \<noteq> i then Some (base j) else None)"

definition peers_arg :: "(node_id \<Rightarrow> string) \<Rightarrow> node_id list \<Rightarrow> node_id \<Rightarrow> string" where
  "peers_arg base N i = peers_text (map (\<lambda>j. (j, base j)) (others N i))"

definition http_owns :: "(node_id \<Rightarrow> string) \<Rightarrow> node_id list \<Rightarrow> node_id \<Rightarrow> http_transport \<Rightarrow> bool" where
  "http_owns base N i t \<longleftrightarrow> t = http_transport_new i (peer_bases base N i)"

definition http_configured :: "(message \<Rightarrow> io_error + bytes) \<Rightarrow> (bytes \<Rightarrow> io_error + message) \<Rightarrow> (node_id \<Rightarrow> string) \<Rightarrow> node_id list \<Rightarrow> bool" where
  "http_configured enc dec base N \<longleftrightarrow>
     inj_on base (set N) \<and> (\<forall>i \<in> set N. i \<le> u64_max \<and> CHR ''?'' \<notin> set (base i) \<and> CHR '','' \<notin> set (base i)) \<and>
     (\<forall>m. \<exists>b. enc m = Inr b \<and> dec b = Inr m)"

interpretation http: raft_transport "http_send enc" "http_receive dec base" "http_owns base N" N "http_configured enc dec base N"
  for enc :: "message \<Rightarrow> io_error + bytes" and dec base N
proof (unfold_locales, goal_cases)
  case (1 i t p to m j sender m')
  obtain b where b: "enc m = Inr b" "dec b = Inr m" using 1(1) unfolding http_configured_def by blast
  have p: "to \<in> set N" "p = \<lparr>hq_method = POST, hq_url = message_url (base to) i, hq_body = Some b\<rparr>"
    using 1(3,4) b(1) by (auto simp: http_owns_def http_send_def http_transport_new_def peer_bases_def split: if_splits)
  have "j = to \<and> sender = i \<and> dec b = Inr m'"
    by (rule received_is_sent [of base "set N"]) (use 1 p in \<open>auto simp: http_configured_def\<close>)
  then show ?case using b by simp
qed

text \<open>
  A fresh deployment: every replica was started by the server's \<open>main\<close> on empty storage with its peers on the command line.
  \<open>key_order\<close> is the iteration order of the standard library's hash map: some order of its keys.
\<close>

definition lists_keys :: "((node_id \<rightharpoonup> string) \<Rightarrow> node_id list) \<Rightarrow> bool" where
  "lists_keys key_order \<longleftrightarrow> (\<forall>m. finite (dom m) \<longrightarrow> distinct (key_order m) \<and> set (key_order m) = dom m)"

lemma lists_keys_order: "lists_keys key_order \<Longrightarrow> peer_order N i (key_order (peer_bases base N i))"
proof -
  have "dom (peer_bases base N i) = set N - {i}" by (auto simp: peer_bases_def dom_def)
  then show "lists_keys key_order \<Longrightarrow> peer_order N i (key_order (peer_bases base N i))" by (simp add: lists_keys_def peer_order_def)
qed

definition deployed :: "'s sled \<Rightarrow> codec \<Rightarrow> ((node_id \<rightharpoonup> string) \<Rightarrow> node_id list) \<Rightarrow> (node_id \<Rightarrow> string) \<Rightarrow> node_id list \<Rightarrow>
    (node_id \<Rightarrow> 's) \<Rightarrow> (node_id \<Rightarrow> 64 word) \<Rightarrow> ('s, http_transport, http_request) raft_world \<Rightarrow> bool" where
  "deployed sl c key_order base N storage nanos w \<longleftrightarrow>
     rw_wire w = [] \<and>
     (\<forall>i \<in> set N. \<exists>pr. start_raft sl c key_order i (peers_arg base N i) (storage i) (nanos i) = Inr (rw_hosts w i, pr))"

lemma parse_peers_arg:
  assumes "http_configured enc dec base N" and "distinct N"
  shows "parse_peers (peers_arg base N i) = Inr (peer_bases base N i)"
proof -
  let ?ps = "map (\<lambda>j. (j, base j)) (others N i)"
  have "parse_peers (peers_text ?ps) = Inr (map_of ?ps)"
    using assms by (intro parse_peers_text) (auto simp: http_configured_def others_def comp_def)
  moreover have "map_of ?ps = peer_bases base N i" by (auto simp: map_of_map_restrict peer_bases_def others_def fun_eq_iff restrict_map_def)
  ultimately show ?thesis by (simp add: peers_arg_def)
qed

lemma deployed_mirrors:
  assumes laws: "sled_laws sl view" "codec_laws c" and conf: "http_configured enc dec base N" and N: "distinct N"
    and empty: "\<And>i. i \<in> set N \<Longrightarrow> view (storage i) = Map.empty" and dep: "deployed sl c key_order base N storage nanos w"
  shows "\<exists>timeout. mirrors view c (http_owns base N) (http_receive dec base) N w (cluster_init (\<lambda>i. key_order (peer_bases base N i)) timeout)"
proof -
  define timeout where "timeout i = draw_timeout (xorshift_next (shell_seed (nanos i OR 1) i))" for i
  let ?s = "cluster_init (\<lambda>i. key_order (peer_bases base N i)) timeout"
  have "host_mirrors view c (http_owns base N) ?s i (rw_hosts w i)" if i: "i \<in> set N" for i
  proof -
    have store: "stores c (view (storage i)) durable_new" by (rule stores_empty [where view = view, OF empty [OF i]])
    have load: "load_log sl c (storage i) = Inr (d_log durable_new)" "load_hard_state sl c (storage i) = Inr (d_hard durable_new)"
      using load_log_stores [OF laws store] load_hard_stores [OF laws(1) store] by simp_all
    obtain pr where "Inr (rw_hosts w i, pr) = start_raft sl c key_order i (peers_arg base N i) (storage i) (nanos i)"
      using dep i unfolding deployed_def by metis
    then show ?thesis
      using load store
      by (simp add: start_raft_def parse_peers_arg [OF conf N] spawn_raft_def shell_new_def Let_def host_mirrors_def cluster_init_def
          timeout_def http_owns_def durable_new_def hard_state_default_def from_entries_def raft_node_new_def log_new_def)
  qed
  moreover have "wire_mirrors (http_receive dec base) N ?s (rw_wire w)"
    using dep by (simp add: deployed_def wire_mirrors_def)
  ultimately show ?thesis by (auto simp: mirrors_def)
qed

lemma deployment_run:
  assumes laws: "sled_laws sl view" "codec_laws c" and conf: "http_configured enc dec base N" and N: "distinct N"
    and order: "lists_keys key_order"
    and empty: "\<forall>i \<in> set N. view (storage i) = Map.empty" and dep: "deployed sl c key_order base N storage nanos w0"
    and run: "(wstep sl c (http_send enc) (http_receive dec base) N)\<^sup>*\<^sup>* w0 w"
  shows "\<exists>timeout a s. reachable N timeout s \<and> sim N a s \<and> mirrors view c (http_owns base N) (http_receive dec base) N w s"
proof -
  obtain timeout where m: "mirrors view c (http_owns base N) (http_receive dec base) N w0 (cluster_init (\<lambda>i. key_order (peer_bases base N i)) timeout)"
    using deployed_mirrors [OF laws conf N _ dep] empty by blast
  have po: "\<forall>i \<in> set N. peer_order N i (key_order (peer_bases base N i))" using lists_keys_order [OF order] by simp
  obtain a s where s: "(cstep N)\<^sup>*\<^sup>* (cluster_init (\<lambda>i. key_order (peer_bases base N i)) timeout) s" "sim N a s"
      "mirrors view c (http_owns base N) (http_receive dec base) N w s"
    using http.run_mirrors [OF laws conf N run sim_init [OF po] m] by blast
  then have "reachable N timeout s" unfolding reachable_def using po by (intro exI [of _ "\<lambda>i. key_order (peer_bases base N i)"]) simp
  then show ?thesis using s(2,3) by blast
qed

end
