(* ===== verification/Deployment_Properties.thy ===== *)
theory Deployment_Properties
  imports Raft_Deployment
begin

text \<open>
  What holds of a deployed cluster of replicas (theory \<^verbatim>\<open>Raft_Deployment\<close>): it runs the protocol of the core, so its
  replicas agree on what they apply. The witnesses run a deployment of two replicas up to the first election.
\<close>

subsection \<open>A small deployment\<close>

text \<open>Two replicas on the tree of theory \<^verbatim>\<open>Sled\<close>, with a concrete encoding of the messages.\<close>

definition wr_entry :: "log_entry wire" where
  "wr_entry = wr_map (\<lambda>(t, i, b). \<lparr>le_term = t, le_index = i, le_command = b\<rparr>) (\<lambda>e. (le_term e, le_index e, le_command e))
     (wr_prod wr_nat (wr_prod wr_nat (wr_list wr_nat)))"

fun message_code :: "message \<Rightarrow> nat \<times> (nat \<times> nat \<times> nat \<times> nat \<times> nat) \<times> log_entry list" where
  "message_code (RequestVote r) = (0, (rv_term r, rv_candidate_id r, rv_last_log_index r, rv_last_log_term r, 0), [])"
| "message_code (RequestVoteResp r) = (1, (rvr_term r, of_bool (rvr_vote_granted r), 0, 0, 0), [])"
| "message_code (AppendEntries r) =
     (2, (ae_term r, ae_leader_id r, ae_prev_log_index r, ae_prev_log_term r, ae_leader_commit r), ae_entries r)"
| "message_code (AppendEntriesResp r) = (3, (aer_term r, of_bool (aer_success r), aer_match_index r, 0, 0), [])"

definition code_message :: "nat \<times> (nat \<times> nat \<times> nat \<times> nat \<times> nat) \<times> log_entry list \<Rightarrow> message" where
  "code_message x = (case x of (mk, (a, b, c, d, e), es) \<Rightarrow>
     if mk = 0 then RequestVote \<lparr>rv_term = a, rv_candidate_id = b, rv_last_log_index = c, rv_last_log_term = d\<rparr>
     else if mk = 1 then RequestVoteResp \<lparr>rvr_term = a, rvr_vote_granted = (b = 1)\<rparr>
     else if mk = 2 then AppendEntries \<lparr>ae_term = a, ae_leader_id = b, ae_prev_log_index = c, ae_prev_log_term = d, ae_entries = es, ae_leader_commit = e\<rparr>
     else AppendEntriesResp \<lparr>aer_term = a, aer_success = (b = 1), aer_match_index = c\<rparr>)"

definition wr_message :: "message wire" where
  "wr_message = wr_map code_message message_code
     (wr_prod wr_nat (wr_prod (wr_prod wr_nat (wr_prod wr_nat (wr_prod wr_nat (wr_prod wr_nat wr_nat)))) (wr_list wr_entry)))"

lemma wr_message_ok: "wire_ok wr_message"
proof -
  have "wire_ok wr_entry" unfolding wr_entry_def by (intro wire_intros) simp
  moreover have "code_message (message_code m) = m" for m by (cases m) (simp_all add: code_message_def)
  ultimately show ?thesis unfolding wr_message_def by (intro wire_intros)
qed

abbreviation "demo_enc \<equiv> js_to_vec (wire_json wr_message)"
abbreviation "demo_dec \<equiv> js_from_slice (wire_json wr_message)"

definition demo_base :: "node_id \<Rightarrow> string" where
  "demo_base i = (if i = 1 then ''http://one:8080'' else ''http://two:8080'')"

definition demo_N :: "node_id list" where
  "demo_N = [1, 2]"

definition demo_keys :: "(node_id \<rightharpoonup> string) \<Rightarrow> node_id list" where
  "demo_keys m = sorted_list_of_set (dom m)"

lemma demo_configured: "http_configured demo_enc demo_dec demo_base demo_N"
  using wire_json_laws [OF wr_message_ok] by (auto simp: http_configured_def demo_N_def demo_base_def json_laws_def u64_max_def)

lemma demo_lists_keys: "lists_keys demo_keys"
  by (simp add: lists_keys_def demo_keys_def)

lemma demo_keys_order:
  assumes "i \<in> set demo_N"
  shows "demo_keys (peer_bases demo_base demo_N i) = others demo_N i"
proof -
  have "dom (peer_bases demo_base demo_N i) = set (others demo_N i)" by (auto simp: peer_bases_def dom_def others_def)
  moreover have "sorted_list_of_set (set (others demo_N i)) = others demo_N i"
    by (rule sorted_list_of_set.idem_if_sorted_distinct) (use assms in \<open>auto simp: others_def demo_N_def\<close>)
  ultimately show ?thesis by (simp add: demo_keys_def)
qed

definition demo_timeout :: "node_id \<Rightarrow> nat" where
  "demo_timeout i = draw_timeout (xorshift_next (shell_seed (5 OR 1) i))"

definition demo_host :: "node_id \<Rightarrow> ((bytes, bytes) fmap, http_transport) raft_host" where
  "demo_host i =
     \<lparr>rh_shell = \<lparr>sh_node = raft_node_new i (others demo_N i) (demo_timeout i), sh_storage = fmempty,
        sh_rng = xorshift_next (shell_seed (5 OR 1) i), sh_leader_watch = None, sh_outbox = [], sh_apply_open = True, sh_applied = []\<rparr>,
      rh_transport = http_transport_new i (peer_bases demo_base demo_N i), rh_inbox = [], rh_proposals = []\<rparr>"

definition demo_world :: "((bytes, bytes) fmap, http_transport, http_request) raft_world" where
  "demo_world = \<lparr>rw_hosts = demo_host, rw_wire = []\<rparr>"

lemma demo_deployed: "deployed map_tree plain_codec demo_keys demo_base demo_N (\<lambda>_. fmempty) (\<lambda>_. 5) demo_world"
proof -
  have store: "stores plain_codec (fmlookup fmempty) durable_new" by (rule stores_empty) (simp add: fmempty.rep_eq)
  have load: "load_log map_tree plain_codec fmempty = Inr (d_log durable_new)"
      "load_hard_state map_tree plain_codec fmempty = Inr (d_hard durable_new)"
    using load_log_stores [OF map_tree_laws plain_codec_laws store] load_hard_stores [OF map_tree_laws store] by simp_all
  have N: "distinct demo_N" by (simp add: demo_N_def)
  have "start_raft map_tree plain_codec demo_keys i (peers_arg demo_base demo_N i) fmempty 5 =
      Inr (demo_host i, \<lparr>pr_id = i, pr_leader = None, pr_peer_apis = peer_bases demo_base demo_N i\<rparr>)" if "i \<in> set demo_N" for i
    using load demo_keys_order [OF that]
    by (simp add: start_raft_def parse_peers_arg [OF demo_configured N] spawn_raft_def shell_new_def Let_def demo_host_def
        demo_timeout_def durable_new_def hard_state_default_def from_entries_def raft_node_new_def log_new_def)
  then show ?thesis by (simp add: deployed_def demo_world_def)
qed

abbreviation "demo_step \<equiv> wstep map_tree plain_codec (http_send demo_enc) (http_receive demo_dec demo_base) demo_N"

text \<open>Ticks below the election timeout only count.\<close>

lemma demo_ticks:
  assumes "k < demo_timeout 1"
  shows "\<exists>w sh. demo_step\<^sup>*\<^sup>* demo_world w \<and> w = demo_world\<lparr>rw_hosts := demo_host(1 := (demo_host 1)\<lparr>rh_shell := sh\<rparr>)\<rparr> \<and>
    sh_node sh = (raft_node_new 1 [2] (demo_timeout 1))\<lparr>rn_ticks_since_reset := k\<rparr>"
  using assms
proof (induction k)
  case 0
  have "demo_world = demo_world\<lparr>rw_hosts := demo_host(1 := (demo_host 1)\<lparr>rh_shell := rh_shell (demo_host 1)\<rparr>)\<rparr>"
    by (simp add: demo_world_def)
  moreover have "sh_node (rh_shell (demo_host 1)) = (raft_node_new 1 [2] (demo_timeout 1))\<lparr>rn_ticks_since_reset := 0\<rparr>"
    by (simp add: demo_host_def demo_N_def raft_node_new_def others_def)
  ultimately show ?case by blast
next
  case (Suc k)
  then have "k < demo_timeout 1" by simp
  then obtain w sh where w: "demo_step\<^sup>*\<^sup>* demo_world w" "w = demo_world\<lparr>rw_hosts := demo_host(1 := (demo_host 1)\<lparr>rh_shell := sh\<rparr>)\<rparr>"
      "sh_node sh = (raft_node_new 1 [2] (demo_timeout 1))\<lparr>rn_ticks_since_reset := k\<rparr>" using Suc.IH by blast
  let ?sh = "sh\<lparr>sh_outbox := [], sh_node := (sh_node sh)\<lparr>rn_ticks_since_reset := Suc k\<rparr>, sh_leader_watch := None\<rparr>"
  have lt: "demo_timeout 1 < 20" using draw_timeout_range by (simp add: demo_timeout_def)
  have "shell_turn map_tree plain_codec Tick (sh\<lparr>sh_outbox := []\<rparr>) = Some ?sh"
    using Suc.prems lt w(3)
    by (simp add: shell_turn_def on_tick_def raft_node_new_def checked_add_def u32_max_def execute_def Let_def)
  then have turn: "host_turn map_tree plain_codec (http_send demo_enc) Tick (rw_hosts w 1) = Some ((demo_host 1)\<lparr>rh_shell := ?sh\<rparr>, [])"
    using w(2) by (simp add: host_turn_def post_all_def)
  have "demo_step w (w\<lparr>rw_hosts := (rw_hosts w)(1 := ((demo_host 1)\<lparr>rh_shell := ?sh\<rparr>)\<lparr>rh_inbox := [], rh_proposals := []\<rparr>), rw_wire := rw_wire w @ []\<rparr>)"
    by (rule loop [where tick = True and ev = Tick, OF _ refl _ turn])
      (use w(2,3) in \<open>simp_all add: pick_event_def demo_host_def demo_N_def log_fits_def raft_node_new_def log_new_def\<close>)
  moreover have "w\<lparr>rw_hosts := (rw_hosts w)(1 := ((demo_host 1)\<lparr>rh_shell := ?sh\<rparr>)\<lparr>rh_inbox := [], rh_proposals := []\<rparr>), rw_wire := rw_wire w @ []\<rparr>
      = demo_world\<lparr>rw_hosts := demo_host(1 := (demo_host 1)\<lparr>rh_shell := ?sh\<rparr>)\<rparr>"
    using w(2) by (simp add: demo_host_def demo_world_def)
  ultimately have "demo_step w (demo_world\<lparr>rw_hosts := demo_host(1 := (demo_host 1)\<lparr>rh_shell := ?sh\<rparr>)\<rparr>)" by metis
  with w(1) have "demo_step\<^sup>*\<^sup>* demo_world (demo_world\<lparr>rw_hosts := demo_host(1 := (demo_host 1)\<lparr>rh_shell := ?sh\<rparr>)\<rparr>)"
    by (rule rtranclp.rtrancl_into_rtrancl)
  moreover have "sh_node ?sh = (raft_node_new 1 [2] (demo_timeout 1))\<lparr>rn_ticks_since_reset := Suc k\<rparr>" using w(3) by simp
  ultimately show ?case by blast
qed

definition demo_request :: message where
  "demo_request = RequestVote \<lparr>rv_term = 1, rv_candidate_id = 1, rv_last_log_index = 0, rv_last_log_term = 0\<rparr>"

text \<open>The first election: the request of replica 1 reaches the inbox of replica 2.\<close>

lemma demo_candidate:
  assumes "sh_node sh = (raft_node_new 1 [2] (demo_timeout 1))\<lparr>rn_ticks_since_reset := demo_timeout 1 - 1\<rparr>"
  obtains sh' where "shell_turn map_tree plain_codec Tick (sh\<lparr>sh_outbox := []\<rparr>) = Some sh'" and "sh_outbox sh' = [(2, demo_request)]"
    and "rn_current_term (sh_node sh') = 1" and "rn_log (sh_node sh') = []"
proof -
  have T: "10 \<le> demo_timeout 1" "demo_timeout 1 < 20" using draw_timeout_range by (simp_all add: demo_timeout_def)
  let ?n = "(raft_node_new 1 [2] (demo_timeout 1))\<lparr>rn_current_term := 1, rn_voted_for := Some 1, rn_role := Candidate {1}\<rparr>"
  have st: "step (sh_node (sh\<lparr>sh_outbox := []\<rparr>)) Tick = Some (?n, [Persist, Send 2 demo_request])"
    using T unfolding assms raft_node_new_def
    by (simp add: assms core_defs demo_request_def)
  obtain sh' where sh': "shell_turn map_tree plain_codec Tick (sh\<lparr>sh_outbox := []\<rparr>) = Some sh'"
    using st by (simp add: shell_turn_def Let_def)
  then show ?thesis
  proof (cases rule: shell_turn_cases)
    case (1 n effs n' ticks sh1)
    then have "n = ?n" "effs = [Persist, Send 2 demo_request]" using st by simp_all
    then show ?thesis using that [OF sh'] 1(2,6,7) by (auto simp: set_election_timeout_def raft_node_new_def log_new_def)
  qed
qed

lemma demo_election_run:
  obtains w w' where "demo_step\<^sup>*\<^sup>* demo_world w" and "demo_step\<^sup>*\<^sup>* w w'" and "rh_inbox (rw_hosts w' 2) = [(1, demo_request)]"
    and "rn_current_term (sh_node (rh_shell (rw_hosts w 1))) = 1"
proof -
  have "10 \<le> demo_timeout 1" unfolding demo_timeout_def using draw_timeout_range by blast
  then have "demo_timeout 1 - 1 < demo_timeout 1" by simp
  then obtain w sh where w: "demo_step\<^sup>*\<^sup>* demo_world w" "w = demo_world\<lparr>rw_hosts := demo_host(1 := (demo_host 1)\<lparr>rh_shell := sh\<rparr>)\<rparr>"
      "sh_node sh = (raft_node_new 1 [2] (demo_timeout 1))\<lparr>rn_ticks_since_reset := demo_timeout 1 - 1\<rparr>"
    using demo_ticks by blast
  obtain sh' where sh': "shell_turn map_tree plain_codec Tick (sh\<lparr>sh_outbox := []\<rparr>) = Some sh'" "sh_outbox sh' = [(2, demo_request)]"
      "rn_current_term (sh_node sh') = 1" "rn_log (sh_node sh') = []" by (rule demo_candidate [OF w(3)])
  obtain b where "demo_enc demo_request = Inr b" "demo_dec b = Inr demo_request"
    using wire_json_laws [OF wr_message_ok] unfolding json_laws_def by blast
  then obtain rq where rq: "http_send demo_enc ((rh_transport (demo_host 1))\<lparr>ht_self_id := 1\<rparr>) 2 demo_request = [rq]"
      "http_receive demo_dec demo_base 2 rq = Some (1, demo_request)"
    using sent_is_received [of 1 "rh_transport (demo_host 1)" 2 demo_base demo_enc demo_request b demo_dec]
    by (auto simp: u64_max_def demo_host_def http_transport_new_def peer_bases_def demo_N_def)
  let ?h = "(demo_host 1)\<lparr>rh_shell := sh'\<rparr>"
  have "host_turn map_tree plain_codec (http_send demo_enc) Tick (rw_hosts w 1) = Some (?h, [rq])"
    using w(2) sh'(1,2) rq(1) by (simp add: host_turn_def post_all_def demo_host_def http_transport_new_def)
  note turn = this
  let ?w = "w\<lparr>rw_hosts := (rw_hosts w)(1 := ?h\<lparr>rh_inbox := [], rh_proposals := []\<rparr>), rw_wire := rw_wire w @ [rq]\<rparr>"
  have one: "demo_step w ?w"
    by (rule loop [where tick = True and ev = Tick, OF _ refl _ turn])
      (use w(2) sh'(4) in \<open>simp_all add: pick_event_def demo_host_def demo_N_def log_fits_def\<close>)
  let ?w' = "?w\<lparr>rw_hosts := (rw_hosts ?w)(2 := (rw_hosts ?w 2)\<lparr>rh_inbox := fst (raft_message INBOX_CAPACITY 1 demo_request (rh_inbox (rw_hosts ?w 2)))\<rparr>),
      rw_wire := remove1 rq (rw_wire ?w)\<rparr>"
  have two: "demo_step ?w ?w'" by (rule arrive [where p = rq]) (use rq(2) in \<open>simp_all add: demo_N_def\<close>)
  show ?thesis
  proof (rule that)
    show "demo_step\<^sup>*\<^sup>* demo_world ?w" using w(1) one by (rule rtranclp.rtrancl_into_rtrancl)
    show "demo_step\<^sup>*\<^sup>* ?w ?w'" using two by blast
    show "rh_inbox (rw_hosts ?w' 2) = [(1, demo_request)]"
      using w(2) by (simp add: raft_message_def deliver_def INBOX_CAPACITY_def demo_world_def demo_host_def)
    show "rn_current_term (sh_node (rh_shell (rw_hosts ?w 1))) = 1" using sh'(3) by simp
  qed
qed

lemma demo_hypotheses: "distinct demo_N" "\<forall>i \<in> set demo_N. fmlookup fmempty = (Map.empty :: bytes \<rightharpoonup> bytes)"
  by (simp_all add: demo_N_def fmempty.rep_eq)

text \<open>
  C10 (a deployment runs the protocol): replicas that the server's \<open>main\<close> started on empty storage, with the command line naming
  their peers, and that exchange messages through the HTTP transport and the message route, are at every moment in a state that
  the cluster of the core can reach: every node, the state its storage would recover, and what it applied are the cluster's, and
  whatever is in an inbox or under way was sent by its sender to its receiver. Packets may be lost, delayed, reordered
  and dropped at a full inbox; replicas may crash between any two effects of a turn and restart (each storage operation is
  done or not done as a whole); a replica lists its peers in any order.
\<close>

theorem deployment_refines:
  assumes "sled_laws sl view" and "codec_laws c" and "http_configured enc dec base N" and "distinct N"
    and "lists_keys key_order"
    and "\<forall>i \<in> set N. view (storage i) = Map.empty" and "deployed sl c key_order base N storage nanos w0"
    and "(wstep sl c (http_send enc) (http_receive dec base) N)\<^sup>*\<^sup>* w0 w"
  shows "\<exists>timeout s. reachable N timeout s \<and> wire_mirrors (http_receive dec base) N s (rw_wire w) \<and>
    (\<forall>i \<in> set N. let h = rw_hosts w i in
       sh_node (rh_shell h) = cl_node s i \<and> sh_applied (rh_shell h) = cl_applied s i \<and>
       load_hard_state sl c (sh_storage (rh_shell h)) = Inr (d_hard (cl_disk s i)) \<and>
       load_log sl c (sh_storage (rh_shell h)) = Inr (d_log (cl_disk s i)) \<and>
       (\<forall>(sender, m) \<in> set (rh_inbox h). (sender, i, m) \<in> cl_net s))"
proof -
  obtain timeout a s where s: "reachable N timeout s" "mirrors view c (http_owns base N) (http_receive dec base) N w s"
    using deployment_run [OF assms] by blast
  then show ?thesis
    using load_log_stores [OF assms(1,2)] load_hard_stores [OF assms(1)]
    by (intro exI [of _ timeout] exI [of _ s]) (simp add: mirrors_def host_mirrors_def Let_def)
qed

theorem deployment_refines_witness:
  "\<exists>w timeout s. demo_step\<^sup>*\<^sup>* demo_world w \<and> rh_inbox (rw_hosts w 2) = [(1, demo_request)] \<and> reachable demo_N timeout s \<and>
     (1, 2, demo_request) \<in> cl_net s \<and> sh_node (rh_shell (rw_hosts w 1)) = cl_node s 1"
proof -
  obtain w w' where w: "demo_step\<^sup>*\<^sup>* demo_world w" "demo_step\<^sup>*\<^sup>* w w'" "rh_inbox (rw_hosts w' 2) = [(1, demo_request)]"
    by (rule demo_election_run)
  note run = rtranclp_trans [OF w(1,2)]
  obtain timeout s where "reachable demo_N timeout s"
      "\<forall>i \<in> set demo_N. sh_node (rh_shell (rw_hosts w' i)) = cl_node s i \<and>
         (\<forall>(sender, m) \<in> set (rh_inbox (rw_hosts w' i)). (sender, i, m) \<in> cl_net s)"
    using deployment_refines [OF map_tree_laws plain_codec_laws demo_configured demo_hypotheses(1) demo_lists_keys
        demo_hypotheses(2) demo_deployed run] unfolding Let_def by blast
  then show ?thesis using run w(3) by (intro exI [of _ w'] exI [of _ timeout] exI [of _ s]) (simp add: demo_N_def)
qed

text \<open>
  C11 (deployed replicas agree): what any two replicas of such a deployment handed to their apply loops since their last start,
  at any two moments, agrees: one stream is a prefix of the other. Crashes fall between effects, as in the claim before.
\<close>

theorem deployment_agrees:
  assumes "sled_laws sl view" and "codec_laws c" and "http_configured enc dec base N" and "distinct N"
    and "lists_keys key_order"
    and "\<forall>i \<in> set N. view (storage i) = Map.empty" and "deployed sl c key_order base N storage nanos w0"
    and "(wstep sl c (http_send enc) (http_receive dec base) N)\<^sup>*\<^sup>* w0 w"
    and "(wstep sl c (http_send enc) (http_receive dec base) N)\<^sup>*\<^sup>* w w'"
    and "i \<in> set N" and "j \<in> set N"
  shows "prefix (sh_applied (rh_shell (rw_hosts w i))) (sh_applied (rh_shell (rw_hosts w' j))) \<or>
    prefix (sh_applied (rh_shell (rw_hosts w' j))) (sh_applied (rh_shell (rw_hosts w i)))"
proof -
  obtain timeout a s where s: "reachable N timeout s" "sim N a s" "mirrors view c (http_owns base N) (http_receive dec base) N w s"
    using deployment_run [OF assms(1-8)] by blast
  obtain s' where s': "(cstep N)\<^sup>*\<^sup>* s s'" "mirrors view c (http_owns base N) (http_receive dec base) N w' s'"
    using http.run_mirrors [OF assms(1-4,9) s(2,3)] by blast
  have "sh_applied (rh_shell (rw_hosts w i)) = cl_applied s i" "sh_applied (rh_shell (rw_hosts w' j)) = cl_applied s' j"
    using s(3) s'(2) assms(10,11) by (simp_all add: mirrors_def host_mirrors_def)
  then show ?thesis using applied_prefixes [OF assms(4) s(1) s'(1) assms(10,11)] by simp
qed

theorem deployment_agrees_witness:
  "\<exists>w w'. demo_step\<^sup>*\<^sup>* demo_world w \<and> demo_step\<^sup>*\<^sup>* w w' \<and> rh_inbox (rw_hosts w' 2) = [(1, demo_request)] \<and>
     (prefix (sh_applied (rh_shell (rw_hosts w 1))) (sh_applied (rh_shell (rw_hosts w' 2))) \<or>
      prefix (sh_applied (rh_shell (rw_hosts w' 2))) (sh_applied (rh_shell (rw_hosts w 1))))"
proof -
  obtain w w' where w: "demo_step\<^sup>*\<^sup>* demo_world w" "demo_step\<^sup>*\<^sup>* w w'" "rh_inbox (rw_hosts w' 2) = [(1, demo_request)]"
    by (rule demo_election_run)
  have "1 \<in> set demo_N" "2 \<in> set demo_N" by (simp_all add: demo_N_def)
  then show ?thesis
    using w deployment_agrees [OF map_tree_laws plain_codec_laws demo_configured demo_hypotheses(1) demo_lists_keys
        demo_hypotheses(2) demo_deployed w(1,2)] by blast
qed

end
