(* ===== verification/Kubectl.thy ===== *)
theory Kubectl
  imports Runtime Text_Format
begin

text \<open>
  The command line client of \<^verbatim>\<open>src/bin/mykubectl.rs\<close>: apply, get and delete with their tables. A command runs on the
  client's world, prints to standard output and ends with success, an error or a panic. Parameters are the YAML library,
  the file system (the outcome of reading a file), the clock and the date parser.
\<close>

subsection \<open>Commands\<close>

text \<open>The result is \<open>None\<close> for a panic.\<close>

type_synonym 'w cli = "'w \<Rightarrow> 'w \<times> string \<times> (any_error + unit) panics"

definition say :: "string \<Rightarrow> 'w cli" where
  "say text w = (w, text, Some (Inr ()))"

definition bail :: "any_error \<Rightarrow> 'w cli" where
  "bail e w = (w, [], Some (Inl e))"

definition after :: "('w, 'x) call \<Rightarrow> ('x \<Rightarrow> 'w cli) \<Rightarrow> 'w cli" where
  "after f g w = (case f w of (w', Inl e) \<Rightarrow> (w', [], Some (Inl (Cl e))) | (w', Inr x) \<Rightarrow> g x w')"

definition println :: "string \<Rightarrow> string" where
  "println s = s @ newline"

text \<open>The debug form of a string; control characters without a short escape and text outside ASCII are not modelled.\<close>

definition debug_char :: "char \<Rightarrow> string" where
  "debug_char c =
     (if c = CHR 0x22 then [CHR 0x5C, CHR 0x22] else if c = CHR 0x5C then [CHR 0x5C, CHR 0x5C]
      else if c = CHR 0x0A then [CHR 0x5C, CHR ''n''] else if c = CHR 0x0D then [CHR 0x5C, CHR ''r'']
      else if c = CHR 0x09 then [CHR 0x5C, CHR ''t''] else if c = CHR 0x00 then [CHR 0x5C, CHR ''0'']
      else [c])"

definition debug_str :: "string \<Rightarrow> string" where
  "debug_str s = CHR 0x22 # concat (map debug_char s) @ [CHR 0x22]"

record yaml =
  ym_kind :: "string \<Rightarrow> string + string"
  ym_pod :: "string \<Rightarrow> string + pod"
  ym_rs :: "string \<Rightarrow> string + replicaset"
  ym_svc :: "string \<Rightarrow> string + service"
  ym_show_pod :: "pod \<Rightarrow> string + string"
  ym_show_rs :: "replicaset \<Rightarrow> string + string"
  ym_show_node :: "node \<Rightarrow> string + string"
  ym_show_svc :: "service \<Rightarrow> string + string"
  ym_show_ep :: "endpoints \<Rightarrow> string + string"

record clock =
  ck_now :: int
  ck_parse_rfc3339 :: "string \<Rightarrow> int option"

subsection \<open>Apply\<close>

definition apply_pod :: "('w, 'j) client \<Rightarrow> pod \<Rightarrow> 'w cli" where
  "apply_pod cl p =
     after (client_get_pod cl (om_name (pod_metadata p))) (\<lambda>r.
       case r of
         Some existing \<Rightarrow>
           after (client_replace_pod_spec cl
               (p\<lparr>pod_metadata := (pod_metadata p)\<lparr>om_resource_version := om_resource_version (pod_metadata existing)\<rparr>\<rparr>))
             (\<lambda>updated. say (println (''pod/'' @ om_name (pod_metadata updated) @ '' replaced'')))
       | None \<Rightarrow>
           after (client_create_pod cl p) (\<lambda>created. say (println (''pod/'' @ om_name (pod_metadata created) @ '' created''))))"

definition apply_replicaset :: "('w, 'j) client \<Rightarrow> replicaset \<Rightarrow> 'w cli" where
  "apply_replicaset cl rs =
     after (client_get_replicaset cl (om_name (rs_metadata rs))) (\<lambda>r.
       case r of
         Some existing \<Rightarrow>
           after (client_replace_replicaset_spec cl
               (rs\<lparr>rs_metadata := (rs_metadata rs)\<lparr>om_resource_version := om_resource_version (rs_metadata existing)\<rparr>\<rparr>))
             (\<lambda>updated. say (println (''replicaset/'' @ om_name (rs_metadata updated) @ '' replaced'')))
       | None \<Rightarrow>
           after (client_create_replicaset cl rs) (\<lambda>created. say (println (''replicaset/'' @ om_name (rs_metadata created) @ '' created''))))"

text \<open>A manifest without a cluster address takes over the assigned one.\<close>

definition keep_cluster_ip :: "service \<Rightarrow> service \<Rightarrow> service" where
  "keep_cluster_ip existing svc =
     (if sv_cluster_ip (svc_spec svc) = None
      then svc\<lparr>svc_spec := (svc_spec svc)\<lparr>sv_cluster_ip := sv_cluster_ip (svc_spec existing)\<rparr>\<rparr> else svc)"

definition apply_service :: "('w, 'j) client \<Rightarrow> service \<Rightarrow> 'w cli" where
  "apply_service cl svc =
     after (client_get_service cl (om_name (svc_metadata svc))) (\<lambda>r.
       case r of
         Some existing \<Rightarrow>
           after (client_replace_service_spec cl (keep_cluster_ip existing
               (svc\<lparr>svc_metadata := (svc_metadata svc)\<lparr>om_resource_version := om_resource_version (svc_metadata existing)\<rparr>\<rparr>)))
             (\<lambda>updated. say (println (''service/'' @ om_name (svc_metadata updated) @ '' replaced'')))
       | None \<Rightarrow>
           after (client_create_service cl svc) (\<lambda>created. say (println (''service/'' @ om_name (svc_metadata created) @ '' created''))))"

definition parsed :: "string \<Rightarrow> string + 'x \<Rightarrow> ('x \<Rightarrow> 'w cli) \<Rightarrow> 'w cli" where
  "parsed what r f = (case r of Inl e \<Rightarrow> bail (Ctx what (Msg e)) | Inr x \<Rightarrow> f x)"

definition kubectl_apply :: "yaml \<Rightarrow> ('w, 'j) client \<Rightarrow> string \<Rightarrow> string + string \<Rightarrow> 'w cli" where
  "kubectl_apply ym cl file contents =
     (case contents of
        Inl e \<Rightarrow> bail (Ctx (''reading '' @ debug_str file) (Io e))
      | Inr text \<Rightarrow>
          parsed ''reading kind from manifest'' (ym_kind ym text) (\<lambda>kind.
            if kind = ''Pod'' then parsed ''parsing Pod YAML'' (ym_pod ym text) (apply_pod cl)
            else if kind = ''ReplicaSet'' then parsed ''parsing ReplicaSet YAML'' (ym_rs ym text) (apply_replicaset cl)
            else if kind = ''Service'' then parsed ''parsing Service YAML'' (ym_svc ym text) (apply_service cl)
            else bail (Msg (''unsupported kind '' @ debug_str kind @ ''; only Pod, ReplicaSet and Service are supported''))))"

subsection \<open>Columns\<close>

fun phase_name :: "pod_phase \<Rightarrow> string" where
  "phase_name Pending = ''Pending''"
| "phase_name Running = ''Running''"
| "phase_name Succeeded = ''Succeeded''"
| "phase_name Failed = ''Failed''"
| "phase_name Unknown = ''Unknown''"

definition phase_str :: "pod \<Rightarrow> string" where
  "phase_str p = phase_name (case pod_status p of Some s \<Rightarrow> ps_phase s | None \<Rightarrow> Pending)"

definition age_of_secs :: "int \<Rightarrow> string" where
  "age_of_secs s =
     (if s < 0 then ''0s'' else if s < 60 then show_nat (nat s) @ ''s''
      else if s < 3600 then show_nat (nat (s div 60)) @ ''m''
      else if s < 86400 then show_nat (nat (s div 3600)) @ ''h''
      else show_nat (nat (s div 86400)) @ ''d'')"

definition age_str :: "clock \<Rightarrow> string \<Rightarrow> string" where
  "age_str ck ts =
     (case ck_parse_rfc3339 ck ts of None \<Rightarrow> ''<bad-ts>'' | Some created \<Rightarrow> age_of_secs (num_seconds (ck_now ck - created)))"

definition age_column :: "clock \<Rightarrow> object_meta \<Rightarrow> string" where
  "age_column ck m = (case om_creation_timestamp m of Some ts \<Rightarrow> age_str ck ts | None \<Rightarrow> ''<unknown>'')"

definition sp :: string where
  "sp = '' ''"

subsection \<open>Tables\<close>

text \<open>A row of the pod table; the sum of the restart counts is a \<open>u32\<close>, so it can panic.\<close>

definition pod_row :: "clock \<Rightarrow> pod \<Rightarrow> string panics" where
  "pod_row ck p =
     (let total = length (pc_containers (pod_spec p));
          (ready, restarts) = (case pod_status p of
             Some s \<Rightarrow> (length (filter cs_ready (ps_container_statuses s)), sum_list (map cs_restart_count (ps_container_statuses s)))
           | None \<Rightarrow> (0, 0));
          ip = (case pod_status p of Some s \<Rightarrow> (case ps_pod_ip s of Some i \<Rightarrow> i | None \<Rightarrow> ''<none>'') | None \<Rightarrow> ''<none>'')
      in if restarts \<le> u32_max
         then Some (println (pad 20 (om_name (pod_metadata p)) @ sp @ pad 10 (phase_str p) @ sp @
                pad 8 (show_nat ready @ ''/'' @ show_nat total) @ sp @ pad 10 (show_nat restarts) @ sp @ pad 16 ip @ sp @
                age_column ck (pod_metadata p)))
         else None)"

text \<open>What was printed before a panic stays printed; the flag says whether the table is complete.\<close>

fun pod_rows :: "clock \<Rightarrow> pod list \<Rightarrow> string \<times> bool" where
  "pod_rows ck [] = ([], True)"
| "pod_rows ck (p # ps) =
     (case pod_row ck p of None \<Rightarrow> ([], False) | Some row \<Rightarrow> (case pod_rows ck ps of (rest, fine) \<Rightarrow> (row @ rest, fine)))"

definition print_pod_table :: "clock \<Rightarrow> pod list \<Rightarrow> 'w cli" where
  "print_pod_table ck pods w =
     (case pod_rows ck pods of
        (rows, fine) \<Rightarrow>
          (w, println (pad 20 ''NAME'' @ sp @ pad 10 ''PHASE'' @ sp @ pad 8 ''READY'' @ sp @ pad 10 ''RESTARTS'' @ sp @ pad 16 ''IP'' @ '' AGE'') @ rows,
           if fine then Some (Inr ()) else None))"

definition rs_row :: "clock \<Rightarrow> replicaset \<Rightarrow> string" where
  "rs_row ck rs =
     (let (current, ready) = (case rs_status rs of Some s \<Rightarrow> (rst_replicas s, rst_ready_replicas s) | None \<Rightarrow> (0, 0))
      in println (pad 20 (om_name (rs_metadata rs)) @ sp @ pad 9 (show_nat (rss_replicas (rs_spec rs))) @ sp @
           pad 9 (show_nat current) @ sp @ pad 9 (show_nat ready) @ sp @ age_column ck (rs_metadata rs)))"

definition print_rs_table :: "clock \<Rightarrow> replicaset list \<Rightarrow> 'w cli" where
  "print_rs_table ck items =
     say (println (pad 20 ''NAME'' @ sp @ pad 9 ''DESIRED'' @ sp @ pad 9 ''CURRENT'' @ sp @ pad 9 ''READY'' @ '' AGE'') @
       concat (map (rs_row ck) items))"

definition READY_WINDOW_SECS :: int where
  "READY_WINDOW_SECS = 30"

definition node_row :: "clock \<Rightarrow> node \<Rightarrow> string" where
  "node_row ck n =
     println (pad 16 (om_name (node_metadata n)) @ sp @
       pad 8 (if is_ready (ck_parse_rfc3339 ck) n (ck_now ck) READY_WINDOW_SECS then ''True'' else ''False'') @ sp @
       age_column ck (node_metadata n))"

definition print_node_table :: "clock \<Rightarrow> node list \<Rightarrow> 'w cli" where
  "print_node_table ck items =
     say (println (pad 16 ''NAME'' @ sp @ pad 8 ''READY'' @ '' AGE'') @ concat (map (node_row ck) items))"

definition svc_row :: "clock \<Rightarrow> service \<Rightarrow> string" where
  "svc_row ck svc =
     println (pad 16 (om_name (svc_metadata svc)) @ sp @
       pad 14 (case sv_cluster_ip (svc_spec svc) of Some ip \<Rightarrow> ip | None \<Rightarrow> ''<none>'') @ sp @
       pad 10 (show_nat (sv_port (svc_spec svc)) @ ''/TCP'') @ sp @ age_column ck (svc_metadata svc))"

definition print_svc_table :: "clock \<Rightarrow> service list \<Rightarrow> 'w cli" where
  "print_svc_table ck items =
     say (println (pad 16 ''NAME'' @ sp @ pad 14 ''CLUSTER-IP'' @ sp @ pad 10 ''PORT'' @ '' AGE'') @ concat (map (svc_row ck) items))"

definition ep_row :: "endpoints \<Rightarrow> string" where
  "ep_row ep =
     println (pad 20 (om_name (ep_metadata ep)) @ sp @
       (if ep_addresses ep = [] then ''<none>''
        else join '','' (map (\<lambda>a. ea_ip a @ '':'' @ show_nat (ea_port a)) (ep_addresses ep))))"

subsection \<open>Get\<close>

definition print_item :: "string \<Rightarrow> string + string \<Rightarrow> 'w cli" where
  "print_item what r = parsed what r say"

text \<open>The body of a watch printed line by line; the first error ends the command.\<close>

fun event_name :: "watch_event_type \<Rightarrow> string" where
  "event_name Added = ''Added''"
| "event_name Modified = ''Modified''"
| "event_name Deleted = ''Deleted''"

fun watch_rows :: "string option \<Rightarrow> (client_error + pod watch_event) list \<Rightarrow> string \<times> (any_error + unit)" where
  "watch_rows want [] = ([], Inr ())"
| "watch_rows want (Inl e # rest) = ([], Inl (Cl e))"
| "watch_rows want (Inr ev # rest) =
     (let name = om_name (pod_metadata (we_object ev)) in
      if want \<noteq> None \<and> want \<noteq> Some name then watch_rows want rest
      else (case watch_rows want rest of (rows, r) \<Rightarrow>
              (println (pad 10 (event_name (we_type ev)) @ sp @ pad 10 (phase_str (we_object ev)) @ sp @ name) @ rows, r)))"

definition kubectl_watch_pods :: "('w, 'j) client \<Rightarrow> string option \<Rightarrow> 'w cli" where
  "kubectl_watch_pods cl name =
     after (client_watch_pods cl None) (\<lambda>items w.
       case watch_rows name items of (rows, r) \<Rightarrow> (w, println (pad 10 ''EVENT'' @ sp @ pad 10 ''PHASE'' @ '' NAME'') @ rows, Some r))"

definition get_pods :: "yaml \<Rightarrow> clock \<Rightarrow> ('w, 'j) client \<Rightarrow> string option \<Rightarrow> bool \<Rightarrow> 'w cli" where
  "get_pods ym ck cl name watch =
     (if watch then kubectl_watch_pods cl name
      else (case name of
              Some n \<Rightarrow> after (client_get_pod cl n) (\<lambda>r.
                case r of Some p \<Rightarrow> print_item ''serializing pod'' (ym_show_pod ym p)
                        | None \<Rightarrow> bail (Msg (''pod/'' @ debug_str n @ '' not found'')))
            | None \<Rightarrow> after (client_list_pods cl) (print_pod_table ck)))"

definition get_replicasets :: "yaml \<Rightarrow> clock \<Rightarrow> ('w, 'j) client \<Rightarrow> string option \<Rightarrow> 'w cli" where
  "get_replicasets ym ck cl name =
     (case name of
        Some n \<Rightarrow> after (client_get_replicaset cl n) (\<lambda>r.
          case r of Some rs \<Rightarrow> print_item ''serializing replicaset'' (ym_show_rs ym rs)
                  | None \<Rightarrow> bail (Msg (''replicaset/'' @ debug_str n @ '' not found'')))
      | None \<Rightarrow> after (client_list_replicasets cl) (print_rs_table ck))"

definition get_nodes :: "yaml \<Rightarrow> clock \<Rightarrow> ('w, 'j) client \<Rightarrow> string option \<Rightarrow> 'w cli" where
  "get_nodes ym ck cl name =
     (case name of
        Some n \<Rightarrow> after (client_get_node cl n) (\<lambda>r.
          case r of Some node \<Rightarrow> print_item ''serializing node'' (ym_show_node ym node)
                  | None \<Rightarrow> bail (Msg (''node/'' @ debug_str n @ '' not found'')))
      | None \<Rightarrow> after (client_list_nodes cl) (print_node_table ck))"

definition get_services :: "yaml \<Rightarrow> clock \<Rightarrow> ('w, 'j) client \<Rightarrow> string option \<Rightarrow> 'w cli" where
  "get_services ym ck cl name =
     (case name of
        Some n \<Rightarrow> after (client_get_service cl n) (\<lambda>r.
          case r of Some svc \<Rightarrow> print_item ''serializing service'' (ym_show_svc ym svc)
                  | None \<Rightarrow> bail (Msg (''service/'' @ debug_str n @ '' not found'')))
      | None \<Rightarrow> after (client_list_services cl) (print_svc_table ck))"

definition get_endpoints_cmd :: "yaml \<Rightarrow> ('w, 'j) client \<Rightarrow> string option \<Rightarrow> 'w cli" where
  "get_endpoints_cmd ym cl name =
     (case name of
        Some n \<Rightarrow> after (client_get_endpoints cl n) (\<lambda>r.
          case r of Some ep \<Rightarrow> print_item ''serializing endpoints'' (ym_show_ep ym ep)
                  | None \<Rightarrow> bail (Msg (''endpoints/'' @ debug_str n @ '' not found'')))
      | None \<Rightarrow> after (client_list_endpoints cl) (\<lambda>items.
          say (println (pad 20 ''NAME'' @ '' ENDPOINTS'') @ concat (map ep_row items))))"

definition kubectl_get :: "yaml \<Rightarrow> clock \<Rightarrow> ('w, 'j) client \<Rightarrow> string \<Rightarrow> string option \<Rightarrow> bool \<Rightarrow> 'w cli" where
  "kubectl_get ym ck cl resource name watch =
     (if resource \<in> {''pod'', ''pods''} then get_pods ym ck cl name watch
      else if resource \<in> {''rs'', ''replicaset'', ''replicasets''} then get_replicasets ym ck cl name
      else if resource \<in> {''node'', ''nodes''} then get_nodes ym ck cl name
      else if resource \<in> {''svc'', ''service'', ''services''} then get_services ym ck cl name
      else if resource \<in> {''ep'', ''endpoints''} then get_endpoints_cmd ym cl name
      else bail (Msg (''unsupported resource '' @ debug_str resource @
             ''; supported: pod(s), replicaset(s)/rs, node(s), svc, endpoints'')))"

subsection \<open>Delete\<close>

definition delete_pod_cmd :: "('w, 'j) client \<Rightarrow> string \<Rightarrow> 'w cli" where
  "delete_pod_cmd cl name =
     after (client_get_pod cl name) (\<lambda>r.
       case r of
         None \<Rightarrow> bail (Msg (''pod/'' @ debug_str name @ '' not found''))
       | Some p \<Rightarrow>
           (case om_resource_version (pod_metadata p) of
              None \<Rightarrow> bail (Msg (''pod/'' @ debug_str name @ '' has no resource version''))
            | Some rv \<Rightarrow> after (client_delete_pod cl name rv) (\<lambda>_. say (println (''pod/'' @ name @ '' deleted'')))))"

definition delete_replicaset_cmd :: "('w, 'j) client \<Rightarrow> string \<Rightarrow> 'w cli" where
  "delete_replicaset_cmd cl name =
     after (client_get_replicaset cl name) (\<lambda>r.
       case r of
         None \<Rightarrow> bail (Msg (''replicaset/'' @ debug_str name @ '' not found''))
       | Some rs \<Rightarrow>
           (case om_resource_version (rs_metadata rs) of
              None \<Rightarrow> bail (Msg (''replicaset/'' @ debug_str name @ '' has no resource version''))
            | Some rv \<Rightarrow> after (client_delete_replicaset cl name rv) (\<lambda>_. say (println (''replicaset/'' @ name @ '' deleted'')))))"

definition delete_service_cmd :: "('w, 'j) client \<Rightarrow> string \<Rightarrow> 'w cli" where
  "delete_service_cmd cl name =
     after (client_get_service cl name) (\<lambda>r.
       case r of
         None \<Rightarrow> bail (Msg (''service/'' @ debug_str name @ '' not found''))
       | Some svc \<Rightarrow>
           (case om_resource_version (svc_metadata svc) of
              None \<Rightarrow> bail (Msg (''service/'' @ debug_str name @ '' has no resource version''))
            | Some rv \<Rightarrow> after (client_delete_service cl name rv) (\<lambda>_. say (println (''service/'' @ name @ '' deleted'')))))"

definition kubectl_delete :: "('w, 'j) client \<Rightarrow> string \<Rightarrow> string \<Rightarrow> 'w cli" where
  "kubectl_delete cl resource name =
     (if resource \<in> {''pod'', ''pods''} then delete_pod_cmd cl name
      else if resource \<in> {''rs'', ''replicaset'', ''replicasets''} then delete_replicaset_cmd cl name
      else if resource \<in> {''svc'', ''service'', ''services''} then delete_service_cmd cl name
      else bail (Msg (''unsupported resource '' @ debug_str resource @ ''; supported: pod(s), replicaset(s)/rs, svc'')))"

subsection \<open>The program\<close>

datatype command =
    Cmd_Apply string
  | Cmd_Get string "string option" bool
  | Cmd_Delete string string

text \<open>The arguments are parsed by a library; \<open>read_file\<close> is the outcome of reading a path.\<close>

fun kubectl_main :: "yaml \<Rightarrow> clock \<Rightarrow> (string \<Rightarrow> string + string) \<Rightarrow> string \<Rightarrow> 'w http \<Rightarrow> 'j client_codecs \<Rightarrow> command \<Rightarrow> 'w cli" where
  "kubectl_main ym ck read_file server http kc (Cmd_Apply file) = kubectl_apply ym (client_new server http kc) file (read_file file)"
| "kubectl_main ym ck read_file server http kc (Cmd_Get resource name watch) =
     kubectl_get ym ck (client_new server http kc) resource name watch"
| "kubectl_main ym ck read_file server http kc (Cmd_Delete resource name) = kubectl_delete (client_new server http kc) resource name"

end
