(* ===== verification/Kubectl_Laws.thy ===== *)
theory Kubectl_Laws
  imports Kubectl Http_Cluster Api_Alloc
begin

text \<open>
  What the command line client of \<^verbatim>\<open>src/bin/mykubectl.rs\<close> relies on: a kind of manifests whose calls perform the operations
  of the joint specification (locale \<open>manifest_kind\<close>, which extends \<open>kind_part\<close>). Applying and deleting are proved once
  inside it; pods, ReplicaSets and services are its interpretations, through client, routes, handlers and store.
\<close>

subsection \<open>The common shape of the commands\<close>

definition apply_object :: "string \<Rightarrow> 'a kind \<Rightarrow> ('a \<Rightarrow> 'a \<Rightarrow> 'a) \<Rightarrow> (string \<Rightarrow> ('w, 'a option) call) \<Rightarrow> ('a \<Rightarrow> ('w, 'a) call) \<Rightarrow>
    ('a \<Rightarrow> ('w, 'a) call) \<Rightarrow> 'a \<Rightarrow> 'w cli" where
  "apply_object label k keep get create replace x =
     after (get (kd_name k x)) (\<lambda>r.
       case r of
         Some e \<Rightarrow> after (replace (keep e (kd_map_meta k (\<lambda>m. m\<lparr>om_resource_version := om_resource_version (kd_meta k e)\<rparr>) x)))
                     (\<lambda>u. say (println (label @ ''/'' @ kd_name k u @ '' replaced'')))
       | None \<Rightarrow> after (create x) (\<lambda>u. say (println (label @ ''/'' @ kd_name k u @ '' created''))))"

definition delete_object :: "string \<Rightarrow> 'a kind \<Rightarrow> (string \<Rightarrow> ('w, 'a option) call) \<Rightarrow> (string \<Rightarrow> string \<Rightarrow> ('w, unit) call) \<Rightarrow>
    string \<Rightarrow> 'w cli" where
  "delete_object label k get delete n =
     after (get n) (\<lambda>r.
       case r of
         None \<Rightarrow> bail (Msg (label @ ''/'' @ debug_str n @ '' not found''))
       | Some x \<Rightarrow>
           (case om_resource_version (kd_meta k x) of
              None \<Rightarrow> bail (Msg (label @ ''/'' @ debug_str n @ '' has no resource version''))
            | Some rv \<Rightarrow> after (delete n rv) (\<lambda>_. say (println (label @ ''/'' @ n @ '' deleted'')))))"

lemma set_version_records:
  "pod_metadata_update (\<lambda>m. m\<lparr>om_resource_version := v\<rparr>) p = p\<lparr>pod_metadata := (pod_metadata p)\<lparr>om_resource_version := v\<rparr>\<rparr>"
  "rs_metadata_update (\<lambda>m. m\<lparr>om_resource_version := v\<rparr>) r = r\<lparr>rs_metadata := (rs_metadata r)\<lparr>om_resource_version := v\<rparr>\<rparr>"
  "svc_metadata_update (\<lambda>m. m\<lparr>om_resource_version := v\<rparr>) s = s\<lparr>svc_metadata := (svc_metadata s)\<lparr>om_resource_version := v\<rparr>\<rparr>"
  by simp_all

lemma apply_shapes:
  "apply_pod cl = apply_object ''pod'' Pod_kind (\<lambda>e x. x) (client_get_pod cl) (client_create_pod cl) (client_replace_pod_spec cl)"
  "apply_replicaset cl = apply_object ''replicaset'' ReplicaSet_kind (\<lambda>e x. x) (client_get_replicaset cl) (client_create_replicaset cl)
     (client_replace_replicaset_spec cl)"
  "apply_service cl = apply_object ''service'' Service_kind keep_cluster_ip (client_get_service cl) (client_create_service cl)
     (client_replace_service_spec cl)"
  by (simp_all add: fun_eq_iff apply_pod_def apply_replicaset_def apply_service_def apply_object_def Pod_kind_def ReplicaSet_kind_def
      Service_kind_def set_version_records cong: option.case_cong)

lemma delete_shapes:
  "delete_pod_cmd cl = delete_object ''pod'' Pod_kind (client_get_pod cl) (client_delete_pod cl)"
  "delete_replicaset_cmd cl = delete_object ''replicaset'' ReplicaSet_kind (client_get_replicaset cl) (client_delete_replicaset cl)"
  "delete_service_cmd cl = delete_object ''service'' Service_kind (client_get_service cl) (client_delete_service cl)"
  by (simp_all add: fun_eq_iff delete_pod_cmd_def delete_replicaset_cmd_def delete_service_cmd_def delete_object_def Pod_kind_def
      ReplicaSet_kind_def Service_kind_def cong: option.case_cong)

subsection \<open>The contract\<close>

text \<open>The specification after the object of a name has become \<open>x\<close>.\<close>

definition stored :: "'a part \<Rightarrow> string \<Rightarrow> 'a option \<Rightarrow> api_spec \<Rightarrow> api_spec" where
  "stored pa n x a = (pa_put pa ((pa_get pa a)(n := x)) a)\<lparr>ap_rv := saturating_succ (ap_rv a)\<rparr>"

text \<open>The metadata that results from a manifest's and, if there was an object, its own.\<close>

definition merged_meta :: "object_meta option \<Rightarrow> object_meta \<Rightarrow> nat \<Rightarrow> object_meta \<Rightarrow> bool" where
  "merged_meta old new rv m \<longleftrightarrow>
     om_name m = om_name new \<and> om_labels m = om_labels new \<and> om_owner_references m = om_owner_references new \<and>
     om_resource_version m = Some (show_nat rv) \<and>
     (case old of
        None \<Rightarrow> om_uid m \<noteq> None \<and> om_creation_timestamp m \<noteq> None \<and> om_generation m = Some 1
      | Some e \<Rightarrow> om_uid m = om_uid e \<and> om_creation_timestamp m = om_creation_timestamp e \<and>
          om_generation m = Some ((case om_generation e of Some g \<Rightarrow> g | None \<Rightarrow> 0) + 1))"

locale manifest_kind = kind_part pa k js
  for pa :: "'a part" and k :: "'a kind" and js :: "'j codecs \<Rightarrow> ('a, 'j) json" +
  fixes R :: "'w \<Rightarrow> api_spec \<Rightarrow> bool" and err :: "store_error \<Rightarrow> client_error"
    and get :: "string \<Rightarrow> ('w, 'a option) call" and create :: "'a \<Rightarrow> ('w, 'a) call" and replace :: "'a \<Rightarrow> ('w, 'a) call"
    and delete :: "string \<Rightarrow> string \<Rightarrow> ('w, unit) call"
    and valid :: "'a \<Rightarrow> bool" and filled :: "api_spec \<Rightarrow> 'a \<Rightarrow> 'a \<Rightarrow> bool" and keep :: "'a \<Rightarrow> 'a \<Rightarrow> 'a"
  assumes kept_tidy: "R w a \<Longrightarrow> tidy k (pa_get pa a)"
    and get_law: "R w a \<Longrightarrow> url_safe n \<Longrightarrow> reads R (get n) w a (pa_get pa a n)"
    and create_law: "R w a \<Longrightarrow> valid x \<Longrightarrow> url_safe (kd_name k x) \<Longrightarrow> pa_get pa a (kd_name k x) = None \<Longrightarrow> \<exists>y. filled a x y \<Longrightarrow>
      \<exists>y uuid now. filled a x y \<and> performs R err id (create x) w (spec_op pa k (Create_op (stamp_for_create k uuid now y)) a)"
    and replace_law: "R w a \<Longrightarrow> valid x \<Longrightarrow> url_safe (kd_name k x) \<Longrightarrow>
      performs R err id (replace x) w (spec_op pa k (ReplaceSpec_op (kd_name k x) x) a)"
    and delete_law: "R w a \<Longrightarrow> url_safe n \<Longrightarrow> url_safe rv \<Longrightarrow> performs R err (\<lambda>_. ()) (delete n rv) w (spec_op pa k (Delete_op n rv) a)"
    and valid_rv: "valid (kd_map_meta k (\<lambda>m. m\<lparr>om_resource_version := v\<rparr>) x) = valid x"
    and keep_laws: "kd_meta k (keep e x) = kd_meta k x" "valid (keep e x) = valid x"
    and filled_meta: "filled a x y \<Longrightarrow> kd_meta k y = kd_meta k x"
begin

lemma kind_simps: "kd_meta k (kd_map_meta k f x) = f (kd_meta k x)" "kd_meta k (kd_clear_status k x) = kd_meta k x"
  "kd_meta k (kd_inherit_status k x y) = kd_meta k x"
  using kind by (simp_all add: resource_kind_def)

abbreviation with_version :: "'a \<Rightarrow> 'a \<Rightarrow> 'a" where
  "with_version e x \<equiv> kd_map_meta k (\<lambda>m. m\<lparr>om_resource_version := om_resource_version (kd_meta k e)\<rparr>) x"

lemma apply_creates:
  assumes "R w a" and "valid x" and "url_safe (kd_name k x)" and "pa_get pa a (kd_name k x) = None" and "\<exists>y. filled a x y"
  shows "\<exists>w' y u uuid now. apply_object label k keep get create replace x w =
      (w', println (label @ ''/'' @ kd_name k x @ '' created''), Some (Inr ())) \<and>
    R w' (stored pa (kd_name k x) (Some u) a) \<and> filled a x y \<and>
    u = set_rv k (saturating_succ (ap_rv a)) (stamp_for_create k uuid now y) \<and>
    merged_meta None (kd_meta k x) (saturating_succ (ap_rv a)) (kd_meta k u)"
proof -
  obtain w1 where w1: "get (kd_name k x) w = (w1, Inr None)" "R w1 a" using get_law [OF assms(1,3)] assms(4) by (auto simp: reads_def)
  obtain y uuid now where y: "filled a x y" "performs R err id (create x) w1 (spec_op pa k (Create_op (stamp_for_create k uuid now y)) a)"
    using create_law [OF w1(2) assms(2-5)] by blast
  let ?u = "set_rv k (saturating_succ (ap_rv a)) (stamp_for_create k uuid now y)"
  have nm: "kd_name k (stamp_for_create k uuid now y) = kd_name k x" "kd_name k ?u = kd_name k x"
    using filled_meta [OF y(1)] by (simp_all add: stamp_for_create_def set_rv_def kind_simps)
  have "spec_op pa k (Create_op (stamp_for_create k uuid now y)) a = (stored pa (kd_name k x) (Some ?u) a, Inr ?u)"
    using assms(4) nm(1) by (simp add: spec_op_def part_spec_def with_part_def spec_put_def stored_def)
  then obtain w2 where "create x w1 = (w2, Inr ?u)" "R w2 (stored pa (kd_name k x) (Some ?u) a)" using y(2) by (auto simp: performs_def)
  moreover have "merged_meta None (kd_meta k x) (saturating_succ (ap_rv a)) (kd_meta k ?u)"
    using filled_meta [OF y(1)] by (simp add: merged_meta_def stamp_for_create_def set_rv_def kind_simps)
  ultimately show ?thesis using w1 y(1) nm
    by (intro exI [of _ w2] exI [of _ y] exI [of _ ?u] exI [of _ uuid] exI [of _ now]) (simp add: apply_object_def after_def say_def)
qed

lemma apply_replaces:
  assumes "R w a" and "valid x" and "url_safe (kd_name k x)" and "pa_get pa a (kd_name k x) = Some e"
  shows "\<exists>w' u. apply_object label k keep get create replace x w =
      (w', println (label @ ''/'' @ kd_name k x @ '' replaced''), Some (Inr ())) \<and>
    R w' (stored pa (kd_name k x) (Some u) a) \<and> u = carry_over k e (saturating_succ (ap_rv a)) (keep e (with_version e x)) \<and>
    merged_meta (Some (kd_meta k e)) (kd_meta k x) (saturating_succ (ap_rv a)) (kd_meta k u)"
proof -
  obtain w1 where w1: "get (kd_name k x) w = (w1, Inr (Some e))" "R w1 a" using get_law [OF assms(1,3)] assms(4) by (auto simp: reads_def)
  obtain r where r: "om_resource_version (kd_meta k e) = Some (show_nat r)" using tidyD [OF kept_tidy [OF assms(1)] assms(4)] by blast
  let ?x = "keep e (with_version e x)" and ?u = "carry_over k e (saturating_succ (ap_rv a)) (keep e (with_version e x))"
  have m: "kd_meta k ?x = (kd_meta k x)\<lparr>om_resource_version := om_resource_version (kd_meta k e)\<rparr>" "valid ?x"
    using assms(2) by (simp_all add: keep_laws valid_rv kind_simps)
  have nm: "kd_name k ?x = kd_name k x" using m(1) by simp
  have "performs R err id (replace ?x) w1 (spec_op pa k (ReplaceSpec_op (kd_name k x) ?x) a)"
    using replace_law [OF w1(2) m(2)] assms(3) nm by simp
  moreover have "spec_op pa k (ReplaceSpec_op (kd_name k x) ?x) a = (stored pa (kd_name k x) (Some ?u) a, Inr ?u)"
    using assms(4) r m(1)
    by (simp add: spec_op_def part_spec_def with_part_def spec_put_def stored_def spec_checked_def check_rv_def current_rv_of_def)
  ultimately obtain w2 where w2: "replace ?x w1 = (w2, Inr ?u)" "R w2 (stored pa (kd_name k x) (Some ?u) a)" by (auto simp: performs_def)
  have mm: "merged_meta (Some (kd_meta k e)) (kd_meta k x) (saturating_succ (ap_rv a)) (kd_meta k ?u)"
    using m(1) by (simp add: merged_meta_def carry_over_def kind_simps)
  then have "kd_name k ?u = kd_name k x" by (simp add: merged_meta_def)
  then show ?thesis using w1 w2 mm by (intro exI [of _ w2] exI [of _ ?u]) (simp add: apply_object_def after_def say_def)
qed

lemma delete_removes:
  assumes "R w a" and "pa_get pa a n = Some x"
  shows "\<exists>w'. delete_object label k get delete n w = (w', println (label @ ''/'' @ n @ '' deleted''), Some (Inr ())) \<and>
    R w' (stored pa n None a)"
proof -
  obtain r where r: "om_resource_version (kd_meta k x) = Some (show_nat r)" "url_safe n"
    using tidyD [OF kept_tidy [OF assms(1)] assms(2)] by blast
  obtain w1 where w1: "get n w = (w1, Inr (Some x))" "R w1 a" using get_law [OF assms(1) r(2)] assms(2) by (auto simp: reads_def)
  have "snd (spec_op pa k (Delete_op n (show_nat r)) a) = Inr (set_rv k (saturating_succ (ap_rv a)) x)"
    "fst (spec_op pa k (Delete_op n (show_nat r)) a) = stored pa n None a"
    using assms(2) r(1)
    by (simp_all add: spec_op_def part_spec_def with_part_def stored_def spec_checked_def check_rv_def current_rv_of_def Let_def)
  then obtain w2 where "delete n (show_nat r) w1 = (w2, Inr ())" "R w2 (stored pa n None a)"
    using delete_law [OF w1(2) r(2) show_nat_safe, of r] by (auto simp: performs_def)
  then show ?thesis using w1(1) r(1) by (simp add: delete_object_def after_def say_def)
qed

lemma delete_absent:
  assumes "R w a" and "url_safe n" and "pa_get pa a n = None"
  shows "\<exists>w'. delete_object label k get delete n w = (w', [], Some (Inl (Msg (label @ ''/'' @ debug_str n @ '' not found'')))) \<and> R w' a"
proof -
  obtain w1 where "get n w = (w1, Inr None)" "R w1 a" using get_law [OF assms(1,2)] assms(3) by (auto simp: reads_def)
  then show ?thesis by (simp add: delete_object_def after_def bail_def)
qed

end

subsection \<open>The calls for ReplicaSets and services\<close>

lemma svcs_frame:
  "ap_pods (fst (spec_op svcs_part Service_kind q a)) = ap_pods a" "ap_nodes (fst (spec_op svcs_part Service_kind q a)) = ap_nodes a"
  "ap_rss (fst (spec_op svcs_part Service_kind q a)) = ap_rss a" "ap_eps (fst (spec_op svcs_part Service_kind q a)) = ap_eps a"
  by (simp_all add: spec_op_def with_part_def part_defs case_prod_beta)

lemma well_formed_svcs:
  assumes "well_formed a" and "safe_op Service_kind p"
  shows "well_formed (fst (spec_op svcs_part Service_kind p a))"
proof -
  have "tidy Service_kind (pa_get svcs_part (fst (spec_op svcs_part Service_kind p a)))"
    using assms by (intro spec_op_tidy kinds_res) (simp_all add: well_formed_def part_defs)
  then show ?thesis using assms(1) by (simp add: well_formed_def svcs_frame part_gets)
qed

lemmas carried_manifests =
  rss_kind.direct_create [folded carries_out_def] rss_kind.direct_replace [folded carries_out_def]
  rss_kind.direct_delete [folded carries_out_def] svcs_kind.direct_create [folded carries_out_def]
  svcs_kind.direct_replace [folded carries_out_def] svcs_kind.direct_delete [folded carries_out_def]

lemma manifest_routes:
  assumes "url_safe n"
  shows "routed POST ''/api/v1/replicasets'' = Some (R_create ReplicaSets)" "routed POST ''/api/v1/services'' = Some (R_create Services)"
    "routed PUT (''/api/v1/replicasets/'' @ n) = Some (R_replace ReplicaSets n)"
    "routed PUT (''/api/v1/services/'' @ n) = Some (R_replace Services n)"
    "routed DELETE (''/api/v1/replicasets/'' @ n @ rv_query rv) = Some (R_delete ReplicaSets n)"
    "routed DELETE (''/api/v1/services/'' @ n @ rv_query rv) = Some (R_delete Services n)"
  unfolding coll_paths routed_paths [OF assms] using assms by (simp_all add: router_def url_safe_def)

lemma manifest_params:
  assumes "url_safe n" and "url_safe rv"
  shows "query_param ''resourceVersion'' (''/api/v1/replicasets/'' @ n @ rv_query rv) = Some rv"
    "query_param ''resourceVersion'' (''/api/v1/services/'' @ n @ rv_query rv) = Some rv"
proof -
  have q: "CHR ''?'' \<notin> set (''/api/v1/replicasets/'' @ n)" "CHR ''?'' \<notin> set (''/api/v1/services/'' @ n)"
    using url_safeD [OF assms(1)] by simp_all
  show "query_param ''resourceVersion'' (''/api/v1/replicasets/'' @ n @ rv_query rv) = Some rv"
    "query_param ''resourceVersion'' (''/api/v1/services/'' @ n @ rv_query rv) = Some rv"
    using rv_param [OF q(1) assms(2)] rv_param [OF q(2) assms(2)] by simp_all
qed

lemma create_replicaset_law:
  assumes c: "connected cl sv sl view w a" and v: "validate_replicaset x = Inr ()" and safe: "url_safe (om_name (rs_metadata x))"
  shows "\<exists>uuid now. performs (connected cl sv sl view) (seen_error cl) id (client_create_replicaset cl x) w
    (spec_op rss_part ReplicaSet_kind (Create_op (stamp_for_create ReplicaSet_kind uuid now x)) a)"
proof -
  obtain n rp where w: "w = (n, rp)" by (cases w)
  let ?en = "sv_env sv n"
  let ?op = "Create_op (stamp_for_create ReplicaSet_kind (en_uuid ?en) (en_now ?en) x)"
  note c = c [unfolded w] and d = connectedD [OF c [unfolded w]]
  obtain b where b: "js_to_vec (cx_rs (kc_cx (cn_kc cl))) x = Inr b" "js_from_slice (cx_rs (kc_cx (cn_kc cl))) b = Inr x"
    using d(9) by (auto simp: json_laws_def)
  have wf: "well_formed (fst (spec_op rss_part ReplicaSet_kind ?op a))"
    using safe by (intro well_formed_rss d(2)) (simp add: stamp_for_create_def ReplicaSet_kind_def)
  have "carries_out ?en view (create_replicaset ?en x) rp 201 (spec_op rss_part ReplicaSet_kind ?op a)"
    using carried_manifests(1) [OF d(4,5,3,6)] v by (simp add: create_replicaset_def)
  from write_performs(1) [OF c manifest_routes(1) [OF safe] d(9) _ this wf, of "Some b" "sv_rss sv"]
  have "performs (connected cl sv sl view) (seen_error cl) id (client_create_replicaset cl x) w (spec_op rss_part ReplicaSet_kind ?op a)"
    using b d(7) w by (simp add: client_create_replicaset_def body_sent with_body_def)
  then show ?thesis by blast
qed

lemma replace_replicaset_law:
  assumes c: "connected cl sv sl view w a" and v: "validate_replicaset x = Inr ()" and safe: "url_safe (om_name (rs_metadata x))"
  shows "performs (connected cl sv sl view) (seen_error cl) id (client_replace_replicaset_spec cl x) w
    (spec_op rss_part ReplicaSet_kind (ReplaceSpec_op (om_name (rs_metadata x)) x) a)"
proof -
  obtain n rp where w: "w = (n, rp)" by (cases w)
  let ?en = "sv_env sv n" and ?op = "ReplaceSpec_op (om_name (rs_metadata x)) x"
  note c = c [unfolded w] and d = connectedD [OF c [unfolded w]]
  obtain b where b: "js_to_vec (cx_rs (kc_cx (cn_kc cl))) x = Inr b" "js_from_slice (cx_rs (kc_cx (cn_kc cl))) b = Inr x"
    using d(9) by (auto simp: json_laws_def)
  have wf: "well_formed (fst (spec_op rss_part ReplicaSet_kind ?op a))" by (intro well_formed_rss d(2)) (simp add: ReplicaSet_kind_def)
  have "carries_out ?en view (replace_replicaset_spec ?en (om_name (rs_metadata x)) x) rp 200 (spec_op rss_part ReplicaSet_kind ?op a)"
    using carried_manifests(2) [OF d(4,5,3,6)] v by (simp add: replace_replicaset_spec_def check_name_def)
  from write_performs(1) [OF c manifest_routes(3) [OF safe] d(9) _ this wf, of "Some b" "sv_rss sv"] show ?thesis
    using b d(7) w by (simp add: client_replace_replicaset_spec_def body_sent with_body_def)
qed

lemma delete_replicaset_law:
  assumes c: "connected cl sv sl view w a" and safe: "url_safe m" "url_safe rv"
  shows "performs (connected cl sv sl view) (seen_error cl) (\<lambda>_. ()) (client_delete_replicaset cl m rv) w
    (spec_op rss_part ReplicaSet_kind (Delete_op m rv) a)"
proof -
  obtain n rp where w: "w = (n, rp)" by (cases w)
  let ?en = "sv_env sv n"
  note c = c [unfolded w] and d = connectedD [OF c [unfolded w]]
  have wf: "well_formed (fst (spec_op rss_part ReplicaSet_kind (Delete_op m rv) a))" by (intro well_formed_rss d(2)) simp
  have "carries_out ?en view (delete_replicaset ?en m (Some rv)) rp 200 (spec_op rss_part ReplicaSet_kind (Delete_op m rv) a)"
    using carried_manifests(3) [OF d(4,5,3,6)] by (simp add: delete_replicaset_def)
  from write_performs(2) [OF c manifest_routes(5) [OF safe(1)] d(9) _ this wf, of rv None "sv_rss sv"] show ?thesis
    using d(7) manifest_params [OF safe] w by (simp add: client_delete_replicaset_def delete_resource_def)
qed

text \<open>A service as it is created: its own cluster address, or one above every address in use.\<close>

definition svc_filled :: "api_spec \<Rightarrow> service \<Rightarrow> service \<Rightarrow> bool" where
  "svc_filled a x y \<longleftrightarrow>
     (if sv_cluster_ip (svc_spec x) \<noteq> None then y = x
      else \<exists>idx \<le> 255. y = set_cluster_ip (cluster_ip_of idx) x \<and>
        (\<forall>m s j. ap_svcs a m = Some s \<longrightarrow> ip_index s = Some j \<longrightarrow> j < idx))"

lemma next_index_below:
  assumes "\<forall>j \<in> set used. j < idx" and "idx \<le> 255"
  shows "\<exists>i. next_index_after used = Some i \<and> i \<le> idx \<and> (\<forall>j \<in> set used. j < i)"
proof (cases "used = []")
  case False
  then have m: "Max (set used) < idx" using assms(1) by simp
  have "Max (set used) + 1 \<le> 255" using m assms(2) by linarith
  also have "(255 :: nat) \<le> u64_max" by (simp add: u64_max_def)
  finally have "next_index_after used = Some (Suc (Max (set used)))"
    using False by (simp add: next_index_after_def checked_add_def)
  then show ?thesis using m by (auto simp: less_Suc_eq_le)
qed (simp add: next_index_after_def)

lemma used_addresses:
  "set (List.map_filter parse_cluster_ip (List.map_filter (\<lambda>s. sv_cluster_ip (svc_spec s)) xs)) = {j. \<exists>s \<in> set xs. ip_index s = Some j}"
  by (induction xs) (auto simp: map_filter_simps ip_index_def split: option.splits)

lemma address_assigned:
  assumes c: "connected cl sv sl view (n, rp) a" and fresh: "ap_svcs a (om_name (svc_metadata x)) = None" and room: "\<exists>y. svc_filled a x y"
  shows "\<exists>y. svc_filled a x y \<and> assign_cluster_ip (sv_env sv n) x rp = (rp, Reply y)"
proof (cases "sv_cluster_ip (svc_spec x) = None")
  case False
  then show ?thesis by (simp add: svc_filled_def assign_cluster_ip_def h_ok_def)
next
  case True
  let ?en = "sv_env sv n"
  note d = connectedD [OF c]
  obtain xs where xs: "enumerates (ap_svcs a) xs"
      "h_read ?en (\<lambda>dk. store_list (en_sled ?en) (cx_svc (en_cx ?en)) Service_kind dk dk) rp = (rp, Reply (xs, ap_rv a))"
    using svcs_kind.read_list [OF d(4,3)] by (auto simp: part_gets)
  let ?used = "List.map_filter parse_cluster_ip (List.map_filter (\<lambda>s. sv_cluster_ip (svc_spec s)) xs)"
  have used: "j \<in> set ?used \<longleftrightarrow> (\<exists>m s. ap_svcs a m = Some s \<and> ip_index s = Some j)" for j
    unfolding used_addresses enumerates_set [OF xs(1)] by (auto simp: ran_def)
  obtain idx where idx: "idx \<le> 255" "\<forall>j \<in> set ?used. j < idx" using room True used by (fastforce simp: svc_filled_def)
  obtain i where i: "next_index_after ?used = Some i" "i \<le> idx" "\<forall>j \<in> set ?used. j < i" using next_index_below [OF idx(2,1)] by blast
  have "svc_filled a x (set_cluster_ip (cluster_ip_of i) x)"
    using True i(2,3) idx(1) used by (auto simp: svc_filled_def intro!: exI [of _ i])
  moreover have "assign_cluster_ip ?en x rp = (rp, Reply (set_cluster_ip (cluster_ip_of i) x))"
    using True pods_kind.kind svcs_kind.read_get [OF d(4,3), of "om_name (svc_metadata x)"] fresh xs(2) i(1,2) idx(1)
    by (simp add: assign_cluster_ip_def h_bind_def h_ok_def h_panics_def next_free_cluster_ip_index_def part_gets)
  ultimately show ?thesis by blast
qed

lemma create_service_law:
  assumes c: "connected cl sv sl view w a" and safe: "url_safe (om_name (svc_metadata x))"
    and fresh: "ap_svcs a (om_name (svc_metadata x)) = None" and room: "\<exists>y. svc_filled a x y"
  shows "\<exists>y uuid now. svc_filled a x y \<and> performs (connected cl sv sl view) (seen_error cl) id (client_create_service cl x) w
    (spec_op svcs_part Service_kind (Create_op (stamp_for_create Service_kind uuid now y)) a)"
proof -
  obtain n rp where w: "w = (n, rp)" by (cases w)
  note c = c [unfolded w] and d = connectedD [OF c [unfolded w]]
  let ?en = "sv_env sv n"
  obtain y where y: "svc_filled a x y" "assign_cluster_ip ?en x rp = (rp, Reply y)" using address_assigned [OF c fresh room] by blast
  let ?op = "Create_op (stamp_for_create Service_kind (en_uuid ?en) (en_now ?en) y)"
  obtain b where b: "js_to_vec (cx_svc (kc_cx (cn_kc cl))) x = Inr b" "js_from_slice (cx_svc (kc_cx (cn_kc cl))) b = Inr x"
    using d(11) by (auto simp: json_laws_def)
  have "om_name (svc_metadata y) = om_name (svc_metadata x)" using y(1) by (auto simp: svc_filled_def set_cluster_ip_def split: if_splits)
  then have wf: "well_formed (fst (spec_op svcs_part Service_kind ?op a))"
    using safe by (intro well_formed_svcs d(2)) (simp add: stamp_for_create_def Service_kind_def)
  have "create_service ?en x rp = create_write ?en (cx_svc (en_cx ?en)) Service_kind Svc_event y rp"
    using y(2) d(6) url_safeD [OF safe] by (simp add: create_service_def validate_service_def gate_leader_def h_bind_def [of "assign_cluster_ip _ _"])
  then have "carries_out ?en view (create_service ?en x) rp 201 (spec_op svcs_part Service_kind ?op a)"
    using carried_manifests(4) [OF d(4,5,3,6), of Svc_event y] by (simp add: carries_out_def)
  from write_performs(1) [OF c manifest_routes(2) [OF safe] d(11) _ this wf, of "Some b" "sv_svcs sv"]
  have "performs (connected cl sv sl view) (seen_error cl) id (client_create_service cl x) w (spec_op svcs_part Service_kind ?op a)"
    using b d(7) w by (simp add: client_create_service_def body_sent with_body_def)
  with y(1) show ?thesis by blast
qed

lemma replace_service_law:
  assumes c: "connected cl sv sl view w a" and safe: "url_safe (om_name (svc_metadata x))"
  shows "performs (connected cl sv sl view) (seen_error cl) id (client_replace_service_spec cl x) w
    (spec_op svcs_part Service_kind (ReplaceSpec_op (om_name (svc_metadata x)) x) a)"
proof -
  obtain n rp where w: "w = (n, rp)" by (cases w)
  let ?en = "sv_env sv n" and ?op = "ReplaceSpec_op (om_name (svc_metadata x)) x"
  note c = c [unfolded w] and d = connectedD [OF c [unfolded w]]
  obtain b where b: "js_to_vec (cx_svc (kc_cx (cn_kc cl))) x = Inr b" "js_from_slice (cx_svc (kc_cx (cn_kc cl))) b = Inr x"
    using d(11) by (auto simp: json_laws_def)
  have wf: "well_formed (fst (spec_op svcs_part Service_kind ?op a))" by (intro well_formed_svcs d(2)) (simp add: Service_kind_def)
  have "carries_out ?en view (replace_service_spec ?en (om_name (svc_metadata x)) x) rp 200 (spec_op svcs_part Service_kind ?op a)"
    using carried_manifests(5) [OF d(4,5,3,6)] url_safeD [OF safe]
    by (simp add: replace_service_spec_def check_name_def validate_service_def)
  from write_performs(1) [OF c manifest_routes(4) [OF safe] d(11) _ this wf, of "Some b" "sv_svcs sv"] show ?thesis
    using b d(7) w by (simp add: client_replace_service_spec_def body_sent with_body_def)
qed

lemma delete_service_law:
  assumes c: "connected cl sv sl view w a" and safe: "url_safe m" "url_safe rv"
  shows "performs (connected cl sv sl view) (seen_error cl) (\<lambda>_. ()) (client_delete_service cl m rv) w
    (spec_op svcs_part Service_kind (Delete_op m rv) a)"
proof -
  obtain n rp where w: "w = (n, rp)" by (cases w)
  let ?en = "sv_env sv n"
  note c = c [unfolded w] and d = connectedD [OF c [unfolded w]]
  have wf: "well_formed (fst (spec_op svcs_part Service_kind (Delete_op m rv) a))" by (intro well_formed_svcs d(2)) simp
  have "carries_out ?en view (delete_service ?en m (Some rv)) rp 200 (spec_op svcs_part Service_kind (Delete_op m rv) a)"
    using carried_manifests(6) [OF d(4,5,3,6)] by (simp add: delete_service_def)
  from write_performs(2) [OF c manifest_routes(6) [OF safe(1)] d(11) _ this wf, of rv None "sv_svcs sv"] show ?thesis
    using d(7) manifest_params [OF safe] w by (simp add: client_delete_service_def delete_resource_def)
qed

subsection \<open>The three kinds\<close>

lemma get_laws:
  assumes "connected cl sv sl view w a" and "url_safe m"
  shows "reads (connected cl sv sl view) (client_get_pod cl m) w a (ap_pods a m)"
    and "reads (connected cl sv sl view) (client_get_replicaset cl m) w a (ap_rss a m)"
    and "reads (connected cl sv sl view) (client_get_service cl m) w a (ap_svcs a m)"
  using assms read_laws [of cl sv sl view "fst w" "snd w"] by simp_all

interpretation pod_manifests: manifest_kind pods_part Pod_kind cx_pod "connected cl sv sl view" "seen_error cl"
    "client_get_pod cl" "client_create_pod cl" "client_replace_pod_spec cl" "client_delete_pod cl"
    "\<lambda>p. validate_pod p = Inr ()" "\<lambda>a p q. q = p" "\<lambda>e p. p"
  for cl :: "(('s, 'j) net, 'j) client" and sv :: "('s, 'j) server" and sl :: "'s sled" and view :: "'s \<Rightarrow> bytes \<rightharpoonup> bytes"
proof (unfold_locales, goal_cases)
  case (1 w a)
  then show ?case by (simp add: connected_def well_formed_def part_gets)
next
  case (3 w a x)
  then show ?case using create_pod_law [of cl sv sl view "fst w" "snd w" a x] by (simp add: Pod_kind_def)
next
  case (4 w a x)
  then show ?case using replace_pod_law [of cl sv sl view "fst w" "snd w" a x] by (simp add: Pod_kind_def)
next
  case (5 w a n rv)
  then show ?case using delete_pod_law [of cl sv sl view "fst w" "snd w" a n rv] by simp
qed (simp_all add: get_laws part_gets Pod_kind_def validate_pod_def)

interpretation rs_manifests: manifest_kind rss_part ReplicaSet_kind cx_rs "connected cl sv sl view" "seen_error cl"
    "client_get_replicaset cl" "client_create_replicaset cl" "client_replace_replicaset_spec cl" "client_delete_replicaset cl"
    "\<lambda>x. validate_replicaset x = Inr ()" "\<lambda>a x y. y = x" "\<lambda>e x. x"
  for cl :: "(('s, 'j) net, 'j) client" and sv :: "('s, 'j) server" and sl :: "'s sled" and view :: "'s \<Rightarrow> bytes \<rightharpoonup> bytes"
proof (unfold_locales, goal_cases)
  case (1 w a)
  then show ?case by (simp add: connected_def well_formed_def part_gets)
qed (simp_all add: get_laws part_gets ReplicaSet_kind_def validate_replicaset_def create_replicaset_law [unfolded ReplicaSet_kind_def]
    replace_replicaset_law [unfolded ReplicaSet_kind_def] delete_replicaset_law [unfolded ReplicaSet_kind_def])

interpretation svc_manifests: manifest_kind svcs_part Service_kind cx_svc "connected cl sv sl view" "seen_error cl"
    "client_get_service cl" "client_create_service cl" "client_replace_service_spec cl" "client_delete_service cl"
    "\<lambda>x. True" svc_filled keep_cluster_ip
  for cl :: "(('s, 'j) net, 'j) client" and sv :: "('s, 'j) server" and sl :: "'s sled" and view :: "'s \<Rightarrow> bytes \<rightharpoonup> bytes"
proof (unfold_locales, goal_cases)
  case (1 w a)
  then show ?case by (simp add: connected_def well_formed_def part_gets)
next
  case (3 w a x)
  then show ?case using create_service_law [of cl sv sl view w a x] by (simp add: part_gets Service_kind_def)
next
  case (4 w a x)
  then show ?case using replace_service_law [of cl sv sl view w a x] by (simp add: Service_kind_def)
qed (auto simp: get_laws part_gets delete_service_law [unfolded Service_kind_def] Service_kind_def keep_cluster_ip_def svc_filled_def
    set_cluster_ip_def split: if_splits)

end
