(* ===== verification/Kubectl_Properties.thy ===== *)
theory Kubectl_Properties
  imports Kubectl_Laws Controller_Properties
begin

text \<open>
  What the commands of \<^verbatim>\<open>src/bin/mykubectl.rs\<close> do to the cluster, through client, routes, handlers and store: applying a
  manifest creates or replaces, a ReplicaSet that is applied is scaled by its controller, a service keeps its address, a
  pod does not keep its node; deleting undoes applying.
\<close>

lemma stored_parts:
  "stored pods_part n x a = a\<lparr>ap_pods := (ap_pods a)(n := x), ap_rv := saturating_succ (ap_rv a)\<rparr>"
  "stored rss_part n y a = a\<lparr>ap_rss := (ap_rss a)(n := y), ap_rv := saturating_succ (ap_rv a)\<rparr>"
  "stored svcs_part n z a = a\<lparr>ap_svcs := (ap_svcs a)(n := z), ap_rv := saturating_succ (ap_rv a)\<rparr>"
  by (simp_all add: stored_def part_defs)

definition verdict :: "'a option \<Rightarrow> string" where
  "verdict old = (case old of None \<Rightarrow> '' created'' | Some e \<Rightarrow> '' replaced'')"

text \<open>What applying a pod and a ReplicaSet leaves, in both cases.\<close>

lemma apply_pod_effect:
  assumes "connected cl sv sl view w a" and "validate_pod p = Inr ()" and "url_safe (om_name (pod_metadata p))"
  shows "\<exists>w' u. apply_pod cl p w = (w', println (''pod/'' @ om_name (pod_metadata p) @ verdict (ap_pods a (om_name (pod_metadata p)))), Some (Inr ())) \<and>
    connected cl sv sl view w' (a\<lparr>ap_pods := (ap_pods a)(om_name (pod_metadata p) \<mapsto> u), ap_rv := saturating_succ (ap_rv a)\<rparr>) \<and>
    pod_spec u = pod_spec p \<and>
    pod_status u = (case ap_pods a (om_name (pod_metadata p)) of None \<Rightarrow> None | Some e \<Rightarrow> pod_status e) \<and>
    merged_meta (map_option pod_metadata (ap_pods a (om_name (pod_metadata p)))) (pod_metadata p) (saturating_succ (ap_rv a)) (pod_metadata u)"
proof (cases "ap_pods a (om_name (pod_metadata p))")
  case None
  with pod_manifests.apply_creates [OF assms(1,2), of "''pod''"] assms(3) show ?thesis
    unfolding apply_shapes
    by (fastforce simp: part_gets Pod_kind_def stored_parts verdict_def set_rv_def stamp_for_create_def)
next
  case (Some e)
  with pod_manifests.apply_replaces [OF assms(1,2), of e "''pod''"] assms(3) show ?thesis
    unfolding apply_shapes
    by (fastforce simp: part_gets Pod_kind_def stored_parts verdict_def carry_over_def)
qed

lemma apply_replicaset_effect:
  assumes "connected cl sv sl view w a" and "validate_replicaset x = Inr ()" and "url_safe (om_name (rs_metadata x))"
  shows "\<exists>w' u. apply_replicaset cl x w =
      (w', println (''replicaset/'' @ om_name (rs_metadata x) @ verdict (ap_rss a (om_name (rs_metadata x)))), Some (Inr ())) \<and>
    connected cl sv sl view w' (a\<lparr>ap_rss := (ap_rss a)(om_name (rs_metadata x) \<mapsto> u), ap_rv := saturating_succ (ap_rv a)\<rparr>) \<and>
    rs_spec u = rs_spec x \<and> rs_status u = (case ap_rss a (om_name (rs_metadata x)) of None \<Rightarrow> None | Some e \<Rightarrow> rs_status e) \<and>
    merged_meta (map_option rs_metadata (ap_rss a (om_name (rs_metadata x)))) (rs_metadata x) (saturating_succ (ap_rv a)) (rs_metadata u)"
proof (cases "ap_rss a (om_name (rs_metadata x))")
  case None
  with rs_manifests.apply_creates [OF assms(1,2), of "''replicaset''"] assms(3) show ?thesis
    unfolding apply_shapes
    by (fastforce simp: part_gets ReplicaSet_kind_def stored_parts verdict_def set_rv_def stamp_for_create_def)
next
  case (Some e)
  with rs_manifests.apply_replaces [OF assms(1,2), of e "''replicaset''"] assms(3) show ?thesis
    unfolding apply_shapes
    by (fastforce simp: part_gets ReplicaSet_kind_def stored_parts verdict_def carry_over_def)
qed

lemma apply_service_effect:
  assumes "connected cl sv sl view w a" and "url_safe (om_name (svc_metadata s))"
    and "ap_svcs a (om_name (svc_metadata s)) = None \<Longrightarrow> \<exists>y. svc_filled a s y"
  shows "\<exists>w' u. apply_service cl s w =
      (w', println (''service/'' @ om_name (svc_metadata s) @ verdict (ap_svcs a (om_name (svc_metadata s)))), Some (Inr ())) \<and>
    connected cl sv sl view w' (a\<lparr>ap_svcs := (ap_svcs a)(om_name (svc_metadata s) \<mapsto> u), ap_rv := saturating_succ (ap_rv a)\<rparr>) \<and>
    (svc_spec u)\<lparr>sv_cluster_ip := None\<rparr> = (svc_spec s)\<lparr>sv_cluster_ip := None\<rparr> \<and>
    (case ap_svcs a (om_name (svc_metadata s)) of
       None \<Rightarrow> \<exists>y. svc_filled a s y \<and> sv_cluster_ip (svc_spec u) = sv_cluster_ip (svc_spec y)
     | Some e \<Rightarrow> sv_cluster_ip (svc_spec u) =
         (case sv_cluster_ip (svc_spec s) of None \<Rightarrow> sv_cluster_ip (svc_spec e) | Some ip \<Rightarrow> Some ip))"
proof (cases "ap_svcs a (om_name (svc_metadata s))")
  case None
  obtain w' y u where r: "apply_service cl s w = (w', println (''service/'' @ om_name (svc_metadata s) @ '' created''), Some (Inr ()))"
      "connected cl sv sl view w' (stored svcs_part (om_name (svc_metadata s)) (Some u) a)" "svc_filled a s y" "svc_spec u = svc_spec y"
    using svc_manifests.apply_creates [OF assms(1) TrueI, of s "''service''"] assms(2,3) None unfolding apply_shapes
    by (fastforce simp: part_gets Service_kind_def set_rv_def stamp_for_create_def)
  have "(svc_spec y)\<lparr>sv_cluster_ip := None\<rparr> = (svc_spec s)\<lparr>sv_cluster_ip := None\<rparr>"
    using r(3) by (auto simp: svc_filled_def set_cluster_ip_def split: if_splits)
  with r None show ?thesis by (intro exI [of _ w'] exI [of _ u]) (auto simp: stored_parts verdict_def)
next
  case (Some e)
  with svc_manifests.apply_replaces [OF assms(1) TrueI, of s e "''service''"] assms(2) show ?thesis
    unfolding apply_shapes
    by (fastforce simp: part_gets Service_kind_def stored_parts verdict_def carry_over_def keep_cluster_ip_def split: option.splits)
qed

subsection \<open>Applying a pod\<close>

definition demo_clock :: clock where
  "demo_clock = \<lparr>ck_now = 0, ck_parse_rfc3339 = (\<lambda>_. Some 0)\<rparr>"

definition demo_yaml :: "pod \<Rightarrow> replicaset \<Rightarrow> service \<Rightarrow> yaml" where
  "demo_yaml p x s = \<lparr>ym_kind = Inr, ym_pod = (\<lambda>_. Inr p), ym_rs = (\<lambda>_. Inr x), ym_svc = (\<lambda>_. Inr s), ym_show_pod = (\<lambda>_. Inl []),
     ym_show_rs = (\<lambda>_. Inl []), ym_show_node = (\<lambda>_. Inl []), ym_show_svc = (\<lambda>_. Inl []), ym_show_ep = (\<lambda>_. Inl [])\<rparr>"

text \<open>
  C36 (apply makes the cluster match the manifest): applying a valid pod manifest creates the pod when its name is free and
  replaces it otherwise, and prints which. In both cases the stored pod has the manifest's spec, labels and owner
  references, nothing else changes, and a pod that existed keeps its status, identity and creation time.
\<close>

theorem apply_upserts:
  assumes "connected cl sv sl view w a" and "ym_kind ym manifest = Inr ''Pod''" and "ym_pod ym manifest = Inr p"
    and "validate_pod p = Inr ()" and "url_safe n" and "n = om_name (pod_metadata p)"
  shows "\<exists>w' u. kubectl_apply ym cl path (Inr manifest) w =
      (w', println (''pod/'' @ n @ (if ap_pods a n = None then '' created'' else '' replaced'')), Some (Inr ())) \<and>
    connected cl sv sl view w' (a\<lparr>ap_pods := (ap_pods a)(n \<mapsto> u), ap_rv := saturating_succ (ap_rv a)\<rparr>) \<and>
    pod_spec u = pod_spec p \<and> om_labels (pod_metadata u) = om_labels (pod_metadata p) \<and>
    om_owner_references (pod_metadata u) = om_owner_references (pod_metadata p) \<and>
    (case ap_pods a n of
       None \<Rightarrow> pod_status u = None \<and> om_uid (pod_metadata u) \<noteq> None \<and> om_creation_timestamp (pod_metadata u) \<noteq> None
     | Some e \<Rightarrow> pod_status u = pod_status e \<and> om_uid (pod_metadata u) = om_uid (pod_metadata e) \<and>
         om_creation_timestamp (pod_metadata u) = om_creation_timestamp (pod_metadata e))"
  using apply_pod_effect [OF assms(1,4)] assms(2,3,5,6)
  by (cases "ap_pods a n") (fastforce simp: kubectl_apply_def parsed_def merged_meta_def verdict_def)+

theorem apply_upserts_witness:
  "\<exists>w w' u a'. connected demo_client demo_server map_tree fmlookup w demo_cluster \<and>
     kubectl_apply (demo_yaml (demo_pod ''b'') demo_rs demo_svc) demo_client ''b.yaml'' (Inr ''Pod'') w =
       (w', println ''pod/b created'', Some (Inr ())) \<and>
     connected demo_client demo_server map_tree fmlookup w' a' \<and> ap_pods a' ''b'' = Some u \<and> pod_spec u = pod_spec (demo_pod ''b'')"
proof -
  obtain w where w: "connected demo_client demo_server map_tree fmlookup w demo_cluster" by (rule demo_connected)
  have ym: "ym_kind (demo_yaml (demo_pod ''b'') demo_rs demo_svc) ''Pod'' = Inr ''Pod''"
    "ym_pod (demo_yaml (demo_pod ''b'') demo_rs demo_svc) ''Pod'' = Inr (demo_pod ''b'')" by (simp_all add: demo_yaml_def)
  have p: "validate_pod (demo_pod ''b'') = Inr ()" "''b'' = om_name (pod_metadata (demo_pod ''b''))"
    by (simp_all add: validate_pod_def demo_pod_def demo_meta_def)
  have safe: "url_safe ''b''" and free: "ap_pods demo_cluster ''b'' = None" by (simp_all add: url_safe_def demo_contents)
  obtain w' u where r: "kubectl_apply (demo_yaml (demo_pod ''b'') demo_rs demo_svc) demo_client ''b.yaml'' (Inr ''Pod'') w =
       (w', println (''pod/'' @ ''b'' @ '' created''), Some (Inr ()))"
      "connected demo_client demo_server map_tree fmlookup w' (demo_cluster\<lparr>ap_pods := (ap_pods demo_cluster)(''b'' \<mapsto> u),
         ap_rv := saturating_succ (ap_rv demo_cluster)\<rparr>)" "pod_spec u = pod_spec (demo_pod ''b'')"
    using apply_upserts [OF w ym p(1) safe p(2), of "''b.yaml''"] free by (simp del: split_paired_Ex) blast
  then show ?thesis
    by (intro exI [of _ w] exI [of _ w'] exI [of _ u] exI [of _ "demo_cluster\<lparr>ap_pods := (ap_pods demo_cluster)(''b'' \<mapsto> u),
         ap_rv := saturating_succ (ap_rv demo_cluster)\<rparr>"]) (simp add: w)
qed

text \<open>
  C37 (a re-applied pod loses its node): a manifest names no node, and apply keeps the one of the stored object for a
  service's address only. Re-applying the manifest of a pod that is bound to a node reports success and leaves the pod
  unbound but with the status its node reported; the scheduler then binds it anew to a least loaded ready
  node, whatever node still runs it.
\<close>

theorem reapply_unbinds_pod:
  assumes "connected cl sv sl view w a" and "ap_pods a n = Some e" and "pc_node_name (pod_spec e) = Some old"
    and "ym_kind ym manifest = Inr ''Pod''" and "ym_pod ym manifest = Inr p" and "validate_pod p = Inr ()" and "n = om_name (pod_metadata p)"
    and "pc_node_name (pod_spec p) = None" and "ap_nodes a m = Some nd" and "is_schedulable parse now nd"
  shows "\<exists>w1 u w2 a2 v best. kubectl_apply ym cl path (Inr manifest) w = (w1, println (''pod/'' @ n @ '' replaced''), Some (Inr ())) \<and>
    connected cl sv sl view w1 (a\<lparr>ap_pods := (ap_pods a)(n \<mapsto> u), ap_rv := saturating_succ (ap_rv a)\<rparr>) \<and>
    pc_node_name (pod_spec u) = None \<and> pod_status u = pod_status e \<and>
    schedule (client_api cl) parse now n w1 = (w2, Inr ()) \<and> connected cl sv sl view w2 a2 \<and> ap_pods a2 = (ap_pods a)(n \<mapsto> v) \<and>
    pc_node_name (pod_spec v) = Some best \<and> (\<exists>x. ap_nodes a best = Some x \<and> is_schedulable parse now x) \<and>
    (\<forall>c x. ap_nodes a c = Some x \<longrightarrow> is_schedulable parse now x \<longrightarrow>
       node_load (a\<lparr>ap_pods := (ap_pods a)(n := None)\<rparr>) best \<le> node_load (a\<lparr>ap_pods := (ap_pods a)(n := None)\<rparr>) c)"
proof -
  have safe: "url_safe (om_name (pod_metadata p))" using well_formed_pod [OF _ assms(2)] assms(1,7) by (auto simp: connected_def)
  obtain w1 u where u: "apply_pod cl p w = (w1, println (''pod/'' @ n @ '' replaced''), Some (Inr ()))"
      "connected cl sv sl view w1 (a\<lparr>ap_pods := (ap_pods a)(n \<mapsto> u), ap_rv := saturating_succ (ap_rv a)\<rparr>)"
      "pod_spec u = pod_spec p" "pod_status u = pod_status e"
    using apply_pod_effect [OF assms(1,6) safe] assms(2,7) by (simp add: verdict_def del: split_paired_Ex) blast
  let ?a1 = "a\<lparr>ap_pods := (ap_pods a)(n \<mapsto> u), ap_rv := saturating_succ (ap_rv a)\<rparr>"
  have free: "pc_node_name (pod_spec u) = None" using u(3) assms(8) by simp
  obtain w2 a2 v best where s: "schedule (client_api cl) parse now n w1 = (w2, Inr ())" "connected cl sv sl view w2 a2"
      "ap_pods a2 = (ap_pods ?a1)(n \<mapsto> v)" "pc_node_name (pod_spec v) = Some best"
      "\<exists>x. ap_nodes a best = Some x \<and> is_schedulable parse now x"
      "\<forall>c x. ap_nodes ?a1 c = Some x \<longrightarrow> is_schedulable parse now x \<longrightarrow> node_load ?a1 best \<le> node_load ?a1 c"
    using net.schedule_ok [OF u(2) _ free, of n m nd parse now] assms(9,10) by auto
  have "{i. \<exists>q. ((ap_pods a)(n \<mapsto> u)) i = Some q \<and> pc_node_name (pod_spec q) = Some c} =
      {i. \<exists>q. ((ap_pods a)(n := None)) i = Some q \<and> pc_node_name (pod_spec q) = Some c}" for c
    using free by auto
  then have "node_load ?a1 c = node_load (a\<lparr>ap_pods := (ap_pods a)(n := None)\<rparr>) c" for c by (simp add: node_load_def)
  then show ?thesis using u s free assms(4,5)
    by (intro exI [of _ w1] exI [of _ u] exI [of _ w2] exI [of _ a2] exI [of _ v] exI [of _ best])
      (simp add: kubectl_apply_def parsed_def)
qed

theorem reapply_unbinds_pod_witness:
  "\<exists>w a e w1 out w2 a2 v. connected demo_client demo_server map_tree fmlookup w a \<and>
     ap_pods a ''a'' = Some e \<and> pc_node_name (pod_spec e) = Some ''n9'' \<and>
     kubectl_apply (demo_yaml running_pod demo_rs demo_svc) demo_client ''a.yaml'' (Inr ''Pod'') w = (w1, out, Some (Inr ())) \<and>
     schedule (client_api demo_client) (\<lambda>_. Some 0) 5 ''a'' w1 = (w2, Inr ()) \<and> connected demo_client demo_server map_tree fmlookup w2 a2 \<and>
     ap_pods a2 ''a'' = Some v \<and> pc_node_name (pod_spec v) = Some ''n1''"
proof -
  obtain w where w: "connected demo_client demo_server map_tree fmlookup w demo_cluster" by (rule demo_connected)
  have "ap_pods demo_cluster ''a'' = Some (set_rv Pod_kind 1 running_pod)" by (simp add: demo_contents)
  then obtain w0 e where e: "connected demo_client demo_server map_tree fmlookup w0 (with_pods ((ap_pods demo_cluster)(''a'' \<mapsto> e)) demo_cluster)"
      "pc_node_name (pod_spec e) = Some ''n9''"
    using net.bind_pod_ok [OF w, of "''a''" _ "''n9''"] by blast
  let ?a = "with_pods ((ap_pods demo_cluster)(''a'' \<mapsto> e)) demo_cluster" and ?ym = "demo_yaml running_pod demo_rs demo_svc"
    and ?prs = "\<lambda>_ :: string. Some (0 :: int)"
  have a: "ap_pods ?a ''a'' = Some e" "ap_nodes ?a ''n1'' = Some (set_rv Node_kind 4 demo_node)" by (simp_all add: demo_contents)
  have ready: "is_schedulable ?prs 5 (set_rv Node_kind 4 demo_node)"
    by (simp add: is_schedulable_def is_ready_def set_rv_def Node_kind_def demo_node_def num_seconds_def STALENESS_WINDOW_SECS_def)
  have ym: "ym_kind ?ym ''Pod'' = Inr ''Pod''" "ym_pod ?ym ''Pod'' = Inr running_pod" by (simp_all add: demo_yaml_def)
  have p: "validate_pod running_pod = Inr ()" "''a'' = om_name (pod_metadata running_pod)" "pc_node_name (pod_spec running_pod) = None"
    by (simp_all add: validate_pod_def running_pod_def demo_pod_def demo_meta_def)
  obtain w1 u w2 a2 v best where r:
      "kubectl_apply ?ym demo_client ''a.yaml'' (Inr ''Pod'') w0 = (w1, println (''pod/'' @ ''a'' @ '' replaced''), Some (Inr ()))"
      "schedule (client_api demo_client) ?prs 5 ''a'' w1 = (w2, Inr ())" "connected demo_client demo_server map_tree fmlookup w2 a2"
      "ap_pods a2 = (ap_pods ?a)(''a'' \<mapsto> v)" "pc_node_name (pod_spec v) = Some best" "\<exists>x. ap_nodes ?a best = Some x"
    using reapply_unbinds_pod [OF e(1) a(1) e(2) ym p a(2) ready, of "''a.yaml''"] by blast
  have "best = ''n1''" using r(6) by (auto simp: demo_contents split: if_splits)
  then show ?thesis using e a(1) r
    by (intro exI [of _ w0] exI [of _ ?a] exI [of _ e] exI [of _ w1] exI [of _ "println (''pod/'' @ ''a'' @ '' replaced'')"]
        exI [of _ w2] exI [of _ a2] exI [of _ v]) simp
qed

subsection \<open>Applying a ReplicaSet\<close>

text \<open>
  C38 (applying and deleting a ReplicaSet scales its pods): after a valid ReplicaSet manifest is applied, whether or not the
  ReplicaSet existed and whatever its previous size, one reconcile call brings the number of pods it owns to the
  manifest's; after it is deleted with the command, one reconcile call removes all of them and no other pod.
\<close>

theorem apply_scales:
  assumes "connected cl sv sl view w a" and "ym_kind ym manifest = Inr ''ReplicaSet''" and "ym_rs ym manifest = Inr x"
    and "validate_replicaset x = Inr ()" and "url_safe n" and "n = om_name (rs_metadata x)"
    and "pc_containers (pt_spec (rss_template (rs_spec x))) \<noteq> []" and "inj_on sfxs {..<rss_replicas (rs_spec x)}"
    and "\<forall>i < rss_replicas (rs_spec x). url_safe (n @ ''-'' @ sfxs i) \<and> ap_pods a (n @ ''-'' @ sfxs i) = None"
    and "resource \<in> {''rs'', ''replicaset'', ''replicasets''}"
  shows "\<exists>w1 out w2 a2 w3 out' w4 a4. kubectl_apply ym cl path (Inr manifest) w = (w1, out, Some (Inr ())) \<and>
    rs_reconcile (client_api cl) sfxs n w1 = (w2, Inr ()) \<and> connected cl sv sl view w2 a2 \<and>
    map_option rs_spec (ap_rss a2 n) = Some (rs_spec x) \<and> card (owned_pods a2 n) = rss_replicas (rs_spec x) \<and>
    kubectl_delete cl resource n w2 = (w3, out', Some (Inr ())) \<and>
    rs_reconcile (client_api cl) sfxs n w3 = (w4, Inr ()) \<and> connected cl sv sl view w4 a4 \<and> ap_rss a4 n = None \<and>
    ap_pods a4 = (\<lambda>m. if m \<in> owned_pods a2 n then None else ap_pods a2 m)"
proof -
  obtain w1 out u where u: "apply_replicaset cl x w = (w1, out, Some (Inr ()))"
      "connected cl sv sl view w1 (a\<lparr>ap_rss := (ap_rss a)(n \<mapsto> u), ap_rv := saturating_succ (ap_rv a)\<rparr>)" "rs_spec u = rs_spec x"
    using apply_replicaset_effect [OF assms(1,4) assms(5) [unfolded assms(6)]] assms(6) by blast
  have applied: "kubectl_apply ym cl path (Inr manifest) w = (w1, out, Some (Inr ()))"
    using u(1) assms(2,3) by (simp add: kubectl_apply_def parsed_def)
  obtain w2 a2 rs' where r: "rs_reconcile (client_api cl) sfxs n w1 = (w2, Inr ())" "connected cl sv sl view w2 a2"
      "ap_rss a2 n = Some rs'" "rs_spec rs' = rs_spec u" "settled a2 n rs'"
    using net.rs_reconcile_ok [OF u(2), of n u sfxs] assms(7-9) u(3) by (auto simp del: split_paired_Ex)
  obtain w3 where d: "delete_replicaset_cmd cl n w2 = (w3, println (''replicaset'' @ ''/'' @ n @ '' deleted''), Some (Inr ()))"
      "connected cl sv sl view w3 (a2\<lparr>ap_rss := (ap_rss a2)(n := None), ap_rv := saturating_succ (ap_rv a2)\<rparr>)"
    using rs_manifests.delete_removes [OF r(2), of n rs' "''replicaset''"] r(3) unfolding delete_shapes stored_parts part_gets by blast
  have deleted: "kubectl_delete cl resource n w2 = (w3, println (''replicaset'' @ ''/'' @ n @ '' deleted''), Some (Inr ()))"
    using d(1) assms(10) by (auto simp: kubectl_delete_def)
  let ?a3 = "a2\<lparr>ap_rss := (ap_rss a2)(n := None), ap_rv := saturating_succ (ap_rv a2)\<rparr>"
  obtain w4 a4 where c: "rs_reconcile (client_api cl) sfxs n w3 = (w4, Inr ())" "connected cl sv sl view w4 a4" "pods_only ?a3 a4"
      "ap_pods a4 = (\<lambda>m. if m \<in> owned_pods ?a3 n then None else ap_pods ?a3 m)"
    using net.rs_cascade_ok [OF d(2) _ assms(5), of sfxs] by auto
  have same: "owned_pods ?a3 n = owned_pods a2 n" by (simp add: owned_pods_def)
  have spec: "map_option rs_spec (ap_rss a2 n) = Some (rs_spec x)" "card (owned_pods a2 n) = rss_replicas (rs_spec x)"
    using r(3,4,5) u(3) by (simp_all add: settled_def)
  have gone: "ap_rss a4 n = None" "ap_pods a4 = (\<lambda>m. if m \<in> owned_pods a2 n then None else ap_pods a2 m)"
    using c(3,4) unfolding same by (simp_all add: pods_only_def fun_eq_iff)
  from applied r(1,2) spec deleted c(1,2) gone show ?thesis by blast
qed

definition demo_rs3 :: replicaset where
  "demo_rs3 = demo_rs\<lparr>rs_spec := (rs_spec demo_rs)\<lparr>rss_replicas := 1\<rparr>\<rparr>"

theorem apply_scales_witness:
  "\<exists>w w1 out w2 a2. connected demo_client demo_server map_tree fmlookup w demo_cluster \<and>
     kubectl_apply (demo_yaml running_pod demo_rs3 demo_svc) demo_client ''web.yaml'' (Inr ''ReplicaSet'') w = (w1, out, Some (Inr ())) \<and>
     rs_reconcile (client_api demo_client) (\<lambda>i. ''x1'') ''web'' w1 = (w2, Inr ()) \<and>
     connected demo_client demo_server map_tree fmlookup w2 a2 \<and> card (owned_pods a2 ''web'') = 1"
proof -
  obtain w where w: "connected demo_client demo_server map_tree fmlookup w demo_cluster" by (rule demo_connected)
  let ?ym = "demo_yaml running_pod demo_rs3 demo_svc"
  have ym: "ym_kind ?ym ''ReplicaSet'' = Inr ''ReplicaSet''" "ym_rs ?ym ''ReplicaSet'' = Inr demo_rs3" by (simp_all add: demo_yaml_def)
  have one: "rss_replicas (rs_spec demo_rs3) = 1" by (simp add: demo_rs3_def)
  have x: "validate_replicaset demo_rs3 = Inr ()" "''web'' = om_name (rs_metadata demo_rs3)"
      "pc_containers (pt_spec (rss_template (rs_spec demo_rs3))) \<noteq> []"
    by (simp_all add: validate_replicaset_def demo_rs3_def demo_rs_def demo_meta_def demo_labels_def demo_pod_def)
  have names: "\<forall>i < rss_replicas (rs_spec demo_rs3). url_safe (''web'' @ ''-'' @ ''x1'') \<and> ap_pods demo_cluster (''web'' @ ''-'' @ ''x1'') = None"
    by (simp add: demo_contents url_safe_def)
  have safe: "url_safe ''web''" and inj: "inj_on (\<lambda>i. ''x1'') {..<rss_replicas (rs_spec demo_rs3)}"
    by (simp_all add: url_safe_def one lessThan_Suc)
  show ?thesis using apply_scales [OF w ym x(1) safe x(2,3) inj names, of "''rs''" "''web.yaml''"] w unfolding one by blast
qed

subsection \<open>Applying a service\<close>

text \<open>
  C39 (services keep their address): applying a service manifest stores the manifest's selector and ports. A new service
  without an address gets one of 10.96.0.0/24 above every address in use, provided one is left; a service that exists keeps
  the address it has when the manifest names none, so that applying the same manifest again leaves its spec as it is.
\<close>

theorem apply_service_keeps_address:
  assumes "connected cl sv sl view w a" and "ym_kind ym manifest = Inr ''Service''" and "ym_svc ym manifest = Inr s"
    and "url_safe n" and "n = om_name (svc_metadata s)" and "sv_cluster_ip (svc_spec s) = None"
    and "\<forall>m x j. ap_svcs a m = Some x \<longrightarrow> ip_index x = Some j \<longrightarrow> j < 255"
  shows "\<exists>w1 u w2 v. kubectl_apply ym cl path (Inr manifest) w =
      (w1, println (''service/'' @ n @ (if ap_svcs a n = None then '' created'' else '' replaced'')), Some (Inr ())) \<and>
    connected cl sv sl view w1 (a\<lparr>ap_svcs := (ap_svcs a)(n \<mapsto> u), ap_rv := saturating_succ (ap_rv a)\<rparr>) \<and>
    sv_selector (svc_spec u) = sv_selector (svc_spec s) \<and> sv_port (svc_spec u) = sv_port (svc_spec s) \<and>
    sv_target_port (svc_spec u) = sv_target_port (svc_spec s) \<and>
    (case ap_svcs a n of
       None \<Rightarrow> \<exists>idx \<le> 255. sv_cluster_ip (svc_spec u) = Some (cluster_ip_of idx) \<and>
         (\<forall>m x j. ap_svcs a m = Some x \<longrightarrow> ip_index x = Some j \<longrightarrow> j < idx)
     | Some e \<Rightarrow> sv_cluster_ip (svc_spec u) = sv_cluster_ip (svc_spec e)) \<and>
    kubectl_apply ym cl path (Inr manifest) w1 = (w2, println (''service/'' @ n @ '' replaced''), Some (Inr ())) \<and>
    connected cl sv sl view w2 (a\<lparr>ap_svcs := (ap_svcs a)(n \<mapsto> v), ap_rv := saturating_succ (saturating_succ (ap_rv a))\<rparr>) \<and>
    svc_spec v = svc_spec u"
proof -
  have room: "\<exists>y. svc_filled a s y" using assms(6,7) by (auto simp: svc_filled_def intro!: exI [of _ "255 :: nat"])
  have safe: "url_safe (om_name (svc_metadata s))" using assms(4,5) by simp
  obtain w1 u where u: "apply_service cl s w = (w1, println (''service/'' @ n @ verdict (ap_svcs a n)), Some (Inr ()))"
      "connected cl sv sl view w1 (a\<lparr>ap_svcs := (ap_svcs a)(n \<mapsto> u), ap_rv := saturating_succ (ap_rv a)\<rparr>)"
      "(svc_spec u)\<lparr>sv_cluster_ip := None\<rparr> = (svc_spec s)\<lparr>sv_cluster_ip := None\<rparr>"
      "case ap_svcs a n of None \<Rightarrow> \<exists>y. svc_filled a s y \<and> sv_cluster_ip (svc_spec u) = sv_cluster_ip (svc_spec y)
        | Some e \<Rightarrow> sv_cluster_ip (svc_spec u) = sv_cluster_ip (svc_spec e)"
    using apply_service_effect [OF assms(1) safe room, folded assms(5), unfolded assms(6) option.case] by blast
  let ?a1 = "a\<lparr>ap_svcs := (ap_svcs a)(n \<mapsto> u), ap_rv := saturating_succ (ap_rv a)\<rparr>"
  obtain w2 v where v: "apply_service cl s w1 = (w2, println (''service/'' @ n @ '' replaced''), Some (Inr ()))"
      "connected cl sv sl view w2 (?a1\<lparr>ap_svcs := (ap_svcs ?a1)(n \<mapsto> v), ap_rv := saturating_succ (ap_rv ?a1)\<rparr>)"
      "(svc_spec v)\<lparr>sv_cluster_ip := None\<rparr> = (svc_spec s)\<lparr>sv_cluster_ip := None\<rparr>" "sv_cluster_ip (svc_spec v) = sv_cluster_ip (svc_spec u)"
    using apply_service_effect [OF u(2) safe, folded assms(5), unfolded assms(6) option.case] by (simp add: verdict_def del: split_paired_Ex) blast
  have parts: "sv_selector x = sv_selector y \<and> sv_port x = sv_port y \<and> sv_target_port x = sv_target_port y"
    if "x\<lparr>sv_cluster_ip := None\<rparr> = y\<lparr>sv_cluster_ip := None\<rparr>" for x y :: service_spec
    using that by (cases x; cases y) simp
  have same: "svc_spec v = svc_spec u" using parts [OF u(3)] parts [OF v(3)] v(4) by simp
  have ip: "case ap_svcs a n of
       None \<Rightarrow> \<exists>idx \<le> 255. sv_cluster_ip (svc_spec u) = Some (cluster_ip_of idx) \<and>
         (\<forall>m x j. ap_svcs a m = Some x \<longrightarrow> ip_index x = Some j \<longrightarrow> j < idx)
     | Some e \<Rightarrow> sv_cluster_ip (svc_spec u) = sv_cluster_ip (svc_spec e)"
    using u(4) assms(6) by (auto simp: svc_filled_def set_cluster_ip_def split: option.splits)
  show ?thesis using u(1,2) v(1,2) parts [OF u(3)] same ip assms(2,3)
    by (intro exI [of _ w1] exI [of _ u] exI [of _ w2] exI [of _ v]) (simp add: kubectl_apply_def parsed_def verdict_def split: option.splits)
qed

theorem apply_service_keeps_address_witness:
  "\<exists>w w1 out u a1. connected demo_client demo_server map_tree fmlookup w demo_cluster \<and>
     kubectl_apply (demo_yaml running_pod demo_rs (demo_service ''s'')) demo_client ''s.yaml'' (Inr ''Service'') w = (w1, out, Some (Inr ())) \<and>
     connected demo_client demo_server map_tree fmlookup w1 a1 \<and> ap_svcs a1 ''s'' = Some u \<and> sv_port (svc_spec u) = 80 \<and>
     sv_cluster_ip (svc_spec u) \<noteq> None"
proof -
  obtain w where w: "connected demo_client demo_server map_tree fmlookup w demo_cluster" by (rule demo_connected)
  let ?ym = "demo_yaml running_pod demo_rs (demo_service ''s'')"
  have ym: "ym_kind ?ym ''Service'' = Inr ''Service''" "ym_svc ?ym ''Service'' = Inr (demo_service ''s'')" by (simp_all add: demo_yaml_def)
  have s: "''s'' = om_name (svc_metadata (demo_service ''s''))" "sv_cluster_ip (svc_spec (demo_service ''s'')) = None"
      "sv_port (svc_spec (demo_service ''s'')) = 80" by (simp_all add: demo_service_def demo_meta_def)
  have safe: "url_safe ''s''" and free: "ap_svcs demo_cluster ''s'' = None" by (simp_all add: url_safe_def demo_contents)
  have used: "\<forall>m x j. ap_svcs demo_cluster m = Some x \<longrightarrow> ip_index x = Some j \<longrightarrow> j < 255"
    by (simp add: demo_contents ip_index_def set_rv_def Service_kind_def demo_svc_def)
  obtain w1 u where r: "kubectl_apply ?ym demo_client ''s.yaml'' (Inr ''Service'') w = (w1, println (''service/'' @ ''s'' @ '' created''), Some (Inr ()))"
      "connected demo_client demo_server map_tree fmlookup w1
        (demo_cluster\<lparr>ap_svcs := (ap_svcs demo_cluster)(''s'' \<mapsto> u), ap_rv := saturating_succ (ap_rv demo_cluster)\<rparr>)"
      "sv_port (svc_spec u) = 80" "sv_cluster_ip (svc_spec u) \<noteq> None"
    using apply_service_keeps_address [OF w ym safe s(1,2) used, of "''s.yaml''"] free s(3) by (simp del: split_paired_Ex) blast
  then show ?thesis using w
    by (intro exI [of _ w] exI [of _ w1] exI [of _ "println (''service/'' @ ''s'' @ '' created'')"] exI [of _ u]
        exI [of _ "demo_cluster\<lparr>ap_svcs := (ap_svcs demo_cluster)(''s'' \<mapsto> u), ap_rv := saturating_succ (ap_rv demo_cluster)\<rparr>"]) simp
qed

subsection \<open>Deleting\<close>

text \<open>
  C40 (delete undoes apply): when a manifest of a new pod is applied and the pod is then deleted by name, the cluster holds
  the objects it held before, at a version two higher. A further delete prints nothing, fails with the message that
  the pod is not found, and changes nothing.
\<close>

theorem apply_then_delete:
  assumes "connected (client_new server http kc) sv sl view w a" and "read_file path = Inr manifest"
    and "ym_kind ym manifest = Inr ''Pod''" and "ym_pod ym manifest = Inr p" and "validate_pod p = Inr ()"
    and "url_safe n" and "n = om_name (pod_metadata p)" and "ap_pods a n = None" and "resource \<in> {''pod'', ''pods''}"
  shows "\<exists>w1 w2 w3. kubectl_main ym ck read_file server http kc (Cmd_Apply path) w = (w1, println (''pod/'' @ n @ '' created''), Some (Inr ())) \<and>
    kubectl_main ym ck read_file server http kc (Cmd_Delete resource n) w1 = (w2, println (''pod/'' @ n @ '' deleted''), Some (Inr ())) \<and>
    connected (client_new server http kc) sv sl view w2 (a\<lparr>ap_rv := saturating_succ (saturating_succ (ap_rv a))\<rparr>) \<and>
    kubectl_main ym ck read_file server http kc (Cmd_Delete resource n) w2 =
      (w3, [], Some (Inl (Msg (''pod/'' @ debug_str n @ '' not found'')))) \<and>
    connected (client_new server http kc) sv sl view w3 (a\<lparr>ap_rv := saturating_succ (saturating_succ (ap_rv a))\<rparr>)"
proof -
  let ?cl = "client_new server http kc"
  obtain w1 u where u: "apply_pod ?cl p w = (w1, println (''pod/'' @ n @ '' created''), Some (Inr ()))"
      "connected ?cl sv sl view w1 (a\<lparr>ap_pods := (ap_pods a)(n \<mapsto> u), ap_rv := saturating_succ (ap_rv a)\<rparr>)"
    using apply_pod_effect [OF assms(1,5) assms(6) [unfolded assms(7)], folded assms(7)] assms(8)
    by (simp add: verdict_def del: split_paired_Ex) blast
  let ?a1 = "a\<lparr>ap_pods := (ap_pods a)(n \<mapsto> u), ap_rv := saturating_succ (ap_rv a)\<rparr>"
    and ?a2 = "a\<lparr>ap_rv := saturating_succ (saturating_succ (ap_rv a))\<rparr>"
  have a2: "stored pods_part n None ?a1 = ?a2" using assms(8) by (simp add: stored_parts fun_upd_idem)
  obtain w2 where w2: "delete_pod_cmd ?cl n w1 = (w2, println (''pod/'' @ n @ '' deleted''), Some (Inr ()))"
      "connected ?cl sv sl view w2 ?a2"
    using pod_manifests.delete_removes [OF u(2), of n u "''pod''"] unfolding delete_shapes a2 by (auto simp: part_gets)
  obtain w3 where w3: "delete_pod_cmd ?cl n w2 = (w3, [], Some (Inl (Msg (''pod/'' @ debug_str n @ '' not found''))))"
      "connected ?cl sv sl view w3 ?a2"
    using pod_manifests.delete_absent [OF w2(2) assms(6), of "''pod''"] assms(8) unfolding delete_shapes by (auto simp: part_gets)
  have "kubectl_delete ?cl resource n = delete_pod_cmd ?cl n" using assms(9) by (auto simp: kubectl_delete_def)
  then show ?thesis using u(1) w2 w3 assms(2-4)
    by (intro exI [of _ w1] exI [of _ w2] exI [of _ w3]) (simp add: kubectl_apply_def parsed_def)
qed

theorem apply_then_delete_witness:
  "\<exists>w w1 w2. connected demo_client demo_server map_tree fmlookup w demo_cluster \<and>
     kubectl_main (demo_yaml (demo_pod ''b'') demo_rs demo_svc) demo_clock (\<lambda>_. Inr ''Pod'') ''http://one'' (cn_http demo_client) (cn_kc demo_client)
       (Cmd_Apply ''b.yaml'') w = (w1, println (''pod/'' @ ''b'' @ '' created''), Some (Inr ())) \<and>
     kubectl_main (demo_yaml (demo_pod ''b'') demo_rs demo_svc) demo_clock (\<lambda>_. Inr ''Pod'') ''http://one'' (cn_http demo_client) (cn_kc demo_client)
       (Cmd_Delete ''pod'' ''b'') w1 = (w2, println (''pod/'' @ ''b'' @ '' deleted''), Some (Inr ()))"
proof -
  obtain w where w: "connected demo_client demo_server map_tree fmlookup w demo_cluster" by (rule demo_connected)
  have cl: "client_new ''http://one'' (cn_http demo_client) (cn_kc demo_client) = demo_client"
    by (simp add: client_new_def demo_client_def)
  let ?ym = "demo_yaml (demo_pod ''b'') demo_rs demo_svc"
  have ym: "ym_kind ?ym ''Pod'' = Inr ''Pod''" "ym_pod ?ym ''Pod'' = Inr (demo_pod ''b'')" by (simp_all add: demo_yaml_def)
  have p: "validate_pod (demo_pod ''b'') = Inr ()" "''b'' = om_name (pod_metadata (demo_pod ''b''))"
    by (simp_all add: validate_pod_def demo_pod_def demo_meta_def)
  have n: "url_safe ''b''" "ap_pods demo_cluster ''b'' = None" by (simp_all add: url_safe_def demo_contents)
  have cw: "connected (client_new ''http://one'' (cn_http demo_client) (cn_kc demo_client)) demo_server map_tree fmlookup w demo_cluster"
    unfolding cl by (rule w)
  let ?main = "kubectl_main ?ym demo_clock (\<lambda>_. Inr ''Pod'') ''http://one'' (cn_http demo_client) (cn_kc demo_client)"
  obtain w1 w2 where r: "?main (Cmd_Apply ''b.yaml'') w = (w1, println (''pod/'' @ ''b'' @ '' created''), Some (Inr ()))"
      "?main (Cmd_Delete ''pod'' ''b'') w1 = (w2, println (''pod/'' @ ''b'' @ '' deleted''), Some (Inr ()))"
    using apply_then_delete [where read_file = "\<lambda>_. Inr ''Pod''" and path = "''b.yaml''" and manifest = "''Pod''" and resource = "''pod''",
        OF cw refl ym p(1) n(1) p(2) n(2) insertI1, of demo_clock] by (elim exE conjE) (rule that)
  show ?thesis using w r by (intro exI [of _ w] exI [of _ w1] exI [of _ w2] conjI)
qed

end
