(* ===== verification/Loop_Properties.thy ===== *)
theory Loop_Properties
  imports Controller_Properties
begin

text \<open>
  Whole control loops against the API server: informer, resync, queue, worker, reconcile function, client, routes, handlers
  and store together.
\<close>


text \<open>
  C25 (the endpoints controller settles): whatever events the informers have queued, after a resync and with no further event
  the worker empties its queue without a failure and then waits. All services then have the endpoints of their
  running pods, and a service that was seen to be deleted has none. Endpoints whose service was deleted without the
  service informer seeing it stay as they are: the resync lists services only.
\<close>

theorem endpoints_settle:
  assumes "connected cl sv sl view w a" and "wq_step\<^sup>*\<^sup>* wq_new q" and "wq_processing q = {}" and "\<forall>k \<in> wq_dirty q. url_safe k"
    and "\<forall>s \<in> set (seen_objects evs). url_safe (om_name (svc_metadata s))"
  shows "\<exists>w1 q1 c b. ep_resync (client_api cl) (service_informer evs (w, q)) = (w1, q1) \<and>
    (loop_step (ep_worker (client_api cl)))\<^sup>*\<^sup>* (started w1 q1 rl) c \<and> at_rest c \<and> connected cl sv sl view (ct_world c) b \<and>
    ap_pods b = ap_pods a \<and> ap_svcs b = ap_svcs a \<and>
    (\<forall>n. map_option ep_addresses (ap_eps b n) =
      (if n \<in> dom (ap_svcs a) \<union> wq_dirty q \<union> (\<lambda>s. om_name (svc_metadata s)) ` set (seen_objects evs)
       then map_option (true_backends a) (ap_svcs a n) else map_option ep_addresses (ap_eps a n)))"
proof -
  let ?ks = "map (\<lambda>s. om_name (svc_metadata s)) (seen_objects evs)"
  let ?q = "fold wq_add ?ks q"
  have q: "wq_inv ?q" "wq_processing ?q = {}" "\<forall>k \<in> wq_dirty ?q. url_safe k"
    using fold_add(1) [OF wq_reach_inv [OF assms(2)]] assms(3-5) by (auto simp: fold_add(2,3))
  have d: "dom (ap_svcs a) \<union> wq_dirty ?q = dom (ap_svcs a) \<union> wq_dirty q \<union> (\<lambda>s. om_name (svc_metadata s)) ` set (seen_objects evs)"
    by (auto simp: fold_add(2))
  from net.ep_loop_settles [OF assms(1) q, of rl] show ?thesis unfolding service_informer_adds d settled_addresses_def by blast
qed

theorem endpoints_settle_witness:
  "\<exists>w w1 q1 c b. connected demo_client demo_server map_tree fmlookup w demo_cluster \<and>
     ep_resync (client_api demo_client) (service_informer [Inr \<lparr>we_type = Deleted, we_object = demo_svc\<lparr>svc_metadata := demo_meta ''old''\<rparr>\<rparr>] (w, wq_new)) = (w1, q1) \<and>
     (loop_step (ep_worker (client_api demo_client)))\<^sup>*\<^sup>* (started w1 q1 Map.empty) c \<and>
     connected demo_client demo_server map_tree fmlookup (ct_world c) b \<and>
     map_option ep_addresses (ap_eps b ''web'') = Some [\<lparr>ea_ip = ''10.244.0.2'', ea_port = 8080\<rparr>] \<and> ap_eps b ''old'' = None"
proof -
  obtain w where w: "connected demo_client demo_server map_tree fmlookup w demo_cluster" by (rule demo_connected)
  let ?evs = "[Inr \<lparr>we_type = Deleted, we_object = demo_svc\<lparr>svc_metadata := demo_meta ''old''\<rparr>\<rparr>] :: (client_error + service watch_event) list"
  let ?svc = "set_rv Service_kind 3 demo_svc" and ?p = "set_rv Pod_kind 1 running_pod"
  have svc: "svc_spec ?svc = svc_spec demo_svc" by (simp add: set_rv_def Service_kind_def)
  have p: "backend_ip ?p = Some ''10.244.0.2''" "pod_matches ?p demo_labels"
    by (simp_all add: backend_ip_def pod_matches_def set_rv_def Pod_kind_def running_pod_def demo_labels_def)
  then have "backend_pods demo_cluster ?svc = {''a''}"
    unfolding backend_pods_def svc by (auto simp: demo_contents demo_svc_def)
  then have addrs: "true_backends demo_cluster ?svc = [\<lparr>ea_ip = ''10.244.0.2'', ea_port = 8080\<rparr>]"
    using p(1) unfolding true_backends_def svc by (simp add: demo_contents demo_svc_def)
  have old: "\<forall>s \<in> set (seen_objects ?evs). url_safe (om_name (svc_metadata s))" "om_name (svc_metadata (demo_svc\<lparr>svc_metadata := demo_meta ''old''\<rparr>)) = ''old''"
    by (simp_all add: demo_meta_def url_safe_def)
  have q: "wq_processing wq_new = {}" "wq_dirty wq_new = {}" by (simp_all add: wq_new_def)
  then have safe: "\<forall>k \<in> wq_dirty wq_new. url_safe k" by simp
  obtain w1 q1 c b where r: "ep_resync (client_api demo_client) (service_informer ?evs (w, wq_new)) = (w1, q1)"
      "(loop_step (ep_worker (client_api demo_client)))\<^sup>*\<^sup>* (started w1 q1 Map.empty) c"
      "connected demo_client demo_server map_tree fmlookup (ct_world c) b"
      "\<forall>n. map_option ep_addresses (ap_eps b n) =
        (if n \<in> dom (ap_svcs demo_cluster) \<union> wq_dirty wq_new \<union> (\<lambda>s. om_name (svc_metadata s)) ` set (seen_objects ?evs)
         then map_option (true_backends demo_cluster) (ap_svcs demo_cluster n) else map_option ep_addresses (ap_eps demo_cluster n))"
    using endpoints_settle [OF w rtranclp.rtrancl_refl q(1) safe old(1), of Map.empty] by blast
  have "map_option ep_addresses (ap_eps b ''web'') = Some [\<lparr>ea_ip = ''10.244.0.2'', ea_port = 8080\<rparr>]" "ap_eps b ''old'' = None"
    using r(4) [rule_format, of "''web''"] r(4) [rule_format, of "''old''"] addrs old(2) by (simp_all add: demo_contents q(2))
  then show ?thesis using w r(1-3) by blast
qed

text \<open>
  C26 (the scheduler settles): after a resync and with no further event the scheduler's worker empties its queue without a failure
  and then waits, provided the set of ready nodes is not empty and stays the same meanwhile. Every pod that was not
  bound is then bound to a ready node, bound pods and all other objects are untouched, and node loads that differed by at
  most one pod still do.
\<close>

theorem scheduler_settles:
  assumes "connected cl sv sl view w a" and "wq_step\<^sup>*\<^sup>* wq_new q" and "wq_processing q = {}" and "\<forall>k \<in> wq_dirty q. url_safe k"
    and "ready_nodes prs now a ready"
  shows "\<exists>w1 q1 c b. sched_resync (client_api cl) (w, q) = (w1, q1) \<and>
    (loop_step (\<lambda>k. sched_worker (client_api cl) prs (now k) k))\<^sup>*\<^sup>* (started w1 q1 rl) c \<and> at_rest c \<and>
    connected cl sv sl view (ct_world c) b \<and> pods_only a b \<and>
    (\<forall>n. case ap_pods a n of
       None \<Rightarrow> ap_pods b n = None
     | Some p \<Rightarrow> (case pc_node_name (pod_spec p) of
         Some m \<Rightarrow> ap_pods b n = Some p
       | None \<Rightarrow> \<exists>u m. ap_pods b n = Some u \<and> pc_node_name (pod_spec u) = Some m \<and> m \<in> ready)) \<and>
    (balanced a ready \<longrightarrow> balanced b ready)"
proof -
  have "(case ap_pods a n of None \<Rightarrow> ap_pods b n = None
     | Some p \<Rightarrow> (case pc_node_name (pod_spec p) of Some m \<Rightarrow> ap_pods b n = Some p
       | None \<Rightarrow> \<exists>u m. ap_pods b n = Some u \<and> pc_node_name (pod_spec u) = Some m \<and> m \<in> ready)) = placed a ready UNIV b n" for b n
    by (auto simp: placed_def split: option.splits)
  with net.sched_loop_settles [OF assms(1) wq_reach_inv [OF assms(2)] assms(3-5), of rl] show ?thesis by presburger
qed

theorem scheduler_settles_witness:
  "\<exists>w w1 q1 c b u. connected demo_client demo_server map_tree fmlookup w demo_cluster \<and>
     sched_resync (client_api demo_client) (w, wq_new) = (w1, q1) \<and>
     (loop_step (\<lambda>k. sched_worker (client_api demo_client) (\<lambda>_. Some 0) 5 k))\<^sup>*\<^sup>* (started w1 q1 Map.empty) c \<and> at_rest c \<and>
     connected demo_client demo_server map_tree fmlookup (ct_world c) b \<and> ap_pods b ''a'' = Some u \<and> pc_node_name (pod_spec u) = Some ''n1''"
proof -
  obtain w where w: "connected demo_client demo_server map_tree fmlookup w demo_cluster" by (rule demo_connected)
  let ?prs = "\<lambda>_ :: string. Some (0 :: int)" and ?p = "set_rv Pod_kind 1 running_pod"
  have "is_schedulable ?prs 5 (set_rv Node_kind 4 demo_node)"
    by (simp add: is_schedulable_def is_ready_def set_rv_def Node_kind_def demo_node_def num_seconds_def STALENESS_WINDOW_SECS_def)
  then have ready: "ready_nodes ?prs (\<lambda>_. 5) demo_cluster {''n1''}" by (auto simp: ready_nodes_def demo_contents)
  have q: "wq_processing wq_new = {}" "\<forall>k \<in> wq_dirty wq_new. url_safe k" by (simp_all add: wq_new_def)
  have p: "ap_pods demo_cluster ''a'' = Some ?p" "pc_node_name (pod_spec ?p) = None"
    by (simp_all add: demo_contents set_rv_def Pod_kind_def running_pod_def demo_pod_def)
  obtain w1 q1 c b where r: "sched_resync (client_api demo_client) (w, wq_new) = (w1, q1)"
      "(loop_step (\<lambda>k. sched_worker (client_api demo_client) ?prs 5 k))\<^sup>*\<^sup>* (started w1 q1 Map.empty) c" "at_rest c"
      "connected demo_client demo_server map_tree fmlookup (ct_world c) b"
      "\<forall>n. case ap_pods demo_cluster n of
         None \<Rightarrow> ap_pods b n = None
       | Some p \<Rightarrow> (case pc_node_name (pod_spec p) of
           Some m \<Rightarrow> ap_pods b n = Some p
         | None \<Rightarrow> \<exists>u m. ap_pods b n = Some u \<and> pc_node_name (pod_spec u) = Some m \<and> m \<in> {''n1''})"
    using scheduler_settles [OF w rtranclp.rtrancl_refl q ready, of Map.empty] by blast
  have "\<exists>u. ap_pods b ''a'' = Some u \<and> pc_node_name (pod_spec u) = Some ''n1''"
    using r(5) [rule_format, of "''a''"] unfolding p(1) option.case p(2) by blast
  then show ?thesis using w r(1-4) by blast
qed

end
