(* ===== verification/Spec2Isabelle.thy ===== *)
theory Spec2Isabelle
  imports Kubelet_Properties Proxy_Properties Deployment_Properties Kubectl_Properties Loop_Properties
begin

text \<open>
  A verification of my-k8s, a small Kubernetes in Rust (the sources are under \<^verbatim>\<open>src/src\<close>).

  \<^bold>\<open>The program.\<close> API servers store objects of five kinds (pods, nodes, ReplicaSets, services, endpoints) in a
  \<^verbatim>\<open>sled\<close> database. A server runs alone or as a replica: then every write is a command that a Raft log orders and an
  apply loop executes on each replica. Controllers, the scheduler and the node agents reach the servers only through an
  HTTP client: they list and watch objects, put the keys of what changed into a work queue, and a worker reconciles
  one key after another.

  \<^bold>\<open>Raft.\<close> \<^verbatim>\<open>Raft_Log\<close> (\<^verbatim>\<open>raft/log.rs\<close>, \<^verbatim>\<open>raft/message.rs\<close>), \<^verbatim>\<open>Raft_Core\<close> (\<^verbatim>\<open>raft/core.rs\<close>: the
  record \<open>raft_node\<close>, one definition per handler, effects in the order the code emits them), \<^verbatim>\<open>Raft_Storage\<close>
  (\<^verbatim>\<open>raft/storage.rs\<close> over the tree of \<^verbatim>\<open>Sled\<close>; also what a truncation that is cut short leaves), \<^verbatim>\<open>Raft_Node\<close> (\<^verbatim>\<open>raft/node.rs\<close>: recovery, one turn of the loop, the
  execution of effects). \<^verbatim>\<open>Raft_Steps\<close> and \<^verbatim>\<open>Raft_Effects\<close> show what one step does: the commit rule, that storage
  effects come first and bring the disk to the new state, that no step panics while counters are in range.
  \<^verbatim>\<open>Raft_Protocol\<close> is an abstract protocol with its invariants, \<^verbatim>\<open>Raft_Cluster\<close> a cluster of the code's nodes on a
  network that loses, delays, reorders and duplicates, with crashes between effects and restarts, and the simulation of the one by the
  other; \<^verbatim>\<open>Raft_Safety\<close> has election safety, log matching, leader completeness and state machine safety for it.
  \<^verbatim>\<open>Raft_Transport\<close> (\<^verbatim>\<open>raft/transport.rs\<close>, the route \<^verbatim>\<open>/raft/message\<close>, the start of a replica in
  \<^verbatim>\<open>apiserver/raft_glue.rs\<close> and \<^verbatim>\<open>bin/apiserver.rs\<close>) and \<^verbatim>\<open>Raft_Deployment\<close> (the run loop with its biased choice, bounded
  channels, disks, requests in flight, crashes between the effects of a turn) model replicas as they are deployed. The transport is the
  locale \<open>raft_transport\<close>, interpreted on the HTTP requests and the text of the peers argument;
  \<^verbatim>\<open>Deployment_Properties\<close> shows that a deployment refines the cluster, so that its replicas agree.

  \<^bold>\<open>Objects and store.\<close> \<^verbatim>\<open>Resources\<close> (\<^verbatim>\<open>meta.rs\<close> and the five kinds; the trait is the locale \<open>resource_kind\<close>),
  \<^verbatim>\<open>Api_Storage\<close> (\<^verbatim>\<open>apiserver/storage.rs\<close>: transactions, versions, broadcasts) with its refinement of a map with one
  counter, \<^verbatim>\<open>Api_Versions\<close> (gap-free versions, no lost update), \<^verbatim>\<open>Api_Watch\<close> (\<^verbatim>\<open>apiserver/watch.rs\<close>: what a
  watcher ends with, from any version, with any filter and with writes between the scan and the reading of the counter, and that
  errors end the stream), \<^verbatim>\<open>Wire\<close> (concrete codecs, which show that the assumptions
  about JSON can be met).

  \<^bold>\<open>Replicated API.\<close> \<^verbatim>\<open>Api_Applier\<close> (\<^verbatim>\<open>apiserver/command.rs\<close>, \<^verbatim>\<open>apiserver/applier.rs\<close>, the apply loop of
  \<^verbatim>\<open>apiserver/raft_glue.rs\<close>) refines the joint specification \<open>api_spec\<close>; \<^verbatim>\<open>Api_Replicas\<close> concludes with the safety of
  Raft that replicas agree, and shows what a restart on a surviving store does.

  \<^bold>\<open>Handlers.\<close> \<^verbatim>\<open>Api_Server\<close> (errors, proposer, redirects), \<^verbatim>\<open>Api_Handlers\<close> (\<^verbatim>\<open>apiserver/handlers.rs\<close>, every handler
  with its direct and its Raft branch), \<^verbatim>\<open>Api_Paths\<close> (a replica that does not believe that it leads never writes, one
  that has lost its leadership without noticing times out; both branches have the same effect and answer), \<^verbatim>\<open>Api_Alloc\<close> (node ranges and cluster addresses stay distinct), \<^verbatim>\<open>Kind_Parts\<close> (the effect of a handler on the
  joint specification), \<^verbatim>\<open>Api_Routes\<close> (\<^verbatim>\<open>apiserver/routes.rs\<close>), \<^verbatim>\<open>Http_Server\<close> (routes, handlers and encodings as
  one server).

  \<^bold>\<open>Clients.\<close> \<^verbatim>\<open>Client\<close> (\<^verbatim>\<open>client.rs\<close>, every method), \<^verbatim>\<open>Workqueue\<close> (\<^verbatim>\<open>controller/workqueue.rs\<close>), \<^verbatim>\<open>Controllers\<close>
  (\<^verbatim>\<open>controller/replicaset.rs\<close>, \<^verbatim>\<open>controller/endpoints.rs\<close>, \<^verbatim>\<open>scheduler.rs\<close> and their managers), \<^verbatim>\<open>Ipam\<close>
  (\<^verbatim>\<open>ipam.rs\<close>). The interface between controllers and API is the locale \<open>cluster\<close> of \<^verbatim>\<open>Cluster_Api\<close>: each call performs an
  operation of \<open>api_spec\<close>. \<^verbatim>\<open>Replicaset_Convergence\<close> and \<^verbatim>\<open>Service_Placement\<close> prove the control loops against it,
  \<^verbatim>\<open>Http_Cluster\<close> interprets it on the client connected to the server and store, with the refused requests and the opening of
  watches besides, and
  \<^verbatim>\<open>Controller_Properties\<close> states the results for the whole stack. \<^verbatim>\<open>Control_Loops\<close> has the worker loop over the queue; the
  turn of a controller is the locale \<open>control_loop\<close>, of which every lawful cluster is an instance for the endpoints controller and
  for the scheduler (two sublocales of \<open>cluster\<close>). \<^verbatim>\<open>Loop_Properties\<close> concludes that both loops settle: informer,
  resync, queue, worker and API together reach a state at rest with the right endpoints and placements.

  \<^bold>\<open>Command line.\<close> \<^verbatim>\<open>Kubectl\<close> (\<^verbatim>\<open>bin/mykubectl.rs\<close>: apply, get with its tables, watch, delete, with what each prints and how
  each ends; \<^verbatim>\<open>Text_Format\<close> has joining and padding). \<^verbatim>\<open>Kubectl_Laws\<close> states what a kind of manifests relies on as the
  locale \<open>manifest_kind\<close>, an extension of \<open>kind_part\<close>, with pods, ReplicaSets and services as its interpretations;
  \<^verbatim>\<open>Kubectl_Properties\<close> has the effect of the commands on the cluster and on the controllers.

  \<^bold>\<open>Service proxy.\<close> \<^verbatim>\<open>Kube_Proxy\<close> (\<^verbatim>\<open>kube_proxy.rs\<close>: the plan of rules, the commands in their order, the loops). The
  packet filter is the locale \<open>iptables\<close> of \<^verbatim>\<open>Proxy_Rules\<close>, with a table as its instance; a plan whose rules the filter accepts leaves
  exactly the intended rules. \<^verbatim>\<open>Proxy_Properties\<close> has this for a whole sync, the effect of a refused rule, and the share of
  the traffic that each backend gets.

  \<^bold>\<open>Nodes.\<close> \<^verbatim>\<open>Runtime\<close> (\<^verbatim>\<open>runtime.rs\<close>, \<^verbatim>\<open>runtime/bundle.rs\<close>), \<^verbatim>\<open>Youki\<close> (\<^verbatim>\<open>runtime/youki.rs\<close>) and \<^verbatim>\<open>Sandbox\<close>
  (\<^verbatim>\<open>runtime/sandbox.rs\<close>) model the container runtime, \<^verbatim>\<open>Kubelet\<close> (\<^verbatim>\<open>store.rs\<close>, \<^verbatim>\<open>reconciler.rs\<close>) the node agent with all its
  methods and its biased select loop. The contract between runtime and sandboxes is the locale \<open>runtime_handles\<close>, extended by the
  host in \<open>pod_host\<close> (\<^verbatim>\<open>Sandbox_Laws\<close>); both are interpreted on the implementation with any container library.
  \<^verbatim>\<open>Kubelet_Laws\<close> shows that every operation keeps the agent's state well-formed, its addresses apart as long as no pod
  is created that already carries one, \<^verbatim>\<open>Node_Cluster\<close> extends the locale
  \<open>cluster\<close> by the agent's status reports, and \<^verbatim>\<open>Kubelet_Properties\<close> has the results: well-formed states, restarts
  and what their back-off spaces, the end of the wait for a container when the clock runs (\<open>clock_ok\<close>), status reports against the whole API stack, and two defects of address handling.

  \<^bold>\<open>Parameters.\<close> What is not in the repository is an argument: the \<^verbatim>\<open>sled\<close> tree (\<open>sled_laws\<close>: a map with ordered
  prefix scans), JSON and text codecs (\<open>json_laws\<close>, \<open>wired\<close>: decoding inverts encoding), the HTTP transport,
  random identifiers, clocks, the hash of the standard library, the iteration order of hash maps, the container library,
  external commands and files, and what a receiver or a network yields; a hash map of peers is listed in
  any order of its keys (\<open>lists_keys\<close>), which may differ at every start. Each hypothesis has a concrete instance in a
  witness.

  \<^bold>\<open>Bounds.\<close> Integers are natural numbers with the width written out where the code can reach it: \<open>u64\<close> version
  counters saturate, log counters panic beyond \<open>u64_max\<close>, retry counts are \<open>u32\<close>, replica counts are cut to 32 bits,
  host numbers are octets; the generator of election timeouts works on 64-bit words. Instants are microseconds; restart
  counts are natural numbers, since 2 to the 32 restarts with a waiting time of minutes are out of reach. No definition uses
  fuel; loops are structural or have a termination proof, except the wait for a container, which returns only if the clock
  advances: \<open>poll_loop\<close> is a partial function, and its result is proved to exist.

  \<^bold>\<open>Not modelled.\<close> The binaries apart from the command line client and the start of a replica (argument parsing, logging,
  spawning of tasks, signals) and \<^verbatim>\<open>bin/raft-demo.rs\<close>, which runs the modelled replica with a consumer that prints; a peer's
  HTTP server answering a request with an error is the loss of the packet. The YAML and argument libraries are parameters.
  Tasks run as atomic turns: the interleavings that matter are explicit (cluster and deployment steps, queue and worker steps,
  the gap between a scan and a counter read, two overlapping allocations, the order of the agent's polls), others within
  one call are not. A crash falls between two effects of a replica: one that falls inside a storage operation, after part of its
  keys, is not part of the cluster and the deployment, and their theorems do not cover it (\<open>torn_truncation\<close> has what it leaves). The text on the terminal is modelled, the log output is not.
\<close>

end
